(* ===== verification/Pool_Prelude.thy ===== *)
theory Pool_Prelude
  imports Complex_Main "HOL-Library.Multiset" "HOL-Library.Char_ord"
    "HOL-Library.List_Lexorder" "HOL-Library.Product_Lexorder"
begin

text \<open>
  Shared vocabulary of the development: the errors and results of the code, the JavaScript
  values that reach the code unvalidated, JavaScript's stable sort with a comparator, and the
  few SQL shapes (\<open>UPDATE .. WHERE\<close>, \<open>ORDER BY .. LIMIT 1\<close>) that the stores use. The generic
  lemmas about them are collected in \<open>rows\<close>.
\<close>

named_theorems rows \<open>facts about table operations\<close>

section \<open>Errors and results\<close>

text \<open>
  \<open>UserPoolError status code retryAfter\<close> is the class of that name in
  \<^verbatim>\<open>src/proxy/src/userPool/config.ts\<close>; \<open>RangeError\<close> and \<open>PlainError\<close> are JavaScript's own errors with
  their message, \<open>SqlConstraint\<close> a violated constraint reported by the database driver.
\<close>

datatype pool_error =
    UserPoolError int string int
  | RangeError string
  | PlainError string
  | SqlConstraint string

type_synonym 'a res = "pool_error + 'a"

fun res_bind :: "'a res \<Rightarrow> ('a \<Rightarrow> 'b res) \<Rightarrow> 'b res" where
  "res_bind (Inl e) f = Inl e"
| "res_bind (Inr x) f = f x"

lemma res_bind_Inr: "res_bind m f = Inr y \<longleftrightarrow> (\<exists>x. m = Inr x \<and> f x = Inr y)"
  by (cases m) auto

lemma res_bind_Inl: "res_bind m f = Inl e \<longleftrightarrow> m = Inl e \<or> (\<exists>x. m = Inr x \<and> f x = Inl e)"
  by (cases m) auto

section \<open>JavaScript values\<close>

text \<open>
  Values of unknown type (parsed JSON bodies, environment strings). Finite numbers are rationals:
  every IEEE double is one. Object properties keep their order.
\<close>

datatype js =
    JUndefined
  | JNull
  | JBool bool
  | JNum rat
  | JNaN
  | JInfinity bool
  | JStr string
  | JArr "js list"
  | JObj "(string \<times> js) list"

definition MAX_SAFE_INTEGER :: int where
  "MAX_SAFE_INTEGER = 2 ^ 53 - 1"

definition is_int_rat :: "rat \<Rightarrow> bool" where
  "is_int_rat q \<longleftrightarrow> of_int \<lfloor>q\<rfloor> = q"

fun Number_isInteger :: "js \<Rightarrow> bool" where
  "Number_isInteger (JNum q) = is_int_rat q"
| "Number_isInteger _ = False"

fun Number_isSafeInteger :: "js \<Rightarrow> bool" where
  "Number_isSafeInteger (JNum q) = (is_int_rat q \<and> \<bar>\<lfloor>q\<rfloor>\<bar> \<le> MAX_SAFE_INTEGER)"
| "Number_isSafeInteger _ = False"

text \<open>The integer value of a number that passed \<open>Number_isInteger\<close>.\<close>

fun js_int :: "js \<Rightarrow> int" where
  "js_int (JNum q) = \<lfloor>q\<rfloor>"
| "js_int _ = 0"

fun isRecord :: "js \<Rightarrow> bool" where
  "isRecord (JObj ps) = True"
| "isRecord _ = False"

text \<open>Property read: a missing property is \<open>undefined\<close>. \<open>hasOwn\<close> and \<open>Object.keys\<close> of an object.\<close>

fun js_get :: "js \<Rightarrow> string \<Rightarrow> js" where
  "js_get (JObj ps) k = (case map_of ps k of None \<Rightarrow> JUndefined | Some v \<Rightarrow> v)"
| "js_get _ k = JUndefined"

fun js_keys :: "js \<Rightarrow> string list" where
  "js_keys (JObj ps) = map fst ps"
| "js_keys _ = []"

lemma is_int_rat_of_int [simp]: "is_int_rat (of_int n)"
  by (simp add: is_int_rat_def)

lemma is_int_rat_numeral [simp]: "is_int_rat (numeral n)" "is_int_rat 0" "is_int_rat 1"
  by (simp_all add: is_int_rat_def)

section \<open>Sorting with a comparator\<close>

text \<open>
  \<open>Array.prototype.sort\<close> is a stable sort by a comparator that returns a number. A comparator that
  agrees with the order of a key computes the library's \<open>sort_key\<close>; the locale holds what the
  clients of the sort rely on.
\<close>

fun js_insert :: "('a \<Rightarrow> 'a \<Rightarrow> int) \<Rightarrow> 'a \<Rightarrow> 'a list \<Rightarrow> 'a list" where
  "js_insert cmp x [] = [x]"
| "js_insert cmp x (y # ys) = (if cmp x y \<le> 0 then x # y # ys else y # js_insert cmp x ys)"

fun js_sort :: "('a \<Rightarrow> 'a \<Rightarrow> int) \<Rightarrow> 'a list \<Rightarrow> 'a list" where
  "js_sort cmp [] = []"
| "js_sort cmp (x # xs) = js_insert cmp x (js_sort cmp xs)"

text \<open>\<open>a || b\<close> on numbers: the first comparator decides unless it returns 0.\<close>

definition cmp_or :: "('a \<Rightarrow> 'a \<Rightarrow> int) \<Rightarrow> ('a \<Rightarrow> 'a \<Rightarrow> int) \<Rightarrow> 'a \<Rightarrow> 'a \<Rightarrow> int" where
  "cmp_or c d a b = (if c a b \<noteq> 0 then c a b else d a b)"

lemma mset_js_insert [simp]: "mset (js_insert cmp x xs) = add_mset x (mset xs)"
  by (induction xs) auto

lemma mset_js_sort [simp]: "mset (js_sort cmp xs) = mset xs"
  by (induction xs) auto

lemma set_js_sort [simp]: "set (js_sort cmp xs) = set xs"
  by (metis mset_js_sort set_mset_mset)

lemma length_js_sort [simp]: "length (js_sort cmp xs) = length xs"
  by (metis mset_js_sort size_mset)

lemma distinct_map_js_sort [simp]: "distinct (map f (js_sort cmp xs)) = distinct (map f xs)"
  by (metis mset_eq_imp_distinct_iff mset_js_sort mset_map)

locale key_comparator =
  fixes cmp :: "'a \<Rightarrow> 'a \<Rightarrow> int" and key :: "'a \<Rightarrow> 'k::linorder"
  assumes cmp_le: "cmp a b \<le> 0 \<longleftrightarrow> key a \<le> key b"
begin

lemma js_insert_insort: "js_insert cmp x xs = insort_key key x xs"
  by (induction xs) (auto simp: cmp_le)

lemma js_sort_sort_key: "js_sort cmp xs = sort_key key xs"
  by (induction xs) (auto simp: js_insert_insort sort_key_def)

lemma sorted_js_sort: "sorted (map key (js_sort cmp xs))"
  by (simp add: js_sort_sort_key)

lemma js_sort_perm: "mset xs = mset ys \<Longrightarrow> inj_on key (set xs) \<Longrightarrow> js_sort cmp xs = js_sort cmp ys"
  unfolding js_sort_sort_key by (rule sort_key_eq_sort_key)

lemma js_sort_head_least: "js_sort cmp xs = y # ys \<Longrightarrow> x \<in> set xs \<Longrightarrow> key y \<le> key x"
proof -
  assume *: "js_sort cmp xs = y # ys" and "x \<in> set xs"
  then have "x \<in> set (y # ys)" by (metis set_js_sort)
  then show ?thesis using sorted_js_sort [of xs] * by auto
qed

end

section \<open>Rows of a table\<close>

text \<open>
  A table is the list of its rows. \<open>update_where P f\<close> is \<open>UPDATE .. SET f WHERE P\<close>; a \<open>DELETE\<close> is
  \<open>filter\<close>; \<open>first_by key\<close> is \<open>SELECT .. ORDER BY key LIMIT 1\<close>, and \<open>List.find\<close> a lookup by a unique
  key.
\<close>

definition update_where :: "('a \<Rightarrow> bool) \<Rightarrow> ('a \<Rightarrow> 'a) \<Rightarrow> 'a list \<Rightarrow> 'a list" where
  "update_where P f rs = map (\<lambda>r. if P r then f r else r) rs"

definition first_by :: "('a \<Rightarrow> 'k::linorder) \<Rightarrow> 'a list \<Rightarrow> 'a option" where
  "first_by key rs = (case sort_key key rs of [] \<Rightarrow> None | r # _ \<Rightarrow> Some r)"

definition exists_row :: "('a \<Rightarrow> bool) \<Rightarrow> 'a list \<Rightarrow> bool" where
  "exists_row P rs = list_ex P rs"

definition count_rows :: "('a \<Rightarrow> bool) \<Rightarrow> 'a list \<Rightarrow> nat" where
  "count_rows P rs = length (filter P rs)"

lemma exists_row_iff [rows]: "exists_row P rs \<longleftrightarrow> (\<exists>r \<in> set rs. P r)"
  by (simp add: exists_row_def list_ex_iff)

lemma set_update_where [rows]: "set (update_where P f rs) = (\<lambda>r. if P r then f r else r) ` set rs"
  by (simp add: update_where_def)

lemma length_update_where [simp]: "length (update_where P f rs) = length rs"
  by (simp add: update_where_def)

lemma update_where_Nil [simp]: "update_where P f [] = []"
  by (simp add: update_where_def)

lemma update_where_Cons [simp]:
  "update_where P f (r # rs) = (if P r then f r else r) # update_where P f rs"
  by (simp add: update_where_def)

lemma list_all2_update_where:
  assumes "\<And>m. m \<in> set ms \<Longrightarrow> P m \<Longrightarrow> R m (f m)" and "\<And>m. R m m"
  shows "list_all2 R ms (update_where P f ms)"
  using assms by (induction ms) auto

lemma map_update_where:
  "(\<And>r. r \<in> set rs \<Longrightarrow> P r \<Longrightarrow> g (f r) = g r) \<Longrightarrow> map g (update_where P f rs) = map g rs"
  by (simp add: update_where_def)

lemma filter_update_where:
  "(\<And>r. r \<in> set rs \<Longrightarrow> P r \<Longrightarrow> Q (f r) = Q r) \<Longrightarrow>
     length (filter Q (update_where P f rs)) = length (filter Q rs)"
  by (induction rs) auto

lemma first_by_None [simp]: "first_by key rs = None \<longleftrightarrow> rs = []"
proof -
  have "sort_key key rs = [] \<longleftrightarrow> rs = []" by (metis length_0_conv length_sort)
  then show ?thesis by (auto simp: first_by_def split: list.splits)
qed

lemma first_by_Some:
  assumes "first_by key rs = Some r"
  shows "r \<in> set rs" and "\<And>x. x \<in> set rs \<Longrightarrow> key r \<le> key x"
proof -
  obtain ys where ys: "sort_key key rs = r # ys"
    using assms by (auto simp: first_by_def split: list.splits)
  have set: "set rs = set (r # ys)" by (metis set_sort ys)
  then show "r \<in> set rs" by simp
  have "sorted (map key (r # ys))" by (metis sorted_sort_key ys)
  then show "key r \<le> key x" if "x \<in> set rs" for x
    using that unfolding set by auto
qed

lemma find_append_new: "\<not> exists_row P xs \<Longrightarrow> List.find P (xs @ [y]) = (if P y then Some y else None)"
  by (induction xs) (auto simp: exists_row_iff)

lemma find_append: "List.find P (xs @ ys) = (case List.find P xs of None \<Rightarrow> List.find P ys | Some x \<Rightarrow> Some x)"
  by (induction xs) auto

lemma find_append_miss: "(\<And>y. y \<in> set ys \<Longrightarrow> \<not> P y) \<Longrightarrow> List.find P (xs @ ys) = List.find P xs"
  by (induction xs) (auto simp: find_None_iff)

lemma update_where_all:
  "(\<And>r. r \<in> set rs \<Longrightarrow> P r \<Longrightarrow> Q (f r)) \<Longrightarrow> (\<And>r. r \<in> set rs \<Longrightarrow> \<not> P r \<Longrightarrow> Q r) \<Longrightarrow> \<forall>r \<in> set (update_where P f rs). Q r"
  by (auto simp: rows)

lemma find_update_where:
  assumes "\<And>r. g (f r) = g r" and "List.find (\<lambda>r. g r = k) rs = Some r"
  shows "List.find (\<lambda>r. g r = k) (update_where (\<lambda>r. g r = k) f rs) = Some (f r)"
  using assms by (induction rs) (auto split: if_splits)

lemma find_Some_iff_distinct:
  assumes "distinct (map g rs)"
  shows "List.find (\<lambda>r. g r = k) rs = Some r \<longleftrightarrow> r \<in> set rs \<and> g r = k"
  using assms by (induction rs) (auto simp: rev_image_eqI)

lemma find_Some_mem: "List.find P rs = Some r \<Longrightarrow> r \<in> set rs \<and> P r"
  by (auto simp: find_Some_iff)

lemma find_None_mem: "List.find P rs = None \<longleftrightarrow> (\<forall>r \<in> set rs. \<not> P r)"
  by (auto simp: find_None_iff)

lemma member_le_sum_list_map:
  "(\<forall>q \<in> set rs. 0 \<le> f q) \<Longrightarrow> r \<in> set rs \<Longrightarrow> f r \<le> (\<Sum>q\<leftarrow>rs. f q :: int)"
proof (induction rs)
  case (Cons a rs)
  have "0 \<le> (\<Sum>q\<leftarrow>rs. f q)" using Cons.prems by (auto intro!: sum_list_nonneg)
  then show ?case using Cons by auto
qed simp

lemma distinct_map_filterI: "distinct (map g rs) \<Longrightarrow> distinct (map g (filter P rs))"
  by (rule distinct_map_filter)

lemma distinct_map_eqD:
  "distinct (map g rs) \<Longrightarrow> x \<in> set rs \<Longrightarrow> y \<in> set rs \<Longrightarrow> g x = g y \<Longrightarrow> x = y"
  by (induction rs) (auto simp: image_iff)

section \<open>Text\<close>

text \<open>JavaScript's and SQLite's comparison of ASCII text, lower-casing, and decimal integers.\<close>

definition compareText :: "string \<Rightarrow> string \<Rightarrow> int" where
  "compareText a b = (if a < b then -1 else if a > b then 1 else 0)"

lemma compareText_le [simp]: "compareText a b \<le> 0 \<longleftrightarrow> a \<le> b"
  by (auto simp: compareText_def)

lemma compareText_eq [simp]: "compareText a b = 0 \<longleftrightarrow> a = b"
  by (auto simp: compareText_def)

definition lower_char :: "char \<Rightarrow> char" where
  "lower_char c = (if CHR ''A'' \<le> c \<and> c \<le> CHR ''Z'' then char_of (of_char c + 32 :: nat) else c)"

definition lower :: "string \<Rightarrow> string" where
  "lower s = map lower_char s"

definition digit_char :: "nat \<Rightarrow> char" where
  "digit_char d = char_of (48 + d mod 10)"

fun show_nat :: "nat \<Rightarrow> string" where
  "show_nat n = (if n < 10 then [digit_char n] else show_nat (n div 10) @ [digit_char (n mod 10)])"

declare show_nat.simps [simp del]

definition show_int :: "int \<Rightarrow> string" where
  "show_int i = (if i < 0 then CHR ''-'' # show_nat (nat (- i)) else show_nat (nat i))"

end
