(* ===== verification/Pool_Ranking.thy ===== *)
theory Pool_Ranking
  imports Pool_Prelude
begin

text \<open>
  The scheduling arithmetic of \<^verbatim>\<open>src/packages/shared/src/enterprise/poolRanking.ts\<close>: which enterprise
  receives the next pool account, and in which order a caller tries the enterprises. JavaScript
  numbers are unbounded integers here: \<open>assertEnterprises\<close> admits safe integers only, and
  \<open>shareScore_exact\<close> below shows that no product leaves the range in which doubles are exact.
  SHA-256 (\<open>createHash\<close>) is the parameter \<open>sha256\<close> of the definitions that use it.
\<close>

section \<open>Data and operations\<close>

record PoolEnterprise =
  pe_id :: string
  cap :: int
  inventory :: int
  eligible :: bool

record AdmissionEnterprise = PoolEnterprise +
  eligibleIdle :: int

record PoolTotals =
  capacity :: int
  total_inventory :: int

definition isCount :: "int \<Rightarrow> bool" where
  "isCount v \<longleftrightarrow> \<bar>v\<bar> \<le> MAX_SAFE_INTEGER \<and> v \<ge> 0"

text \<open>The loop of \<open>assertEnterprises\<close>, with the set \<open>ids\<close> of the identifiers already seen.\<close>

fun assertEnterprises_loop :: "string set \<Rightarrow> 'a PoolEnterprise_scheme list \<Rightarrow> unit res" where
  "assertEnterprises_loop ids [] = Inr ()"
| "assertEnterprises_loop ids (row # rows) =
     (if pe_id row \<in> ids then Inl (RangeError (''duplicate enterprise '' @ pe_id row))
      else if \<not> isCount (cap row) \<or> \<not> isCount (inventory row)
      then Inl (RangeError (''invalid pool counts for '' @ pe_id row))
      else assertEnterprises_loop (insert (pe_id row) ids) rows)"

definition assertEnterprises :: "'a PoolEnterprise_scheme list \<Rightarrow> unit res" where
  "assertEnterprises rows = assertEnterprises_loop {} rows"

fun poolTotals_loop :: "PoolTotals \<Rightarrow> 'a PoolEnterprise_scheme list \<Rightarrow> PoolTotals" where
  "poolTotals_loop t [] = t"
| "poolTotals_loop t (row # rows) =
     poolTotals_loop (t\<lparr>capacity := capacity t + cap row,
                        total_inventory := total_inventory t + inventory row\<rparr>) rows"

definition poolTotals :: "'a PoolEnterprise_scheme list \<Rightarrow> PoolTotals" where
  "poolTotals rows = poolTotals_loop \<lparr>capacity = 0, total_inventory = 0\<rparr> rows"

definition shareScore :: "'a PoolEnterprise_scheme \<Rightarrow> PoolTotals \<Rightarrow> int" where
  "shareScore e t = total_inventory t * cap e - capacity t * inventory e"

definition enterpriseShareScore :: "'a PoolEnterprise_scheme \<Rightarrow> 'a PoolEnterprise_scheme list \<Rightarrow> int" where
  "enterpriseShareScore e rows = shareScore e (poolTotals rows)"

definition byCapDescending :: "'a PoolEnterprise_scheme \<Rightarrow> 'a PoolEnterprise_scheme \<Rightarrow> int" where
  "byCapDescending a b = cap b - cap a"

definition byScoreDescending ::
  "PoolTotals \<Rightarrow> 'a PoolEnterprise_scheme \<Rightarrow> 'a PoolEnterprise_scheme \<Rightarrow> int" where
  "byScoreDescending t a b = shareScore b t - shareScore a t"

definition primaryOrder ::
  "PoolTotals \<Rightarrow> 'a PoolEnterprise_scheme \<Rightarrow> 'a PoolEnterprise_scheme \<Rightarrow> int" where
  "primaryOrder t = (if total_inventory t = 0 then byCapDescending else byScoreDescending t)"

definition rankCandidates ::
  "'a PoolEnterprise_scheme list \<Rightarrow> 'a PoolEnterprise_scheme list \<Rightarrow> (string \<Rightarrow> string \<Rightarrow> int) \<Rightarrow> string list" where
  "rankCandidates enterprises candidates tieOrder =
     (let primary = primaryOrder (poolTotals enterprises)
      in map pe_id (js_sort (cmp_or primary
           (cmp_or (\<lambda>a b. tieOrder (pe_id a) (pe_id b)) (\<lambda>a b. compareText (pe_id a) (pe_id b))))
           candidates))"

text \<open>
  \<open>rotationRanks\<close> returns a map from identifier to rank; \<open>rotationRank\<close> is its lookup. Every
  identifier that is looked up is one of \<open>enterprises\<close>, so the value for other identifiers (the
  length of the list) is never used. The remainder of JavaScript takes the sign of the dividend,
  which the second addition and remainder undo.
\<close>

fun index_of :: "string \<Rightarrow> string list \<Rightarrow> nat" where
  "index_of x [] = 0"
| "index_of x (y # ys) = (if x = y then 0 else Suc (index_of x ys))"

definition js_rem :: "int \<Rightarrow> int \<Rightarrow> int" where
  "js_rem a b = sgn a * (\<bar>a\<bar> mod \<bar>b\<bar>)"

definition rotationRank :: "'a PoolEnterprise_scheme list \<Rightarrow> int \<Rightarrow> string \<Rightarrow> int" where
  "rotationRank enterprises ordinal x =
     (let ids = js_sort compareText (map pe_id enterprises);
          count = int (length ids);
          offset = (if count = 0 then 0 else js_rem (js_rem ordinal count + count) count)
      in js_rem (int (index_of x ids) - offset + count) count)"

definition rankEnterprisesForCreation :: "PoolEnterprise list \<Rightarrow> int \<Rightarrow> string list res" where
  "rankEnterprisesForCreation enterprises ordinal =
     res_bind (assertEnterprises enterprises) (\<lambda>_.
       let rotation = rotationRank enterprises ordinal;
           candidates = filter (\<lambda>row. eligible row \<and> inventory row < cap row) enterprises
       in Inr (rankCandidates enterprises candidates (\<lambda>a b. rotation a - rotation b)))"

definition callerHash :: "(string \<Rightarrow> string) \<Rightarrow> string \<Rightarrow> string \<Rightarrow> string" where
  "callerHash sha256 caller x = sha256 (caller @ [CHR 0x00] @ x)"

definition rankEnterprisesForAdmission ::
  "(string \<Rightarrow> string) \<Rightarrow> AdmissionEnterprise list \<Rightarrow> string \<Rightarrow> string list res" where
  "rankEnterprisesForAdmission sha256 enterprises caller =
     res_bind (assertEnterprises enterprises) (\<lambda>_.
       let hashes = callerHash sha256 caller;
           candidates = filter (\<lambda>row. eligible row \<and> eligibleIdle row > 0) enterprises
       in Inr (rankCandidates enterprises candidates (\<lambda>a b. compareText (hashes a) (hashes b))))"

definition replenishmentDeficit :: "int \<Rightarrow> int \<Rightarrow> int \<Rightarrow> bool \<Rightarrow> int" where
  "replenishmentDeficit idleTarget readyIdle inFlight paused =
     (if paused then 0 else max 0 (idleTarget - readyIdle - inFlight))"

text \<open>
  The loop of \<open>planCreations\<close>: \<open>n\<close> is the number of picks still wanted (\<open>deficit - plan.length\<close>), so
  pick \<open>i\<close> ranks with \<open>ordinal + i\<close>. Every pick raises the picked enterprise's counter.
\<close>

definition raiseInventory :: "string \<Rightarrow> PoolEnterprise list \<Rightarrow> PoolEnterprise list" where
  "raiseInventory x = update_where (\<lambda>row. pe_id row = x) (\<lambda>row. row\<lparr>inventory := inventory row + 1\<rparr>)"

fun planCreations_loop :: "nat \<Rightarrow> PoolEnterprise list \<Rightarrow> int \<Rightarrow> string list \<Rightarrow> string list res" where
  "planCreations_loop 0 enterprises ordinal plan = Inr plan"
| "planCreations_loop (Suc n) enterprises ordinal plan =
     (case rankEnterprisesForCreation enterprises (ordinal + int (length plan)) of
        Inl e \<Rightarrow> Inl e
      | Inr [] \<Rightarrow> Inr plan
      | Inr (next # _) \<Rightarrow> planCreations_loop n (raiseInventory next enterprises) ordinal (plan @ [next]))"

definition planCreations :: "PoolEnterprise list \<Rightarrow> int \<Rightarrow> int \<Rightarrow> string list res" where
  "planCreations enterprises deficit ordinal = planCreations_loop (nat deficit) enterprises ordinal []"

section \<open>Validation and totals\<close>

lemma assertEnterprises_loop_ok:
  "assertEnterprises_loop ids rows = Inr () \<longleftrightarrow>
     distinct (map pe_id rows) \<and> ids \<inter> pe_id ` set rows = {} \<and>
     (\<forall>r \<in> set rows. isCount (cap r) \<and> isCount (inventory r))"
  by (induction rows arbitrary: ids) auto

definition valid_enterprises :: "'a PoolEnterprise_scheme list \<Rightarrow> bool" where
  "valid_enterprises rows \<longleftrightarrow> distinct (map pe_id rows) \<and>
     (\<forall>r \<in> set rows. isCount (cap r) \<and> isCount (inventory r))"

lemma assertEnterprises_ok: "assertEnterprises rows = Inr () \<longleftrightarrow> valid_enterprises rows"
  by (simp add: assertEnterprises_def valid_enterprises_def assertEnterprises_loop_ok)

lemma poolTotals_loop_sum:
  "poolTotals_loop t rows = t\<lparr>capacity := capacity t + (\<Sum>r\<leftarrow>rows. cap r),
     total_inventory := total_inventory t + (\<Sum>r\<leftarrow>rows. inventory r)\<rparr>"
  by (induction rows arbitrary: t) (auto simp: add.assoc)

lemma capacity_poolTotals [simp]: "capacity (poolTotals rows) = (\<Sum>r\<leftarrow>rows. cap r)"
  and inventory_poolTotals [simp]: "total_inventory (poolTotals rows) = (\<Sum>r\<leftarrow>rows. inventory r)"
  by (simp_all add: poolTotals_def poolTotals_loop_sum)

lemma sum_list_mset_eq: "mset xs = mset ys \<Longrightarrow> (\<Sum>x\<leftarrow>xs. f x) = (\<Sum>x\<leftarrow>ys. f x :: int)"
  by (metis mset_map sum_mset_sum_list)

lemma poolTotals_perm: "mset xs = mset ys \<Longrightarrow> poolTotals xs = poolTotals ys"
  using sum_list_mset_eq [of xs ys cap] sum_list_mset_eq [of xs ys inventory]
  by (simp add: poolTotals_def poolTotals_loop_sum)

lemma valid_enterprises_perm: "mset xs = mset ys \<Longrightarrow> valid_enterprises xs = valid_enterprises ys"
  unfolding valid_enterprises_def by (metis mset_eq_imp_distinct_iff mset_eq_setD mset_map)

section \<open>The comparators are orders of a key\<close>

definition primaryKey :: "PoolTotals \<Rightarrow> 'a PoolEnterprise_scheme \<Rightarrow> int" where
  "primaryKey t r = (if total_inventory t = 0 then cap r else shareScore r t)"

lemma primaryOrder_key: "primaryOrder t a b = primaryKey t b - primaryKey t a"
  by (simp add: primaryOrder_def primaryKey_def byCapDescending_def byScoreDescending_def)

interpretation ids: key_comparator compareText "\<lambda>x. x"
  by unfold_locales simp

interpretation creation: key_comparator
  "cmp_or (primaryOrder t) (cmp_or (\<lambda>a b. rot (pe_id a) - rot (pe_id b)) (\<lambda>a b. compareText (pe_id a) (pe_id b)))"
  "\<lambda>r. (- primaryKey t r, rot (pe_id r) :: int, pe_id r)" for t rot
  by unfold_locales (auto simp: cmp_or_def primaryOrder_key less_eq_prod_def)

interpretation admission: key_comparator
  "cmp_or (primaryOrder t) (cmp_or (\<lambda>a b. compareText (h (pe_id a)) (h (pe_id b))) (\<lambda>a b. compareText (pe_id a) (pe_id b)))"
  "\<lambda>r. (- primaryKey t r, h (pe_id r) :: string, pe_id r)" for t h
  by unfold_locales (auto simp: cmp_or_def primaryOrder_key less_eq_prod_def)

lemma inj_on_key_pe_id:
  "distinct (map pe_id rows) \<Longrightarrow> inj_on (\<lambda>r. (f r, g r, pe_id r)) (set rows)"
  by (auto simp: inj_on_def dest: distinct_map_eqD)

lemma set_rankCandidates: "set (rankCandidates es cs tie) = pe_id ` set cs"
  by (simp add: rankCandidates_def)

lemma distinct_rankCandidates: "distinct (rankCandidates es cs tie) = distinct (map pe_id cs)"
  by (simp add: rankCandidates_def Let_def)

lemma rotationRank_perm: "mset xs = mset ys \<Longrightarrow> rotationRank xs = rotationRank ys"
proof -
  assume "mset xs = mset ys"
  then have "js_sort compareText (map pe_id xs) = js_sort compareText (map pe_id ys)"
    by (intro ids.js_sort_perm) simp_all
  then show ?thesis by (simp add: rotationRank_def fun_eq_iff)
qed

section \<open>Planning a batch\<close>

definition room :: "'a PoolEnterprise_scheme \<Rightarrow> nat" where
  "room r = (if eligible r then nat (cap r - inventory r) else 0)"

definition headroom :: "'a PoolEnterprise_scheme list \<Rightarrow> nat" where
  "headroom rows = (\<Sum>r\<leftarrow>rows. room r)"

definition candidate :: "'a PoolEnterprise_scheme \<Rightarrow> bool" where
  "candidate r \<longleftrightarrow> eligible r \<and> inventory r < cap r"

lemma candidate_room: "candidate r \<longleftrightarrow> 0 < room r"
  by (auto simp: candidate_def room_def)

lemma headroom_zero: "headroom rows = 0 \<longleftrightarrow> (\<forall>r \<in> set rows. \<not> candidate r)"
  by (auto simp: headroom_def candidate_room)

lemma rankEnterprisesForCreation_set:
  assumes "rankEnterprisesForCreation rows n = Inr ids"
  shows "valid_enterprises rows" and "set ids = pe_id ` {r \<in> set rows. candidate r}"
    and "distinct ids"
proof -
  have ok: "assertEnterprises rows = Inr ()"
    using assms by (auto simp: rankEnterprisesForCreation_def res_bind_Inr)
  then show valid: "valid_enterprises rows" by (simp add: assertEnterprises_ok)
  from ok assms have ids: "ids = rankCandidates rows (filter candidate rows)
      (\<lambda>a b. rotationRank rows n a - rotationRank rows n b)"
    by (simp add: rankEnterprisesForCreation_def candidate_def [abs_def] Let_def)
  then show "set ids = pe_id ` {r \<in> set rows. candidate r}" by (simp add: set_rankCandidates)
  from valid show "distinct ids"
    by (simp add: ids distinct_rankCandidates valid_enterprises_def distinct_map_filter)
qed

lemma rankEnterprisesForCreation_total:
  "valid_enterprises rows \<Longrightarrow> \<exists>ids. rankEnterprisesForCreation rows n = Inr ids"
  by (simp add: rankEnterprisesForCreation_def Let_def flip: assertEnterprises_ok)

lemma raiseInventory_ids [simp]: "map pe_id (raiseInventory x rows) = map pe_id rows"
  by (simp add: raiseInventory_def map_update_where)

lemma raiseInventory_valid:
  assumes "valid_enterprises rows" and "\<exists>r \<in> set rows. candidate r \<and> pe_id r = x"
  shows "valid_enterprises (raiseInventory x rows)"
proof -
  obtain c where c: "c \<in> set rows" "candidate c" "pe_id c = x" using assms(2) by blast
  have "isCount (cap r) \<and> isCount (inventory r)" if r: "r \<in> set (raiseInventory x rows)" for r
  proof -
    obtain q where q: "q \<in> set rows" "r = (if pe_id q = x then q\<lparr>inventory := inventory q + 1\<rparr> else q)"
      using r by (auto simp: raiseInventory_def rows)
    show ?thesis
    proof (cases "pe_id q = x")
      case True
      then have "q = c" using c q assms(1) by (auto simp: valid_enterprises_def dest: distinct_map_eqD)
      then show ?thesis using True q c assms(1)
        by (auto simp: valid_enterprises_def isCount_def candidate_def)
    next
      case False
      then show ?thesis using q assms(1) by (simp add: valid_enterprises_def)
    qed
  qed
  then show ?thesis using assms(1) by (auto simp: valid_enterprises_def)
qed

lemma headroom_raise:
  assumes "distinct (map pe_id rows)" and "c \<in> set rows" and "candidate c"
  shows "Suc (headroom (raiseInventory (pe_id c) rows)) = headroom rows"
  using assms
proof (induction rows)
  case (Cons r rows)
  show ?case
  proof (cases "r = c")
    case True
    then have "\<forall>q \<in> set rows. pe_id q \<noteq> pe_id c" using Cons.prems by (auto simp: rev_image_eqI)
    then have "raiseInventory (pe_id c) rows = rows"
      by (simp add: raiseInventory_def update_where_def cong: map_cong)
    then show ?thesis using True Cons.prems(3)
      by (auto simp: raiseInventory_def headroom_def room_def candidate_def)
  next
    case False
    then have "pe_id r \<noteq> pe_id c" using Cons.prems by (auto simp: rev_image_eqI)
    then show ?thesis using Cons False by (simp add: raiseInventory_def headroom_def)
  qed
qed simp

lemma room_raise:
  assumes "r \<in> set rows" and "distinct (map pe_id rows)" and "candidate c" and "c \<in> set rows"
  shows "\<exists>r' \<in> set (raiseInventory (pe_id c) rows). pe_id r' = pe_id r \<and>
           room r = room r' + (if pe_id r = pe_id c then 1 else 0)"
proof (cases "pe_id r = pe_id c")
  case True
  then have "r = c" using assms by (blast dest: distinct_map_eqD)
  with assms show ?thesis
    by (intro bexI [of _ "r\<lparr>inventory := inventory r + 1\<rparr>"])
      (auto simp: raiseInventory_def rows room_def candidate_def)
next
  case False
  with assms(1) show ?thesis by (intro bexI [of _ r]) (auto simp: raiseInventory_def rows)
qed

text \<open>
  One plan of \<open>n\<close> further picks: it never fails on valid rows, it fills exactly what is wanted and
  possible, and no enterprise is picked more often than it has room.
\<close>

lemma planCreations_loop_spec:
  assumes "valid_enterprises rows"
  shows "\<exists>picks. planCreations_loop n rows ordinal plan = Inr (plan @ picks) \<and>
     length picks = min n (headroom rows) \<and>
     (\<forall>r \<in> set rows. count_list picks (pe_id r) \<le> room r) \<and> set picks \<subseteq> pe_id ` set rows"
  using assms
proof (induction n arbitrary: rows plan)
  case (Suc n)
  obtain ids where ids: "rankEnterprisesForCreation rows (ordinal + int (length plan)) = Inr ids"
    using rankEnterprisesForCreation_total [OF Suc.prems] by blast
  note ranked = rankEnterprisesForCreation_set [OF ids]
  show ?case
  proof (cases ids)
    case Nil
    then have "headroom rows = 0" using ranked(2) by (auto simp: headroom_zero)
    then show ?thesis using ids Nil by (intro exI [of _ "[]"]) simp
  next
    case (Cons x xs)
    then have "x \<in> pe_id ` {r \<in> set rows. candidate r}" using ranked(2) by (metis list.set_intros(1))
    then obtain c where c: "c \<in> set rows" "candidate c" "pe_id c = x" by blast
    let ?rows = "raiseInventory x rows"
    have dist: "distinct (map pe_id rows)" using Suc.prems by (simp add: valid_enterprises_def)
    have "valid_enterprises ?rows" using Suc.prems c by (intro raiseInventory_valid) auto
    from Suc.IH [OF this, of "plan @ [x]"] obtain picks where
      picks: "planCreations_loop n ?rows ordinal (plan @ [x]) = Inr ((plan @ [x]) @ picks)"
        "length picks = min n (headroom ?rows)"
        "\<forall>r \<in> set ?rows. count_list picks (pe_id r) \<le> room r" "set picks \<subseteq> pe_id ` set ?rows"
      by blast
    have "count_list (x # picks) (pe_id r) \<le> room r" if r: "r \<in> set rows" for r
      using room_raise [OF r dist c(2,1)] picks(3) unfolding c(3) by auto
    moreover have "pe_id ` set ?rows = pe_id ` set rows"
      by (metis raiseInventory_ids set_map)
    moreover have "length (x # picks) = min (Suc n) (headroom rows)"
      using picks(2) headroom_raise [OF dist c(1,2)] c(3) by simp
    ultimately show ?thesis
      using picks(1,4) ids Cons c by (intro exI [of _ "x # picks"]) auto
  qed
qed simp

section \<open>Properties of the ranking\<close>

text \<open>
  C22. Planning a replenishment batch over valid rows always succeeds, picks exactly as many
  accounts as are both wanted and possible, never picks an enterprise beyond its cap (nor a
  non-eligible one, whose room is 0), and names known enterprises only.
\<close>

theorem planCreations_fills_within_caps:
  assumes "valid_enterprises rows"
  shows "\<exists>plan. planCreations rows deficit ordinal = Inr plan \<and>
     length plan = min (nat deficit) (headroom rows) \<and>
     (\<forall>r \<in> set rows. count_list plan (pe_id r) \<le> room r) \<and> set plan \<subseteq> pe_id ` set rows"
  using planCreations_loop_spec [OF assms, of "nat deficit" ordinal "[]"]
  by (simp add: planCreations_def)

theorem planCreations_fills_within_caps_witness:
  "\<exists>plan. planCreations [\<lparr>pe_id = ''default'', cap = 3, inventory = 2, eligible = True\<rparr>,
        \<lparr>pe_id = ''acme'', cap = 5, inventory = 4, eligible = False\<rparr>] 4 7 = Inr plan \<and> length plan = 1"
proof -
  let ?rows = "[\<lparr>pe_id = ''default'', cap = 3, inventory = 2, eligible = True\<rparr>,
        \<lparr>pe_id = ''acme'', cap = 5, inventory = 4, eligible = False\<rparr>]"
  have "valid_enterprises ?rows"
    by (simp add: valid_enterprises_def isCount_def MAX_SAFE_INTEGER_def)
  from planCreations_fills_within_caps [OF this, of 4 7] show ?thesis
    by (auto simp: headroom_def room_def)
qed

text \<open>
  The ranking does not depend on the order of the registry: permuting the rows of a valid
  input permutes nothing in the result, for creation and for admission.
\<close>

theorem ranking_independent_of_registry_order:
  assumes "valid_enterprises xs" and "mset xs = mset ys"
    and "valid_enterprises as" and "mset as = mset bs"
  shows "rankEnterprisesForCreation xs ordinal = rankEnterprisesForCreation ys ordinal \<and>
    rankEnterprisesForAdmission sha256 as caller = rankEnterprisesForAdmission sha256 bs caller"
proof
  have assert: "assertEnterprises xs = Inr ()" "assertEnterprises ys = Inr ()"
    "assertEnterprises as = Inr ()" "assertEnterprises bs = Inr ()"
    using assms valid_enterprises_perm by (auto simp: assertEnterprises_ok)
  have filter: "mset (filter P us) = mset (filter P vs)" if "mset us = mset vs" for P us vs
    using that by (simp add: mset_filter)
  have inj: "inj_on (\<lambda>r. (f r, g r, pe_id r)) (set (filter P us))" if "valid_enterprises us" for f g P us
    using that by (intro inj_on_key_pe_id) (simp add: valid_enterprises_def distinct_map_filter)
  show "rankEnterprisesForCreation xs ordinal = rankEnterprisesForCreation ys ordinal"
    using assert rotationRank_perm [OF assms(2)] poolTotals_perm [OF assms(2)]
      creation.js_sort_perm [OF filter [OF assms(2)] inj [OF assms(1)]]
    by (simp add: rankEnterprisesForCreation_def rankCandidates_def Let_def)
  show "rankEnterprisesForAdmission sha256 as caller = rankEnterprisesForAdmission sha256 bs caller"
    using assert poolTotals_perm [OF assms(4)]
      admission.js_sort_perm [OF filter [OF assms(4)] inj [OF assms(3)]]
    by (simp add: rankEnterprisesForAdmission_def rankCandidates_def Let_def)
qed

theorem ranking_independent_of_registry_order_witness:
  "rankEnterprisesForCreation [\<lparr>pe_id = ''a1'', cap = 3, inventory = 0, eligible = True\<rparr>,
       \<lparr>pe_id = ''b1'', cap = 3, inventory = 0, eligible = True\<rparr>] 1 =
   rankEnterprisesForCreation [\<lparr>pe_id = ''b1'', cap = 3, inventory = 0, eligible = True\<rparr>,
       \<lparr>pe_id = ''a1'', cap = 3, inventory = 0, eligible = True\<rparr>] 1"
proof -
  let ?a = "\<lparr>pe_id = ''a1'', cap = 3, inventory = 0, eligible = True\<rparr>"
  let ?b = "\<lparr>pe_id = ''b1'', cap = 3, inventory = 0, eligible = True\<rparr>"
  have 1: "valid_enterprises [?a, ?b]"
    by (simp add: valid_enterprises_def isCount_def MAX_SAFE_INTEGER_def)
  have 2: "mset [?a, ?b] = mset [?b, ?a]" by simp
  have 3: "valid_enterprises ([] :: AdmissionEnterprise list)" by (simp add: valid_enterprises_def)
  show ?thesis
    using ranking_independent_of_registry_order [OF 1 2 3 refl, of 1 "\<lambda>s. s" "[]"] by blast
qed

subsection \<open>Ties rotate with the ordinal\<close>

lemma js_rem_pos: "0 \<le> a \<Longrightarrow> 0 < b \<Longrightarrow> js_rem a b = a mod b"
  by (auto simp: js_rem_def sgn_if)

lemma js_rem_normalise: "0 < n \<Longrightarrow> js_rem (js_rem a n + n) n = a mod n"
proof -
  assume n: "0 < n"
  have "js_rem a n mod n = a mod n" if "a < 0"
  proof -
    have "js_rem a n = - (- a mod n)" using that n by (simp add: js_rem_def)
    then show ?thesis by (simp add: mod_minus_eq)
  qed
  moreover have "js_rem a n mod n = a mod n" if "\<not> a < 0" using that n by (simp add: js_rem_pos)
  ultimately have "(js_rem a n + n) mod n = a mod n" by auto
  moreover have "0 \<le> js_rem a n + n" using less_imp_le [OF pos_mod_bound [OF n, of "- a"]] n
    by (auto simp: js_rem_def sgn_if)
  ultimately show ?thesis using n by (simp add: js_rem_pos)
qed

lemma index_of_less: "x \<in> set xs \<Longrightarrow> index_of x xs < length xs"
  by (induction xs) auto

lemma nth_index_of: "x \<in> set xs \<Longrightarrow> xs ! index_of x xs = x"
  by (induction xs) auto

lemma rotationRank_closed:
  assumes "x \<in> pe_id ` set rows"
  shows "rotationRank rows ordinal x =
    (int (index_of x (sort (map pe_id rows))) - ordinal) mod int (length rows)"
proof -
  let ?i = "int (index_of x (sort (map pe_id rows)))" and ?n = "int (length rows)"
  have i: "0 \<le> ?i" "?i < ?n" using assms index_of_less [of x "sort (map pe_id rows)"] by simp_all
  then have n: "0 < ?n" by linarith
  have sorted: "js_sort compareText (map pe_id rows) = sort (map pe_id rows)"
    using ids.js_sort_sort_key [of "map pe_id rows"] by simp
  have "rotationRank rows ordinal x = js_rem (?i - ordinal mod ?n + ?n) ?n"
    using n unfolding rotationRank_def sorted Let_def by (simp add: js_rem_normalise)
  also have "\<dots> = (?i - ordinal mod ?n + ?n) mod ?n"
    using i n less_imp_le [OF pos_mod_bound [OF n, of ordinal]] by (intro js_rem_pos) linarith+
  also have "\<dots> = (?i - ordinal) mod ?n" by (simp add: mod_simps)
  finally show ?thesis .
qed

text \<open>
  The account goes to the eligible enterprise below its cap whose share of the inventory falls
  furthest short of its share of the capacity (by cap when the pool is empty); among equals, to
  the one that comes first counting cyclically from position \<open>ordinal\<close> of the sorted identifiers.
\<close>

theorem first_choice_most_underrepresented:
  assumes "rankEnterprisesForCreation rows ordinal = Inr (x # xs)"
    and "q \<in> set rows" and "candidate q"
  shows "\<exists>r \<in> set rows. pe_id r = x \<and> candidate r \<and>
    (let t = poolTotals rows;
         turn = (\<lambda>e. (int (index_of (pe_id e) (sort (map pe_id rows))) - ordinal) mod int (length rows))
     in primaryKey t q < primaryKey t r \<or> primaryKey t q = primaryKey t r \<and> turn r \<le> turn q)"
proof -
  let ?t = "poolTotals rows" and ?rot = "rotationRank rows ordinal"
  let ?cmp = "cmp_or (primaryOrder ?t) (cmp_or (\<lambda>a b. ?rot (pe_id a) - ?rot (pe_id b))
    (\<lambda>a b. compareText (pe_id a) (pe_id b)))"
  note ranked = rankEnterprisesForCreation_set [OF assms(1)]
  have "map pe_id (js_sort ?cmp (filter candidate rows)) = x # xs"
    using assms(1) ranked(1) unfolding assertEnterprises_ok [symmetric]
    by (simp add: rankEnterprisesForCreation_def rankCandidates_def candidate_def [abs_def] Let_def)
  then obtain r rs where rs: "js_sort ?cmp (filter candidate rows) = r # rs" "pe_id r = x" by auto
  then have r: "r \<in> set rows" "candidate r" using set_js_sort [of ?cmp "filter candidate rows"] by auto
  from creation.js_sort_head_least [OF rs(1), of q] assms(2,3)
  have "(- primaryKey ?t r, ?rot (pe_id r), pe_id r) \<le> (- primaryKey ?t q, ?rot (pe_id q), pe_id q)"
    by simp
  then have "primaryKey ?t q < primaryKey ?t r \<or> primaryKey ?t q = primaryKey ?t r \<and> ?rot (pe_id r) \<le> ?rot (pe_id q)"
    by (auto simp: less_eq_prod_def)
  then show ?thesis using r rs(2) assms(2)
    by (intro bexI [of _ r]) (auto simp: rotationRank_closed Let_def)
qed

theorem first_choice_most_underrepresented_witness:
  "\<exists>r \<in> set [\<lparr>pe_id = ''a1'', cap = 4, inventory = 2, eligible = True\<rparr>,
        \<lparr>pe_id = ''b1'', cap = 4, inventory = 1, eligible = True\<rparr>]. pe_id r = ''b1'' \<and> candidate r"
proof -
  let ?a = "\<lparr>pe_id = ''a1'', cap = 4, inventory = 2, eligible = True\<rparr>"
  let ?b = "\<lparr>pe_id = ''b1'', cap = 4, inventory = 1, eligible = True\<rparr>"
  have "rankEnterprisesForCreation [?a, ?b] 5 = Inr [''b1'', ''a1'']" by code_simp
  moreover have "candidate ?a" by (simp add: candidate_def)
  ultimately show ?thesis
    using first_choice_most_underrepresented [of "[?a, ?b]" 5 "''b1''" "[''a1'']" ?a] by fastforce
qed

text \<open>
  While the caps and the members of all enterprises stay within the name catalog (10000
  names), every product, score and comparison of the ranking is an integer that a JavaScript number
  represents exactly, so the order is the order of the exact integers.
\<close>

theorem shareScore_exact:
  fixes rows :: "PoolEnterprise list"
  assumes "valid_enterprises rows" and "capacity (poolTotals rows) \<le> 10000"
    and "total_inventory (poolTotals rows) \<le> 10000" and "a \<in> set rows" and "b \<in> set rows"
  shows "\<bar>total_inventory (poolTotals rows) * cap a\<bar> \<le> MAX_SAFE_INTEGER \<and>
    \<bar>capacity (poolTotals rows) * inventory a\<bar> \<le> MAX_SAFE_INTEGER \<and>
    \<bar>enterpriseShareScore a rows\<bar> \<le> MAX_SAFE_INTEGER \<and>
    \<bar>primaryOrder (poolTotals rows) a b\<bar> \<le> MAX_SAFE_INTEGER"
proof -
  have elem: "0 \<le> f r \<and> f r \<le> (\<Sum>q\<leftarrow>rows. f q)" if "\<forall>q \<in> set rows. 0 \<le> f q" "r \<in> set rows"
    for f :: "PoolEnterprise \<Rightarrow> int" and r
    using that by (auto intro: member_le_sum_list_map)
  let ?C = "capacity (poolTotals rows)" and ?N = "total_inventory (poolTotals rows)"
  have range: "0 \<le> cap r \<and> cap r \<le> 10000 \<and> 0 \<le> inventory r \<and> inventory r \<le> 10000 \<and>
      0 \<le> ?C \<and> ?C \<le> 10000 \<and> 0 \<le> ?N \<and> ?N \<le> 10000" if "r \<in> set rows" for r
    using elem [of cap r] elem [of inventory r] that assms(1-3)
    by (fastforce simp: valid_enterprises_def isCount_def)
  have prod: "0 \<le> ?N * cap r \<and> ?N * cap r \<le> 10000 * 10000 \<and>
      0 \<le> ?C * inventory r \<and> ?C * inventory r \<le> 10000 * 10000" if "r \<in> set rows" for r
    using range [OF that] by (intro conjI mult_nonneg_nonneg mult_mono) auto
  have diff: "\<bar>u\<bar> \<le> MAX_SAFE_INTEGER \<and> \<bar>v\<bar> \<le> MAX_SAFE_INTEGER \<and> \<bar>u - v\<bar> \<le> MAX_SAFE_INTEGER \<and> \<bar>(w - z) - (u - v)\<bar> \<le> MAX_SAFE_INTEGER"
    if "0 \<le> u \<and> u \<le> 10000 * 10000 \<and> 0 \<le> v \<and> v \<le> 10000 * 10000"
      "0 \<le> w \<and> w \<le> 10000 * 10000 \<and> 0 \<le> z \<and> z \<le> 10000 * 10000" for u v w z :: int
    using that by (simp add: MAX_SAFE_INTEGER_def abs_le_iff)
  have caps: "\<bar>cap b - cap a\<bar> \<le> MAX_SAFE_INTEGER"
    using range [OF assms(4)] range [OF assms(5)] by (simp add: MAX_SAFE_INTEGER_def abs_le_iff)
  show ?thesis using diff [OF prod [OF assms(4)] prod [OF assms(5)]] caps
    unfolding enterpriseShareScore_def primaryOrder_key primaryKey_def shareScore_def by (simp del: capacity_poolTotals inventory_poolTotals)
qed

theorem shareScore_exact_witness:
  "\<bar>enterpriseShareScore \<lparr>pe_id = ''a1'', cap = 10000, inventory = 10000, eligible = True\<rparr>
      [\<lparr>pe_id = ''a1'', cap = 10000, inventory = 10000, eligible = True\<rparr>]\<bar> \<le> MAX_SAFE_INTEGER"
proof -
  let ?a = "\<lparr>pe_id = ''a1'', cap = 10000, inventory = 10000, eligible = True\<rparr>"
  have "valid_enterprises [?a]"
    by (simp add: valid_enterprises_def isCount_def MAX_SAFE_INTEGER_def)
  then show ?thesis using shareScore_exact [of "[?a]" ?a ?a] by simp
qed

end
