(* ===== verification/Pool_Config.thy ===== *)
theory Pool_Config
  imports Pool_Prelude
begin

text \<open>
  The pool's configuration (\<^verbatim>\<open>src/proxy/src/userPool/config.ts\<close>, \<^verbatim>\<open>inferenceTimeout.ts\<close>) and the synthetic
  account names (\<^verbatim>\<open>names.ts\<close>). The environment is a partial function from variable names to values.
  The checked-in JSON name catalog is the parameter \<open>catalog\<close>; \<open>valid_catalog\<close> is the check that
  the module makes when it is loaded.
\<close>

section \<open>Text of environment variables\<close>

definition is_digit :: "char \<Rightarrow> bool" where
  "is_digit c \<longleftrightarrow> CHR ''0'' \<le> c \<and> c \<le> CHR ''9''"

definition is_lower_letter :: "char \<Rightarrow> bool" where
  "is_lower_letter c \<longleftrightarrow> CHR ''a'' \<le> c \<and> c \<le> CHR ''z''"

definition is_alnum :: "char \<Rightarrow> bool" where
  "is_alnum c \<longleftrightarrow> is_digit c \<or> is_lower_letter c"

definition is_space :: "char \<Rightarrow> bool" where
  "is_space c \<longleftrightarrow> c \<in> {CHR '' '', CHR 0x09, CHR 0x0A, CHR 0x0B, CHR 0x0C, CHR 0x0D, CHR 0xA0}"

definition js_trim :: "string \<Rightarrow> string" where
  "js_trim s = rev (dropWhile is_space (rev (dropWhile is_space s)))"

text \<open>\<open>Number(raw)\<close> for a non-empty string of digits, the only kind that reaches it.\<close>

definition digit_val :: "char \<Rightarrow> int" where
  "digit_val c = int (of_char c) - 48"

definition digits_value :: "string \<Rightarrow> int" where
  "digits_value s = foldl (\<lambda>n c. 10 * n + digit_val c) 0 s"

definition all_digits :: "string \<Rightarrow> bool" where
  "all_digits s \<longleftrightarrow> s \<noteq> [] \<and> list_all is_digit s"

fun split_dot :: "string \<Rightarrow> string list" where
  "split_dot [] = [[]]"
| "split_dot (c # cs) =
     (if c = CHR ''.'' then [] # split_dot cs
      else (case split_dot cs of [] \<Rightarrow> [[c]] | l # ls \<Rightarrow> (c # l) # ls))"

section \<open>Pool configuration\<close>

record PoolConfig =
  enabled :: bool
  accountDomain :: string
  idleTarget :: int
  maxAccounts :: int
  leaseSeconds :: int
  provisionalSeconds :: int
  pollMs :: int
  prewarmConcurrency :: "int option"
  loginMaxPending :: "int option"
  retryAfterSeconds :: int
  warmupModel :: string
  requestTimeoutMs :: int

definition NAME_BASE_COUNT :: int where "NAME_BASE_COUNT = 1000"
definition NAME_SUFFIX_COUNT :: int where "NAME_SUFFIX_COUNT = 10"
definition NAME_CAPACITY :: int where "NAME_CAPACITY = NAME_BASE_COUNT * NAME_SUFFIX_COUNT"

text \<open>
  \<open>/^[a-z0-9](?:[a-z0-9-]{0,61}[a-z0-9])?$/\<close> and \<open>/^[a-z]{2,63}$/\<close>.
\<close>

definition domain_label :: "string \<Rightarrow> bool" where
  "domain_label l \<longleftrightarrow> l \<noteq> [] \<and> length l \<le> 63 \<and> is_alnum (hd l) \<and> is_alnum (last l) \<and>
     list_all (\<lambda>c. is_alnum c \<or> c = CHR ''-'') l"

definition top_level_domain :: "string \<Rightarrow> bool" where
  "top_level_domain l \<longleftrightarrow> 2 \<le> length l \<and> length l \<le> 63 \<and> list_all is_lower_letter l"

definition readAccountDomain :: "string option \<Rightarrow> string res" where
  "readAccountDomain raw =
     (let accountDomain = lower (js_trim (case raw of None \<Rightarrow> '''' | Some r \<Rightarrow> r)) in
      if accountDomain = '''' then Inr ''''
      else let labels = split_dot accountDomain in
        if length accountDomain > 253 \<or> length labels < 2 \<or> list_ex (\<lambda>l. \<not> domain_label l) labels \<or>
           \<not> top_level_domain (last labels)
        then Inl (PlainError ''POOL_ACCOUNT_EMAIL_DOMAIN must be an email domain'')
        else Inr accountDomain)"

definition read_integer :: "(string \<Rightarrow> string option) \<Rightarrow> string \<Rightarrow> int \<Rightarrow> int \<Rightarrow> int \<Rightarrow> int res" where
  "read_integer env key fallback lo hi =
     (let bad = Inl (PlainError (''Invalid '' @ key));
          check = (\<lambda>v. if \<not> \<bar>v\<bar> \<le> MAX_SAFE_INTEGER \<or> v < lo \<or> v > hi then bad else Inr v) in
      case env key of
        None \<Rightarrow> check fallback
      | Some raw \<Rightarrow> if \<not> all_digits raw \<or> js_trim raw \<noteq> raw then bad else check (digits_value raw))"

definition pool_defaults :: "bool \<Rightarrow> PoolConfig" where
  "pool_defaults en = \<lparr>enabled = en, accountDomain = '''', idleTarget = 10, maxAccounts = 100,
     leaseSeconds = 172800, provisionalSeconds = 300, pollMs = 5000, prewarmConcurrency = Some 5,
     loginMaxPending = Some 5, retryAfterSeconds = 30, warmupModel = '''', requestTimeoutMs = 120000\<rparr>"

definition readPoolConfig :: "(string \<Rightarrow> string option) \<Rightarrow> PoolConfig res" where
  "readPoolConfig env =
    (let mode = (case env ''ACCOUNT_ROUTING_MODE'' of None \<Rightarrow> ''direct'' | Some m \<Rightarrow> m) in
     if mode \<notin> set [''direct'', ''caller-lease''] then Inl (PlainError ''Invalid ACCOUNT_ROUTING_MODE'')
     else let defaults = pool_defaults (mode = ''caller-lease'') in
     if \<not> enabled defaults then Inr defaults
     else if (case env ''STORAGE_DRIVER'' of None \<Rightarrow> ''sqlite'' | Some d \<Rightarrow> d) \<notin> set [''sqlite'', ''mysql'']
     then Inl (PlainError ''Caller lease mode requires SQLite or MySQL'')
     else
       res_bind (readAccountDomain (env ''POOL_ACCOUNT_EMAIL_DOMAIN'')) (\<lambda>domain.
       res_bind (read_integer env ''READY_IDLE_TARGET'' (idleTarget defaults) 0 NAME_CAPACITY) (\<lambda>idle.
       res_bind (read_integer env ''POOL_MAX_ACCOUNTS'' (maxAccounts defaults) 1 NAME_CAPACITY) (\<lambda>maxAcc.
       let warmup = (case env ''POOL_WARMUP_MODEL'' of None \<Rightarrow> '''' | Some m \<Rightarrow> js_trim m) in
       if warmup = '''' then Inl (PlainError ''POOL_WARMUP_MODEL is required in caller-lease mode'')
       else
       res_bind (read_integer env ''CALLER_LEASE_TTL_SECONDS'' (leaseSeconds defaults) 60 2592000) (\<lambda>lease.
       res_bind (read_integer env ''PROVISIONAL_LEASE_TTL_SECONDS'' (provisionalSeconds defaults) 10 3600) (\<lambda>prov.
       res_bind (read_integer env ''PREWARM_POLL_SECONDS'' (pollMs defaults div 1000) 1 3600) (\<lambda>poll.
       res_bind (read_integer env ''PREWARM_CONCURRENCY'' 5 1 20) (\<lambda>conc.
       res_bind (read_integer env ''POOL_LOGIN_MAX_PENDING'' 5 1 100) (\<lambda>pending.
       res_bind (read_integer env ''POOL_EXHAUSTED_RETRY_AFTER_SECONDS'' (retryAfterSeconds defaults) 1 3600) (\<lambda>retry.
       res_bind (read_integer env ''POOL_REQUEST_TIMEOUT_SECONDS'' (requestTimeoutMs defaults div 1000) 5 600) (\<lambda>timeout.
       Inr (defaults\<lparr>accountDomain := domain, idleTarget := idle, maxAccounts := maxAcc,
         warmupModel := warmup, leaseSeconds := lease, provisionalSeconds := prov,
         pollMs := poll * 1000, prewarmConcurrency := Some conc, loginMaxPending := Some pending,
         retryAfterSeconds := retry, requestTimeoutMs := timeout * 1000\<rparr>))))))))))))"

definition normalizePoolConfig :: "PoolConfig \<Rightarrow> PoolConfig res" where
  "normalizePoolConfig options =
     (let conc = (case prewarmConcurrency options of None \<Rightarrow> 5 | Some c \<Rightarrow> c);
          pending = (case loginMaxPending options of None \<Rightarrow> 5 | Some p \<Rightarrow> p) in
      if conc < 1 \<or> conc > 20 \<or> pending < 1 \<or> pending > 100
      then Inl (PlainError ''Invalid pool concurrency limits'')
      else Inr (options\<lparr>prewarmConcurrency := Some conc, loginMaxPending := Some pending\<rparr>))"

definition is_hex_lower :: "char \<Rightarrow> bool" where
  "is_hex_lower c \<longleftrightarrow> is_digit c \<or> CHR ''a'' \<le> c \<and> c \<le> CHR ''f''"

definition normalizeCaller :: "string \<Rightarrow> string res" where
  "normalizeCaller v =
     (if length v \<noteq> 71 \<or> take 7 v \<noteq> ''sha256:'' \<or> \<not> list_all is_hex_lower (drop 7 v)
      then Inl (UserPoolError 403 ''invalid_caller_identity'' 0) else Inr v)"

section \<open>Inference timeouts\<close>

definition readInferenceTimeoutMs :: "(string \<Rightarrow> string option) \<Rightarrow> bool \<Rightarrow> int option res" where
  "readInferenceTimeoutMs env en =
     (case (en, env ''POOL_INFERENCE_TIMEOUT_SECONDS'') of
        (True, Some raw) \<Rightarrow>
          (if \<not> all_digits raw \<or> js_trim raw \<noteq> raw \<or> \<not> \<bar>digits_value raw\<bar> \<le> MAX_SAFE_INTEGER \<or>
              digits_value raw < 5 \<or> digits_value raw > 600
           then Inl (PlainError ''Invalid POOL_INFERENCE_TIMEOUT_SECONDS'')
           else Inr (Some (digits_value raw * 1000)))
      | _ \<Rightarrow> Inr None)"

definition inferenceHoldTimeoutMs :: "int option \<Rightarrow> int \<Rightarrow> int res" where
  "inferenceHoldTimeoutMs override fallback =
     (case override of
        None \<Rightarrow> Inr fallback
      | Some ms \<Rightarrow> if ms < 5000 \<or> ms > 600000 then Inl (PlainError ''Invalid inference hold timeout'')
                  else Inr ms)"

section \<open>Account names\<close>

text \<open>\<open>/^[a-z]+\.[a-z]+$/\<close>, and the load-time check of the catalog.\<close>

definition catalog_name :: "string \<Rightarrow> bool" where
  "catalog_name s \<longleftrightarrow> (let a = takeWhile is_lower_letter s; r = dropWhile is_lower_letter s in
     a \<noteq> [] \<and> r \<noteq> [] \<and> hd r = CHR ''.'' \<and> tl r \<noteq> [] \<and> list_all is_lower_letter (tl r))"

definition valid_catalog :: "string list \<Rightarrow> bool" where
  "valid_catalog catalog \<longleftrightarrow> int (length catalog) = NAME_BASE_COUNT \<and> distinct catalog \<and>
     list_all (\<lambda>name. catalog_name name \<and> length name \<le> 62) catalog"

definition padStart2 :: "string \<Rightarrow> string" where
  "padStart2 s = replicate (2 - length s) (CHR ''0'') @ s"

definition accountName :: "string list \<Rightarrow> int \<Rightarrow> string res" where
  "accountName catalog ordinal =
     (if ordinal < 0 \<or> ordinal \<ge> NAME_CAPACITY then Inl (PlainError ''Name catalog exhausted'')
      else Inr (catalog ! nat (ordinal mod NAME_BASE_COUNT) @
                padStart2 (show_int (ordinal div NAME_BASE_COUNT))))"

section \<open>Lemmas\<close>

lemma is_lower_letter_nat: "is_lower_letter c \<longleftrightarrow> (97::nat) \<le> of_char c \<and> of_char c \<le> (122::nat)"
  by (simp add: is_lower_letter_def less_eq_char_def)

lemma read_integer_bounds: "read_integer env key fallback lo hi = Inr v \<Longrightarrow> lo \<le> v \<and> v \<le> hi"
  by (auto simp: read_integer_def Let_def split: option.splits if_splits)

lemma show_small: "0 \<le> k \<Longrightarrow> k < 10 \<Longrightarrow> show_int k = [digit_char (nat k)]"
  by (simp add: show_int_def show_nat.simps)

lemma digit_char_inj: "digit_char m = digit_char n \<Longrightarrow> m < 10 \<Longrightarrow> n < 10 \<Longrightarrow> m = n"
proof -
  assume "digit_char m = digit_char n" and "m < 10" and "n < 10"
  then have "of_char (char_of (48 + m) :: char) = (of_char (char_of (48 + n) :: char) :: nat)"
    by (simp add: digit_char_def)
  then show "m = n" using \<open>m < 10\<close> \<open>n < 10\<close> by simp
qed

lemma accountName_Inr:
  "accountName catalog k = Inr s \<longleftrightarrow> 0 \<le> k \<and> k < NAME_CAPACITY \<and>
     s = catalog ! nat (k mod 1000) @ [CHR ''0'', digit_char (nat (k div 1000))]"
proof -
  have "show_int (k div 1000) = [digit_char (nat (k div 1000))]" if "0 \<le> k" "k < NAME_CAPACITY"
    using that by (intro show_small) (auto simp: NAME_CAPACITY_def NAME_BASE_COUNT_def NAME_SUFFIX_COUNT_def)
  then show ?thesis by (auto simp: accountName_def padStart2_def NAME_BASE_COUNT_def)
qed

lemma accountName_inj:
  assumes "valid_catalog catalog" and "accountName catalog i = Inr s" and "accountName catalog j = Inr s"
  shows "i = j"
proof -
  have i: "0 \<le> i" "i < 10000" and j: "0 \<le> j" "j < 10000"
    and eq: "catalog ! nat (i mod 1000) = catalog ! nat (j mod 1000)"
      "digit_char (nat (i div 1000)) = digit_char (nat (j div 1000))"
    using assms(2,3)
    by (auto simp: accountName_Inr NAME_CAPACITY_def NAME_BASE_COUNT_def NAME_SUFFIX_COUNT_def)
  have len: "length catalog = 1000" "distinct catalog"
    using assms(1) by (auto simp: valid_catalog_def NAME_BASE_COUNT_def)
  have "nat (i mod 1000) < 1000" "nat (j mod 1000) < 1000" using i j by auto
  then have "i mod 1000 = j mod 1000" using eq(1) len by (simp add: nth_eq_iff_index_eq)
  moreover have "nat (i div 1000) = nat (j div 1000)" using i j by (intro digit_char_inj [OF eq(2)]) auto
  ultimately show ?thesis using i j by (metis div_mult_mod_eq int_nat_eq pos_imp_zdiv_nonneg_iff zero_less_numeral)
qed

section \<open>Properties of the configuration\<close>

text \<open>
  In caller-lease mode every configuration that is accepted lies within the documented ranges
  and names a warm-up model; the timeouts are the seconds converted to milliseconds.
\<close>

theorem readPoolConfig_ranges:
  assumes "readPoolConfig env = Inr c" and "enabled c"
  shows "0 \<le> idleTarget c \<and> idleTarget c \<le> NAME_CAPACITY \<and> 1 \<le> maxAccounts c \<and> maxAccounts c \<le> NAME_CAPACITY \<and>
    60 \<le> leaseSeconds c \<and> leaseSeconds c \<le> 2592000 \<and> 10 \<le> provisionalSeconds c \<and> provisionalSeconds c \<le> 3600 \<and>
    1000 \<le> pollMs c \<and> pollMs c \<le> 3600000 \<and> 1 \<le> retryAfterSeconds c \<and> retryAfterSeconds c \<le> 3600 \<and>
    5000 \<le> requestTimeoutMs c \<and> requestTimeoutMs c \<le> 600000 \<and> warmupModel c \<noteq> '''' \<and>
    normalizePoolConfig c = Inr c"
  using assms
  by (auto simp: readPoolConfig_def res_bind_Inr Let_def normalizePoolConfig_def pool_defaults_def
      split: if_splits dest!: read_integer_bounds)

definition example_env :: "string \<Rightarrow> string option" where
  "example_env = [''ACCOUNT_ROUTING_MODE'' \<mapsto> ''caller-lease'', ''POOL_WARMUP_MODEL'' \<mapsto> '' gpt '',
     ''POOL_MAX_ACCOUNTS'' \<mapsto> ''250'']"

theorem readPoolConfig_ranges_witness:
  "(case readPoolConfig example_env of Inl _ \<Rightarrow> False | Inr c \<Rightarrow> enabled c \<and> maxAccounts c = 250 \<and> 60 \<le> leaseSeconds c)"
proof -
  have "(case readPoolConfig example_env of Inl _ \<Rightarrow> False | Inr c \<Rightarrow> enabled c \<and> maxAccounts c = 250)"
    by code_simp
  then show ?thesis using readPoolConfig_ranges [of example_env] by (auto split: sum.splits)
qed

text \<open>
  In direct mode nothing else in the environment matters: stale or invalid pool variables
  neither fail the start nor change the configuration.
\<close>

lemma readPoolConfig_direct_ignores_pool_variables:
  assumes "env ''ACCOUNT_ROUTING_MODE'' \<in> {None, Some ''direct''}"
  shows "readPoolConfig env = Inr (pool_defaults False)"
  using assms by (auto simp: readPoolConfig_def pool_defaults_def Let_def)

text \<open>A catalog of the shipped shape: 1000 distinct dotted names.\<close>

definition letter :: "nat \<Rightarrow> char" where
  "letter i = char_of (97 + i mod 10)"

definition example_catalog :: "string list" where
  "example_catalog = map (\<lambda>i. [letter (i div 100), letter (i div 10), CHR ''.'', letter i]) [0..<1000]"

lemma of_char_letter: "(of_char (letter i) :: nat) = 97 + i mod 10"
proof -
  have "97 + i mod 10 < 256" using mod_less_divisor [of 10 i] by linarith
  then show ?thesis by (simp add: letter_def)
qed

lemma letter_inj: "letter i = letter j \<longleftrightarrow> i mod 10 = j mod 10"
  by (metis add_left_cancel letter_def of_char_letter)

lemma is_lower_letter_letter: "is_lower_letter (letter i)"
  unfolding is_lower_letter_nat of_char_letter using mod_less_divisor [of 10 i] by linarith

lemma valid_example_catalog: "valid_catalog example_catalog"
proof -
  have "distinct example_catalog"
  proof -
    have "i = j" if ij: "i < 1000" "j < 1000" "i div 100 mod 10 = j div 100 mod 10"
      "i div 10 mod 10 = j div 10 mod 10" "i mod 10 = j mod 10" for i j :: nat
    proof -
      have split: "k = 100 * (k div 100 mod 10) + 10 * (k div 10 mod 10) + k mod 10" if "k < 1000" for k :: nat
      proof -
        have "k div 100 = k div 10 div 10" by (simp add: div_mult2_eq [symmetric])
        moreover have "k div 100 mod 10 = k div 100" using that by simp
        ultimately show ?thesis
          using div_mult_mod_eq [of k 10] div_mult_mod_eq [of "k div 10" 10] by linarith
      qed
      show ?thesis using split [OF ij(1)] split [OF ij(2)] ij(3-5) by metis
    qed
    then show ?thesis
      by (auto simp: example_catalog_def distinct_map inj_on_def letter_inj simp del: upt_rec_numeral)
  qed
  moreover have "\<not> is_lower_letter (CHR ''.'')" by (simp add: is_lower_letter_nat)
  ultimately show ?thesis
    by (auto simp: valid_catalog_def NAME_BASE_COUNT_def example_catalog_def list_all_iff catalog_name_def
        is_lower_letter_letter simp del: upt_rec_numeral)
qed

text \<open>
  The ordinals of the catalog name 10000 different accounts: two ordinals never produce the
  same name, and outside the catalog there is an error instead of a name.
\<close>

theorem accountName_injective:
  assumes "valid_catalog catalog"
  shows "inj_on (accountName catalog) {0..<NAME_CAPACITY} \<and>
    (\<forall>k. (\<exists>s. accountName catalog k = Inr s) \<longleftrightarrow> 0 \<le> k \<and> k < NAME_CAPACITY)"
proof (intro conjI allI inj_onI)
  fix i j assume ij: "i \<in> {0..<NAME_CAPACITY}" "accountName catalog i = accountName catalog j"
  then obtain s where "accountName catalog i = Inr s" unfolding accountName_def by fastforce
  then show "i = j" using ij(2) accountName_inj [OF assms] by metis
qed (auto simp: accountName_def)

theorem accountName_injective_witness:
  "inj_on (accountName example_catalog) {0..<NAME_CAPACITY}"
  using accountName_injective [OF valid_example_catalog] by blast

end
