(* ===== verification/Enterprise_Scope.thy ===== *)
theory Enterprise_Scope
  imports Pool_Config
begin

text \<open>
  Which enterprise a request belongs to: \<^verbatim>\<open>src/packages/shared/src/enterprise/scope.ts\<close>. A request is the
  four places where it can name an enterprise; Express itself is not modelled. \<open>resolveScope\<close> is the
  body of the \<open>requireEnterprise\<close> middleware, whose answer is either the scope stored on
  \<open>res.locals\<close> or the error response it sends instead of calling \<open>next\<close>.
\<close>

section \<open>Operations\<close>

datatype scope_error = EnterpriseScopeError int string

record scope_request =
  param_id :: js       \<comment> \<open>\<open>req.params.enterpriseId\<close>\<close>
  header_id :: js      \<comment> \<open>\<open>req.get('x-enterprise-id')\<close>\<close>
  query_id :: js       \<comment> \<open>\<open>req.query.enterpriseId\<close>\<close>
  body :: js

definition DEFAULT_ENTERPRISE_ID :: string where
  "DEFAULT_ENTERPRISE_ID = ''default''"

text \<open>\<open>/^[a-z][a-z0-9-]{0,30}[a-z0-9]$/\<close>\<close>

definition enterprise_id_pattern :: "string \<Rightarrow> bool" where
  "enterprise_id_pattern s \<longleftrightarrow> 2 \<le> length s \<and> length s \<le> 32 \<and> is_lower_letter (hd s) \<and> is_alnum (last s) \<and>
     list_all (\<lambda>c. is_alnum c \<or> c = CHR ''-'') s"

fun isEnterpriseId :: "js \<Rightarrow> bool" where
  "isEnterpriseId (JStr s) = enterprise_id_pattern s"
| "isEnterpriseId _ = False"

fun parseEnterpriseId :: "js \<Rightarrow> scope_error + string" where
  "parseEnterpriseId raw =
     (if raw = JUndefined \<or> raw = JNull \<or> raw = JStr '''' then Inl (EnterpriseScopeError 400 ''enterprise_scope_required'')
      else if \<not> isEnterpriseId raw then Inl (EnterpriseScopeError 400 ''invalid_enterprise_id'')
      else (case raw of JStr s \<Rightarrow> Inr s | _ \<Rightarrow> Inl (EnterpriseScopeError 400 ''invalid_enterprise_id'')))"

declare parseEnterpriseId.simps [simp del]

fun bodyEnterpriseId :: "js \<Rightarrow> js" where
  "bodyEnterpriseId (JObj ps) = (if ''enterpriseId'' \<in> set (map fst ps) then js_get (JObj ps) ''enterpriseId'' else JUndefined)"
| "bodyEnterpriseId _ = JUndefined"

definition repeatedIds :: "scope_request \<Rightarrow> js list" where
  "repeatedIds req = filter (\<lambda>v. v \<noteq> JUndefined) [header_id req, query_id req, bodyEnterpriseId (body req)]"

definition assertNoConflict :: "string \<Rightarrow> js list \<Rightarrow> scope_error + unit" where
  "assertNoConflict x repeated =
     (if list_all (\<lambda>v. v = JStr x) repeated then Inr () else Inl (EnterpriseScopeError 400 ''enterprise_scope_conflict''))"

definition resolveScope :: "scope_request \<Rightarrow> (string \<Rightarrow> 'p option) \<Rightarrow> scope_error + string \<times> 'p" where
  "resolveScope req lookup =
     (case parseEnterpriseId (param_id req) of
        Inl e \<Rightarrow> Inl e
      | Inr x \<Rightarrow> (case assertNoConflict x (repeatedIds req) of
          Inl e \<Rightarrow> Inl e
        | Inr _ \<Rightarrow> (case lookup x of
            None \<Rightarrow> Inl (EnterpriseScopeError 404 ''enterprise_not_found'')
          | Some profile \<Rightarrow> Inr (x, profile))))"

definition enterpriseOf :: "(string \<times> 'p) option \<Rightarrow> scope_error + string \<times> 'p" where
  "enterpriseOf scoped =
     (case scoped of None \<Rightarrow> Inl (EnterpriseScopeError 500 ''enterprise_scope_missing'') | Some s \<Rightarrow> Inr s)"

section \<open>Properties\<close>

lemma parseEnterpriseId_Inr: "parseEnterpriseId raw = Inr x \<longleftrightarrow> raw = JStr x \<and> enterprise_id_pattern x"
  by (cases raw) (auto simp: parseEnterpriseId.simps enterprise_id_pattern_def)

lemma parseEnterpriseId_JStr [simp]: "enterprise_id_pattern x \<Longrightarrow> parseEnterpriseId (JStr x) = Inr x"
  by (simp add: parseEnterpriseId_Inr)

text \<open>
  C35. A route handler runs only for an enterprise that the path names in the valid format, that no
  other part of the request contradicts, and that the registry knows; the profile is the
  registry's. Every other request is answered with an error.
\<close>

theorem resolveScope_sound_complete:
  "resolveScope req lookup = Inr (x, profile) \<longleftrightarrow>
     param_id req = JStr x \<and> enterprise_id_pattern x \<and> lookup x = Some profile \<and>
     header_id req \<in> {JUndefined, JStr x} \<and> query_id req \<in> {JUndefined, JStr x} \<and>
     bodyEnterpriseId (body req) \<in> {JUndefined, JStr x}"
  by (auto simp: resolveScope_def parseEnterpriseId_Inr assertNoConflict_def repeatedIds_def
      split: sum.splits option.splits if_splits)

end
