(* ===== verification/Pool_Scheduling.thy ===== *)
theory Pool_Scheduling
  imports Pool_Ranking Enterprise_Scope
begin

text \<open>
  The pure part of the pool's scheduling, \<^verbatim>\<open>src/proxy/src/userPool/scheduling.ts\<close>: which work item the
  worker takes next, which enterprises a batch creates members in, the admission order of a
  caller, and the validation of policy and settings edits. The SQL fragments of that file are
  modelled where the store runs them (\<open>Pool_Store\<close>).
\<close>

section \<open>Enterprises\<close>

datatype EnterpriseLifecycleState = Draft | Active | Draining

fun state_text :: "EnterpriseLifecycleState \<Rightarrow> string" where
  "state_text Draft = ''draft''"
| "state_text Active = ''active''"
| "state_text Draining = ''draining''"

record SchedulingEnterprise =
  se_id :: string
  se_state :: EnterpriseLifecycleState
  max_accounts :: int
  inventory_count :: int

record PolicyEnterprise = SchedulingEnterprise +
  policy_version :: int

definition isActive :: "'a SchedulingEnterprise_scheme \<Rightarrow> bool" where
  "isActive row \<longleftrightarrow> se_state row = Active"

definition assertEnterpriseActive :: "EnterpriseLifecycleState option \<Rightarrow> unit res" where
  "assertEnterpriseActive st = (if st \<noteq> Some Active then Inl (UserPoolError 503 ''enterprise_draining'' 30) else Inr ())"

section \<open>Order of the worker's selections\<close>

definition progress_order :: "string \<Rightarrow> int" where
  "progress_order stage =
     (if stage = ''warmup'' then 0 else if stage = ''ready'' then 0
      else if stage = ''oauth-wait'' then 1 else if stage = ''oauth-dispatch'' then 2
      else if stage = ''oauth-starting'' then 3 else if stage = ''synced'' then 4
      else if stage = ''seat-assigning'' then 5 else if stage = ''scim-synced'' then 6
      else if stage = ''scim-syncing'' then 7 else if stage = ''sso-created'' then 8
      else if stage = ''sso-creating'' then 9 else 10)"

text \<open>
  \<open>PendingSelection\<close> counts the selections modulo 4; \<open>pending_key n\<close> is the \<open>ORDER BY\<close> of selection
  \<open>n\<close> for a row with this stage, retry time, update time and ordinal.
\<close>

definition pending_key :: "nat \<Rightarrow> string \<Rightarrow> int \<Rightarrow> int \<Rightarrow> int \<Rightarrow> int \<times> int \<times> int \<times> int" where
  "pending_key selections stage retry_at updated_at ordinal =
     ((if selections = 3 then 0 else progress_order stage), retry_at, updated_at, ordinal)"

definition pending_selected :: "nat \<Rightarrow> nat" where
  "pending_selected selections = (selections + 1) mod 4"

definition MANUAL_ERRORS :: "string list" where
  "MANUAL_ERRORS = [''sso_creation_ambiguous'', ''sso_name_conflict'', ''oauth_dispatch_ambiguous'',
     ''oauth_task_cancelled_unconfirmed'']"

section \<open>Replenishment and admission\<close>

record PoolSupply =
  ready_idle :: int
  in_flight :: int

record SettingsValues =
  idle_target :: int
  lease_seconds :: int
  paused :: int

definition eligibleEnterprises :: "js \<Rightarrow> string set res" where
  "eligibleEnterprises ids =
     (case ids of
        JArr xs \<Rightarrow> (if list_ex (\<lambda>x. \<not> isEnterpriseId x) xs then Inl (UserPoolError 400 ''invalid_eligible_enterprises'' 0)
                    else Inr (set (concat (map (\<lambda>x. case x of JStr s \<Rightarrow> [s] | _ \<Rightarrow> []) xs))))
      | _ \<Rightarrow> Inl (UserPoolError 400 ''invalid_eligible_enterprises'' 0))"

definition creationEnterprises :: "'a SchedulingEnterprise_scheme list \<Rightarrow> string set \<Rightarrow> PoolEnterprise list" where
  "creationEnterprises rows elig = map (\<lambda>row. \<lparr>pe_id = se_id row, cap = max_accounts row,
     inventory = inventory_count row, eligible = se_id row \<in> elig\<rparr>) (filter isActive rows)"

definition planReplenishment :: "'a SchedulingEnterprise_scheme list \<Rightarrow> string set \<Rightarrow> PoolSupply \<Rightarrow>
    'b SettingsValues_scheme \<Rightarrow> int \<Rightarrow> int \<Rightarrow> string list res" where
  "planReplenishment rows elig supply settings ordinal limit =
     (let deficit = replenishmentDeficit (idle_target settings) (ready_idle supply) (in_flight supply) (paused settings = 1)
      in if deficit = 0 then Inr []
         else planCreations (creationEnterprises rows elig) (min deficit limit) ordinal)"

definition admissionOrder :: "(string \<Rightarrow> string) \<Rightarrow> 'a SchedulingEnterprise_scheme list \<Rightarrow> string \<Rightarrow> string list res" where
  "admissionOrder sha256 rows caller =
     rankEnterprisesForAdmission sha256 (map (\<lambda>row. \<lparr>pe_id = se_id row, cap = max_accounts row,
       inventory = inventory_count row, eligible = True, eligibleIdle = 1\<rparr>) (filter isActive rows)) caller"

section \<open>Edits of settings and policies\<close>

definition SETTING_KEYS :: "string list" where
  "SETTING_KEYS = [''idle_target'', ''lease_seconds'', ''paused'']"

definition POLICY_KEYS :: "string list" where
  "POLICY_KEYS = [''maxAccounts'', ''state'']"

definition STATES :: "string list" where
  "STATES = [''draft'', ''active'', ''draining'']"

definition TRANSITIONS :: "string list" where
  "TRANSITIONS = [''draft>active'', ''active>draining'', ''draining>active'']"

definition MAX_LEASE_SECONDS :: int where
  "MAX_LEASE_SECONDS = 2592000"

text \<open>
  \<open>String(v)\<close>. \<open>None\<close> is the text of a value that contains a number: it has a digit, \<open>NaN\<close> or
  \<open>Infinity\<close> in it and equals no word of the lists above.
\<close>

fun js_text :: "js \<Rightarrow> string option" where
  "js_text (JStr s) = Some s"
| "js_text JUndefined = Some ''undefined''"
| "js_text JNull = Some ''null''"
| "js_text (JBool b) = Some (if b then ''true'' else ''false'')"
| "js_text (JNum q) = None"
| "js_text JNaN = None"
| "js_text (JInfinity neg) = None"
| "js_text (JObj ps) = Some ''[object Object]''"
| "js_text (JArr []) = Some ''''"
| "js_text (JArr [x]) = (if x = JUndefined \<or> x = JNull then Some '''' else js_text x)"
| "js_text (JArr (x # y # zs)) =
     (case (if x = JUndefined \<or> x = JNull then Some '''' else js_text x, js_text (JArr (y # zs))) of
        (Some a, Some b) \<Rightarrow> Some (a @ '','' @ b) | _ \<Rightarrow> None)"

definition text_in :: "string option \<Rightarrow> string list \<Rightarrow> bool" where
  "text_in t ws = (case t of None \<Rightarrow> False | Some s \<Rightarrow> s \<in> set ws)"

definition validSettings :: "js \<Rightarrow> js \<Rightarrow> js \<Rightarrow> bool" where
  "validSettings idle lease pause \<longleftrightarrow>
     Number_isInteger idle \<and> js_int idle \<ge> 0 \<and> js_int idle \<le> NAME_CAPACITY \<and>
     Number_isInteger lease \<and> js_int lease \<ge> 60 \<and> js_int lease \<le> MAX_LEASE_SECONDS \<and>
     pause \<in> {JNum 0, JNum 1}"

text \<open>The value of a key after \<open>{ ...pickSettings(current), ...patch }\<close>.\<close>

definition overridden :: "js \<Rightarrow> string \<Rightarrow> int \<Rightarrow> js" where
  "overridden patch key current = (if key \<in> set (js_keys patch) then js_get patch key else JNum (of_int current))"

definition nextSettings :: "js \<Rightarrow> int \<Rightarrow> 'a SettingsValues_scheme \<Rightarrow> js \<Rightarrow> SettingsValues res" where
  "nextSettings version current_version current patch =
     (if isRecord patch \<and> ''max_accounts'' \<in> set (js_keys patch) then Inl (UserPoolError 409 ''use_enterprise_cap'' 0)
      else if \<not> Number_isSafeInteger version \<or> \<not> isRecord patch \<or> list_ex (\<lambda>k. k \<notin> set SETTING_KEYS) (js_keys patch)
      then Inl (UserPoolError 400 ''invalid_pool_settings'' 0)
      else if js_int version \<noteq> current_version then Inl (UserPoolError 409 ''settings_version_conflict'' 0)
      else let idle = overridden patch ''idle_target'' (idle_target current);
               lease = overridden patch ''lease_seconds'' (lease_seconds current);
               pause = overridden patch ''paused'' (paused current)
        in if \<not> validSettings idle lease pause then Inl (UserPoolError 400 ''invalid_pool_settings'' 0)
           else Inr \<lparr>idle_target = js_int idle, lease_seconds = js_int lease, paused = js_int pause\<rparr>)"

definition isCap :: "js \<Rightarrow> bool" where
  "isCap v \<longleftrightarrow> Number_isSafeInteger v \<and> js_int v \<ge> 1 \<and> js_int v \<le> NAME_CAPACITY"

definition parsePolicyPatch :: "js \<Rightarrow> js \<Rightarrow> js res" where
  "parsePolicyPatch expectedVersion patch =
     (if Number_isSafeInteger expectedVersion \<and> isRecord patch \<and> length (js_keys patch) > 0 \<and>
         list_all (\<lambda>k. k \<in> set POLICY_KEYS) (js_keys patch) \<and>
         (js_get patch ''maxAccounts'' = JUndefined \<or> isCap (js_get patch ''maxAccounts'')) \<and>
         (js_get patch ''state'' = JUndefined \<or> text_in (js_text (js_get patch ''state'')) STATES)
      then Inr patch else Inl (UserPoolError 400 ''invalid_pool_policy'' 0))"

text \<open>
  The next cap and the next state. The state is still the value of the patch: an array such as
  \<open>["active"]\<close> passes the check on its text and is only refused when the statement binds it.
\<close>

definition nextPolicy ::
  "'a PolicyEnterprise_scheme \<Rightarrow> 'b SchedulingEnterprise_scheme list \<Rightarrow> js \<Rightarrow> js \<Rightarrow> (int \<times> js) res" where
  "nextPolicy current all expectedVersion patch =
     res_bind (parsePolicyPatch expectedVersion patch) (\<lambda>policy.
       if js_int expectedVersion \<noteq> policy_version current then Inl (UserPoolError 409 ''policy_version_conflict'' 0)
       else let cap' = (if js_get policy ''maxAccounts'' = JUndefined then max_accounts current
                        else js_int (js_get policy ''maxAccounts''));
                state' = (if js_get policy ''state'' = JUndefined then JStr (state_text (se_state current))
                          else js_get policy ''state'')
         in if state' \<noteq> JStr (state_text (se_state current)) \<and>
               \<not> text_in (map_option (\<lambda>t. state_text (se_state current) @ ''>'' @ t) (js_text state')) TRANSITIONS
            then Inl (UserPoolError 409 ''invalid_state_transition'' 0)
            else if (\<Sum>row\<leftarrow>filter (\<lambda>row. se_id row \<noteq> se_id current) all. max_accounts row) + cap' > NAME_CAPACITY
            then Inl (UserPoolError 409 ''name_capacity_exceeded'' 0)
            else Inr (cap', state'))"

section \<open>Lemmas\<close>

lemma creationEnterprises_ids:
  "map pe_id (creationEnterprises rows elig) = map se_id (filter isActive rows)"
  by (simp add: creationEnterprises_def)

definition valid_rows :: "'a SchedulingEnterprise_scheme list \<Rightarrow> bool" where
  "valid_rows rows \<longleftrightarrow> distinct (map se_id rows) \<and>
     (\<forall>r \<in> set rows. 1 \<le> max_accounts r \<and> max_accounts r \<le> NAME_CAPACITY \<and> 0 \<le> inventory_count r \<and>
        inventory_count r \<le> MAX_SAFE_INTEGER)"

lemma NAME_CAPACITY_safe: "NAME_CAPACITY \<le> MAX_SAFE_INTEGER"
  by (simp add: NAME_CAPACITY_def NAME_BASE_COUNT_def NAME_SUFFIX_COUNT_def MAX_SAFE_INTEGER_def)

lemma valid_creationEnterprises: "valid_rows rows \<Longrightarrow> valid_enterprises (creationEnterprises rows elig)"
  using NAME_CAPACITY_safe
  by (auto simp: valid_rows_def valid_enterprises_def creationEnterprises_def isCount_def distinct_map_filter
      comp_def dest!: bspec)

lemma planReplenishment_spec:
  assumes "valid_rows rows"
  shows "\<exists>plan. planReplenishment rows elig supply settings ordinal limit = Inr plan \<and>
    int (length plan) \<le> max 0 (idle_target settings - ready_idle supply - in_flight supply) \<and>
    int (length plan) \<le> max 0 limit \<and> (paused settings = 1 \<longrightarrow> plan = []) \<and>
    (\<forall>r \<in> set rows. int (count_list plan (se_id r)) \<le> max 0 (max_accounts r - inventory_count r)) \<and>
    set plan \<subseteq> elig \<inter> se_id ` {r \<in> set rows. isActive r}"
proof (cases "replenishmentDeficit (idle_target settings) (ready_idle supply) (in_flight supply) (paused settings = 1) = 0")
  case True
  then show ?thesis by (simp add: planReplenishment_def)
next
  case False
  let ?es = "creationEnterprises rows elig"
  let ?d = "replenishmentDeficit (idle_target settings) (ready_idle supply) (in_flight supply) (paused settings = 1)"
  have np: "paused settings \<noteq> 1" and d: "?d = max 0 (idle_target settings - ready_idle supply - in_flight supply)"
    using False by (auto simp: replenishmentDeficit_def split: if_splits)
  obtain plan where plan: "planCreations ?es (min ?d limit) ordinal = Inr plan"
    "length plan = min (nat (min ?d limit)) (headroom ?es)"
    "\<forall>e \<in> set ?es. count_list plan (pe_id e) \<le> room e" "set plan \<subseteq> pe_id ` set ?es"
    using planCreations_loop_spec [OF valid_creationEnterprises [OF assms], of "nat (min ?d limit)" elig ordinal "[]"]
    by (auto simp: planCreations_def)
  have none: "count_list plan x = 0" if "x \<notin> elig \<inter> se_id ` {r \<in> set rows. isActive r}" for x
  proof (cases "x \<in> pe_id ` set ?es")
    case True
    then obtain e where e: "e \<in> set ?es" "pe_id e = x" by blast
    then have "room e = 0" using that by (auto simp: creationEnterprises_def room_def)
    then show ?thesis using plan(3) e by auto
  next
    case False
    then show ?thesis using plan(4) by (auto simp: count_list_0_iff)
  qed
  then have sub: "set plan \<subseteq> elig \<inter> se_id ` {r \<in> set rows. isActive r}"
    by (meson count_list_0_iff subsetI)
  have "int (count_list plan (se_id r)) \<le> max 0 (max_accounts r - inventory_count r)" if r: "r \<in> set rows" for r
  proof (cases "count_list plan (se_id r) = 0")
    case False
    then have mem: "se_id r \<in> elig \<inter> se_id ` {r \<in> set rows. isActive r}"
      using none [of "se_id r"] by (rule contrapos_np)
    then have "isActive r" using r assms by (auto simp: valid_rows_def dest: distinct_map_eqD)
    then have "\<lparr>pe_id = se_id r, cap = max_accounts r, inventory = inventory_count r, eligible = True\<rparr> \<in> set ?es"
      using r mem by (auto simp: creationEnterprises_def)
    from bspec [OF plan(3) this] show ?thesis by (simp add: room_def)
  qed simp
  then show ?thesis
    using plan(1,2) np False d sub by (auto simp: planReplenishment_def Let_def)
qed

lemma parsePolicyPatch_Inr:
  "parsePolicyPatch v patch = Inr p \<Longrightarrow> p = patch \<and> Number_isSafeInteger v \<and>
     (js_get patch ''maxAccounts'' = JUndefined \<or> isCap (js_get patch ''maxAccounts''))"
  by (auto simp: parsePolicyPatch_def split: if_splits)

lemma transition_words:
  "state_text s @ ''>'' @ t \<in> set TRANSITIONS \<Longrightarrow>
     (state_text s, t) \<in> {(''draft'', ''active''), (''active'', ''draining''), (''draining'', ''active'')}"
  by (cases s) (simp_all add: TRANSITIONS_def)

section \<open>Properties\<close>

lemma nextPolicy_spec:
  assumes "nextPolicy current rows v patch = Inr (cap', state')"
    and "current \<in> set rows" and "valid_rows rows"
  shows "js_int v = policy_version current \<and>
    (state' = JStr (state_text (se_state current)) \<or>
      (\<exists>t. js_text state' = Some t \<and> (state_text (se_state current), t) \<in>
        {(''draft'', ''active''), (''active'', ''draining''), (''draining'', ''active'')})) \<and>
    1 \<le> cap' \<and> cap' \<le> NAME_CAPACITY \<and>
    (\<Sum>r\<leftarrow>rows. if se_id r = se_id current then cap' else max_accounts r) \<le> NAME_CAPACITY"
proof -
  have dist: "distinct (map se_id rows)" using assms(3) by (simp add: valid_rows_def)
  have cur: "1 \<le> max_accounts current" "max_accounts current \<le> NAME_CAPACITY"
    using assms(2,3) by (auto simp: valid_rows_def)
  have split_sum: "(\<Sum>r\<leftarrow>rs. if se_id r = se_id c then k else max_accounts r) =
      (\<Sum>r\<leftarrow>filter (\<lambda>r. se_id r \<noteq> se_id c) rs. max_accounts r) + k"
    if "distinct (map se_id rs)" "c \<in> set rs" for rs :: "'a PolicyEnterprise_scheme list" and c k
    using that
  proof (induction rs)
    case (Cons r rs)
    then show ?case
    proof (cases "se_id r = se_id c")
      case True
      then have "\<forall>q \<in> set rs. se_id q \<noteq> se_id c" using Cons.prems by (auto simp: rev_image_eqI)
      moreover from this have "filter (\<lambda>q. se_id q \<noteq> se_id c) rs = rs" by (simp add: filter_id_conv)
      ultimately show ?thesis using True by (simp cong: map_cong)
    qed auto
  qed simp
  obtain p where p: "parsePolicyPatch v patch = Inr p" using assms(1) by (auto simp: nextPolicy_def res_bind_Inr)
  note parsed = parsePolicyPatch_Inr [OF p]
  show ?thesis
    using assms(1) p parsed cur split_sum [OF dist assms(2)] transition_words [of "se_state current"]
    by (auto simp: nextPolicy_def Let_def text_in_def isCap_def split: if_splits option.splits)
qed

text \<open>
  C37. An accepted policy edit was made against the current version, follows the lifecycle (draft to
  active, active to draining, draining to active, or no change), and keeps the caps of all
  enterprises together within the name catalog.
\<close>

theorem nextPolicy_accepts:
  assumes "nextPolicy current rows v patch = Inr (cap', state')"
    and "current \<in> set rows" and "valid_rows rows"
  shows "js_int v = policy_version current \<and>
    (state' = JStr (state_text (se_state current)) \<or>
      (\<exists>t. js_text state' = Some t \<and> (state_text (se_state current), t) \<in>
        {(''draft'', ''active''), (''active'', ''draining''), (''draining'', ''active'')})) \<and>
    1 \<le> cap' \<and> cap' \<le> NAME_CAPACITY \<and>
    (\<Sum>r\<leftarrow>rows. if se_id r = se_id current then cap' else max_accounts r) \<le> NAME_CAPACITY"
  by (rule nextPolicy_spec [OF assms])

definition example_rows :: "PolicyEnterprise list" where
  "example_rows = [\<lparr>se_id = ''beta'', se_state = Draft, max_accounts = 10, inventory_count = 0, policy_version = 3\<rparr>,
     \<lparr>se_id = ''default'', se_state = Active, max_accounts = 100, inventory_count = 7, policy_version = 1\<rparr>]"

lemma valid_example_rows: "valid_rows example_rows"
  by (simp add: valid_rows_def example_rows_def NAME_CAPACITY_def NAME_BASE_COUNT_def NAME_SUFFIX_COUNT_def
      MAX_SAFE_INTEGER_def)

theorem nextPolicy_accepts_witness:
  "nextPolicy (hd example_rows) example_rows (JNum 3) (JObj [(''maxAccounts'', JNum 50), (''state'', JStr ''active'')])
     = Inr (50, JStr ''active'') \<and> (50::int) \<le> NAME_CAPACITY"
proof -
  have 1: "nextPolicy (hd example_rows) example_rows (JNum 3) (JObj [(''maxAccounts'', JNum 50), (''state'', JStr ''active'')])
     = Inr (50, JStr ''active'')" by code_simp
  have 2: "hd example_rows \<in> set example_rows" by (simp add: example_rows_def)
  show ?thesis using nextPolicy_accepts [OF 1 2 valid_example_rows] 1 by blast
qed

text \<open>
  An accepted settings edit was made against the current version and stores values in range;
  a setting the patch does not name keeps its value, and a named one takes the patch's value.
\<close>

theorem nextSettings_accepts:
  assumes "nextSettings v n current patch = Inr s"
  shows "js_int v = n \<and> 0 \<le> idle_target s \<and> idle_target s \<le> NAME_CAPACITY \<and> 60 \<le> lease_seconds s \<and>
    lease_seconds s \<le> MAX_LEASE_SECONDS \<and> paused s \<in> {0, 1} \<and>
    idle_target s = (if ''idle_target'' \<in> set (js_keys patch) then js_int (js_get patch ''idle_target'') else idle_target current) \<and>
    lease_seconds s = (if ''lease_seconds'' \<in> set (js_keys patch) then js_int (js_get patch ''lease_seconds'') else lease_seconds current) \<and>
    paused s = (if ''paused'' \<in> set (js_keys patch) then js_int (js_get patch ''paused'') else paused current) \<and>
    ''max_accounts'' \<notin> set (js_keys patch)"
  using assms by (auto simp: nextSettings_def Let_def validSettings_def overridden_def split: if_splits)

theorem nextSettings_accepts_witness:
  "nextSettings (JNum 2) 2 \<lparr>idle_target = 10, lease_seconds = 600, paused = 0\<rparr> (JObj [(''paused'', JNum 1)]) =
     Inr \<lparr>idle_target = 10, lease_seconds = 600, paused = 1\<rparr> \<and> (60::int) \<le> 600"
proof -
  have "nextSettings (JNum 2) 2 \<lparr>idle_target = 10, lease_seconds = 600, paused = 0\<rparr> (JObj [(''paused'', JNum 1)]) =
     Inr \<lparr>idle_target = 10, lease_seconds = 600, paused = 1\<rparr>" by code_simp
  from this nextSettings_accepts [OF this] show ?thesis by auto
qed

lemma admissionOrder_spec:
  assumes "valid_rows rows"
  shows "\<exists>ids. admissionOrder sha256 rows caller = Inr ids \<and> distinct ids \<and>
    set ids = se_id ` {r \<in> set rows. isActive r}"
proof -
  let ?es = "map (\<lambda>row. \<lparr>pe_id = se_id row, cap = max_accounts row, inventory = inventory_count row,
    eligible = True, eligibleIdle = 1\<rparr>) (filter isActive rows)"
  have ok: "assertEnterprises ?es = Inr ()" unfolding assertEnterprises_ok
    using assms NAME_CAPACITY_safe
    by (auto simp: valid_rows_def valid_enterprises_def isCount_def distinct_map_filter comp_def dest!: bspec)
  then have "valid_enterprises ?es" by (simp add: assertEnterprises_ok)
  then have "distinct (map pe_id ?es)" by (simp add: valid_enterprises_def)
  then show ?thesis using ok
    by (auto simp: admissionOrder_def rankEnterprisesForAdmission_def Let_def set_rankCandidates
        distinct_rankCandidates filter_map comp_def image_image)
qed

text \<open>
  A caller without a binding tries exactly the active enterprises, each once, whatever the hash
  function is and whatever the caps and inventories are.
\<close>

theorem admissionOrder_complete:
  assumes "valid_rows rows"
  shows "\<exists>ids. admissionOrder sha256 rows caller = Inr ids \<and> distinct ids \<and>
    set ids = se_id ` {r \<in> set rows. isActive r}"
  by (rule admissionOrder_spec [OF assms])

theorem admissionOrder_complete_witness:
  "\<exists>ids. admissionOrder (\<lambda>s. s) example_rows ''caller'' = Inr ids \<and> set ids = {''default''}"
proof -
  have "{r \<in> set example_rows. isActive r} = set (filter isActive example_rows)" by auto
  then have "se_id ` {r \<in> set example_rows. isActive r} = {''default''}"
    by (simp add: example_rows_def isActive_def)
  then show ?thesis using admissionOrder_complete [OF valid_example_rows, of "\<lambda>s. s" "''caller''"] by auto
qed

end
