(* ===== verification/Pool_Tables.thy ===== *)
theory Pool_Tables
  imports Pool_Scheduling
begin

text \<open>
  The rows and tables of the account pool and the state \<open>store\<close> that every operation of
  \<^verbatim>\<open>src/proxy/src/userPool/store.ts\<close> reads and writes. A table is the list of its rows in insertion
  order. Columns with a \<open>CHECK\<close> on their values are datatypes, nullable columns are options, times are
  integers (milliseconds; ISO timestamps are modelled by the instant they denote).

  An operation that runs inside a transaction is a function \<open>store \<Rightarrow> ('a \<times> store) res\<close>: an error is
  a thrown exception. \<open>transaction\<close> runs it: a thrown error leaves the tables unchanged.
\<close>

section \<open>Rows\<close>

datatype member_state = Provisioning | Ready | Cooling | Failed | Disabled

datatype lease_phase = PhaseProvisional | PhaseActive

datatype hold_kind = KindLease | KindCatalog

record Inventory =
  identity :: string
  enterprise_id :: string
  ordinal :: int
  state :: member_state
  stage :: string
  attempt_id :: string
  oauth_attempt_id :: "string option"
  sso_created_at :: "string option"
  task_id :: "string option"
  attempts :: int
  retry_at :: int
  last_error :: "string option"
  updated_at :: int
  cooldown_until :: int
  verified_at :: "int option"
  generation :: int
  reauth_count :: int
  reauth_window_at :: int

record LeaseRow =
  caller_id :: string
  member_identity :: string
  lease_id :: string
  phase :: lease_phase
  assigned_at :: int
  last_success_at :: "int option"
  expires_at :: int

record Lease = LeaseRow +
  lease_enterprise :: string

record HeldLease = Lease +
  request_id :: string
  kind :: hold_kind
  deadline_at :: int

record HoldRow =
  h_request_id :: string
  h_lease_id :: string
  h_expires_at :: int
  h_deadline_at :: int
  h_generation :: int

record CatalogRow =
  c_request_id :: string
  c_lease_id :: string
  c_caller_id :: string
  c_member :: string
  c_assigned_at :: int
  c_expires_at :: int
  c_deadline_at :: int
  c_generation :: int

record CooldownRow =
  k_caller_id :: string
  k_member :: string
  k_expires_at :: int

record ProxyAccount =
  a_identity :: string
  a_enterprise :: string
  a_sso_user :: "string option"
  a_gh_login :: "string option"
  a_token :: "string option"
  a_status :: string
  a_attempt_id :: "string option"
  a_oauth_updated_at :: "int option"
  a_created_at :: int
  a_updated_at :: int

record EnterpriseRow = PolicyEnterprise +
  profile_fingerprint :: string
  e_created_at :: int
  e_updated_at :: int

record SettingsRow = SettingsValues +
  version :: int
  next_ordinal :: int
  owner :: "string option"
  owner_until :: int

record EventRow =
  ev_id :: int
  ev_at :: int
  ev_action :: string
  ev_identity :: "string option"
  ev_caller :: "string option"
  ev_lease :: "string option"
  ev_detail :: "string option"
  ev_enterprise :: "string option"

record store =
  members :: "Inventory list"
  accounts :: "ProxyAccount list"
  leases :: "LeaseRow list"
  holds :: "HoldRow list"
  catalog_holds :: "CatalogRow list"
  cooldowns :: "CooldownRow list"
  enterprises :: "EnterpriseRow list"
  settings :: SettingsRow
  events :: "EventRow list"
  event_seq :: int
  selections :: nat   \<comment> \<open>the in-memory counter of \<open>PendingSelection\<close>\<close>

section \<open>Transactions\<close>

type_synonym 'a txn = "store \<Rightarrow> ('a \<times> store) res"

definition transaction :: "'a txn \<Rightarrow> store \<Rightarrow> 'a res \<times> store" where
  "transaction f s = (case f s of Inl e \<Rightarrow> (Inl e, s) | Inr (x, s') \<Rightarrow> (Inr x, s'))"

lemma transaction_Inr: "transaction f s = (Inr x, s') \<longleftrightarrow> f s = Inr (x, s')"
  by (auto simp: transaction_def split: sum.splits)

lemma transaction_Inl: "transaction f s = (Inl e, s') \<longleftrightarrow> f s = Inl e \<and> s' = s"
  by (auto simp: transaction_def split: sum.splits)

section \<open>Lookups\<close>

definition inventory_row :: "store \<Rightarrow> string \<Rightarrow> Inventory option" where
  "inventory_row s i = List.find (\<lambda>m. identity m = i) (members s)"

definition account_row :: "store \<Rightarrow> string \<Rightarrow> ProxyAccount option" where
  "account_row s i = List.find (\<lambda>a. a_identity a = i) (accounts s)"

definition enterprise_row :: "store \<Rightarrow> string \<Rightarrow> EnterpriseRow option" where
  "enterprise_row s x = List.find (\<lambda>e. se_id e = x) (enterprises s)"

text \<open>A usable credential: status \<open>valid\<close> and a non-empty token.\<close>

definition valid_credential :: "ProxyAccount \<Rightarrow> bool" where
  "valid_credential a \<longleftrightarrow> a_status a = ''valid'' \<and> (case a_token a of None \<Rightarrow> False | Some t \<Rightarrow> t \<noteq> [])"

definition has_valid_credential :: "store \<Rightarrow> string \<Rightarrow> bool" where
  "has_valid_credential s i = exists_row (\<lambda>a. a_identity a = i \<and> valid_credential a) (accounts s)"

section \<open>Events\<close>

text \<open>
  \<open>recordEvent\<close> appends one event and deletes the events whose identifier is 10000 or more behind.
  The enterprise defaults to the one of the named member.
\<close>

record EventFields =
  f_action :: string
  f_identity :: "string option"
  f_caller :: "string option"
  f_lease :: "string option"
  f_detail :: "string option"
  f_enterprise :: "string option"

definition recordEvent :: "int \<Rightarrow> EventFields \<Rightarrow> store \<Rightarrow> store" where
  "recordEvent now f s =
     (let member_ent = (case f_identity f of None \<Rightarrow> None | Some i \<Rightarrow> map_option enterprise_id (inventory_row s i));
          new_id = event_seq s + 1;
          row = \<lparr>ev_id = new_id, ev_at = now, ev_action = f_action f, ev_identity = f_identity f,
            ev_caller = f_caller f, ev_lease = f_lease f, ev_detail = f_detail f,
            ev_enterprise = (case f_enterprise f of Some e \<Rightarrow> Some e | None \<Rightarrow> member_ent)\<rparr>
      in s\<lparr>event_seq := new_id, events := filter (\<lambda>e. \<not> ev_id e \<le> new_id - 10000) (events s @ [row])\<rparr>)"

definition event :: "int \<Rightarrow> string \<Rightarrow> string option \<Rightarrow> string option \<Rightarrow> string option \<Rightarrow> string option \<Rightarrow> store \<Rightarrow> store" where
  "event now action i caller lease detail =
     recordEvent now \<lparr>f_action = action, f_identity = i, f_caller = caller, f_lease = lease, f_detail = detail,
       f_enterprise = None\<rparr>"

section \<open>Foreign keys and the credential trigger\<close>

text \<open>Deleting leases deletes their holds (\<open>ON DELETE CASCADE\<close>).\<close>

definition delete_leases :: "(LeaseRow \<Rightarrow> bool) \<Rightarrow> store \<Rightarrow> store" where
  "delete_leases P s = s\<lparr>leases := filter (\<lambda>l. \<not> P l) (leases s),
     holds := filter (\<lambda>h. \<not> exists_row (\<lambda>l. P l \<and> lease_id l = h_lease_id h) (leases s)) (holds s)\<rparr>"

text \<open>
  Updating \<open>proxy_accounts\<close> fires \<open>user_pool_credential_fence\<close>: a row whose token, status, attempt,
  update time, SSO user or GitHub login changed bumps the member's generation and drops its
  verification.
\<close>

definition credential_changed :: "ProxyAccount \<Rightarrow> ProxyAccount \<Rightarrow> bool" where
  "credential_changed a b \<longleftrightarrow> a_token a \<noteq> a_token b \<or> a_status a \<noteq> a_status b \<or> a_attempt_id a \<noteq> a_attempt_id b \<or>
     a_oauth_updated_at a \<noteq> a_oauth_updated_at b \<or> a_sso_user a \<noteq> a_sso_user b \<or> a_gh_login a \<noteq> a_gh_login b"

definition update_accounts :: "(ProxyAccount \<Rightarrow> bool) \<Rightarrow> (ProxyAccount \<Rightarrow> ProxyAccount) \<Rightarrow> store \<Rightarrow> store" where
  "update_accounts P f s = s\<lparr>accounts := update_where P f (accounts s),
     members := update_where
       (\<lambda>m. exists_row (\<lambda>a. P a \<and> a_identity a = identity m \<and> credential_changed a (f a)) (accounts s))
       (\<lambda>m. m\<lparr>generation := generation m + 1, verified_at := None\<rparr>) (members s)\<rparr>"

end
