(* ===== verification/Enterprise_Repo.thy ===== *)
theory Enterprise_Repo
  imports Pool_Tables
begin

text \<open>
  The table \<open>proxy_enterprises\<close>: \<^verbatim>\<open>src/proxy/src/db/enterpriseRepo.ts\<close>. The table is its list of rows. What
  the functions read of the pool's own tables, which may be missing or old when they run, is the
  datatype \<open>members_table\<close> and the option \<open>settings_cap\<close> (\<open>None\<close>: no table or no row).
\<close>

section \<open>Operations\<close>

record EnterpriseSeed =
  seed_id :: string
  fingerprint :: string
  seed_maxAccounts :: int

datatype members_table =
    NoMembersTable
  | MembersWithoutEnterprise nat
  | MembersOf "string option list"

definition find_enterprise :: "EnterpriseRow list \<Rightarrow> string \<Rightarrow> EnterpriseRow option" where
  "find_enterprise rows x = List.find (\<lambda>e. se_id e = x) rows"

definition initialState :: "EnterpriseSeed \<Rightarrow> EnterpriseLifecycleState" where
  "initialState seed = (if seed_id seed = DEFAULT_ENTERPRISE_ID then Active else Draft)"

definition initialCap :: "int option \<Rightarrow> EnterpriseSeed \<Rightarrow> int" where
  "initialCap settings_cap seed =
     (if seed_id seed \<noteq> DEFAULT_ENTERPRISE_ID then seed_maxAccounts seed
      else (case settings_cap of None \<Rightarrow> seed_maxAccounts seed | Some c \<Rightarrow> c))"

definition poolMemberCount :: "members_table \<Rightarrow> string \<Rightarrow> int" where
  "poolMemberCount t x =
     (case t of
        NoMembersTable \<Rightarrow> 0
      | MembersWithoutEnterprise n \<Rightarrow> (if x = DEFAULT_ENTERPRISE_ID then int n else 0)
      | MembersOf es \<Rightarrow> int (count_rows (\<lambda>e. (case e of None \<Rightarrow> DEFAULT_ENTERPRISE_ID | Some v \<Rightarrow> v) = x) es))"

definition hasPoolMembers :: "members_table \<Rightarrow> string \<Rightarrow> bool" where
  "hasPoolMembers t x = (case t of MembersOf es \<Rightarrow> exists_row (\<lambda>e. e = Some x) es | _ \<Rightarrow> False)"

definition assertNameCapacity :: "EnterpriseRow list \<Rightarrow> int \<Rightarrow> unit res" where
  "assertNameCapacity rows cap' =
     (if (\<Sum>row\<leftarrow>rows. max_accounts row) + cap' \<le> NAME_CAPACITY then Inr ()
      else Inl (PlainError ''name_capacity_exceeded''))"

text \<open>The \<open>CHECK\<close> constraints of the table, for a row that is inserted or whose cap changes.\<close>

definition enterprise_checks :: "'a SchedulingEnterprise_scheme \<Rightarrow> bool" where
  "enterprise_checks e \<longleftrightarrow> 1 \<le> max_accounts e \<and> max_accounts e \<le> 10000 \<and> inventory_count e \<ge> 0"

text \<open>
  \<open>INSERT OR IGNORE\<close>: a row that violates the primary key or a check is skipped, and \<open>changes\<close> is 0.
\<close>

definition ensureEnterprise :: "int \<Rightarrow> int option \<Rightarrow> members_table \<Rightarrow> EnterpriseSeed \<Rightarrow> EnterpriseRow list \<Rightarrow>
    (bool \<times> EnterpriseRow list) res" where
  "ensureEnterprise now settings_cap t seed rows =
     (if find_enterprise rows (seed_id seed) \<noteq> None then Inr (False, rows)
      else let cap' = initialCap settings_cap seed;
               row = \<lparr>se_id = seed_id seed, se_state = initialState seed, max_accounts = cap',
                 inventory_count = poolMemberCount t (seed_id seed), policy_version = 1,
                 profile_fingerprint = fingerprint seed, e_created_at = now, e_updated_at = now\<rparr>
        in res_bind (assertNameCapacity rows cap') (\<lambda>_.
             if enterprise_checks row then Inr (True, rows @ [row]) else Inr (False, rows)))"

definition verifyEnterpriseIdentity :: "int \<Rightarrow> EnterpriseSeed \<Rightarrow> EnterpriseRow list \<Rightarrow> EnterpriseRow list res" where
  "verifyEnterpriseIdentity now seed rows =
     (case find_enterprise rows (seed_id seed) of
        None \<Rightarrow> Inl (PlainError ''missing from proxy_enterprises'')
      | Some row \<Rightarrow>
          if profile_fingerprint row = fingerprint seed then Inr rows
          else if inventory_count row > 0 then Inl (PlainError ''enterprise_identity_changed'')
          else Inr (update_where (\<lambda>e. se_id e = seed_id seed)
                 (\<lambda>e. e\<lparr>profile_fingerprint := fingerprint seed, e_updated_at := now\<rparr>) rows))"

fun sync_seeds :: "int \<Rightarrow> int option \<Rightarrow> members_table \<Rightarrow> EnterpriseSeed list \<Rightarrow> EnterpriseRow list \<Rightarrow> EnterpriseRow list res" where
  "sync_seeds now cap' t [] rows = Inr rows"
| "sync_seeds now cap' t (seed # seeds) rows =
     res_bind (ensureEnterprise now cap' t seed rows) (\<lambda>(_, rows1).
     res_bind (verifyEnterpriseIdentity now seed rows1) (\<lambda>rows2. sync_seeds now cap' t seeds rows2))"

definition syncRegistryEnterprises :: "int \<Rightarrow> int option \<Rightarrow> members_table \<Rightarrow> EnterpriseSeed list \<Rightarrow> EnterpriseRow list \<Rightarrow>
    EnterpriseRow list res" where
  "syncRegistryEnterprises now settings_cap t seeds rows =
     res_bind (sync_seeds now settings_cap t seeds rows) (\<lambda>rows'.
       if exists_row (\<lambda>row. se_id row \<notin> seed_id ` set seeds \<and>
            (inventory_count row > 0 \<or> hasPoolMembers t (se_id row))) rows'
       then Inl (PlainError ''enterprise_missing_from_registry'') else Inr rows')"

definition setEnterpriseCap :: "int \<Rightarrow> string \<Rightarrow> int \<Rightarrow> EnterpriseRow list \<Rightarrow> EnterpriseRow list res" where
  "setEnterpriseCap now x cap' rows =
     (if count_rows (\<lambda>e. se_id e = x) rows \<noteq> 1 then Inl (PlainError ''missing from proxy_enterprises'')
      else if \<not> (1 \<le> cap' \<and> cap' \<le> 10000) then Inl (SqlConstraint ''chk_proxy_enterprises_cap'')
      else Inr (update_where (\<lambda>e. se_id e = x)
        (\<lambda>e. e\<lparr>max_accounts := cap', policy_version := policy_version e + 1, e_updated_at := now\<rparr>) rows))"

definition incrementInventory :: "string \<Rightarrow> EnterpriseRow list \<Rightarrow> EnterpriseRow list res" where
  "incrementInventory x rows =
     (if count_rows (\<lambda>e. se_id e = x) rows \<noteq> 1 then Inl (PlainError ''missing from proxy_enterprises'')
      else Inr (update_where (\<lambda>e. se_id e = x) (\<lambda>e. e\<lparr>inventory_count := inventory_count e + 1\<rparr>) rows))"

record InventoryDrift =
  d_enterpriseId :: string
  d_stored :: int
  d_actual :: int

definition member_count :: "Inventory list \<Rightarrow> string \<Rightarrow> int" where
  "member_count ms x = int (count_rows (\<lambda>m. enterprise_id m = x) ms)"

text \<open>The drifting enterprises in the order of their identifiers, and the corrected table.\<close>

definition correctInventoryCounts :: "Inventory list \<Rightarrow> EnterpriseRow list \<Rightarrow> InventoryDrift list \<times> EnterpriseRow list" where
  "correctInventoryCounts ms rows =
     (let drifts = map (\<lambda>e. \<lparr>d_enterpriseId = se_id e, d_stored = inventory_count e, d_actual = member_count ms (se_id e)\<rparr>)
            (sort_key se_id (filter (\<lambda>e. inventory_count e \<noteq> member_count ms (se_id e)) rows))
      in (drifts, fold (\<lambda>d. update_where (\<lambda>e. se_id e = d_enterpriseId d) (\<lambda>e. e\<lparr>inventory_count := d_actual d\<rparr>)) drifts rows))"

section \<open>Lemmas\<close>

lemma find_enterprise_Some: "find_enterprise rows x = Some e \<Longrightarrow> e \<in> set rows \<and> se_id e = x"
  by (auto simp: find_enterprise_def dest: find_Some_mem)

lemma find_enterprise_None: "find_enterprise rows x = None \<longleftrightarrow> x \<notin> se_id ` set rows"
  by (auto simp: find_enterprise_def find_None_mem)

text \<open>The table's invariant: the primary key, the checks, and the shared name catalog.\<close>

definition enterprises_ok :: "EnterpriseRow list \<Rightarrow> bool" where
  "enterprises_ok rows \<longleftrightarrow> distinct (map se_id rows) \<and> (\<forall>e \<in> set rows. enterprise_checks e) \<and>
     (\<Sum>e\<leftarrow>rows. max_accounts e) \<le> NAME_CAPACITY"

lemma ensureEnterprise_ok:
  "ensureEnterprise now cap' t seed rows = Inr (b, rows') \<Longrightarrow> enterprises_ok rows \<Longrightarrow> enterprises_ok rows'"
  by (auto simp: ensureEnterprise_def enterprises_ok_def Let_def res_bind_Inr assertNameCapacity_def
      find_enterprise_None split: if_splits)

lemma ensureEnterprise_mono:
  "ensureEnterprise now cap' t seed rows = Inr (b, rows') \<Longrightarrow> set rows \<subseteq> set rows'"
  by (auto simp: ensureEnterprise_def Let_def res_bind_Inr split: if_splits)

lemma verifyEnterpriseIdentity_ok:
  "verifyEnterpriseIdentity now seed rows = Inr rows' \<Longrightarrow> enterprises_ok rows \<Longrightarrow> enterprises_ok rows'"
  by (auto simp: verifyEnterpriseIdentity_def enterprises_ok_def map_update_where rows enterprise_checks_def
      split: option.splits if_splits)

lemma sync_seeds_ok:
  "sync_seeds now cap' t seeds rows = Inr rows' \<Longrightarrow> enterprises_ok rows \<Longrightarrow> enterprises_ok rows'"
proof (induction seeds arbitrary: rows)
  case (Cons seed seeds)
  then obtain b rows1 rows2 where "ensureEnterprise now cap' t seed rows = Inr (b, rows1)"
    "verifyEnterpriseIdentity now seed rows1 = Inr rows2" "sync_seeds now cap' t seeds rows2 = Inr rows'"
    by (auto simp: res_bind_Inr)
  then show ?case using Cons ensureEnterprise_ok verifyEnterpriseIdentity_ok by blast
qed simp

text \<open>What a start keeps of a row: everything but the fingerprint, and that too once it has members.\<close>

definition kept :: "EnterpriseRow \<Rightarrow> EnterpriseRow \<Rightarrow> bool" where
  "kept e e' \<longleftrightarrow> se_id e' = se_id e \<and> se_state e' = se_state e \<and> max_accounts e' = max_accounts e \<and>
     inventory_count e' = inventory_count e \<and> policy_version e' = policy_version e \<and>
     (inventory_count e > 0 \<longrightarrow> profile_fingerprint e' = profile_fingerprint e)"

lemma kept_trans: "kept a b \<Longrightarrow> kept b c \<Longrightarrow> kept a c"
  by (auto simp: kept_def)

lemma verifyEnterpriseIdentity_kept:
  assumes "verifyEnterpriseIdentity now seed rows = Inr rows'" and "distinct (map se_id rows)" and "e \<in> set rows"
  shows "\<exists>e' \<in> set rows'. kept e e' \<and> (se_id e \<noteq> seed_id seed \<longrightarrow> e' = e) \<and>
    (se_id e = seed_id seed \<longrightarrow> profile_fingerprint e' = fingerprint seed)"
proof -
  obtain row where row: "find_enterprise rows (seed_id seed) = Some row"
    using assms(1) by (auto simp: verifyEnterpriseIdentity_def split: option.splits)
  have same: "e = row" if "se_id e = seed_id seed"
    using find_enterprise_Some [OF row] assms(2,3) that by (auto dest: distinct_map_eqD)
  let ?f = "\<lambda>e. if se_id e = seed_id seed then e\<lparr>profile_fingerprint := fingerprint seed, e_updated_at := now\<rparr> else e"
  consider "rows' = rows" "profile_fingerprint row = fingerprint seed"
    | "\<not> 0 < inventory_count row" "rows' = map ?f rows"
    using assms(1) row by (auto simp: verifyEnterpriseIdentity_def update_where_def split: if_splits)
  then show ?thesis
  proof cases
    case 1
    then show ?thesis using same assms(3) by (intro bexI [of _ e]) (auto simp: kept_def)
  next
    case 2
    then show ?thesis using same assms(3) by (intro bexI [of _ "?f e"]) (auto simp: kept_def)
  qed
qed

lemma sync_seeds_spec:
  assumes "sync_seeds now cap' t seeds rows = Inr rows'" and "enterprises_ok rows" and "distinct (map seed_id seeds)"
  shows "(\<forall>e \<in> set rows. \<exists>e' \<in> set rows'. kept e e' \<and> (se_id e \<notin> seed_id ` set seeds \<longrightarrow> e' = e)) \<and>
    (\<forall>seed \<in> set seeds. \<exists>e' \<in> set rows'. se_id e' = seed_id seed \<and> profile_fingerprint e' = fingerprint seed)"
  using assms
proof (induction seeds arbitrary: rows)
  case Nil
  then show ?case by (auto simp: kept_def)
next
  case (Cons seed seeds)
  obtain b rows1 rows2 where step: "ensureEnterprise now cap' t seed rows = Inr (b, rows1)"
    "verifyEnterpriseIdentity now seed rows1 = Inr rows2" "sync_seeds now cap' t seeds rows2 = Inr rows'"
    using Cons.prems(1) by (auto simp: res_bind_Inr)
  have ok1: "enterprises_ok rows1" by (rule ensureEnterprise_ok [OF step(1) Cons.prems(2)])
  have dist1: "distinct (map se_id rows1)" using ok1 by (simp add: enterprises_ok_def)
  note v = verifyEnterpriseIdentity_kept [OF step(2) dist1]
  have IH: "(\<forall>e \<in> set rows2. \<exists>e' \<in> set rows'. kept e e' \<and> (se_id e \<notin> seed_id ` set seeds \<longrightarrow> e' = e)) \<and>
    (\<forall>s \<in> set seeds. \<exists>e' \<in> set rows'. se_id e' = seed_id s \<and> profile_fingerprint e' = fingerprint s)"
    using Cons.IH [OF step(3) verifyEnterpriseIdentity_ok [OF step(2) ok1]] Cons.prems(3) by simp
  have old: "\<exists>e' \<in> set rows'. kept e e' \<and> (se_id e \<notin> seed_id ` set (seed # seeds) \<longrightarrow> e' = e)"
    if e: "e \<in> set rows" for e
  proof -
    have "e \<in> set rows1" using ensureEnterprise_mono [OF step(1)] e by blast
    from v [OF this] obtain f where f: "f \<in> set rows2" "kept e f" "se_id e \<noteq> seed_id seed \<longrightarrow> f = e" by blast
    then obtain g where "g \<in> set rows'" "kept f g" "se_id f \<notin> seed_id ` set seeds \<longrightarrow> g = f" using IH by blast
    then show ?thesis using f by (intro bexI [of _ g]) (auto intro: kept_trans)
  qed
  have "\<exists>e' \<in> set rows'. se_id e' = seed_id seed \<and> profile_fingerprint e' = fingerprint seed"
  proof -
    obtain r where r: "r \<in> set rows1" "se_id r = seed_id seed"
      using step(2) by (auto simp: verifyEnterpriseIdentity_def dest: find_enterprise_Some split: option.splits)
    from v [OF r(1)] obtain f where f: "f \<in> set rows2" "se_id f = seed_id seed" "profile_fingerprint f = fingerprint seed"
      using r(2) by (auto simp: kept_def)
    moreover have "seed_id seed \<notin> seed_id ` set seeds" using Cons.prems(3) by simp
    ultimately show ?thesis using IH by (metis)
  qed
  then show ?case using old IH by auto
qed

lemma fold_corrections:
  assumes "\<forall>d \<in> set ds. d_actual d = member_count ms (d_enterpriseId d)"
  shows "fold (\<lambda>d. update_where (\<lambda>e. se_id e = d_enterpriseId d) (\<lambda>e. e\<lparr>inventory_count := d_actual d\<rparr>)) ds rows =
    map (\<lambda>e. if se_id e \<in> d_enterpriseId ` set ds then e\<lparr>inventory_count := member_count ms (se_id e)\<rparr> else e) rows"
  using assms by (induction ds arbitrary: rows) (auto simp: update_where_def)

section \<open>Properties\<close>

text \<open>
  C36. A start either fails closed or leaves a table in which every registered enterprise has its
  configured identity, the caps together fit the name catalog, nothing that was already there
  changed (an enterprise with members not even its identity), and no unregistered enterprise has
  members.
\<close>

theorem syncRegistryEnterprises_fails_closed:
  assumes "syncRegistryEnterprises now cap' t seeds rows = Inr rows'" and "enterprises_ok rows"
    and "distinct (map seed_id seeds)"
  shows "enterprises_ok rows' \<and>
    (\<forall>seed \<in> set seeds. \<exists>e \<in> set rows'. se_id e = seed_id seed \<and> profile_fingerprint e = fingerprint seed) \<and>
    (\<forall>e \<in> set rows. \<exists>e' \<in> set rows'. kept e e') \<and>
    (\<forall>e \<in> set rows'. se_id e \<notin> seed_id ` set seeds \<longrightarrow> inventory_count e \<le> 0 \<and> \<not> hasPoolMembers t (se_id e))"
proof -
  have sync: "sync_seeds now cap' t seeds rows = Inr rows'"
    using assms(1) by (auto simp: syncRegistryEnterprises_def res_bind_Inr split: if_splits)
  have "\<forall>e \<in> set rows'. se_id e \<notin> seed_id ` set seeds \<longrightarrow> inventory_count e \<le> 0 \<and> \<not> hasPoolMembers t (se_id e)"
    using assms(1) by (auto simp: syncRegistryEnterprises_def res_bind_Inr exists_row_iff not_less split: if_splits)
  then show ?thesis using sync_seeds_ok [OF sync assms(2)] sync_seeds_spec [OF sync assms(2,3)] by blast
qed

theorem syncRegistryEnterprises_fails_closed_witness:
  "\<exists>rows'. syncRegistryEnterprises 5 None NoMembersTable
       [\<lparr>seed_id = ''default'', fingerprint = ''f1'', seed_maxAccounts = 100\<rparr>,
        \<lparr>seed_id = ''beta'', fingerprint = ''f2'', seed_maxAccounts = 50\<rparr>] [] = Inr rows' \<and> enterprises_ok rows'"
proof -
  let ?seeds = "[\<lparr>seed_id = ''default'', fingerprint = ''f1'', seed_maxAccounts = 100\<rparr>,
        \<lparr>seed_id = ''beta'', fingerprint = ''f2'', seed_maxAccounts = 50\<rparr>]"
  have "\<not> isl (syncRegistryEnterprises 5 None NoMembersTable ?seeds [])" by code_simp
  then obtain rows' where r: "syncRegistryEnterprises 5 None NoMembersTable ?seeds [] = Inr rows'"
    by (cases "syncRegistryEnterprises 5 None NoMembersTable ?seeds []") auto
  have 2: "enterprises_ok []" by (simp add: enterprises_ok_def NAME_CAPACITY_def NAME_BASE_COUNT_def NAME_SUFFIX_COUNT_def)
  have 3: "distinct (map seed_id ?seeds)" by simp
  show ?thesis using r syncRegistryEnterprises_fails_closed [OF r 2 3] by blast
qed

lemma correctInventoryCounts_spec:
  "snd (correctInventoryCounts ms rows) = map (\<lambda>e. e\<lparr>inventory_count := member_count ms (se_id e)\<rparr>) rows \<and>
   d_enterpriseId ` set (fst (correctInventoryCounts ms rows)) =
     se_id ` {e \<in> set rows. inventory_count e \<noteq> member_count ms (se_id e)}"
proof -
  let ?bad = "filter (\<lambda>e. inventory_count e \<noteq> member_count ms (se_id e)) rows"
  let ?ds = "map (\<lambda>e. \<lparr>d_enterpriseId = se_id e, d_stored = inventory_count e, d_actual = member_count ms (se_id e)\<rparr>)
    (sort_key se_id ?bad)"
  have set: "d_enterpriseId ` set ?ds = se_id ` {e \<in> set rows. inventory_count e \<noteq> member_count ms (se_id e)}"
    by (simp add: image_image)
  have "fold (\<lambda>d. update_where (\<lambda>e. se_id e = d_enterpriseId d) (\<lambda>e. e\<lparr>inventory_count := d_actual d\<rparr>)) ?ds rows =
    map (\<lambda>e. if se_id e \<in> d_enterpriseId ` set ?ds then e\<lparr>inventory_count := member_count ms (se_id e)\<rparr> else e) rows"
    by (rule fold_corrections) simp
  also have "\<dots> = map (\<lambda>e. e\<lparr>inventory_count := member_count ms (se_id e)\<rparr>) rows"
    unfolding set by (rule map_cong [OF refl]) auto
  finally show ?thesis using set by (simp add: correctInventoryCounts_def Let_def)
qed

text \<open>
  Correcting the inventory makes every enterprise's counter the number of its members, reports
  exactly the enterprises whose counter was wrong, and changes nothing else.
\<close>

theorem correctInventoryCounts_exact:
  "snd (correctInventoryCounts ms rows) = map (\<lambda>e. e\<lparr>inventory_count := member_count ms (se_id e)\<rparr>) rows \<and>
   d_enterpriseId ` set (fst (correctInventoryCounts ms rows)) =
     se_id ` {e \<in> set rows. inventory_count e \<noteq> member_count ms (se_id e)}"
  by (rule correctInventoryCounts_spec)

end
