(* ===== verification/Pool_Store.thy ===== *)
theory Pool_Store
  imports Enterprise_Repo
begin

text \<open>
  The operations of \<open>UserPoolStore\<close> (\<^verbatim>\<open>src/proxy/src/userPool/store.ts\<close>), in the order of the file. Each takes
  the instant \<open>now\<close> of its transaction (the SQLite clock is read once per statement; the model reads
  it once per transaction), the values that \<open>randomUUID\<close> returns in it, and the store.
  SHA-256, the name catalog and the configuration \<open>cfg\<close> are parameters.
\<close>

section \<open>Holds, fences and ownership\<close>

definition ceil_seconds :: "int \<Rightarrow> int" where
  "ceil_seconds ms = - ((- ms) div 1000)"

definition hasHolds :: "int \<Rightarrow> store \<Rightarrow> string \<Rightarrow> bool" where
  "hasHolds now s i \<longleftrightarrow>
     exists_row (\<lambda>h. h_expires_at h > now \<and> exists_row (\<lambda>l. lease_id l = h_lease_id h \<and> member_identity l = i) (leases s)) (holds s) \<or>
     exists_row (\<lambda>c. c_member c = i \<and> c_expires_at c > now) (catalog_holds s)"

text \<open>The fence of a worker: none, the legacy attempt identifier, or a row snapshot.\<close>

datatype InventoryFence = NoFence | FenceAttempt string | FenceRow string int "string option"

fun matchesFence :: "Inventory \<Rightarrow> InventoryFence \<Rightarrow> bool" where
  "matchesFence row NoFence = True"
| "matchesFence row (FenceAttempt a) = (attempt_id row = a)"
| "matchesFence row (FenceRow a g st) =
     (attempt_id row = a \<and> generation row = g \<and> (case st of None \<Rightarrow> True | Some x \<Rightarrow> stage row = x))"

definition matchesOwner :: "int \<Rightarrow> store \<Rightarrow> string option \<Rightarrow> bool" where
  "matchesOwner now s ow = (case ow of None \<Rightarrow> True | Some x \<Rightarrow> owner (settings s) = Some x \<and> owner_until (settings s) > now)"

section \<open>Patches of a member\<close>

text \<open>
  A \<open>Partial<Inventory>\<close> as the list of its entries. \<open>PIgnored\<close> is an entry whose key is not one of
  \<open>INVENTORY_KEYS\<close>.
\<close>

datatype patch_entry =
    PState member_state
  | PStage string
  | PAttemptId string
  | POauthAttemptId "string option"
  | PSsoCreatedAt "string option"
  | PTaskId "string option"
  | PAttempts int
  | PRetryAt int
  | PLastError "string option"
  | PCooldownUntil int
  | PVerifiedAt "int option"
  | PIgnored string

fun apply_entry :: "patch_entry \<Rightarrow> Inventory \<Rightarrow> Inventory" where
  "apply_entry (PState x) m = m\<lparr>state := x\<rparr>"
| "apply_entry (PStage x) m = m\<lparr>stage := x\<rparr>"
| "apply_entry (PAttemptId x) m = m\<lparr>attempt_id := x\<rparr>"
| "apply_entry (POauthAttemptId x) m = m\<lparr>oauth_attempt_id := x\<rparr>"
| "apply_entry (PSsoCreatedAt x) m = m\<lparr>sso_created_at := x\<rparr>"
| "apply_entry (PTaskId x) m = m\<lparr>task_id := x\<rparr>"
| "apply_entry (PAttempts x) m = m\<lparr>attempts := x\<rparr>"
| "apply_entry (PRetryAt x) m = m\<lparr>retry_at := x\<rparr>"
| "apply_entry (PLastError x) m = m\<lparr>last_error := x\<rparr>"
| "apply_entry (PCooldownUntil x) m = m\<lparr>cooldown_until := x\<rparr>"
| "apply_entry (PVerifiedAt x) m = m\<lparr>verified_at := x\<rparr>"
| "apply_entry (PIgnored k) m = m"

fun is_ignored :: "patch_entry \<Rightarrow> bool" where
  "is_ignored (PIgnored k) = True"
| "is_ignored _ = False"

fun patch_state :: "patch_entry list \<Rightarrow> member_state option" where
  "patch_state [] = None"
| "patch_state (PState x # ps) = Some x"
| "patch_state (p # ps) = patch_state ps"

definition update :: "int \<Rightarrow> string \<Rightarrow> patch_entry list \<Rightarrow> InventoryFence \<Rightarrow> string option \<Rightarrow> store \<Rightarrow> bool \<times> store" where
  "update now i patch expected ow s =
     (case inventory_row s i of
        None \<Rightarrow> (False, s)
      | Some row \<Rightarrow>
          if state row = Disabled \<or> \<not> matchesFence row expected \<or> \<not> matchesOwner now s ow then (False, s)
          else let entries = filter (\<lambda>p. \<not> is_ignored p) patch in
          if entries = [] then (True, s)
          else if patch_state patch = Some Provisioning \<and> hasHolds now s i then (False, s)
          else let invalidating = (case patch_state patch of None \<Rightarrow> False
                     | Some st \<Rightarrow> st \<in> {Failed, Disabled, Provisioning} \<and> st \<noteq> state row);
                   s1 = s\<lparr>members := update_where (\<lambda>m. identity m = i)
                     (\<lambda>m. (fold apply_entry entries m)\<lparr>updated_at := now,
                        generation := generation m + (if invalidating then 1 else 0)\<rparr>) (members s)\<rparr>
            in (True, if invalidating
                 then s1\<lparr>leases := update_where (\<lambda>l. member_identity l = i) (\<lambda>l. l\<lparr>expires_at := min (expires_at l) now\<rparr>) (leases s1)\<rparr>
                 else s1))"

section \<open>Enterprises and settings\<close>

definition correctInventoryDrift :: "int \<Rightarrow> store \<Rightarrow> int \<times> store" where
  "correctInventoryDrift now s =
     (let (drifts, rows') = correctInventoryCounts (members s) (enterprises s);
          s1 = s\<lparr>enterprises := rows'\<rparr>
      in (int (length drifts),
          fold (\<lambda>d. recordEvent now \<lparr>f_action = ''enterprise_inventory_drift'', f_identity = None, f_caller = None,
             f_lease = None, f_detail = Some (''stored='' @ show_int (d_stored d) @ '' actual='' @ show_int (d_actual d)),
             f_enterprise = Some (d_enterpriseId d)\<rparr>) drifts s1))"

definition initializeEnterprise :: "int \<Rightarrow> PoolConfig \<Rightarrow> bool \<Rightarrow> unit txn" where
  "initializeEnterprise now cfg created s =
     (if enterprise_row s DEFAULT_ENTERPRISE_ID = None
      then Inl (PlainError ''The default enterprise is missing; run the Proxy migrations first.'')
      else res_bind (if created then setEnterpriseCap now DEFAULT_ENTERPRISE_ID (maxAccounts cfg) (enterprises s)
                     else Inr (enterprises s))
        (\<lambda>rows'. Inr ((), snd (correctInventoryDrift now (s\<lparr>enterprises := rows'\<rparr>)))))"

fun lifecycle_of_js :: "js \<Rightarrow> EnterpriseLifecycleState option" where
  "lifecycle_of_js (JStr t) = (if t = ''draft'' then Some Draft else if t = ''active'' then Some Active
     else if t = ''draining'' then Some Draining else None)"
| "lifecycle_of_js _ = None"

definition policy_json :: "int \<Rightarrow> EnterpriseLifecycleState \<Rightarrow> string" where
  "policy_json cap' st = ''{'' @ [CHR 0x22] @ ''maxAccounts'' @ [CHR 0x22] @ '':'' @ show_int cap' @ '','' @
     [CHR 0x22] @ ''state'' @ [CHR 0x22] @ '':'' @ [CHR 0x22] @ state_text st @ [CHR 0x22] @ ''}''"

definition updateEnterprisePolicy :: "int \<Rightarrow> string \<Rightarrow> js \<Rightarrow> js \<Rightarrow> EnterpriseRow txn" where
  "updateEnterprisePolicy now x expectedVersion patch s =
     (let rows = sort_key se_id (enterprises s) in
      case List.find (\<lambda>row. se_id row = x) rows of
        None \<Rightarrow> Inl (UserPoolError 404 ''enterprise_not_found'' 0)
      | Some current \<Rightarrow> res_bind (nextPolicy current rows expectedVersion patch) (\<lambda>(cap', state').
          case lifecycle_of_js state' of
            None \<Rightarrow> Inl (PlainError ''SQLite3 can only bind numbers, strings, bigints, buffers, and null'')
          | Some st \<Rightarrow>
              let s1 = s\<lparr>enterprises := update_where (\<lambda>e. se_id e = x \<and> policy_version e = js_int expectedVersion)
                    (\<lambda>e. e\<lparr>max_accounts := cap', se_state := st, policy_version := policy_version e + 1, e_updated_at := now\<rparr>)
                    (enterprises s)\<rparr>;
                  s2 = recordEvent now \<lparr>f_action = ''enterprise_policy_updated'', f_identity = None, f_caller = None,
                    f_lease = None, f_detail = Some (policy_json cap' st), f_enterprise = Some x\<rparr> s1
              in (case enterprise_row s2 x of None \<Rightarrow> Inl (PlainError ''undefined'') | Some e \<Rightarrow> Inr (e, s2))))"

definition enterpriseState :: "store \<Rightarrow> string \<Rightarrow> EnterpriseLifecycleState option" where
  "enterpriseState s x = map_option se_state (enterprise_row s x)"

definition updateSettings :: "int \<Rightarrow> js \<Rightarrow> js \<Rightarrow> SettingsRow txn" where
  "updateSettings now ver patch s =
     res_bind (nextSettings ver (version (settings s)) (settings s) patch) (\<lambda>n.
       let s1 = s\<lparr>settings := (settings s)\<lparr>idle_target := idle_target n, lease_seconds := lease_seconds n,
                    paused := paused n, version := version (settings s) + 1\<rparr>\<rparr>;
           s2 = event now ''settings_updated'' None None None None s1
       in Inr (settings s2, s2))"

section \<open>Worker credentials and login slots\<close>

datatype WorkerCredentialMutation = Link string | Begin string | Invalidate string

text \<open>Whether some row was changed, and the store after the update and its trigger.\<close>

definition update_accounts_n :: "(ProxyAccount \<Rightarrow> bool) \<Rightarrow> (ProxyAccount \<Rightarrow> ProxyAccount) \<Rightarrow> store \<Rightarrow> bool \<times> store" where
  "update_accounts_n P f s = (count_rows P (accounts s) = 1, update_accounts P f s)"

definition mutateWorkerCredential :: "int \<Rightarrow> string \<Rightarrow> string \<times> int \<times> string \<Rightarrow> string \<Rightarrow> WorkerCredentialMutation \<Rightarrow>
    store \<Rightarrow> bool \<times> store" where
  "mutateWorkerCredential now i fence ow mutation s =
     (case (inventory_row s i, fence) of
        (None, _) \<Rightarrow> (False, s)
      | (Some row, (fa, fg, fs)) \<Rightarrow>
          if state row \<noteq> Provisioning \<or> stage row \<noteq> fs \<or> \<not> matchesFence row (FenceRow fa fg (Some fs)) \<or>
             \<not> matchesOwner now s (Some ow) \<or> hasHolds now s i then (False, s)
          else (case mutation of
              Link login \<Rightarrow> update_accounts_n
                (\<lambda>a. a_identity a = i \<and> a_sso_user a = Some i \<and> a_gh_login a \<in> {None, Some login})
                (\<lambda>a. a\<lparr>a_gh_login := Some login, a_updated_at := now\<rparr>) s
            | Begin oauth \<Rightarrow> update_accounts_n (\<lambda>a. a_identity a = i \<and> a_sso_user a = Some i)
                (\<lambda>a. a\<lparr>a_status := ''refreshing'', a_attempt_id := Some oauth, a_updated_at := now\<rparr>) s
            | Invalidate token \<Rightarrow> update_accounts_n
                (\<lambda>a. a_identity a = i \<and> a_token a = Some token \<and> a_status a = ''valid'')
                (\<lambda>a. a\<lparr>a_token := None, a_status := ''expired'', a_attempt_id := None, a_oauth_updated_at := Some now,
                   a_updated_at := now\<rparr>) s))"

definition login_stage :: "string \<Rightarrow> bool" where
  "login_stage st \<longleftrightarrow> st = ''oauth-dispatch'' \<or> st = ''oauth-wait''"

definition claimLoginDispatch :: "int \<Rightarrow> string \<Rightarrow> string \<times> int \<times> string \<Rightarrow> string \<Rightarrow> int \<Rightarrow> bool txn" where
  "claimLoginDispatch now i fence ow limit s =
     (if limit < 1 \<or> limit > 100 then Inl (UserPoolError 400 ''invalid_login_limit'' 0)
      else case (inventory_row s i, fence) of
        (None, _) \<Rightarrow> Inr (False, s)
      | (Some row, (fa, fg, fs)) \<Rightarrow>
          if state row \<noteq> Provisioning \<or> stage row \<noteq> ''oauth-starting'' \<or> \<not> matchesFence row (FenceRow fa fg (Some fs)) \<or>
             \<not> matchesOwner now s (Some ow) \<or> hasHolds now s i then Inr (False, s)
          else if int (count_rows (\<lambda>m. login_stage (stage m)) (members s)) \<ge> limit then Inr (False, s)
          else Inr (update now i [PStage ''oauth-dispatch''] (FenceRow fa fg (Some fs)) (Some ow) s))"

definition exhausted :: "Inventory \<Rightarrow> bool" where
  "exhausted m \<longleftrightarrow> state m = Disabled \<or> state m = Failed \<and> attempts m \<ge> 3"

definition listLoginReservations :: "store \<Rightarrow> Inventory list" where
  "listLoginReservations s = take 100 (sort_key ordinal (filter (\<lambda>m. login_stage (stage m) \<and> exhausted m) (members s)))"

definition releaseLoginReservation :: "int \<Rightarrow> string \<Rightarrow> Inventory \<Rightarrow> string \<Rightarrow> string \<Rightarrow> store \<Rightarrow> bool \<times> store" where
  "releaseLoginReservation now i fence ow outcome s =
     (case inventory_row s i of
        None \<Rightarrow> (False, s)
      | Some row \<Rightarrow>
          if outcome \<notin> {''success'', ''failed''} \<or> \<not> login_stage (stage row) \<or> \<not> exhausted row \<or>
             (attempt_id row \<noteq> attempt_id fence \<or> generation row \<noteq> generation fence \<or> stage row \<noteq> stage fence \<or>
              state row \<noteq> state fence \<or> attempts row \<noteq> attempts fence \<or> task_id row \<noteq> task_id fence \<or>
              oauth_attempt_id row \<noteq> oauth_attempt_id fence \<or> sso_created_at row \<noteq> sso_created_at fence) \<or>
             \<not> matchesOwner now s (Some ow) \<or> paused (settings s) \<noteq> 0 \<or> hasHolds now s i then (False, s)
          else (True, s\<lparr>members := update_where (\<lambda>m. identity m = i)
                 (\<lambda>m. m\<lparr>stage := (if outcome = ''success'' then ''warmup'' else ''synced''), task_id := None,
                    oauth_attempt_id := None, generation := generation m + 1\<rparr>) (members s)\<rparr>))"

section \<open>Worker ownership\<close>

definition claimOwner :: "int \<Rightarrow> string \<Rightarrow> store \<Rightarrow> bool \<times> store" where
  "claimOwner now x s =
     (if owner (settings s) = Some x \<or> owner_until (settings s) \<le> now
      then (True, s\<lparr>settings := (settings s)\<lparr>owner := Some x, owner_until := now + 30000\<rparr>\<rparr>) else (False, s))"

definition renewOwner :: "int \<Rightarrow> string \<Rightarrow> store \<Rightarrow> bool \<times> store" where
  "renewOwner now x s =
     (if owner (settings s) = Some x \<and> owner_until (settings s) > now
      then (True, s\<lparr>settings := (settings s)\<lparr>owner_until := now + 30000\<rparr>\<rparr>) else (False, s))"

definition releaseOwner :: "string \<Rightarrow> store \<Rightarrow> store" where
  "releaseOwner x s =
     (if owner (settings s) = Some x then s\<lparr>settings := (settings s)\<lparr>owner := None, owner_until := 0\<rparr>\<rparr> else s)"

end
