(* ===== verification/Pool_Lease.thy ===== *)
theory Pool_Lease
  imports Pool_Store
begin

text \<open>
  Bindings of callers to members: reclamation, admission, holds, completion and release
  (\<^verbatim>\<open>src/proxy/src/userPool/store.ts\<close>, from \<open>counts\<close> to \<open>releaseInactive\<close>), and the members' life cycle
  (\<open>reserve\<close> to \<open>retry\<close>). Conventions as in \<open>Pool_Store\<close>.
\<close>

section \<open>Reclamation\<close>

definition reclaim_expired_holds :: "int \<Rightarrow> store \<Rightarrow> store" where
  "reclaim_expired_holds now s =
     s\<lparr>holds := filter (\<lambda>h. \<not> h_expires_at h \<le> now) (holds s),
       catalog_holds := filter (\<lambda>c. \<not> c_expires_at c \<le> now) (catalog_holds s),
       cooldowns := filter (\<lambda>k. \<not> k_expires_at k \<le> now) (cooldowns s)\<rparr>"

definition reclaim_cooled :: "int \<Rightarrow> store \<Rightarrow> store" where
  "reclaim_cooled now s = s\<lparr>members := update_where (\<lambda>m. state m = Cooling \<and> cooldown_until m \<le> now)
     (\<lambda>m. m\<lparr>state := Ready, cooldown_until := 0, updated_at := now\<rparr>) (members s)\<rparr>"

definition update_each :: "int \<Rightarrow> patch_entry list \<Rightarrow> string list \<Rightarrow> store \<Rightarrow> store" where
  "update_each now patch ids s = fold (\<lambda>i s. snd (update now i patch NoFence None s)) ids s"

definition reclaim_invalid :: "int \<Rightarrow> store \<Rightarrow> store" where
  "reclaim_invalid now s = update_each now
     [PState Failed, PLastError (Some ''credential_not_valid''), PRetryAt (now + 30000)]
     (map identity (filter (\<lambda>m. state m \<in> {Ready, Cooling} \<and>
        exists_row (\<lambda>a. a_identity a = identity m \<and> \<not> valid_credential a) (accounts s)) (members s))) s"

definition reclaim_unverified :: "int \<Rightarrow> store \<Rightarrow> store" where
  "reclaim_unverified now s = update_each now
     [PState Failed, PStage ''warmup'', PLastError (Some ''credential_not_verified''), PRetryAt now]
     (map identity (filter (\<lambda>m. state m = Ready \<and> verified_at m = None) (members s))) s"

definition expire_lease :: "int \<Rightarrow> LeaseRow \<Rightarrow> store \<Rightarrow> store" where
  "expire_lease now l s =
     (if hasHolds now s (member_identity l) then s
      else event now ''lease_expired'' (Some (member_identity l)) (Some (caller_id l)) (Some (lease_id l)) None
             (delete_leases (\<lambda>k. lease_id k = lease_id l) s))"

definition reclaim_leases :: "int \<Rightarrow> store \<Rightarrow> store" where
  "reclaim_leases now s = fold (expire_lease now)
     (filter (\<lambda>l. expires_at l \<le> now \<and>
        exists_row (\<lambda>m. identity m = member_identity l \<and> state m \<noteq> Cooling) (members s)) (leases s)) s"

definition reclaim :: "int \<Rightarrow> store \<Rightarrow> store" where
  "reclaim now s = reclaim_leases now (reclaim_unverified now (reclaim_invalid now
     (reclaim_cooled now (reclaim_expired_holds now s))))"

section \<open>Admission\<close>

definition admit :: "int \<Rightarrow> HeldLease txn \<Rightarrow> store \<Rightarrow> HeldLease res \<times> store" where
  "admit now acq s =
     (let s1 = reclaim now s in
      case acq s1 of
        Inl (UserPoolError st code ra) \<Rightarrow> (Inl (UserPoolError st code ra), s1)
      | Inl e \<Rightarrow> (Inl e, s)
      | Inr (h, s2) \<Rightarrow> (Inr h, s2))"

definition callerLease :: "store \<Rightarrow> string \<Rightarrow> Lease option" where
  "callerLease s c =
     (case List.find (\<lambda>l. caller_id l = c \<and> inventory_row s (member_identity l) \<noteq> None) (leases s) of
        None \<Rightarrow> None
      | Some l \<Rightarrow> map_option (\<lambda>m. \<lparr>caller_id = caller_id l, member_identity = member_identity l, lease_id = lease_id l,
          phase = phase l, assigned_at = assigned_at l, last_success_at = last_success_at l, expires_at = expires_at l,
          lease_enterprise = enterprise_id m\<rparr>) (inventory_row s (member_identity l)))"

definition assertCallerNotCooling :: "int \<Rightarrow> store \<Rightarrow> string \<Rightarrow> unit res" where
  "assertCallerNotCooling now s c =
     (case List.find (\<lambda>k. k_caller_id k = c \<and> k_expires_at k > now) (cooldowns s) of
        None \<Rightarrow> Inr ()
      | Some k \<Rightarrow> Inl (UserPoolError 429 ''member_cooling'' (max 1 (ceil_seconds (k_expires_at k - now)))))"

definition assertReady :: "int \<Rightarrow> store \<Rightarrow> string \<Rightarrow> unit res" where
  "assertReady now s i =
     (case inventory_row s i of
        None \<Rightarrow> Inl (UserPoolError 503 ''member_unavailable'' 0)
      | Some m \<Rightarrow>
          if state m = Cooling then Inl (UserPoolError 429 ''member_cooling'' (max 1 (ceil_seconds (cooldown_until m - now))))
          else if state m \<noteq> Ready \<or> verified_at m = None then Inl (UserPoolError 503 ''member_unavailable'' 0)
          else if \<not> has_valid_credential s i then Inl (UserPoolError 503 ''member_unavailable'' 0)
          else Inr ())"

definition leasable :: "store \<Rightarrow> Inventory \<Rightarrow> bool" where
  "leasable s m \<longleftrightarrow> state m = Ready \<and> verified_at m \<noteq> None \<and> has_valid_credential s (identity m) \<and>
     \<not> exists_row (\<lambda>l. member_identity l = identity m) (leases s) \<and>
     \<not> exists_row (\<lambda>c. c_member c = identity m) (catalog_holds s)"

definition idleMember :: "store \<Rightarrow> string \<Rightarrow> string option" where
  "idleMember s x = map_option identity
     (first_by (\<lambda>m. (updated_at m, ordinal m)) (filter (\<lambda>m. enterprise_id m = x \<and> leasable s m) (members s)))"

text \<open>The join of the caller's catalog holds with their members and enterprises.\<close>

definition caller_catalog :: "store \<Rightarrow> string \<Rightarrow> (CatalogRow \<times> Inventory \<times> EnterpriseRow) list" where
  "caller_catalog s c = concat (map (\<lambda>h. concat (map (\<lambda>m. map (\<lambda>e. (h, m, e))
       (filter (\<lambda>e. se_id e = enterprise_id m) (enterprises s)))
     (filter (\<lambda>m. identity m = c_member h) (members s)))) (filter (\<lambda>h. c_caller_id h = c) (catalog_holds s)))"

fun first_idle :: "store \<Rightarrow> string list \<Rightarrow> (string \<times> string) option" where
  "first_idle s [] = None"
| "first_idle s (x # xs) = (case idleMember s x of Some i \<Rightarrow> Some (i, x) | None \<Rightarrow> first_idle s xs)"

definition availableMember :: "PoolConfig \<Rightarrow> (string \<Rightarrow> string) \<Rightarrow> store \<Rightarrow> string \<Rightarrow> (string \<times> string) res" where
  "availableMember cfg sha256 s c =
     (case first_by (\<lambda>(h, m, e). c_assigned_at h) (caller_catalog s c) of
        Some (h, m, e) \<Rightarrow> res_bind (assertEnterpriseActive (Some (se_state e))) (\<lambda>_. Inr (c_member h, enterprise_id m))
      | None \<Rightarrow> res_bind (admissionOrder sha256 (sort_key se_id (enterprises s)) c) (\<lambda>ids.
          case first_idle s ids of
            Some r \<Rightarrow> Inr r
          | None \<Rightarrow> Inl (UserPoolError 429 ''pool_exhausted'' (retryAfterSeconds cfg))))"

text \<open>The constraints of \<open>user_pool_leases\<close>: primary and unique keys and the reference to the member.\<close>

definition insertLease :: "int \<Rightarrow> PoolConfig \<Rightarrow> string \<Rightarrow> string \<Rightarrow> string \<times> string \<Rightarrow> Lease txn" where
  "insertLease now cfg lid c mem s =
     (let (i, x) = mem;
          row = \<lparr>caller_id = c, member_identity = i, lease_id = lid, phase = PhaseProvisional, assigned_at = now,
            last_success_at = None, expires_at = now + provisionalSeconds cfg * 1000\<rparr>
      in if exists_row (\<lambda>l. caller_id l = c \<or> member_identity l = i \<or> lease_id l = lid) (leases s) \<or> inventory_row s i = None
         then Inl (SqlConstraint ''user_pool_leases'')
         else Inr (\<lparr>caller_id = c, member_identity = i, lease_id = lid, phase = PhaseProvisional, assigned_at = now,
                last_success_at = None, expires_at = now + provisionalSeconds cfg * 1000, lease_enterprise = x\<rparr>,
              event now ''lease_acquired'' (Some i) (Some c) (Some lid) None (s\<lparr>leases := leases s @ [row]\<rparr>)))"

definition HOLD_DRAIN_MS :: int where
  "HOLD_DRAIN_MS = 10000"

definition hold :: "int \<Rightarrow> string \<Rightarrow> Lease \<Rightarrow> hold_kind \<Rightarrow> int \<Rightarrow> HeldLease txn" where
  "hold now rid lease kd timeoutMs s =
     (let deadline = now + timeoutMs;
          held = \<lparr>caller_id = caller_id lease, member_identity = member_identity lease, lease_id = lease_id lease,
            phase = phase lease, assigned_at = assigned_at lease, last_success_at = last_success_at lease,
            expires_at = expires_at lease, lease_enterprise = lease_enterprise lease, request_id = rid, kind = kd,
            deadline_at = deadline\<rparr>
      in case inventory_row s (member_identity lease) of
        None \<Rightarrow> Inl (PlainError ''Cannot read properties of undefined'')
      | Some m \<Rightarrow>
          if kd = KindCatalog then
            (if exists_row (\<lambda>c. c_request_id c = rid \<or> c_lease_id c = lease_id lease) (catalog_holds s)
             then Inl (SqlConstraint ''user_pool_catalog_holds'')
             else Inr (held, s\<lparr>catalog_holds := catalog_holds s @
               [\<lparr>c_request_id = rid, c_lease_id = lease_id lease, c_caller_id = caller_id lease,
                 c_member = member_identity lease, c_assigned_at = assigned_at lease,
                 c_expires_at = deadline + HOLD_DRAIN_MS, c_deadline_at = deadline, c_generation = generation m\<rparr>]\<rparr>))
          else
            (if exists_row (\<lambda>h. h_request_id h = rid) (holds s) \<or> \<not> exists_row (\<lambda>l. lease_id l = lease_id lease) (leases s)
             then Inl (SqlConstraint ''user_pool_holds'')
             else Inr (held, s\<lparr>holds := holds s @
               [\<lparr>h_request_id = rid, h_lease_id = lease_id lease, h_expires_at = deadline + HOLD_DRAIN_MS,
                 h_deadline_at = deadline, h_generation = generation m\<rparr>]\<rparr>)))"

text \<open>The body of \<open>acquire\<close>'s transaction, and the operation with its checks of the arguments.\<close>

definition acquire_body :: "int \<Rightarrow> PoolConfig \<Rightarrow> (string \<Rightarrow> string) \<Rightarrow> string \<Rightarrow> string \<Rightarrow> string \<Rightarrow> int \<Rightarrow> HeldLease txn" where
  "acquire_body now cfg sha256 lid rid c timeoutMs s =
     res_bind (assertCallerNotCooling now s c) (\<lambda>_.
     res_bind (case callerLease s c of
         Some l \<Rightarrow> res_bind (assertReady now s (member_identity l)) (\<lambda>_.
           if expires_at l \<le> now then Inl (UserPoolError 503 ''lease_draining'' 1) else Inr (l, s))
       | None \<Rightarrow> res_bind (availableMember cfg sha256 s c) (\<lambda>mem.
           res_bind (assertReady now s (fst mem)) (\<lambda>_. insertLease now cfg lid c mem s)))
       (\<lambda>(l, s1). hold now rid l KindLease timeoutMs s1))"

definition acquire :: "int \<Rightarrow> PoolConfig \<Rightarrow> (string \<Rightarrow> string) \<Rightarrow> string \<Rightarrow> string \<Rightarrow> string \<Rightarrow> bool \<Rightarrow> int option \<Rightarrow>
    store \<Rightarrow> HeldLease res \<times> store" where
  "acquire now cfg sha256 lid rid c aborted override s =
     (case normalizeCaller c of
        Inl e \<Rightarrow> (Inl e, s)
      | Inr _ \<Rightarrow> (case inferenceHoldTimeoutMs override (requestTimeoutMs cfg) of
          Inl e \<Rightarrow> (Inl e, s)
        | Inr timeoutMs \<Rightarrow>
            if aborted then (Inl (PlainError ''AbortError''), s)
            else admit now (acquire_body now cfg sha256 lid rid c timeoutMs) s))"

definition acquireCatalog_body :: "int \<Rightarrow> PoolConfig \<Rightarrow> (string \<Rightarrow> string) \<Rightarrow> string \<Rightarrow> string \<Rightarrow> string \<Rightarrow> HeldLease txn" where
  "acquireCatalog_body now cfg sha256 lid rid c s =
     res_bind (assertCallerNotCooling now s c) (\<lambda>_.
     res_bind (case callerLease s c of
         Some l \<Rightarrow> res_bind (assertEnterpriseActive (enterpriseState s (lease_enterprise l)))
           (\<lambda>_. Inr (member_identity l, lease_enterprise l))
       | None \<Rightarrow> availableMember cfg sha256 s c) (\<lambda>(i, x).
     res_bind (assertReady now s i) (\<lambda>_.
     if (case callerLease s c of Some l \<Rightarrow> expires_at l \<le> now | None \<Rightarrow> False)
     then Inl (UserPoolError 503 ''lease_draining'' 1)
     else hold now rid \<lparr>caller_id = c, member_identity = i, lease_id = lid, phase = PhaseProvisional, assigned_at = now,
            last_success_at = None, expires_at = now + requestTimeoutMs cfg, lease_enterprise = x\<rparr> KindCatalog
            (requestTimeoutMs cfg) s)))"

definition acquireCatalog :: "int \<Rightarrow> PoolConfig \<Rightarrow> (string \<Rightarrow> string) \<Rightarrow> string \<Rightarrow> string \<Rightarrow> string \<Rightarrow> bool \<Rightarrow>
    store \<Rightarrow> HeldLease res \<times> store" where
  "acquireCatalog now cfg sha256 lid rid c aborted s =
     (case normalizeCaller c of
        Inl e \<Rightarrow> (Inl e, s)
      | Inr _ \<Rightarrow> if aborted then (Inl (PlainError ''AbortError''), s)
                 else admit now (acquireCatalog_body now cfg sha256 lid rid c) s)"

section \<open>Held requests\<close>

record HeldRow =
  r_member :: string
  r_caller :: string
  r_generation :: int
  r_deadline_at :: int
  r_expires_at :: int

definition heldRow :: "store \<Rightarrow> 'a HeldLease_scheme \<Rightarrow> HeldRow option" where
  "heldRow s held =
     (case (if kind held = KindCatalog
        then map_option (\<lambda>c. \<lparr>r_member = c_member c, r_caller = c_caller_id c, r_generation = c_generation c,
               r_deadline_at = c_deadline_at c, r_expires_at = c_expires_at c\<rparr>)
             (List.find (\<lambda>c. c_request_id c = request_id held \<and> c_lease_id c = lease_id held) (catalog_holds s))
        else (case List.find (\<lambda>h. h_request_id h = request_id held \<and> h_lease_id h = lease_id held) (holds s) of
            None \<Rightarrow> None
          | Some h \<Rightarrow> map_option (\<lambda>l. \<lparr>r_member = member_identity l, r_caller = caller_id l, r_generation = h_generation h,
               r_deadline_at = h_deadline_at h, r_expires_at = h_expires_at h\<rparr>)
             (List.find (\<lambda>l. lease_id l = h_lease_id h) (leases s)))) of
        None \<Rightarrow> None
      | Some r \<Rightarrow> if r_member r = member_identity held \<and> r_caller r = caller_id held then Some r else None)"

definition currentHold :: "int \<Rightarrow> store \<Rightarrow> 'a HeldLease_scheme \<Rightarrow> HeldRow option" where
  "currentHold now s held =
     (case heldRow s held of
        None \<Rightarrow> None
      | Some r \<Rightarrow>
          if r_deadline_at r \<le> now \<or> r_expires_at r \<le> now then None
          else (case inventory_row s (r_member r) of
              None \<Rightarrow> None
            | Some m \<Rightarrow> if generation m \<noteq> r_generation r \<or> state m \<notin> {Ready, Cooling} then None
                        else if has_valid_credential s (r_member r) then Some r else None))"

definition heartbeat :: "int \<Rightarrow> store \<Rightarrow> 'a HeldLease_scheme \<Rightarrow> bool" where
  "heartbeat now s held \<longleftrightarrow> currentHold now s held \<noteq> None"

definition REAUTH_WINDOW_MS :: int where
  "REAUTH_WINDOW_MS = 60 * 60 * 1000"

definition REAUTH_MAX_CYCLES :: int where
  "REAUTH_MAX_CYCLES = 3"

definition recoverUnauthorized :: "int \<Rightarrow> string \<Rightarrow> 'a HeldLease_scheme \<Rightarrow> string \<Rightarrow> store \<Rightarrow> bool \<times> store" where
  "recoverUnauthorized now uuid held token s =
     (case (currentHold now s held, inventory_row s (member_identity held)) of
        (Some _, Some m) \<Rightarrow>
          (let i = member_identity held;
               P = (\<lambda>a. a_identity a = i \<and> a_token a = Some token \<and> a_status a = ''valid'');
               s1 = update_accounts P (\<lambda>a. a\<lparr>a_token := None, a_status := ''expired'', a_attempt_id := None,
                      a_oauth_updated_at := Some now, a_updated_at := now\<rparr>) s
           in if \<not> exists_row P (accounts s) then (False, s)
              else let windowAt = reauth_window_at m;
                       resetWindow = (windowAt = 0 \<or> now - windowAt \<ge> REAUTH_WINDOW_MS);
                       count = (if resetWindow then 0 else reauth_count m);
                       spent = (count \<ge> REAUTH_MAX_CYCLES);
                       code = (if spent then ''oauth_reauth_limit_reached'' else ''upstream_unauthorized'');
                       s2 = snd (update now i [PState Failed, PStage ''synced'', PAttemptId uuid, POauthAttemptId None,
                              PTaskId None, PVerifiedAt None, PAttempts (if spent then 3 else 0), PLastError (Some code),
                              PRetryAt now] NoFence None s1);
                       s3 = s2\<lparr>members := update_where (\<lambda>m. identity m = i)
                              (\<lambda>m. m\<lparr>reauth_count := (if spent then count else count + 1),
                                 reauth_window_at := (if resetWindow then now else windowAt)\<rparr>) (members s2)\<rparr>
                in (True, event now (if spent then ''oauth_reauth_blocked'' else ''oauth_reauth_scheduled'') (Some i)
                      (Some (caller_id held)) (Some (lease_id held)) (Some code) s3))
      | _ \<Rightarrow> (False, s))"

text \<open>The optional hold of a report: absent, or one that must be current and name the member.\<close>

definition held_ok :: "int \<Rightarrow> store \<Rightarrow> string \<Rightarrow> HeldLease option \<Rightarrow> bool" where
  "held_ok now s i held = (case held of None \<Rightarrow> True | Some h \<Rightarrow> member_identity h = i \<and> currentHold now s h \<noteq> None)"

definition quarantine :: "int \<Rightarrow> string \<Rightarrow> string \<Rightarrow> HeldLease option \<Rightarrow> store \<Rightarrow> bool \<times> store" where
  "quarantine now i code held s =
     (if \<not> held_ok now s i held then (False, s)
      else case inventory_row s i of
        None \<Rightarrow> (False, s)
      | Some m \<Rightarrow> if state m = Disabled then (False, s)
          else (True, event now ''member_quarantined'' (Some i) (map_option caller_id held) (map_option lease_id held) (Some code)
                 (snd (update now i [PState Failed, PLastError (Some code), PAttempts 3, PRetryAt (now + 300000)] NoFence None s))))"

text \<open>\<open>seconds\<close> is a JavaScript number: \<open>None\<close> when it is not finite.\<close>

fun upsert_cooldown :: "CooldownRow \<Rightarrow> CooldownRow list \<Rightarrow> CooldownRow list" where
  "upsert_cooldown r [] = [r]"
| "upsert_cooldown r (k # ks) =
     (if k_caller_id k = k_caller_id r then k\<lparr>k_expires_at := max (k_expires_at k) (k_expires_at r)\<rparr> # ks
      else k # upsert_cooldown r ks)"

definition cool :: "int \<Rightarrow> string \<Rightarrow> rat option \<Rightarrow> HeldLease option \<Rightarrow> bool txn" where
  "cool now i seconds held s =
     (case seconds of
        None \<Rightarrow> Inl (UserPoolError 400 ''invalid_cooldown'' 0)
      | Some q \<Rightarrow>
        if q \<le> 0 then Inl (UserPoolError 400 ''invalid_cooldown'' 0)
        else if \<not> held_ok now s i held then Inr (False, s)
        else (case inventory_row s i of
            None \<Rightarrow> Inr (False, s)
          | Some m \<Rightarrow>
            if state m \<notin> {Ready, Cooling} then Inr (False, s)
            else let until = max (cooldown_until m) (now + \<lceil>min q 2592000\<rceil> * 1000);
                     s1 = snd (update now i [PState Cooling, PCooldownUntil until] NoFence None s);
                     callers = remdups (map c_caller_id (filter (\<lambda>c. c_member c = i) (catalog_holds s1)));
                     s2 = s1\<lparr>cooldowns := fold (\<lambda>c. upsert_cooldown \<lparr>k_caller_id = c, k_member = i, k_expires_at = until\<rparr>)
                            callers (cooldowns s1)\<rparr>
              in Inr (True, event now ''member_cooling'' (Some i) (map_option caller_id held) (map_option lease_id held) None s2)))"

text \<open>
  \<open>finish\<close> renews the lease of a successful, still current request, deletes the hold, and reclaims.
\<close>

definition finish_renew :: "int \<Rightarrow> 'a HeldLease_scheme \<Rightarrow> bool \<Rightarrow> store \<Rightarrow> store" where
  "finish_renew now held success s =
     (let P = (\<lambda>l. lease_id l = lease_id held \<and> caller_id l = caller_id held \<and> member_identity l = member_identity held \<and>
            exists_row (\<lambda>m. identity m = member_identity l \<and> state m = Ready) (members s))
      in if success \<and> kind held \<noteq> KindCatalog \<and> currentHold now s held \<noteq> None
         then (let s' = s\<lparr>leases := update_where P (\<lambda>l. l\<lparr>phase := PhaseActive, last_success_at := Some now,
                 expires_at := now + lease_seconds (settings s) * 1000\<rparr>) (leases s)\<rparr>
               in if exists_row P (leases s)
                  then event now ''lease_renewed'' (Some (member_identity held)) (Some (caller_id held)) (Some (lease_id held)) None s'
                  else s')
         else s)"

definition finish_remove :: "'a HeldLease_scheme \<Rightarrow> store \<Rightarrow> store" where
  "finish_remove held s =
     (if kind held = KindCatalog
      then s\<lparr>catalog_holds := filter (\<lambda>c. \<not> (c_request_id c = request_id held \<and> c_lease_id c = lease_id held)) (catalog_holds s)\<rparr>
      else s\<lparr>holds := filter (\<lambda>h. \<not> (h_request_id h = request_id held \<and> h_lease_id h = lease_id held)) (holds s)\<rparr>)"

definition finish :: "int \<Rightarrow> 'a HeldLease_scheme \<Rightarrow> bool \<Rightarrow> store \<Rightarrow> store" where
  "finish now held success s =
     (case heldRow s held of
        None \<Rightarrow> s
      | Some _ \<Rightarrow> reclaim now (finish_remove held (finish_renew now held success s)))"

definition release :: "int \<Rightarrow> string \<Rightarrow> unit txn" where
  "release now lid s =
     (case List.find (\<lambda>l. lease_id l = lid) (leases s) of
        None \<Rightarrow> Inl (UserPoolError 404 ''lease_not_found'' 0)
      | Some l \<Rightarrow>
          if hasHolds now s (member_identity l) then Inl (UserPoolError 409 ''lease_in_use'' 0)
          else Inr ((), event now ''lease_released'' (Some (member_identity l)) (Some (caller_id l)) (Some (lease_id l)) None
                 (delete_leases (\<lambda>k. lease_id k = lid) s)))"

definition releaseInactive :: "int \<Rightarrow> string \<Rightarrow> store \<Rightarrow> store" where
  "releaseInactive now i s = (if hasHolds now s i then s else delete_leases (\<lambda>l. member_identity l = i) s)"

end
