(* ===== verification/Pool_Members.thy ===== *)
theory Pool_Members
  imports Pool_Lease
begin

text \<open>
  The members' life cycle in \<^verbatim>\<open>src/proxy/src/userPool/store.ts\<close>: reservation of names (\<open>reserve\<close>,
  \<open>reserveDeficit\<close>), selection of work (\<open>pending\<close>), failure, disabling and retry, and the counters of
  the pool. The UUID given to a new member is \<open>uuid n\<close> for its ordinal \<open>n\<close>.
\<close>

section \<open>Reservation\<close>

text \<open>\<open>READY_IDLE_SQL\<close>, \<open>IN_FLIGHT_SQL\<close> and the aggregate over the members of active enterprises.\<close>

definition ready_idle_member :: "int \<Rightarrow> store \<Rightarrow> Inventory \<Rightarrow> bool" where
  "ready_idle_member now s m \<longleftrightarrow> state m \<in> {Ready, Cooling} \<and> (state m = Ready \<or> cooldown_until m \<le> now) \<and>
     verified_at m \<noteq> None \<and> has_valid_credential s (identity m) \<and>
     \<not> exists_row (\<lambda>l. member_identity l = identity m \<and> (expires_at l > now \<or>
         exists_row (\<lambda>h. h_lease_id h = lease_id l \<and> h_expires_at h > now) (holds s))) (leases s) \<and>
     \<not> exists_row (\<lambda>c. c_member c = identity m \<and> c_expires_at c > now) (catalog_holds s)"

definition manual_error :: "string option \<Rightarrow> bool" where
  "manual_error e \<longleftrightarrow> (case e of None \<Rightarrow> '''' | Some c \<Rightarrow> c) \<in> set MANUAL_ERRORS"

definition retryable :: "Inventory \<Rightarrow> bool" where
  "retryable m \<longleftrightarrow> state m = Failed \<and> attempts m < 3 \<and> \<not> manual_error (last_error m)"

definition in_flight_member :: "Inventory \<Rightarrow> bool" where
  "in_flight_member m \<longleftrightarrow> state m = Provisioning \<or> retryable m \<or> (state m \<in> {Ready, Cooling} \<and> verified_at m = None)"

definition active_member :: "store \<Rightarrow> Inventory \<Rightarrow> bool" where
  "active_member s m \<longleftrightarrow> exists_row (\<lambda>a. a_identity a = identity m) (accounts s) \<and>
     exists_row (\<lambda>e. se_id e = enterprise_id m \<and> se_state e = Active) (enterprises s)"

definition poolSupply :: "int \<Rightarrow> store \<Rightarrow> PoolSupply" where
  "poolSupply now s =
     \<lparr>ready_idle = int (count_rows (\<lambda>m. active_member s m \<and> ready_idle_member now s m) (members s)),
      in_flight = int (count_rows (\<lambda>m. active_member s m \<and> in_flight_member m) (members s))\<rparr>"

definition planBatch :: "int \<Rightarrow> string set \<Rightarrow> int \<Rightarrow> string list txn" where
  "planBatch now elig limit s =
     (let rows = sort_key se_id (enterprises s); s1 = reclaim now s in
      res_bind (planReplenishment rows elig (poolSupply now s1) (settings s1) (next_ordinal (settings s1)) limit)
        (\<lambda>plan. Inr (plan, s1)))"

definition new_account :: "int \<Rightarrow> string \<Rightarrow> string \<Rightarrow> ProxyAccount" where
  "new_account now i x = \<lparr>a_identity = i, a_enterprise = x, a_sso_user = Some i, a_gh_login = None, a_token = None,
     a_status = ''missing'', a_attempt_id = None, a_oauth_updated_at = None, a_created_at = now, a_updated_at = now\<rparr>"

definition new_member :: "int \<Rightarrow> string \<Rightarrow> int \<Rightarrow> string \<Rightarrow> string \<Rightarrow> Inventory" where
  "new_member now i n x uuid = \<lparr>identity = i, enterprise_id = x, ordinal = n, state = Provisioning, stage = ''new'',
     attempt_id = uuid, oauth_attempt_id = None, sso_created_at = None, task_id = None, attempts = 0, retry_at = now,
     last_error = None, updated_at = now, cooldown_until = 0, verified_at = None, generation = 0,
     reauth_count = 0, reauth_window_at = 0\<rparr>"

definition insertMember :: "int \<Rightarrow> string \<Rightarrow> string \<Rightarrow> int \<Rightarrow> string \<Rightarrow> store \<Rightarrow> store res" where
  "insertMember now uuid i n x s =
     (if exists_row (\<lambda>a. a_identity a = i) (accounts s) then Inl (SqlConstraint ''proxy_accounts'')
      else if exists_row (\<lambda>m. identity m = i \<or> ordinal m = n) (members s) then Inl (SqlConstraint ''user_pool_accounts'')
      else res_bind (incrementInventory x (enterprises s)) (\<lambda>rows'.
        Inr (s\<lparr>accounts := accounts s @ [new_account now i x], members := members s @ [new_member now i n x uuid],
               enterprises := rows'\<rparr>)))"

definition name_collision :: "store \<Rightarrow> string \<Rightarrow> bool" where
  "name_collision s i \<longleftrightarrow> exists_row (\<lambda>a. lower (a_identity a) = lower i \<or>
     (case a_sso_user a of None \<Rightarrow> False | Some u \<Rightarrow> lower u = lower i)) (accounts s)"

definition take_ordinal :: "store \<Rightarrow> store" where
  "take_ordinal s = s\<lparr>settings := (settings s)\<lparr>next_ordinal := next_ordinal (settings s) + 1\<rparr>\<rparr>"

text \<open>
  The loop of \<open>reserveCandidate\<close>: every name it looks at uses up its ordinal. The left component is
  the error that the code returns, not throws, when the catalog is exhausted.
\<close>

function reserveCandidate :: "int \<Rightarrow> string list \<Rightarrow> (int \<Rightarrow> string) \<Rightarrow> string \<Rightarrow> (pool_error + Inventory) txn" where
  "reserveCandidate now catalog uuid x s =
     (let n = next_ordinal (settings s) in
      if n < NAME_CAPACITY then
        (case accountName catalog n of
           Inl e \<Rightarrow> Inl e
         | Inr i \<Rightarrow>
             let s1 = take_ordinal s in
             if name_collision s1 i then reserveCandidate now catalog uuid x s1
             else res_bind (insertMember now (uuid n) i n x s1) (\<lambda>s2.
               let s3 = event now ''name_reserved'' (Some i) None None None s2 in
               case inventory_row s3 i of None \<Rightarrow> Inl (PlainError ''undefined'') | Some m \<Rightarrow> Inr (Inr m, s3)))
      else Inr (Inl (UserPoolError 503 ''name_catalog_exhausted'' 0), s))"
  by pat_completeness auto
termination
  by (relation "measure (\<lambda>(now, catalog, uuid, x, s). nat (NAME_CAPACITY - next_ordinal (settings s)))")
    (auto simp: take_ordinal_def)

declare reserveCandidate.simps [simp del]

definition reserve :: "int \<Rightarrow> string list \<Rightarrow> (int \<Rightarrow> string) \<Rightarrow> js \<Rightarrow> store \<Rightarrow> Inventory option res \<times> store" where
  "reserve now catalog uuid ids s =
     (case eligibleEnterprises ids of
        Inl e \<Rightarrow> (Inl e, s)
      | Inr elig \<Rightarrow>
        (case transaction (\<lambda>s. res_bind (planBatch now elig 1 s) (\<lambda>(plan, s1).
              case plan of [] \<Rightarrow> Inr (None, s1)
              | x # _ \<Rightarrow> res_bind (reserveCandidate now catalog uuid x s1) (\<lambda>(r, s2). Inr (Some r, s2)))) s of
           (Inl e, s') \<Rightarrow> (Inl e, s')
         | (Inr None, s') \<Rightarrow> (Inr None, s')
         | (Inr (Some (Inl e)), s') \<Rightarrow> (Inl e, s')
         | (Inr (Some (Inr m)), s') \<Rightarrow> (Inr (Some m), s')))"

fun reserve_all :: "int \<Rightarrow> string list \<Rightarrow> (int \<Rightarrow> string) \<Rightarrow> string list \<Rightarrow> int \<Rightarrow> int txn" where
  "reserve_all now catalog uuid [] reserved s = Inr (reserved, s)"
| "reserve_all now catalog uuid (x # xs) reserved s =
     (case reserveCandidate now catalog uuid x s of
        Inl e \<Rightarrow> Inl e
      | Inr (Inl e, s1) \<Rightarrow> Inr (reserved, s1)
      | Inr (Inr m, s1) \<Rightarrow> reserve_all now catalog uuid xs (reserved + 1) s1)"

definition reserveDeficit_body :: "int \<Rightarrow> string list \<Rightarrow> (int \<Rightarrow> string) \<Rightarrow> string \<Rightarrow> string set \<Rightarrow> int txn" where
  "reserveDeficit_body now catalog uuid ow elig s =
     (if \<not> matchesOwner now s (Some ow) then Inr (0, s)
      else res_bind (planBatch now elig NAME_CAPACITY s) (\<lambda>(plan, s1). reserve_all now catalog uuid plan 0 s1))"

definition reserveDeficit :: "int \<Rightarrow> string list \<Rightarrow> (int \<Rightarrow> string) \<Rightarrow> string \<Rightarrow> js \<Rightarrow> store \<Rightarrow> int res \<times> store" where
  "reserveDeficit now catalog uuid ow ids s =
     (case eligibleEnterprises ids of
        Inl e \<Rightarrow> (Inl e, s)
      | Inr elig \<Rightarrow> transaction (reserveDeficit_body now catalog uuid ow elig) s)"

section \<open>Selection of work\<close>

definition selectable :: "int \<Rightarrow> PoolConfig \<Rightarrow> string list \<Rightarrow> store \<Rightarrow> Inventory \<Rightarrow> bool" where
  "selectable now cfg excluded s m \<longleftrightarrow> retry_at m \<le> now \<and> (state m = Provisioning \<or> retryable m) \<and>
     identity m \<notin> set excluded \<and>
     \<not> exists_row (\<lambda>h. exists_row (\<lambda>l. lease_id l = h_lease_id h \<and> member_identity l = identity m) (leases s)) (holds s) \<and>
     \<not> exists_row (\<lambda>c. c_member c = identity m) (catalog_holds s) \<and>
     (stage m \<noteq> ''oauth-starting'' \<or> int (count_rows (\<lambda>q. login_stage (stage q)) (members s)) <
        (case loginMaxPending cfg of None \<Rightarrow> 5 | Some k \<Rightarrow> k))"

definition pending :: "int \<Rightarrow> PoolConfig \<Rightarrow> string list \<Rightarrow> store \<Rightarrow> Inventory option \<times> store" where
  "pending now cfg excluded s =
     (let s1 = reclaim now s in
      if paused (settings s1) \<noteq> 0 then (None, s1)
      else case first_by (\<lambda>m. pending_key (selections s1) (stage m) (retry_at m) (updated_at m) (ordinal m))
             (filter (selectable now cfg excluded s1) (members s1)) of
          None \<Rightarrow> (None, s1)
        | Some m \<Rightarrow> (Some m, s1\<lparr>selections := pending_selected (selections s1)\<rparr>))"

section \<open>Failure, disabling and retry\<close>

definition retry_delay_seconds :: "int \<Rightarrow> int" where
  "retry_delay_seconds n = min 300 (30 * 2 ^ nat (n - 1))"

definition fail :: "int \<Rightarrow> string \<Rightarrow> string \<Rightarrow> InventoryFence \<Rightarrow> string option \<Rightarrow> bool \<Rightarrow> store \<Rightarrow> store" where
  "fail now i code expected ow terminal s =
     (case inventory_row s i of
        None \<Rightarrow> s
      | Some row \<Rightarrow>
          if state row = Disabled \<or> \<not> matchesFence row expected \<or> \<not> matchesOwner now s ow then s
          else let n = (if terminal then max 3 (attempts row + 1) else attempts row + 1)
            in event now ''provision_failed'' (Some i) None None (Some code)
                 (snd (update now i [PState Failed, PAttempts n, PLastError (Some code),
                    PRetryAt (now + retry_delay_seconds n * 1000)] NoFence None s)))"

definition disable :: "int \<Rightarrow> string \<Rightarrow> string \<Rightarrow> unit txn" where
  "disable now uuid i s =
     (case inventory_row s i of
        None \<Rightarrow> Inl (UserPoolError 404 ''member_not_found'' 0)
      | Some row \<Rightarrow>
          if state row = Disabled then Inr ((), s)
          else Inr ((), event now ''member_disabled'' (Some i) None None None
                 (releaseInactive now i (snd (update now i [PState Disabled, PAttemptId uuid] NoFence None s)))))"

definition retry :: "int \<Rightarrow> string \<Rightarrow> string \<Rightarrow> unit txn" where
  "retry now uuid i s =
     (case inventory_row s i of
        None \<Rightarrow> Inl (UserPoolError 404 ''member_not_found'' 0)
      | Some row \<Rightarrow>
          if hasHolds now s i \<or> state row \<notin> {Failed, Disabled} then Inl (UserPoolError 409 ''member_in_use'' 0)
          else if manual_error (last_error row) then Inl (UserPoolError 409 ''manual_reconciliation_required'' 0)
          else let s1 = releaseInactive now i s;
                   s2 = s1\<lparr>members := update_where (\<lambda>m. identity m = i)
                     (\<lambda>m. m\<lparr>state := Provisioning, attempts := 0, retry_at := 0, last_error := None, cooldown_until := 0,
                        verified_at := None, generation := generation m + 1, attempt_id := uuid,
                        stage := (if stage row = ''ready'' then ''warmup'' else stage row), updated_at := now\<rparr>) (members s1)\<rparr>
            in Inr ((), event now ''member_retry'' (Some i) None None None s2))"

section \<open>Counters\<close>

record pool_counts =
  n_total :: int
  n_ready_idle :: int
  n_state :: "member_state \<Rightarrow> int"
  n_leased :: int
  n_provisional :: int
  n_catalog_requests :: int

definition in_scope :: "string option \<Rightarrow> Inventory \<Rightarrow> bool" where
  "in_scope x m = (case x of None \<Rightarrow> True | Some e \<Rightarrow> enterprise_id m = e)"

definition member_in_scope :: "store \<Rightarrow> string option \<Rightarrow> string \<Rightarrow> bool" where
  "member_in_scope s x i = exists_row (\<lambda>m. identity m = i \<and> in_scope x m) (members s)"

definition counts :: "int \<Rightarrow> string option \<Rightarrow> store \<Rightarrow> pool_counts \<times> store" where
  "counts now x s =
     (let s1 = reclaim now s in
      (\<lparr>n_total = int (count_rows (in_scope x) (members s1)),
        n_ready_idle = int (count_rows (\<lambda>m. leasable s1 m \<and> in_scope x m) (members s1)),
        n_state = (\<lambda>st. int (count_rows (\<lambda>m. state m = st \<and> in_scope x m) (members s1))),
        n_leased = int (count_rows (\<lambda>l. phase l = PhaseActive \<and> member_in_scope s1 x (member_identity l)) (leases s1)),
        n_provisional = int (count_rows (\<lambda>l. phase l \<noteq> PhaseActive \<and> member_in_scope s1 x (member_identity l)) (leases s1)),
        n_catalog_requests = int (count_rows (\<lambda>c. member_in_scope s1 x (c_member c)) (catalog_holds s1))\<rparr>, s1))"

definition managesSsoUser :: "store \<Rightarrow> string \<Rightarrow> string \<Rightarrow> bool" where
  "managesSsoUser s x u = exists_row (\<lambda>m. enterprise_id m = x \<and>
     exists_row (\<lambda>a. a_identity a = identity m \<and> (case a_sso_user a of None \<Rightarrow> False | Some v \<Rightarrow> lower v = lower u)) (accounts s)) (members s)"

end
