(* ===== verification/Pool_Frame.thy ===== *)
theory Pool_Frame
  imports Pool_Members
begin

text \<open>
  What the operations of the store keep. \<open>frame s s'\<close> holds when the step from \<open>s\<close> to \<open>s'\<close> creates no
  member, lease or hold, renames nothing, and never lowers a generation. Operations with this
  contract are the instances of the locale \<open>narrowing\<close>; what follows from it is proved once there.
  The invariant \<open>store_inv\<close> states the keys and references of the tables and the exclusive binding of
  callers and members.
\<close>

section \<open>Frame\<close>

definition lease_key :: "'a LeaseRow_scheme \<Rightarrow> string \<times> string \<times> string" where
  "lease_key l = (caller_id l, member_identity l, lease_id l)"

definition member_key :: "Inventory \<Rightarrow> string \<times> string \<times> int" where
  "member_key m = (identity m, enterprise_id m, ordinal m)"

text \<open>The identities of the Proxy accounts with their enterprises.\<close>

definition account_keys :: "store \<Rightarrow> (string \<times> string) set" where
  "account_keys s = (\<lambda>a. (a_identity a, a_enterprise a)) ` set (accounts s)"

definition frame :: "store \<Rightarrow> store \<Rightarrow> bool" where
  "frame s s' \<longleftrightarrow>
     list_all2 (\<lambda>m m'. member_key m' = member_key m \<and> generation m \<le> generation m') (members s) (members s') \<and>
     mset (map lease_key (leases s')) \<subseteq># mset (map lease_key (leases s)) \<and>
     mset (holds s') \<subseteq># mset (holds s) \<and> mset (catalog_holds s') \<subseteq># mset (catalog_holds s) \<and>
     (\<forall>h \<in> set (holds s'). h_lease_id h \<in> lease_id ` set (leases s) \<longrightarrow> h_lease_id h \<in> lease_id ` set (leases s')) \<and>
     (distinct (map a_identity (accounts s)) \<longrightarrow> distinct (map a_identity (accounts s'))) \<and>
     (\<forall>i \<in> identity ` set (members s). \<forall>x. (i, x) \<in> account_keys s \<longrightarrow> (i, x) \<in> account_keys s') \<and>
     enterprises s' = enterprises s \<and> next_ordinal (settings s') = next_ordinal (settings s)"

definition lease_bindings :: "store \<Rightarrow> (string \<times> string) set" where
  "lease_bindings s = (\<lambda>l. (caller_id l, member_identity l)) ` set (leases s)"

definition catalog_bindings :: "store \<Rightarrow> (string \<times> string) set" where
  "catalog_bindings s = (\<lambda>c. (c_caller_id c, c_member c)) ` set (catalog_holds s)"

definition bindings :: "store \<Rightarrow> (string \<times> string) set" where
  "bindings s = lease_bindings s \<union> catalog_bindings s"

text \<open>A caller is bound to at most one member and a member to at most one caller.\<close>

definition exclusive :: "(string \<times> string) set \<Rightarrow> bool" where
  "exclusive B \<longleftrightarrow> (\<forall>c i d j. (c, i) \<in> B \<longrightarrow> (d, j) \<in> B \<longrightarrow> (c = d \<longleftrightarrow> i = j))"

definition keys_inv :: "store \<Rightarrow> bool" where
  "keys_inv s \<longleftrightarrow>
     distinct (map caller_id (leases s)) \<and> distinct (map member_identity (leases s)) \<and> distinct (map lease_id (leases s)) \<and>
     distinct (map h_request_id (holds s)) \<and> distinct (map c_request_id (catalog_holds s)) \<and>
     distinct (map c_lease_id (catalog_holds s)) \<and> distinct (map identity (members s)) \<and>
     distinct (map ordinal (members s)) \<and> distinct (map a_identity (accounts s))"

definition refs_inv :: "store \<Rightarrow> bool" where
  "refs_inv s \<longleftrightarrow>
     h_lease_id ` set (holds s) \<subseteq> lease_id ` set (leases s) \<and>
     member_identity ` set (leases s) \<subseteq> identity ` set (members s) \<and>
     c_member ` set (catalog_holds s) \<subseteq> identity ` set (members s) \<and>
     (\<lambda>m. (identity m, enterprise_id m)) ` set (members s) \<subseteq> account_keys s \<and>
     enterprise_id ` set (members s) \<subseteq> se_id ` set (enterprises s)"

definition inventory_inv :: "store \<Rightarrow> bool" where
  "inventory_inv s \<longleftrightarrow> enterprises_ok (enterprises s) \<and>
     (\<forall>e \<in> set (enterprises s). inventory_count e = member_count (members s) (se_id e)) \<and>
     (\<forall>m \<in> set (members s). 0 \<le> ordinal m \<and> ordinal m < next_ordinal (settings s)) \<and>
     0 \<le> next_ordinal (settings s) \<and> next_ordinal (settings s) \<le> NAME_CAPACITY"

text \<open>A hold never carries a generation that its member has not reached.\<close>

definition generations_inv :: "store \<Rightarrow> bool" where
  "generations_inv s \<longleftrightarrow>
     (\<forall>h \<in> set (holds s). \<forall>l \<in> set (leases s). \<forall>m \<in> set (members s).
        lease_id l = h_lease_id h \<longrightarrow> identity m = member_identity l \<longrightarrow> h_generation h \<le> generation m) \<and>
     (\<forall>c \<in> set (catalog_holds s). \<forall>m \<in> set (members s). identity m = c_member c \<longrightarrow> c_generation c \<le> generation m)"

definition store_inv :: "store \<Rightarrow> bool" where
  "store_inv s \<longleftrightarrow> keys_inv s \<and> refs_inv s \<and> exclusive (bindings s) \<and> inventory_inv s \<and> generations_inv s"

section \<open>Frame lemmas\<close>

lemma account_keys_other [simp]:
  "account_keys (s\<lparr>members := ms\<rparr>) = account_keys s" "account_keys (s\<lparr>leases := ls\<rparr>) = account_keys s"
  "account_keys (s\<lparr>holds := hs\<rparr>) = account_keys s" "account_keys (s\<lparr>catalog_holds := cs\<rparr>) = account_keys s"
  "account_keys (s\<lparr>cooldowns := ks\<rparr>) = account_keys s" "account_keys (s\<lparr>enterprises := es\<rparr>) = account_keys s"
  "account_keys (s\<lparr>settings := st\<rparr>) = account_keys s" "account_keys (s\<lparr>events := vs\<rparr>) = account_keys s"
  "account_keys (s\<lparr>event_seq := n\<rparr>) = account_keys s" "account_keys (s\<lparr>selections := k\<rparr>) = account_keys s"
  by (simp_all add: account_keys_def)

lemma frame_refl [simp]: "frame s s"
  by (auto simp: frame_def list.rel_refl)

lemma frame_member_key: "frame s s' \<Longrightarrow> map member_key (members s') = map member_key (members s)"
proof -
  assume "frame s s'"
  then have "list_all2 (\<lambda>m m'. member_key m' = member_key m \<and> generation m \<le> generation m') (members s) (members s')"
    by (simp add: frame_def)
  then show ?thesis by (induction rule: list_all2_induct) auto
qed

lemma map_of_member_key:
  assumes "map member_key ms' = map member_key ms"
  shows "map identity ms' = map identity ms" "map enterprise_id ms' = map enterprise_id ms" "map ordinal ms' = map ordinal ms"
proof -
  have "map (g \<circ> member_key) ms' = map (g \<circ> member_key) ms" for g :: "string \<times> string \<times> int \<Rightarrow> 'x"
    using assms by (metis map_map)
  from this [of fst] this [of "fst \<circ> snd"] this [of "snd \<circ> snd"]
  show "map identity ms' = map identity ms" "map enterprise_id ms' = map enterprise_id ms" "map ordinal ms' = map ordinal ms"
    by (simp_all add: member_key_def comp_def)
qed

lemmas frame_maps = map_of_member_key [OF frame_member_key]

lemma frame_images:
  assumes "frame s s'"
  shows "identity ` set (members s') = identity ` set (members s)"
    "enterprise_id ` set (members s') = enterprise_id ` set (members s)"
    "ordinal ` set (members s') = ordinal ` set (members s)"
  using frame_maps [OF assms] by (metis set_map)+

lemma frame_trans:
  assumes "frame s t" and "frame t u"
  shows "frame s u"
proof -
  let ?R = "\<lambda>m m'. member_key m' = member_key m \<and> generation m \<le> generation m'"
  have m: "list_all2 ?R (members s) (members t)" "list_all2 ?R (members t) (members u)"
    using assms by (simp_all add: frame_def)
  have "list_all2 ?R (members s) (members u)" by (rule list_all2_trans [OF _ m]) auto
  moreover have "h_lease_id h \<in> lease_id ` set (leases u)"
    if "h \<in> set (holds u)" "h_lease_id h \<in> lease_id ` set (leases s)" for h
  proof -
    have "set (holds u) \<subseteq> set (holds t)" using assms(2) by (metis frame_def set_mset_mono set_mset_mset)
    then show ?thesis using that assms unfolding frame_def by (meson subsetD)
  qed
  moreover have "identity ` set (members t) = identity ` set (members s)" by (rule frame_images(1) [OF assms(1)])
  moreover have "mset (map lease_key (leases u)) \<subseteq># mset (map lease_key (leases s))" "mset (holds u) \<subseteq># mset (holds s)"
    "mset (catalog_holds u) \<subseteq># mset (catalog_holds s)"
    using assms unfolding frame_def by (meson subset_mset.order_trans)+
  ultimately show ?thesis using assms unfolding frame_def by simp
qed

lemma frame_fold: "(\<And>x s. frame s (f x s)) \<Longrightarrow> frame s (fold f xs s)"
  by (induction xs arbitrary: s) (auto intro: frame_trans)

lemma list_all2_right: "list_all2 R xs ys \<Longrightarrow> y \<in> set ys \<Longrightarrow> \<exists>x \<in> set xs. R x y"
  and list_all2_left: "list_all2 R xs ys \<Longrightarrow> x \<in> set xs \<Longrightarrow> \<exists>y \<in> set ys. R x y"
  by (induction rule: list_all2_induct) auto

lemma list_all2_frame_refl:
  "list_all2 (\<lambda>m m'. member_key m' = member_key m \<and> generation m \<le> generation m') ms ms"
  by (simp add: list.rel_refl)

lemma frame_event [simp]: "frame s (event now a i c l d s)" "frame s (recordEvent now f s)"
  by (simp_all add: event_def recordEvent_def Let_def frame_def list_all2_frame_refl)

lemma frame_delete_leases: "frame s (delete_leases P s)"
proof -
  have "h_lease_id h \<in> lease_id ` set (filter (\<lambda>l. \<not> P l) (leases s))"
    if "\<not> exists_row (\<lambda>l. P l \<and> lease_id l = h_lease_id h) (leases s)" "h_lease_id h \<in> lease_id ` set (leases s)" for h
    using that by (auto simp: exists_row_iff)
  then show ?thesis
    by (auto simp: frame_def delete_leases_def list_all2_frame_refl mset_filter intro!: image_mset_subseteq_mono)
qed

lemma apply_entry_key [simp]: "member_key (apply_entry p m) = member_key m" "generation (apply_entry p m) = generation m"
  by (cases p; simp add: member_key_def)+

lemma fold_apply_entry_key [simp]:
  "member_key (fold apply_entry ps m) = member_key m" "generation (fold apply_entry ps m) = generation m"
  by (induction ps arbitrary: m) simp_all

lemma member_key_updates [simp]:
  "member_key (m\<lparr>updated_at := u\<rparr>) = member_key m" "member_key (m\<lparr>generation := g\<rparr>) = member_key m"
  "member_key (m\<lparr>verified_at := v\<rparr>) = member_key m" "member_key (m\<lparr>state := st\<rparr>) = member_key m"
  "member_key (m\<lparr>stage := sg\<rparr>) = member_key m" "member_key (m\<lparr>cooldown_until := k\<rparr>) = member_key m"
  "member_key (m\<lparr>task_id := t\<rparr>) = member_key m" "member_key (m\<lparr>oauth_attempt_id := oa\<rparr>) = member_key m"
  "member_key (m\<lparr>attempts := n\<rparr>) = member_key m" "member_key (m\<lparr>retry_at := r\<rparr>) = member_key m"
  "member_key (m\<lparr>last_error := e\<rparr>) = member_key m" "member_key (m\<lparr>attempt_id := a\<rparr>) = member_key m"
  "member_key (m\<lparr>reauth_count := rc\<rparr>) = member_key m" "member_key (m\<lparr>reauth_window_at := rw\<rparr>) = member_key m"
  by (simp_all add: member_key_def)

text \<open>Changing members that keep their key and do not lower their generation, or leases that keep theirs.\<close>

lemma frame_members:
  "(\<And>m. m \<in> set (members s) \<Longrightarrow> P m \<Longrightarrow> member_key (f m) = member_key m \<and> generation m \<le> generation (f m)) \<Longrightarrow>
     frame s (s\<lparr>members := update_where P f (members s)\<rparr>)"
  unfolding frame_def by (auto intro!: list_all2_update_where)

lemma frame_leases:
  assumes "\<And>l. lease_key (f l) = lease_key l"
  shows "frame s (s\<lparr>leases := update_where P f (leases s)\<rparr>)"
proof -
  have id: "lease_id (f l) = lease_id l" for l using assms [of l] by (simp add: lease_key_def)
  have "map lease_id (update_where P f (leases s)) = map lease_id (leases s)"
    using id by (intro map_update_where) simp
  then have "lease_id ` set (update_where P f (leases s)) = lease_id ` set (leases s)" by (metis set_map)
  then show ?thesis using assms by (simp add: frame_def list_all2_frame_refl map_update_where)
qed

lemma frame_other:
  "frame s (s\<lparr>cooldowns := ks\<rparr>)" "frame s (s\<lparr>selections := n\<rparr>)"
  "frame s (s\<lparr>holds := filter Q (holds s)\<rparr>)" "frame s (s\<lparr>catalog_holds := filter R (catalog_holds s)\<rparr>)"
  by (auto simp: frame_def list_all2_frame_refl mset_filter)

lemma frame_settings: "next_ordinal st = next_ordinal (settings s) \<Longrightarrow> frame s (s\<lparr>settings := st\<rparr>)"
  by (simp add: frame_def list_all2_frame_refl)

lemma frame_update: "frame s (snd (update now i patch fence ow s))"
proof -
  let ?f = "\<lambda>b m. (fold apply_entry (filter (\<lambda>p. \<not> is_ignored p) patch) m)\<lparr>updated_at := now,
    generation := generation m + (if b then 1 else 0)\<rparr>"
  let ?s = "\<lambda>b. s\<lparr>members := update_where (\<lambda>m. identity m = i) (?f b) (members s)\<rparr>"
  have m: "frame s (?s b)" for b by (rule frame_members) auto
  have l: "frame (?s True) ((?s True)\<lparr>leases := update_where (\<lambda>l. member_identity l = i)
      (\<lambda>l. l\<lparr>expires_at := min (expires_at l) now\<rparr>) (leases (?s True))\<rparr>)"
    by (rule frame_leases) (simp add: lease_key_def)
  show ?thesis using m [of False] frame_trans [OF m [of True] l]
    by (auto simp: update_def Let_def split: option.splits)
qed

lemma frame_update_accounts:
  assumes "\<And>a. a_identity (f a) = a_identity a \<and> a_enterprise (f a) = a_enterprise a"
  shows "frame s (update_accounts P f s)"
proof -
  have "frame s (s\<lparr>members := update_where Q (\<lambda>m. m\<lparr>generation := generation m + 1, verified_at := None\<rparr>) (members s)\<rparr>)" for Q
    by (rule frame_members) auto
  moreover have "map (\<lambda>a. (a_identity a, a_enterprise a)) (update_where P f (accounts s)) =
      map (\<lambda>a. (a_identity a, a_enterprise a)) (accounts s)"
    using assms by (intro map_update_where) simp
  then have "account_keys (s\<lparr>accounts := update_where P f (accounts s), members := ms\<rparr>) = account_keys s" for ms
    by (simp add: account_keys_def flip: set_map)
  ultimately show ?thesis using assms by (simp add: update_accounts_def frame_def map_update_where)
qed

section \<open>Frames keep the invariant\<close>

lemma distinct_submset: "mset ys \<subseteq># mset xs \<Longrightarrow> distinct xs \<Longrightarrow> distinct ys"
proof -
  assume "mset ys \<subseteq># mset xs" and d: "distinct xs"
  then obtain zs where "mset xs = mset (ys @ zs)"
    by (metis ex_mset mset_append mset_subset_eq_exists_conv)
  then show ?thesis using d by (metis distinct_append mset_eq_imp_distinct_iff)
qed

lemma distinct_map_submset: "mset ys \<subseteq># mset xs \<Longrightarrow> distinct (map f xs) \<Longrightarrow> distinct (map f ys)"
  by (rule distinct_submset [of _ "map f xs"]) (simp add: image_mset_subseteq_mono)

lemma frame_member_back:
  assumes "frame s s'" and "m' \<in> set (members s')"
  shows "\<exists>m \<in> set (members s). member_key m' = member_key m \<and> generation m \<le> generation m'"
  using assms list_all2_right [of _ "members s" "members s'" m'] by (auto simp: frame_def)

lemma frame_member_forth:
  assumes "frame s s'" and "m \<in> set (members s)"
  shows "\<exists>m' \<in> set (members s'). member_key m' = member_key m \<and> generation m \<le> generation m'"
  using assms list_all2_left [of _ "members s" "members s'" m] by (auto simp: frame_def)

lemma frame_lease_back:
  assumes "frame s s'" and "l' \<in> set (leases s')"
  shows "\<exists>l \<in> set (leases s). lease_key l = lease_key l'"
proof -
  have "set (map lease_key (leases s')) \<subseteq> set (map lease_key (leases s))"
    using assms(1) unfolding frame_def by (metis set_mset_mono set_mset_mset)
  then have "lease_key l' \<in> lease_key ` set (leases s)" using assms(2) by auto
  then show ?thesis by (metis imageE)
qed

lemma frame_hold_ref:
  "frame s s' \<Longrightarrow> h \<in> set (holds s') \<Longrightarrow> h_lease_id h \<in> lease_id ` set (leases s) \<Longrightarrow> h_lease_id h \<in> lease_id ` set (leases s')"
  by (simp add: frame_def)

lemma frame_hold_back: "frame s s' \<Longrightarrow> set (holds s') \<subseteq> set (holds s)"
  and frame_catalog_back: "frame s s' \<Longrightarrow> set (catalog_holds s') \<subseteq> set (catalog_holds s)"
  by (metis frame_def set_mset_mono set_mset_mset)+

lemma frame_bindings:
  assumes "frame s s'"
  shows "bindings s' \<subseteq> bindings s"
proof -
  have "lease_bindings s' \<subseteq> lease_bindings s"
  proof
    fix b assume "b \<in> lease_bindings s'"
    then obtain l' where l': "l' \<in> set (leases s')" "b = (caller_id l', member_identity l')"
      by (auto simp: lease_bindings_def)
    then obtain l where "l \<in> set (leases s)" "lease_key l = lease_key l'" using frame_lease_back [OF assms] by blast
    then show "b \<in> lease_bindings s" using l' by (simp add: lease_bindings_def lease_key_def image_iff) metis
  qed
  moreover have "catalog_bindings s' \<subseteq> catalog_bindings s"
    using frame_catalog_back [OF assms] by (auto simp: catalog_bindings_def)
  ultimately show ?thesis by (auto simp: bindings_def)
qed

lemma exclusive_subset: "exclusive B \<Longrightarrow> A \<subseteq> B \<Longrightarrow> exclusive A"
  unfolding exclusive_def by blast

lemma frame_keys_inv:
  assumes "frame s s'" and "keys_inv s"
  shows "keys_inv s'"
proof -
  have keys: "mset (map lease_key (leases s')) \<subseteq># mset (map lease_key (leases s))"
    "mset (holds s') \<subseteq># mset (holds s)" "mset (catalog_holds s') \<subseteq># mset (catalog_holds s)"
    using assms(1) by (auto simp: frame_def)
  have part: "distinct (map (g \<circ> lease_key) (leases s'))" if "distinct (map (g \<circ> lease_key) (leases s))"
    for g :: "string \<times> string \<times> string \<Rightarrow> string"
    using distinct_map_submset [OF keys(1), of g] that by simp
  have "distinct (map caller_id (leases s'))" "distinct (map member_identity (leases s'))" "distinct (map lease_id (leases s'))"
    using part [of fst] part [of "fst \<circ> snd"] part [of "snd \<circ> snd"] assms(2)
    by (simp_all add: keys_inv_def comp_def lease_key_def)
  then show ?thesis using assms frame_maps [OF assms(1)] distinct_map_submset [OF keys(2), of h_request_id]
      distinct_map_submset [OF keys(3), of c_request_id] distinct_map_submset [OF keys(3), of c_lease_id]
    by (simp add: keys_inv_def frame_def)
qed

lemma refs_hold: "refs_inv s \<Longrightarrow> h \<in> set (holds s) \<Longrightarrow> h_lease_id h \<in> lease_id ` set (leases s)"
  and refs_lease: "refs_inv s \<Longrightarrow> l \<in> set (leases s) \<Longrightarrow> member_identity l \<in> identity ` set (members s)"
  and refs_catalog: "refs_inv s \<Longrightarrow> c \<in> set (catalog_holds s) \<Longrightarrow> c_member c \<in> identity ` set (members s)"
  and refs_account: "refs_inv s \<Longrightarrow> m \<in> set (members s) \<Longrightarrow> (identity m, enterprise_id m) \<in> account_keys s"
  and refs_enterprise: "refs_inv s \<Longrightarrow> m \<in> set (members s) \<Longrightarrow> enterprise_id m \<in> se_id ` set (enterprises s)"
  unfolding refs_inv_def by (auto simp only: image_subset_iff)

lemma frame_refs_inv:
  assumes "frame s s'" and "refs_inv s"
  shows "refs_inv s'"
proof -
  have "h_lease_id ` set (holds s') \<subseteq> lease_id ` set (leases s')"
  proof (rule image_subsetI)
    fix h assume h: "h \<in> set (holds s')"
    then have "h \<in> set (holds s)" using frame_hold_back [OF assms(1)] by (rule rev_subsetD)
    then have "h_lease_id h \<in> lease_id ` set (leases s)" by (rule refs_hold [OF assms(2)])
    then show "h_lease_id h \<in> lease_id ` set (leases s')" by (rule frame_hold_ref [OF assms(1) h])
  qed
  moreover have "member_identity ` set (leases s') \<subseteq> identity ` set (members s)"
  proof (rule image_subsetI)
    fix l' assume "l' \<in> set (leases s')"
    then obtain l where "l \<in> set (leases s)" "lease_key l = lease_key l'" using frame_lease_back [OF assms(1)] by blast
    then show "member_identity l' \<in> identity ` set (members s)"
      using refs_lease [OF assms(2)] by (metis lease_key_def prod.inject)
  qed
  moreover have "c_member ` set (catalog_holds s') \<subseteq> identity ` set (members s)"
    using refs_catalog [OF assms(2)] frame_catalog_back [OF assms(1)] by blast
  moreover have "enterprises s' = enterprises s" using assms(1) by (simp add: frame_def)
  moreover have "(\<lambda>m. (identity m, enterprise_id m)) ` set (members s') \<subseteq> account_keys s'"
  proof (rule image_subsetI)
    fix m' assume "m' \<in> set (members s')"
    then obtain m where m: "m \<in> set (members s)" "member_key m' = member_key m" using frame_member_back [OF assms(1)] by blast
    then have "(identity m, enterprise_id m) \<in> account_keys s'"
      using refs_account [OF assms(2) m(1)] assms(1) unfolding frame_def by blast
    then show "(identity m', enterprise_id m') \<in> account_keys s'" using m(2) by (simp add: member_key_def)
  qed
  ultimately show ?thesis using assms(2) frame_images [OF assms(1)] by (simp add: refs_inv_def)
qed

lemma member_count_map: "member_count ms x = int (length (filter (\<lambda>e. e = x) (map enterprise_id ms)))"
  by (simp add: member_count_def count_rows_def filter_map comp_def)

lemma frame_inventory_inv:
  assumes "frame s s'" and "inventory_inv s"
  shows "inventory_inv s'"
proof -
  have "\<forall>m' \<in> set (members s'). 0 \<le> ordinal m' \<and> ordinal m' < next_ordinal (settings s)"
  proof
    fix m' assume "m' \<in> set (members s')"
    then obtain m where "m \<in> set (members s)" "ordinal m' = ordinal m"
      using frame_images(3) [OF assms(1)] by (metis imageE image_eqI)
    then show "0 \<le> ordinal m' \<and> ordinal m' < next_ordinal (settings s)"
      using assms(2) by (simp add: inventory_inv_def)
  qed
  then show ?thesis using assms frame_maps(2) [OF assms(1)]
    by (simp add: inventory_inv_def frame_def member_count_map)
qed

lemma frame_generations_inv:
  assumes "frame s s'" and "generations_inv s"
  shows "generations_inv s'"
  unfolding generations_inv_def
proof (intro conjI ballI impI)
  fix h l' m' assume *: "h \<in> set (holds s')" "l' \<in> set (leases s')" "m' \<in> set (members s')"
    "lease_id l' = h_lease_id h" "identity m' = member_identity l'"
  obtain l where "l \<in> set (leases s)" "lease_key l = lease_key l'" using frame_lease_back [OF assms(1) *(2)] by blast
  moreover obtain m where "m \<in> set (members s)" "member_key m' = member_key m" "generation m \<le> generation m'"
    using frame_member_back [OF assms(1) *(3)] by blast
  moreover have "h \<in> set (holds s)" using frame_hold_back [OF assms(1)] *(1) by blast
  ultimately show "h_generation h \<le> generation m'" using assms(2) *(4,5)
    by (fastforce simp: generations_inv_def lease_key_def member_key_def)
next
  fix c m' assume *: "c \<in> set (catalog_holds s')" "m' \<in> set (members s')" "identity m' = c_member c"
  obtain m where "m \<in> set (members s)" "member_key m' = member_key m" "generation m \<le> generation m'"
    using frame_member_back [OF assms(1) *(2)] by blast
  then show "c_generation c \<le> generation m'" using assms(2) *(1,3) frame_catalog_back [OF assms(1)]
    by (fastforce simp: generations_inv_def member_key_def)
qed

lemma frame_inv: "frame s s' \<Longrightarrow> store_inv s \<Longrightarrow> store_inv s'"
  unfolding store_inv_def
  using frame_keys_inv frame_refs_inv frame_inventory_inv frame_generations_inv frame_bindings exclusive_subset
  by meson

end
