(* ===== verification/Pool_Narrowing.thy ===== *)
theory Pool_Narrowing
  imports Pool_Frame
begin

text \<open>
  The contract of every operation that is not an admission or a reservation: it narrows the store
  (\<open>frame\<close>). The locale \<open>narrowing\<close> derives what a client may rely on; the interpretations discharge the
  contract for the operations of \<open>Pool_Store\<close>, \<open>Pool_Lease\<close> and \<open>Pool_Members\<close>.
\<close>

section \<open>Revoked holds\<close>

text \<open>
  A hold is revoked when its row is gone or its member has moved on to a later generation. A revoked
  hold cannot renew, cool, quarantine or re-authorise anything.
\<close>

definition revoked :: "store \<Rightarrow> HeldLease \<Rightarrow> bool" where
  "revoked s held \<longleftrightarrow> (case heldRow s held of
     None \<Rightarrow> True
   | Some r \<Rightarrow> (case inventory_row s (r_member r) of None \<Rightarrow> True | Some m \<Rightarrow> r_generation r < generation m))"

lemma find_keyed_subset:
  assumes "distinct (map g xs)" and "set ys \<subseteq> set xs" and "List.find (\<lambda>x. g x = k \<and> Q x) ys = Some y"
  shows "List.find (\<lambda>x. g x = k \<and> Q x) xs = Some y"
proof -
  have y: "y \<in> set xs" "g y = k" "Q y" using assms(2,3) by (auto dest: find_Some_mem)
  then obtain z where z: "List.find (\<lambda>x. g x = k \<and> Q x) xs = Some z"
    by (cases "List.find (\<lambda>x. g x = k \<and> Q x) xs") (auto simp: find_None_mem)
  then have "z \<in> set xs" "g z = k" using find_Some_mem [OF z] by auto
  then have "z = y" using y assms(1) distinct_map_eqD [of g xs z y] by simp
  with z show ?thesis by simp
qed

lemma find_lease_frame:
  assumes "frame s s'" and "keys_inv s" and "List.find (\<lambda>l. lease_id l = k) (leases s') = Some l'"
  shows "\<exists>l. List.find (\<lambda>l. lease_id l = k) (leases s) = Some l \<and> lease_key l = lease_key l'"
proof -
  have l': "l' \<in> set (leases s')" "lease_id l' = k" using find_Some_mem [OF assms(3)] by auto
  then obtain l where l: "l \<in> set (leases s)" "lease_key l = lease_key l'" using frame_lease_back [OF assms(1)] by blast
  then have "List.find (\<lambda>l. lease_id l = k) (leases s) = Some l"
    using assms(2) l'(2) by (subst find_Some_iff_distinct) (auto simp: keys_inv_def lease_key_def)
  with l show ?thesis by blast
qed

lemma heldRow_frame:
  assumes "frame s s'" and "keys_inv s" and "heldRow s' held = Some r"
  shows "heldRow s held = Some r"
proof (cases "kind held = KindCatalog")
  case True
  then obtain c where c: "List.find (\<lambda>c. c_request_id c = request_id held \<and> c_lease_id c = lease_id held) (catalog_holds s') = Some c"
    using assms(3) by (auto simp: heldRow_def split: option.splits)
  have "List.find (\<lambda>c. c_request_id c = request_id held \<and> c_lease_id c = lease_id held) (catalog_holds s) = Some c"
    using assms(2) by (intro find_keyed_subset [OF _ frame_catalog_back [OF assms(1)] c]) (simp add: keys_inv_def)
  then show ?thesis using assms(3) c True by (simp add: heldRow_def)
next
  case False
  then obtain h where h: "List.find (\<lambda>h. h_request_id h = request_id held \<and> h_lease_id h = lease_id held) (holds s') = Some h"
    using assms(3) by (auto simp: heldRow_def split: option.splits)
  then obtain l' where l': "List.find (\<lambda>l. lease_id l = h_lease_id h) (leases s') = Some l'"
    using assms(3) False by (auto simp: heldRow_def split: option.splits)
  have "List.find (\<lambda>h. h_request_id h = request_id held \<and> h_lease_id h = lease_id held) (holds s) = Some h"
    using assms(2) by (intro find_keyed_subset [OF _ frame_hold_back [OF assms(1)] h]) (simp add: keys_inv_def)
  moreover obtain l where "List.find (\<lambda>l. lease_id l = h_lease_id h) (leases s) = Some l" "lease_key l = lease_key l'"
    using find_lease_frame [OF assms(1,2) l'] by blast
  ultimately show ?thesis using assms(3) h l' False by (simp add: heldRow_def lease_key_def)
qed

lemma inventory_row_Some:
  "keys_inv s \<Longrightarrow> inventory_row s i = Some m \<longleftrightarrow> m \<in> set (members s) \<and> identity m = i"
  unfolding inventory_row_def by (rule find_Some_iff_distinct) (simp add: keys_inv_def)

lemma inventory_row_None: "inventory_row s i = None \<longleftrightarrow> i \<notin> identity ` set (members s)"
  by (auto simp: inventory_row_def find_None_mem)

lemma revoked_frame:
  assumes "frame s s'" and "keys_inv s" and "revoked s held"
  shows "revoked s' held"
proof (cases "heldRow s' held")
  case (Some r)
  then have r: "heldRow s held = Some r" by (rule heldRow_frame [OF assms(1,2)])
  have "r_generation r < generation m'" if m': "inventory_row s' (r_member r) = Some m'" for m'
  proof -
    have "m' \<in> set (members s')" "identity m' = r_member r"
      using m' frame_keys_inv [OF assms(1,2)] by (auto simp: inventory_row_Some)
    moreover from this obtain m where "m \<in> set (members s)" "member_key m' = member_key m" "generation m \<le> generation m'"
      using frame_member_back [OF assms(1)] by blast
    moreover from calculation have "inventory_row s (r_member r) = Some m"
      using assms(2) by (simp add: inventory_row_Some member_key_def)
    ultimately show ?thesis using assms(3) r by (simp add: revoked_def)
  qed
  then show ?thesis using Some by (auto simp: revoked_def split: option.splits)
qed (simp add: revoked_def)

lemma revoked_not_current: "revoked s held \<Longrightarrow> currentHold now s held = None"
  by (auto simp: revoked_def currentHold_def split: option.splits)

section \<open>The contract\<close>

locale narrowing =
  fixes op :: "store \<Rightarrow> store"
  assumes narrows: "frame s (op s)"
begin

lemma keeps_inv: "store_inv s \<Longrightarrow> store_inv (op s)"
  by (rule frame_inv [OF narrows])

lemma no_new_binding: "bindings (op s) \<subseteq> bindings s"
  by (rule frame_bindings [OF narrows])

lemma keeps_revoked: "store_inv s \<Longrightarrow> revoked s held \<Longrightarrow> revoked (op s) held"
  using revoked_frame [OF narrows] by (simp add: store_inv_def)

end

section \<open>Its instances\<close>

lemma frame_reclaim_expired_holds: "frame s (reclaim_expired_holds now s)"
proof -
  let ?a = "s\<lparr>holds := filter (\<lambda>h. \<not> h_expires_at h \<le> now) (holds s)\<rparr>"
  let ?b = "?a\<lparr>catalog_holds := filter (\<lambda>c. \<not> c_expires_at c \<le> now) (catalog_holds ?a)\<rparr>"
  have a: "frame s ?a" and b: "frame ?a ?b" by (rule frame_other)+
  have c: "frame ?b (?b\<lparr>cooldowns := filter (\<lambda>k. \<not> k_expires_at k \<le> now) (cooldowns ?b)\<rparr>)" by (rule frame_other)
  show ?thesis using frame_trans [OF frame_trans [OF a b] c] by (simp add: reclaim_expired_holds_def)
qed

lemma frame_update_each: "frame s (update_each now patch ids s)"
  unfolding update_each_def by (rule frame_fold) (rule frame_update)

lemma frame_expire_lease: "frame s (expire_lease now l s)"
  by (auto simp: expire_lease_def intro: frame_trans [OF frame_delete_leases frame_event(1)])

lemma frame_reclaim: "frame s (reclaim now s)"
proof -
  have "frame t (reclaim_cooled now t)" for t
    unfolding reclaim_cooled_def by (rule frame_members) simp
  moreover have "frame t (reclaim_invalid now t)" "frame t (reclaim_unverified now t)" for t
    unfolding reclaim_invalid_def reclaim_unverified_def by (rule frame_update_each)+
  moreover have "frame t (reclaim_leases now t)" for t
    unfolding reclaim_leases_def by (rule frame_fold) (rule frame_expire_lease)
  ultimately show ?thesis unfolding reclaim_def using frame_reclaim_expired_holds by (meson frame_trans)
qed

interpretation reclaim: narrowing "reclaim now" for now
  by unfold_locales (rule frame_reclaim)

interpretation update: narrowing "\<lambda>s. snd (update now i patch fence ow s)" for now i patch fence ow
  by unfold_locales (rule frame_update)

interpretation pending: narrowing "\<lambda>s. snd (pending now cfg excluded s)" for now cfg excluded
  by unfold_locales (auto simp: pending_def Let_def split: option.split
      intro: frame_reclaim frame_trans [OF frame_reclaim frame_other(2)])

interpretation fail: narrowing "fail now i code fence ow terminal" for now i code fence ow terminal
  by unfold_locales (auto simp: fail_def Let_def split: option.split intro: frame_trans [OF frame_update frame_event(1)])

lemma frame_releaseInactive: "frame s (releaseInactive now i s)"
  by (simp add: releaseInactive_def frame_delete_leases)

interpretation disable: narrowing "\<lambda>s. snd (transaction (disable now uuid i) s)" for now uuid i
  by unfold_locales (auto simp: transaction_def disable_def split: option.split
      intro: frame_trans [OF frame_trans [OF frame_update frame_releaseInactive] frame_event(1)])

interpretation release: narrowing "\<lambda>s. snd (transaction (release now lid) s)" for now lid
  by unfold_locales (auto simp: transaction_def release_def split: option.split
      intro: frame_trans [OF frame_delete_leases frame_event(1)])

lemma frame_retry_members:
  "frame s (s\<lparr>members := update_where (\<lambda>m. identity m = i)
     (\<lambda>m. m\<lparr>state := st, attempts := n, retry_at := r, last_error := e, cooldown_until := k, verified_at := v,
        generation := generation m + 1, attempt_id := a, stage := sg, updated_at := u\<rparr>) (members s)\<rparr>)"
  by (rule frame_members) simp

interpretation retry: narrowing "\<lambda>s. snd (transaction (retry now uuid i) s)" for now uuid i
  by unfold_locales (auto simp: transaction_def retry_def Let_def split: option.split
      intro!: frame_trans [OF frame_trans [OF frame_releaseInactive frame_retry_members] frame_event(1)])

interpretation quarantine: narrowing "\<lambda>s. snd (quarantine now i code held s)" for now i code held
  by unfold_locales (auto simp: quarantine_def split: option.split intro: frame_trans [OF frame_update frame_event(1)])

interpretation cool: narrowing "\<lambda>s. snd (transaction (cool now i seconds held) s)" for now i seconds held
  by unfold_locales (auto simp: transaction_def cool_def Let_def split: option.split
      intro!: frame_trans [OF frame_trans [OF frame_update frame_other(1)] frame_event(1)])

lemma frame_finish_renew: "frame s (finish_renew now held success s)"
proof -
  have renew: "frame t (t\<lparr>leases := update_where P (\<lambda>l. l\<lparr>phase := p, last_success_at := u, expires_at := x\<rparr>) (leases t)\<rparr>)"
    for t P p u x by (rule frame_leases) (simp add: lease_key_def)
  note r = frame_trans [OF renew frame_event(1)]
  show ?thesis by (auto simp: finish_renew_def Let_def intro!: r renew)
qed

lemma frame_finish_remove: "frame t (finish_remove held t)"
  by (auto simp: finish_remove_def intro: frame_other)

lemma frame_finish: "frame s (finish now held success s)"
proof -
  have "frame s (reclaim now (finish_remove held (finish_renew now held success s)))"
    using frame_finish_renew frame_finish_remove frame_reclaim by (meson frame_trans)
  then show ?thesis by (simp add: finish_def split: option.split)
qed

interpretation finish: narrowing "finish now held success" for now held success
  by unfold_locales (rule frame_finish)

lemma frame_recoverUnauthorized: "frame s (snd (recoverUnauthorized now uuid held token s))"
proof -
  have acc: "frame t (update_accounts P (\<lambda>a. a\<lparr>a_token := x, a_status := st, a_attempt_id := w, a_oauth_updated_at := v,
      a_updated_at := u\<rparr>) t)" for t P x st w v u
    by (rule frame_update_accounts) simp
  have mem: "frame t (t\<lparr>members := update_where Q (\<lambda>m. m\<lparr>reauth_count := rc, reauth_window_at := rw\<rparr>) (members t)\<rparr>)" for t Q rc rw
    by (rule frame_members) simp
  note r = frame_trans [OF frame_trans [OF frame_trans [OF acc frame_update] mem] frame_event(1)]
  show ?thesis by (auto simp: recoverUnauthorized_def Let_def split: option.split intro!: r)
qed

interpretation recoverUnauthorized: narrowing "\<lambda>s. snd (recoverUnauthorized now uuid held token s)" for now uuid held token
  by unfold_locales (rule frame_recoverUnauthorized)

interpretation mutateWorkerCredential: narrowing "\<lambda>s. snd (mutateWorkerCredential now i fence ow mutation s)" for now i fence ow mutation
  by unfold_locales (auto simp: mutateWorkerCredential_def update_accounts_n_def
      split: option.split prod.split WorkerCredentialMutation.split intro!: frame_update_accounts)

interpretation claimLoginDispatch: narrowing "\<lambda>s. snd (transaction (claimLoginDispatch now i fence ow limit) s)" for now i fence ow limit
  using frame_update by unfold_locales
    (auto simp: transaction_def claimLoginDispatch_def split: option.split prod.split sum.split, metis snd_conv)

interpretation releaseLoginReservation: narrowing "\<lambda>s. snd (releaseLoginReservation now i fence ow outcome s)" for now i fence ow outcome
  by unfold_locales (auto simp: releaseLoginReservation_def split: option.split intro!: frame_members)

interpretation claimOwner: narrowing "\<lambda>s. snd (claimOwner now x s)" for now x
  by unfold_locales (simp add: claimOwner_def frame_settings)

interpretation renewOwner: narrowing "\<lambda>s. snd (renewOwner now x s)" for now x
  by unfold_locales (simp add: renewOwner_def frame_settings)

interpretation releaseOwner: narrowing "releaseOwner x" for x
  by unfold_locales (simp add: releaseOwner_def frame_settings)

interpretation counts: narrowing "\<lambda>s. snd (counts now x s)" for now x
  by unfold_locales (simp add: counts_def Let_def frame_reclaim)

interpretation updateSettings: narrowing "\<lambda>s. snd (transaction (updateSettings now ver patch) s)" for now ver patch
  by unfold_locales (auto simp: transaction_def updateSettings_def Let_def split: sum.split
      dest!: res_bind_Inr [THEN iffD1] intro!: frame_trans [OF frame_settings frame_event(1)])

end
