(* ===== verification/Pool_Admission.thy ===== *)
theory Pool_Admission
  imports Pool_Narrowing
begin

text \<open>
  Admission keeps the invariant: what \<open>availableMember\<close> may return, what \<open>insertLease\<close> and \<open>hold\<close> add,
  and what a caller of \<open>acquire\<close> and \<open>acquireCatalog\<close> obtains.
\<close>

section \<open>Compatible bindings\<close>

definition compatible :: "(string \<times> string) set \<Rightarrow> string \<Rightarrow> string \<Rightarrow> bool" where
  "compatible B c i \<longleftrightarrow> (\<forall>d j. (d, j) \<in> B \<longrightarrow> (d = c \<longleftrightarrow> j = i))"

lemma exclusive_compatible: "exclusive B \<Longrightarrow> (c, i) \<in> B \<Longrightarrow> compatible B c i"
  unfolding exclusive_def compatible_def by blast

lemma exclusive_insert: "exclusive B \<Longrightarrow> compatible B c i \<Longrightarrow> exclusive (insert (c, i) B)"
  unfolding exclusive_def compatible_def by blast

lemma lease_binding: "l \<in> set (leases s) \<Longrightarrow> (caller_id l, member_identity l) \<in> bindings s"
  and catalog_binding: "h \<in> set (catalog_holds s) \<Longrightarrow> (c_caller_id h, c_member h) \<in> bindings s"
  by (auto simp: bindings_def lease_bindings_def catalog_bindings_def)

lemma bindingE:
  assumes "(d, j) \<in> bindings s"
  obtains l where "l \<in> set (leases s)" "caller_id l = d" "member_identity l = j"
    | h where "h \<in> set (catalog_holds s)" "c_caller_id h = d" "c_member h = j"
  using assms by (auto simp: bindings_def lease_bindings_def catalog_bindings_def)

section \<open>The caller's lease\<close>

definition lease_of :: "Lease \<Rightarrow> LeaseRow \<Rightarrow> bool" where
  "lease_of L l \<longleftrightarrow> caller_id L = caller_id l \<and> member_identity L = member_identity l \<and> lease_id L = lease_id l \<and>
     phase L = phase l \<and> expires_at L = expires_at l"

lemma callerLease_None:
  assumes "refs_inv s"
  shows "callerLease s c = None \<longleftrightarrow> (\<forall>l \<in> set (leases s). caller_id l \<noteq> c)"
proof -
  have row: "inventory_row s (member_identity l) \<noteq> None" if "l \<in> set (leases s)" for l
    using refs_lease [OF assms that] by (simp add: inventory_row_None)
  show ?thesis
  proof (cases "List.find (\<lambda>l. caller_id l = c \<and> inventory_row s (member_identity l) \<noteq> None) (leases s)")
    case None
    then have n: "\<forall>l \<in> set (leases s). \<not> (caller_id l = c \<and> inventory_row s (member_identity l) \<noteq> None)"
      by (simp only: find_None_mem)
    moreover have "callerLease s c = None" unfolding callerLease_def None by simp
    ultimately show ?thesis using row by blast
  next
    case (Some l)
    then have l: "l \<in> set (leases s)" "caller_id l = c" "inventory_row s (member_identity l) \<noteq> None"
      using find_Some_mem [OF Some] by blast+
    have "callerLease s c \<noteq> None" unfolding callerLease_def Some using l(3) by simp
    then show ?thesis using l by blast
  qed
qed

lemma callerLease_Some:
  assumes "callerLease s c = Some L"
  shows "\<exists>l \<in> set (leases s). lease_of L l \<and> caller_id l = c \<and>
    (\<exists>m. inventory_row s (member_identity l) = Some m \<and> lease_enterprise L = enterprise_id m)"
proof -
  obtain l where l: "List.find (\<lambda>l. caller_id l = c \<and> inventory_row s (member_identity l) \<noteq> None) (leases s) = Some l"
    using assms by (auto simp: callerLease_def split: option.splits)
  have "l \<in> set (leases s)" "caller_id l = c" using find_Some_mem [OF l] by auto
  moreover obtain m where "inventory_row s (member_identity l) = Some m" using find_Some_mem [OF l] by auto
  ultimately show ?thesis using assms l by (intro bexI [of _ l]) (auto simp: callerLease_def lease_of_def)
qed

section \<open>The member an admission may use\<close>

lemma idleMember_Some:
  assumes "idleMember s x = Some i"
  shows "\<exists>m \<in> set (members s). identity m = i \<and> enterprise_id m = x \<and> leasable s m"
  using assms by (auto simp: idleMember_def dest!: first_by_Some(1))

lemma first_idle_Some:
  "first_idle s xs = Some (i, x) \<Longrightarrow> x \<in> set xs \<and> idleMember s x = Some i"
  by (induction xs) (auto split: option.splits)

lemma members_bounded:
  assumes "keys_inv s" and "inventory_inv s"
  shows "int (length (members s)) \<le> NAME_CAPACITY"
proof -
  have sub: "set (map ordinal (members s)) \<subseteq> {0..<NAME_CAPACITY}" using assms(2) by (fastforce simp: inventory_inv_def)
  have "distinct (map ordinal (members s))" using assms(1) by (simp add: keys_inv_def)
  then have "length (members s) = card (set (map ordinal (members s)))" using distinct_card by fastforce
  also have "\<dots> \<le> card {0..<NAME_CAPACITY}" by (rule card_mono [OF _ sub]) simp
  finally show ?thesis by (simp add: NAME_CAPACITY_def NAME_BASE_COUNT_def NAME_SUFFIX_COUNT_def)
qed

lemma member_count_bounded: "member_count ms x \<le> int (length ms)"
  by (simp add: member_count_def count_rows_def)

lemma enterprises_valid_rows:
  assumes "keys_inv s" and "inventory_inv s"
  shows "valid_rows (enterprises s)"
proof -
  have "inventory_count e \<le> MAX_SAFE_INTEGER" if "e \<in> set (enterprises s)" for e
    using that assms(2) members_bounded [OF assms] member_count_bounded [of "members s" "se_id e"] NAME_CAPACITY_safe
    by (auto simp: inventory_inv_def)
  then show ?thesis using assms(2)
    by (auto simp: inventory_inv_def enterprises_ok_def valid_rows_def enterprise_checks_def
        NAME_CAPACITY_def NAME_BASE_COUNT_def NAME_SUFFIX_COUNT_def)
qed

lemma valid_rows_sorted: "valid_rows rows \<Longrightarrow> valid_rows (sort_key se_id rows)"
  by (auto simp: valid_rows_def distinct_map)

lemma admissionOrder_active:
  assumes "store_inv s" and "admissionOrder sha256 (sort_key se_id (enterprises s)) c = Inr ids"
    and "x \<in> set ids"
  shows "enterpriseState s x = Some Active"
proof -
  have "valid_rows (sort_key se_id (enterprises s))" using assms(1)
    by (intro valid_rows_sorted enterprises_valid_rows) (simp_all add: store_inv_def)
  from admissionOrder_spec [OF this, of sha256 c] assms(2,3)
  obtain e where "e \<in> set (enterprises s)" "se_id e = x" "se_state e = Active" by (auto simp: isActive_def)
  moreover have "distinct (map se_id (enterprises s))" using assms(1)
    by (simp add: store_inv_def inventory_inv_def enterprises_ok_def)
  ultimately show ?thesis by (auto simp: enterpriseState_def enterprise_row_def find_Some_iff_distinct)
qed

lemma caller_catalog_mem:
  "(h, m, e) \<in> set (caller_catalog s c) \<longleftrightarrow> h \<in> set (catalog_holds s) \<and> c_caller_id h = c \<and>
     m \<in> set (members s) \<and> identity m = c_member h \<and> e \<in> set (enterprises s) \<and> se_id e = enterprise_id m"
  by (auto simp: caller_catalog_def)

lemma caller_catalog_Nil:
  assumes "refs_inv s" and "caller_catalog s c = []" and "h \<in> set (catalog_holds s)"
  shows "c_caller_id h \<noteq> c"
proof
  assume "c_caller_id h = c"
  moreover obtain m where "m \<in> set (members s)" "identity m = c_member h"
    using refs_catalog [OF assms(1,3)] by auto
  moreover from this obtain e where "e \<in> set (enterprises s)" "se_id e = enterprise_id m"
    using refs_enterprise [OF assms(1)] by (metis imageE)
  ultimately have "(h, m, e) \<in> set (caller_catalog s c)" using assms(3) by (simp add: caller_catalog_mem)
  then show False using assms(2) by simp
qed

text \<open>
  What \<open>availableMember\<close> promises a caller without a lease: a member of an active enterprise that no
  other caller uses and that has no lease; the caller is bound to no other member.
\<close>

definition free_member :: "store \<Rightarrow> string \<Rightarrow> string \<Rightarrow> string \<Rightarrow> bool" where
  "free_member s c i x \<longleftrightarrow> (\<exists>m \<in> set (members s). identity m = i \<and> enterprise_id m = x) \<and>
     enterpriseState s x = Some Active \<and> compatible (bindings s) c i \<and>
     (\<forall>l \<in> set (leases s). caller_id l \<noteq> c \<and> member_identity l \<noteq> i)"

lemma availableMember_catalog:
  assumes "store_inv s" and "callerLease s c = None" and "(h, m, e) \<in> set (caller_catalog s c)" and "se_state e = Active"
  shows "free_member s c (c_member h) (enterprise_id m)"
proof -
  have inv: "refs_inv s" "exclusive (bindings s)" "enterprises_ok (enterprises s)"
    using assms(1) by (simp_all add: store_inv_def inventory_inv_def)
  have h: "h \<in> set (catalog_holds s)" "c_caller_id h = c" "m \<in> set (members s)" "identity m = c_member h"
    "e \<in> set (enterprises s)" "se_id e = enterprise_id m"
    using assms(3) by (simp_all add: caller_catalog_mem)
  have comp: "compatible (bindings s) c (c_member h)"
    using exclusive_compatible [OF inv(2)] catalog_binding [OF h(1)] h(2) by simp
  have lease: "caller_id l \<noteq> c \<and> member_identity l \<noteq> c_member h" if "l \<in> set (leases s)" for l
    using callerLease_None [OF inv(1), of c] assms(2) comp lease_binding [OF that] that
    unfolding compatible_def by blast
  have "enterprise_row s (enterprise_id m) = Some e"
    using inv(3) h(5,6) by (simp add: enterprise_row_def enterprises_ok_def find_Some_iff_distinct)
  then show ?thesis using h assms(4) comp lease unfolding free_member_def
    by (intro conjI) (auto simp: enterpriseState_def)
qed

lemma availableMember_idle:
  assumes "store_inv s" and "callerLease s c = None" and "caller_catalog s c = []"
    and "m \<in> set (members s)" and "leasable s m" and "enterpriseState s (enterprise_id m) = Some Active"
  shows "free_member s c (identity m) (enterprise_id m)"
proof -
  have inv: "refs_inv s" using assms(1) by (simp add: store_inv_def)
  have no_lease: "caller_id l \<noteq> c \<and> member_identity l \<noteq> identity m" if "l \<in> set (leases s)" for l
    using callerLease_None [OF inv] assms(2,5) that by (auto simp: leasable_def exists_row_iff)
  have no_catalog: "c_caller_id h \<noteq> c \<and> c_member h \<noteq> identity m" if "h \<in> set (catalog_holds s)" for h
    using caller_catalog_Nil [OF inv assms(3) that] assms(5) that by (auto simp: leasable_def exists_row_iff)
  have "compatible (bindings s) c (identity m)" unfolding compatible_def
    using no_lease no_catalog by (metis bindingE)
  then show ?thesis using assms(4,6) no_lease by (auto simp: free_member_def)
qed

lemma availableMember_free:
  assumes "store_inv s" and "callerLease s c = None" and "availableMember cfg sha256 s c = Inr (i, x)"
  shows "free_member s c i x"
proof (cases "first_by (\<lambda>(h, m, e). c_assigned_at h) (caller_catalog s c)")
  case None
  then have nil: "caller_catalog s c = []" by simp
  obtain ids where ids: "admissionOrder sha256 (sort_key se_id (enterprises s)) c = Inr ids" "first_idle s ids = Some (i, x)"
    using assms(3) None by (auto simp: availableMember_def res_bind_Inr split: option.splits)
  then have "enterpriseState s x = Some Active" "idleMember s x = Some i"
    using admissionOrder_active [OF assms(1)] first_idle_Some by blast+
  then show ?thesis using availableMember_idle [OF assms(1,2) nil] by (auto dest!: idleMember_Some)
next
  case (Some t)
  obtain h m e where t: "t = (h, m, e)" by (cases t)
  then have "(h, m, e) \<in> set (caller_catalog s c)" using first_by_Some(1) [OF Some] by simp
  moreover have "se_state e = Active" "i = c_member h" "x = enterprise_id m"
    using assms(3) Some t by (auto simp: availableMember_def res_bind_Inr assertEnterpriseActive_def split: if_splits)
  ultimately show ?thesis using availableMember_catalog [OF assms(1,2)] by blast
qed

section \<open>Adding a lease\<close>

lemma store_inv_event [simp]: "store_inv s \<Longrightarrow> store_inv (event now a i c l d s)"
  by (rule frame_inv [OF frame_event(1)])

lemma event_fields [simp]:
  "members (event now a i c l d s) = members s" "accounts (event now a i c l d s) = accounts s"
  "leases (event now a i c l d s) = leases s" "holds (event now a i c l d s) = holds s"
  "catalog_holds (event now a i c l d s) = catalog_holds s" "cooldowns (event now a i c l d s) = cooldowns s"
  "enterprises (event now a i c l d s) = enterprises s" "settings (event now a i c l d s) = settings s"
  by (simp_all add: event_def recordEvent_def Let_def)

lemma bindings_add_lease:
  "bindings (s\<lparr>leases := leases s @ [row]\<rparr>) = insert (caller_id row, member_identity row) (bindings s)"
  by (auto simp: bindings_def lease_bindings_def catalog_bindings_def)

lemma inv_add_lease:
  assumes inv: "store_inv s" and comp: "compatible (bindings s) (caller_id row) (member_identity row)"
    and mem: "member_identity row \<in> identity ` set (members s)"
    and new: "\<forall>l \<in> set (leases s). caller_id l \<noteq> caller_id row \<and> member_identity l \<noteq> member_identity row \<and> lease_id l \<noteq> lease_id row"
  shows "store_inv (s\<lparr>leases := leases s @ [row]\<rparr>)"
proof -
  let ?s = "s\<lparr>leases := leases s @ [row]\<rparr>"
  have "keys_inv ?s" using inv new by (auto simp: store_inv_def keys_inv_def)
  moreover have "refs_inv ?s"
  proof -
    have r: "refs_inv s" using inv by (simp add: store_inv_def)
    then show ?thesis using mem by (simp add: refs_inv_def subset_insertI2)
  qed
  moreover have "exclusive (bindings ?s)" unfolding bindings_add_lease
    using inv by (intro exclusive_insert [OF _ comp]) (simp add: store_inv_def)
  moreover have "inventory_inv ?s" using inv by (simp add: store_inv_def inventory_inv_def)
  moreover have "generations_inv ?s"
  proof -
    have "lease_id row \<noteq> h_lease_id h" if "h \<in> set (holds s)" for h
      using refs_hold [of s h] that inv new by (auto simp: store_inv_def)
    then show ?thesis using inv by (simp add: store_inv_def generations_inv_def)
  qed
  ultimately show ?thesis by (simp add: store_inv_def)
qed

lemma insertLease_ok:
  assumes "store_inv s" and "free_member s c i x" and "lid \<notin> lease_id ` set (leases s)"
  shows "\<exists>L s'. insertLease now cfg lid c (i, x) s = Inr (L, s') \<and> store_inv s' \<and> members s' = members s \<and>
    accounts s' = accounts s \<and> holds s' = holds s \<and> catalog_holds s' = catalog_holds s \<and>
    (\<exists>l. leases s' = leases s @ [l] \<and> lease_of L l) \<and>
    caller_id L = c \<and> member_identity L = i \<and> lease_id L = lid \<and> lease_enterprise L = x \<and> phase L = PhaseProvisional"
proof -
  let ?row = "\<lparr>caller_id = c, member_identity = i, lease_id = lid, phase = PhaseProvisional, assigned_at = now,
    last_success_at = None, expires_at = now + provisionalSeconds cfg * 1000\<rparr>"
  have free: "compatible (bindings s) c i" "\<forall>l \<in> set (leases s). caller_id l \<noteq> c \<and> member_identity l \<noteq> i"
    "i \<in> identity ` set (members s)" using assms(2) by (auto simp: free_member_def)
  then have "store_inv (s\<lparr>leases := leases s @ [?row]\<rparr>)"
    using assms(3) by (intro inv_add_lease [OF assms(1)]) auto
  moreover have "\<not> exists_row (\<lambda>l. caller_id l = c \<or> member_identity l = i \<or> lease_id l = lid) (leases s)"
    using free(2) assms(3) by (auto simp: exists_row_iff)
  moreover have "inventory_row s i \<noteq> None" using free(3) by (simp add: inventory_row_None)
  ultimately show ?thesis
    by (simp add: insertLease_def lease_of_def)
qed

section \<open>Adding a hold\<close>

lemma bindings_add_catalog:
  "bindings (s\<lparr>catalog_holds := catalog_holds s @ [r]\<rparr>) = insert (c_caller_id r, c_member r) (bindings s)"
  by (auto simp: bindings_def lease_bindings_def catalog_bindings_def)

lemma bindings_add_hold: "bindings (s\<lparr>holds := hs\<rparr>) = bindings s"
  by (simp add: bindings_def lease_bindings_def catalog_bindings_def)

lemma inv_add_catalog:
  assumes inv: "store_inv s" and comp: "compatible (bindings s) (c_caller_id r) (c_member r)"
    and mem: "inventory_row s (c_member r) = Some m" "c_generation r = generation m"
    and new: "\<not> exists_row (\<lambda>c. c_request_id c = c_request_id r \<or> c_lease_id c = c_lease_id r) (catalog_holds s)"
  shows "store_inv (s\<lparr>catalog_holds := catalog_holds s @ [r]\<rparr>)"
proof -
  let ?s = "s\<lparr>catalog_holds := catalog_holds s @ [r]\<rparr>"
  have i: "keys_inv s" "refs_inv s" "generations_inv s" using inv by (simp_all add: store_inv_def)
  have m: "m \<in> set (members s)" "identity m = c_member r" using mem(1) i(1) by (simp_all add: inventory_row_Some)
  have same: "n = m" if "n \<in> set (members s)" "identity n = c_member r" for n
    using that m i(1) by (auto simp: keys_inv_def dest: distinct_map_eqD)
  have "keys_inv ?s" using i(1) new by (auto simp: keys_inv_def exists_row_iff)
  moreover have "refs_inv ?s" using i(2) m by (simp add: refs_inv_def) (metis imageI)
  moreover have "exclusive (bindings ?s)" unfolding bindings_add_catalog
    using inv by (intro exclusive_insert [OF _ comp]) (simp add: store_inv_def)
  moreover have "inventory_inv ?s" using inv by (simp add: store_inv_def inventory_inv_def)
  moreover have "generations_inv ?s" using i(3) same mem(2) by (auto simp: generations_inv_def)
  ultimately show ?thesis by (simp add: store_inv_def)
qed

lemma inv_add_hold:
  assumes inv: "store_inv s" and l: "l \<in> set (leases s)" "lease_id l = h_lease_id r"
    and mem: "inventory_row s (member_identity l) = Some m" "h_generation r = generation m"
    and new: "\<not> exists_row (\<lambda>h. h_request_id h = h_request_id r) (holds s)"
  shows "store_inv (s\<lparr>holds := holds s @ [r]\<rparr>)"
proof -
  let ?s = "s\<lparr>holds := holds s @ [r]\<rparr>"
  have i: "keys_inv s" "refs_inv s" "generations_inv s" using inv by (simp_all add: store_inv_def)
  have m: "m \<in> set (members s)" "identity m = member_identity l" using mem(1) i(1) by (simp_all add: inventory_row_Some)
  have lease: "k = l" if "k \<in> set (leases s)" "lease_id k = h_lease_id r" for k
    using that l i(1) by (auto simp: keys_inv_def dest: distinct_map_eqD)
  have same: "n = m" if "n \<in> set (members s)" "identity n = member_identity l" for n
    using that m i(1) by (auto simp: keys_inv_def dest: distinct_map_eqD)
  have "keys_inv ?s" using i(1) new by (auto simp: keys_inv_def exists_row_iff)
  moreover have "refs_inv ?s" using i(2) l by (simp add: refs_inv_def) (metis imageI)
  moreover have "exclusive (bindings ?s)" using inv by (simp add: bindings_add_hold store_inv_def)
  moreover have "inventory_inv ?s" using inv by (simp add: store_inv_def inventory_inv_def)
  moreover have "generations_inv ?s" using i(3) lease same mem(2) by (auto simp: generations_inv_def)
  ultimately show ?thesis by (simp add: store_inv_def)
qed

lemma inventory_row_ex: "i \<in> identity ` set (members s) \<Longrightarrow> \<exists>m. inventory_row s i = Some m"
  using inventory_row_None [of s i] by (cases "inventory_row s i") auto

text \<open>The row that a new hold leaves behind: it carries the member's generation and the deadline.\<close>

definition fresh_hold_row :: "int \<Rightarrow> int \<Rightarrow> store \<Rightarrow> HeldLease \<Rightarrow> HeldRow option" where
  "fresh_hold_row now tmo s H = map_option (\<lambda>m. \<lparr>r_member = member_identity H, r_caller = caller_id H,
     r_generation = generation m, r_deadline_at = now + tmo, r_expires_at = now + tmo + HOLD_DRAIN_MS\<rparr>)
     (inventory_row s (member_identity H))"

lemma hold_lease_ok:
  assumes "store_inv s" and "l \<in> set (leases s)" and "lease_of L l" and "rid \<notin> h_request_id ` set (holds s)"
  shows "\<exists>H s'. hold now rid L KindLease tmo s = Inr (H, s') \<and> store_inv s' \<and> members s' = members s \<and>
    accounts s' = accounts s \<and> leases s' = leases s \<and> catalog_holds s' = catalog_holds s \<and> enterprises s' = enterprises s \<and>
    caller_id H = caller_id L \<and> member_identity H = member_identity L \<and> lease_id H = lease_id L \<and>
    lease_enterprise H = lease_enterprise L \<and> request_id H = rid \<and> kind H = KindLease \<and> deadline_at H = now + tmo \<and>
    heldRow s' H = fresh_hold_row now tmo s H"
proof -
  have i: "keys_inv s" "refs_inv s" using assms(1) by (simp_all add: store_inv_def)
  obtain m where m: "inventory_row s (member_identity l) = Some m"
    using inventory_row_ex [OF refs_lease [OF i(2) assms(2)]] by blast
  let ?r = "\<lparr>h_request_id = rid, h_lease_id = lease_id L, h_expires_at = now + tmo + HOLD_DRAIN_MS,
    h_deadline_at = now + tmo, h_generation = generation m\<rparr>"
  have new: "\<not> exists_row (\<lambda>h. h_request_id h = rid) (holds s)" using assms(4) by (auto simp: exists_row_iff)
  have ex: "exists_row (\<lambda>k. lease_id k = lease_id L) (leases s)"
    using assms(2,3) by (auto simp: exists_row_iff lease_of_def)
  have "store_inv (s\<lparr>holds := holds s @ [?r]\<rparr>)"
    using assms(3) new by (intro inv_add_hold [OF assms(1,2) _ m]) (simp_all add: lease_of_def)
  moreover have "\<not> exists_row (\<lambda>h. h_request_id h = rid \<and> h_lease_id h = lease_id L) (holds s)"
    using new by (auto simp: exists_row_iff)
  moreover have "List.find (\<lambda>k. lease_id k = lease_id L) (leases s) = Some l"
    using i(1) assms(2,3) by (simp add: keys_inv_def find_Some_iff_distinct lease_of_def)
  ultimately show ?thesis using m new ex assms(3)
    by (simp add: hold_def Let_def lease_of_def heldRow_def find_append_new fresh_hold_row_def)
qed

lemma hold_catalog_ok:
  assumes "store_inv s" and "compatible (bindings s) (caller_id L) (member_identity L)"
    and "member_identity L \<in> identity ` set (members s)"
    and "rid \<notin> c_request_id ` set (catalog_holds s)" and "lease_id L \<notin> c_lease_id ` set (catalog_holds s)"
  shows "\<exists>H s'. hold now rid L KindCatalog tmo s = Inr (H, s') \<and> store_inv s' \<and> members s' = members s \<and>
    accounts s' = accounts s \<and> leases s' = leases s \<and> holds s' = holds s \<and> enterprises s' = enterprises s \<and>
    caller_id H = caller_id L \<and> member_identity H = member_identity L \<and> lease_id H = lease_id L \<and>
    lease_enterprise H = lease_enterprise L \<and> request_id H = rid \<and> kind H = KindCatalog \<and> deadline_at H = now + tmo \<and>
    heldRow s' H = fresh_hold_row now tmo s H"
proof -
  obtain m where m: "inventory_row s (member_identity L) = Some m"
    using inventory_row_ex [OF assms(3)] by blast
  let ?r = "\<lparr>c_request_id = rid, c_lease_id = lease_id L, c_caller_id = caller_id L, c_member = member_identity L,
    c_assigned_at = assigned_at L, c_expires_at = now + tmo + HOLD_DRAIN_MS, c_deadline_at = now + tmo,
    c_generation = generation m\<rparr>"
  have new: "\<not> exists_row (\<lambda>c. c_request_id c = rid \<or> c_lease_id c = lease_id L) (catalog_holds s)"
    using assms(4,5) by (auto simp: exists_row_iff image_iff)
  have "store_inv (s\<lparr>catalog_holds := catalog_holds s @ [?r]\<rparr>)"
    using new assms(2) m by (intro inv_add_catalog [OF assms(1)]) simp_all
  moreover have "\<not> exists_row (\<lambda>c. c_request_id c = rid \<and> c_lease_id c = lease_id L) (catalog_holds s)"
    using new by (auto simp: exists_row_iff)
  ultimately show ?thesis using m new by (simp add: hold_def Let_def heldRow_def find_append_new fresh_hold_row_def)
qed

section \<open>Admissions\<close>

fun user_error :: "pool_error \<Rightarrow> bool" where
  "user_error (UserPoolError st code ra) = True"
| "user_error _ = False"

lemma assertReady_user_error: "assertReady now s i = Inl e \<Longrightarrow> user_error e"
  by (auto simp: assertReady_def split: option.splits if_splits)

lemma assertCallerNotCooling_user_error: "assertCallerNotCooling now s c = Inl e \<Longrightarrow> user_error e"
  by (auto simp: assertCallerNotCooling_def split: option.splits)

lemma assertEnterpriseActive_user_error: "assertEnterpriseActive st = Inl e \<Longrightarrow> user_error e"
  by (auto simp: assertEnterpriseActive_def split: if_splits)

lemma res_bind_Inl_cases: "res_bind r f = Inl e \<longleftrightarrow> r = Inl e \<or> (\<exists>x. r = Inr x \<and> f x = Inl e)"
  by (cases r) auto

lemma availableMember_user_error:
  assumes "store_inv s" and "availableMember cfg sha256 s c = Inl e"
  shows "user_error e"
proof -
  have "valid_rows (sort_key se_id (enterprises s))" using assms(1)
    by (intro valid_rows_sorted enterprises_valid_rows) (simp_all add: store_inv_def)
  from admissionOrder_spec [OF this, of sha256 c] assms(2) show ?thesis
    by (auto simp: availableMember_def res_bind_Inl_cases assertEnterpriseActive_user_error split: option.splits)
qed

lemma assertReady_serves:
  assumes "assertReady now s i = Inr ()"
  shows "\<exists>m. inventory_row s i = Some m \<and> state m = Ready \<and> verified_at m \<noteq> None \<and> has_valid_credential s i"
  using assms by (auto simp: assertReady_def split: option.splits if_splits)

text \<open>
  What a successful admission from \<open>s\<close> to \<open>s'\<close> gives the caller \<open>c\<close>: one binding, kept if it had one;
  a member that can serve; a fresh hold; and a new binding only in an active enterprise.
\<close>

definition admitted :: "int \<Rightarrow> int \<Rightarrow> store \<Rightarrow> store \<Rightarrow> string \<Rightarrow> HeldLease \<Rightarrow> bool" where
  "admitted now tmo s s' c H \<longleftrightarrow> caller_id H = c \<and> deadline_at H = now + tmo \<and>
     bindings s' = insert (c, member_identity H) (bindings s) \<and>
     assertReady now s (member_identity H) = Inr () \<and> heldRow s' H = fresh_hold_row now tmo s H \<and>
     (case callerLease s c of Some L \<Rightarrow> member_identity H = member_identity L
      | None \<Rightarrow> enterpriseState s (lease_enterprise H) = Some Active) \<and>
     members s' = members s \<and> accounts s' = accounts s"

lemma fresh_hold_row_cong: "members s' = members s \<Longrightarrow> fresh_hold_row now tmo s' H = fresh_hold_row now tmo s H"
  by (simp add: fresh_hold_row_def inventory_row_def)

lemma assertReady_cong:
  "members s' = members s \<Longrightarrow> accounts s' = accounts s \<Longrightarrow> assertReady now s' i = assertReady now s i"
  by (simp add: assertReady_def inventory_row_def has_valid_credential_def)

text \<open>A hold that was just granted is current until its deadline.\<close>

lemma admitted_current:
  assumes "admitted now tmo s s' c H" and "t < now + tmo"
  shows "currentHold t s' H \<noteq> None"
proof -
  obtain m where m: "inventory_row s (member_identity H) = Some m" "state m = Ready"
    and cred: "has_valid_credential s (member_identity H)"
    using assms(1) assertReady_serves unfolding admitted_def by blast
  have same: "inventory_row s' i = inventory_row s i" "has_valid_credential s' i = has_valid_credential s i" for i
    using assms(1) by (simp_all add: admitted_def inventory_row_def has_valid_credential_def)
  have "heldRow s' H = fresh_hold_row now tmo s H" using assms(1) by (simp add: admitted_def)
  then show ?thesis using m cred assms(2)
    by (simp add: currentHold_def fresh_hold_row_def same HOLD_DRAIN_MS_def)
qed

lemma lease_kept:
  assumes "store_inv s" and "callerLease s c = Some L"
  shows "\<exists>l \<in> set (leases s). lease_of L l \<and> caller_id L = c \<and> (c, member_identity L) \<in> bindings s"
proof -
  obtain l where "l \<in> set (leases s)" "lease_of L l" "caller_id l = c" using callerLease_Some [OF assms(2)] by blast
  then show ?thesis using lease_binding [of l s] by (auto simp: lease_of_def)
qed

lemma bindings_fields:
  "leases s' = leases s \<Longrightarrow> catalog_holds s' = catalog_holds s \<Longrightarrow> bindings s' = bindings s"
  by (simp add: bindings_def lease_bindings_def catalog_bindings_def)

lemma acquire_existing:
  assumes "store_inv s" and "callerLease s c = Some L" and "assertReady now s (member_identity L) = Inr ()"
    and "rid \<notin> h_request_id ` set (holds s)"
  shows "\<exists>H s'. hold now rid L KindLease tmo s = Inr (H, s') \<and> store_inv s' \<and> admitted now tmo s s' c H"
proof -
  obtain l where l: "l \<in> set (leases s)" "lease_of L l" "caller_id L = c" "(c, member_identity L) \<in> bindings s"
    using lease_kept [OF assms(1,2)] by blast
  from hold_lease_ok [OF assms(1) l(1,2) assms(4), of now tmo]
  obtain H s' where H: "hold now rid L KindLease tmo s = Inr (H, s')" "store_inv s'" "members s' = members s"
    "accounts s' = accounts s" "leases s' = leases s" "catalog_holds s' = catalog_holds s"
    "caller_id H = caller_id L" "member_identity H = member_identity L" "deadline_at H = now + tmo"
    "heldRow s' H = fresh_hold_row now tmo s H" by blast
  then show ?thesis using assms(2,3) l(3,4) bindings_fields [of s' s]
    by (auto simp: admitted_def insert_absorb)
qed

lemma acquire_new:
  assumes "store_inv s" and "callerLease s c = None" and "free_member s c i x" and "assertReady now s i = Inr ()"
    and "lid \<notin> lease_id ` set (leases s)" and "rid \<notin> h_request_id ` set (holds s)"
  shows "\<exists>L s1 H s'. insertLease now cfg lid c (i, x) s = Inr (L, s1) \<and> hold now rid L KindLease tmo s1 = Inr (H, s') \<and>
    store_inv s' \<and> admitted now tmo s s' c H"
proof -
  from insertLease_ok [OF assms(1,3,5), of now cfg] obtain L s1 l where s1: "insertLease now cfg lid c (i, x) s = Inr (L, s1)"
    "store_inv s1" "members s1 = members s" "accounts s1 = accounts s" "holds s1 = holds s"
    "catalog_holds s1 = catalog_holds s" "leases s1 = leases s @ [l]" "lease_of L l"
    "caller_id L = c" "member_identity L = i" "lease_enterprise L = x" by blast
  have b1: "bindings s1 = insert (c, i) (bindings s)"
    using s1 by (auto simp: bindings_def lease_bindings_def catalog_bindings_def lease_of_def)
  have "rid \<notin> h_request_id ` set (holds s1)" "l \<in> set (leases s1)" using assms(6) s1 by simp_all
  from hold_lease_ok [OF s1(2) this(2) s1(8) this(1), of now tmo] obtain H s' where
    H: "hold now rid L KindLease tmo s1 = Inr (H, s')" "store_inv s'" "members s' = members s1"
    "accounts s' = accounts s1" "leases s' = leases s1" "catalog_holds s' = catalog_holds s1"
    "caller_id H = caller_id L" "member_identity H = member_identity L" "lease_enterprise H = lease_enterprise L"
    "deadline_at H = now + tmo" "heldRow s' H = fresh_hold_row now tmo s1 H" by blast
  have "enterpriseState s x = Some Active" using assms(3) by (simp add: free_member_def)
  then have "admitted now tmo s s' c H" using H s1 b1 assms(2,4) bindings_fields [of s' s1] fresh_hold_row_cong [OF s1(3)]
    by (simp add: admitted_def)
  then show ?thesis using s1(1) H(1,2) by blast
qed

lemma acquire_body_spec:
  assumes "store_inv s" and "lid \<notin> lease_id ` set (leases s)" and "rid \<notin> h_request_id ` set (holds s)"
  shows "case acquire_body now cfg sha256 lid rid c tmo s of
      Inl e \<Rightarrow> user_error e | Inr (H, s') \<Rightarrow> store_inv s' \<and> admitted now tmo s s' c H"
proof (cases "assertCallerNotCooling now s c")
  case (Inl e)
  then show ?thesis by (simp add: acquire_body_def assertCallerNotCooling_user_error)
next
  case (Inr u)
  note warm = Inr
  show ?thesis
  proof (cases "callerLease s c")
    case (Some L)
    then show ?thesis using acquire_existing [OF assms(1) Some _ assms(3), of now tmo] warm
      by (cases "assertReady now s (member_identity L)") (auto simp: acquire_body_def assertReady_user_error)
  next
    case None
    show ?thesis
    proof (cases "availableMember cfg sha256 s c")
      case (Inl e)
      then show ?thesis using None warm availableMember_user_error [OF assms(1) Inl] by (simp add: acquire_body_def)
    next
      case (Inr mem)
      obtain i x where mem: "mem = (i, x)" by (cases mem)
      have free: "free_member s c i x" using availableMember_free [OF assms(1) None] Inr mem by blast
      show ?thesis using None Inr warm mem acquire_new [OF assms(1) None free _ assms(2,3), of now cfg tmo]
        by (cases "assertReady now s i") (auto simp: acquire_body_def assertReady_user_error)
    qed
  qed
qed

lemma hold_catalog_admitted:
  assumes "store_inv s" and "compatible (bindings s) c i" and "i \<in> identity ` set (members s)"
    and "assertReady now s i = Inr ()"
    and "case callerLease s c of Some L \<Rightarrow> i = member_identity L | None \<Rightarrow> enterpriseState s x = Some Active"
    and "rid \<notin> c_request_id ` set (catalog_holds s)" and "lid \<notin> c_lease_id ` set (catalog_holds s)"
    and "L = \<lparr>caller_id = c, member_identity = i, lease_id = lid, phase = PhaseProvisional, assigned_at = now,
      last_success_at = None, expires_at = now + tmo, lease_enterprise = x\<rparr>"
  shows "\<exists>H s'. hold now rid L KindCatalog tmo s = Inr (H, s') \<and> store_inv s' \<and> admitted now tmo s s' c H"
proof -
  have "compatible (bindings s) (caller_id L) (member_identity L)" "member_identity L \<in> identity ` set (members s)"
    "lease_id L \<notin> c_lease_id ` set (catalog_holds s)" using assms by simp_all
  from hold_catalog_ok [OF assms(1) this(1,2) assms(6) this(3), of now tmo]
  obtain H s' where H: "hold now rid L KindCatalog tmo s = Inr (H, s')" "store_inv s'" "members s' = members s"
    "accounts s' = accounts s" "caller_id H = c" "member_identity H = i" "lease_enterprise H = x"
    "deadline_at H = now + tmo" "heldRow s' H = fresh_hold_row now tmo s H"
    using assms(8) by auto
  have "bindings s' = insert (c, i) (bindings s)" using H(1) assms(8)
    by (auto simp: hold_def Let_def bindings_def lease_bindings_def catalog_bindings_def split: option.splits if_splits)
  then show ?thesis using H assms(4,5) by (auto simp: admitted_def split: option.split)
qed

lemma acquireCatalog_body_spec:
  assumes "store_inv s" and "lid \<notin> c_lease_id ` set (catalog_holds s)" and "rid \<notin> c_request_id ` set (catalog_holds s)"
  shows "case acquireCatalog_body now cfg sha256 lid rid c s of
      Inl e \<Rightarrow> user_error e | Inr (H, s') \<Rightarrow> store_inv s' \<and> admitted now (requestTimeoutMs cfg) s s' c H"
proof (cases "assertCallerNotCooling now s c")
  case (Inl e)
  then show ?thesis by (simp add: acquireCatalog_body_def assertCallerNotCooling_user_error)
next
  case (Inr u)
  note warm = Inr
  note held = hold_catalog_admitted [OF assms(1) _ _ _ _ assms(3,2) refl, of c _ now _ "requestTimeoutMs cfg"]
  show ?thesis
  proof (cases "callerLease s c")
    case (Some L)
    obtain l where l: "l \<in> set (leases s)" "lease_of L l" "caller_id L = c" "(c, member_identity L) \<in> bindings s"
      using lease_kept [OF assms(1) Some] by blast
    have comp: "compatible (bindings s) c (member_identity L)"
      using exclusive_compatible l(4) assms(1) by (simp add: store_inv_def)
    have mem: "member_identity L \<in> identity ` set (members s)"
      using refs_lease [OF _ l(1)] assms(1) l(2) by (simp add: store_inv_def lease_of_def)
    show ?thesis using held [OF comp mem, of "lease_enterprise L"] Some warm
      by (cases "assertEnterpriseActive (enterpriseState s (lease_enterprise L))"; cases "assertReady now s (member_identity L)")
        (auto simp: acquireCatalog_body_def assertReady_user_error assertEnterpriseActive_user_error)
  next
    case None
    show ?thesis
    proof (cases "availableMember cfg sha256 s c")
      case (Inl e)
      then show ?thesis using None warm availableMember_user_error [OF assms(1) Inl] by (simp add: acquireCatalog_body_def)
    next
      case (Inr mem)
      obtain i x where mem: "mem = (i, x)" by (cases mem)
      have free: "compatible (bindings s) c i" "i \<in> identity ` set (members s)" "enterpriseState s x = Some Active"
        using availableMember_free [OF assms(1) None, of cfg sha256 i x] Inr mem by (auto simp: free_member_def)
      show ?thesis using None Inr warm mem held [OF free(1,2), of x] free(3)
        by (cases "assertReady now s i") (auto simp: acquireCatalog_body_def assertReady_user_error)
    qed
  qed
qed

lemma admit_cases:
  assumes "case acq (reclaim now s) of Inl e \<Rightarrow> user_error e | Inr (H, s') \<Rightarrow> Q H s'"
  shows "case admit now acq s of (Inl e, s') \<Rightarrow> user_error e \<and> s' = reclaim now s | (Inr H, s') \<Rightarrow> Q H s'"
  using assms by (cases "acq (reclaim now s)"; simp add: admit_def; cases "projl (acq (reclaim now s))"; auto)

lemma lease_ids_reclaim: "lease_id ` set (leases (reclaim now s)) \<subseteq> lease_id ` set (leases s)"
proof (rule image_subsetI)
  fix l assume "l \<in> set (leases (reclaim now s))"
  then obtain k where "k \<in> set (leases s)" "lease_key k = lease_key l" using frame_lease_back [OF frame_reclaim] by blast
  then show "lease_id l \<in> lease_id ` set (leases s)" by (metis imageI lease_key_def prod.inject)
qed

lemma hold_ids_reclaim: "f ` set (holds (reclaim now s)) \<subseteq> f ` set (holds s)"
  by (rule image_mono [OF frame_hold_back [OF frame_reclaim]])

lemma catalog_ids_reclaim: "f ` set (catalog_holds (reclaim now s)) \<subseteq> f ` set (catalog_holds s)"
  by (rule image_mono [OF frame_catalog_back [OF frame_reclaim]])

lemmas fresh_reclaim = contra_subsetD [OF lease_ids_reclaim] contra_subsetD [OF hold_ids_reclaim]
  contra_subsetD [OF catalog_ids_reclaim]

lemma enterpriseState_reclaim [simp]: "enterpriseState (reclaim now s) x = enterpriseState s x"
  using frame_reclaim [of s now] by (simp add: enterpriseState_def enterprise_row_def frame_def)

text \<open>The guarantee of a successful admission, over the store it leaves.\<close>

definition sole_user :: "store \<Rightarrow> string \<Rightarrow> string \<Rightarrow> bool" where
  "sole_user s c i \<longleftrightarrow> (c, i) \<in> bindings s \<and> (\<forall>d j. (d, j) \<in> bindings s \<longrightarrow> (d = c \<longleftrightarrow> j = i))"

lemma admitted_sole_user: "store_inv s' \<Longrightarrow> admitted now tmo s s' c H \<Longrightarrow> sole_user s' c (member_identity H)"
  using exclusive_compatible [of "bindings s'" c "member_identity H"]
  by (simp add: sole_user_def compatible_def store_inv_def admitted_def)

definition granted :: "int \<Rightarrow> string \<Rightarrow> store \<Rightarrow> store \<Rightarrow> HeldLease \<Rightarrow> bool" where
  "granted now c s s' H \<longleftrightarrow> caller_id H = c \<and> sole_user s' c (member_identity H) \<and>
     (\<forall>t < deadline_at H. heartbeat t s' H) \<and>
     (case callerLease (reclaim now s) c of Some L \<Rightarrow> member_identity H = member_identity L
      | None \<Rightarrow> enterpriseState s (lease_enterprise H) = Some Active)"

lemma admitted_granted:
  "store_inv s' \<Longrightarrow> admitted now tmo (reclaim now s) s' c H \<Longrightarrow> granted now c s s' H"
  using admitted_current [of now tmo "reclaim now s" s' c H] admitted_sole_user [of s' now tmo "reclaim now s" c H]
  by (auto simp: granted_def heartbeat_def admitted_def split: option.splits)

section \<open>The contract of an admission\<close>

text \<open>
  An admission either fails without a constraint violation, leaving the tables as they were or
  reclaimed, or grants a hold and keeps the invariant.
\<close>

definition admission_result :: "int \<Rightarrow> string \<Rightarrow> store \<Rightarrow> HeldLease res \<times> store \<Rightarrow> bool" where
  "admission_result now c s r = (case r of
      (Inl e, s') \<Rightarrow> (s' = s \<or> s' = reclaim now s) \<and> (\<forall>t. e \<noteq> SqlConstraint t)
    | (Inr H, s') \<Rightarrow> store_inv s' \<and> granted now c s s' H)"

lemma admission_result_Inl: "(\<forall>t. e \<noteq> SqlConstraint t) \<Longrightarrow> admission_result now c s (Inl e, s)"
  by (simp add: admission_result_def)

lemma admit_result:
  assumes "case acq (reclaim now s) of Inl e \<Rightarrow> user_error e
    | Inr (H, s') \<Rightarrow> store_inv s' \<and> admitted now tmo (reclaim now s) s' c H"
  shows "admission_result now c s (admit now acq s)"
proof -
  from admit_cases [where Q = "\<lambda>H s'. store_inv s' \<and> admitted now tmo (reclaim now s) s' c H" and acq = acq
      and now = now and s = s, OF assms]
  show ?thesis
    by (cases "admit now acq s"; cases "fst (admit now acq s)"; (simp add: admission_result_def admitted_granted)?)
      (auto elim!: user_error.elims intro: admitted_granted)
qed

locale admission =
  fixes op :: "store \<Rightarrow> HeldLease res \<times> store" and now :: int and c :: string and fresh :: "store \<Rightarrow> bool"
  assumes result: "store_inv s \<Longrightarrow> fresh s \<Longrightarrow> admission_result now c s (op s)"
begin

lemma keeps_inv: "store_inv s \<Longrightarrow> fresh s \<Longrightarrow> store_inv (snd (op s))"
  using result [of s] reclaim.keeps_inv [of s now] by (auto simp: admission_result_def split: prod.splits sum.splits)

lemma grants: "store_inv s \<Longrightarrow> fresh s \<Longrightarrow> op s = (Inr H, s') \<Longrightarrow> store_inv s' \<and> granted now c s s' H"
  using result [of s] by (simp add: admission_result_def)

lemma refuses:
  "store_inv s \<Longrightarrow> fresh s \<Longrightarrow> op s = (Inl e, s') \<Longrightarrow> store_inv s' \<and> bindings s' \<subseteq> bindings s \<and> (\<forall>t. e \<noteq> SqlConstraint t)"
  using result [of s] reclaim.keeps_inv [of s now] reclaim.no_new_binding [of now s] by (auto simp: admission_result_def)

end

definition fresh_lease :: "string \<Rightarrow> string \<Rightarrow> store \<Rightarrow> bool" where
  "fresh_lease lid rid s \<longleftrightarrow> lid \<notin> lease_id ` set (leases s) \<and> rid \<notin> h_request_id ` set (holds s)"

definition fresh_catalog :: "string \<Rightarrow> string \<Rightarrow> store \<Rightarrow> bool" where
  "fresh_catalog lid rid s \<longleftrightarrow> lid \<notin> c_lease_id ` set (catalog_holds s) \<and> rid \<notin> c_request_id ` set (catalog_holds s)"

interpretation acquire: admission "acquire now cfg sha256 lid rid c aborted override" now c "fresh_lease lid rid"
  for now cfg sha256 lid rid c aborted override
proof
  fix s assume inv: "store_inv s" and fresh: "fresh_lease lid rid s"
  have f: "lid \<notin> lease_id ` set (leases s)" "rid \<notin> h_request_id ` set (holds s)"
    using fresh by (simp_all add: fresh_lease_def)
  have body: "admission_result now c s (admit now (acquire_body now cfg sha256 lid rid c tmo) s)" for tmo
    by (rule admit_result) (rule acquire_body_spec [OF reclaim.keeps_inv [OF inv]
        fresh_reclaim(1) [OF f(1)] fresh_reclaim(2) [OF f(2)]])
  have "(\<forall>t. e \<noteq> SqlConstraint t)"
    if "normalizeCaller c = Inl e \<or> inferenceHoldTimeoutMs override (requestTimeoutMs cfg) = Inl e" for e
    using that by (auto simp: normalizeCaller_def inferenceHoldTimeoutMs_def split: if_splits option.splits)
  then show "admission_result now c s (acquire now cfg sha256 lid rid c aborted override s)"
    unfolding acquire_def using body by (auto intro!: admission_result_Inl split: sum.split)
qed

interpretation acquireCatalog: admission "acquireCatalog now cfg sha256 lid rid c aborted" now c "fresh_catalog lid rid"
  for now cfg sha256 lid rid c aborted
proof
  fix s assume inv: "store_inv s" and fresh: "fresh_catalog lid rid s"
  have f: "lid \<notin> c_lease_id ` set (catalog_holds s)" "rid \<notin> c_request_id ` set (catalog_holds s)"
    using fresh by (simp_all add: fresh_catalog_def)
  have body: "admission_result now c s (admit now (acquireCatalog_body now cfg sha256 lid rid c) s)"
    by (rule admit_result) (rule acquireCatalog_body_spec [OF reclaim.keeps_inv [OF inv]
        fresh_reclaim(3) [OF f(1)] fresh_reclaim(3) [OF f(2)]])
  have "(\<forall>t. e \<noteq> SqlConstraint t)" if "normalizeCaller c = Inl e" for e
    using that by (auto simp: normalizeCaller_def split: if_splits)
  then show "admission_result now c s (acquireCatalog now cfg sha256 lid rid c aborted s)"
    unfolding acquireCatalog_def using body by (auto intro!: admission_result_Inl split: sum.split)
qed

end
