(* ===== verification/Pool_Reservation.thy ===== *)
theory Pool_Reservation
  imports Pool_Admission
begin

text \<open>
  Reservations keep the invariant: \<open>insertMember\<close>, \<open>reserveCandidate\<close>, \<open>reserve\<close> and \<open>reserveDeficit\<close> add
  members with unused names and ordinals, count them in their enterprise, never beyond its cap, and
  change no lease and no hold.
\<close>

section \<open>Growth of the inventory\<close>

definition bump :: "string list \<Rightarrow> EnterpriseRow list \<Rightarrow> EnterpriseRow list" where
  "bump xs rows = map (\<lambda>e. e\<lparr>inventory_count := inventory_count e + int (count_list xs (se_id e))\<rparr>) rows"

definition grew :: "store \<Rightarrow> store \<Rightarrow> string list \<Rightarrow> bool" where
  "grew s s' xs \<longleftrightarrow>
     (\<exists>new. members s' = members s @ new \<and> map enterprise_id new = xs \<and>
        (\<forall>m \<in> set new. state m = Provisioning \<and> generation m = 0)) \<and>
     enterprises s' = bump xs (enterprises s) \<and> leases s' = leases s \<and> holds s' = holds s \<and>
     catalog_holds s' = catalog_holds s \<and> cooldowns s' = cooldowns s \<and>
     next_ordinal (settings s) \<le> next_ordinal (settings s')"

lemma bump_Nil [simp]: "bump [] rows = rows"
  by (simp add: bump_def)

lemma bump_append: "bump ys (bump xs rows) = bump (xs @ ys) rows"
  by (simp add: bump_def)

lemma bump_se_id [simp]: "map se_id (bump xs rows) = map se_id rows"
  by (simp add: bump_def comp_def)

lemma bump_one: "update_where (\<lambda>e. se_id e = x) (\<lambda>e. e\<lparr>inventory_count := inventory_count e + 1\<rparr>) rows = bump [x] rows"
  by (auto simp: update_where_def bump_def)

lemma grew_refl: "grew s s []"
  by (simp add: grew_def)

lemma grew_trans: "grew s t xs \<Longrightarrow> grew t u ys \<Longrightarrow> grew s u (xs @ ys)"
  by (auto simp: grew_def bump_append)

section \<open>One member\<close>

lemma inv_take_ordinal:
  "store_inv s \<Longrightarrow> next_ordinal (settings s) < NAME_CAPACITY \<Longrightarrow> store_inv (take_ordinal s)"
  by (fastforce simp: store_inv_def keys_inv_def refs_inv_def inventory_inv_def generations_inv_def take_ordinal_def
      bindings_def lease_bindings_def catalog_bindings_def)

lemma grew_take_ordinal: "grew s (take_ordinal s) []"
  by (simp add: grew_def take_ordinal_def)

lemma member_count_append: "member_count (ms @ [m]) x = member_count ms x + (if enterprise_id m = x then 1 else 0)"
  by (simp add: member_count_def count_rows_def)

lemma inventory_inv_insert:
  assumes "inventory_inv s" and "0 \<le> ordinal m" and "ordinal m < next_ordinal (settings s)"
  shows "inventory_inv (s\<lparr>accounts := as, members := members s @ [m], enterprises := bump [enterprise_id m] (enterprises s)\<rparr>)"
proof -
  let ?x = "enterprise_id m"
  have sum: "sum_list (map max_accounts (bump xs rows)) = sum_list (map max_accounts rows)" for xs rows
    by (simp add: bump_def comp_def)
  have row: "enterprise_checks e' \<and> inventory_count e' = member_count (members s @ [m]) (se_id e')"
    if mem: "e' \<in> set (bump [?x] (enterprises s))" for e'
  proof -
    obtain e where e: "e \<in> set (enterprises s)"
      and e': "e' = e\<lparr>inventory_count := inventory_count e + int (count_list [?x] (se_id e))\<rparr>"
      using mem unfolding bump_def set_map by blast
    have "enterprise_checks e" "inventory_count e = member_count (members s) (se_id e)"
      using e assms(1) by (auto simp: inventory_inv_def enterprises_ok_def)
    then show ?thesis unfolding e' by (simp add: enterprise_checks_def member_count_append)
  qed
  have "\<forall>q \<in> set (members s @ [m]). 0 \<le> ordinal q \<and> ordinal q < next_ordinal (settings s)"
    using assms by (auto simp: inventory_inv_def)
  then show ?thesis using assms(1) row unfolding inventory_inv_def enterprises_ok_def by (simp add: sum)
qed

lemma count_rows_key:
  assumes "distinct (map g rs)" and "k \<in> g ` set rs"
  shows "count_rows (\<lambda>r. g r = k) rs = 1"
proof -
  have "filter (\<lambda>r. g r = k) rs = [r]" if "r \<in> set rs" "g r = k" for r
    using assms(1) that by (induction rs) (auto simp: rev_image_eqI intro!: filter_False)
  then show ?thesis using assms(2) by (auto simp: count_rows_def)
qed

lemma insertMember_ok:
  assumes inv: "store_inv s" and i: "i \<notin> a_identity ` set (accounts s)" and n: "0 \<le> n" "n < next_ordinal (settings s)"
    "n \<notin> ordinal ` set (members s)" and x: "x \<in> se_id ` set (enterprises s)"
  shows "\<exists>s'. insertMember now u i n x s = Inr s' \<and> store_inv s' \<and> grew s s' [x] \<and>
    members s' = members s @ [new_member now i n x u]"
proof -
  let ?m = "new_member now i n x u"
  let ?s = "s\<lparr>accounts := accounts s @ [new_account now i x], members := members s @ [?m], enterprises := bump [x] (enterprises s)\<rparr>"
  have parts: "keys_inv s" "refs_inv s" "exclusive (bindings s)" "inventory_inv s" "generations_inv s"
    using inv by (simp_all add: store_inv_def)
  have mem: "i \<notin> identity ` set (members s)"
    using refs_account [OF parts(2)] i by (auto simp: account_keys_def)
  have "count_rows (\<lambda>e. se_id e = x) (enterprises s) = 1"
    using x parts(4) by (intro count_rows_key) (simp_all add: inventory_inv_def enterprises_ok_def)
  moreover have "\<not> exists_row (\<lambda>a. a_identity a = i) (accounts s)" using i by (auto simp: exists_row_iff)
  moreover have "\<not> exists_row (\<lambda>m. identity m = i \<or> ordinal m = n) (members s)" using mem n(3) by (auto simp: exists_row_iff)
  ultimately have ok: "insertMember now u i n x s = Inr ?s"
    by (simp add: insertMember_def incrementInventory_def bump_one)
  have "keys_inv ?s" using parts(1) mem i n(3) by (auto simp: keys_inv_def new_member_def new_account_def)
  moreover have "refs_inv ?s"
  proof -
    have "se_id ` set (bump [x] (enterprises s)) = se_id ` set (enterprises s)" by (metis bump_se_id set_map)
    moreover have "account_keys ?s = insert (i, x) (account_keys s)" by (auto simp: account_keys_def new_account_def)
    ultimately show ?thesis using parts(2) x
      by (simp add: refs_inv_def new_member_def subset_insertI2)
  qed
  moreover have "exclusive (bindings ?s)" using parts(3) bindings_fields [of ?s s] by simp
  moreover have "inventory_inv ?s" using inventory_inv_insert [OF parts(4), of ?m] n by (simp add: new_member_def)
  moreover have "generations_inv ?s"
  proof -
    have "member_identity l \<noteq> i" if "l \<in> set (leases s)" for l using refs_lease [OF parts(2) that] mem by auto
    moreover have "c_member c \<noteq> i" if "c \<in> set (catalog_holds s)" for c using refs_catalog [OF parts(2) that] mem by auto
    ultimately show ?thesis using parts(5) by (auto simp: generations_inv_def new_member_def)
  qed
  ultimately have "store_inv ?s" by (simp add: store_inv_def)
  moreover have "grew s ?s [x]" by (simp add: grew_def new_member_def)
  ultimately show ?thesis using ok by auto
qed

section \<open>The search for a free name\<close>

lemma name_collision_fresh: "\<not> name_collision s i \<Longrightarrow> i \<notin> a_identity ` set (accounts s)"
  by (auto simp: name_collision_def exists_row_iff)

lemma frame_event_grew: "grew s t xs \<Longrightarrow> grew s (event now a i c l d t) xs"
  by (simp add: grew_def)

definition candidate_result :: "store \<Rightarrow> string \<Rightarrow> (pool_error + Inventory) \<times> store \<Rightarrow> bool" where
  "candidate_result s x r = (case r of
      (Inl e, s') \<Rightarrow> store_inv s' \<and> grew s s' [] \<and> next_ordinal (settings s') = NAME_CAPACITY \<and>
        e = UserPoolError 503 ''name_catalog_exhausted'' 0
    | (Inr m, s') \<Rightarrow> store_inv s' \<and> grew s s' [x] \<and> members s' = members s @ [m] \<and> enterprise_id m = x \<and>
        next_ordinal (settings s) \<le> ordinal m)"

lemma candidate_result_skip:
  "grew s t [] \<Longrightarrow> members t = members s \<Longrightarrow> next_ordinal (settings s) \<le> next_ordinal (settings t) \<Longrightarrow>
     candidate_result t x r \<Longrightarrow> candidate_result s x r"
  using grew_trans [of s t "[]"] by (auto simp: candidate_result_def split: prod.splits sum.splits)

lemma reserveCandidate_insert:
  assumes inv: "store_inv s" and n: "n = next_ordinal (settings s)" "n < NAME_CAPACITY" and x: "x \<in> se_id ` set (enterprises s)"
    and free: "\<not> name_collision (take_ordinal s) i"
  shows "\<exists>s2 m. insertMember now u i n x (take_ordinal s) = Inr s2 \<and>
    inventory_row (event now a (Some i) None None None s2) i = Some m \<and>
    candidate_result s x (Inr m, event now a (Some i) None None None s2)"
proof -
  let ?s = "take_ordinal s"
  have inv1: "store_inv ?s" using inv_take_ordinal [OF inv] n by simp
  have same: "members ?s = members s" "enterprises ?s = enterprises s" "next_ordinal (settings ?s) = n + 1"
    using n by (simp_all add: take_ordinal_def)
  have "0 \<le> n" "n \<notin> ordinal ` set (members s)" using inv n(1) by (auto simp: store_inv_def inventory_inv_def)
  then obtain s2 where s2: "insertMember now u i n x ?s = Inr s2" "store_inv s2" "grew ?s s2 [x]"
    "members s2 = members s @ [new_member now i n x u]"
    using insertMember_ok [OF inv1 name_collision_fresh [OF free], of n x now u] x same by auto
  let ?t = "event now a (Some i) None None None s2"
  have t: "store_inv ?t" "members ?t = members s @ [new_member now i n x u]" using s2 by simp_all
  then have "inventory_row ?t i = Some (new_member now i n x u)"
    by (subst inventory_row_Some) (auto simp: store_inv_def new_member_def)
  moreover have "grew s ?t [x]" using grew_trans [OF grew_take_ordinal s2(3)] by (simp add: frame_event_grew)
  ultimately show ?thesis using s2(1) t n(1) by (auto simp: candidate_result_def new_member_def)
qed

lemma accountName_total: "0 \<le> n \<Longrightarrow> n < NAME_CAPACITY \<Longrightarrow> \<exists>i. accountName catalog n = Inr i"
  by (simp add: accountName_Inr)

lemma reserveCandidate_spec:
  assumes "store_inv s" and "x \<in> se_id ` set (enterprises s)"
  shows "\<exists>r. reserveCandidate now catalog uuid x s = Inr r \<and> candidate_result s x r"
  using assms
proof (induction now catalog uuid x s rule: reserveCandidate.induct)
  case (1 now catalog uuid x s)
  let ?n = "next_ordinal (settings s)"
  show ?case
  proof (cases "?n < NAME_CAPACITY")
    case False
    then show ?thesis using 1(2) grew_refl [of s]
      by (subst reserveCandidate.simps) (auto simp: candidate_result_def store_inv_def inventory_inv_def)
  next
    case True
    have "0 \<le> ?n" using 1(2) by (simp add: store_inv_def inventory_inv_def)
    then obtain i where i: "accountName catalog ?n = Inr i" using accountName_total True by blast
    show ?thesis
    proof (cases "name_collision (take_ordinal s) i")
      case False
      from reserveCandidate_insert [OF 1(2) refl True 1(3) False, of now "uuid ?n" "''name_reserved''"]
      show ?thesis using i True False by (subst reserveCandidate.simps) (auto simp: Let_def)
    next
      case c: True
      have inv: "store_inv (take_ordinal s)" by (rule inv_take_ordinal [OF 1(2) True])
      have same: "members (take_ordinal s) = members s" "enterprises (take_ordinal s) = enterprises s"
        "next_ordinal (settings s) \<le> next_ordinal (settings (take_ordinal s))" by (simp_all add: take_ordinal_def)
      obtain r where "reserveCandidate now catalog uuid x (take_ordinal s) = Inr r" "candidate_result (take_ordinal s) x r"
        using 1(1) [OF refl True i refl c inv] 1(3) same(2) by auto
      then show ?thesis using candidate_result_skip [OF grew_take_ordinal same(1,3)] i True c
        by (subst reserveCandidate.simps) (auto simp: Let_def)
    qed
  qed
qed

section \<open>Batches\<close>

lemma reserve_all_spec:
  assumes "store_inv s" and "set xs \<subseteq> se_id ` set (enterprises s)"
  shows "\<exists>k s' ys. reserve_all now catalog uuid xs n s = Inr (n + int k, s') \<and> store_inv s' \<and> grew s s' ys \<and>
    ys = take k xs \<and> k \<le> length xs \<and> (k < length xs \<longrightarrow> next_ordinal (settings s') = NAME_CAPACITY)"
  using assms
proof (induction xs arbitrary: n s)
  case Nil
  then show ?case using grew_refl by (intro exI [of _ 0]) auto
next
  case (Cons x xs)
  have x: "x \<in> se_id ` set (enterprises s)" using Cons(3) by simp
  obtain r where r: "reserveCandidate now catalog uuid x s = Inr r" "candidate_result s x r"
    using reserveCandidate_spec [OF Cons(2) x, of now catalog uuid] by blast
  obtain o1 s1 where r1: "r = (o1, s1)" by (cases r)
  show ?case
  proof (cases o1)
    case (Inl e)
    then show ?thesis using r r1 by (intro exI [of _ 0]) (auto simp: candidate_result_def)
  next
    case (Inr m)
    then have s1: "store_inv s1" "grew s s1 [x]" using r(2) r1 by (auto simp: candidate_result_def)
    have "se_id ` set (enterprises s1) = se_id ` set (enterprises s)"
      using s1(2) by (metis grew_def bump_se_id set_map)
    then have "set xs \<subseteq> se_id ` set (enterprises s1)" using Cons(3) by simp
    from Cons.IH [OF s1(1) this, of "n + 1"] obtain k s' where k: "reserve_all now catalog uuid xs (n + 1) s1 = Inr (n + 1 + int k, s')"
      "store_inv s'" "grew s1 s' (take k xs)" "k \<le> length xs" "k < length xs \<longrightarrow> next_ordinal (settings s') = NAME_CAPACITY" by blast
    then show ?thesis using r r1 Inr grew_trans [OF s1(2) k(3)] by (intro exI [of _ "Suc k"]) auto
  qed
qed

lemma planBatch_spec:
  assumes "store_inv s"
  shows "\<exists>plan. planBatch now elig limit s = Inr (plan, reclaim now s) \<and>
    int (length plan) \<le> max 0 limit \<and> (paused (settings (reclaim now s)) = 1 \<longrightarrow> plan = []) \<and>
    int (length plan) \<le> max 0 (idle_target (settings (reclaim now s)) - ready_idle (poolSupply now (reclaim now s))
      - in_flight (poolSupply now (reclaim now s))) \<and>
    (\<forall>e \<in> set (enterprises s). int (count_list plan (se_id e)) \<le> max 0 (max_accounts e - inventory_count e)) \<and>
    set plan \<subseteq> elig \<inter> se_id ` {e \<in> set (enterprises s). isActive e}"
proof -
  let ?s = "reclaim now s"
  have "valid_rows (sort_key se_id (enterprises s))" using assms
    by (intro valid_rows_sorted enterprises_valid_rows) (simp_all add: store_inv_def)
  from planReplenishment_spec [OF this, of elig "poolSupply now ?s" "settings ?s" "next_ordinal (settings ?s)" limit]
  obtain plan where "planReplenishment (sort_key se_id (enterprises s)) elig (poolSupply now ?s) (settings ?s)
      (next_ordinal (settings ?s)) limit = Inr plan"
    "int (length plan) \<le> max 0 (idle_target (settings ?s) - ready_idle (poolSupply now ?s) - in_flight (poolSupply now ?s))"
    "int (length plan) \<le> max 0 limit" "paused (settings ?s) = 1 \<longrightarrow> plan = []"
    "\<forall>e \<in> set (enterprises s). int (count_list plan (se_id e)) \<le> max 0 (max_accounts e - inventory_count e)"
    "set plan \<subseteq> elig \<inter> se_id ` {e \<in> set (enterprises s). isActive e}" by auto
  then show ?thesis by (auto simp: planBatch_def Let_def)
qed

text \<open>
  What a reservation run may do to the inventory, from the reclaimed store: add members of eligible
  active enterprises within their caps, at most as many as the pool lacks, and none while paused.
\<close>

definition replenished :: "int \<Rightarrow> string set \<Rightarrow> store \<Rightarrow> store \<Rightarrow> nat \<Rightarrow> bool" where
  "replenished now elig s s' k \<longleftrightarrow> (\<exists>ys. grew (reclaim now s) s' ys \<and> length ys = k \<and>
     (k > 0 \<longrightarrow> paused (settings (reclaim now s)) \<noteq> 1) \<and>
     int k \<le> max 0 (idle_target (settings (reclaim now s)) - ready_idle (poolSupply now (reclaim now s))
       - in_flight (poolSupply now (reclaim now s))) \<and>
     (\<forall>e \<in> set (enterprises s). int (count_list ys (se_id e)) \<le> max 0 (max_accounts e - inventory_count e)) \<and>
     set ys \<subseteq> elig \<inter> se_id ` {e \<in> set (enterprises s). isActive e})"

lemma count_list_take: "count_list (take k xs) x \<le> count_list xs x"
  by (metis append_take_drop_id count_list_append le_add1)

lemma enterprises_reclaim [simp]: "enterprises (reclaim now s) = enterprises s"
  using frame_reclaim [of s now] by (simp add: frame_def)

lemma reserveDeficit_body_spec:
  assumes "store_inv s"
  shows "\<exists>k s'. reserveDeficit_body now catalog uuid ow elig s = Inr (int k, s') \<and> store_inv s' \<and>
    (s' = s \<and> k = 0 \<or> matchesOwner now s (Some ow) \<and> replenished now elig s s' k)"
proof (cases "matchesOwner now s (Some ow)")
  case True
  obtain plan where plan: "planBatch now elig NAME_CAPACITY s = Inr (plan, reclaim now s)"
    "paused (settings (reclaim now s)) = 1 \<longrightarrow> plan = []"
    "int (length plan) \<le> max 0 (idle_target (settings (reclaim now s)) - ready_idle (poolSupply now (reclaim now s))
      - in_flight (poolSupply now (reclaim now s)))"
    "\<forall>e \<in> set (enterprises s). int (count_list plan (se_id e)) \<le> max 0 (max_accounts e - inventory_count e)"
    "set plan \<subseteq> elig \<inter> se_id ` {e \<in> set (enterprises s). isActive e}"
    using planBatch_spec [OF assms, of now elig NAME_CAPACITY] by (elim exE conjE) rule
  then have "set plan \<subseteq> se_id ` set (enterprises (reclaim now s))" by auto
  from reserve_all_spec [OF reclaim.keeps_inv [OF assms] this, of now catalog uuid 0]
  obtain k s' where k: "reserve_all now catalog uuid plan 0 (reclaim now s) = Inr (int k, s')" "store_inv s'"
    "grew (reclaim now s) s' (take k plan)" "k \<le> length plan" by auto
  have "int (count_list (take k plan) (se_id e)) \<le> max 0 (max_accounts e - inventory_count e)"
    if "e \<in> set (enterprises s)" for e
    using plan(4) that count_list_take [of k plan "se_id e"] by fastforce
  moreover have "set (take k plan) \<subseteq> elig \<inter> se_id ` {e \<in> set (enterprises s). isActive e}"
    using plan(5) set_take_subset by fast
  ultimately have "replenished now elig s s' k"
    unfolding replenished_def using k plan(2,3) by (intro exI [of _ "take k plan"]) auto
  then show ?thesis using True plan(1) k(1,2) by (auto simp: reserveDeficit_body_def)
qed (use assms in \<open>auto simp: reserveDeficit_body_def\<close>)

end
