(* ===== verification/Pool_Policy.thy ===== *)
theory Pool_Policy
  imports Pool_Reservation
begin

text \<open>
  The operations that change the enterprises keep the invariant: policy edits, the correction of the
  counters and the initialisation at start.
\<close>

section \<open>Changing the enterprises\<close>

lemma inv_enterprises:
  assumes "store_inv s" and "enterprises_ok rows'" and "map se_id rows' = map se_id (enterprises s)"
    and "\<forall>e \<in> set rows'. inventory_count e = member_count (members s) (se_id e)"
  shows "store_inv (s\<lparr>enterprises := rows'\<rparr>)"
proof -
  let ?s = "s\<lparr>enterprises := rows'\<rparr>"
  have "se_id ` set rows' = se_id ` set (enterprises s)" using assms(3) by (metis set_map)
  then have "refs_inv ?s" using assms(1) by (simp add: store_inv_def refs_inv_def)
  moreover have "keys_inv ?s" "generations_inv ?s" using assms(1) by (simp_all add: store_inv_def keys_inv_def generations_inv_def)
  moreover have "exclusive (bindings ?s)" using assms(1) bindings_fields [of ?s s] by (simp add: store_inv_def)
  moreover have "inventory_inv ?s" using assms by (simp add: store_inv_def inventory_inv_def)
  ultimately show ?thesis by (simp add: store_inv_def)
qed

lemma frame_record_events: "frame s (fold (\<lambda>d. recordEvent now (f d)) ds s)"
  by (rule frame_fold) simp

section \<open>Policies\<close>

lemma sum_update_cap:
  "(\<Sum>e\<leftarrow>update_where (\<lambda>e. se_id e = x \<and> policy_version e = v)
      (\<lambda>e. e\<lparr>max_accounts := k, se_state := st, policy_version := policy_version e + 1, e_updated_at := now\<rparr>) rows. max_accounts e) =
   (\<Sum>e\<leftarrow>rows. if se_id e = x \<and> policy_version e = v then k else max_accounts e)"
  by (induction rows) auto

lemma updateEnterprisePolicy_edit:
  assumes ok: "updateEnterprisePolicy now x v patch s = Inr (row, s')"
  shows "\<exists>current cap' st f. current \<in> set (enterprises s) \<and> se_id current = x \<and> policy_version current = js_int v \<and>
    nextPolicy current (sort_key se_id (enterprises s)) v patch = Inr (cap', JStr (state_text st)) \<and>
    s' = recordEvent now f (s\<lparr>enterprises := update_where (\<lambda>e. se_id e = x \<and> policy_version e = js_int v)
      (\<lambda>e. e\<lparr>max_accounts := cap', se_state := st, policy_version := policy_version e + 1, e_updated_at := now\<rparr>) (enterprises s)\<rparr>)"
proof -
  let ?rows = "sort_key se_id (enterprises s)"
  obtain current where c: "List.find (\<lambda>r. se_id r = x) ?rows = Some current"
    using ok by (auto simp: updateEnterprisePolicy_def Let_def split: option.splits)
  have cur: "current \<in> set (enterprises s)" "se_id current = x" using find_Some_mem [OF c] by simp_all
  obtain cap' st' where n: "nextPolicy current ?rows v patch = Inr (cap', st')"
    using ok c by (auto simp: updateEnterprisePolicy_def Let_def res_bind_Inr)
  obtain st where st: "lifecycle_of_js st' = Some st"
    using ok c n by (auto simp: updateEnterprisePolicy_def Let_def split: option.splits)
  have "st' = JStr (state_text st)" using st by (cases st') (auto split: if_splits)
  moreover have "js_int v = policy_version current"
    using n by (auto simp: nextPolicy_def res_bind_Inr Let_def split: if_splits)
  ultimately show ?thesis using ok c n st cur
    by (auto simp: updateEnterprisePolicy_def Let_def split: option.splits)
qed

lemma updateEnterprisePolicy_inv:
  assumes inv: "store_inv s" and ok: "updateEnterprisePolicy now x v patch s = Inr (row, s')"
  shows "store_inv s'"
proof -
  let ?rows = "sort_key se_id (enterprises s)"
  obtain current cap' st f where e: "current \<in> set (enterprises s)" "se_id current = x" "policy_version current = js_int v"
    "nextPolicy current ?rows v patch = Inr (cap', JStr (state_text st))"
    and s': "s' = recordEvent now f (s\<lparr>enterprises := update_where (\<lambda>e. se_id e = x \<and> policy_version e = js_int v)
      (\<lambda>e. e\<lparr>max_accounts := cap', se_state := st, policy_version := policy_version e + 1, e_updated_at := now\<rparr>) (enterprises s)\<rparr>)"
    using updateEnterprisePolicy_edit [OF ok] by blast
  let ?P = "\<lambda>e. se_id e = x \<and> policy_version e = js_int v"
  let ?f = "\<lambda>e. e\<lparr>max_accounts := cap', se_state := st, policy_version := policy_version e + 1, e_updated_at := now\<rparr>"
  have inv': "keys_inv s" "inventory_inv s" "enterprises_ok (enterprises s)" using inv by (simp_all add: store_inv_def inventory_inv_def)
  have valid: "valid_rows ?rows" using inv' by (intro valid_rows_sorted enterprises_valid_rows)
  have spec: "1 \<le> cap'" "cap' \<le> NAME_CAPACITY"
    "(\<Sum>r\<leftarrow>?rows. if se_id r = se_id current then cap' else max_accounts r) \<le> NAME_CAPACITY"
    using nextPolicy_spec [OF e(4) _ valid] e(1) by simp_all
  have key: "?P r \<longleftrightarrow> se_id r = se_id current" if "r \<in> set (enterprises s)" for r
    using that e inv'(3) by (auto simp: enterprises_ok_def dest: distinct_map_eqD)
  have "(\<Sum>e\<leftarrow>update_where ?P ?f (enterprises s). max_accounts e) =
      (\<Sum>r\<leftarrow>enterprises s. if se_id r = se_id current then cap' else max_accounts r)"
    unfolding sum_update_cap using key by (intro arg_cong [where f = sum_list] map_cong) auto
  also have "\<dots> = (\<Sum>r\<leftarrow>?rows. if se_id r = se_id current then cap' else max_accounts r)"
    by (metis (no_types, lifting) mset_map mset_sort sum_mset_sum_list)
  finally have "enterprises_ok (update_where ?P ?f (enterprises s))" using inv'(3) spec
    by (auto simp: enterprises_ok_def map_update_where rows enterprise_checks_def NAME_CAPACITY_def
        NAME_BASE_COUNT_def NAME_SUFFIX_COUNT_def)
  moreover have "\<forall>e \<in> set (update_where ?P ?f (enterprises s)). inventory_count e = member_count (members s) (se_id e)"
    using inv'(2) by (auto simp: inventory_inv_def rows)
  ultimately have "store_inv (s\<lparr>enterprises := update_where ?P ?f (enterprises s)\<rparr>)"
    by (intro inv_enterprises [OF inv]) (simp_all add: map_update_where)
  then show ?thesis unfolding s' by (rule frame_inv [OF frame_event(2)])
qed

section \<open>Counters\<close>

lemma enterprises_ok_counts:
  "enterprises_ok rows \<Longrightarrow> enterprises_ok (map (\<lambda>e. e\<lparr>inventory_count := member_count ms (se_id e)\<rparr>) rows)"
  by (auto simp: enterprises_ok_def enterprise_checks_def comp_def member_count_def)

text \<open>
  The correction needs no correct counter beforehand: with every other part of the invariant it
  establishes the whole.
\<close>

lemma correctInventoryDrift_establishes:
  assumes "keys_inv s" "refs_inv s" "exclusive (bindings s)" "generations_inv s" "enterprises_ok (enterprises s)"
    and "\<forall>m \<in> set (members s). 0 \<le> ordinal m \<and> ordinal m < next_ordinal (settings s)"
    and "0 \<le> next_ordinal (settings s)" "next_ordinal (settings s) \<le> NAME_CAPACITY"
  shows "store_inv (snd (correctInventoryDrift now s))"
proof -
  let ?rows = "map (\<lambda>e. e\<lparr>inventory_count := member_count (members s) (se_id e)\<rparr>) (enterprises s)"
  let ?s = "s\<lparr>enterprises := ?rows\<rparr>"
  obtain ds where c: "correctInventoryCounts (members s) (enterprises s) = (ds, ?rows)"
    using correctInventoryCounts_spec [of "members s" "enterprises s"] by (metis prod.collapse)
  have "se_id ` set ?rows = se_id ` set (enterprises s)" by (simp add: image_image)
  then have "refs_inv ?s" using assms(2) by (simp add: refs_inv_def)
  moreover have "inventory_inv ?s" using assms(5-8) enterprises_ok_counts [OF assms(5)] by (auto simp: inventory_inv_def)
  moreover have "keys_inv ?s" "generations_inv ?s" using assms(1,4) by (simp_all add: keys_inv_def generations_inv_def)
  moreover have "exclusive (bindings ?s)" using assms(3) bindings_fields [of ?s s] by simp
  ultimately have "store_inv ?s" by (simp add: store_inv_def)
  then have "store_inv (fold (\<lambda>d. recordEvent now (g d)) ds ?s)" for g by (rule frame_inv [OF frame_record_events])
  then show ?thesis by (simp add: correctInventoryDrift_def c)
qed

end
