(* ===== verification/Proxy_Accounts.thy ===== *)
theory Proxy_Accounts
  imports Pool_Narrowing
begin

text \<open>
  The Proxy's account storage (\<^verbatim>\<open>src/proxy/src/db/sqliteStorage.ts\<close>): accounts and their OAuth
  credentials, the claims of identity initialisations, and the request statistics with their
  retention. Accounts live in the pool's \<open>store\<close>, whose members refer to them; the two other tables are
  the record \<open>side_tables\<close>. The constraints come from \<^verbatim>\<open>src/proxy/src/db/migrations.ts\<close> and
  \<^verbatim>\<open>src/proxy/src/db/enterpriseMigrations.ts\<close>. ISO timestamps are the instants they denote.
\<close>

section \<open>Accounts\<close>

record CreateAccountInput =
  in_identity :: string
  in_enterprise :: string
  in_sso_user :: string
  in_gh_login :: "string option"
  in_status :: "string option"
  in_attempt :: "string option"

definition coalesce :: "'a option \<Rightarrow> 'a option \<Rightarrow> 'a option" where
  "coalesce a b = (case a of None \<Rightarrow> b | Some x \<Rightarrow> Some x)"

text \<open>
  \<open>INSERT .. ON CONFLICT(identity) DO UPDATE\<close>: a new row needs its enterprise; an existing row keeps
  its enterprise, or \<open>proxy_accounts_enterprise_immutable\<close> aborts.
\<close>

definition upsert_account :: "ProxyAccount \<Rightarrow> (ProxyAccount \<Rightarrow> ProxyAccount) \<Rightarrow> store \<Rightarrow> (ProxyAccount \<times> store) res" where
  "upsert_account row f s =
     (case account_row s (a_identity row) of
        None \<Rightarrow>
          if enterprise_row s (a_enterprise row) = None then Inl (SqlConstraint ''FOREIGN KEY constraint failed'')
          else Inr (row, s\<lparr>accounts := accounts s @ [row]\<rparr>)
      | Some a \<Rightarrow>
          if a_enterprise row \<noteq> a_enterprise a then Inl (SqlConstraint ''enterprise_id_immutable'')
          else Inr (f a, update_accounts (\<lambda>b. a_identity b = a_identity row) f s))"

definition createAccount :: "int \<Rightarrow> CreateAccountInput \<Rightarrow> store \<Rightarrow> (ProxyAccount \<times> store) res" where
  "createAccount now x =
     upsert_account
       \<lparr>a_identity = in_identity x, a_enterprise = in_enterprise x, a_sso_user = Some (in_sso_user x),
        a_gh_login = in_gh_login x, a_token = None,
        a_status = (case in_status x of None \<Rightarrow> ''missing'' | Some st \<Rightarrow> st), a_attempt_id = in_attempt x,
        a_oauth_updated_at = None, a_created_at = now, a_updated_at = now\<rparr>
       (\<lambda>a. a\<lparr>a_sso_user := Some (in_sso_user x), a_gh_login := coalesce (in_gh_login x) (a_gh_login a), a_updated_at := now\<rparr>)"

definition importCopilotOauthToken :: "int \<Rightarrow> CreateAccountInput \<Rightarrow> string \<Rightarrow> store \<Rightarrow> (ProxyAccount \<times> store) res" where
  "importCopilotOauthToken now x token =
     upsert_account
       \<lparr>a_identity = in_identity x, a_enterprise = in_enterprise x, a_sso_user = Some (in_sso_user x),
        a_gh_login = in_gh_login x, a_token = Some token, a_status = ''valid'', a_attempt_id = None,
        a_oauth_updated_at = Some now, a_created_at = now, a_updated_at = now\<rparr>
       (\<lambda>a. a\<lparr>a_sso_user := Some (in_sso_user x), a_gh_login := coalesce (in_gh_login x) (a_gh_login a),
          a_token := Some token, a_status := ''valid'', a_oauth_updated_at := Some now, a_attempt_id := None,
          a_updated_at := now\<rparr>)"

text \<open>\<open>UPDATE .. WHERE\<close> with the number of changed rows tested for being positive.\<close>

definition update_accounts_any :: "(ProxyAccount \<Rightarrow> bool) \<Rightarrow> (ProxyAccount \<Rightarrow> ProxyAccount) \<Rightarrow> store \<Rightarrow> bool \<times> store" where
  "update_accounts_any P f s = (exists_row P (accounts s), update_accounts P f s)"

definition saveCopilotOauthToken :: "int \<Rightarrow> string \<Rightarrow> string \<Rightarrow> string \<Rightarrow> string option \<Rightarrow> store \<Rightarrow> ProxyAccount option \<times> store" where
  "saveCopilotOauthToken now i oauth token login s =
     (let (changed, s') = update_accounts_any
            (\<lambda>a. a_identity a = i \<and> a_attempt_id a = Some oauth \<and> a_status a = ''refreshing'')
            (\<lambda>a. a\<lparr>a_token := Some token, a_gh_login := coalesce login (a_gh_login a), a_status := ''valid'',
               a_oauth_updated_at := Some now, a_attempt_id := None, a_updated_at := now\<rparr>) s
      in (if changed then account_row s' i else None, s'))"

definition markCopilotOauthStatus :: "int \<Rightarrow> string \<Rightarrow> string \<Rightarrow> store \<Rightarrow> store" where
  "markCopilotOauthStatus now i st =
     update_accounts (\<lambda>a. a_identity a = i) (\<lambda>a. a\<lparr>a_status := st, a_updated_at := now\<rparr>)"

text \<open>The expected attempt: not given, or a value that may be \<open>null\<close>.\<close>

definition beginCopilotOauthAuthorization :: "int \<Rightarrow> string \<Rightarrow> string \<Rightarrow> string option option \<Rightarrow> store \<Rightarrow> bool \<times> store" where
  "beginCopilotOauthAuthorization now i oauth expected =
     update_accounts_any
       (\<lambda>a. a_identity a = i \<and> (case expected of None \<Rightarrow> True | Some e \<Rightarrow> a_attempt_id a = e))
       (\<lambda>a. a\<lparr>a_status := ''refreshing'', a_attempt_id := Some oauth, a_updated_at := now\<rparr>)"

definition failCopilotOauthAuthorization :: "int \<Rightarrow> string \<Rightarrow> string \<Rightarrow> store \<Rightarrow> bool \<times> store" where
  "failCopilotOauthAuthorization now i oauth =
     update_accounts_any (\<lambda>a. a_identity a = i \<and> a_attempt_id a = Some oauth)
       (\<lambda>a. a\<lparr>a_status := ''failed'', a_updated_at := now\<rparr>)"

definition invalidateCopilotOauthToken :: "int \<Rightarrow> string \<Rightarrow> string \<Rightarrow> string \<Rightarrow> store \<Rightarrow> bool \<times> store" where
  "invalidateCopilotOauthToken now i token st =
     update_accounts_any (\<lambda>a. a_identity a = i \<and> a_token a = Some token \<and> a_status a = ''valid'')
       (\<lambda>a. a\<lparr>a_token := None, a_status := st, a_oauth_updated_at := Some now, a_attempt_id := None, a_updated_at := now\<rparr>)"

section \<open>Claims and statistics\<close>

record InitializationRow =
  i_identity :: string
  i_enterprise :: string
  i_claim :: string
  i_expires_at :: int
  i_updated_at :: int

record StatRow =
  stat_id :: string
  stat_enterprise :: string
  stat_identity :: string
  stat_gh_login :: "string option"
  stat_requested_at :: int
  stat_path :: string
  stat_model :: "string option"
  stat_success :: bool
  stat_failure :: "string option"
  stat_input_tokens :: "int option"
  stat_output_tokens :: "int option"
  stat_cache_tokens :: "int option"
  stat_cache_input_tokens :: "int option"
  stat_cache_write_tokens :: "int option"
  stat_caller :: "string option"
  stat_lease :: "string option"

record side_tables =
  initializations :: "InitializationRow list"
  request_stats :: "StatRow list"

definition claimIdentityInitialization :: "int \<Rightarrow> string \<Rightarrow> string \<Rightarrow> string \<Rightarrow> int \<Rightarrow> side_tables \<Rightarrow> bool \<times> side_tables" where
  "claimIdentityInitialization now x i claim seconds t =
     (case List.find (\<lambda>r. i_identity r = i) (initializations t) of
        None \<Rightarrow> (True, t\<lparr>initializations := initializations t @ [\<lparr>i_identity = i, i_enterprise = x, i_claim = claim,
          i_expires_at = now + seconds * 1000, i_updated_at = now\<rparr>]\<rparr>)
      | Some r \<Rightarrow>
          if i_expires_at r \<le> now
          then (True, t\<lparr>initializations := update_where (\<lambda>q. i_identity q = i)
            (\<lambda>q. q\<lparr>i_enterprise := x, i_claim := claim, i_expires_at := now + seconds * 1000, i_updated_at := now\<rparr>)
            (initializations t)\<rparr>)
          else (False, t))"

definition releaseIdentityInitialization :: "string \<Rightarrow> string \<Rightarrow> side_tables \<Rightarrow> bool \<times> side_tables" where
  "releaseIdentityInitialization i claim t =
     (exists_row (\<lambda>r. i_identity r = i \<and> i_claim r = claim) (initializations t),
      t\<lparr>initializations := filter (\<lambda>r. \<not> (i_identity r = i \<and> i_claim r = claim)) (initializations t)\<rparr>)"

text \<open>\<open>ORDER BY requested_at DESC, id DESC\<close>, and \<open>LIMIT\<close>, where a negative limit is none.\<close>

definition newest_first :: "StatRow list \<Rightarrow> StatRow list" where
  "newest_first rs = rev (sort_key (\<lambda>r. (stat_requested_at r, stat_id r)) rs)"

definition sql_limit :: "int \<Rightarrow> 'a list \<Rightarrow> 'a list" where
  "sql_limit n xs = (if n < 0 then xs else take (nat n) xs)"

definition pruneStats :: "int \<Rightarrow> string \<Rightarrow> side_tables \<Rightarrow> side_tables" where
  "pruneStats limit i t =
     (let kept = map stat_id (sql_limit limit (newest_first (filter (\<lambda>r. stat_identity r = i) (request_stats t))))
      in t\<lparr>request_stats := filter (\<lambda>r. \<not> (stat_identity r = i \<and> stat_id r \<notin> set kept)) (request_stats t)\<rparr>)"

definition recordRequestStat :: "int \<Rightarrow> StatRow \<Rightarrow> side_tables \<Rightarrow> side_tables res" where
  "recordRequestStat limit row t =
     (if exists_row (\<lambda>r. stat_id r = stat_id row) (request_stats t) then Inl (SqlConstraint ''proxy_request_stats.id'')
      else Inr (pruneStats limit (stat_identity row) (t\<lparr>request_stats := request_stats t @ [row]\<rparr>)))"

text \<open>\<open>ROW_NUMBER() OVER (PARTITION BY identity ORDER BY requested_at DESC, id DESC)\<close>.\<close>

definition retention_rank :: "StatRow list \<Rightarrow> StatRow \<Rightarrow> nat" where
  "retention_rank rs r = count_rows (\<lambda>q. stat_identity q = stat_identity r \<and>
     (stat_requested_at r, stat_id r) \<le> (stat_requested_at q, stat_id q)) rs"

definition pruneAllRequestStats :: "int \<Rightarrow> side_tables \<Rightarrow> side_tables" where
  "pruneAllRequestStats limit t =
     t\<lparr>request_stats := filter (\<lambda>r. \<not> int (retention_rank (request_stats t) r) > limit) (request_stats t)\<rparr>"

section \<open>Deletion\<close>

text \<open>
  A pool member's account cannot be deleted: \<open>user_pool_accounts.identity\<close> refers to it with
  \<open>ON DELETE RESTRICT\<close>, and the transaction rolls back.
\<close>

definition delete_accounts :: "(ProxyAccount \<Rightarrow> bool) \<Rightarrow> store \<Rightarrow> store res" where
  "delete_accounts P s =
     (if exists_row (\<lambda>a. P a \<and> exists_row (\<lambda>m. identity m = a_identity a) (members s)) (accounts s)
      then Inl (SqlConstraint ''FOREIGN KEY constraint failed'')
      else Inr (s\<lparr>accounts := filter (\<lambda>a. \<not> P a) (accounts s)\<rparr>))"

definition delete_stats :: "string list \<Rightarrow> side_tables \<Rightarrow> int \<times> side_tables" where
  "delete_stats ids t = (int (count_rows (\<lambda>r. stat_identity r \<in> set ids) (request_stats t)),
     t\<lparr>request_stats := filter (\<lambda>r. stat_identity r \<notin> set ids) (request_stats t)\<rparr>)"

definition deleteAccount :: "string \<Rightarrow> store \<times> side_tables \<Rightarrow> (string \<times> int) option res \<times> (store \<times> side_tables)" where
  "deleteAccount i st =
     (let target = js_trim i; (s, t) = st in
      if target = [] \<or> account_row s target = None then (Inr None, st)
      else let (n, t') = delete_stats [target] t in
        case delete_accounts (\<lambda>a. a_identity a = target) s of
          Inl e \<Rightarrow> (Inl e, st)
        | Inr s' \<Rightarrow> (Inr (Some (target, n)), (s', t')))"

definition deleteAccountsBySsoUser :: "string \<Rightarrow> string \<Rightarrow> store \<times> side_tables \<Rightarrow>
    (string \<times> int \<times> int \<times> int) res \<times> (store \<times> side_tables)" where
  "deleteAccountsBySsoUser x u st =
     (let target = js_trim u; (s, t) = st;
          P = (\<lambda>a. a_enterprise a = x \<and> (case a_sso_user a of None \<Rightarrow> False | Some v \<Rightarrow> lower v = lower target))
      in if target = [] then (Inr (target, 0, 0, 0), st)
      else let matched = filter P (accounts s); (n, t') = delete_stats (map a_identity matched) t in
        case delete_accounts P s of
          Inl e \<Rightarrow> (Inl e, st)
        | Inr s' \<Rightarrow> (Inr (target, int (length matched), int (count_rows P (accounts s)), n), (s', t')))"

section \<open>The contract with the pool\<close>

lemma frame_insert_account:
  assumes "account_row s (a_identity row) = None"
  shows "frame s (s\<lparr>accounts := accounts s @ [row]\<rparr>)"
proof -
  have "a_identity row \<notin> a_identity ` set (accounts s)" using assms by (auto simp: account_row_def find_None_mem)
  moreover have "account_keys s \<subseteq> account_keys (s\<lparr>accounts := accounts s @ [row]\<rparr>)" by (auto simp: account_keys_def)
  ultimately show ?thesis by (auto simp: frame_def list_all2_frame_refl)
qed

lemma frame_delete_accounts:
  assumes "delete_accounts P s = Inr s'"
  shows "frame s s'"
proof -
  have s': "s' = s\<lparr>accounts := filter (\<lambda>a. \<not> P a) (accounts s)\<rparr>"
    and none: "\<And>a m. a \<in> set (accounts s) \<Longrightarrow> P a \<Longrightarrow> m \<in> set (members s) \<Longrightarrow> identity m \<noteq> a_identity a"
    using assms by (auto simp: delete_accounts_def exists_row_iff split: if_splits)
  then have "(i, x) \<in> account_keys s'" if "i \<in> identity ` set (members s)" "(i, x) \<in> account_keys s" for i x
    using that by (auto simp: account_keys_def image_iff)
  then show ?thesis using s' by (auto simp: frame_def list_all2_frame_refl distinct_map_filter)
qed

lemma frame_upsert_account:
  assumes "\<And>a. a_identity (f a) = a_identity a \<and> a_enterprise (f a) = a_enterprise a"
  shows "frame s (snd (transaction (upsert_account row f) s))"
  using frame_update_accounts [of f s] assms frame_insert_account [of s row]
  by (auto simp: transaction_def upsert_account_def split: option.split)

interpretation createAccount: narrowing "\<lambda>s. snd (transaction (createAccount now x) s)" for now x
  unfolding createAccount_def by unfold_locales (rule frame_upsert_account, simp)

interpretation importCopilotOauthToken: narrowing "\<lambda>s. snd (transaction (importCopilotOauthToken now x token) s)" for now x token
  unfolding importCopilotOauthToken_def by unfold_locales (rule frame_upsert_account, simp)

interpretation saveCopilotOauthToken: narrowing "\<lambda>s. snd (saveCopilotOauthToken now i oauth token login s)"
  for now i oauth token login
  by unfold_locales (simp add: saveCopilotOauthToken_def update_accounts_any_def frame_update_accounts)

interpretation markCopilotOauthStatus: narrowing "markCopilotOauthStatus now i st" for now i st
  unfolding markCopilotOauthStatus_def by unfold_locales (rule frame_update_accounts, simp)

interpretation beginCopilotOauthAuthorization: narrowing "\<lambda>s. snd (beginCopilotOauthAuthorization now i oauth expected s)"
  for now i oauth expected
  by unfold_locales (simp add: beginCopilotOauthAuthorization_def update_accounts_any_def frame_update_accounts)

interpretation failCopilotOauthAuthorization: narrowing "\<lambda>s. snd (failCopilotOauthAuthorization now i oauth s)" for now i oauth
  by unfold_locales (simp add: failCopilotOauthAuthorization_def update_accounts_any_def frame_update_accounts)

interpretation invalidateCopilotOauthToken: narrowing "\<lambda>s. snd (invalidateCopilotOauthToken now i token st s)" for now i token st
  by unfold_locales (simp add: invalidateCopilotOauthToken_def update_accounts_any_def frame_update_accounts)

interpretation deleteAccount: narrowing "\<lambda>s. fst (snd (deleteAccount i (s, t)))" for i t
  by unfold_locales (auto simp: deleteAccount_def Let_def delete_stats_def split: sum.split dest: frame_delete_accounts)

interpretation deleteAccountsBySsoUser: narrowing "\<lambda>s. fst (snd (deleteAccountsBySsoUser x u (s, t)))" for x u t
  by unfold_locales (auto simp: deleteAccountsBySsoUser_def Let_def delete_stats_def split: sum.split dest: frame_delete_accounts)

section \<open>Properties\<close>

lemma update_accounts_none: "\<not> exists_row P (accounts s) \<Longrightarrow> update_accounts P f s = s"
proof -
  assume n: "\<not> exists_row P (accounts s)"
  then have "update_where P f (accounts s) = accounts s" by (auto simp: update_where_def exists_row_iff map_idI)
  moreover have "\<not> exists_row (\<lambda>a. P a \<and> a_identity a = k \<and> credential_changed a (f a)) (accounts s)" for k
    using n by (auto simp: exists_row_iff)
  ultimately show ?thesis by (simp add: update_accounts_def update_where_def)
qed

text \<open>
  C30. Cancellation wins: once an authorisation attempt has been marked failed, a token that arrives
  late for that attempt is refused and changes nothing, so it cannot revive the account.
\<close>

theorem cancel_wins:
  assumes "failCopilotOauthAuthorization now i oauth s = (True, s')"
  shows "saveCopilotOauthToken later i oauth token login s' = (None, s')"
proof -
  have "accounts s' = update_where (\<lambda>a. a_identity a = i \<and> a_attempt_id a = Some oauth)
      (\<lambda>a. a\<lparr>a_status := ''failed'', a_updated_at := now\<rparr>) (accounts s)"
    using assms by (auto simp: failCopilotOauthAuthorization_def update_accounts_any_def update_accounts_def)
  then have "\<forall>a \<in> set (accounts s'). \<not> (a_identity a = i \<and> a_attempt_id a = Some oauth \<and> a_status a = ''refreshing'')"
    by (simp only:) (rule update_where_all; auto)
  then have "\<not> exists_row (\<lambda>a. a_identity a = i \<and> a_attempt_id a = Some oauth \<and> a_status a = ''refreshing'') (accounts s')"
    by (auto simp: exists_row_iff)
  then show ?thesis by (simp add: saveCopilotOauthToken_def update_accounts_any_def update_accounts_none)
qed

definition example_account :: ProxyAccount where
  "example_account = \<lparr>a_identity = ''ada00'', a_enterprise = ''default'', a_sso_user = Some ''ada00'', a_gh_login = None,
     a_token = None, a_status = ''refreshing'', a_attempt_id = Some ''oauth-1'', a_oauth_updated_at = None,
     a_created_at = 0, a_updated_at = 0\<rparr>"

definition example_accounts :: store where
  "example_accounts = \<lparr>members = [], accounts = [example_account], leases = [], holds = [], catalog_holds = [],
     cooldowns = [], enterprises = [], settings = \<lparr>idle_target = 0, lease_seconds = 60, paused = 0, version = 1,
       next_ordinal = 0, owner = None, owner_until = 0\<rparr>, events = [], event_seq = 0, selections = 0\<rparr>"

theorem cancel_wins_witness:
  "\<exists>s'. failCopilotOauthAuthorization 5 ''ada00'' ''oauth-1'' example_accounts = (True, s') \<and>
     saveCopilotOauthToken 6 ''ada00'' ''oauth-1'' ''tok'' None s' = (None, s')"
proof -
  have "fst (failCopilotOauthAuthorization 5 ''ada00'' ''oauth-1'' example_accounts)" by code_simp
  then obtain s' where "failCopilotOauthAuthorization 5 ''ada00'' ''oauth-1'' example_accounts = (True, s')"
    by (metis (full_types) prod.collapse)
  then show ?thesis using cancel_wins by blast
qed

text \<open>The claim of an identity that is live at \<open>now\<close>.\<close>

definition live_claim :: "int \<Rightarrow> side_tables \<Rightarrow> string \<Rightarrow> string \<Rightarrow> bool" where
  "live_claim now t i claim \<longleftrightarrow> (\<exists>r. List.find (\<lambda>r. i_identity r = i) (initializations t) = Some r \<and>
     i_claim r = claim \<and> now < i_expires_at r)"

text \<open>
  At most one initialisation of an identity runs at a time: a claim that succeeds is live until
  its lease ends, and while a claim is live every further claim of the same identity fails and leaves
  the table unchanged.
\<close>

theorem initialization_claims_exclusive:
  assumes "claimIdentityInitialization now x i claim seconds t = (True, t')" and "now \<le> later" and "later < now + seconds * 1000"
  shows "live_claim later t' i claim \<and> claimIdentityInitialization later y i other seconds' t' = (False, t')"
proof -
  have "\<exists>r. List.find (\<lambda>r. i_identity r = i) (initializations t') = Some r \<and> i_claim r = claim \<and>
      i_expires_at r = now + seconds * 1000"
  proof (cases "List.find (\<lambda>r. i_identity r = i) (initializations t)")
    case None
    then have "\<not> exists_row (\<lambda>r. i_identity r = i) (initializations t)" by (auto simp: find_None_iff exists_row_iff)
    then show ?thesis using assms(1) None by (auto simp: claimIdentityInitialization_def find_append_new)
  next
    case (Some r)
    then show ?thesis using assms(1)
        find_update_where [of i_identity "\<lambda>q. q\<lparr>i_enterprise := x, i_claim := claim, i_expires_at := now + seconds * 1000,
          i_updated_at := now\<rparr>" i "initializations t" r]
      by (auto simp: claimIdentityInitialization_def split: if_splits)
  qed
  then show ?thesis using assms(3) by (auto simp: live_claim_def claimIdentityInitialization_def)
qed

theorem initialization_claims_exclusive_witness:
  "\<exists>t'. claimIdentityInitialization 0 ''default'' ''ada'' ''c1'' 60 \<lparr>initializations = [], request_stats = []\<rparr> = (True, t') \<and>
     claimIdentityInitialization 59999 ''default'' ''ada'' ''c2'' 60 t' = (False, t')"
proof -
  obtain t' where t': "claimIdentityInitialization 0 ''default'' ''ada'' ''c1'' 60 \<lparr>initializations = [], request_stats = []\<rparr> = (True, t')"
    by (simp add: claimIdentityInitialization_def)
  then show ?thesis using initialization_claims_exclusive [OF t', of 59999 "''default''" "''c2''" 60] by auto
qed

section \<open>Retention of the statistics\<close>

abbreviation stat_key :: "StatRow \<Rightarrow> int \<times> string" where
  "stat_key r \<equiv> (stat_requested_at r, stat_id r)"

lemma count_ge_sorted_desc:
  fixes k :: "'a \<Rightarrow> 'b::linorder"
  assumes "sorted (rev (map k xs))" and "distinct (map k xs)" and "n < length xs"
  shows "length (filter (\<lambda>y. k (xs ! n) \<le> k y) xs) = Suc n"
proof -
  have desc: "k (xs ! n) \<le> k (xs ! j) \<longleftrightarrow> j \<le> n" if "j < length xs" for j
  proof -
    have le: "i \<le> j \<Longrightarrow> j < length xs \<Longrightarrow> k (xs ! j) \<le> k (xs ! i)" for i j
      using sorted_rev_nth_mono [OF assms(1), of i j] by simp
    have "k (xs ! j) \<noteq> k (xs ! n)" if "j \<noteq> n" using assms(2,3) \<open>j < length xs\<close> that
      by (metis distinct_conv_nth length_map nth_map)
    then show ?thesis using le [of j n] le [of n j] assms(3) that by (cases "j \<le> n") (auto simp: order.antisym)
  qed
  have "{j. j < length xs \<and> k (xs ! n) \<le> k (xs ! j)} = {..n}" using desc assms(3) by auto
  then show ?thesis by (simp add: length_filter_conv_card)
qed

lemma rank_take:
  fixes k :: "'a \<Rightarrow> 'b::linorder"
  assumes "distinct (map k rs)" and "x \<in> set rs"
  shows "x \<in> set (take m (rev (sort_key k rs))) \<longleftrightarrow> length (filter (\<lambda>y. k x \<le> k y) rs) \<le> m"
proof -
  let ?xs = "rev (sort_key k rs)"
  have d: "distinct (map k ?xs)" "sorted (rev (map k ?xs))"
    using assms(1) by (simp_all add: rev_map distinct_map)
  have "x \<in> set ?xs" using assms(2) by simp
  then obtain n where n: "n < length ?xs" "?xs ! n = x" by (metis in_set_conv_nth)
  have "length (filter (\<lambda>y. k x \<le> k y) ?xs) = Suc n" using count_ge_sorted_desc [OF d(2,1) n(1)] n(2) by simp
  moreover have "mset (filter (\<lambda>y. k x \<le> k y) ?xs) = mset (filter (\<lambda>y. k x \<le> k y) rs)" by (simp add: mset_filter)
  ultimately have len: "length (filter (\<lambda>y. k x \<le> k y) rs) = Suc n" by (metis mset_eq_length)
  have "distinct ?xs" using d(1) by (simp add: distinct_map)
  then have "x \<in> set (take m ?xs) \<longleftrightarrow> n < m"
    using n by (auto simp: in_set_conv_nth nth_eq_iff_index_eq)
  then show ?thesis using len by auto
qed

lemma stat_key_distinct: "distinct (map stat_id rs) \<Longrightarrow> distinct (map stat_key rs)"
  by (auto simp: distinct_map inj_on_def)

lemma pruneStats_rank:
  assumes "distinct (map stat_id (request_stats t))" and "0 \<le> limit"
  shows "request_stats (pruneStats limit i t) =
    filter (\<lambda>r. stat_identity r = i \<longrightarrow> int (retention_rank (request_stats t) r) \<le> limit) (request_stats t)"
proof -
  let ?rs = "filter (\<lambda>r. stat_identity r = i) (request_stats t)"
  let ?top = "take (nat limit) (newest_first ?rs)"
  have d: "distinct (map stat_key ?rs)" using stat_key_distinct assms(1) by (simp add: distinct_map_filter)
  have "stat_id r \<in> stat_id ` set ?top \<longleftrightarrow> int (retention_rank (request_stats t) r) \<le> limit"
    if r: "r \<in> set (request_stats t)" "stat_identity r = i" for r
  proof -
    have "set ?top \<subseteq> set (request_stats t)" using set_take_subset [of "nat limit" "newest_first ?rs"]
      by (auto simp: newest_first_def)
    then have "stat_id r \<in> stat_id ` set ?top \<longleftrightarrow> r \<in> set ?top"
      using assms(1) r(1) by (auto dest: distinct_map_eqD)
    also have "\<dots> \<longleftrightarrow> length (filter (\<lambda>y. stat_key r \<le> stat_key y) ?rs) \<le> nat limit"
      using rank_take [OF d, of r "nat limit"] r by (simp add: newest_first_def)
    also have "length (filter (\<lambda>y. stat_key r \<le> stat_key y) ?rs) = retention_rank (request_stats t) r"
      using r(2) by (simp add: retention_rank_def count_rows_def conj_commute)
    finally show ?thesis using assms(2) by linarith
  qed
  then show ?thesis using assms(2)
    by (simp add: pruneStats_def sql_limit_def Let_def) (rule filter_cong; auto)
qed

lemma length_filter_mono_pred: "(\<And>x. x \<in> set xs \<Longrightarrow> P x \<Longrightarrow> Q x) \<Longrightarrow> length (filter P xs) \<le> length (filter Q xs)"
  by (induction xs) auto

lemma pruneStats_count:
  assumes "distinct (map stat_id (request_stats t))" and "0 \<le> limit"
  shows "int (count_rows (\<lambda>r. stat_identity r = i) (request_stats (pruneStats limit i t))) \<le> limit"
proof -
  let ?top = "map stat_id (take (nat limit) (newest_first (filter (\<lambda>r. stat_identity r = i) (request_stats t))))"
  let ?rs = "filter (\<lambda>r. stat_identity r = i) (request_stats (pruneStats limit i t))"
  have "set (map stat_id ?rs) \<subseteq> set ?top" using assms(2) by (auto simp: pruneStats_def sql_limit_def Let_def)
  then have "card (set (map stat_id ?rs)) \<le> length ?top" by (meson List.finite_set card_length card_mono order_trans)
  moreover have "distinct (map stat_id ?rs)"
    using assms by (simp add: pruneStats_rank distinct_map_filter)
  ultimately have "length ?rs \<le> nat limit" by (metis (no_types, lifting) distinct_card length_map length_take min.boundedE)
  then show ?thesis using assms(2) by (simp add: count_rows_def)
qed

text \<open>
  Recording a request keeps at most the configured number of statistics for its identity, and
  those are the newest: a dropped row of that identity is older than every kept one. The rows of
  other identities stay.
\<close>

theorem recordRequestStat_retention:
  assumes "recordRequestStat limit row t = Inr t'" and "distinct (map stat_id (request_stats t))" and "0 \<le> limit"
  shows "int (count_rows (\<lambda>r. stat_identity r = stat_identity row) (request_stats t')) \<le> limit \<and>
    (\<forall>r \<in> set (request_stats t) \<union> {row}. stat_identity r \<noteq> stat_identity row \<longrightarrow> r \<in> set (request_stats t')) \<and>
    (\<forall>r \<in> set (request_stats t) \<union> {row}. \<forall>q \<in> set (request_stats t').
       stat_identity r = stat_identity row \<and> r \<notin> set (request_stats t') \<and> stat_identity q = stat_identity row \<longrightarrow>
         stat_key r < stat_key q) \<and>
    distinct (map stat_id (request_stats t'))"
proof -
  let ?t = "t\<lparr>request_stats := request_stats t @ [row]\<rparr>" and ?i = "stat_identity row"
  have t': "t' = pruneStats limit ?i ?t" and d: "distinct (map stat_id (request_stats ?t))"
    using assms(1,2) by (auto simp: recordRequestStat_def exists_row_iff split: if_splits)
  note rank = pruneStats_rank [OF d assms(3), of ?i, folded t']
  have older: "stat_key r < stat_key q"
    if "stat_identity r = ?i" "stat_identity q = ?i" "int (retention_rank (request_stats ?t) q) \<le> limit"
      "\<not> int (retention_rank (request_stats ?t) r) \<le> limit" for r q
  proof (rule ccontr)
    assume "\<not> stat_key r < stat_key q"
    then have "retention_rank (request_stats ?t) r \<le> retention_rank (request_stats ?t) q"
      using that(1,2) unfolding retention_rank_def count_rows_def
      by (intro length_filter_mono_pred) (auto intro: order.trans simp: not_less)
    then show False using that(3,4) by linarith
  qed
  have "distinct (map stat_id (request_stats t'))" unfolding rank by (rule distinct_map_filter [OF d])
  then show ?thesis using pruneStats_count [OF d assms(3), of ?i, folded t'] older unfolding rank by auto
qed

definition example_stat :: "string \<Rightarrow> int \<Rightarrow> StatRow" where
  "example_stat k n = \<lparr>stat_id = k, stat_enterprise = ''default'', stat_identity = ''ada00'', stat_gh_login = None,
     stat_requested_at = n, stat_path = ''chat'', stat_model = None, stat_success = True, stat_failure = None,
     stat_input_tokens = None, stat_output_tokens = None, stat_cache_tokens = None, stat_cache_input_tokens = None,
     stat_cache_write_tokens = None, stat_caller = None, stat_lease = None\<rparr>"

theorem recordRequestStat_retention_witness:
  "\<exists>t'. recordRequestStat 1 (example_stat ''b'' 7) \<lparr>initializations = [], request_stats = [example_stat ''a'' 3]\<rparr> = Inr t' \<and>
     int (count_rows (\<lambda>r. stat_identity r = ''ada00'') (request_stats t')) \<le> 1"
proof -
  let ?t = "\<lparr>initializations = [], request_stats = [example_stat ''a'' 3]\<rparr>"
  obtain t' where t': "recordRequestStat 1 (example_stat ''b'' 7) ?t = Inr t'"
    by (simp add: recordRequestStat_def exists_row_iff example_stat_def)
  have "distinct (map stat_id (request_stats ?t))" by (simp add: example_stat_def)
  from recordRequestStat_retention [OF t' this] t' show ?thesis by (auto simp: example_stat_def)
qed

lemma rank_other_identity:
  assumes "\<And>q. q \<in> set rs \<Longrightarrow> stat_identity q = stat_identity r \<Longrightarrow> P q"
  shows "retention_rank (filter P rs) r = retention_rank rs r"
  using assms unfolding retention_rank_def count_rows_def filter_filter by (intro arg_cong [where f = length] filter_cong) auto

lemma fold_pruneStats:
  assumes "distinct is" and "distinct (map stat_id (request_stats t))" and "0 \<le> limit"
  shows "request_stats (fold (pruneStats limit) is t) =
    filter (\<lambda>r. stat_identity r \<in> set is \<longrightarrow> int (retention_rank (request_stats t) r) \<le> limit) (request_stats t)"
  using assms
proof (induction "is" arbitrary: t)
  case (Cons i "is")
  let ?t = "pruneStats limit i t"
  have pr: "request_stats ?t = filter (\<lambda>r. stat_identity r = i \<longrightarrow> int (retention_rank (request_stats t) r) \<le> limit) (request_stats t)"
    by (rule pruneStats_rank [OF Cons.prems(2,3)])
  have "distinct (map stat_id (request_stats ?t))" unfolding pr using Cons.prems(2) by (simp add: distinct_map_filter)
  then have "request_stats (fold (pruneStats limit) is ?t) =
      filter (\<lambda>r. stat_identity r \<in> set is \<longrightarrow> int (retention_rank (request_stats ?t) r) \<le> limit) (request_stats ?t)"
    using Cons by simp
  also have "\<dots> = filter (\<lambda>r. stat_identity r \<in> set is \<longrightarrow> int (retention_rank (request_stats t) r) \<le> limit) (request_stats ?t)"
  proof -
    have "retention_rank (request_stats ?t) r = retention_rank (request_stats t) r" if "stat_identity r \<in> set is" for r
      unfolding pr using Cons.prems(1) that by (intro rank_other_identity) auto
    then show ?thesis by (intro filter_cong) auto
  qed
  finally have "request_stats (fold (pruneStats limit) (i # is) t) =
      filter (\<lambda>r. (stat_identity r = i \<longrightarrow> int (retention_rank (request_stats t) r) \<le> limit) \<and>
        (stat_identity r \<in> set is \<longrightarrow> int (retention_rank (request_stats t) r) \<le> limit)) (request_stats t)"
    unfolding pr filter_filter by simp
  also have "\<dots> = filter (\<lambda>r. stat_identity r \<in> set (i # is) \<longrightarrow> int (retention_rank (request_stats t) r) \<le> limit) (request_stats t)"
    by (rule filter_cong) auto
  finally show ?case .
qed simp

text \<open>
  Pruning all statistics in one statement does exactly what pruning every identity on its own,
  in any order, does.
\<close>

theorem pruneAll_is_each_prune:
  assumes "distinct (map stat_id (request_stats t))" and "0 \<le> limit" and "distinct ids"
    and "stat_identity ` set (request_stats t) \<subseteq> set ids"
  shows "request_stats (pruneAllRequestStats limit t) = request_stats (fold (pruneStats limit) ids t)"
  unfolding fold_pruneStats [OF assms(3,1,2)] using assms(4)
  by (simp add: pruneAllRequestStats_def not_less) (rule filter_cong; auto)

theorem pruneAll_is_each_prune_witness:
  "request_stats (pruneAllRequestStats 1 \<lparr>initializations = [], request_stats = [example_stat ''a'' 3, example_stat ''b'' 7]\<rparr>) =
   request_stats (fold (pruneStats 1) [''ada00''] \<lparr>initializations = [], request_stats = [example_stat ''a'' 3, example_stat ''b'' 7]\<rparr>)"
  by (rule pruneAll_is_each_prune) (simp_all add: example_stat_def)

end
