(* ===== verification/Pool_Machine.thy ===== *)
theory Pool_Machine
  imports Pool_Policy Proxy_Accounts
begin

text \<open>
  The pool as a state machine. A state is the database, the set of UUIDs drawn so far and the clock;
  a step is one operation of the store, run by any request or worker in any order, at a time that
  does not go back. \<open>randomUUID\<close> is modelled by the freshness of the identifiers of a step.
\<close>

section \<open>Extensions by an admission\<close>

definition extends :: "string \<Rightarrow> string \<Rightarrow> store \<Rightarrow> store \<Rightarrow> bool" where
  "extends lid rid s s' \<longleftrightarrow>
     (\<exists>ks. leases s' = leases s @ ks \<and> (\<forall>k \<in> set ks. lease_id k = lid)) \<and>
     (\<exists>hs. holds s' = holds s @ hs \<and> (\<forall>h \<in> set hs. h_request_id h = rid)) \<and>
     (\<exists>cs. catalog_holds s' = catalog_holds s @ cs \<and> (\<forall>c \<in> set cs. c_request_id c = rid \<and> c_lease_id c = lid)) \<and>
     members s' = members s \<and> accounts s' = accounts s \<and> enterprises s' = enterprises s"

lemma extends_refl: "extends lid rid s s"
  by (simp add: extends_def)

lemma extends_trans: "extends lid rid s t \<Longrightarrow> extends lid rid t u \<Longrightarrow> extends lid rid s u"
  by (auto simp: extends_def)

lemma hold_extends:
  "hold now rid L kd tmo s = Inr (H, s') \<Longrightarrow> kd = KindCatalog \<longrightarrow> lease_id L = lid \<Longrightarrow> extends lid rid s s'"
  by (auto simp: hold_def Let_def extends_def split: option.splits if_splits)

lemma insertLease_extends: "insertLease now cfg lid c mem s = Inr (L, s') \<Longrightarrow> extends lid rid s s'"
  by (auto simp: insertLease_def Let_def extends_def split: prod.splits if_splits)

lemma acquire_body_extends:
  "acquire_body now cfg sha256 lid rid c tmo s = Inr (H, s') \<Longrightarrow> extends lid rid s s'"
  by (auto simp: acquire_body_def res_bind_Inr split: option.splits if_splits
      intro: hold_extends extends_trans [OF insertLease_extends hold_extends])

lemma acquireCatalog_body_extends:
  "acquireCatalog_body now cfg sha256 lid rid c s = Inr (H, s') \<Longrightarrow> extends lid rid s s'"
  by (auto simp: acquireCatalog_body_def res_bind_Inr split: option.splits if_splits intro: hold_extends)

lemma admit_extends:
  assumes "\<And>H s'. acq (reclaim now s) = Inr (H, s') \<Longrightarrow> extends lid rid (reclaim now s) s'"
  shows "\<exists>t. frame s t \<and> extends lid rid t (snd (admit now acq s))"
proof -
  have "\<exists>t. (t = s \<or> t = reclaim now s) \<and> extends lid rid t (snd (admit now acq s))"
    using assms by (auto simp: admit_def Let_def extends_refl split: sum.split prod.split pool_error.split)
  then show ?thesis using frame_refl frame_reclaim by blast
qed

lemma acquire_extends:
  "\<exists>t. frame s t \<and> extends lid rid t (snd (acquire now cfg sha256 lid rid c aborted override s))"
proof -
  have "\<exists>t. frame s t \<and> extends lid rid t (snd (admit now (acquire_body now cfg sha256 lid rid c tmo) s))" for tmo
    by (rule admit_extends) (rule acquire_body_extends)
  moreover have "\<exists>t. frame s t \<and> extends lid rid t s" using frame_refl extends_refl by blast
  ultimately show ?thesis by (auto simp: acquire_def split: sum.split)
qed

lemma acquireCatalog_extends:
  "\<exists>t. frame s t \<and> extends lid rid t (snd (acquireCatalog now cfg sha256 lid rid c aborted s))"
proof -
  have "\<exists>t. frame s t \<and> extends lid rid t (snd (admit now (acquireCatalog_body now cfg sha256 lid rid c) s))"
    by (rule admit_extends) (rule acquireCatalog_body_extends)
  moreover have "\<exists>t. frame s t \<and> extends lid rid t s" using frame_refl extends_refl by blast
  ultimately show ?thesis by (auto simp: acquireCatalog_def split: sum.split)
qed

lemma heldRow_extends:
  assumes "extends lid rid s s'" and "refs_inv s" and "request_id held \<noteq> rid"
  shows "heldRow s' held = heldRow s held"
proof -
  obtain ks hs cs where ext: "leases s' = leases s @ ks" "holds s' = holds s @ hs" "catalog_holds s' = catalog_holds s @ cs"
    "\<forall>h \<in> set hs. h_request_id h = rid" "\<forall>c \<in> set cs. c_request_id c = rid"
    using assms(1) unfolding extends_def by blast
  have "List.find (\<lambda>h. h_request_id h = request_id held \<and> h_lease_id h = lease_id held) (holds s') =
      List.find (\<lambda>h. h_request_id h = request_id held \<and> h_lease_id h = lease_id held) (holds s)"
    unfolding ext(2) using ext(4) assms(3) by (intro find_append_miss) auto
  moreover have "List.find (\<lambda>c. c_request_id c = request_id held \<and> c_lease_id c = lease_id held) (catalog_holds s') =
      List.find (\<lambda>c. c_request_id c = request_id held \<and> c_lease_id c = lease_id held) (catalog_holds s)"
    unfolding ext(3) using ext(5) assms(3) by (intro find_append_miss) auto
  moreover have "List.find (\<lambda>l. lease_id l = h_lease_id h) (leases s') = List.find (\<lambda>l. lease_id l = h_lease_id h) (leases s)"
    if h: "h \<in> set (holds s)" for h
  proof -
    obtain l where "l \<in> set (leases s)" "lease_id l = h_lease_id h"
      using refs_hold [OF assms(2) h] by (metis imageE)
    then have "List.find (\<lambda>l. lease_id l = h_lease_id h) (leases s) \<noteq> None" unfolding find_None_mem by blast
    then show ?thesis unfolding ext(1) find_append by (cases "List.find (\<lambda>l. lease_id l = h_lease_id h) (leases s)") simp_all
  qed
  moreover have "h \<in> set (holds s)"
    if "List.find (\<lambda>h. h_request_id h = request_id held \<and> h_lease_id h = lease_id held) (holds s) = Some h" for h
    using find_Some_mem [OF that] by blast
  ultimately show ?thesis unfolding heldRow_def
    by (cases "List.find (\<lambda>h. h_request_id h = request_id held \<and> h_lease_id h = lease_id held) (holds s)") simp_all
qed

lemma revoked_extends:
  assumes "extends lid rid s s'" and "refs_inv s" and "request_id held \<noteq> rid" and "revoked s held"
  shows "revoked s' held"
  using assms heldRow_extends [OF assms(1,2,3)]
  by (simp add: revoked_def inventory_row_def extends_def split: option.splits)

lemma heldRow_cong:
  assumes "leases s' = leases s" "holds s' = holds s" "catalog_holds s' = catalog_holds s"
  shows "heldRow s' held = heldRow s held"
  unfolding heldRow_def assms ..

lemma revoked_grew:
  assumes "grew s s' xs" and "store_inv s" and "revoked s held"
  shows "revoked s' held"
proof -
  have row: "heldRow s' held = heldRow s held" using assms(1) by (intro heldRow_cong) (simp_all add: grew_def)
  have "inventory_row s' i = inventory_row s i" if "inventory_row s i \<noteq> None" for i
    using that assms(1) by (auto simp: grew_def inventory_row_def find_append split: option.split)
  moreover have "inventory_row s (r_member r) \<noteq> None" if "heldRow s held = Some r" for r
  proof -
    have refs: "refs_inv s" using assms(2) by (simp add: store_inv_def)
    show ?thesis using that refs_lease [OF refs] refs_catalog [OF refs]
      by (auto simp: heldRow_def inventory_row_None split: option.splits if_splits dest!: find_Some_mem) metis+
  qed
  ultimately show ?thesis using assms(3) row by (auto simp: revoked_def split: option.splits)
qed

section \<open>Steps\<close>

record world =
  db :: store
  used :: "string set"
  clock :: int

definition tick :: "int \<Rightarrow> store \<Rightarrow> world \<Rightarrow> world" where
  "tick now s w = w\<lparr>db := s, clock := now\<rparr>"

definition draw :: "string set \<Rightarrow> world \<Rightarrow> world" where
  "draw ids w = w\<lparr>used := used w \<union> ids\<rparr>"

inductive step :: "PoolConfig \<Rightarrow> (string \<Rightarrow> string) \<Rightarrow> string list \<Rightarrow> world \<Rightarrow> world \<Rightarrow> bool"
  for cfg :: PoolConfig and sha256 :: "string \<Rightarrow> string" and catalog :: "string list" where
  step_acquire: "clock w \<le> now \<Longrightarrow> {lid, rid} \<inter> used w = {} \<Longrightarrow>
    step cfg sha256 catalog w (draw {lid, rid} (tick now (snd (acquire now cfg sha256 lid rid c ab override (db w))) w))"
| step_acquireCatalog: "clock w \<le> now \<Longrightarrow> {lid, rid} \<inter> used w = {} \<Longrightarrow>
    step cfg sha256 catalog w (draw {lid, rid} (tick now (snd (acquireCatalog now cfg sha256 lid rid c ab (db w))) w))"
| step_finish: "clock w \<le> now \<Longrightarrow> step cfg sha256 catalog w (tick now (finish now (held :: HeldLease) ok (db w)) w)"
| step_recover: "clock w \<le> now \<Longrightarrow>
    step cfg sha256 catalog w (tick now (snd (recoverUnauthorized now u (held :: HeldLease) token (db w))) w)"
| step_quarantine: "clock w \<le> now \<Longrightarrow> step cfg sha256 catalog w (tick now (snd (quarantine now i code h (db w))) w)"
| step_cool: "clock w \<le> now \<Longrightarrow> step cfg sha256 catalog w (tick now (snd (transaction (cool now i secs h) (db w))) w)"
| step_release: "clock w \<le> now \<Longrightarrow> step cfg sha256 catalog w (tick now (snd (transaction (release now lid) (db w))) w)"
| step_reclaim: "clock w \<le> now \<Longrightarrow> step cfg sha256 catalog w (tick now (reclaim now (db w)) w)"
| step_counts: "clock w \<le> now \<Longrightarrow> step cfg sha256 catalog w (tick now (snd (counts now x (db w))) w)"
| step_update: "clock w \<le> now \<Longrightarrow> step cfg sha256 catalog w (tick now (snd (update now i patch fence ow (db w))) w)"
| step_pending: "clock w \<le> now \<Longrightarrow> step cfg sha256 catalog w (tick now (snd (pending now cfg excluded (db w))) w)"
| step_fail: "clock w \<le> now \<Longrightarrow> step cfg sha256 catalog w (tick now (fail now i code fence ow term (db w)) w)"
| step_disable: "clock w \<le> now \<Longrightarrow> step cfg sha256 catalog w (tick now (snd (transaction (disable now u i) (db w))) w)"
| step_retry: "clock w \<le> now \<Longrightarrow> step cfg sha256 catalog w (tick now (snd (transaction (retry now u i) (db w))) w)"
| step_credential: "clock w \<le> now \<Longrightarrow>
    step cfg sha256 catalog w (tick now (snd (mutateWorkerCredential now i rf x mut (db w))) w)"
| step_claimLogin: "clock w \<le> now \<Longrightarrow>
    step cfg sha256 catalog w (tick now (snd (transaction (claimLoginDispatch now i rf x limit) (db w))) w)"
| step_releaseLogin: "clock w \<le> now \<Longrightarrow>
    step cfg sha256 catalog w (tick now (snd (releaseLoginReservation now i row x outcome (db w))) w)"
| step_claimOwner: "clock w \<le> now \<Longrightarrow> step cfg sha256 catalog w (tick now (snd (claimOwner now x (db w))) w)"
| step_renewOwner: "clock w \<le> now \<Longrightarrow> step cfg sha256 catalog w (tick now (snd (renewOwner now x (db w))) w)"
| step_releaseOwner: "clock w \<le> now \<Longrightarrow> step cfg sha256 catalog w (tick now (releaseOwner x (db w)) w)"
| step_settings: "clock w \<le> now \<Longrightarrow>
    step cfg sha256 catalog w (tick now (snd (transaction (updateSettings now v patch') (db w))) w)"
| step_policy: "clock w \<le> now \<Longrightarrow>
    step cfg sha256 catalog w (tick now (snd (transaction (updateEnterprisePolicy now x v patch') (db w))) w)"
| step_reserve: "clock w \<le> now \<Longrightarrow> step cfg sha256 catalog w (tick now (snd (reserve now catalog uuid ids (db w))) w)"
| step_reserveDeficit: "clock w \<le> now \<Longrightarrow>
    step cfg sha256 catalog w (tick now (snd (reserveDeficit now catalog uuid x ids (db w))) w)"
| step_createAccount: "clock w \<le> now \<Longrightarrow>
    step cfg sha256 catalog w (tick now (snd (transaction (createAccount now a) (db w))) w)"
| step_importToken: "clock w \<le> now \<Longrightarrow>
    step cfg sha256 catalog w (tick now (snd (transaction (importCopilotOauthToken now a token) (db w))) w)"
| step_saveToken: "clock w \<le> now \<Longrightarrow>
    step cfg sha256 catalog w (tick now (snd (saveCopilotOauthToken now i oauth token login (db w))) w)"
| step_markStatus: "clock w \<le> now \<Longrightarrow> step cfg sha256 catalog w (tick now (markCopilotOauthStatus now i st (db w)) w)"
| step_beginOauth: "clock w \<le> now \<Longrightarrow>
    step cfg sha256 catalog w (tick now (snd (beginCopilotOauthAuthorization now i oauth expected (db w))) w)"
| step_failOauth: "clock w \<le> now \<Longrightarrow>
    step cfg sha256 catalog w (tick now (snd (failCopilotOauthAuthorization now i oauth (db w))) w)"
| step_invalidate: "clock w \<le> now \<Longrightarrow>
    step cfg sha256 catalog w (tick now (snd (invalidateCopilotOauthToken now i token st (db w))) w)"
| step_deleteAccount: "clock w \<le> now \<Longrightarrow>
    step cfg sha256 catalog w (tick now (fst (snd (deleteAccount i (db w, t)))) w)"
| step_deleteBySso: "clock w \<le> now \<Longrightarrow>
    step cfg sha256 catalog w (tick now (fst (snd (deleteAccountsBySsoUser x u (db w, t)))) w)"

text \<open>The identifiers of leases and requests in the tables have all been drawn.\<close>

definition ids_of :: "store \<Rightarrow> string set" where
  "ids_of s = lease_id ` set (leases s) \<union> h_request_id ` set (holds s) \<union> c_request_id ` set (catalog_holds s) \<union>
     c_lease_id ` set (catalog_holds s)"

definition world_inv :: "world \<Rightarrow> bool" where
  "world_inv w \<longleftrightarrow> store_inv (db w) \<and> ids_of (db w) \<subseteq> used w"

text \<open>
  How one step may change the database: it narrows it, extends it by one admission, grows the
  inventory, or edits the enterprises.
\<close>

definition narrowed :: "world \<Rightarrow> world \<Rightarrow> bool" where
  "narrowed w w' \<longleftrightarrow> frame (db w) (db w') \<and> used w' = used w"

definition extended :: "world \<Rightarrow> world \<Rightarrow> bool" where
  "extended w w' \<longleftrightarrow> (\<exists>t lid rid. frame (db w) t \<and> extends lid rid t (db w') \<and> {lid, rid} \<inter> used w = {} \<and>
     used w' = used w \<union> {lid, rid} \<and> (store_inv (db w) \<longrightarrow> ids_of (db w) \<subseteq> used w \<longrightarrow> store_inv (db w')))"

definition replenishing :: "world \<Rightarrow> world \<Rightarrow> bool" where
  "replenishing w w' \<longleftrightarrow> used w' = used w \<and>
     (store_inv (db w) \<longrightarrow> store_inv (db w') \<and> (\<exists>t xs. frame (db w) t \<and> grew t (db w') xs))"

definition edited :: "world \<Rightarrow> world \<Rightarrow> bool" where
  "edited w w' \<longleftrightarrow> used w' = used w \<and> members (db w') = members (db w) \<and> leases (db w') = leases (db w) \<and>
     holds (db w') = holds (db w) \<and> catalog_holds (db w') = catalog_holds (db w) \<and>
     (store_inv (db w) \<longrightarrow> store_inv (db w'))"

lemma tick_fields [simp]: "db (tick now s w) = s" "used (tick now s w) = used w" "clock (tick now s w) = now"
  by (simp_all add: tick_def)

lemma draw_fields [simp]: "db (draw ids w) = db w" "used (draw ids w) = used w \<union> ids" "clock (draw ids w) = clock w"
  by (simp_all add: draw_def)

lemma fresh_ids:
  assumes "ids_of s \<subseteq> U" and "{lid, rid} \<inter> U = {}"
  shows "fresh_lease lid rid s" "fresh_catalog lid rid s"
  using assms by (auto simp: ids_of_def fresh_lease_def fresh_catalog_def)

lemma extended_acquire:
  "{lid, rid} \<inter> used w = {} \<Longrightarrow>
     extended w (draw {lid, rid} (tick now (snd (acquire now cfg sha256 lid rid c ab override (db w))) w))"
  using acquire_extends [of "db w" lid rid now cfg sha256 c ab override] acquire.keeps_inv fresh_ids(1)
  unfolding extended_def by (metis tick_fields(1,2) draw_fields(1,2))

lemma extended_acquireCatalog:
  "{lid, rid} \<inter> used w = {} \<Longrightarrow>
     extended w (draw {lid, rid} (tick now (snd (acquireCatalog now cfg sha256 lid rid c ab (db w))) w))"
  using acquireCatalog_extends [of "db w" lid rid now cfg sha256 c ab] acquireCatalog.keeps_inv fresh_ids(2)
  unfolding extended_def by (metis tick_fields(1,2) draw_fields(1,2))

lemma edited_policy: "edited w (tick now (snd (transaction (updateEnterprisePolicy now x v patch) (db w))) w)"
proof (cases "updateEnterprisePolicy now x v patch (db w)")
  case (Inr r)
  obtain row s' where r: "r = (row, s')" by (cases r)
  note ok = Inr [unfolded r]
  obtain rows' f where "s' = recordEvent now f ((db w)\<lparr>enterprises := rows'\<rparr>)"
    using updateEnterprisePolicy_edit [OF ok] by blast
  then have "members s' = members (db w) \<and> leases s' = leases (db w) \<and> holds s' = holds (db w) \<and>
      catalog_holds s' = catalog_holds (db w)" by (simp add: recordEvent_def Let_def)
  then show ?thesis using ok updateEnterprisePolicy_inv [OF _ ok] by (simp add: edited_def transaction_def)
qed (simp add: edited_def transaction_def)

lemma replenishingI:
  assumes "store_inv (db w) \<Longrightarrow> store_inv s' \<and> (s' = db w \<or> (\<exists>xs. grew (reclaim now (db w)) s' xs))"
  shows "replenishing w (tick now s' w)"
proof -
  have "\<exists>t xs. frame (db w) t \<and> grew t s' xs" if "s' = db w \<or> (\<exists>xs. grew (reclaim now (db w)) s' xs)"
    using that frame_refl grew_refl frame_reclaim by blast
  then show ?thesis using assms by (simp add: replenishing_def)
qed

lemma replenishing_reserveDeficit: "replenishing w (tick now (snd (reserveDeficit now catalog uuid x ids (db w))) w)"
proof (rule replenishingI)
  assume inv: "store_inv (db w)"
  show "store_inv (snd (reserveDeficit now catalog uuid x ids (db w))) \<and>
    (snd (reserveDeficit now catalog uuid x ids (db w)) = db w \<or>
      (\<exists>xs. grew (reclaim now (db w)) (snd (reserveDeficit now catalog uuid x ids (db w))) xs))"
  proof (cases "eligibleEnterprises ids")
    case (Inr elig)
    obtain k s' where "reserveDeficit_body now catalog uuid x elig (db w) = Inr (int k, s')" "store_inv s'"
      "s' = db w \<and> k = 0 \<or> matchesOwner now (db w) (Some x) \<and> replenished now elig (db w) s' k"
      using reserveDeficit_body_spec [OF inv, of now catalog uuid x elig] by blast
    moreover from this have "snd (reserveDeficit now catalog uuid x ids (db w)) = s'"
      using Inr by (simp add: reserveDeficit_def transaction_def)
    ultimately show ?thesis unfolding replenished_def by auto
  qed (simp add: reserveDeficit_def inv)
qed

lemma reserve_store:
  assumes "store_inv s"
  shows "store_inv (snd (reserve now catalog uuid ids s)) \<and>
    (snd (reserve now catalog uuid ids s) = s \<or> (\<exists>xs. grew (reclaim now s) (snd (reserve now catalog uuid ids s)) xs))"
proof (cases "eligibleEnterprises ids")
  case (Inr elig)
  have inv1: "store_inv (reclaim now s)" by (rule reclaim.keeps_inv [OF assms])
  obtain plan where plan: "planBatch now elig 1 s = Inr (plan, reclaim now s)"
    "set plan \<subseteq> elig \<inter> se_id ` {e \<in> set (enterprises s). isActive e}"
    using planBatch_spec [OF assms, of now elig 1] by (elim exE conjE) rule
  show ?thesis
  proof (cases plan)
    case Nil
    then show ?thesis using Inr plan(1) inv1 grew_refl by (auto simp: reserve_def transaction_def)
  next
    case (Cons x xs)
    then have "x \<in> se_id ` set (enterprises (reclaim now s))" using plan(2) by auto
    from reserveCandidate_spec [OF inv1 this, of now catalog uuid] obtain r s' where
      r: "reserveCandidate now catalog uuid x (reclaim now s) = Inr (r, s')" "candidate_result (reclaim now s) x (r, s')"
      by (metis surj_pair)
    then have "store_inv s'" "\<exists>xs. grew (reclaim now s) s' xs" by (auto simp: candidate_result_def split: sum.splits)
    moreover have "snd (reserve now catalog uuid ids s) = s'"
      using Inr plan(1) Cons r(1) by (cases r) (simp_all add: reserve_def transaction_def)
    ultimately show ?thesis by simp
  qed
qed (simp add: reserve_def assms)

lemma replenishing_reserve: "replenishing w (tick now (snd (reserve now catalog uuid ids (db w))) w)"
  by (rule replenishingI) (rule reserve_store)

lemma step_kinds:
  assumes "step cfg sha256 catalog w w'"
  shows "narrowed w w' \<or> extended w w' \<or> replenishing w w' \<or> edited w w'"
  using assms
proof cases
  case (step_acquire now lid rid c ab override)
  have "extended w w'" unfolding step_acquire(1) by (rule extended_acquire [OF step_acquire(3)])
  then show ?thesis by simp
next
  case (step_acquireCatalog now lid rid c ab)
  have "extended w w'" unfolding step_acquireCatalog(1) by (rule extended_acquireCatalog [OF step_acquireCatalog(3)])
  then show ?thesis by simp
next
  case (step_policy now x v patch')
  then show ?thesis by (simp add: edited_policy)
next
  case (step_reserve now uuid ids)
  then show ?thesis by (simp add: replenishing_reserve)
next
  case (step_reserveDeficit now uuid x ids)
  then show ?thesis by (simp add: replenishing_reserveDeficit)
qed (simp_all add: narrowed_def finish.narrows recoverUnauthorized.narrows quarantine.narrows cool.narrows release.narrows
  reclaim.narrows counts.narrows update.narrows pending.narrows fail.narrows disable.narrows retry.narrows
  mutateWorkerCredential.narrows claimLoginDispatch.narrows releaseLoginReservation.narrows claimOwner.narrows
  renewOwner.narrows releaseOwner.narrows updateSettings.narrows createAccount.narrows importCopilotOauthToken.narrows
  saveCopilotOauthToken.narrows markCopilotOauthStatus.narrows beginCopilotOauthAuthorization.narrows
  failCopilotOauthAuthorization.narrows invalidateCopilotOauthToken.narrows deleteAccount.narrows
  deleteAccountsBySsoUser.narrows)

section \<open>Invariants of every run\<close>

lemma ids_of_frame: "frame s t \<Longrightarrow> ids_of t \<subseteq> ids_of s"
proof -
  assume f: "frame s t"
  have "lease_id ` set (leases t) \<subseteq> lease_id ` set (leases s)"
  proof (rule image_subsetI)
    fix l assume "l \<in> set (leases t)"
    then obtain k where "k \<in> set (leases s)" "lease_key k = lease_key l" using frame_lease_back [OF f] by blast
    then show "lease_id l \<in> lease_id ` set (leases s)" by (metis imageI lease_key_def prod.inject)
  qed
  then show ?thesis unfolding ids_of_def
    using image_mono [OF frame_hold_back [OF f]] image_mono [OF frame_catalog_back [OF f]] by (intro Un_mono)
qed

lemma ids_of_extends: "extends lid rid s t \<Longrightarrow> ids_of t \<subseteq> ids_of s \<union> {lid, rid}"
  unfolding extends_def ids_of_def by fastforce

lemma world_inv_step:
  assumes "step cfg sha256 catalog w w'" and "world_inv w"
  shows "world_inv w'"
  using step_kinds [OF assms(1)]
proof (elim disjE)
  assume "narrowed w w'"
  then show ?thesis using assms(2) frame_inv [of "db w" "db w'"] ids_of_frame [of "db w" "db w'"]
    by (simp add: world_inv_def narrowed_def) blast
next
  assume "extended w w'"
  then obtain t lid rid where e: "frame (db w) t" "extends lid rid t (db w')" "used w' = used w \<union> {lid, rid}" "store_inv (db w')"
    using assms(2) unfolding extended_def world_inv_def by blast
  then show ?thesis using assms(2) ids_of_frame [OF e(1)] ids_of_extends [OF e(2)]
    unfolding world_inv_def e(3) by blast
next
  assume "replenishing w w'"
  then obtain t xs where e: "store_inv (db w')" "frame (db w) t" "grew t (db w') xs" "used w' = used w"
    using assms(2) unfolding replenishing_def world_inv_def by blast
  then have "ids_of (db w') = ids_of t" by (simp add: grew_def ids_of_def)
  then show ?thesis using assms(2) ids_of_frame [OF e(2)] e(1,4) unfolding world_inv_def by blast
next
  assume "edited w w'"
  then show ?thesis using assms(2) by (simp add: edited_def world_inv_def ids_of_def)
qed

lemma revoked_step:
  assumes "step cfg sha256 catalog w w'" and "world_inv w" and "request_id held \<in> used w" and "revoked (db w) held"
  shows "revoked (db w') held"
  using step_kinds [OF assms(1)]
proof (elim disjE)
  have keys: "keys_inv (db w)" "store_inv (db w)" using assms(2) by (simp_all add: world_inv_def store_inv_def)
  {
    assume "narrowed w w'"
    then show ?thesis using revoked_frame [OF _ keys(1) assms(4)] by (simp add: narrowed_def)
  next
    assume "extended w w'"
    then obtain t lid rid where e: "frame (db w) t" "extends lid rid t (db w')" "{lid, rid} \<inter> used w = {}"
      unfolding extended_def by blast
    have "refs_inv t" using frame_inv [OF e(1) keys(2)] by (simp add: store_inv_def)
    moreover have "request_id held \<noteq> rid" using e(3) assms(3) by blast
    ultimately show ?thesis using revoked_extends [OF e(2)] revoked_frame [OF e(1) keys(1) assms(4)] by blast
  next
    assume "replenishing w w'"
    then obtain t xs where e: "frame (db w) t" "grew t (db w') xs" using keys(2) unfolding replenishing_def by blast
    show ?thesis using revoked_grew [OF e(2) frame_inv [OF e(1) keys(2)]] revoked_frame [OF e(1) keys(1) assms(4)] by blast
  next
    assume e: "edited w w'"
    then have "inventory_row (db w') i = inventory_row (db w) i" for i by (simp add: edited_def inventory_row_def)
    moreover have "heldRow (db w') held = heldRow (db w) held" using e by (intro heldRow_cong) (simp_all add: edited_def)
    ultimately show ?thesis using assms(4) by (cases "heldRow (db w) held") (simp_all add: revoked_def)
  }
qed

lemma used_step: "step cfg sha256 catalog w w' \<Longrightarrow> used w \<subseteq> used w'"
  using step_kinds by (fastforce simp: narrowed_def extended_def replenishing_def edited_def)

lemma step_clock: "step cfg sha256 catalog w w' \<Longrightarrow> clock w \<le> clock w'"
  by (induction rule: step.induct) simp_all

definition run :: "PoolConfig \<Rightarrow> (string \<Rightarrow> string) \<Rightarrow> string list \<Rightarrow> world \<Rightarrow> world \<Rightarrow> bool" where
  "run cfg sha256 catalog = (step cfg sha256 catalog)\<^sup>*\<^sup>*"

text \<open>
  The pool after \<open>createTables\<close> in an empty database: the configured settings and the enterprises that
  the start registered, without members.
\<close>

definition initial_store :: "PoolConfig \<Rightarrow> EnterpriseRow list \<Rightarrow> store" where
  "initial_store cfg rows = \<lparr>members = [], accounts = [], leases = [], holds = [], catalog_holds = [], cooldowns = [],
     enterprises = rows, settings = \<lparr>idle_target = idleTarget cfg, lease_seconds = leaseSeconds cfg, paused = 0,
       version = 1, next_ordinal = 0, owner = None, owner_until = 0\<rparr>, events = [], event_seq = 0, selections = 0\<rparr>"

definition initial_world :: "PoolConfig \<Rightarrow> EnterpriseRow list \<Rightarrow> int \<Rightarrow> world" where
  "initial_world cfg rows t0 = \<lparr>db = initial_store cfg rows, used = {}, clock = t0\<rparr>"

definition registered :: "EnterpriseRow list \<Rightarrow> bool" where
  "registered rows \<longleftrightarrow> enterprises_ok rows \<and> (\<forall>e \<in> set rows. inventory_count e = 0)"

lemma world_inv_initial: "registered rows \<Longrightarrow> world_inv (initial_world cfg rows t0)"
  by (auto simp: world_inv_def initial_world_def initial_store_def store_inv_def keys_inv_def refs_inv_def
      inventory_inv_def generations_inv_def exclusive_def bindings_def lease_bindings_def catalog_bindings_def
      ids_of_def registered_def member_count_def count_rows_def NAME_CAPACITY_def NAME_BASE_COUNT_def NAME_SUFFIX_COUNT_def)

lemma run_induct [consumes 1, case_names start step]:
  assumes "run cfg sha256 catalog w w'" and "P w"
    and "\<And>u v. run cfg sha256 catalog w u \<Longrightarrow> step cfg sha256 catalog u v \<Longrightarrow> P u \<Longrightarrow> P v"
  shows "P w'"
  using assms(1) unfolding run_def
proof (induction rule: rtranclp_induct)
  case base
  show ?case by (rule assms(2))
next
  case (step u v)
  then show ?case using assms(3) unfolding run_def by blast
qed

lemma world_inv_run: "run cfg sha256 catalog w w' \<Longrightarrow> world_inv w \<Longrightarrow> world_inv w'"
  by (induction rule: run_induct) (auto intro: world_inv_step)

lemma used_run: "run cfg sha256 catalog w w' \<Longrightarrow> used w \<subseteq> used w'"
  by (induction rule: run_induct) (auto dest: used_step)

lemma revoked_run:
  assumes "run cfg sha256 catalog w w'" and "world_inv w" and "request_id held \<in> used w" and "revoked (db w) held"
  shows "revoked (db w') held"
  using assms(1)
proof (induction rule: run_induct)
  case (step u v)
  have "world_inv u" "request_id held \<in> used u"
    using world_inv_run [OF step(1) assms(2)] used_run [OF step(1)] assms(3) by blast+
  then show ?case using revoked_step [OF step(2)] step(3) by blast
qed (rule assms(4))

text \<open>A report of a revoked hold changes nothing but the hold itself and what reclamation does anyway.\<close>

lemma revoked_reports:
  assumes "revoked s held"
  shows "\<not> heartbeat now s held" "finish_renew now held success s = s"
    "recoverUnauthorized now u held token s = (False, s)" "quarantine now i code (Some held) s = (False, s)"
    "q > 0 \<Longrightarrow> cool now i (Some q) (Some held) s = Inr (False, s)"
  using revoked_not_current [OF assms, of now]
  by (auto simp: heartbeat_def finish_renew_def recoverUnauthorized_def quarantine_def cool_def held_ok_def
      split: option.split)

section \<open>Properties\<close>

text \<open>
  C1. In every run of the pool, whatever the order of its operations: no two callers are bound to the
  same member and no caller to two members, every hold belongs to a lease and every lease to a
  member, every member has a Proxy account of its own enterprise, names and ordinals are never given twice, every enterprise's counter is the number of its
  members, and the caps together fit the name catalog.
\<close>

theorem pool_run_invariant:
  assumes "run cfg sha256 catalog (initial_world cfg rows t0) w" and "registered rows"
  shows "exclusive (bindings (db w)) \<and>
    h_lease_id ` set (holds (db w)) \<subseteq> lease_id ` set (leases (db w)) \<and>
    member_identity ` set (leases (db w)) \<subseteq> identity ` set (members (db w)) \<and>
    (\<forall>m \<in> set (members (db w)). \<exists>a \<in> set (accounts (db w)). a_identity a = identity m \<and> a_enterprise a = enterprise_id m) \<and>
    distinct (map a_identity (accounts (db w))) \<and>
    distinct (map identity (members (db w))) \<and> distinct (map ordinal (members (db w))) \<and>
    (\<forall>e \<in> set (enterprises (db w)). inventory_count e = member_count (members (db w)) (se_id e)) \<and>
    (\<Sum>e\<leftarrow>enterprises (db w). max_accounts e) \<le> NAME_CAPACITY"
proof -
  have inv: "store_inv (db w)" using world_inv_run [OF assms(1) world_inv_initial [OF assms(2)]] by (simp add: world_inv_def)
  then have "refs_inv (db w)" by (simp add: store_inv_def)
  then have "\<exists>a \<in> set (accounts (db w)). a_identity a = identity m \<and> a_enterprise a = enterprise_id m"
    if "m \<in> set (members (db w))" for m
    using refs_account [OF _ that] by (auto simp: account_keys_def)
  then show ?thesis using inv by (simp add: store_inv_def keys_inv_def refs_inv_def inventory_inv_def enterprises_ok_def)
qed

definition example_enterprises :: "EnterpriseRow list" where
  "example_enterprises = [\<lparr>se_id = ''default'', se_state = Active, max_accounts = 100, inventory_count = 0,
     policy_version = 1, profile_fingerprint = ''f'', e_created_at = 0, e_updated_at = 0\<rparr>]"

lemma registered_example: "registered example_enterprises"
  by (simp add: registered_def enterprises_ok_def example_enterprises_def enterprise_checks_def
      NAME_CAPACITY_def NAME_BASE_COUNT_def NAME_SUFFIX_COUNT_def)

lemma run_step: "step cfg sha256 catalog w w' \<Longrightarrow> run cfg sha256 catalog w w'"
  unfolding run_def by (rule r_into_rtranclp)

text \<open>
  A run of the example's pool: reserve a member, import its token, mark it ready, admit a caller.
\<close>

definition example_caller :: string where
  "example_caller = ''sha256:'' @ replicate 64 CHR ''0''"

definition example_start :: world where
  "example_start = initial_world (pool_defaults True) example_enterprises 0"

definition example_reserved :: world where
  "example_reserved = tick 5 (snd (reserve 5 [''ada''] (\<lambda>_. ''u'') (JArr [JStr ''default'']) (db example_start))) example_start"

definition example_imported :: world where
  "example_imported = tick 6 (snd (transaction (importCopilotOauthToken 6 \<lparr>in_identity = ''ada00'', in_enterprise = ''default'',
     in_sso_user = ''ada00'', in_gh_login = None, in_status = None, in_attempt = None\<rparr> ''token'') (db example_reserved))) example_reserved"

definition example_ready :: world where
  "example_ready = tick 7 (snd (update 7 ''ada00'' [PState Ready, PStage ''ready'', PVerifiedAt (Some 7)] NoFence None
     (db example_imported))) example_imported"

definition example_admission :: "HeldLease res \<times> store" where
  "example_admission = acquire 8 (pool_defaults True) (\<lambda>x. x) ''L'' ''R'' example_caller False None (db example_ready)"

definition example_admitted :: world where
  "example_admitted = draw {''L'', ''R''} (tick 8 (snd example_admission) example_ready)"

lemma run_Step: "run cfg sha256 catalog w u \<Longrightarrow> step cfg sha256 catalog u v \<Longrightarrow> run cfg sha256 catalog w v"
  unfolding run_def by (rule rtranclp.rtrancl_into_rtrancl)

lemma example_run_ready: "run (pool_defaults True) (\<lambda>x. x) [''ada''] example_start example_ready"
proof -
  let ?step = "step (pool_defaults True) (\<lambda>x. x) [''ada'']"
  have 1: "?step example_start example_reserved"
    unfolding example_reserved_def by (rule step_reserve) (simp add: example_start_def initial_world_def)
  have 2: "?step example_reserved example_imported"
    unfolding example_imported_def by (rule step_importToken) (simp add: example_reserved_def)
  have 3: "?step example_imported example_ready"
    unfolding example_ready_def by (rule step_update) (simp add: example_imported_def)
  show ?thesis using run_Step [OF run_Step [OF run_Step [OF _ 1] 2] 3] by (simp add: run_def)
qed

lemma example_used: "used example_ready = {}"
  by (simp add: example_ready_def example_imported_def example_reserved_def example_start_def initial_world_def)

lemma example_clock: "clock example_ready = 7"
  by (simp add: example_ready_def)

lemma example_run: "run (pool_defaults True) (\<lambda>x. x) [''ada''] example_start example_admitted"
  unfolding example_admitted_def example_admission_def
  by (rule run_Step [OF example_run_ready], rule step_acquire) (simp_all add: example_used example_clock)

lemma example_admission_binds: "bindings (snd example_admission) = {(example_caller, ''ada00'')}"
  unfolding bindings_def lease_bindings_def catalog_bindings_def by code_simp

theorem pool_run_invariant_witness:
  "bindings (db example_admitted) = {(example_caller, ''ada00'')} \<and> exclusive (bindings (db example_admitted)) \<and>
   distinct (map identity (members (db example_admitted)))"
proof -
  have "bindings (db example_admitted) = {(example_caller, ''ada00'')}"
    using example_admission_binds by (simp add: example_admitted_def)
  then show ?thesis using pool_run_invariant [OF example_run [unfolded example_start_def] registered_example] by blast
qed

text \<open>
  C9. A hold that was revoked (its row gone, or its member's generation raised) stays revoked in
  every continuation of the run: no heartbeat of it succeeds, no success report renews its lease, and
  no failure report through it re-authorises, quarantines or cools the member.
\<close>

theorem revoked_holds_stay_revoked:
  assumes "run cfg sha256 catalog (initial_world cfg rows t0) w" and "registered rows"
    and "request_id held \<in> used w" and "revoked (db w) held" and "run cfg sha256 catalog w w'"
  shows "\<not> heartbeat now (db w') held \<and> finish_renew now held success (db w') = db w' \<and>
    recoverUnauthorized now u held token (db w') = (False, db w') \<and>
    quarantine now i code (Some held) (db w') = (False, db w') \<and>
    (q > 0 \<longrightarrow> cool now i (Some q) (Some held) (db w') = Inr (False, db w'))"
proof -
  have "revoked (db w') held"
    by (rule revoked_run [OF assms(5) world_inv_run [OF assms(1) world_inv_initial [OF assms(2)]] assms(3,4)])
  from revoked_reports [OF this] show ?thesis by simp
qed

definition example_held :: HeldLease where
  "example_held = projr (fst example_admission)"

definition example_finished :: world where
  "example_finished = tick 9 (finish 9 example_held True (db example_admitted)) example_admitted"

lemma example_run_finished: "run (pool_defaults True) (\<lambda>x. x) [''ada''] example_start example_finished"
  unfolding example_finished_def
  by (rule run_Step [OF example_run], rule step_finish) (simp add: example_admitted_def)

lemma example_finished_revoked: "revoked (db example_finished) example_held" "request_id example_held = ''R''"
  by code_simp+

theorem revoked_holds_stay_revoked_witness:
  "revoked (db example_finished) example_held \<and> \<not> heartbeat 10 (db example_finished) example_held"
proof -
  have "request_id example_held \<in> used example_finished"
    by (simp add: example_finished_revoked example_finished_def example_admitted_def)
  moreover have "run (pool_defaults True) (\<lambda>x. x) [''ada''] example_finished example_finished" by (simp add: run_def)
  ultimately show ?thesis
    using revoked_holds_stay_revoked [OF example_run_finished [unfolded example_start_def] registered_example _ example_finished_revoked(1)]
      example_finished_revoked(1) by blast
qed

text \<open>
  C5. A caller that is admitted is the only user of its member, keeps the member it already had, gets
  a new one only in an active enterprise, and its hold is current until the deadline.
\<close>

theorem acquire_grants_exclusive_member:
  assumes "store_inv s" and "fresh_lease lid rid s"
    and "acquire now cfg sha256 lid rid c aborted override s = (Inr H, s')"
  shows "store_inv s' \<and> caller_id H = c \<and> (c, member_identity H) \<in> bindings s' \<and>
    (\<forall>d j. (d, j) \<in> bindings s' \<longrightarrow> (d = c \<longleftrightarrow> j = member_identity H)) \<and>
    (\<forall>t < deadline_at H. heartbeat t s' H) \<and>
    (case callerLease (reclaim now s) c of Some L \<Rightarrow> member_identity H = member_identity L
     | None \<Rightarrow> enterpriseState s (lease_enterprise H) = Some Active)"
  using acquire.grants [OF assms] unfolding granted_def sole_user_def by blast

lemma example_fresh: "fresh_lease ''L'' ''R'' (db example_ready)" "fresh_catalog ''L'' ''R'' (db example_ready)"
  unfolding fresh_lease_def fresh_catalog_def by code_simp+

lemma example_inv: "store_inv (db example_ready)"
  using world_inv_run [OF example_run_ready [unfolded example_start_def] world_inv_initial [OF registered_example]]
  by (simp add: world_inv_def)

lemma example_admission_Inr: "example_admission = (Inr example_held, snd example_admission)"
proof -
  have "\<not> isl (fst example_admission)" by code_simp
  then show ?thesis by (cases "fst example_admission") (auto simp: example_held_def prod_eq_iff)
qed

theorem acquire_grants_exclusive_member_witness:
  "(example_caller, member_identity example_held) \<in> bindings (snd example_admission) \<and> deadline_at example_held = 120008 \<and>
   heartbeat 120007 (snd example_admission) example_held"
proof -
  have d: "deadline_at example_held = 120008" by code_simp
  show ?thesis
    using acquire_grants_exclusive_member [OF example_inv example_fresh(1) example_admission_Inr [unfolded example_admission_def]] d
    by (simp add: example_admission_def)
qed

text \<open>
  The same holds for the admission of a catalog request, which binds the caller without a lease.
\<close>

theorem acquireCatalog_grants_exclusive_member:
  assumes "store_inv s" and "fresh_catalog lid rid s"
    and "acquireCatalog now cfg sha256 lid rid c aborted s = (Inr H, s')"
  shows "store_inv s' \<and> caller_id H = c \<and> (c, member_identity H) \<in> bindings s' \<and>
    (\<forall>d j. (d, j) \<in> bindings s' \<longrightarrow> (d = c \<longleftrightarrow> j = member_identity H)) \<and>
    (\<forall>t < deadline_at H. heartbeat t s' H) \<and>
    (case callerLease (reclaim now s) c of Some L \<Rightarrow> member_identity H = member_identity L
     | None \<Rightarrow> enterpriseState s (lease_enterprise H) = Some Active)"
  using acquireCatalog.grants [OF assms] unfolding granted_def sole_user_def by blast

theorem acquireCatalog_grants_exclusive_member_witness:
  "\<exists>H s'. acquireCatalog 8 (pool_defaults True) (\<lambda>x. x) ''L'' ''R'' example_caller False (db example_ready) = (Inr H, s') \<and>
     (example_caller, member_identity H) \<in> bindings s'"
proof -
  have "\<not> isl (fst (acquireCatalog 8 (pool_defaults True) (\<lambda>x. x) ''L'' ''R'' example_caller False (db example_ready)))"
    by code_simp
  then obtain H s' where h: "acquireCatalog 8 (pool_defaults True) (\<lambda>x. x) ''L'' ''R'' example_caller False (db example_ready) = (Inr H, s')"
    by (metis prod.collapse sum.collapse(2))
  then show ?thesis using acquireCatalog_grants_exclusive_member [OF example_inv example_fresh(2) h] by blast
qed

text \<open>
  C38. An admission that is refused binds nobody: the bindings are at most those before, the invariant
  still holds, and the refusal is never a violated database constraint.
\<close>

theorem acquire_refusal_binds_nobody:
  assumes "store_inv s" and "fresh_lease lid rid s"
    and "acquire now cfg sha256 lid rid c aborted override s = (Inl e, s')"
  shows "store_inv s' \<and> bindings s' \<subseteq> bindings s \<and> (\<forall>t. e \<noteq> SqlConstraint t)"
  by (rule acquire.refuses [OF assms])

theorem acquire_refusal_binds_nobody_witness:
  "\<exists>e s'. acquire 8 (pool_defaults True) (\<lambda>x. x) ''L'' ''R'' example_caller True None (db example_ready) = (Inl e, s') \<and>
     bindings s' \<subseteq> bindings (db example_ready)"
proof -
  have "isl (fst (acquire 8 (pool_defaults True) (\<lambda>x. x) ''L'' ''R'' example_caller True None (db example_ready)))" by code_simp
  then obtain e s' where h: "acquire 8 (pool_defaults True) (\<lambda>x. x) ''L'' ''R'' example_caller True None (db example_ready) = (Inl e, s')"
    by (metis prod.collapse sum.collapse(1))
  then show ?thesis using acquire_refusal_binds_nobody [OF example_inv example_fresh(1) h] by blast
qed

end
