(* ===== verification/Pool_Guarantees.thy ===== *)
theory Pool_Guarantees
  imports Pool_Machine
begin

text \<open>
  What single operations of the pool guarantee: replenishment within the caps, completion and renewal,
  ownership of the worker, re-authorisation, login slots and back-off.
\<close>

section \<open>Replenishment\<close>

text \<open>
  C21. A replenishment run never fails once its arguments are accepted. It adds members only if the
  caller owns the worker lease and the pool is not paused, at most as many as the pool lacks, and
  never raises an enterprise's inventory beyond its cap.
\<close>

theorem reserveDeficit_within_caps:
  assumes "store_inv s" and "eligibleEnterprises ids = Inr elig"
  shows "\<exists>k s'. reserveDeficit now catalog uuid ow ids s = (Inr (int k), s') \<and> store_inv s' \<and>
    length (members s') = length (members s) + k \<and>
    (k > 0 \<longrightarrow> matchesOwner now s (Some ow) \<and> paused (settings (reclaim now s)) \<noteq> 1) \<and>
    int k \<le> max 0 (idle_target (settings (reclaim now s)) - ready_idle (poolSupply now (reclaim now s))
      - in_flight (poolSupply now (reclaim now s))) \<and>
    (\<forall>e' \<in> set (enterprises s'). \<exists>e \<in> set (enterprises s). se_id e' = se_id e \<and> max_accounts e' = max_accounts e \<and>
       inventory_count e' \<le> max (inventory_count e) (max_accounts e))"
proof -
  have len: "length (members (reclaim now s)) = length (members s)"
    using frame_maps(1) [OF frame_reclaim [of s now]] by (metis length_map)
  obtain k s' where r: "reserveDeficit_body now catalog uuid ow elig s = Inr (int k, s')" "store_inv s'"
    "s' = s \<and> k = 0 \<or> matchesOwner now s (Some ow) \<and> replenished now elig s s' k"
    using reserveDeficit_body_spec [OF assms(1), of now catalog uuid ow elig] by blast
  have res: "reserveDeficit now catalog uuid ow ids s = (Inr (int k), s')"
    using r(1) assms(2) by (simp add: reserveDeficit_def transaction_def)
  from r(3) show ?thesis
  proof (elim disjE conjE)
    assume "s' = s" "k = 0"
    then show ?thesis using res assms(1) by auto
  next
    assume ow: "matchesOwner now s (Some ow)" and "replenished now elig s s' k"
    then obtain ys where ys: "grew (reclaim now s) s' ys" "length ys = k" "k > 0 \<longrightarrow> paused (settings (reclaim now s)) \<noteq> 1"
      "int k \<le> max 0 (idle_target (settings (reclaim now s)) - ready_idle (poolSupply now (reclaim now s))
        - in_flight (poolSupply now (reclaim now s)))"
      "\<forall>e \<in> set (enterprises s). int (count_list ys (se_id e)) \<le> max 0 (max_accounts e - inventory_count e)"
      unfolding replenished_def by blast
    have ent: "enterprises s' = bump ys (enterprises s)" using ys(1) by (simp add: grew_def)
    have "\<exists>e \<in> set (enterprises s). se_id e' = se_id e \<and> max_accounts e' = max_accounts e \<and>
        inventory_count e' \<le> max (inventory_count e) (max_accounts e)" if e': "e' \<in> set (enterprises s')" for e'
    proof -
      obtain e where e: "e \<in> set (enterprises s)"
        "e' = e\<lparr>inventory_count := inventory_count e + int (count_list ys (se_id e))\<rparr>"
        using e' unfolding ent bump_def set_map by blast
      then show ?thesis using bspec [OF ys(5) e(1)] by (intro bexI [of _ e]) auto
    qed
    moreover have "length (members s') = length (members s) + k"
      using ys(1,2) len by (auto simp: grew_def)
    ultimately show ?thesis using res r(2) ys(3,4) ow by blast
  qed
qed

lemma example_eligible: "eligibleEnterprises (JArr [JStr ''default'']) = Inr {''default''}"
  by code_simp

theorem reserveDeficit_within_caps_witness:
  "\<exists>k s'. reserveDeficit 9 [''ada''] (\<lambda>_. ''u'') ''w'' (JArr [JStr ''default'']) (db example_ready) = (Inr (int k), s') \<and>
     store_inv s'"
  using reserveDeficit_within_caps [OF example_inv example_eligible, of 9 "[''ada'']" "\<lambda>_. ''u''" "''w''"] by blast

section \<open>Completion\<close>

definition lease_shrunk :: "LeaseRow \<Rightarrow> LeaseRow \<Rightarrow> bool" where
  "lease_shrunk l l' \<longleftrightarrow> lease_key l' = lease_key l \<and> phase l' = phase l \<and> last_success_at l' = last_success_at l \<and>
     expires_at l' \<le> expires_at l"

definition leases_shrunk :: "store \<Rightarrow> store \<Rightarrow> bool" where
  "leases_shrunk s s' \<longleftrightarrow> (\<forall>l' \<in> set (leases s'). \<exists>l \<in> set (leases s). lease_shrunk l l')"

lemma leases_shrunk_same: "leases s' = leases s \<Longrightarrow> leases_shrunk s s'"
  by (auto simp: leases_shrunk_def lease_shrunk_def)

lemma leases_shrunk_trans: "leases_shrunk s t \<Longrightarrow> leases_shrunk t u \<Longrightarrow> leases_shrunk s u"
  unfolding leases_shrunk_def lease_shrunk_def by (metis order.trans)

lemma leases_shrunk_update: "leases_shrunk s (snd (update now i patch fence ow s))"
  by (auto simp: update_def Let_def leases_shrunk_def lease_shrunk_def lease_key_def rows split: option.splits)

lemma leases_shrunk_fold: "(\<And>x s. leases_shrunk s (f x s)) \<Longrightarrow> leases_shrunk s (fold f xs s)"
  by (induction xs arbitrary: s) (auto intro: leases_shrunk_trans leases_shrunk_same)

lemma leases_shrunk_delete: "leases_shrunk s (event now a i c l d (delete_leases P s))"
  by (auto simp: leases_shrunk_def lease_shrunk_def delete_leases_def)

lemma leases_shrunk_reclaim: "leases_shrunk s (reclaim now s)"
proof -
  have "leases_shrunk t (update_each now patch ids t)" for t patch ids
    unfolding update_each_def by (rule leases_shrunk_fold) (rule leases_shrunk_update)
  moreover have "leases_shrunk t (reclaim_expired_holds now t)" "leases_shrunk t (reclaim_cooled now t)" for t
    by (simp_all add: reclaim_expired_holds_def reclaim_cooled_def leases_shrunk_same)
  moreover have "leases_shrunk t (reclaim_leases now t)" for t unfolding reclaim_leases_def
    by (rule leases_shrunk_fold) (simp add: expire_lease_def leases_shrunk_delete leases_shrunk_same)
  ultimately show ?thesis unfolding reclaim_def reclaim_invalid_def reclaim_unverified_def by (meson leases_shrunk_trans)
qed

text \<open>
  C27. Only success renews: a request that failed or was cancelled, a catalog request, and a request
  whose hold is no longer current leave every lease with its phase, its last success and at most
  its former expiry.
\<close>

theorem only_success_renews:
  assumes "\<not> success \<or> kind held = KindCatalog \<or> currentHold now s held = None"
  shows "\<forall>l' \<in> set (leases (finish now held success s)). \<exists>l \<in> set (leases s).
    lease_key l' = lease_key l \<and> phase l' = phase l \<and> last_success_at l' = last_success_at l \<and> expires_at l' \<le> expires_at l"
proof -
  have "finish_renew now held success s = s" using assms by (auto simp: finish_renew_def Let_def)
  moreover have "leases_shrunk s (finish_remove held s)" by (simp add: finish_remove_def leases_shrunk_same)
  ultimately have "leases_shrunk s (finish now held success s)"
    using leases_shrunk_trans leases_shrunk_reclaim
    by (auto simp: finish_def leases_shrunk_same split: option.split)
  then show ?thesis by (simp add: leases_shrunk_def lease_shrunk_def)
qed

theorem only_success_renews_witness:
  "leases_shrunk (db example_admitted) (finish 9 example_held False (db example_admitted))"
  using only_success_renews [of False example_held 9 "db example_admitted"] by (simp add: leases_shrunk_def lease_shrunk_def)

lemma heldRow_removed: "heldRow (finish_remove held s) held = None"
proof -
  have "List.find P (filter (\<lambda>x. \<not> P x) xs) = None" for P :: "'x \<Rightarrow> bool" and xs by (auto simp: find_None_iff)
  from this [of "\<lambda>c. c_request_id c = request_id held \<and> c_lease_id c = lease_id held" "catalog_holds s"]
    this [of "\<lambda>h. h_request_id h = request_id held \<and> h_lease_id h = lease_id held" "holds s"]
  show ?thesis by (simp add: finish_remove_def heldRow_def)
qed

text \<open>
  C28. Completion is idempotent: a duplicate report of the same request, whatever its outcome and
  time, changes nothing.
\<close>

theorem finish_idempotent:
  assumes "store_inv s"
  shows "finish later held again (finish now held success s) = finish now held success s"
proof (cases "heldRow s held")
  case None
  then show ?thesis by (simp add: finish_def)
next
  case (Some r)
  let ?t = "finish_remove held (finish_renew now held success s)"
  have fr: "frame s (finish_renew now held success s)" "frame (finish_renew now held success s) ?t"
    by (rule frame_finish_renew, rule frame_finish_remove)
  have "store_inv ?t" using frame_inv [OF fr(2)] frame_inv [OF fr(1) assms] by blast
  then have "keys_inv ?t" by (simp add: store_inv_def)
  then have "heldRow (reclaim now ?t) held = None"
    using heldRow_frame [OF frame_reclaim, of ?t now held] heldRow_removed [of held "finish_renew now held success s"]
    by (cases "heldRow (reclaim now ?t) held") auto
  then show ?thesis using Some by (simp add: finish_def)
qed

theorem finish_idempotent_witness:
  "finish 20 example_held False (finish 9 example_held True (db example_ready)) = finish 9 example_held True (db example_ready)"
  by (rule finish_idempotent [OF example_inv])

section \<open>Ownership\<close>

lemma example_claimed:
  "fst (claimOwner 10 ''w1'' (db example_ready))"
  "owner (settings (snd (claimOwner 10 ''w1'' (db example_ready)))) = Some ''w1''"
  "owner_until (settings (snd (claimOwner 10 ''w1'' (db example_ready)))) = 30010"
  by code_simp+

definition example_reservation :: Inventory where
  "example_reservation = (hd (members (db example_ready)))\<lparr>stage := ''oauth-wait'', state := Failed, attempts := 3\<rparr>"

text \<open>
  C26. Two workers never own the pool at once. In any state in which a worker owns the pool, its lease not
  being over, no other worker can claim or renew, a release by another changes nothing, and each of the six
  writes that another fences with its own id changes nothing: the update of a member, its failure, the
  credential mutation, the claim of a login slot, the release of a login reservation and the
  replenishment. The owner itself can claim and renew, and either makes it the owner for 30 seconds.
\<close>

theorem owner_exclusive:
  assumes "owner (settings s) = Some x" and "now < owner_until (settings s)" and "y \<noteq> x"
  shows "claimOwner now y s = (False, s) \<and> renewOwner now y s = (False, s) \<and> releaseOwner y s = s \<and>
    update now i patch fence (Some y) s = (False, s) \<and>
    fail now i code fence (Some y) term s = s \<and>
    mutateWorkerCredential now i rf y mut s = (False, s) \<and>
    claimLoginDispatch now i rf y limit s =
      (if limit < 1 \<or> limit > 100 then Inl (UserPoolError 400 ''invalid_login_limit'' 0) else Inr (False, s)) \<and>
    releaseLoginReservation now i row y outcome s = (False, s) \<and>
    reserveDeficit_body now catalog uuid y elig s = Inr (0, s) \<and> snd (reserveDeficit now catalog uuid y ids s) = s \<and>
    (\<exists>s'. claimOwner now x s = (True, s') \<and> renewOwner now x s = (True, s') \<and>
       owner (settings s') = Some x \<and> owner_until (settings s') = now + 30000)"
proof -
  have no: "\<not> matchesOwner now s (Some y)" using assms by (simp add: matchesOwner_def)
  have deficit: "reserveDeficit_body now catalog uuid y el s = Inr (0, s)" for el
    using no by (simp add: reserveDeficit_body_def)
  then have "snd (reserveDeficit now catalog uuid y ids s) = s"
    by (simp add: reserveDeficit_def transaction_def split: sum.split)
  moreover have "\<exists>s'. claimOwner now x s = (True, s') \<and> renewOwner now x s = (True, s') \<and>
       owner (settings s') = Some x \<and> owner_until (settings s') = now + 30000"
    using assms by (simp add: claimOwner_def renewOwner_def)
  moreover have "update now i patch fence (Some y) s = (False, s)" "fail now i code fence (Some y) term s = s"
    "mutateWorkerCredential now i rf y mut s = (False, s)" "releaseLoginReservation now i row y outcome s = (False, s)"
    "claimLoginDispatch now i rf y limit s =
      (if limit < 1 \<or> limit > 100 then Inl (UserPoolError 400 ''invalid_login_limit'' 0) else Inr (False, s))"
    using no by (auto simp: update_def fail_def mutateWorkerCredential_def releaseLoginReservation_def claimLoginDispatch_def
        split: option.split prod.split)
  moreover have "claimOwner now y s = (False, s)" "renewOwner now y s = (False, s)" "releaseOwner y s = s"
    using assms by (simp_all add: claimOwner_def renewOwner_def releaseOwner_def)
  ultimately show ?thesis using deficit by simp
qed

theorem owner_exclusive_witness:
  "\<exists>s. claimOwner 10 ''w1'' (db example_ready) = (True, s) \<and> claimOwner 30009 ''w2'' s = (False, s) \<and>
     releaseLoginReservation 30009 ''ada00'' example_reservation ''w2'' ''success'' s = (False, s) \<and> fst (renewOwner 30009 ''w1'' s)"
proof -
  define s where "s = snd (claimOwner 10 ''w1'' (db example_ready))"
  have c: "claimOwner 10 ''w1'' (db example_ready) = (True, s)"
    unfolding s_def by (metis (full_types) prod.collapse example_claimed(1))
  have "(30009::int) < owner_until (settings s)" "owner (settings s) = Some ''w1''"
    using example_claimed(2,3) by (simp_all add: s_def)
  moreover have "''w2'' \<noteq> ''w1''" by simp
  ultimately have "claimOwner 30009 ''w2'' s = (False, s)"
    "releaseLoginReservation 30009 ''ada00'' example_reservation ''w2'' ''success'' s = (False, s)"
    "\<exists>s'. renewOwner 30009 ''w1'' s = (True, s')"
    using owner_exclusive [of s "''w1''" 30009 "''w2''"] by blast+
  then show ?thesis using c by (intro exI [of _ s]) auto
qed

section \<open>Members after an update\<close>

lemma find_update_where_key:
  assumes "\<And>r. g (f r) = g r"
  shows "List.find (\<lambda>r. g r = k) (update_where P f rs) = map_option (\<lambda>r. if P r then f r else r) (List.find (\<lambda>r. g r = k) rs)"
  using assms by (induction rs) auto

lemma inventory_row_update_where:
  assumes "\<And>m. identity (f m) = identity m"
  shows "inventory_row (s\<lparr>members := update_where P f (members s)\<rparr>) i = map_option (\<lambda>m. if P m then f m else m) (inventory_row s i)"
  using find_update_where_key [of identity f i P "members s", OF assms] by (simp add: inventory_row_def)

lemma inventory_row_leases [simp]: "inventory_row (s\<lparr>leases := ls\<rparr>) i = inventory_row s i"
  by (simp add: inventory_row_def)

lemma inventory_row_event [simp]: "inventory_row (event now a x c l d s) i = inventory_row s i"
  by (simp add: inventory_row_def)

lemma identity_fold_apply [simp]: "identity (fold apply_entry ps m) = identity m"
  using fold_apply_entry_key(1) [of ps m] by (simp add: member_key_def)

definition patched :: "int \<Rightarrow> patch_entry list \<Rightarrow> Inventory \<Rightarrow> Inventory" where
  "patched now patch m = (fold apply_entry (filter (\<lambda>p. \<not> is_ignored p) patch) m)\<lparr>updated_at := now,
     generation := generation m + (case patch_state patch of None \<Rightarrow> 0
       | Some st \<Rightarrow> if st \<in> {Failed, Disabled, Provisioning} \<and> st \<noteq> state m then 1 else 0)\<rparr>"

lemma update_row:
  assumes "inventory_row s i = Some m" and "state m \<noteq> Disabled" and "matchesFence m fence" and "matchesOwner now s ow"
    and "filter (\<lambda>p. \<not> is_ignored p) patch \<noteq> []" and "patch_state patch \<noteq> Some Provisioning"
  shows "fst (update now i patch fence ow s)"
    and "inventory_row (snd (update now i patch fence ow s)) i = Some (patched now patch m)"
    and "accounts (snd (update now i patch fence ow s)) = accounts s"
proof -
  let ?b = "case patch_state patch of None \<Rightarrow> False | Some st \<Rightarrow> st \<in> {Failed, Disabled, Provisioning} \<and> st \<noteq> state m"
  let ?f = "\<lambda>m. (fold apply_entry (filter (\<lambda>p. \<not> is_ignored p) patch) m)\<lparr>updated_at := now,
    generation := generation m + (if ?b then 1 else 0)\<rparr>"
  have "identity m = i" using find_Some_mem [OF assms(1) [unfolded inventory_row_def]] by simp
  then have "inventory_row (s\<lparr>members := update_where (\<lambda>m. identity m = i) ?f (members s)\<rparr>) i = Some (?f m)"
    using inventory_row_update_where [where f = ?f and s = s and P = "\<lambda>m. identity m = i" and i = i] assms(1) by simp
  moreover have "?f m = patched now patch m" by (simp add: patched_def split: option.split)
  ultimately show "fst (update now i patch fence ow s)" "accounts (snd (update now i patch fence ow s)) = accounts s"
    "inventory_row (snd (update now i patch fence ow s)) i = Some (patched now patch m)"
    using assms by (auto simp: update_def Let_def)
qed

section \<open>Re-authorisation\<close>

lemma update_accounts_row:
  assumes "inventory_row s i = Some m"
  shows "inventory_row (update_accounts P f s) i = Some
    (if exists_row (\<lambda>a. P a \<and> a_identity a = i \<and> credential_changed a (f a)) (accounts s)
     then m\<lparr>generation := generation m + 1, verified_at := None\<rparr> else m)"
proof -
  have "identity m = i" using find_Some_mem [OF assms [unfolded inventory_row_def]] by simp
  moreover have "inventory_row (update_accounts P f s) i = inventory_row (s\<lparr>members := update_where
      (\<lambda>m. exists_row (\<lambda>a. P a \<and> a_identity a = identity m \<and> credential_changed a (f a)) (accounts s))
      (\<lambda>m. m\<lparr>generation := generation m + 1, verified_at := None\<rparr>) (members s)\<rparr>) i"
    by (simp add: update_accounts_def inventory_row_def)
  ultimately show ?thesis using assms by (subst (asm) inventory_row_update_where) simp_all
qed

text \<open>The member after a 401 that its hold reported: the budget of re-authorisations in its window.\<close>

definition reauth_spent :: "int \<Rightarrow> Inventory \<Rightarrow> bool" where
  "reauth_spent now m \<longleftrightarrow> \<not> (reauth_window_at m = 0 \<or> now - reauth_window_at m \<ge> REAUTH_WINDOW_MS) \<and>
     reauth_count m \<ge> REAUTH_MAX_CYCLES"

lemma recoverUnauthorized_row:
  assumes "recoverUnauthorized now u held token s = (True, s')"
  shows "\<exists>m m'. inventory_row s (member_identity held) = Some m \<and> inventory_row s' (member_identity held) = Some m' \<and>
    currentHold now s held \<noteq> None \<and> state m' = Failed \<and> verified_at m' = None \<and> generation m < generation m' \<and> attempt_id m' = u \<and>
    attempts m' = (if reauth_spent now m then 3 else 0) \<and>
    last_error m' = Some (if reauth_spent now m then ''oauth_reauth_limit_reached'' else ''upstream_unauthorized'') \<and>
    reauth_count m' = (if reauth_spent now m then reauth_count m
      else if reauth_window_at m = 0 \<or> now - reauth_window_at m \<ge> REAUTH_WINDOW_MS then 1 else reauth_count m + 1) \<and>
    reauth_window_at m' = (if reauth_window_at m = 0 \<or> now - reauth_window_at m \<ge> REAUTH_WINDOW_MS then now
      else reauth_window_at m)"
proof -
  let ?i = "member_identity held"
  let ?P = "\<lambda>a. a_identity a = ?i \<and> a_token a = Some token \<and> a_status a = ''valid''"
  let ?g = "\<lambda>a. a\<lparr>a_token := None, a_status := ''expired'', a_attempt_id := None, a_oauth_updated_at := Some now, a_updated_at := now\<rparr>"
  obtain m where m: "inventory_row s ?i = Some m" and cur: "currentHold now s held \<noteq> None" and ex: "exists_row ?P (accounts s)"
    using assms by (auto simp: recoverUnauthorized_def Let_def split: option.splits if_splits)
  have st: "state m \<in> {Ready, Cooling}"
    using cur m by (auto simp: currentHold_def heldRow_def split: option.splits if_splits)
  let ?s1 = "update_accounts ?P ?g s" and ?m1 = "m\<lparr>generation := generation m + 1, verified_at := None\<rparr>"
  have "exists_row (\<lambda>a. ?P a \<and> a_identity a = ?i \<and> credential_changed a (?g a)) (accounts s)"
    using ex by (auto simp: exists_row_iff credential_changed_def)
  then have m1: "inventory_row ?s1 ?i = Some ?m1" using update_accounts_row [OF m, of ?P ?g] by simp
  let ?patch = "[PState Failed, PStage ''synced'', PAttemptId u, POauthAttemptId None, PTaskId None, PVerifiedAt None,
    PAttempts (if reauth_spent now m then 3 else 0),
    PLastError (Some (if reauth_spent now m then ''oauth_reauth_limit_reached'' else ''upstream_unauthorized'')), PRetryAt now]"
  have m2: "inventory_row (snd (update now ?i ?patch NoFence None ?s1)) ?i = Some (patched now ?patch ?m1)"
    using st by (intro update_row [OF m1]) (auto simp: matchesOwner_def)
  have id: "identity m = ?i" using find_Some_mem [OF m [unfolded inventory_row_def]] by simp
  let ?fin = "\<lambda>m. (patched now ?patch (m\<lparr>generation := generation m + 1, verified_at := None\<rparr>))\<lparr>
      reauth_count := (if reauth_spent now m then reauth_count m
        else if reauth_window_at m = 0 \<or> now - reauth_window_at m \<ge> REAUTH_WINDOW_MS then 1 else reauth_count m + 1),
      reauth_window_at := (if reauth_window_at m = 0 \<or> now - reauth_window_at m \<ge> REAUTH_WINDOW_MS then now else reauth_window_at m)\<rparr>"
  have fin: "inventory_row s' ?i = Some (?fin m)"
    using assms m cur ex m2 id
    by (auto simp: recoverUnauthorized_def Let_def reauth_spent_def inventory_row_update_where patched_def
        REAUTH_MAX_CYCLES_def split: option.splits if_splits)
  show ?thesis
    by (intro exI [of _ m] exI [of _ "?fin m"] conjI m fin cur) (use st in \<open>auto simp: patched_def\<close>)
qed

lemma update_ends_leases:
  assumes "inventory_row s i = Some m" and "state m \<in> {Ready, Cooling}" and "matchesFence m fence" and "matchesOwner now s ow"
    and "patch = PState Failed # ps" and "l \<in> set (leases (snd (update now i patch fence ow s)))" and "member_identity l = i"
  shows "expires_at l \<le> now"
proof -
  have "state m \<noteq> Disabled" "state m \<noteq> Failed" using assms(2) by auto
  then have "leases (snd (update now i patch fence ow s)) =
      update_where (\<lambda>l. member_identity l = i) (\<lambda>l. l\<lparr>expires_at := min (expires_at l) now\<rparr>) (leases s)"
    unfolding update_def assms(1,5) Let_def using assms(3,4) by simp
  then have "l \<in> set (update_where (\<lambda>l. member_identity l = i) (\<lambda>l. l\<lparr>expires_at := min (expires_at l) now\<rparr>) (leases s))"
    using assms(6) by simp
  then obtain k where k: "l = (if member_identity k = i then k\<lparr>expires_at := min (expires_at k) now\<rparr> else k)"
    unfolding update_where_def set_map by (elim imageE)
  show ?thesis
  proof (cases "member_identity k = i")
    case True
    then have "expires_at l = min (expires_at k) now" using k by simp
    then show ?thesis by simp
  next
    case False
    then show ?thesis using k assms(7) by simp
  qed
qed

lemma recoverUnauthorized_leases:
  assumes "recoverUnauthorized now u held token s = (True, s')" and "l \<in> set (leases s')" and "member_identity l = member_identity held"
  shows "expires_at l \<le> now"
proof -
  let ?i = "member_identity held"
  let ?P = "\<lambda>a. a_identity a = ?i \<and> a_token a = Some token \<and> a_status a = ''valid''"
  let ?g = "\<lambda>a. a\<lparr>a_token := None, a_status := ''expired'', a_attempt_id := None, a_oauth_updated_at := Some now, a_updated_at := now\<rparr>"
  let ?s1 = "update_accounts ?P ?g s"
  obtain m where m: "inventory_row s ?i = Some m" and cur: "currentHold now s held \<noteq> None"
    using assms(1) by (auto simp: recoverUnauthorized_def Let_def split: option.splits if_splits)
  have "state m \<in> {Ready, Cooling}"
    using cur m by (auto simp: currentHold_def heldRow_def split: option.splits if_splits)
  moreover obtain m1 where "inventory_row ?s1 ?i = Some m1" "state m1 = state m"
    using update_accounts_row [OF m, of ?P ?g] by auto
  moreover obtain ps where "leases s' = leases (snd (update now ?i (PState Failed # ps) NoFence None ?s1))"
    using assms(1) by (auto simp: recoverUnauthorized_def Let_def split: option.splits if_splits)
  ultimately show ?thesis using assms(2,3) by (intro update_ends_leases [of ?s1 ?i m1 NoFence now None]) (auto simp: matchesOwner_def)
qed

lemma held_generation:
  assumes "store_inv s" and "heldRow s h = Some r" and "inventory_row s (r_member r) = Some m"
  shows "r_generation r \<le> generation m"
proof -
  have g: "generations_inv s" using assms(1) by (simp add: store_inv_def)
  have m: "m \<in> set (members s)" "identity m = r_member r" using find_Some_mem [OF assms(3) [unfolded inventory_row_def]] by auto
  show ?thesis
  proof (cases "kind h = KindCatalog")
    case True
    then obtain c where "c \<in> set (catalog_holds s)" "r_member r = c_member c" "r_generation r = c_generation c"
      using assms(2) by (auto simp: heldRow_def split: option.splits if_splits dest!: find_Some_mem)
    then show ?thesis using g m by (auto simp: generations_inv_def)
  next
    case False
    then obtain d l where "d \<in> set (holds s)" "l \<in> set (leases s)" "lease_id l = h_lease_id d" "r_member r = member_identity l"
      "r_generation r = h_generation d"
      using assms(2) by (auto simp: heldRow_def split: option.splits if_splits dest!: find_Some_mem)
    then show ?thesis using g m by (auto simp: generations_inv_def)
  qed
qed

text \<open>
  C23. A 401 reported by a current request takes the member out of service, ends its lease, and revokes every
  hold of the member, in whatever request, the reporter's included. The report is counted in the member's
  window of an hour: the first one, and the first one after the window is over, starts a new window with
  the count one; each further one adds one; and one that finds three already counted leaves the count and
  the window as they are and parks the member: it alone is not scheduled for re-authorisation, and no
  worker will pick the member up again on its own.
\<close>

theorem unauthorized_revokes_within_budget:
  assumes "store_inv s" and "recoverUnauthorized now u held token s = (True, s')"
  shows "\<exists>m m'. inventory_row s (member_identity held) = Some m \<and> inventory_row s' (member_identity held) = Some m' \<and>
    state m' = Failed \<and> verified_at m' = None \<and>
    revoked s' held \<and> (\<forall>h. member_identity h = member_identity held \<longrightarrow> revoked s' h) \<and>
    (\<forall>l \<in> set (leases s'). member_identity l = member_identity held \<longrightarrow> expires_at l \<le> now) \<and>
    (retryable m' \<longleftrightarrow> \<not> reauth_spent now m) \<and>
    (reauth_count m \<le> REAUTH_MAX_CYCLES \<longrightarrow> reauth_count m' \<le> REAUTH_MAX_CYCLES) \<and>
    (if reauth_window_at m = 0 \<or> now - reauth_window_at m \<ge> 3600000
     then reauth_count m' = 1 \<and> reauth_window_at m' = now \<and> retryable m'
     else if reauth_count m < 3
     then reauth_count m' = reauth_count m + 1 \<and> reauth_window_at m' = reauth_window_at m \<and> retryable m'
     else reauth_count m' = reauth_count m \<and> reauth_window_at m' = reauth_window_at m \<and> \<not> retryable m' \<and>
       last_error m' = Some ''oauth_reauth_limit_reached'')"
proof -
  let ?i = "member_identity held"
  obtain m m' where m: "inventory_row s ?i = Some m" "inventory_row s' ?i = Some m'" "currentHold now s held \<noteq> None"
    "state m' = Failed" "verified_at m' = None" "generation m < generation m'" "attempts m' = (if reauth_spent now m then 3 else 0)"
    "last_error m' = Some (if reauth_spent now m then ''oauth_reauth_limit_reached'' else ''upstream_unauthorized'')"
    "reauth_count m' = (if reauth_spent now m then reauth_count m
      else if reauth_window_at m = 0 \<or> now - reauth_window_at m \<ge> REAUTH_WINDOW_MS then 1 else reauth_count m + 1)"
    "reauth_window_at m' = (if reauth_window_at m = 0 \<or> now - reauth_window_at m \<ge> REAUTH_WINDOW_MS then now
      else reauth_window_at m)"
    using recoverUnauthorized_row [OF assms(2)] by blast
  have fr: "frame s s'" using frame_recoverUnauthorized [of s now u held token] assms(2) by simp
  have rev: "revoked s' h" if h: "member_identity h = ?i" for h
  proof (cases "heldRow s' h")
    case (Some r)
    then have r: "heldRow s h = Some r" using heldRow_frame [OF fr] assms(1) by (simp add: store_inv_def)
    have i: "r_member r = ?i" using Some h by (auto simp: heldRow_def split: option.splits if_splits)
    show ?thesis using Some i m(2,6) held_generation [OF assms(1) r] m(1) by (simp add: revoked_def)
  qed (simp add: revoked_def)
  have retry: "retryable m' \<longleftrightarrow> \<not> reauth_spent now m"
    using m(4,7,8) by (simp add: retryable_def manual_error_def MANUAL_ERRORS_def)
  have max: "reauth_count m \<le> REAUTH_MAX_CYCLES \<longrightarrow> reauth_count m' \<le> REAUTH_MAX_CYCLES"
    using m(9) by (auto simp: reauth_spent_def REAUTH_MAX_CYCLES_def)
  have budget: "if reauth_window_at m = 0 \<or> now - reauth_window_at m \<ge> 3600000
     then reauth_count m' = 1 \<and> reauth_window_at m' = now \<and> retryable m'
     else if reauth_count m < 3
     then reauth_count m' = reauth_count m + 1 \<and> reauth_window_at m' = reauth_window_at m \<and> retryable m'
     else reauth_count m' = reauth_count m \<and> reauth_window_at m' = reauth_window_at m \<and> \<not> retryable m' \<and>
       last_error m' = Some ''oauth_reauth_limit_reached''"
    using m(8-10) retry by (simp add: reauth_spent_def REAUTH_MAX_CYCLES_def REAUTH_WINDOW_MS_def)
  show ?thesis using m(1,2,4,5) rev retry max budget recoverUnauthorized_leases [OF assms(2)] by blast
qed

lemma example_admitted_inv: "store_inv (db example_admitted)"
  using world_inv_run [OF example_run [unfolded example_start_def] world_inv_initial [OF registered_example]]
  by (simp add: world_inv_def)

theorem unauthorized_revokes_within_budget_witness:
  "\<exists>s' m. recoverUnauthorized 9 ''v'' example_held ''token'' (db example_admitted) = (True, s') \<and> revoked s' example_held \<and>
     inventory_row s' (member_identity example_held) = Some m \<and> reauth_count m = 1 \<and> reauth_window_at m = 9 \<and> retryable m"
proof -
  have "fst (recoverUnauthorized 9 ''v'' example_held ''token'' (db example_admitted))" by code_simp
  then obtain s' where r: "recoverUnauthorized 9 ''v'' example_held ''token'' (db example_admitted) = (True, s')"
    by (metis (full_types) prod.collapse)
  have "map_option reauth_window_at (inventory_row (db example_admitted) (member_identity example_held)) = Some 0" by code_simp
  then show ?thesis using unauthorized_revokes_within_budget [OF example_admitted_inv r] r by auto
qed

section \<open>Login slots\<close>

lemma count_rows_update_one:
  assumes "distinct (map g rs)" and "r \<in> set rs" and "g r = k" and "\<not> Q r" and "Q (f r)"
  shows "count_rows Q (update_where (\<lambda>x. g x = k) f rs) = count_rows Q rs + 1"
  using assms
proof (induction rs)
  case (Cons x xs)
  show ?case
  proof (cases "x = r")
    case True
    then have "\<forall>y \<in> set xs. g y \<noteq> k" using Cons.prems(1,3) by (metis distinct.simps(2) image_eqI list.set_map list.simps(9))
    then have "update_where (\<lambda>x. g x = k) f xs = xs" by (auto simp: update_where_def map_idI)
    then show ?thesis using True Cons.prems by (simp add: count_rows_def)
  next
    case False
    then have "r \<in> set xs" "g x \<noteq> k" using Cons.prems by (auto dest: distinct_map_eqD)
    then show ?thesis using Cons by (simp add: count_rows_def)
  qed
qed simp

text \<open>
  A login dispatch takes exactly one login slot and only while fewer than the limit are taken;
  a refused dispatch changes nothing.
\<close>

theorem login_slots_bounded:
  assumes "store_inv s" and "claimLoginDispatch now i fence ow limit s = Inr (ok, s')"
  shows "(ok \<longrightarrow> count_rows (\<lambda>m. login_stage (stage m)) (members s') = count_rows (\<lambda>m. login_stage (stage m)) (members s) + 1 \<and>
      int (count_rows (\<lambda>m. login_stage (stage m)) (members s')) \<le> limit) \<and> (\<not> ok \<longrightarrow> s' = s)"
proof -
  obtain fa fg fs where f: "fence = (fa, fg, fs)" by (cases fence)
  show ?thesis
  proof (cases "(ok, s') = update now i [PStage ''oauth-dispatch''] (FenceRow fa fg (Some fs)) (Some ow) s \<and>
      (\<exists>m. inventory_row s i = Some m \<and> state m = Provisioning \<and> stage m = ''oauth-starting'' \<and>
        matchesFence m (FenceRow fa fg (Some fs)) \<and> matchesOwner now s (Some ow) \<and>
        int (count_rows (\<lambda>m. login_stage (stage m)) (members s)) < limit)")
    case True
    then obtain m where m: "inventory_row s i = Some m" "state m = Provisioning" "stage m = ''oauth-starting''"
      "matchesFence m (FenceRow fa fg (Some fs))" "matchesOwner now s (Some ow)"
      "int (count_rows (\<lambda>m. login_stage (stage m)) (members s)) < limit" by blast
    let ?g = "\<lambda>m. m\<lparr>stage := ''oauth-dispatch'', updated_at := now\<rparr>"
    have "update now i [PStage ''oauth-dispatch''] (FenceRow fa fg (Some fs)) (Some ow) s =
        (True, s\<lparr>members := update_where (\<lambda>m. identity m = i) ?g (members s)\<rparr>)"
      using m by (simp add: update_def Let_def)
    then have "ok" "members s' = update_where (\<lambda>m. identity m = i) ?g (members s)" using True by simp_all
    moreover have "m \<in> set (members s)" "identity m = i" "distinct (map identity (members s))"
      using m(1) assms(1) by (auto simp: store_inv_def keys_inv_def inventory_row_Some)
    ultimately show ?thesis using m(3,6) count_rows_update_one [of identity "members s" m i "\<lambda>m. login_stage (stage m)" ?g]
      by (simp add: login_stage_def)
  next
    case False
    then show ?thesis using assms(2) f
      by (auto simp: claimLoginDispatch_def not_less split: option.splits if_splits)
  qed
qed

definition example_starting :: store where
  "example_starting = snd (update 7 ''ada00'' [PStage ''oauth-starting''] NoFence None
     (snd (claimOwner 6 ''w'' (db example_reserved))))"

lemma example_starting_inv: "store_inv example_starting"
proof -
  have "run (pool_defaults True) (\<lambda>x. x) [''ada''] example_start example_reserved"
    unfolding example_reserved_def
    by (rule run_step, rule step_reserve) (simp add: example_start_def initial_world_def)
  from world_inv_run [OF this [unfolded example_start_def] world_inv_initial [OF registered_example]]
  have "store_inv (db example_reserved)" by (simp add: world_inv_def)
  then show ?thesis unfolding example_starting_def by (intro update.keeps_inv claimOwner.keeps_inv)
qed

theorem login_slots_bounded_witness:
  "\<exists>s'. claimLoginDispatch 9 ''ada00'' (''u'', 0, ''oauth-starting'') ''w'' 5 example_starting = Inr (True, s') \<and>
     count_rows (\<lambda>m. login_stage (stage m)) (members s') = count_rows (\<lambda>m. login_stage (stage m)) (members example_starting) + 1"
proof -
  let ?r = "claimLoginDispatch 9 ''ada00'' (''u'', 0, ''oauth-starting'') ''w'' 5 example_starting"
  have "map_sum (\<lambda>_. ()) fst ?r = Inr True" by code_simp
  then obtain s' where c: "?r = Inr (True, s')" by (cases ?r) auto
  then show ?thesis using login_slots_bounded [OF example_starting_inv c] by blast
qed

end
