(* ===== verification/Login_Tasks.thy ===== *)
theory Login_Tasks
  imports Pool_Prelude
begin

text \<open>
  The login service's task table: \<^verbatim>\<open>src/login/src/db/tasksRepo.ts\<close>, with the constraints of
  \<^verbatim>\<open>src/login/src/db/migrations.ts\<close>. A task belongs to one enterprise and one account; every
  authorization attempt of it is a row of \<open>login_task_attempts\<close>, and the task row repeats the status of
  its current attempt. An attempt identifier that may be \<open>undefined\<close> is an option; where a function
  has the current attempt as default argument, \<open>None\<close> selects it. New identifiers (UUIDs) and the
  time of the transaction are arguments.
\<close>

section \<open>Rows and records\<close>

datatype LoginTaskStatus = TaskPending | TaskRunning | TaskCancelling | TaskSuccess | TaskFailed | TaskCancelled

datatype SsoType = SsoCustom | SsoAzure

record LoginTaskRecord =
  lt_id :: string
  lt_enterprise :: string
  lt_identity :: string
  lt_sso_user :: string
  lt_gh_login :: "string option"
  lt_attempt :: "string option"
  lt_sso_type :: SsoType
  lt_status :: LoginTaskStatus
  lt_attempts :: int
  lt_failure_reason :: "string option"
  lt_log_path :: "string option"
  lt_created_at :: int
  lt_started_at :: "int option"
  lt_finished_at :: "int option"
  lt_stage :: "string option"
  lt_stage_updated_at :: "int option"
  lt_queued_at :: "int option"
  lt_failure_code :: "string option"

record TaskRow = LoginTaskRecord +
  lt_prior_stage :: "string option"

record AttemptRow =
  la_id :: string
  la_task :: string
  la_number :: int
  la_status :: LoginTaskStatus
  la_stage :: "string option"
  la_stage_updated_at :: "int option"
  la_queued_at :: int
  la_started_at :: "int option"
  la_finished_at :: "int option"
  la_failure_reason :: "string option"
  la_failure_code :: "string option"
  la_log_path :: "string option"
  la_history_incomplete :: bool

record LoginAttemptDto = LoginTaskRecord +
  dto_task_id :: string
  dto_number :: int
  dto_history_incomplete :: bool

record CreateTaskInput =
  ct_identity :: string
  ct_sso_user :: string
  ct_gh_login :: string
  ct_attempt :: string
  ct_sso_type :: SsoType

record LoginEnterpriseRow =
  le_id :: string
  le_fingerprint :: string
  le_created_at :: int

record login_db =
  login_enterprises :: "LoginEnterpriseRow list"
  login_tasks :: "TaskRow list"
  login_attempts :: "AttemptRow list"

definition login_enterprise_ids :: "login_db \<Rightarrow> string list" where
  "login_enterprise_ids d = map le_id (login_enterprises d)"

lemma login_enterprise_ids_simps [simp]:
  "login_enterprise_ids (d\<lparr>login_tasks := ts\<rparr>) = login_enterprise_ids d"
  "login_enterprise_ids (d\<lparr>login_attempts := as\<rparr>) = login_enterprise_ids d"
  by (simp_all add: login_enterprise_ids_def)

text \<open>
  Errors of the service: \<open>HttpApiError\<close> with status, code and message, any other \<open>Error\<close> with its
  message, and a constraint that the database reports.
\<close>

datatype login_error =
    HttpApiError int string string
  | OtherError string
  | ConstraintError string

type_synonym 'a login_res = "login_error + 'a"

fun error_message :: "login_error \<Rightarrow> string" where
  "error_message (HttpApiError st code msg) = msg"
| "error_message (OtherError msg) = msg"
| "error_message (ConstraintError msg) = msg"

fun isActiveStatus :: "LoginTaskStatus \<Rightarrow> bool" where
  "isActiveStatus TaskPending = True"
| "isActiveStatus TaskRunning = True"
| "isActiveStatus TaskCancelling = True"
| "isActiveStatus _ = False"

definition isFinishedStatus :: "LoginTaskStatus \<Rightarrow> bool" where
  "isFinishedStatus st \<longleftrightarrow> st \<in> {TaskSuccess, TaskFailed, TaskCancelled}"

fun status_text :: "LoginTaskStatus \<Rightarrow> string" where
  "status_text TaskPending = ''pending''"
| "status_text TaskRunning = ''running''"
| "status_text TaskCancelling = ''cancelling''"
| "status_text TaskSuccess = ''success''"
| "status_text TaskFailed = ''failed''"
| "status_text TaskCancelled = ''cancelled''"

text \<open>JavaScript's truth of an optional string: neither \<open>undefined\<close> nor empty.\<close>

definition truthy :: "string option \<Rightarrow> bool" where
  "truthy v \<longleftrightarrow> v \<noteq> None \<and> v \<noteq> Some []"

definition update_tasks :: "(TaskRow \<Rightarrow> bool) \<Rightarrow> (TaskRow \<Rightarrow> TaskRow) \<Rightarrow> login_db \<Rightarrow> login_db" where
  "update_tasks P f d = d\<lparr>login_tasks := update_where P f (login_tasks d)\<rparr>"

definition update_attempts :: "(AttemptRow \<Rightarrow> bool) \<Rightarrow> (AttemptRow \<Rightarrow> AttemptRow) \<Rightarrow> login_db \<Rightarrow> login_db" where
  "update_attempts P f d = d\<lparr>login_attempts := update_where P f (login_attempts d)\<rparr>"

section \<open>Reading\<close>

definition mapRow :: "TaskRow \<Rightarrow> LoginTaskRecord" where
  "mapRow row = LoginTaskRecord.truncate row"

definition task_row :: "string \<Rightarrow> string \<Rightarrow> login_db \<Rightarrow> TaskRow option" where
  "task_row x i d = List.find (\<lambda>t. lt_enterprise t = x \<and> lt_id t = i) (login_tasks d)"

definition getTask :: "string \<Rightarrow> string \<Rightarrow> login_db \<Rightarrow> LoginTaskRecord option" where
  "getTask x i d = map_option mapRow (task_row x i d)"

definition hasActiveTask :: "string \<Rightarrow> login_db \<Rightarrow> bool" where
  "hasActiveTask ident d = exists_row (\<lambda>t. lt_identity t = ident \<and> isActiveStatus (lt_status t)) (login_tasks d)"

definition mapAttempt :: "LoginTaskRecord \<Rightarrow> AttemptRow \<Rightarrow> LoginAttemptDto" where
  "mapAttempt task row =
     (let legacy = la_history_incomplete row \<and> la_id row = ''legacy-'' @ lt_id task
      in LoginTaskRecord.extend
        (task\<lparr>lt_id := la_id row, lt_attempt := (if legacy then None else Some (la_id row)), lt_status := la_status row,
          lt_stage := la_stage row, lt_stage_updated_at := la_stage_updated_at row, lt_queued_at := Some (la_queued_at row),
          lt_started_at := la_started_at row, lt_finished_at := la_finished_at row,
          lt_failure_reason := la_failure_reason row, lt_failure_code := la_failure_code row, lt_log_path := la_log_path row\<rparr>)
        (LoginAttemptDto.fields (lt_id task) (la_number row) (la_history_incomplete row)))"

text \<open>\<open>ORDER BY attempt_number DESC\<close>: the numbers of a task are unique.\<close>

definition listAttempts :: "string \<Rightarrow> string \<Rightarrow> login_db \<Rightarrow> LoginAttemptDto list" where
  "listAttempts x i d =
     (case getTask x i d of
        None \<Rightarrow> []
      | Some task \<Rightarrow> map (mapAttempt task) (rev (sort_key la_number (filter (\<lambda>a. la_task a = i) (login_attempts d)))))"

text \<open>The join of an attempt with its task: the task's identifier and enterprise.\<close>

definition attemptOwner :: "string \<Rightarrow> login_db \<Rightarrow> (string \<times> string) option" where
  "attemptOwner aid d =
     (case List.find (\<lambda>a. la_id a = aid) (login_attempts d) of
        None \<Rightarrow> None
      | Some a \<Rightarrow> map_option (\<lambda>t. (lt_id t, lt_enterprise t)) (List.find (\<lambda>t. lt_id t = la_task a) (login_tasks d)))"

definition getTaskByAttempt :: "string \<Rightarrow> string \<Rightarrow> login_db \<Rightarrow> LoginTaskRecord option" where
  "getTaskByAttempt x aid d =
     (case attemptOwner aid d of
        None \<Rightarrow> None
      | Some (task_id, owner) \<Rightarrow>
          if owner \<noteq> x then None
          else map_option (\<lambda>e. (LoginTaskRecord.truncate e)\<lparr>lt_id := dto_task_id e, lt_enterprise := x\<rparr>)
            (List.find (\<lambda>e. lt_id e = aid) (listAttempts x task_id d)))"

text \<open>\<open>ORDER BY created_at DESC LIMIT\<close>; rows of the same instant come in no documented order.\<close>

definition listTasks :: "string \<Rightarrow> nat \<Rightarrow> login_db \<Rightarrow> LoginTaskRecord list" where
  "listTasks x limit d =
     map mapRow (take limit (rev (sort_key lt_created_at (filter (\<lambda>t. lt_enterprise t = x) (login_tasks d)))))"

definition listUnfinishedTasks :: "string \<Rightarrow> login_db \<Rightarrow> LoginTaskRecord list" where
  "listUnfinishedTasks x d =
     map mapRow (filter (\<lambda>t. lt_enterprise t = x \<and> isActiveStatus (lt_status t)) (login_tasks d))"

text \<open>\<open>GROUP BY status\<close>: only statuses with rows are counted.\<close>

definition task_status_counts :: "string \<Rightarrow> login_db \<Rightarrow> (LoginTaskStatus \<times> nat) list" where
  "task_status_counts x d =
     filter (\<lambda>(st, n). n > 0)
       (map (\<lambda>st. (st, count_rows (\<lambda>t. lt_enterprise t = x \<and> lt_status t = st) (login_tasks d)))
         [TaskPending, TaskRunning, TaskCancelling, TaskSuccess, TaskFailed, TaskCancelled])"

definition summarizeTasks :: "string \<Rightarrow> login_db \<Rightarrow> nat \<times> (LoginTaskStatus \<times> nat) list" where
  "summarizeTasks x d = (let rows = task_status_counts x d in ((\<Sum>(_, n)\<leftarrow>rows. n), rows))"

section \<open>Creating tasks and attempts\<close>

definition isSameMapping :: "LoginTaskRecord \<Rightarrow> CreateTaskInput \<Rightarrow> bool" where
  "isSameMapping task inp \<longleftrightarrow> lt_attempt task = Some (ct_attempt inp) \<and> lt_identity task = ct_identity inp \<and>
     lt_sso_user task = ct_sso_user inp \<and> lt_gh_login task = Some (ct_gh_login inp) \<and> lt_sso_type task = ct_sso_type inp"

definition existingTaskForAttempt :: "string \<Rightarrow> string \<times> string \<Rightarrow> CreateTaskInput \<Rightarrow> login_db \<Rightarrow> LoginTaskRecord login_res" where
  "existingTaskForAttempt x owner inp d =
     (case (if snd owner = x then getTaskByAttempt x (ct_attempt inp) d else None) of
        None \<Rightarrow> Inl (HttpApiError 409 ''attempt_conflict'' ''The authorization attempt belongs to a different account mapping.'')
      | Some existing \<Rightarrow>
          if isSameMapping existing inp then Inr existing
          else Inl (HttpApiError 409 ''attempt_conflict'' ''The authorization attempt belongs to a different account mapping.''))"

definition new_task :: "int \<Rightarrow> string \<Rightarrow> string \<Rightarrow> CreateTaskInput \<Rightarrow> TaskRow" where
  "new_task now x i inp =
     \<lparr>lt_id = i, lt_enterprise = x, lt_identity = ct_identity inp, lt_sso_user = ct_sso_user inp,
      lt_gh_login = Some (ct_gh_login inp), lt_attempt = Some (ct_attempt inp), lt_sso_type = ct_sso_type inp,
      lt_status = TaskPending, lt_attempts = 0, lt_failure_reason = None, lt_log_path = None, lt_created_at = now,
      lt_started_at = None, lt_finished_at = None, lt_stage = Some ''queued'', lt_stage_updated_at = Some now,
      lt_queued_at = Some now, lt_failure_code = None, lt_prior_stage = None\<rparr>"

definition new_attempt :: "int \<Rightarrow> string \<Rightarrow> string \<Rightarrow> int \<Rightarrow> string \<Rightarrow> AttemptRow" where
  "new_attempt now task_id aid n stage =
     \<lparr>la_id = aid, la_task = task_id, la_number = n, la_status = TaskPending, la_stage = Some stage,
      la_stage_updated_at = Some now, la_queued_at = now, la_started_at = None, la_finished_at = None,
      la_failure_reason = None, la_failure_code = None, la_log_path = None, la_history_incomplete = False\<rparr>"

text \<open>Inserting an attempt: its primary key, its unique number within the task, and its task must hold.\<close>

definition insert_attempt :: "AttemptRow \<Rightarrow> login_db \<Rightarrow> login_db login_res" where
  "insert_attempt row d =
     (if exists_row (\<lambda>a. la_id a = la_id row) (login_attempts d) then Inl (ConstraintError ''login_task_attempts.id'')
      else if exists_row (\<lambda>a. la_task a = la_task row \<and> la_number a = la_number row) (login_attempts d)
      then Inl (ConstraintError ''idx_login_attempts_task_number'')
      else if \<not> exists_row (\<lambda>t. lt_id t = la_task row) (login_tasks d) then Inl (ConstraintError ''FOREIGN KEY'')
      else Inr (d\<lparr>login_attempts := login_attempts d @ [row]\<rparr>))"

definition insertTask :: "int \<Rightarrow> string \<Rightarrow> string \<Rightarrow> CreateTaskInput \<Rightarrow> login_db \<Rightarrow> login_db login_res" where
  "insertTask now x i inp d =
     (if exists_row (\<lambda>t. lt_id t = i) (login_tasks d) then Inl (ConstraintError ''login_tasks.id'')
      else if x \<notin> set (login_enterprise_ids d) then Inl (ConstraintError ''FOREIGN KEY'')
      else insert_attempt (new_attempt now i (ct_attempt inp) 1 ''queued'')
        (d\<lparr>login_tasks := login_tasks d @ [new_task now x i inp]\<rparr>))"

definition createTask :: "int \<Rightarrow> string \<Rightarrow> string \<Rightarrow> CreateTaskInput \<Rightarrow> login_db \<Rightarrow> (LoginTaskRecord option \<times> login_db) login_res" where
  "createTask now fresh x inp d =
     (case attemptOwner (ct_attempt inp) d of
        Some owner \<Rightarrow> map_sum id (\<lambda>task. (Some task, d)) (existingTaskForAttempt x owner inp d)
      | None \<Rightarrow>
          if hasActiveTask (ct_identity inp) d
          then Inl (HttpApiError 409 ''task_already_active'' ''This account already has an active login task.'')
          else map_sum id (\<lambda>d'. (getTask x fresh d', d')) (insertTask now x fresh inp d))"

text \<open>\<open>COALESCE(MAX(attempt_number), 0) + 1\<close> over the attempts of the task.\<close>

definition next_number :: "string \<Rightarrow> login_db \<Rightarrow> int" where
  "next_number task_id d =
     (case map la_number (filter (\<lambda>a. la_task a = task_id) (login_attempts d)) of
        [] \<Rightarrow> 1
      | n # ns \<Rightarrow> fold max ns n + 1)"

definition insertNextAttempt :: "int \<Rightarrow> string \<Rightarrow> string \<Rightarrow> login_db \<Rightarrow> login_db login_res" where
  "insertNextAttempt now task_id aid d =
     insert_attempt (new_attempt now task_id aid (next_number task_id d) ''preparing'') d"

definition retried_task :: "int \<Rightarrow> string \<Rightarrow> TaskRow \<Rightarrow> TaskRow" where
  "retried_task now aid t = t\<lparr>lt_attempt := Some aid, lt_status := TaskPending, lt_stage := Some ''preparing'',
     lt_stage_updated_at := Some now, lt_queued_at := Some now, lt_started_at := None, lt_finished_at := None,
     lt_failure_reason := None, lt_failure_code := None, lt_log_path := None\<rparr>"

definition reserveRetry :: "int \<Rightarrow> string \<Rightarrow> LoginTaskRecord \<Rightarrow> string \<Rightarrow> login_db \<Rightarrow> (LoginTaskRecord option \<times> login_db) login_res" where
  "reserveRetry now x task aid d =
     (if hasActiveTask (lt_identity task) d
      then Inl (HttpApiError 409 ''task_already_active'' ''This account already has an active login task.'')
      else
        let P = (\<lambda>t. lt_enterprise t = x \<and> lt_id t = lt_id task \<and> lt_status t = TaskFailed \<and> lt_attempt t = lt_attempt task \<and>
              lt_stage t \<noteq> Some ''deleting'')
        in if \<not> exists_row P (login_tasks d)
           then Inl (HttpApiError 409 ''task_changed'' ''The task changed or is not failed. Refresh before retrying.'')
           else map_sum id (\<lambda>d'. (getTask x (lt_id task) d', d'))
             (insertNextAttempt now (lt_id task) aid
               (update_tasks P (retried_task now aid) d)))"

section \<open>Progress of the current attempt\<close>

text \<open>The fence of every report: the task of the enterprise, at that attempt, in an admissible status.\<close>

definition at_attempt :: "string \<Rightarrow> string \<Rightarrow> string \<Rightarrow> (LoginTaskStatus \<Rightarrow> bool) \<Rightarrow> TaskRow \<Rightarrow> bool" where
  "at_attempt x i aid ok t \<longleftrightarrow> lt_enterprise t = x \<and> lt_id t = i \<and> lt_attempt t = Some aid \<and> ok (lt_status t)"

definition default_attempt :: "string \<Rightarrow> string \<Rightarrow> string option \<Rightarrow> login_db \<Rightarrow> string option" where
  "default_attempt x i attempt d =
     (case attempt of Some aid \<Rightarrow> Some aid | None \<Rightarrow> (case getTask x i d of None \<Rightarrow> None | Some t \<Rightarrow> lt_attempt t))"

definition setStage :: "int \<Rightarrow> string \<Rightarrow> string \<Rightarrow> string \<Rightarrow> string \<Rightarrow> login_db \<Rightarrow> login_db" where
  "setStage now x i aid stage d =
     (if \<not> exists_row (at_attempt x i aid isActiveStatus) (login_tasks d) then d
      else update_attempts (\<lambda>a. la_id a = aid) (\<lambda>a. a\<lparr>la_stage := Some stage, la_stage_updated_at := Some now\<rparr>)
        (update_tasks (at_attempt x i aid isActiveStatus)
          (\<lambda>t. t\<lparr>lt_stage := Some stage, lt_stage_updated_at := Some now\<rparr>) d))"

definition markRunning :: "int \<Rightarrow> string \<Rightarrow> string \<Rightarrow> string \<Rightarrow> string option \<Rightarrow> login_db \<Rightarrow> LoginTaskRecord option \<times> login_db" where
  "markRunning now x i logPath attempt d =
     (let attemptId = default_attempt x i attempt d; aid = the attemptId in
      if \<not> truthy attemptId \<or> \<not> exists_row (at_attempt x i aid (\<lambda>st. st = TaskPending)) (login_tasks d) then (None, d)
      else let d' = update_attempts (\<lambda>a. la_id a = aid)
                 (\<lambda>a. a\<lparr>la_status := TaskRunning, la_started_at := Some now, la_log_path := Some logPath\<rparr>)
               (update_tasks (at_attempt x i aid (\<lambda>st. st = TaskPending))
                 (\<lambda>t. t\<lparr>lt_status := TaskRunning, lt_attempts := lt_attempts t + 1, lt_started_at := Some now,
                    lt_finished_at := None, lt_failure_reason := None, lt_log_path := Some logPath\<rparr>) d)
        in (getTask x i d', d'))"

definition finishAttempt :: "int \<Rightarrow> string \<Rightarrow> string \<Rightarrow> string option \<Rightarrow> LoginTaskStatus \<Rightarrow> string option \<Rightarrow> string option \<Rightarrow>
    login_db \<Rightarrow> LoginTaskRecord option \<times> login_db" where
  "finishAttempt now x i attempt status reason code d =
     (let aid = the attempt in
      if \<not> truthy attempt \<or> \<not> exists_row (at_attempt x i aid isActiveStatus) (login_tasks d) then (getTask x i d, d)
      else let d' = update_attempts (\<lambda>a. la_id a = aid)
                 (\<lambda>a. a\<lparr>la_status := status, la_finished_at := Some now, la_failure_reason := reason, la_failure_code := code,
                    la_stage := Some (status_text status), la_stage_updated_at := Some now\<rparr>)
               (update_tasks (at_attempt x i aid isActiveStatus)
                 (\<lambda>t. t\<lparr>lt_status := status, lt_finished_at := Some now, lt_failure_reason := reason, lt_failure_code := code,
                    lt_stage := Some (status_text status), lt_stage_updated_at := Some now\<rparr>) d)
        in (getTask x i d', d'))"

definition markSuccess :: "int \<Rightarrow> string \<Rightarrow> string \<Rightarrow> string option \<Rightarrow> login_db \<Rightarrow> LoginTaskRecord option \<times> login_db" where
  "markSuccess now x i attempt d = finishAttempt now x i (default_attempt x i attempt d) TaskSuccess None None d"

definition markFailed :: "int \<Rightarrow> string \<Rightarrow> string \<Rightarrow> string \<Rightarrow> string option \<Rightarrow> string option \<Rightarrow> login_db \<Rightarrow> LoginTaskRecord option \<times> login_db" where
  "markFailed now x i reason attempt code d =
     finishAttempt now x i (default_attempt x i attempt d) TaskFailed (Some reason)
       (Some (case code of None \<Rightarrow> ''login_failed'' | Some c \<Rightarrow> c)) d"

definition markCancelled :: "int \<Rightarrow> string \<Rightarrow> string \<Rightarrow> string option \<Rightarrow> login_db \<Rightarrow> LoginTaskRecord option \<times> login_db" where
  "markCancelled now x i attempt d =
     finishAttempt now x i (default_attempt x i attempt d) TaskCancelled (Some ''Cancelled by request.'') (Some ''cancelled'') d"

definition requestCancellation :: "string \<Rightarrow> string \<Rightarrow> login_db \<Rightarrow> LoginTaskRecord option \<times> login_db" where
  "requestCancellation x i d =
     (let d1 = update_tasks (\<lambda>t. lt_enterprise t = x \<and> lt_id t = i \<and> lt_status t \<in> {TaskPending, TaskRunning})
            (\<lambda>t. t\<lparr>lt_status := TaskCancelling\<rparr>) d;
          d2 = (case getTask x i d1 of
              None \<Rightarrow> d1
            | Some task \<Rightarrow>
                if lt_status task \<noteq> TaskCancelling \<or> \<not> truthy (lt_attempt task) then d1
                else update_attempts (\<lambda>a. la_id a = the (lt_attempt task)) (\<lambda>a. a\<lparr>la_status := TaskCancelling\<rparr>) d1)
      in (getTask x i d2, d2))"

section \<open>Deletion and recovery\<close>

datatype deletion = Deleted | Claimed | NotFound | NotAllowed

text \<open>Deleting a task deletes its attempts (\<open>ON DELETE CASCADE\<close>).\<close>

definition deleteTask :: "string \<Rightarrow> string \<Rightarrow> login_db \<Rightarrow> deletion \<times> login_db" where
  "deleteTask x i d =
     (case getTask x i d of
        None \<Rightarrow> (NotFound, d)
      | Some task \<Rightarrow>
          if lt_status task \<in> {TaskPending, TaskRunning, TaskCancelling} then (NotAllowed, d)
          else let P = (\<lambda>t. lt_enterprise t = x \<and> lt_id t = i \<and> isFinishedStatus (lt_status t)) in
            if exists_row P (login_tasks d)
            then (Deleted, d\<lparr>login_tasks := filter (\<lambda>t. \<not> P t) (login_tasks d),
              login_attempts := filter (\<lambda>a. \<not> exists_row (\<lambda>t. P t \<and> lt_id t = la_task a) (login_tasks d)) (login_attempts d)\<rparr>)
            else (NotAllowed, d))"

definition claimTaskDeletion :: "string \<Rightarrow> string \<Rightarrow> login_db \<Rightarrow> deletion \<times> login_db" where
  "claimTaskDeletion x i d =
     (if getTask x i d = None then (NotFound, d)
      else let P = (\<lambda>t. lt_enterprise t = x \<and> lt_id t = i \<and> isFinishedStatus (lt_status t) \<and> lt_stage t \<noteq> Some ''deleting'') in
        (if exists_row P (login_tasks d) then Claimed else NotAllowed,
         update_tasks P (\<lambda>t. t\<lparr>lt_prior_stage := lt_stage t, lt_stage := Some ''deleting''\<rparr>) d))"

definition releaseTaskDeletion :: "string \<Rightarrow> string option \<Rightarrow> login_db \<Rightarrow> login_db" where
  "releaseTaskDeletion x i =
     update_tasks (\<lambda>t. lt_enterprise t = x \<and> lt_stage t = Some ''deleting'' \<and> isFinishedStatus (lt_status t) \<and>
         (i = None \<or> i = Some (lt_id t)))
       (\<lambda>t. t\<lparr>lt_stage := Some (case lt_prior_stage t of None \<Rightarrow> status_text (lt_status t) | Some st \<Rightarrow> st), lt_prior_stage := None\<rparr>)"

definition LEGACY_INTERRUPTED_REASON :: string where
  "LEGACY_INTERRUPTED_REASON = ''Legacy task interrupted; start a new authorization from the account.''"

definition failLegacyInterruptedTask :: "int \<Rightarrow> string \<Rightarrow> string \<Rightarrow> login_db \<Rightarrow> login_db" where
  "failLegacyInterruptedTask now x i d =
     (let P = (\<lambda>t. lt_enterprise t = x \<and> lt_id t = i \<and> lt_attempt t = None \<and> isActiveStatus (lt_status t)) in
      if \<not> exists_row P (login_tasks d) then d
      else update_attempts (\<lambda>a. la_task a = i \<and> isActiveStatus (la_status a))
          (\<lambda>a. a\<lparr>la_status := TaskFailed, la_stage := Some ''failed'', la_failure_code := Some ''service_interrupted'',
             la_failure_reason := Some LEGACY_INTERRUPTED_REASON, la_finished_at := Some now\<rparr>)
        (update_tasks P (\<lambda>t. t\<lparr>lt_status := TaskFailed, lt_failure_code := Some ''service_interrupted'',
             lt_failure_reason := Some LEGACY_INTERRUPTED_REASON, lt_finished_at := Some now\<rparr>) d))"

end
