(* ===== verification/Login_Invariant.thy ===== *)
theory Login_Invariant
  imports Login_Tasks
begin

text \<open>
  The invariant of the login service's tables and the contract of every operation that only moves
  tasks forward. \<open>progressed\<close> relates two states of the tables with the same rows: keys and mappings are
  kept, and the status of a task or an attempt only moves along
  pending, running, cancelling, finished. The locale \<open>progress_op\<close> states what such an operation
  promises; each operation that reports on an attempt is an interpretation.
\<close>

named_theorems progress \<open>facts about the progress of tasks\<close>

section \<open>The order of statuses\<close>

fun status_rank :: "LoginTaskStatus \<Rightarrow> nat" where
  "status_rank TaskPending = 0"
| "status_rank TaskRunning = 1"
| "status_rank TaskCancelling = 2"
| "status_rank _ = 3"

definition status_moves :: "LoginTaskStatus \<Rightarrow> LoginTaskStatus \<Rightarrow> bool" where
  "status_moves st st' \<longleftrightarrow> st = st' \<or> status_rank st < status_rank st'"

lemma status_moves_refl [simp, intro]: "status_moves st st"
  by (simp add: status_moves_def)

lemma status_moves_trans: "status_moves a b \<Longrightarrow> status_moves b c \<Longrightarrow> status_moves a c"
  by (auto simp: status_moves_def)

lemma active_rank: "isActiveStatus st \<longleftrightarrow> status_rank st < 3"
  by (cases st) auto

lemma finished_iff: "isFinishedStatus st \<longleftrightarrow> \<not> isActiveStatus st"
  by (cases st) (auto simp: isFinishedStatus_def)

lemma rank_le: "status_rank st \<le> 3"
  by (cases st) auto

lemma status_moves_active: "status_moves st st' \<Longrightarrow> isActiveStatus st' \<Longrightarrow> isActiveStatus st"
  by (auto simp: status_moves_def active_rank)

lemma finished_is_final: "status_moves st st' \<Longrightarrow> isFinishedStatus st \<Longrightarrow> st' = st"
  using rank_le [of st'] by (auto simp: status_moves_def finished_iff active_rank)

lemma moves_to_finished: "isActiveStatus st \<Longrightarrow> isFinishedStatus st' \<Longrightarrow> status_moves st st'"
  using rank_le [of st'] by (auto simp: status_moves_def finished_iff active_rank)

section \<open>The invariant\<close>

definition keys_inv :: "login_db \<Rightarrow> bool" where
  "keys_inv d \<longleftrightarrow> distinct (map lt_id (login_tasks d)) \<and> distinct (map la_id (login_attempts d)) \<and>
     distinct (map (\<lambda>a. (la_task a, la_number a)) (login_attempts d)) \<and>
     la_task ` set (login_attempts d) \<subseteq> lt_id ` set (login_tasks d) \<and>
     lt_enterprise ` set (login_tasks d) \<subseteq> set (login_enterprise_ids d) \<and> [] \<notin> la_id ` set (login_attempts d)"

definition exclusive_inv :: "login_db \<Rightarrow> bool" where
  "exclusive_inv d \<longleftrightarrow> (\<forall>t \<in> set (login_tasks d). \<forall>t' \<in> set (login_tasks d).
     isActiveStatus (lt_status t) \<longrightarrow> isActiveStatus (lt_status t') \<longrightarrow> lt_identity t = lt_identity t' \<longrightarrow> t = t')"

text \<open>
  A task's current attempt exists, has the task's status and the highest number of the task; an
  attempt that is not current is finished, or belongs to an active task from before attempts had
  identifiers.
\<close>

definition current_ok :: "login_db \<Rightarrow> TaskRow \<Rightarrow> bool" where
  "current_ok d t \<longleftrightarrow> (case lt_attempt t of
      None \<Rightarrow> True
    | Some aid \<Rightarrow> \<exists>a \<in> set (login_attempts d). la_id a = aid \<and> la_task a = lt_id t \<and> la_status a = lt_status t \<and>
        (\<forall>b \<in> set (login_attempts d). la_task b = lt_id t \<longrightarrow> la_number b \<le> la_number a))"

definition history_ok :: "login_db \<Rightarrow> AttemptRow \<Rightarrow> bool" where
  "history_ok d a \<longleftrightarrow> (isActiveStatus (la_status a) \<longrightarrow>
     (\<forall>t \<in> set (login_tasks d). lt_id t = la_task a \<longrightarrow>
        lt_attempt t = Some (la_id a) \<or> lt_attempt t = None \<and> isActiveStatus (lt_status t)))"

definition coherent :: "login_db \<Rightarrow> bool" where
  "coherent d \<longleftrightarrow> (\<forall>t \<in> set (login_tasks d). current_ok d t) \<and> (\<forall>a \<in> set (login_attempts d). history_ok d a)"

definition login_inv :: "login_db \<Rightarrow> bool" where
  "login_inv d \<longleftrightarrow> keys_inv d \<and> exclusive_inv d \<and> coherent d"

lemma login_inv_parts: "login_inv d \<Longrightarrow> keys_inv d" "login_inv d \<Longrightarrow> exclusive_inv d" "login_inv d \<Longrightarrow> coherent d"
  by (simp_all add: login_inv_def)

lemma keys_tasks: "keys_inv d \<Longrightarrow> distinct (map lt_id (login_tasks d))"
  by (simp add: keys_inv_def)

lemma keys_attempts: "keys_inv d \<Longrightarrow> distinct (map la_id (login_attempts d))"
  by (simp add: keys_inv_def)

lemma keys_nonempty: "keys_inv d \<Longrightarrow> a \<in> set (login_attempts d) \<Longrightarrow> la_id a \<noteq> []"
  unfolding keys_inv_def by (metis image_eqI)

lemma keys_task_of: "keys_inv d \<Longrightarrow> a \<in> set (login_attempts d) \<Longrightarrow> \<exists>t \<in> set (login_tasks d). lt_id t = la_task a"
  by (drule keys_inv_def [THEN iffD1, THEN conjunct2, THEN conjunct2, THEN conjunct2, THEN conjunct1]) force

lemma task_unique:
  "keys_inv d \<Longrightarrow> t \<in> set (login_tasks d) \<Longrightarrow> t' \<in> set (login_tasks d) \<Longrightarrow> lt_id t = lt_id t' \<Longrightarrow> t = t'"
  using distinct_map_eqD [OF keys_tasks] by blast

lemma attempt_unique:
  "keys_inv d \<Longrightarrow> a \<in> set (login_attempts d) \<Longrightarrow> b \<in> set (login_attempts d) \<Longrightarrow> la_id a = la_id b \<Longrightarrow> a = b"
  using distinct_map_eqD [OF keys_attempts] by blast

lemma exclusive_eq:
  "exclusive_inv d \<Longrightarrow> t \<in> set (login_tasks d) \<Longrightarrow> t' \<in> set (login_tasks d) \<Longrightarrow> isActiveStatus (lt_status t) \<Longrightarrow>
     isActiveStatus (lt_status t') \<Longrightarrow> lt_identity t = lt_identity t' \<Longrightarrow> t = t'"
  unfolding exclusive_inv_def by blast

lemma coherent_current: "coherent d \<Longrightarrow> t \<in> set (login_tasks d) \<Longrightarrow> current_ok d t"
  by (simp add: coherent_def)

lemma coherent_history: "coherent d \<Longrightarrow> a \<in> set (login_attempts d) \<Longrightarrow> history_ok d a"
  by (simp add: coherent_def)

lemma task_row_Some:
  assumes "keys_inv d"
  shows "task_row x i d = Some t \<longleftrightarrow> t \<in> set (login_tasks d) \<and> lt_enterprise t = x \<and> lt_id t = i"
proof
  assume "task_row x i d = Some t"
  then show "t \<in> set (login_tasks d) \<and> lt_enterprise t = x \<and> lt_id t = i"
    unfolding task_row_def by (auto dest: find_Some_mem)
next
  assume t: "t \<in> set (login_tasks d) \<and> lt_enterprise t = x \<and> lt_id t = i"
  then obtain t' where t': "task_row x i d = Some t'"
    unfolding task_row_def by (metis (mono_tags, lifting) find_None_mem not_None_eq)
  then have "t' \<in> set (login_tasks d) \<and> lt_id t' = i" unfolding task_row_def by (auto dest: find_Some_mem)
  then have "t' = t" using task_unique [OF assms] t by blast
  then show "task_row x i d = Some t" using t' by simp
qed

lemma task_row_None: "task_row x i d = None \<longleftrightarrow> (\<forall>t \<in> set (login_tasks d). \<not> (lt_enterprise t = x \<and> lt_id t = i))"
  by (simp add: task_row_def find_None_mem)

lemma mapRow_simps [simp]:
  "lt_id (mapRow t) = lt_id t" "lt_enterprise (mapRow t) = lt_enterprise t" "lt_identity (mapRow t) = lt_identity t"
  "lt_attempt (mapRow t) = lt_attempt t" "lt_status (mapRow t) = lt_status t" "lt_stage (mapRow t) = lt_stage t"
  "lt_sso_user (mapRow t) = lt_sso_user t" "lt_gh_login (mapRow t) = lt_gh_login t" "lt_sso_type (mapRow t) = lt_sso_type t"
  by (simp_all add: mapRow_def LoginTaskRecord.truncate_def)

section \<open>Progress\<close>

definition task_progress :: "TaskRow \<Rightarrow> TaskRow \<Rightarrow> bool" where
  "task_progress t t' \<longleftrightarrow> lt_id t' = lt_id t \<and> lt_enterprise t' = lt_enterprise t \<and> lt_identity t' = lt_identity t \<and>
     lt_sso_user t' = lt_sso_user t \<and> lt_gh_login t' = lt_gh_login t \<and> lt_sso_type t' = lt_sso_type t \<and>
     lt_attempt t' = lt_attempt t \<and> lt_created_at t' = lt_created_at t \<and> status_moves (lt_status t) (lt_status t')"

definition attempt_progress :: "AttemptRow \<Rightarrow> AttemptRow \<Rightarrow> bool" where
  "attempt_progress a a' \<longleftrightarrow> la_id a' = la_id a \<and> la_task a' = la_task a \<and> la_number a' = la_number a \<and>
     la_queued_at a' = la_queued_at a \<and> status_moves (la_status a) (la_status a')"

definition progressed :: "login_db \<Rightarrow> login_db \<Rightarrow> bool" where
  "progressed d d' \<longleftrightarrow> login_enterprise_ids d' = login_enterprise_ids d \<and>
     list_all2 task_progress (login_tasks d) (login_tasks d') \<and>
     list_all2 attempt_progress (login_attempts d) (login_attempts d')"

lemma task_progress_refl [simp]: "task_progress t t"
  by (simp add: task_progress_def)

lemma attempt_progress_refl [simp]: "attempt_progress a a"
  by (simp add: attempt_progress_def)

lemma progressed_refl [simp]: "progressed d d"
  by (simp add: progressed_def list.rel_refl)

lemma task_progress_trans: "task_progress t u \<Longrightarrow> task_progress u v \<Longrightarrow> task_progress t v"
  using status_moves_trans [of "lt_status t" "lt_status u" "lt_status v"] by (simp add: task_progress_def)

lemma attempt_progress_trans: "attempt_progress a b \<Longrightarrow> attempt_progress b c \<Longrightarrow> attempt_progress a c"
  using status_moves_trans [of "la_status a" "la_status b" "la_status c"] by (simp add: attempt_progress_def)

lemma progressed_trans: "progressed d d1 \<Longrightarrow> progressed d1 d2 \<Longrightarrow> progressed d d2"
  unfolding progressed_def
  using list_all2_trans [of task_progress task_progress task_progress "login_tasks d" "login_tasks d1" "login_tasks d2", OF task_progress_trans]
    list_all2_trans [of attempt_progress attempt_progress attempt_progress "login_attempts d" "login_attempts d1" "login_attempts d2",
      OF attempt_progress_trans]
  by simp

lemma progressed_update_tasks:
  "(\<And>t. t \<in> set (login_tasks d) \<Longrightarrow> P t \<Longrightarrow> task_progress t (f t)) \<Longrightarrow> progressed d (update_tasks P f d)"
  by (auto simp: progressed_def update_tasks_def intro!: list_all2_update_where list.rel_refl)

lemma progressed_update_attempts:
  "(\<And>a. a \<in> set (login_attempts d) \<Longrightarrow> P a \<Longrightarrow> attempt_progress a (f a)) \<Longrightarrow> progressed d (update_attempts P f d)"
  by (auto simp: progressed_def update_attempts_def intro!: list_all2_update_where list.rel_refl)

lemma list_all2_map_eq: "list_all2 R xs ys \<Longrightarrow> (\<And>x y. R x y \<Longrightarrow> g y = g x) \<Longrightarrow> map g ys = map g xs"
  by (induction rule: list_all2_induct) auto

lemma list_all2_memD: "list_all2 R xs ys \<Longrightarrow> y \<in> set ys \<Longrightarrow> \<exists>x \<in> set xs. R x y"
  by (induction rule: list_all2_induct) auto

lemma list_all2_memI: "list_all2 R xs ys \<Longrightarrow> x \<in> set xs \<Longrightarrow> \<exists>y \<in> set ys. R x y"
  by (induction rule: list_all2_induct) auto

lemma progressed_maps:
  assumes "progressed d d'"
  shows "map lt_id (login_tasks d') = map lt_id (login_tasks d)"
    and "map lt_enterprise (login_tasks d') = map lt_enterprise (login_tasks d)"
    and "map la_id (login_attempts d') = map la_id (login_attempts d)"
    and "map la_task (login_attempts d') = map la_task (login_attempts d)"
    and "map (\<lambda>a. (la_task a, la_number a)) (login_attempts d') = map (\<lambda>a. (la_task a, la_number a)) (login_attempts d)"
    and "login_enterprise_ids d' = login_enterprise_ids d"
  using assms unfolding progressed_def
  by (auto intro: list_all2_map_eq [of task_progress] list_all2_map_eq [of attempt_progress]
      simp: task_progress_def attempt_progress_def)

lemma progressed_task_back:
  "progressed d d' \<Longrightarrow> t' \<in> set (login_tasks d') \<Longrightarrow> \<exists>t \<in> set (login_tasks d). task_progress t t'"
  unfolding progressed_def using list_all2_memD [of task_progress] by blast

lemma progressed_task_forth:
  "progressed d d' \<Longrightarrow> t \<in> set (login_tasks d) \<Longrightarrow> \<exists>t' \<in> set (login_tasks d'). task_progress t t'"
  unfolding progressed_def using list_all2_memI [of task_progress] by blast

lemma progressed_attempt_back:
  "progressed d d' \<Longrightarrow> a' \<in> set (login_attempts d') \<Longrightarrow> \<exists>a \<in> set (login_attempts d). attempt_progress a a'"
  unfolding progressed_def using list_all2_memD [of attempt_progress] by blast

lemma progressed_attempt_forth:
  "progressed d d' \<Longrightarrow> a \<in> set (login_attempts d) \<Longrightarrow> \<exists>a' \<in> set (login_attempts d'). attempt_progress a a'"
  unfolding progressed_def using list_all2_memI [of attempt_progress] by blast

lemma set_map_eq: "map g xs = map g ys \<Longrightarrow> g ` set xs = g ` set ys"
  by (metis set_map)

lemma keys_progressed:
  assumes "keys_inv d" and p: "progressed d d'"
  shows "keys_inv d'"
  using assms(1) progressed_maps [OF p] set_map_eq [OF progressed_maps(1) [OF p]]
    set_map_eq [OF progressed_maps(2) [OF p]] set_map_eq [OF progressed_maps(3) [OF p]] set_map_eq [OF progressed_maps(4) [OF p]]
  by (simp add: keys_inv_def)

lemma exclusive_progressed:
  assumes k: "keys_inv d" and x: "exclusive_inv d" and p: "progressed d d'"
  shows "exclusive_inv d'"
  unfolding exclusive_inv_def
proof (intro ballI impI)
  fix t u assume tu: "t \<in> set (login_tasks d')" "u \<in> set (login_tasks d')" "isActiveStatus (lt_status t)"
    "isActiveStatus (lt_status u)" "lt_identity t = lt_identity u"
  obtain t0 u0 where *: "t0 \<in> set (login_tasks d)" "task_progress t0 t" "u0 \<in> set (login_tasks d)" "task_progress u0 u"
    using progressed_task_back [OF p tu(1)] progressed_task_back [OF p tu(2)] by blast
  then have "isActiveStatus (lt_status t0)" "isActiveStatus (lt_status u0)" "lt_identity t0 = lt_identity u0"
    using tu status_moves_active by (auto simp: task_progress_def)
  then have "t0 = u0" using exclusive_eq [OF x] * by blast
  then have "lt_id t = lt_id u" using * by (simp add: task_progress_def)
  then show "t = u" using task_unique [OF keys_progressed [OF k p] tu(1,2)] by blast
qed

locale progress_op =
  fixes op :: "login_db \<Rightarrow> login_db"
  assumes progress: "login_inv d \<Longrightarrow> progressed d (op d)"
    and keeps_coherent: "login_inv d \<Longrightarrow> coherent (op d)"
begin

lemma inv: "login_inv d \<Longrightarrow> login_inv (op d)"
  using progress [of d] keeps_coherent [of d] keys_progressed [of d "op d"] exclusive_progressed [of d "op d"]
  by (simp add: login_inv_def)

lemma finished_attempt_final:
  assumes "login_inv d" "a \<in> set (login_attempts d)" "isFinishedStatus (la_status a)"
  shows "\<exists>a' \<in> set (login_attempts (op d)). la_id a' = la_id a \<and> la_status a' = la_status a"
  using progressed_attempt_forth [OF progress [OF assms(1)] assms(2)] finished_is_final [OF _ assms(3)]
  unfolding attempt_progress_def by blast

end

section \<open>Reports on an attempt\<close>

lemma update_tasks_simps [simp]:
  "login_attempts (update_tasks P f d) = login_attempts d"
  "login_tasks (update_tasks P f d) = update_where P f (login_tasks d)"
  "login_enterprise_ids (update_tasks P f d) = login_enterprise_ids d"
  by (simp_all add: update_tasks_def)

lemma update_attempts_simps [simp]:
  "login_tasks (update_attempts P f d) = login_tasks d"
  "login_attempts (update_attempts P f d) = update_where P f (login_attempts d)"
  "login_enterprise_ids (update_attempts P f d) = login_enterprise_ids d"
  by (simp_all add: update_attempts_def)

lemma update_where_none: "(\<And>r. r \<in> set rs \<Longrightarrow> \<not> P r) \<Longrightarrow> update_where P f rs = rs"
  by (induction rs) auto

lemma update_tasks_none: "(\<And>t. t \<in> set (login_tasks d) \<Longrightarrow> \<not> P t) \<Longrightarrow> update_tasks P f d = d"
  by (simp add: update_tasks_def update_where_none)

lemma current_attemptE:
  assumes "coherent d" "t \<in> set (login_tasks d)" "lt_attempt t = Some aid"
  obtains a where "a \<in> set (login_attempts d)" "la_id a = aid" "la_task a = lt_id t" "la_status a = lt_status t"
    "\<forall>b \<in> set (login_attempts d). la_task b = lt_id t \<longrightarrow> la_number b \<le> la_number a"
  using coherent_current [OF assms(1,2)] assms(3) by (auto simp: current_ok_def)

lemma current_is_own:
  assumes i: "login_inv d" and t: "t \<in> set (login_tasks d)" "lt_attempt t = Some aid"
    and a: "a \<in> set (login_attempts d)" "la_id a = aid"
  shows "la_task a = lt_id t" and "la_status a = lt_status t"
proof -
  obtain b where b: "b \<in> set (login_attempts d)" "la_id b = aid" "la_task b = lt_id t" "la_status b = lt_status t"
    using current_attemptE [OF login_inv_parts(3) [OF i] t] by metis
  then have "b = a" using attempt_unique [OF login_inv_parts(1) [OF i]] a by blast
  then show "la_task a = lt_id t" "la_status a = lt_status t" using b by simp_all
qed

lemma current_attempt_injective:
  assumes i: "login_inv d" and "t \<in> set (login_tasks d)" "lt_attempt t = Some aid" "u \<in> set (login_tasks d)" "lt_attempt u = Some aid"
  shows "t = u"
proof -
  obtain a where a: "a \<in> set (login_attempts d)" "la_id a = aid" "la_task a = lt_id t"
    using current_attemptE [OF login_inv_parts(3) [OF i] assms(2,3)] by metis
  then have "la_task a = lt_id u" using current_is_own(1) [OF i assms(4,5) a(1,2)] by simp
  then show ?thesis using a(3) task_unique [OF login_inv_parts(1) [OF i] assms(2,4)] by simp
qed

lemma coherentI:
  "(\<And>t. t \<in> set (login_tasks d) \<Longrightarrow> current_ok d t) \<Longrightarrow> (\<And>a. a \<in> set (login_attempts d) \<Longrightarrow> history_ok d a) \<Longrightarrow> coherent d"
  by (simp add: coherent_def)

lemma current_okI:
  "lt_attempt t = Some aid \<Longrightarrow> a \<in> set (login_attempts d) \<Longrightarrow> la_id a = aid \<Longrightarrow> la_task a = lt_id t \<Longrightarrow> la_status a = lt_status t \<Longrightarrow>
     \<forall>b \<in> set (login_attempts d). la_task b = lt_id t \<longrightarrow> la_number b \<le> la_number a \<Longrightarrow> current_ok d t"
  by (auto simp: current_ok_def)

lemma current_ok_None: "lt_attempt t = None \<Longrightarrow> current_ok d t"
  by (simp add: current_ok_def)

lemma history_okI:
  "(\<And>t. isActiveStatus (la_status a) \<Longrightarrow> t \<in> set (login_tasks d) \<Longrightarrow> lt_id t = la_task a \<Longrightarrow>
      lt_attempt t = Some (la_id a) \<or> lt_attempt t = None \<and> isActiveStatus (lt_status t)) \<Longrightarrow> history_ok d a"
  by (auto simp: history_ok_def)

lemma history_okD:
  "history_ok d a \<Longrightarrow> isActiveStatus (la_status a) \<Longrightarrow> t \<in> set (login_tasks d) \<Longrightarrow> lt_id t = la_task a \<Longrightarrow>
     lt_attempt t = Some (la_id a) \<or> lt_attempt t = None \<and> isActiveStatus (lt_status t)"
  by (simp add: history_ok_def)

text \<open>A change of one task together with its current attempt.\<close>

lemma report_ok:
  assumes i: "login_inv d" and t1: "t1 \<in> set (login_tasks d)" "lt_attempt t1 = Some aid"
    and P: "\<And>t. t \<in> set (login_tasks d) \<Longrightarrow> P t \<Longrightarrow> t = t1"
    and f: "P t1 \<Longrightarrow> task_progress t1 (f t1)"
    and g: "\<And>a. la_status a = lt_status t1 \<Longrightarrow>
      attempt_progress a (g a) \<and> la_status (g a) = lt_status (if P t1 then f t1 else t1)"
  shows "progressed d (update_attempts (\<lambda>a. la_id a = aid) g (update_tasks P f d)) \<and>
    coherent (update_attempts (\<lambda>a. la_id a = aid) g (update_tasks P f d))" (is "progressed d ?d \<and> _")
proof
  define F where "F t = (if P t then f t else t)" for t
  define G where "G a = (if la_id a = aid then g a else a)" for a
  have F: "F t = t" if "t \<in> set (login_tasks d)" "t \<noteq> t1" for t using P that by (auto simp: F_def)
  have Fp: "task_progress t (F t)" if "t \<in> set (login_tasks d)" for t
    using f F [OF that] by (cases "t = t1") (auto simp: F_def)
  have Gp: "attempt_progress a (G a)" if "a \<in> set (login_attempts d)" for a
    using g [of a] current_is_own(2) [OF i t1 that] by (auto simp: G_def)
  have Fk: "lt_id (F t) = lt_id t" "lt_attempt (F t) = lt_attempt t" if "t \<in> set (login_tasks d)" for t
    using Fp [OF that] by (simp_all add: task_progress_def)
  have Gk: "la_id (G a) = la_id a" "la_task (G a) = la_task a" "la_number (G a) = la_number a" if "a \<in> set (login_attempts d)" for a
    using Gp [OF that] by (simp_all add: attempt_progress_def)
  have sets: "set (login_tasks ?d) = F ` set (login_tasks d)" "set (login_attempts ?d) = G ` set (login_attempts d)"
    by (simp_all add: rows F_def G_def)
  show p: "progressed d ?d"
  proof (intro progressed_trans [OF progressed_update_tasks progressed_update_attempts])
    show "task_progress t (f t)" if "t \<in> set (login_tasks d)" "P t" for t using Fp [OF that(1)] that(2) by (simp add: F_def)
    show "attempt_progress a (g a)" if "a \<in> set (login_attempts (update_tasks P f d))" "la_id a = aid" for a
      using Gp [of a] that by (simp add: G_def)
  qed
  show "coherent ?d"
  proof (rule coherentI)
    show "current_ok ?d t'" if t': "t' \<in> set (login_tasks ?d)" for t'
    proof (cases "lt_attempt t'")
      case (Some b)
      obtain t where t: "t \<in> set (login_tasks d)" "t' = F t" using t' sets by blast
      then have tb: "lt_attempt t = Some b" using Some Fk by simp
      then obtain a where a: "a \<in> set (login_attempts d)" "la_id a = b" "la_task a = lt_id t" "la_status a = lt_status t"
        "\<forall>b \<in> set (login_attempts d). la_task b = lt_id t \<longrightarrow> la_number b \<le> la_number a"
        using current_attemptE [OF login_inv_parts(3) [OF i] t(1)] by metis
      have "la_status (G a) = lt_status t'"
      proof (cases "t = t1")
        case True
        then show ?thesis using g [of a] a t tb t1 by (simp add: F_def G_def)
      next
        case False
        then have "b \<noteq> aid" using current_attempt_injective [OF i t(1) _ t1] tb by blast
        then show ?thesis using F [OF t(1) False] a t by (simp add: G_def)
      qed
      moreover have "G a \<in> set (login_attempts ?d)" using a(1) sets by blast
      moreover have "\<forall>c \<in> set (login_attempts ?d). la_task c = lt_id t' \<longrightarrow> la_number c \<le> la_number (G a)"
        using a(5) Gk a(1) Fk [OF t(1)] t(2) unfolding sets by simp
      moreover have "la_id (G a) = b" "la_task (G a) = lt_id t'" using a t Gk Fk by simp_all
      ultimately show ?thesis using current_okI [OF Some] by blast
    qed (rule current_ok_None)
    show "history_ok ?d a'" if a': "a' \<in> set (login_attempts ?d)" for a'
    proof (rule history_okI)
      fix t' assume act: "isActiveStatus (la_status a')" and t': "t' \<in> set (login_tasks ?d)" "lt_id t' = la_task a'"
      then obtain t a where t: "t \<in> set (login_tasks d)" "t' = F t" and a: "a \<in> set (login_attempts d)" "a' = G a"
        using a' sets by blast
      have ta: "lt_id t = la_task a" using t' t a Gk Fk by simp
      show "lt_attempt t' = Some (la_id a') \<or> lt_attempt t' = None \<and> isActiveStatus (lt_status t')"
      proof (cases "la_id a = aid")
        case True
        then have "lt_id t = lt_id t1" using current_is_own(1) [OF i t1 a(1)] ta by simp
        then have "t = t1" using task_unique [OF login_inv_parts(1) [OF i] t(1) t1(1)] by simp
        then show ?thesis using True t1 t a Gk Fk by simp
      next
        case False
        then have "lt_attempt t = Some (la_id a) \<or> lt_attempt t = None \<and> isActiveStatus (lt_status t)"
          using history_okD [OF coherent_history [OF login_inv_parts(3) [OF i] a(1)] _ t(1) ta] act a by (simp add: G_def)
        moreover have "t' = t" if "lt_attempt t = None" using F [OF t(1)] t1 that t(2) by force
        ultimately show ?thesis using t a Gk Fk by auto
      qed
    qed
  qed
qed

lemma current_ok_cong:
  "login_attempts d' = login_attempts d \<Longrightarrow> lt_id t' = lt_id t \<Longrightarrow> lt_attempt t' = lt_attempt t \<Longrightarrow> lt_status t' = lt_status t \<Longrightarrow>
     current_ok d' t' = current_ok d t"
  by (cases "lt_attempt t") (simp_all add: current_ok_def)

text \<open>A change of task rows that keeps attempts and statuses.\<close>

lemma coherent_same_status:
  assumes "coherent d" and f: "\<And>t. lt_id (f t) = lt_id t \<and> lt_attempt (f t) = lt_attempt t \<and> lt_status (f t) = lt_status t"
  shows "coherent (update_tasks P f d)"
proof (rule coherentI)
  show "current_ok (update_tasks P f d) t" if "t \<in> set (login_tasks (update_tasks P f d))" for t
  proof -
    obtain u where u: "u \<in> set (login_tasks d)" "t = (if P u then f u else u)" using \<open>t \<in> _\<close> by (auto simp: rows)
    have "current_ok (update_tasks P f d) t = current_ok d u" using u(2) f by (intro current_ok_cong) auto
    then show ?thesis using coherent_current [OF assms(1) u(1)] by simp
  qed
  show "history_ok (update_tasks P f d) a" if "a \<in> set (login_attempts (update_tasks P f d))" for a
  proof (rule history_okI)
    fix t assume act: "isActiveStatus (la_status a)" and t: "t \<in> set (login_tasks (update_tasks P f d))" "lt_id t = la_task a"
    obtain u where u: "u \<in> set (login_tasks d)" "t = (if P u then f u else u)" using t by (auto simp: rows)
    have "lt_id u = la_task a" "lt_attempt t = lt_attempt u" "lt_status t = lt_status u" using u(2) t(2) f [of u] by (auto split: if_splits)
    then show "lt_attempt t = Some (la_id a) \<or> lt_attempt t = None \<and> isActiveStatus (lt_status t)"
      using history_okD [OF coherent_history [OF assms(1)] act u(1)] \<open>a \<in> _\<close> by simp
  qed
qed

lemma at_attempt_unique:
  assumes i: "login_inv d" and t: "t \<in> set (login_tasks d)" "at_attempt x i0 aid ok t" and u: "u \<in> set (login_tasks d)" "at_attempt x i0 aid ok u"
  shows "u = t"
  using task_unique [OF login_inv_parts(1) [OF i] u(1) t(1)] t u by (simp add: at_attempt_def)

text \<open>
  The two shapes of an operation that reports on an attempt: it changes nothing, or it changes the task
  at that attempt together with the attempt.
\<close>

lemma report_attempt_ok:
  assumes inv: "login_inv d" and t: "exists_row (at_attempt x i aid ok) (login_tasks d)"
    and f: "\<And>t. ok (lt_status t) \<Longrightarrow> task_progress t (f t)"
    and g: "\<And>a t. ok (lt_status t) \<Longrightarrow> la_status a = lt_status t \<Longrightarrow> attempt_progress a (g a) \<and> la_status (g a) = lt_status (f t)"
  shows "progressed d (update_attempts (\<lambda>a. la_id a = aid) g (update_tasks (at_attempt x i aid ok) f d)) \<and>
    coherent (update_attempts (\<lambda>a. la_id a = aid) g (update_tasks (at_attempt x i aid ok) f d))"
proof -
  obtain t where t: "t \<in> set (login_tasks d)" "at_attempt x i aid ok t" using t by (auto simp: rows)
  then have ok: "lt_attempt t = Some aid" "ok (lt_status t)" by (simp_all add: at_attempt_def)
  show ?thesis
    by (rule report_ok [OF inv t(1) ok(1)]) (use at_attempt_unique [OF inv t] f [OF ok(2)] g [OF ok(2)] t(2) in auto)
qed

interpretation setStage: progress_op "setStage now x i aid stage"
proof unfold_locales
  fix d assume inv: "login_inv d"
  have "progressed d (setStage now x i aid stage d) \<and> coherent (setStage now x i aid stage d)"
  proof (cases "exists_row (at_attempt x i aid isActiveStatus) (login_tasks d)")
    case True
    show ?thesis unfolding setStage_def using True
      by (simp, intro report_attempt_ok [OF inv True]) (simp_all add: task_progress_def attempt_progress_def)
  qed (simp add: setStage_def login_inv_parts(3) [OF inv])
  then show "progressed d (setStage now x i aid stage d)" "coherent (setStage now x i aid stage d)" by simp_all
qed

lemma markRunning_cases:
  obtains "snd (markRunning now x i logPath attempt d) = d"
  | aid where "default_attempt x i attempt d = Some aid" "exists_row (at_attempt x i aid (\<lambda>st. st = TaskPending)) (login_tasks d)"
      "snd (markRunning now x i logPath attempt d) =
         update_attempts (\<lambda>a. la_id a = aid)
           (\<lambda>a. a\<lparr>la_status := TaskRunning, la_started_at := Some now, la_log_path := Some logPath\<rparr>)
         (update_tasks (at_attempt x i aid (\<lambda>st. st = TaskPending))
           (\<lambda>t. t\<lparr>lt_status := TaskRunning, lt_attempts := lt_attempts t + 1, lt_started_at := Some now,
              lt_finished_at := None, lt_failure_reason := None, lt_log_path := Some logPath\<rparr>) d)"
proof (cases "truthy (default_attempt x i attempt d) \<and>
    exists_row (at_attempt x i (the (default_attempt x i attempt d)) (\<lambda>st. st = TaskPending)) (login_tasks d)")
  case True
  moreover from this obtain aid where "default_attempt x i attempt d = Some aid" by (auto simp: truthy_def)
  ultimately show ?thesis using that(2) [of aid] by (simp add: markRunning_def Let_def)
next
  case False
  then show ?thesis using that(1) by (auto simp: markRunning_def Let_def)
qed

interpretation markRunning: progress_op "\<lambda>d. snd (markRunning now x i logPath attempt d)"
proof unfold_locales
  fix d assume inv: "login_inv d"
  have "progressed d (snd (markRunning now x i logPath attempt d)) \<and> coherent (snd (markRunning now x i logPath attempt d))"
  proof (cases rule: markRunning_cases [of now x i logPath attempt d])
    case (2 aid)
    show ?thesis unfolding 2(3)
      by (rule report_attempt_ok [OF inv 2(2)]) (simp_all add: task_progress_def attempt_progress_def status_moves_def)
  qed (simp add: login_inv_parts(3) [OF inv])
  then show "progressed d (snd (markRunning now x i logPath attempt d))" "coherent (snd (markRunning now x i logPath attempt d))"
    by simp_all
qed

lemma finishAttempt_cases:
  obtains "snd (finishAttempt now x i attempt st reason code d) = d"
    "\<not> truthy attempt \<or> \<not> exists_row (at_attempt x i (the attempt) isActiveStatus) (login_tasks d)"
  | aid where "attempt = Some aid" "exists_row (at_attempt x i aid isActiveStatus) (login_tasks d)"
      "snd (finishAttempt now x i attempt st reason code d) =
         update_attempts (\<lambda>a. la_id a = aid)
           (\<lambda>a. a\<lparr>la_status := st, la_finished_at := Some now, la_failure_reason := reason, la_failure_code := code,
              la_stage := Some (status_text st), la_stage_updated_at := Some now\<rparr>)
         (update_tasks (at_attempt x i aid isActiveStatus)
           (\<lambda>t. t\<lparr>lt_status := st, lt_finished_at := Some now, lt_failure_reason := reason, lt_failure_code := code,
              lt_stage := Some (status_text st), lt_stage_updated_at := Some now\<rparr>) d)"
proof (cases "truthy attempt \<and> exists_row (at_attempt x i (the attempt) isActiveStatus) (login_tasks d)")
  case True
  moreover from this obtain aid where "attempt = Some aid" by (auto simp: truthy_def)
  ultimately show ?thesis using that(2) [of aid] by (simp add: finishAttempt_def Let_def)
next
  case False
  then show ?thesis using that(1) by (auto simp: finishAttempt_def Let_def)
qed

lemma finishAttempt_ok:
  assumes inv: "login_inv d" and st: "isFinishedStatus st"
  shows "progressed d (snd (finishAttempt now x i attempt st reason code d)) \<and> coherent (snd (finishAttempt now x i attempt st reason code d))"
proof (cases rule: finishAttempt_cases [of now x i attempt st reason code d])
  case (2 aid)
  show ?thesis unfolding 2(3)
    by (rule report_attempt_ok [OF inv 2(2)]) (simp_all add: task_progress_def attempt_progress_def moves_to_finished st)
qed (simp add: login_inv_parts(3) [OF inv])

lemma finished_statuses [simp]:
  "isFinishedStatus TaskSuccess" "isFinishedStatus TaskFailed" "isFinishedStatus TaskCancelled"
  "\<not> isFinishedStatus TaskPending" "\<not> isFinishedStatus TaskRunning" "\<not> isFinishedStatus TaskCancelling"
  by (simp_all add: isFinishedStatus_def)

interpretation markSuccess: progress_op "\<lambda>d. snd (markSuccess now x i attempt d)"
  by unfold_locales (simp_all add: markSuccess_def finishAttempt_ok)

interpretation markFailed: progress_op "\<lambda>d. snd (markFailed now x i reason attempt code d)"
  by unfold_locales (simp_all add: markFailed_def finishAttempt_ok)

interpretation markCancelled: progress_op "\<lambda>d. snd (markCancelled now x i attempt d)"
  by unfold_locales (simp_all add: markCancelled_def finishAttempt_ok)

section \<open>Cancellation, deletion claims, recovery\<close>

lemma coherent_unattempted:
  assumes i: "login_inv d" and t: "t1 \<in> set (login_tasks d)" "lt_attempt t1 = None"
    and P: "\<And>t. t \<in> set (login_tasks d) \<Longrightarrow> P t \<Longrightarrow> t = t1"
    and f: "lt_id (f t1) = lt_id t1" "lt_attempt (f t1) = None"
    and Q: "\<And>a. Q a \<Longrightarrow> la_task a = lt_id t1"
    and g: "\<And>a. la_id (g a) = la_id a \<and> la_task (g a) = la_task a \<and> la_number (g a) = la_number a"
    and fg: "\<And>a. a \<in> set (login_attempts d) \<Longrightarrow> la_task a = lt_id t1 \<Longrightarrow> isActiveStatus (la_status (if Q a then g a else a)) \<Longrightarrow>
       isActiveStatus (la_status a) \<and> isActiveStatus (lt_status (if P t1 then f t1 else t1))"
  shows "coherent (update_attempts Q g (update_tasks P f d))" (is "coherent ?d")
proof (rule coherentI)
  define F where "F t = (if P t then f t else t)" for t
  define G where "G a = (if Q a then g a else a)" for a
  have F: "F t = t" if "t \<in> set (login_tasks d)" "t \<noteq> t1" for t using P that by (auto simp: F_def)
  have F1: "lt_id (F t1) = lt_id t1" "lt_attempt (F t1) = None" using f t by (simp_all add: F_def)
  have G: "la_id (G a) = la_id a" "la_task (G a) = la_task a" "la_number (G a) = la_number a" for a using g by (simp_all add: G_def)
  have G1: "G a = a" if "la_task a \<noteq> lt_id t1" for a using that Q by (auto simp: G_def)
  have sets: "set (login_tasks ?d) = F ` set (login_tasks d)" "set (login_attempts ?d) = G ` set (login_attempts d)"
    by (simp_all add: rows F_def G_def)
  show "current_ok ?d t'" if mem: "t' \<in> set (login_tasks ?d)" for t'
  proof (cases "lt_attempt t'")
    case (Some b)
    obtain u where u: "u \<in> set (login_tasks d)" "t' = F u" using mem unfolding sets by blast
    then have "u \<noteq> t1" using F1 Some by auto
    then have t': "t' \<in> set (login_tasks d)" "t' \<noteq> t1" using F [OF u(1)] u by simp_all
    obtain a where a: "a \<in> set (login_attempts d)" "la_id a = b" "la_task a = lt_id t'" "la_status a = lt_status t'"
      "\<forall>b \<in> set (login_attempts d). la_task b = lt_id t' \<longrightarrow> la_number b \<le> la_number a"
      using current_attemptE [OF login_inv_parts(3) [OF i] t'(1) Some] by metis
    have "lt_id t' \<noteq> lt_id t1" using task_unique [OF login_inv_parts(1) [OF i] t'(1) t(1)] t'(2) by blast
    then have "G a = a" using G1 a(3) by simp
    then have "a \<in> set (login_attempts ?d)" using a(1) unfolding sets by (metis imageI)
    moreover have "\<forall>c \<in> set (login_attempts ?d). la_task c = lt_id t' \<longrightarrow> la_number c \<le> la_number a"
      using a(5) G unfolding sets by simp
    ultimately show ?thesis using current_okI [OF Some _ a(2-4)] by blast
  qed (rule current_ok_None)
  show "history_ok ?d a'" if a': "a' \<in> set (login_attempts ?d)" for a'
  proof (rule history_okI)
    fix t' assume act: "isActiveStatus (la_status a')" and t': "t' \<in> set (login_tasks ?d)" "lt_id t' = la_task a'"
    then obtain u a where u: "u \<in> set (login_tasks d)" "t' = F u" and a: "a \<in> set (login_attempts d)" "a' = G a"
      using a' sets by blast
    show "lt_attempt t' = Some (la_id a') \<or> lt_attempt t' = None \<and> isActiveStatus (lt_status t')"
    proof (cases "u = t1")
      case True
      then have "la_task a = lt_id t1" using t'(2) u(2) a(2) G F1 by simp
      moreover have "isActiveStatus (la_status (if Q a then g a else a))" using act a(2) by (simp only: G_def)
      ultimately show ?thesis using fg [OF a(1)] u(2) True F1(2) by (simp only: F_def simp_thms)
    next
      case False
      then have "lt_id u \<noteq> lt_id t1" using task_unique [OF login_inv_parts(1) [OF i] u(1) t(1)] by blast
      moreover have "lt_id u = la_task a" using t'(2) u(2) F [OF u(1) False] a(2) G by simp
      ultimately have "G a = a" "la_task a = lt_id u" using G1 [of a] by simp_all
      then show ?thesis
        using history_okD [OF coherent_history [OF login_inv_parts(3) [OF i] a(1)] _ u(1)] act a(2) u(2) F [OF u(1) False] by simp
    qed
  qed
qed

lemma requestCancellation_ok:
  assumes inv: "login_inv d"
  shows "progressed d (snd (requestCancellation x i d)) \<and> coherent (snd (requestCancellation x i d))"
proof -
  let ?P = "\<lambda>t. lt_enterprise t = x \<and> lt_id t = i \<and> lt_status t \<in> {TaskPending, TaskRunning}"
  let ?f = "\<lambda>t. t\<lparr>lt_status := TaskCancelling\<rparr> :: TaskRow"
  let ?g = "\<lambda>a. a\<lparr>la_status := TaskCancelling\<rparr> :: AttemptRow"
  let ?d1 = "update_tasks ?P ?f d"
  have f: "task_progress t (?f t)" if "?P t" for t using that by (auto simp: task_progress_def status_moves_def)
  have p1: "progressed d ?d1" by (rule progressed_update_tasks) (rule f)
  have k1: "keys_inv ?d1" by (rule keys_progressed [OF login_inv_parts(1) [OF inv] p1])
  show ?thesis
  proof (cases "task_row x i d")
    case None
    then have "?d1 = d" by (intro update_tasks_none) (auto simp: task_row_None)
    then show ?thesis using None by (simp add: requestCancellation_def getTask_def login_inv_parts(3) [OF inv] Let_def)
  next
    case (Some t1)
    then have t1: "t1 \<in> set (login_tasks d)" "lt_enterprise t1 = x" "lt_id t1 = i"
      using task_row_Some [OF login_inv_parts(1) [OF inv]] by blast+
    define t1' where "t1' = (if ?P t1 then ?f t1 else t1)"
    have t1': "task_progress t1 t1'" using f [of t1] by (simp add: t1'_def)
    have "t1' \<in> set (login_tasks ?d1)" using t1(1) unfolding t1'_def by (auto simp: rows)
    then have row: "task_row x i ?d1 = Some t1'"
      using task_row_Some [OF k1] t1' t1 by (simp add: task_progress_def)
    have uniq: "t = t1" if "t \<in> set (login_tasks d)" "?P t" for t
      using task_unique [OF login_inv_parts(1) [OF inv] that(1) t1(1)] t1 that by simp
    show ?thesis
    proof (cases "lt_attempt t1")
      case None
      then have "\<not> truthy (lt_attempt t1')" using t1' by (simp add: task_progress_def truthy_def)
      then have "snd (requestCancellation x i d) = ?d1" using row by (simp add: requestCancellation_def getTask_def Let_def)
      moreover have "coherent (update_attempts (\<lambda>_. False) id ?d1)"
        by (rule coherent_unattempted [OF inv t1(1) None]) (use uniq None in \<open>auto dest: history_okD [OF coherent_history [OF login_inv_parts(3) [OF inv]] _ t1(1)]\<close>)
      moreover have "update_attempts (\<lambda>_. False) id ?d1 = ?d1" by (simp add: update_attempts_def update_where_def)
      ultimately show ?thesis using p1 by simp
    next
      case (Some aid)
      have att: "lt_attempt t1' = Some aid" using t1' Some by (simp add: task_progress_def)
      obtain a where "a \<in> set (login_attempts d)" "la_id a = aid"
        using current_attemptE [OF login_inv_parts(3) [OF inv] t1(1) Some] by metis
      then have "aid \<noteq> []" using keys_nonempty [OF login_inv_parts(1) [OF inv]] by blast
      show ?thesis
      proof (cases "lt_status t1' = TaskCancelling")
        case True
        then have "snd (requestCancellation x i d) = update_attempts (\<lambda>a. la_id a = aid) ?g ?d1"
          using row att \<open>aid \<noteq> []\<close> by (simp add: requestCancellation_def getTask_def truthy_def Let_def)
        moreover have "status_moves (lt_status t1) TaskCancelling" using t1' True by (simp add: task_progress_def)
        moreover from this have g: "attempt_progress a (?g a) \<and> la_status (?g a) = lt_status (if ?P t1 then ?f t1 else t1)"
          if "la_status a = lt_status t1" for a
          using that True unfolding t1'_def [symmetric] by (simp add: attempt_progress_def)
        have "progressed d (update_attempts (\<lambda>a. la_id a = aid) ?g ?d1) \<and> coherent (update_attempts (\<lambda>a. la_id a = aid) ?g ?d1)"
        proof (rule report_ok [OF inv t1(1) Some])
          show "t = t1" if "t \<in> set (login_tasks d)" "?P t" for t using that by (rule uniq)
          show "task_progress t1 (?f t1)" if "?P t1" using that by (rule f)
          show "attempt_progress a (?g a) \<and> la_status (?g a) = lt_status (if ?P t1 then ?f t1 else t1)"
            if "la_status a = lt_status t1" for a using that by (rule g)
        qed
        ultimately show ?thesis by (simp only:)
      next
        case False
        then have "\<not> ?P t1" by (auto simp: t1'_def)
        then have "?d1 = d" using uniq by (intro update_tasks_none) blast
        moreover have "snd (requestCancellation x i d) = ?d1" using row False by (simp add: requestCancellation_def getTask_def Let_def)
        ultimately show ?thesis using login_inv_parts(3) [OF inv] by simp
      qed
    qed
  qed
qed

interpretation requestCancellation: progress_op "\<lambda>d. snd (requestCancellation x i d)"
  by unfold_locales (simp_all add: requestCancellation_ok)

interpretation claimTaskDeletion: progress_op "\<lambda>d. snd (claimTaskDeletion x i d)"
  by unfold_locales (simp_all add: claimTaskDeletion_def login_inv_parts(3) Let_def coherent_same_status
      progressed_update_tasks task_progress_def)

interpretation releaseTaskDeletion: progress_op "releaseTaskDeletion x i"
  by unfold_locales (simp_all add: releaseTaskDeletion_def login_inv_parts(3) coherent_same_status
      progressed_update_tasks task_progress_def)

interpretation failLegacyInterruptedTask: progress_op "failLegacyInterruptedTask now x i"
proof unfold_locales
  fix d assume inv: "login_inv d"
  let ?P = "\<lambda>t. lt_enterprise t = x \<and> lt_id t = i \<and> lt_attempt t = None \<and> isActiveStatus (lt_status t)"
  have "progressed d (failLegacyInterruptedTask now x i d) \<and> coherent (failLegacyInterruptedTask now x i d)"
  proof (cases "exists_row ?P (login_tasks d)")
    case True
    then obtain t where t: "t \<in> set (login_tasks d)" "?P t" by (auto simp: rows)
    have uniq: "u = t" if "u \<in> set (login_tasks d)" "?P u" for u
      using task_unique [OF login_inv_parts(1) [OF inv] that(1) t(1)] t that by simp
    let ?f = "\<lambda>t. t\<lparr>lt_status := TaskFailed, lt_failure_code := Some ''service_interrupted'',
      lt_failure_reason := Some LEGACY_INTERRUPTED_REASON, lt_finished_at := Some now\<rparr> :: TaskRow"
    let ?Q = "\<lambda>a. la_task a = i \<and> isActiveStatus (la_status a)"
    let ?g = "\<lambda>a. a\<lparr>la_status := TaskFailed, la_stage := Some ''failed'', la_failure_code := Some ''service_interrupted'',
      la_failure_reason := Some LEGACY_INTERRUPTED_REASON, la_finished_at := Some now\<rparr> :: AttemptRow"
    have "progressed d (update_attempts ?Q ?g (update_tasks ?P ?f d))"
      by (intro progressed_trans [OF progressed_update_tasks progressed_update_attempts])
        (simp_all add: task_progress_def attempt_progress_def moves_to_finished)
    moreover have "coherent (update_attempts ?Q ?g (update_tasks ?P ?f d))"
      by (rule coherent_unattempted [OF inv t(1) _ uniq]) (use t(2) in \<open>simp_all split: if_splits\<close>)
    ultimately show ?thesis using True by (simp add: failLegacyInterruptedTask_def)
  qed (simp add: failLegacyInterruptedTask_def login_inv_parts(3) [OF inv])
  then show "progressed d (failLegacyInterruptedTask now x i d)" "coherent (failLegacyInterruptedTask now x i d)" by simp_all
qed

section \<open>Creation, retry and deletion\<close>

lemma insert_attempt_Inr:
  "insert_attempt row d = Inr d' \<longleftrightarrow> d' = d\<lparr>login_attempts := login_attempts d @ [row]\<rparr> \<and>
     (\<forall>a \<in> set (login_attempts d). la_id a \<noteq> la_id row \<and> \<not> (la_task a = la_task row \<and> la_number a = la_number row)) \<and>
     (\<exists>t \<in> set (login_tasks d). lt_id t = la_task row)"
  by (auto simp: insert_attempt_def exists_row_iff)

lemma exclusive_add:
  assumes x: "exclusive_inv d" and no: "\<not> hasActiveTask (lt_identity t) d"
  shows "exclusive_inv (d\<lparr>login_tasks := login_tasks d @ [t]\<rparr>)"
  using x no by (auto simp: exclusive_inv_def hasActiveTask_def exists_row_iff)

lemma createTask_inv:
  assumes inv: "login_inv d" and c: "createTask now fresh x inp d = Inr (r, d')" and "ct_attempt inp \<noteq> []"
  shows "login_inv d'"
proof (cases "attemptOwner (ct_attempt inp) d")
  case (Some owner)
  then have "d' = d" using c by (cases "existingTaskForAttempt x owner inp d") (simp_all add: createTask_def)
  then show ?thesis using inv by simp
next
  case None
  let ?t = "new_task now x fresh inp" and ?a = "new_attempt now fresh (ct_attempt inp) 1 ''queued''"
  have noact: "\<not> hasActiveTask (ct_identity inp) d" using c None by (auto simp: createTask_def split: if_splits)
  then have "insertTask now x fresh inp d = Inr d'" using c None
    by (cases "insertTask now x fresh inp d") (simp_all add: createTask_def)
  then have d': "d' = d\<lparr>login_tasks := login_tasks d @ [?t], login_attempts := login_attempts d @ [?a]\<rparr>"
    and fr: "fresh \<notin> lt_id ` set (login_tasks d)" "x \<in> set (login_enterprise_ids d)" "ct_attempt inp \<notin> la_id ` set (login_attempts d)"
    by (auto simp: insertTask_def insert_attempt_Inr exists_row_iff new_attempt_def split: if_splits)
  have fra: "fresh \<notin> la_task ` set (login_attempts d)" using login_inv_parts(1) [OF inv] fr(1) by (auto simp: keys_inv_def)
  have keys: "keys_inv d'" using login_inv_parts(1) [OF inv] fr fra \<open>ct_attempt inp \<noteq> []\<close> unfolding d'
    by (auto simp: keys_inv_def new_task_def new_attempt_def image_iff)
  have "exclusive_inv (d\<lparr>login_tasks := login_tasks d @ [?t]\<rparr>)"
    using exclusive_add [OF login_inv_parts(2) [OF inv], of ?t] noact by (simp add: new_task_def)
  then have excl: "exclusive_inv d'" by (simp add: exclusive_inv_def d')
  have "coherent d'"
  proof (rule coherentI)
    show "current_ok d' t" if mem: "t \<in> set (login_tasks d')" for t
    proof (cases "lt_attempt t")
      case (Some aid)
      show ?thesis
      proof (cases "t = ?t")
        case True
        have "\<forall>b \<in> set (login_attempts d'). la_task b = fresh \<longrightarrow> la_number b \<le> 1"
          using fra by (auto simp: d' new_attempt_def)
        then show ?thesis using True by (intro current_okI [of t "ct_attempt inp" ?a]) (simp_all add: d' new_task_def new_attempt_def)
      next
        case False
        then have t: "t \<in> set (login_tasks d)" using mem by (simp add: d')
        then have "lt_id t \<noteq> fresh" using fr(1) by blast
        then show ?thesis using coherent_current [OF login_inv_parts(3) [OF inv] t] Some
          by (auto simp: current_ok_def d' new_attempt_def)
      qed
    qed (rule current_ok_None)
    show "history_ok d' a" if mem: "a \<in> set (login_attempts d')" for a
    proof (rule history_okI)
      fix t assume act: "isActiveStatus (la_status a)" and t: "t \<in> set (login_tasks d')" "lt_id t = la_task a"
      show "lt_attempt t = Some (la_id a) \<or> lt_attempt t = None \<and> isActiveStatus (lt_status t)"
      proof (cases "a = ?a")
        case True
        then have "t = ?t" using t fr(1) by (auto simp: d' new_attempt_def)
        then show ?thesis using True by (simp add: new_task_def new_attempt_def)
      next
        case False
        then have a: "a \<in> set (login_attempts d)" using mem by (simp add: d')
        then have "t \<in> set (login_tasks d)" using t fra by (auto simp: d' new_task_def)
        then show ?thesis using history_okD [OF coherent_history [OF login_inv_parts(3) [OF inv] a] act] t(2) by blast
      qed
    qed
  qed
  then show ?thesis using keys excl by (simp add: login_inv_def)
qed

lemma next_number_above:
  assumes "a \<in> set (login_attempts d)" "la_task a = i"
  shows "la_number a < next_number i d"
proof -
  have mx: "n \<in> set (m # ns) \<Longrightarrow> n \<le> fold max ns (m :: int)" for n m ns
  proof (induction ns arbitrary: m n)
    case (Cons k ks)
    have "m \<le> fold max ks (max k m)" "k \<le> fold max ks (max k m)" using Cons.IH [of "max k m" "max k m"] by auto
    then show ?case using Cons.IH [of n "max k m"] Cons.prems by auto
  qed simp
  let ?ns = "map la_number (filter (\<lambda>a. la_task a = i) (login_attempts d))"
  have "la_number a \<in> set ?ns" using assms by auto
  then show ?thesis using mx [of "la_number a" "hd ?ns" "tl ?ns"] unfolding next_number_def by (cases ?ns) auto
qed

lemma retried_task_simps [simp]:
  "lt_id (retried_task now aid t) = lt_id t" "lt_enterprise (retried_task now aid t) = lt_enterprise t"
  "lt_identity (retried_task now aid t) = lt_identity t" "lt_attempt (retried_task now aid t) = Some aid"
  "lt_status (retried_task now aid t) = TaskPending" "lt_stage (retried_task now aid t) = Some ''preparing''"
  by (simp_all add: retried_task_def)

lemma new_attempt_simps [simp]:
  "la_id (new_attempt now i aid n st) = aid" "la_task (new_attempt now i aid n st) = i" "la_number (new_attempt now i aid n st) = n"
  "la_status (new_attempt now i aid n st) = TaskPending"
  by (simp_all add: new_attempt_def)

lemma reserveRetry_cases:
  assumes inv: "login_inv d" and r: "reserveRetry now x task aid d = Inr (r, d')"
  obtains t1 where "t1 \<in> set (login_tasks d)" "lt_enterprise t1 = x" "lt_id t1 = lt_id task" "lt_status t1 = TaskFailed"
    "lt_attempt t1 = lt_attempt task" "lt_stage t1 \<noteq> Some ''deleting''" "\<not> hasActiveTask (lt_identity task) d"
    "login_tasks d' = update_where (\<lambda>t. t = t1) (retried_task now aid) (login_tasks d)"
    "login_attempts d' = login_attempts d @ [new_attempt now (lt_id task) aid (next_number (lt_id task) d) ''preparing'']"
    "login_enterprise_ids d' = login_enterprise_ids d"
    "\<forall>a \<in> set (login_attempts d). la_id a \<noteq> aid" "r = getTask x (lt_id task) d'"
proof -
  let ?P = "\<lambda>t. lt_enterprise t = x \<and> lt_id t = lt_id task \<and> lt_status t = TaskFailed \<and> lt_attempt t = lt_attempt task \<and>
    lt_stage t \<noteq> Some ''deleting''"
  let ?d = "update_tasks ?P (retried_task now aid) d"
  have no: "\<not> hasActiveTask (lt_identity task) d" "exists_row ?P (login_tasks d)"
    using r by (auto simp: reserveRetry_def Let_def split: if_splits)
  then obtain t1 where t1: "t1 \<in> set (login_tasks d)" "?P t1" by (auto simp: rows)
  have eq: "?P t \<longleftrightarrow> t = t1" if "t \<in> set (login_tasks d)" for t
    using task_unique [OF login_inv_parts(1) [OF inv] that t1(1)] t1 by auto
  have upd: "update_where ?P (retried_task now aid) (login_tasks d) = update_where (\<lambda>t. t = t1) (retried_task now aid) (login_tasks d)"
    unfolding update_where_def by (rule map_cong [OF refl]) (simp only: eq)
  have d1: "insertNextAttempt now (lt_id task) aid ?d = Inr d'" "r = getTask x (lt_id task) d'"
    using r no by (cases "insertNextAttempt now (lt_id task) aid ?d", simp_all add: reserveRetry_def Let_def)+
  have nn: "next_number (lt_id task) ?d = next_number (lt_id task) d" by (simp add: next_number_def)
  have ins: "d' = ?d\<lparr>login_attempts := login_attempts ?d @ [new_attempt now (lt_id task) aid (next_number (lt_id task) d) ''preparing'']\<rparr>"
    "\<forall>a \<in> set (login_attempts d). la_id a \<noteq> aid"
    using d1(1) unfolding insertNextAttempt_def insert_attempt_Inr nn by simp_all
  have parts: "login_tasks d' = update_where (\<lambda>t. t = t1) (retried_task now aid) (login_tasks d)"
    "login_attempts d' = login_attempts d @ [new_attempt now (lt_id task) aid (next_number (lt_id task) d) ''preparing'']"
    "login_enterprise_ids d' = login_enterprise_ids d"
    unfolding ins(1) by (simp_all add: upd)
  show thesis
    by (rule that [OF t1(1) _ _ _ _ _ no(1) parts ins(2) d1(2)]) (use t1(2) in simp_all)
qed

lemma reserveRetry_inv:
  assumes inv: "login_inv d" and r: "reserveRetry now x task aid d = Inr (r, d')" and "aid \<noteq> []"
    and same: "\<And>t. t \<in> set (login_tasks d) \<Longrightarrow> lt_id t = lt_id task \<Longrightarrow> lt_identity t = lt_identity task"
  shows "login_inv d'"
proof (rule reserveRetry_cases [OF inv r])
  fix t1
  let ?a = "new_attempt now (lt_id task) aid (next_number (lt_id task) d) ''preparing''"
  assume t1: "t1 \<in> set (login_tasks d)" "lt_enterprise t1 = x" "lt_id t1 = lt_id task" "lt_status t1 = TaskFailed"
    and noact: "\<not> hasActiveTask (lt_identity task) d"
    and d': "login_tasks d' = update_where (\<lambda>t. t = t1) (retried_task now aid) (login_tasks d)"
      "login_attempts d' = login_attempts d @ [?a]" "login_enterprise_ids d' = login_enterprise_ids d"
    and fresh: "\<forall>a \<in> set (login_attempts d). la_id a \<noteq> aid"
  let ?F = "\<lambda>t. if t = t1 then retried_task now aid t else t"
  have tasks: "set (login_tasks d') = ?F ` set (login_tasks d)" by (simp add: d' rows)
  have maps: "map lt_id (login_tasks d') = map lt_id (login_tasks d)" "map lt_enterprise (login_tasks d') = map lt_enterprise (login_tasks d)"
    unfolding d' by (simp_all add: map_update_where)
  have above: "la_number a < next_number (lt_id task) d" if "a \<in> set (login_attempts d)" "la_task a = lt_id task" for a
    by (rule next_number_above [OF that])
  have "(lt_id task, next_number (lt_id task) d) \<notin> (\<lambda>a. (la_task a, la_number a)) ` set (login_attempts d)"
    using above by fastforce
  moreover have "lt_id task \<in> lt_id ` set (login_tasks d)" using t1 by force
  ultimately have keys: "keys_inv d'"
    using login_inv_parts(1) [OF inv] fresh \<open>aid \<noteq> []\<close> maps set_map_eq [OF maps(1)] set_map_eq [OF maps(2)]
    by (auto simp: keys_inv_def d'(2,3))
  have inactive: "\<not> isActiveStatus (lt_status t)" if "t \<in> set (login_tasks d)" "lt_identity t = lt_identity task" for t
    using noact that by (auto simp: hasActiveTask_def exists_row_iff)
  have excl: "exclusive_inv d'"
    unfolding exclusive_inv_def
  proof (intro ballI impI)
    fix t u assume *: "t \<in> set (login_tasks d')" "u \<in> set (login_tasks d')" "isActiveStatus (lt_status t)" "isActiveStatus (lt_status u)"
      "lt_identity t = lt_identity u"
    obtain t0 u0 where 0: "t0 \<in> set (login_tasks d)" "t = ?F t0" "u0 \<in> set (login_tasks d)" "u = ?F u0" using * unfolding tasks by blast
    have id1: "lt_identity t1 = lt_identity task" using same t1 by blast
    show "t = u"
    proof (cases "t0 = t1 \<or> u0 = t1")
      case True
      have act: "w0 = t1" if "w0 \<in> set (login_tasks d)" "isActiveStatus (lt_status (?F w0))" "lt_identity w0 = lt_identity task" for w0
        using inactive [OF that(1,3)] that(2) by (cases "w0 = t1") simp_all
      have idF: "lt_identity (?F w) = lt_identity w" for w by simp
      have ids: "lt_identity t0 = lt_identity task" "lt_identity u0 = lt_identity task"
        using True id1 *(5) unfolding 0(2,4) idF by auto
      have "t0 = t1" by (rule act [OF 0(1) *(3) [unfolded 0(2)] ids(1)])
      moreover have "u0 = t1" by (rule act [OF 0(3) *(4) [unfolded 0(4)] ids(2)])
      ultimately show ?thesis using 0(2,4) by simp
    next
      case False
      then show ?thesis using exclusive_eq [OF login_inv_parts(2) [OF inv] 0(1,3)] * 0 by simp
    qed
  qed
  have others: "lt_id t \<noteq> lt_id task" if "t \<in> set (login_tasks d)" "t \<noteq> t1" for t
    using task_unique [OF login_inv_parts(1) [OF inv] that(1) t1(1)] t1(3) that(2) by auto
  have "coherent d'"
  proof (rule coherentI)
    show "current_ok d' t'" if mem: "t' \<in> set (login_tasks d')" for t'
    proof -
      obtain t where t: "t \<in> set (login_tasks d)" "t' = ?F t" using mem unfolding tasks by blast
      show ?thesis
      proof (cases "t = t1")
        case True
        then show ?thesis using t above t1 by (intro current_okI [of t' aid ?a]) (auto simp: d'(2) intro: less_imp_le)
      next
        case False
        then show ?thesis using coherent_current [OF login_inv_parts(3) [OF inv] t(1)] others [OF t(1) False] t(2)
          by (cases "lt_attempt t") (auto simp: current_ok_def d'(2))
      qed
    qed
    show "history_ok d' a" if mem: "a \<in> set (login_attempts d')" for a
    proof (rule history_okI)
      fix t' assume act: "isActiveStatus (la_status a)" and t': "t' \<in> set (login_tasks d')" "lt_id t' = la_task a"
      obtain t where t: "t \<in> set (login_tasks d)" "t' = ?F t" using t' unfolding tasks by blast
      show "lt_attempt t' = Some (la_id a) \<or> lt_attempt t' = None \<and> isActiveStatus (lt_status t')"
      proof (cases "a = ?a")
        case True
        then have "t = t1" using t' t others [OF t(1)] by (auto split: if_splits)
        then show ?thesis using t True by simp
      next
        case False
        then have a: "a \<in> set (login_attempts d)" using mem by (simp add: d'(2))
        have tid: "lt_id t = la_task a" using t' t by (auto split: if_splits)
        have or: "lt_attempt t = Some (la_id a) \<or> lt_attempt t = None \<and> isActiveStatus (lt_status t)"
          using history_okD [OF coherent_history [OF login_inv_parts(3) [OF inv] a] act t(1) tid] .
        have "t \<noteq> t1"
        proof
          assume "t = t1"
          then have "lt_attempt t1 = Some (la_id a)" using or t1(4) by simp
          then have "la_status a = TaskFailed" using current_is_own(2) [OF inv t1(1) _ a] t1(4) by simp
          then show False using act by simp
        qed
        then show ?thesis using or t by simp
      qed
    qed
  qed
  then show ?thesis using keys excl by (simp add: login_inv_def)
qed

lemma deleteTask_cases:
  assumes inv: "login_inv d"
  obtains "snd (deleteTask x i d) = d" "fst (deleteTask x i d) \<noteq> Deleted"
  | t1 where "t1 \<in> set (login_tasks d)" "lt_enterprise t1 = x" "lt_id t1 = i" "isFinishedStatus (lt_status t1)"
      "fst (deleteTask x i d) = Deleted"
      "snd (deleteTask x i d) = d\<lparr>login_tasks := filter (\<lambda>t. lt_id t \<noteq> i) (login_tasks d),
         login_attempts := filter (\<lambda>a. la_task a \<noteq> i) (login_attempts d)\<rparr>"
proof (cases "task_row x i d")
  case None
  then show ?thesis using that(1) by (simp add: deleteTask_def getTask_def)
next
  case (Some t1)
  then have t1: "t1 \<in> set (login_tasks d)" "lt_enterprise t1 = x" "lt_id t1 = i"
    using task_row_Some [OF login_inv_parts(1) [OF inv]] by blast+
  show ?thesis
  proof (cases "isFinishedStatus (lt_status t1)")
    case False
    then have "lt_status t1 \<in> {TaskPending, TaskRunning, TaskCancelling}" by (cases "lt_status t1") simp_all
    then show ?thesis using that(1) Some by (simp add: deleteTask_def getTask_def)
  next
    case True
    let ?P = "\<lambda>t. lt_enterprise t = x \<and> lt_id t = i \<and> isFinishedStatus (lt_status t)"
    have P: "?P t \<longleftrightarrow> lt_id t = i" if "t \<in> set (login_tasks d)" for t
      using task_unique [OF login_inv_parts(1) [OF inv] that t1(1)] t1 True by auto
    have ex: "exists_row ?P (login_tasks d)" using t1 True by (auto simp: rows)
    have "filter (\<lambda>t. \<not> ?P t) (login_tasks d) = filter (\<lambda>t. lt_id t \<noteq> i) (login_tasks d)"
      by (rule filter_cong [OF refl]) (simp only: P)
    moreover have "filter (\<lambda>a. \<not> exists_row (\<lambda>t. ?P t \<and> lt_id t = la_task a) (login_tasks d)) (login_attempts d) =
        filter (\<lambda>a. la_task a \<noteq> i) (login_attempts d)"
      by (rule filter_cong [OF refl]) (use t1 True in \<open>auto simp: rows\<close>)
    moreover have "lt_status t1 \<notin> {TaskPending, TaskRunning, TaskCancelling}" using True by auto
    ultimately have "deleteTask x i d = (Deleted, d\<lparr>login_tasks := filter (\<lambda>t. lt_id t \<noteq> i) (login_tasks d),
         login_attempts := filter (\<lambda>a. la_task a \<noteq> i) (login_attempts d)\<rparr>)"
      using Some ex unfolding deleteTask_def getTask_def Let_def by simp
    then show ?thesis using that(2) t1 True by simp
  qed
qed

lemma deleteTask_inv:
  assumes inv: "login_inv d"
  shows "login_inv (snd (deleteTask x i d))"
proof (cases rule: deleteTask_cases [OF inv, of x i])
  case (2 t1)
  let ?d = "snd (deleteTask x i d)"
  have tasks: "login_tasks ?d = filter (\<lambda>t. lt_id t \<noteq> i) (login_tasks d)"
    and atts: "login_attempts ?d = filter (\<lambda>a. la_task a \<noteq> i) (login_attempts d)"
    and ents: "login_enterprise_ids ?d = login_enterprise_ids d" unfolding 2(6) by simp_all
  have keys: "keys_inv ?d"
    using login_inv_parts(1) [OF inv] unfolding keys_inv_def tasks atts ents
    by (auto simp: distinct_map_filter)
  have excl: "exclusive_inv ?d" using login_inv_parts(2) [OF inv] unfolding exclusive_inv_def tasks by simp
  have "coherent ?d"
  proof (rule coherentI)
    show "current_ok ?d t" if "t \<in> set (login_tasks ?d)" for t
      using coherent_current [OF login_inv_parts(3) [OF inv], of t] that unfolding tasks current_ok_def atts
      by (cases "lt_attempt t") auto
    show "history_ok ?d a" if "a \<in> set (login_attempts ?d)" for a
      using coherent_history [OF login_inv_parts(3) [OF inv], of a] that unfolding atts tasks history_ok_def by simp
  qed
  then show ?thesis using keys excl by (simp add: login_inv_def)
qed (simp add: inv)

end
