(* ===== verification/Shared_Text.thy ===== *)
theory Shared_Text
  imports Pool_Config "HOL-Library.Sublist"
begin

text \<open>
  Text helpers of the shared package: search terms and CSV cells
  (\<^verbatim>\<open>src/packages/shared/src/management.ts\<close>) and the removal of secrets from messages
  (\<^verbatim>\<open>src/packages/shared/src/redact.ts\<close>). SQLite's \<open>LIKE .. ESCAPE '/'\<close> and the reader of a CSV row
  (RFC 4180) are the two languages these helpers write, so they are defined here as well.
\<close>

section \<open>Search terms\<close>

definition like_special :: "char \<Rightarrow> bool" where
  "like_special c \<longleftrightarrow> c \<in> {CHR ''/'', CHR ''%'', CHR ''_''}"

definition like_escape :: "string \<Rightarrow> string" where
  "like_escape v = concat (map (\<lambda>c. if like_special c then [CHR ''/'', c] else [c]) v)"

definition likeContains :: "string \<Rightarrow> string" where
  "likeContains v = CHR ''%'' # like_escape v @ ''%''"

text \<open>
  \<open>text LIKE pattern ESCAPE '/'\<close>: a percent sign matches any text, an underscore any character, the
  escape character makes the next one literal, and ASCII letters match in either case.
\<close>

fun sql_like :: "string \<Rightarrow> string \<Rightarrow> bool" where
  "sql_like [] t = (t = [])"
| "sql_like (p # ps) t =
     (if p = CHR ''%'' then sql_like ps t \<or> (case t of [] \<Rightarrow> False | _ # t' \<Rightarrow> sql_like (p # ps) t')
      else if p = CHR ''_'' then (case t of [] \<Rightarrow> False | _ # t' \<Rightarrow> sql_like ps t')
      else if p = CHR ''/'' then
        (case ps of [] \<Rightarrow> False
         | q # qs \<Rightarrow> (case t of [] \<Rightarrow> False | c # t' \<Rightarrow> lower_char c = lower_char q \<and> sql_like qs t'))
      else (case t of [] \<Rightarrow> False | c # t' \<Rightarrow> lower_char c = lower_char p \<and> sql_like ps t'))"

lemma like_escape_simps [simp]:
  "like_escape [] = []"
  "like_escape (c # cs) = (if like_special c then CHR ''/'' # c # like_escape cs else c # like_escape cs)"
  by (simp_all add: like_escape_def)

lemma sql_like_escape:
  "sql_like (like_escape v @ ps) t \<longleftrightarrow> (\<exists>u w. t = u @ w \<and> lower u = lower v \<and> sql_like ps w)"
proof (induction v arbitrary: t)
  case Nil
  show ?case by (auto simp: lower_def)
next
  case (Cons c v)
  note IH = Cons.IH
  have step: "sql_like (like_escape (c # v) @ ps) t =
      (case t of [] \<Rightarrow> False | b # t' \<Rightarrow> lower_char b = lower_char c \<and> sql_like (like_escape v @ ps) t')"
    by (cases t) (auto simp: like_special_def)
  show ?case
  proof (cases t)
    case Nil
    then show ?thesis unfolding step by (auto simp: lower_def)
  next
    case (Cons b t')
    have "sql_like (like_escape (c # v) @ ps) t \<longleftrightarrow>
        lower_char b = lower_char c \<and> (\<exists>u w. t' = u @ w \<and> lower u = lower v \<and> sql_like ps w)"
      unfolding step unfolding Cons list.case IH ..
    also have "\<dots> \<longleftrightarrow> (\<exists>u w. b # t' = u @ w \<and> lower u = lower (c # v) \<and> sql_like ps w)"
    proof (intro iffI; elim exE conjE)
      fix u w assume "lower_char b = lower_char c" "t' = u @ w" "lower u = lower v" "sql_like ps w"
      then show "\<exists>u w. b # t' = u @ w \<and> lower u = lower (c # v) \<and> sql_like ps w"
        by (intro exI [of _ "b # u"] exI [of _ w]) (simp add: lower_def)
    qed (auto simp: Cons_eq_append_conv lower_def)
    finally show ?thesis unfolding Cons .
  qed
qed

lemma sql_like_any [simp]: "sql_like ''%'' t"
  by (induction t) auto

lemma sql_like_percent: "sql_like (CHR ''%'' # ps) t \<longleftrightarrow> (\<exists>u w. t = u @ w \<and> sql_like ps w)"
proof (induction t)
  case (Cons c t)
  have "sql_like (CHR ''%'' # ps) (c # t) \<longleftrightarrow> sql_like ps (c # t) \<or> (\<exists>u w. t = u @ w \<and> sql_like ps w)"
    using Cons.IH by simp
  also have "\<dots> \<longleftrightarrow> (\<exists>u w. c # t = u @ w \<and> sql_like ps w)"
    by (auto simp: Cons_eq_append_conv)
  finally show ?case .
qed auto

lemma lower_append [simp]: "lower (u @ v) = lower u @ lower v"
  by (simp add: lower_def)

lemma lower_split: "lower t = a @ b @ c \<longleftrightarrow> (\<exists>u v w. t = u @ v @ w \<and> lower u = a \<and> lower v = b \<and> lower w = c)"
  by (auto simp: lower_def map_eq_append_conv append_eq_map_conv)

text \<open>
  C40. A search term finds exactly the texts that contain it, ignoring the case of ASCII letters:
  the pattern that the lists hand to SQL treats wildcards in the term as literal characters.
\<close>

theorem likeContains_is_substring: "sql_like (likeContains v) t \<longleftrightarrow> sublist (lower v) (lower t)"
proof -
  have "sql_like (likeContains v) t \<longleftrightarrow> (\<exists>a u w. t = a @ u @ w \<and> lower u = lower v)"
    unfolding likeContains_def sql_like_percent sql_like_escape by auto
  also have "\<dots> \<longleftrightarrow> (\<exists>a c. lower t = a @ lower v @ c)" using lower_split by blast
  finally show ?thesis by (simp add: sublist_def)
qed

section \<open>CSV\<close>

fun span_digits :: "string \<Rightarrow> string" where
  "span_digits s = dropWhile is_digit s"

text \<open>The two patterns of \<open>csvCell\<close>: a plain number, and text that a spreadsheet would read as a formula.\<close>

definition plain_exponent :: "string \<Rightarrow> bool" where
  "plain_exponent s \<longleftrightarrow> s = [] \<or>
     (case s of e # r \<Rightarrow> e \<in> {CHR ''e'', CHR ''E''} \<and>
        (let r' = (case r of [] \<Rightarrow> [] | c # cs \<Rightarrow> if c \<in> {CHR ''+'', CHR ''-''} then cs else r) in all_digits r') | [] \<Rightarrow> True)"

definition plain_number :: "string \<Rightarrow> bool" where
  "plain_number s =
     (let s' = (case s of [] \<Rightarrow> [] | c # cs \<Rightarrow> if c = CHR ''-'' then cs else s);
          rest = span_digits s'
      in s' \<noteq> [] \<and> is_digit (hd s') \<and>
         (case rest of
            [] \<Rightarrow> True
          | c # cs \<Rightarrow>
              if c = CHR ''.'' then cs \<noteq> [] \<and> is_digit (hd cs) \<and> plain_exponent (span_digits cs)
              else plain_exponent rest))"

definition formula_like :: "string \<Rightarrow> bool" where
  "formula_like s \<longleftrightarrow> (s \<noteq> [] \<and> hd s \<in> {CHR 0x09, CHR 0x0D, CHR 0x0A}) \<or>
     (let r = dropWhile is_space s in r \<noteq> [] \<and> hd r \<in> {CHR ''='', CHR ''+'', CHR ''-'', CHR ''@''})"

definition QUOTE :: char where
  "QUOTE = CHR 0x22"

definition csv_text :: "string option \<Rightarrow> string" where
  "csv_text v =
     (let s = (case v of None \<Rightarrow> [] | Some s \<Rightarrow> s)
      in if \<not> plain_number s \<and> formula_like s then CHR 0x27 # s else s)"

fun double_quotes :: "string \<Rightarrow> string" where
  "double_quotes [] = []"
| "double_quotes (c # cs) = (if c = QUOTE then QUOTE # QUOTE # double_quotes cs else c # double_quotes cs)"

definition csvCell :: "string option \<Rightarrow> string" where
  "csvCell v = QUOTE # double_quotes (csv_text v) @ [QUOTE]"

fun join_with :: "string \<Rightarrow> string list \<Rightarrow> string" where
  "join_with sep [] = []"
| "join_with sep [x] = x"
| "join_with sep (x # y # xs) = x @ sep @ join_with sep (y # xs)"

definition csvRow :: "string option list \<Rightarrow> string" where
  "csvRow vs = join_with '','' (map csvCell vs) @ [CHR 0x0D, CHR 0x0A]"

text \<open>
  A reader of one row of quoted fields: \<open>read_field\<close> reads up to the closing quote, \<open>read_row\<close> the
  fields up to the line end.
\<close>

fun read_field :: "string \<Rightarrow> (string \<times> string) option" where
  "read_field [] = None"
| "read_field (c # cs) =
     (if c \<noteq> QUOTE then map_option (\<lambda>(f, r). (c # f, r)) (read_field cs)
      else (case cs of
          [] \<Rightarrow> Some ([], [])
        | d # ds \<Rightarrow> if d = QUOTE then map_option (\<lambda>(f, r). (QUOTE # f, r)) (read_field ds) else Some ([], cs)))"

lemma read_field_length: "read_field s = Some (f, r) \<Longrightarrow> length r < length s"
proof (induction s arbitrary: f r rule: read_field.induct)
  case (2 c cs)
  then show ?case by (auto split: if_splits list.splits) force+
qed simp

function read_row :: "string \<Rightarrow> string list option" where
  "read_row s =
     (case s of
        [] \<Rightarrow> None
      | c # cs \<Rightarrow>
          if c \<noteq> QUOTE then None
          else (case read_field cs of
              None \<Rightarrow> None
            | Some (f, r) \<Rightarrow>
                if r = [CHR 0x0D, CHR 0x0A] then Some [f]
                else if r \<noteq> [] \<and> hd r = CHR '','' then map_option (\<lambda>fs. f # fs) (read_row (tl r)) else None))"
  by pat_completeness auto
termination
proof (relation "measure length", goal_cases)
  case (2 s c cs p f r)
  then show ?case using read_field_length [of cs f r] by (cases r) auto
qed simp

declare read_row.simps [simp del]

lemma read_field_quoted:
  "r = [] \<or> hd r \<noteq> QUOTE \<Longrightarrow> read_field (double_quotes s @ QUOTE # r) = Some (s, r)"
  by (induction s) (auto split: list.splits)

text \<open>
  C39. What a CSV export writes can be read back: a reader of quoted fields recovers the text of every
  cell of a row, whatever quotes, commas and line breaks it contains; and that text is the value
  itself, or the value behind an apostrophe when a spreadsheet would take it for a formula.
\<close>

theorem csvRow_roundtrip:
  assumes "vs \<noteq> []"
  shows "read_row (csvRow vs) = Some (map csv_text vs)"
  using assms
proof (induction vs rule: induct_list012)
  case (2 v)
  show ?case
    using read_field_quoted [of "[CHR 0x0D, CHR 0x0A]" "csv_text v"]
    by (subst read_row.simps) (simp add: csvRow_def csvCell_def QUOTE_def)
next
  case (3 v w vs)
  have row: "csvRow (v # w # vs) = QUOTE # double_quotes (csv_text v) @ QUOTE # CHR '','' # csvRow (w # vs)"
    by (simp add: csvRow_def csvCell_def)
  have "CHR '','' \<noteq> QUOTE" "CHR '','' # csvRow (w # vs) \<noteq> [CHR 0x0D, CHR 0x0A]" by (simp_all add: QUOTE_def)
  then show ?case unfolding row using 3
    by (subst read_row.simps) (simp add: read_field_quoted)
qed simp

section \<open>Secrets\<close>

definition hex_digit :: "nat \<Rightarrow> char" where
  "hex_digit n = (if n < 10 then char_of (48 + n) else char_of (87 + n))"

text \<open>\<open>JSON.stringify\<close> of a string without the surrounding quotes.\<close>

definition json_char :: "char \<Rightarrow> string" where
  "json_char c =
     (if c = QUOTE then [CHR 0x5C, QUOTE]
      else if c = CHR 0x5C then [CHR 0x5C, CHR 0x5C]
      else if c = CHR 0x08 then [CHR 0x5C, CHR ''b'']
      else if c = CHR 0x0C then [CHR 0x5C, CHR ''f'']
      else if c = CHR 0x0A then [CHR 0x5C, CHR ''n'']
      else if c = CHR 0x0D then [CHR 0x5C, CHR ''r'']
      else if c = CHR 0x09 then [CHR 0x5C, CHR ''t'']
      else if (of_char c :: nat) < 32
      then [CHR 0x5C, CHR ''u'', CHR ''0'', CHR ''0'', hex_digit (of_char c div 16), hex_digit (of_char c mod 16)]
      else [c])"

definition json_escape :: "string \<Rightarrow> string" where
  "json_escape s = concat (map json_char s)"

text \<open>\<open>replaceAll\<close> of a non-empty text, from left to right.\<close>

fun replaceAll :: "string \<Rightarrow> string \<Rightarrow> string \<Rightarrow> string" where
  "replaceAll v r [] = []"
| "replaceAll v r (c # cs) =
     (if prefix v (c # cs) then r @ replaceAll v r (drop (length v - 1) cs) else c # replaceAll v r cs)"

definition REDACTED :: string where
  "REDACTED = ''<redacted>''"

fun set_of_variants :: "string list \<Rightarrow> string list \<Rightarrow> string list" where
  "set_of_variants acc [] = acc"
| "set_of_variants acc (v # vs) = set_of_variants (if v \<in> set acc then acc else acc @ [v]) vs"

definition secret_variants :: "string list \<Rightarrow> string list" where
  "secret_variants secrets =
     set_of_variants [] (concat (map (\<lambda>s. if s = [] then [] else [s, json_escape s, json_escape (json_escape s)]) secrets))"

definition redactSecrets :: "string \<Rightarrow> string list \<Rightarrow> string" where
  "redactSecrets msg secrets =
     fold (\<lambda>v t. replaceAll v REDACTED t)
       (js_sort (\<lambda>a b. int (length b) - int (length a)) (secret_variants secrets)) msg"

lemma prefix_replaceAll:
  "prefix w (replaceAll v r t) \<Longrightarrow> r \<noteq> [] \<Longrightarrow> set w \<inter> set r = {} \<Longrightarrow> prefix w t"
proof (induction v r t arbitrary: w rule: replaceAll.induct)
  case (2 v r c cs)
  show ?case
  proof (cases w)
    case (Cons a as)
    show ?thesis
    proof (cases "prefix v (c # cs)")
      case True
      then have "prefix w (r @ replaceAll v r (drop (length v - 1) cs))" using "2.prems" by simp
      then have "a \<in> set r" using Cons \<open>r \<noteq> []\<close> by (cases r) auto
      then show ?thesis using Cons "2.prems" by simp
    next
      case False
      then show ?thesis using "2.IH"(2) [OF False, of as] "2.prems" Cons by auto
    qed
  qed simp
qed simp

lemma sublist_append_disjoint:
  assumes "sublist w (r @ t)" "w \<noteq> []" "set w \<inter> set r = {}"
  shows "sublist w t"
  using assms
proof (induction r)
  case (Cons c r)
  then have "\<not> prefix w (c # r @ t)" by (cases w) auto
  then show ?case using Cons by (simp add: sublist_Cons_right)
qed simp

lemma replaceAll_removes:
  assumes "w \<noteq> []" "r \<noteq> []" "set w \<inter> set r = {}"
  shows "\<not> sublist w (replaceAll w r t)"
  using assms
proof (induction w r t rule: replaceAll.induct)
  case (2 v r c cs)
  show ?case
  proof (cases "prefix v (c # cs)")
    case True
    then show ?thesis using 2 sublist_append_disjoint [of v r] by auto
  next
    case False
    moreover have "\<not> prefix v (c # replaceAll v r cs)"
    proof
      assume "prefix v (c # replaceAll v r cs)"
      then have "prefix v (replaceAll v r (c # cs))" using False by simp
      then show False using prefix_replaceAll "2.prems" False by blast
    qed
    ultimately show ?thesis using 2 by (simp add: sublist_Cons_right)
  qed
qed auto

lemma length_json_escape: "length s \<le> length (json_escape s)"
proof (induction s)
  case (Cons c s)
  have "1 \<le> length (json_char c)" by (simp add: json_char_def)
  then show ?case using Cons by (simp add: json_escape_def)
qed (simp add: json_escape_def)

lemma json_escape_id: "length (json_escape s) = length s \<Longrightarrow> json_escape s = s"
proof (induction s)
  case (Cons c s)
  have "length (json_char c) = 1 \<Longrightarrow> json_char c = [c]" by (auto simp: json_char_def split: if_splits)
  moreover have "1 \<le> length (json_char c)" by (simp add: json_char_def)
  ultimately show ?case using Cons length_json_escape [of s] by (auto simp: json_escape_def)
qed (simp add: json_escape_def)

text \<open>The secret itself is the shortest of its variants, so it is replaced last.\<close>

lemma secret_replaced_last:
  assumes "s \<noteq> []"
  shows "\<exists>vs. js_sort (\<lambda>a b. int (length b) - int (length a)) (secret_variants [s]) = vs @ [s]"
proof (cases "json_escape s = s")
  case True
  then show ?thesis using assms by (simp add: secret_variants_def)
next
  case False
  then have l1: "length s < length (json_escape s)"
    using length_json_escape [of s] json_escape_id [of s] by force
  show ?thesis
  proof (cases "json_escape (json_escape s) = json_escape s")
    case True
    then show ?thesis using assms False l1 by (simp add: secret_variants_def)
  next
    case False2: False
    then have l2: "length (json_escape s) < length (json_escape (json_escape s))"
      using length_json_escape [of "json_escape s"] json_escape_id [of "json_escape s"] by force
    then have "json_escape (json_escape s) \<noteq> s" using l1 by auto
    then show ?thesis using assms False False2 l1 l2 by (auto simp: secret_variants_def)
  qed
qed

text \<open>
  A password that has no character in common with the marker does not occur in a redacted
  message.
\<close>

theorem redactSecrets_removes:
  assumes "s \<noteq> []" and "set s \<inter> set REDACTED = {}"
  shows "\<not> sublist s (redactSecrets msg [s])"
proof -
  obtain vs where "js_sort (\<lambda>a b. int (length b) - int (length a)) (secret_variants [s]) = vs @ [s]"
    using secret_replaced_last [OF assms(1)] by blast
  then show ?thesis using replaceAll_removes [OF assms(1) _ assms(2)] by (simp add: redactSecrets_def REDACTED_def)
qed

theorem redactSecrets_removes_witness:
  "\<not> sublist ''PQ!'' (redactSecrets ''login failed for PQ!PQ!'' [''PQ!''])"
  by (rule redactSecrets_removes) code_simp+

theorem csvRow_roundtrip_witness:
  "read_row (csvRow [Some ''=1+1'', None, Some [QUOTE, CHR '','']]) = Some [CHR 0x27 # ''=1+1'', [], [QUOTE, CHR '','']]"
  using csvRow_roundtrip [of "[Some ''=1+1'', None, Some [QUOTE, CHR '','']]"]
  by (simp add: csv_text_def plain_number_def formula_like_def is_digit_def is_space_def QUOTE_def less_eq_char_def)

end
