(* ===== verification/Login_Enterprises.thy ===== *)
theory Login_Enterprises
  imports Login_Invariant Shared_Text
begin

text \<open>
  The enterprises of the login service: the table \<open>login_enterprises\<close>
  (\<^verbatim>\<open>src/login/src/db/enterpriseRepo.ts\<close>), which refuses to start when an enterprise with tasks changed its
  identity or left the registry, and what a login run needs of an enterprise's profile
  (\<^verbatim>\<open>src/login/src/enterprises.ts\<close>). The hash \<open>sha256\<close> (of the text, in hexadecimal) is a parameter.
\<close>

section \<open>Profiles and their fingerprint\<close>

text \<open>What the login service reads of an enterprise's registry profile.\<close>

record LoginProfile =
  pr_id :: string
  pr_base_url :: string
  pr_is_ghe :: bool
  pr_slug :: "string option"
  pr_client_id :: "string option"
  pr_sso_provider :: "SsoType option"
  pr_sso_login_url :: "string option"
  pr_blockers :: "(string \<times> string) list"

text \<open>JSON without numbers: the identities that are hashed have none.\<close>

datatype JsonValue =
    JsonNull
  | JsonBool bool
  | JsonString string
  | JsonArray "JsonValue list"
  | JsonObject "(string \<times> JsonValue) list"

definition json_string :: "string \<Rightarrow> string" where
  "json_string s = QUOTE # json_escape s @ [QUOTE]"

fun canonicalJson :: "JsonValue \<Rightarrow> string" where
  "canonicalJson JsonNull = ''null''"
| "canonicalJson (JsonBool b) = (if b then ''true'' else ''false'')"
| "canonicalJson (JsonString s) = json_string s"
| "canonicalJson (JsonArray vs) = CHR ''['' # join_with '','' (map canonicalJson vs) @ '']''"
| "canonicalJson (JsonObject ps) =
     CHR ''{'' # join_with '','' (map snd (sort_key fst (map (\<lambda>(k, v). (k, json_string k @ '':'' @ canonicalJson v)) ps))) @ ''}''"

definition loginProfileFingerprint :: "(string \<Rightarrow> string) \<Rightarrow> LoginProfile \<Rightarrow> string" where
  "loginProfileFingerprint sha256 p =
     (let slug = (if pr_is_ghe p then map_option lower (pr_slug p) else None)
      in sha256 (canonicalJson (JsonObject
        [(''id'', JsonString (pr_id p)), (''githubBaseUrl'', JsonString (pr_base_url p)),
         (''slug'', (case slug of None \<Rightarrow> JsonNull | Some v \<Rightarrow> JsonString v))])))"

record LoginEnterpriseSeed =
  ls_id :: string
  ls_fingerprint :: string

definition loginEnterpriseSeed :: "(string \<Rightarrow> string) \<Rightarrow> LoginProfile \<Rightarrow> LoginEnterpriseSeed" where
  "loginEnterpriseSeed sha256 p = \<lparr>ls_id = pr_id p, ls_fingerprint = loginProfileFingerprint sha256 p\<rparr>"

section \<open>The enterprise table\<close>

definition enterpriseRow :: "login_db \<Rightarrow> string \<Rightarrow> LoginEnterpriseRow option" where
  "enterpriseRow d x = List.find (\<lambda>e. le_id e = x) (login_enterprises d)"

definition hasTasks :: "login_db \<Rightarrow> string \<Rightarrow> bool" where
  "hasTasks d x = exists_row (\<lambda>t. lt_enterprise t = x) (login_tasks d)"

definition insertEnterpriseIfMissing :: "int \<Rightarrow> LoginEnterpriseSeed \<Rightarrow> login_db \<Rightarrow> bool \<times> login_db" where
  "insertEnterpriseIfMissing now seed d =
     (if enterpriseRow d (ls_id seed) \<noteq> None then (False, d)
      else (True, d\<lparr>login_enterprises := login_enterprises d @
        [\<lparr>le_id = ls_id seed, le_fingerprint = ls_fingerprint seed, le_created_at = now\<rparr>]\<rparr>))"

definition verifyLoginIdentity :: "LoginEnterpriseSeed \<Rightarrow> login_db \<Rightarrow> login_db login_res" where
  "verifyLoginIdentity seed d =
     (case enterpriseRow d (ls_id seed) of
        None \<Rightarrow> Inl (OtherError ''missing from login_enterprises'')
      | Some row \<Rightarrow>
          if le_fingerprint row = ls_fingerprint seed then Inr d
          else if hasTasks d (ls_id seed) then Inl (OtherError ''enterprise_identity_changed'')
          else Inr (d\<lparr>login_enterprises := update_where (\<lambda>e. le_id e = ls_id seed)
            (\<lambda>e. e\<lparr>le_fingerprint := ls_fingerprint seed\<rparr>) (login_enterprises d)\<rparr>))"

fun sync_login_seeds :: "int \<Rightarrow> LoginEnterpriseSeed list \<Rightarrow> login_db \<Rightarrow> login_db login_res" where
  "sync_login_seeds now [] d = Inr d"
| "sync_login_seeds now (seed # seeds) d =
     (case verifyLoginIdentity seed (snd (insertEnterpriseIfMissing now seed d)) of
        Inl e \<Rightarrow> Inl e
      | Inr d' \<Rightarrow> sync_login_seeds now seeds d')"

definition assertNoRemovedEnterpriseWithTasks :: "LoginEnterpriseSeed list \<Rightarrow> login_db \<Rightarrow> login_db login_res" where
  "assertNoRemovedEnterpriseWithTasks seeds d =
     (if exists_row (\<lambda>e. le_id e \<notin> ls_id ` set seeds \<and> hasTasks d (le_id e)) (login_enterprises d)
      then Inl (OtherError ''enterprise_missing_from_registry'') else Inr d)"

definition syncEnterprises :: "int \<Rightarrow> LoginEnterpriseSeed list \<Rightarrow> login_db \<Rightarrow> login_db login_res" where
  "syncEnterprises now seeds d =
     (case sync_login_seeds now seeds d of Inl e \<Rightarrow> Inl e | Inr d' \<Rightarrow> assertNoRemovedEnterpriseWithTasks seeds d')"

section \<open>What a login run needs\<close>

text \<open>
  An enterprise as the service runs it: its profile, the blockers, and whether its GitHub endpoints can
  be derived (they need a slug on GHE.com).
\<close>

record LoginEnterprise =
  ent_profile :: LoginProfile
  ent_derivable :: bool
  ent_blockers :: "string list"

definition loginBlockers :: "LoginProfile \<Rightarrow> string list" where
  "loginBlockers p =
     map (\<lambda>(code, field). code @ '':'' @ field) (pr_blockers p) @
     (if \<not> truthy (pr_client_id p) then [''enterprise_field_missing:github.oauthClientId''] else []) @
     (if pr_sso_provider p = Some SsoCustom \<and> \<not> truthy (pr_sso_login_url p)
      then [''enterprise_field_missing:login.ssoLoginUrl''] else [])"

definition buildEnterprise :: "LoginProfile \<Rightarrow> LoginEnterprise" where
  "buildEnterprise p = \<lparr>ent_profile = p, ent_derivable = (\<not> pr_is_ghe p \<or> pr_slug p \<noteq> None), ent_blockers = loginBlockers p\<rparr>"

definition findLoginEnterprise :: "LoginEnterprise list \<Rightarrow> string \<Rightarrow> LoginEnterprise option" where
  "findLoginEnterprise es x = List.find (\<lambda>e. pr_id (ent_profile e) = x) es"

definition readyLoginEnterprise :: "LoginEnterprise \<Rightarrow> LoginEnterprise login_res" where
  "readyLoginEnterprise e =
     (if ent_blockers e \<noteq> [] \<or> \<not> ent_derivable e \<or> \<not> truthy (pr_client_id (ent_profile e))
      then Inl (HttpApiError 503 ''enterprise_not_ready''
        (''Enterprise '' @ [QUOTE] @ pr_id (ent_profile e) @ [QUOTE] @ '' is not ready: '' @ join_with '', '' (ent_blockers e) @ ''.''))
      else Inr e)"

definition readRequestedSsoType :: "js \<Rightarrow> SsoType login_res" where
  "readRequestedSsoType requested =
     (if requested = JUndefined then Inr SsoCustom
      else if requested = JStr ''custom'' then Inr SsoCustom
      else if requested = JStr ''azure'' then Inr SsoAzure
      else Inl (HttpApiError 400 ''invalid_login_task'' ''ssoType must be custom or azure.''))"

fun sso_text :: "SsoType \<Rightarrow> string" where
  "sso_text SsoCustom = ''custom''"
| "sso_text SsoAzure = ''azure''"

definition resolveSsoType :: "LoginEnterprise \<Rightarrow> js \<Rightarrow> SsoType login_res" where
  "resolveSsoType e requested =
     (case pr_sso_provider (ent_profile e) of
        None \<Rightarrow> readRequestedSsoType requested
      | Some provider \<Rightarrow>
          if requested = JUndefined \<or> requested = JStr (sso_text provider) then Inr provider
          else Inl (HttpApiError 400 ''sso_type_mismatch''
            (''ssoType must be omitted or equal this enterprise's SSO provider ('' @ sso_text provider @ '').'')))"

section \<open>Starting fails closed\<close>

lemma find_le_Some: "List.find (\<lambda>e. le_id e = x) es = Some e \<Longrightarrow> e \<in> set es \<and> le_id e = x"
  by (auto dest: find_Some_mem)

text \<open>
  A verified seed: its row has the seed's fingerprint. Registering and verifying one seed keeps tasks
  and attempts, all rows with tasks, and the rows of the other enterprises.
\<close>

lemma verify_seed:
  assumes "verifyLoginIdentity seed (snd (insertEnterpriseIfMissing now seed d)) = Inr d'"
  shows "login_tasks d' = login_tasks d" and "login_attempts d' = login_attempts d"
    and "\<And>x. x \<noteq> ls_id seed \<Longrightarrow> enterpriseRow d' x = enterpriseRow d x"
    and "map_option le_fingerprint (enterpriseRow d' (ls_id seed)) = Some (ls_fingerprint seed)"
    and "hasTasks d (ls_id seed) \<Longrightarrow> enterpriseRow d (ls_id seed) \<noteq> None \<Longrightarrow> enterpriseRow d' (ls_id seed) = enterpriseRow d (ls_id seed)"
    and "set (login_enterprise_ids d) \<subseteq> set (login_enterprise_ids d')"
    and "ls_id seed \<in> set (login_enterprise_ids d')"
proof -
  let ?d1 = "snd (insertEnterpriseIfMissing now seed d)"
  have f1: "find (\<lambda>e. le_id e = x) (es @ [e]) = (case find (\<lambda>e. le_id e = x) es of None \<Rightarrow> if le_id e = x then Some e else None | Some r \<Rightarrow> Some r)"
    for x es and e :: LoginEnterpriseRow by (induction es) auto
  have f2: "find (\<lambda>e. le_id e = x) (update_where (\<lambda>e. le_id e = y) (\<lambda>e. e\<lparr>le_fingerprint := v\<rparr>) es) =
      (if x = y then map_option (\<lambda>e. e\<lparr>le_fingerprint := v\<rparr>) (find (\<lambda>e. le_id e = x) es) else find (\<lambda>e. le_id e = x) es)"
    for x y v and es :: "LoginEnterpriseRow list" by (induction es) auto
  obtain row where row: "enterpriseRow ?d1 (ls_id seed) = Some row"
    using assms by (auto simp: verifyLoginIdentity_def split: option.splits)
  have d1: "login_tasks ?d1 = login_tasks d" "login_attempts ?d1 = login_attempts d"
    "\<And>x. x \<noteq> ls_id seed \<Longrightarrow> enterpriseRow ?d1 x = enterpriseRow d x"
    "enterpriseRow d (ls_id seed) \<noteq> None \<Longrightarrow> enterpriseRow ?d1 (ls_id seed) = enterpriseRow d (ls_id seed)"
    "set (login_enterprise_ids d) \<subseteq> set (login_enterprise_ids ?d1)"
    by (auto simp: insertEnterpriseIfMissing_def enterpriseRow_def f1 login_enterprise_ids_def split: option.splits)
  have "d' = ?d1 \<and> le_fingerprint row = ls_fingerprint seed \<or> \<not> hasTasks ?d1 (ls_id seed) \<and>
      d' = ?d1\<lparr>login_enterprises := update_where (\<lambda>e. le_id e = ls_id seed)
        (\<lambda>e. e\<lparr>le_fingerprint := ls_fingerprint seed\<rparr>) (login_enterprises ?d1)\<rparr>"
    using assms unfolding verifyLoginIdentity_def row option.case by (simp split: if_split_asm)
  then consider "d' = ?d1" "le_fingerprint row = ls_fingerprint seed"
    | "\<not> hasTasks ?d1 (ls_id seed)" "d' = ?d1\<lparr>login_enterprises := update_where (\<lambda>e. le_id e = ls_id seed)
        (\<lambda>e. e\<lparr>le_fingerprint := ls_fingerprint seed\<rparr>) (login_enterprises ?d1)\<rparr>"
    by blast
  note cases = this
  show "login_tasks d' = login_tasks d" "login_attempts d' = login_attempts d" using cases d1(1,2) by (cases, simp_all)+
  show "enterpriseRow d' x = enterpriseRow d x" if "x \<noteq> ls_id seed" for x
    using cases d1(3) [OF that] that by cases (auto simp: enterpriseRow_def f2)
  show "map_option le_fingerprint (enterpriseRow d' (ls_id seed)) = Some (ls_fingerprint seed)"
    using cases row by cases (auto simp: enterpriseRow_def f2)
  show "enterpriseRow d' (ls_id seed) = enterpriseRow d (ls_id seed)"
    if "hasTasks d (ls_id seed)" "enterpriseRow d (ls_id seed) \<noteq> None"
    using cases d1(1,4) that by cases (auto simp: hasTasks_def)
  have ids: "login_enterprise_ids d' = login_enterprise_ids ?d1"
    using cases by cases (simp_all add: login_enterprise_ids_def map_update_where)
  show "set (login_enterprise_ids d) \<subseteq> set (login_enterprise_ids d')" unfolding ids by (rule d1(5))
  have "row \<in> set (login_enterprises ?d1)" "le_id row = ls_id seed" using find_le_Some row by (auto simp: enterpriseRow_def)
  then show "ls_id seed \<in> set (login_enterprise_ids d')" unfolding ids unfolding login_enterprise_ids_def by force
qed

lemma sync_login_seeds_spec:
  assumes "sync_login_seeds now seeds d = Inr d'"
  shows "login_tasks d' = login_tasks d \<and> login_attempts d' = login_attempts d \<and>
    set (login_enterprise_ids d) \<subseteq> set (login_enterprise_ids d') \<and>
    (\<forall>x. hasTasks d x \<longrightarrow> enterpriseRow d x \<noteq> None \<longrightarrow> enterpriseRow d' x = enterpriseRow d x)"
  using assms
proof (induction seeds arbitrary: d)
  case (Cons seed seeds)
  obtain d1 where d1: "verifyLoginIdentity seed (snd (insertEnterpriseIfMissing now seed d)) = Inr d1" "sync_login_seeds now seeds d1 = Inr d'"
    using Cons.prems by (auto split: sum.splits)
  note v = verify_seed [OF d1(1)] and IH = Cons.IH [OF d1(2)]
  have ht: "hasTasks d1 x = hasTasks d x" for x using v(1) by (simp add: hasTasks_def)
  have "enterpriseRow d' x = enterpriseRow d x" if "hasTasks d x" "enterpriseRow d x \<noteq> None" for x
    using IH v(3) [of x] v(5) ht [of x] that by (cases "x = ls_id seed") auto
  then show ?case using IH v(1,2,6) by auto
qed auto

end
