(* ===== verification/Login_Settings.thy ===== *)
theory Login_Settings
  imports Login_Tasks Shared_Text
begin

text \<open>
  The login service's runtime settings: the single row of \<open>login_runtime_settings\<close> and its validation
  (\<^verbatim>\<open>src/login/src/db/runtimeSettingsRepo.ts\<close>), and the route that edits it
  (\<^verbatim>\<open>src/login/src/routes/settingsApi.ts\<close>). Requests are JavaScript values. An edit names the version
  it was made for; the process keeps a snapshot of the row.
\<close>

section \<open>The row and its snapshot\<close>

record RuntimeSettingsRow =
  rs_concurrency :: int
  rs_timeout_ms :: int
  rs_debug_logs :: int
  rs_debug_artifacts :: int
  rs_version :: int
  rs_updated_at :: int

record LoginRuntimeSettings =
  set_concurrency :: int
  set_timeout_ms :: int
  set_debug_logs :: bool
  set_debug_artifacts :: bool
  set_version :: int
  set_updated_at :: int

datatype settings_error =
    SettingsInvalid "string list"
  | SettingsConflict int int

type_synonym 'a settings_res = "settings_error + 'a"

definition SETTINGS_KEYS :: "string list" where
  "SETTINGS_KEYS = [''concurrency'', ''authTimeoutMs'', ''authDebugLogs'', ''authDebugArtifacts'']"

fun is_bool :: "js \<Rightarrow> bool" where
  "is_bool (JBool b) = True"
| "is_bool _ = False"

definition in_range :: "js \<Rightarrow> int \<Rightarrow> int \<Rightarrow> bool" where
  "in_range v lo hi \<longleftrightarrow> Number_isInteger v \<and> lo \<le> js_int v \<and> js_int v \<le> hi"

text \<open>The issues of candidate values, as \<open>validateRuntimeSettingsValues\<close> collects them.\<close>

definition settings_issues :: "(string \<Rightarrow> js) \<Rightarrow> string list" where
  "settings_issues v =
     (if in_range (v ''concurrency'') 1 20 then [] else [''concurrency must be an integer from 1 through 20.'']) @
     (if in_range (v ''authTimeoutMs'') 5000 600000 then [] else [''authTimeoutMs must be an integer from 5000 through 600000.'']) @
     (if is_bool (v ''authDebugLogs'') then [] else [''authDebugLogs must be a boolean.'']) @
     (if is_bool (v ''authDebugArtifacts'') then [] else [''authDebugArtifacts must be a boolean.''])"

definition validateRuntimeSettingsValues :: "(string \<Rightarrow> js) \<Rightarrow> unit settings_res" where
  "validateRuntimeSettingsValues v = (if settings_issues v \<noteq> [] then Inl (SettingsInvalid (settings_issues v)) else Inr ())"

definition snapshot_values :: "LoginRuntimeSettings \<Rightarrow> string \<Rightarrow> js" where
  "snapshot_values s k =
     (if k = ''concurrency'' then JNum (of_int (set_concurrency s))
      else if k = ''authTimeoutMs'' then JNum (of_int (set_timeout_ms s))
      else if k = ''authDebugLogs'' then JBool (set_debug_logs s)
      else if k = ''authDebugArtifacts'' then JBool (set_debug_artifacts s) else JUndefined)"

definition readSnapshot :: "RuntimeSettingsRow option \<Rightarrow> LoginRuntimeSettings settings_res" where
  "readSnapshot r =
     (case r of
        None \<Rightarrow> Inl (SettingsInvalid [''login_runtime_settings row with id 1 is missing.''])
      | Some row \<Rightarrow>
          let issues =
            (if rs_debug_logs row \<in> {0, 1} then [] else [''auth_debug_logs must be stored as 0 or 1.'']) @
            (if rs_debug_artifacts row \<in> {0, 1} then [] else [''auth_debug_artifacts must be stored as 0 or 1.'']) @
            (if rs_version row \<ge> 1 then [] else [''version must be a positive integer.''])
          in if issues \<noteq> [] then Inl (SettingsInvalid issues)
             else let s = \<lparr>set_concurrency = rs_concurrency row, set_timeout_ms = rs_timeout_ms row,
                      set_debug_logs = (rs_debug_logs row = 1), set_debug_artifacts = (rs_debug_artifacts row = 1),
                      set_version = rs_version row, set_updated_at = rs_updated_at row\<rparr>
               in (case validateRuntimeSettingsValues (snapshot_values s) of Inl e \<Rightarrow> Inl e | Inr _ \<Rightarrow> Inr s))"

section \<open>Edits\<close>

definition validateUpdateRequest :: "js \<Rightarrow> unit settings_res" where
  "validateUpdateRequest request =
     (if \<not> isRecord request then Inl (SettingsInvalid [''runtime settings update must be an object.''])
      else let v = js_get request ''expectedVersion''; changes = js_get request ''changes'';
               unknown = filter (\<lambda>k. k \<notin> set SETTINGS_KEYS) (js_keys changes);
               issues =
                 (if Number_isInteger v \<and> js_int v \<ge> 1 then [] else [''expectedVersion must be a positive integer.'']) @
                 (if \<not> isRecord changes then [''changes must be an object.'']
                  else if unknown \<noteq> [] then [''changes contains unknown field(s): '' @ join_with '', '' unknown @ ''.''] else [])
        in if issues \<noteq> [] then Inl (SettingsInvalid issues) else Inr ())"

text \<open>The object spread \<open>{ ...current, ...changes }\<close>: an own property of the changes wins.\<close>

definition candidate :: "LoginRuntimeSettings \<Rightarrow> js \<Rightarrow> string \<Rightarrow> js" where
  "candidate current changes k = (if k \<in> set (js_keys changes) then js_get changes k else snapshot_values current k)"

definition js_true :: "js \<Rightarrow> int" where
  "js_true v = (if v = JBool True then 1 else 0)"

text \<open>The transaction: the row is read, the candidate validated, and the version compared before it is written.\<close>

definition update_settings :: "int \<Rightarrow> js \<Rightarrow> RuntimeSettingsRow option \<Rightarrow> (LoginRuntimeSettings \<times> RuntimeSettingsRow option) settings_res" where
  "update_settings now request r =
     (case validateUpdateRequest request of Inl e \<Rightarrow> Inl e | Inr _ \<Rightarrow>
      case readSnapshot r of Inl e \<Rightarrow> Inl e | Inr current \<Rightarrow>
      let c = candidate current (js_get request ''changes''); v = js_int (js_get request ''expectedVersion'') in
      case validateRuntimeSettingsValues c of Inl e \<Rightarrow> Inl e | Inr _ \<Rightarrow>
      if set_version current \<noteq> v then Inl (SettingsConflict v (set_version current))
      else let r' = map_option (\<lambda>row. row\<lparr>rs_concurrency := js_int (c ''concurrency''), rs_timeout_ms := js_int (c ''authTimeoutMs''),
                 rs_debug_logs := js_true (c ''authDebugLogs''), rs_debug_artifacts := js_true (c ''authDebugArtifacts''),
                 rs_version := rs_version row + 1, rs_updated_at := now\<rparr>) r
           in (case readSnapshot r' of Inl e \<Rightarrow> Inl e | Inr s \<Rightarrow> Inr (s, r')))"

text \<open>The route's own check of the body, before the repository sees it.\<close>

definition validateChangeFields :: "js \<Rightarrow> string list" where
  "validateChangeFields changes =
     (let has = (\<lambda>k. k \<in> set (js_keys changes)) in
      (if has ''concurrency'' \<and> \<not> in_range (js_get changes ''concurrency'') 1 20
       then [''concurrency must be an integer from 1 through 20.''] else []) @
      (if has ''authTimeoutMs'' \<and> \<not> in_range (js_get changes ''authTimeoutMs'') 5000 600000
       then [''authTimeoutMs must be an integer from 5000 through 600000.''] else []) @
      (if has ''authDebugLogs'' \<and> \<not> is_bool (js_get changes ''authDebugLogs'') then [''authDebugLogs must be a boolean.''] else []) @
      (if has ''authDebugArtifacts'' \<and> \<not> is_bool (js_get changes ''authDebugArtifacts'')
       then [''authDebugArtifacts must be a boolean.''] else []))"

definition readUpdateRequest :: "js \<Rightarrow> js settings_res" where
  "readUpdateRequest body =
     (if \<not> isRecord body then Inl (SettingsInvalid [''request body must be an object.''])
      else let v = js_get body ''expectedVersion''; changes = js_get body ''changes'';
               unknownRoot = filter (\<lambda>k. k \<notin> {''expectedVersion'', ''changes''}) (js_keys body);
               unknown = filter (\<lambda>k. k \<notin> set SETTINGS_KEYS) (js_keys changes);
               issues =
                 (if unknownRoot \<noteq> [] then [''request contains unknown field(s): '' @ join_with '', '' unknownRoot @ ''.''] else []) @
                 (if Number_isInteger v \<and> js_int v \<ge> 1 then [] else [''expectedVersion must be a positive integer.'']) @
                 (if \<not> isRecord changes then [''changes must be an object.'']
                  else (if unknown \<noteq> [] then [''changes contains unknown field(s): '' @ join_with '', '' unknown @ ''.''] else []) @
                    validateChangeFields changes)
        in if issues \<noteq> [] then Inl (SettingsInvalid issues) else Inr body)"

text \<open>The route: status and, when it succeeds, the new snapshot and row.\<close>

definition patch_settings :: "int \<Rightarrow> js \<Rightarrow> RuntimeSettingsRow option \<Rightarrow> int \<times> LoginRuntimeSettings option \<times> RuntimeSettingsRow option" where
  "patch_settings now body r =
     (case (case readUpdateRequest body of Inl e \<Rightarrow> Inl e | Inr request \<Rightarrow> update_settings now request r) of
        Inr (s, r') \<Rightarrow> (200, Some s, r')
      | Inl (SettingsInvalid _) \<Rightarrow> (400, None, r)
      | Inl (SettingsConflict _ _) \<Rightarrow> (409, None, r))"

section \<open>Edits are exact\<close>

text \<open>The \<open>CHECK\<close> constraints of the table.\<close>

definition valid_row :: "RuntimeSettingsRow \<Rightarrow> bool" where
  "valid_row row \<longleftrightarrow> 1 \<le> rs_concurrency row \<and> rs_concurrency row \<le> 20 \<and> 5000 \<le> rs_timeout_ms row \<and> rs_timeout_ms row \<le> 600000 \<and>
     rs_debug_logs row \<in> {0, 1} \<and> rs_debug_artifacts row \<in> {0, 1} \<and> rs_version row \<ge> 1"

definition row_snapshot :: "RuntimeSettingsRow \<Rightarrow> LoginRuntimeSettings" where
  "row_snapshot row = \<lparr>set_concurrency = rs_concurrency row, set_timeout_ms = rs_timeout_ms row,
     set_debug_logs = (rs_debug_logs row = 1), set_debug_artifacts = (rs_debug_artifacts row = 1),
     set_version = rs_version row, set_updated_at = rs_updated_at row\<rparr>"

lemma settings_issues_snapshot:
  "settings_issues (snapshot_values s) = [] \<longleftrightarrow> 1 \<le> set_concurrency s \<and> set_concurrency s \<le> 20 \<and>
     5000 \<le> set_timeout_ms s \<and> set_timeout_ms s \<le> 600000"
  by (auto simp: settings_issues_def snapshot_values_def in_range_def)

lemma readSnapshot_iff: "readSnapshot r = Inr s \<longleftrightarrow> (\<exists>row. r = Some row \<and> valid_row row \<and> s = row_snapshot row)"
proof (cases r)
  case (Some row)
  have "settings_issues (snapshot_values (row_snapshot row)) = [] \<longleftrightarrow> 1 \<le> rs_concurrency row \<and> rs_concurrency row \<le> 20 \<and>
      5000 \<le> rs_timeout_ms row \<and> rs_timeout_ms row \<le> 600000"
    by (simp add: settings_issues_snapshot row_snapshot_def)
  then show ?thesis using Some unfolding readSnapshot_def Let_def row_snapshot_def [symmetric] validateRuntimeSettingsValues_def
    by (cases "settings_issues (snapshot_values (row_snapshot row)) = []") (auto simp: valid_row_def split: if_splits)
qed (simp add: readSnapshot_def)

text \<open>The value a field has after an edit: the requested one, or the one it had.\<close>

definition edited_int :: "js \<Rightarrow> string \<Rightarrow> int \<Rightarrow> int" where
  "edited_int body k old =
     (let changes = js_get body ''changes'' in if k \<in> set (js_keys changes) then js_int (js_get changes k) else old)"

definition edited_flag :: "js \<Rightarrow> string \<Rightarrow> int \<Rightarrow> int" where
  "edited_flag body k old =
     (let changes = js_get body ''changes'' in if k \<in> set (js_keys changes) then js_true (js_get changes k) else old)"

lemma is_boolE: "is_bool v \<Longrightarrow> (\<And>b. v = JBool b \<Longrightarrow> P) \<Longrightarrow> P"
  by (cases v) auto

lemma update_settings_Inr:
  assumes "valid_row row" and u: "update_settings now request (Some row) = Inr (s, r')"
  obtains row' where "r' = Some row'" "s = row_snapshot row'" "valid_row row'" "js_int (js_get request ''expectedVersion'') = rs_version row"
    "row' = \<lparr>rs_concurrency = edited_int request ''concurrency'' (rs_concurrency row),
        rs_timeout_ms = edited_int request ''authTimeoutMs'' (rs_timeout_ms row),
        rs_debug_logs = edited_flag request ''authDebugLogs'' (rs_debug_logs row),
        rs_debug_artifacts = edited_flag request ''authDebugArtifacts'' (rs_debug_artifacts row),
        rs_version = rs_version row + 1, rs_updated_at = now\<rparr>"
proof -
  let ?c = "candidate (row_snapshot row) (js_get request ''changes'')"
  have cur: "readSnapshot (Some row) = Inr (row_snapshot row)" using assms(1) readSnapshot_iff by blast
  have flag: "js_true (JBool (x = 1)) = x" if "x \<in> {0, 1}" for x :: int using that by (auto simp: js_true_def)
  have c: "js_int (?c ''concurrency'') = edited_int request ''concurrency'' (rs_concurrency row)"
    "js_int (?c ''authTimeoutMs'') = edited_int request ''authTimeoutMs'' (rs_timeout_ms row)"
    "js_true (?c ''authDebugLogs'') = edited_flag request ''authDebugLogs'' (rs_debug_logs row)"
    "js_true (?c ''authDebugArtifacts'') = edited_flag request ''authDebugArtifacts'' (rs_debug_artifacts row)"
    using assms(1) flag [of "rs_debug_logs row"] flag [of "rs_debug_artifacts row"]
    by (simp_all add: candidate_def edited_int_def edited_flag_def snapshot_values_def row_snapshot_def valid_row_def Let_def)
  define row' where "row' = row\<lparr>rs_concurrency := js_int (?c ''concurrency''), rs_timeout_ms := js_int (?c ''authTimeoutMs''),
    rs_debug_logs := js_true (?c ''authDebugLogs''), rs_debug_artifacts := js_true (?c ''authDebugArtifacts''),
    rs_version := rs_version row + 1, rs_updated_at := now\<rparr>"
  have "validateUpdateRequest request = Inr ()" "validateRuntimeSettingsValues ?c = Inr ()"
    "js_int (js_get request ''expectedVersion'') = rs_version row" "readSnapshot (Some row') = Inr s" "r' = Some row'"
    using u cur unfolding update_settings_def row'_def
    by (auto simp: Let_def row_snapshot_def split: sum.splits if_splits)
  moreover have "row' = \<lparr>rs_concurrency = edited_int request ''concurrency'' (rs_concurrency row),
        rs_timeout_ms = edited_int request ''authTimeoutMs'' (rs_timeout_ms row),
        rs_debug_logs = edited_flag request ''authDebugLogs'' (rs_debug_logs row),
        rs_debug_artifacts = edited_flag request ''authDebugArtifacts'' (rs_debug_artifacts row),
        rs_version = rs_version row + 1, rs_updated_at = now\<rparr>"
    unfolding row'_def c by simp
  ultimately show thesis using that readSnapshot_iff by auto
qed

text \<open>
  C34. An edit of the runtime settings takes effect only for the version it was made for, and then
  changes exactly the requested fields to values in range and raises the version, so of two edits for
  the same version at most one succeeds; a refused edit changes nothing.
\<close>

theorem patch_settings_exact:
  assumes "valid_row row"
  shows "(\<exists>row'. patch_settings now body (Some row) = (200, Some (row_snapshot row'), Some row') \<and> valid_row row' \<and>
       js_int (js_get body ''expectedVersion'') = rs_version row \<and>
       row' = \<lparr>rs_concurrency = edited_int body ''concurrency'' (rs_concurrency row),
         rs_timeout_ms = edited_int body ''authTimeoutMs'' (rs_timeout_ms row),
         rs_debug_logs = edited_flag body ''authDebugLogs'' (rs_debug_logs row),
         rs_debug_artifacts = edited_flag body ''authDebugArtifacts'' (rs_debug_artifacts row),
         rs_version = rs_version row + 1, rs_updated_at = now\<rparr>) \<or>
     (\<exists>st. patch_settings now body (Some row) = (st, None, Some row) \<and> (st = 400 \<or> st = 409))"
proof (cases "case readUpdateRequest body of Inl e \<Rightarrow> Inl e | Inr request \<Rightarrow> update_settings now request (Some row)")
  case (Inl e)
  then show ?thesis by (cases e) (auto simp: patch_settings_def)
next
  case (Inr sr)
  obtain s r' where sr: "sr = (s, r')" by (cases sr)
  have "readUpdateRequest body = Inr body" using Inr by (cases "readUpdateRequest body") (auto simp: readUpdateRequest_def Let_def split: if_splits)
  then have "update_settings now body (Some row) = Inr (s, r')" using Inr sr by simp
  then obtain row' where row': "r' = Some row'" "s = row_snapshot row'" "valid_row row'"
    "js_int (js_get body ''expectedVersion'') = rs_version row"
    "row' = \<lparr>rs_concurrency = edited_int body ''concurrency'' (rs_concurrency row),
        rs_timeout_ms = edited_int body ''authTimeoutMs'' (rs_timeout_ms row),
        rs_debug_logs = edited_flag body ''authDebugLogs'' (rs_debug_logs row),
        rs_debug_artifacts = edited_flag body ''authDebugArtifacts'' (rs_debug_artifacts row),
        rs_version = rs_version row + 1, rs_updated_at = now\<rparr>"
    by (rule update_settings_Inr [OF assms])
  have "patch_settings now body (Some row) = (200, Some (row_snapshot row'), Some row')"
    unfolding patch_settings_def Inr sr row'(1,2) by simp
  then show ?thesis using row' by blast
qed

definition example_row :: RuntimeSettingsRow where
  "example_row = \<lparr>rs_concurrency = 1, rs_timeout_ms = 60000, rs_debug_logs = 0, rs_debug_artifacts = 0, rs_version = 1, rs_updated_at = 0\<rparr>"

definition example_edit :: js where
  "example_edit = JObj [(''expectedVersion'', JNum 1), (''changes'', JObj [(''concurrency'', JNum 4)])]"

theorem patch_settings_exact_witness:
  "valid_row example_row \<and> patch_settings 5 example_edit (Some example_row) = (200, Some (row_snapshot (example_row\<lparr>rs_concurrency := 4, rs_version := 2, rs_updated_at := 5\<rparr>)),
     Some (example_row\<lparr>rs_concurrency := 4, rs_version := 2, rs_updated_at := 5\<rparr>))"
proof -
  have v: "valid_row example_row" by (simp add: valid_row_def example_row_def)
  have "fst (patch_settings 5 example_edit (Some example_row)) = 200" by code_simp
  then show ?thesis using patch_settings_exact [OF v, of 5 example_edit] v
    by (auto simp: example_row_def example_edit_def edited_int_def edited_flag_def)
qed

end
