(* ===== verification/Login_Queue.thy ===== *)
theory Login_Queue
  imports Login_Enterprises Login_Settings
begin

text \<open>
  The login queue and the programs around it: \<^verbatim>\<open>src/login/src/tasks/queue.ts\<close>, \<^verbatim>\<open>runner.ts\<close>, \<^verbatim>\<open>retry.ts\<close>,
  \<^verbatim>\<open>delete.ts\<close>, \<^verbatim>\<open>poolProtection.ts\<close> and \<^verbatim>\<open>recovery.ts\<close>. JavaScript runs each piece of an \<open>async\<close> function
  between two \<open>await\<close>s without interruption, so every such piece is one definition, and what the
  function still knows after the \<open>await\<close> is a row of the world: a run of \<open>runLoginTask\<close> with its phase, a
  cancellation that waits for the run to settle, a retry that waits for the Proxy, a deletion that
  removes log files. The replies of the Proxy, of the browser login and of the file system are
  arguments. Log lines are not modelled, and neither are failures to write them.
\<close>

section \<open>The world\<close>

record LoginTaskRequest =
  rq_identity :: string
  rq_sso_user :: string
  rq_password :: string
  rq_gh_login :: string
  rq_attempt :: string
  rq_sso_type :: SsoType

record RuntimeTaskPayload = LoginTaskRequest +
  pl_enterprise :: string
  pl_task :: string

text \<open>
  The phases of a run: waiting for the device flow, waiting for the token to be saved, rejected with a
  message, waiting for the failure report, settled.
\<close>

datatype run_phase = DeviceFlow | SavingToken | Rejected string | Reporting | Settled

record login_run =
  run_payload :: RuntimeTaskPayload
  run_aborted :: bool
  run_phase :: run_phase

text \<open>A cancellation in progress, with the attempt of the run it waits for.\<close>

record cancellation =
  cn_task :: LoginTaskRecord
  cn_waits :: "string option"
  cn_reporting :: bool

record retry_check =
  rc_task :: LoginTaskRecord
  rc_override :: "string option"

record retry_wait =
  rw_task :: LoginTaskRecord
  rw_reserved :: LoginTaskRecord
  rw_attempt :: string
  rw_override :: "string option"

text \<open>
  The controllers and the completions of the queue are keyed by the same task identifiers as its
  active runs; they are the run's own \<open>run_aborted\<close> flag and its presence in \<open>lw_runs\<close>.
\<close>

record login_world =
  lw_db :: login_db
  lw_row :: "RuntimeSettingsRow option"
  lw_settings :: LoginRuntimeSettings
  lw_enterprises :: "LoginEnterprise list"
  lw_accepting :: bool
  lw_pending :: "RuntimeTaskPayload list"
  lw_active :: "string list"
  lw_runs :: "login_run list"
  lw_cancelled :: "string list"
  lw_cancellations :: "cancellation list"
  lw_checks :: "retry_check list"
  lw_retries :: "retry_wait list"
  lw_deletions :: "(string \<times> string) list"

definition add_once :: "'a \<Rightarrow> 'a list \<Rightarrow> 'a list" where
  "add_once x xs = (if x \<in> set xs then xs else xs @ [x])"

fun remove_first :: "('a \<Rightarrow> bool) \<Rightarrow> 'a list \<Rightarrow> 'a list" where
  "remove_first P [] = []"
| "remove_first P (x # xs) = (if P x then xs else x # remove_first P xs)"

definition cancel_key :: "string \<Rightarrow> string \<Rightarrow> string" where
  "cancel_key i aid = i @ '':'' @ aid"

definition isBusy :: "login_world \<Rightarrow> string \<Rightarrow> bool" where
  "isBusy w i \<longleftrightarrow> i \<in> set (lw_active w) \<or> list_ex (\<lambda>p. pl_task p = i) (lw_pending w)"

definition getConcurrency :: "login_world \<Rightarrow> int" where
  "getConcurrency w = set_concurrency (lw_settings w)"

section \<open>Running a task\<close>

definition taskEnterprise :: "LoginEnterprise list \<Rightarrow> LoginTaskRecord \<Rightarrow> LoginEnterprise login_res" where
  "taskEnterprise es task =
     (case findLoginEnterprise es (lt_enterprise task) of
        None \<Rightarrow> Inl (HttpApiError 404 ''enterprise_not_found'' (''Enterprise '' @ [QUOTE] @ lt_enterprise task @ [QUOTE] @ '' was not found.''))
      | Some e \<Rightarrow> readyLoginEnterprise e)"

definition run_checks :: "LoginEnterprise list \<Rightarrow> LoginTaskRecord \<Rightarrow> RuntimeTaskPayload \<Rightarrow> LoginEnterprise login_res" where
  "run_checks es task p =
     (if rq_password p = [] then Inl (OtherError ''ssoPassword is required to run a login task.'')
      else if js_trim (rq_gh_login p) = [] then Inl (OtherError ''ghLogin is required to run a login task.'')
      else taskEnterprise es task)"

definition failure_code :: "bool \<Rightarrow> login_error \<Rightarrow> string" where
  "failure_code writingToken e =
     (if writingToken then ''token_write_failed''
      else (case e of HttpApiError st code msg \<Rightarrow> code | _ \<Rightarrow> ''login_failed''))"

definition CANCELLED_MESSAGE :: string where
  "CANCELLED_MESSAGE = ''Login task cancelled.''"

text \<open>The \<open>catch\<close> block of \<open>runLoginTask\<close>: an aborted run is left to the queue, any other is marked failed.\<close>

definition run_catch :: "int \<Rightarrow> string \<Rightarrow> string \<Rightarrow> RuntimeTaskPayload \<Rightarrow> bool \<Rightarrow> bool \<Rightarrow> login_error \<Rightarrow> login_db \<Rightarrow> run_phase \<times> login_db" where
  "run_catch now x i p aborted writingToken e d =
     (if aborted then (Rejected CANCELLED_MESSAGE, d)
      else let message = redactSecrets (error_message e) [rq_password p]
        in (Rejected message, snd (markFailed now x i message (Some (rq_attempt p)) (Some (failure_code writingToken e)) d)))"

text \<open>
  \<open>runLoginTask\<close> up to its first \<open>await\<close>. The log file is created first; \<open>mkLog\<close> is that attempt to create
  it, with the path or the error. A new run is not aborted.
\<close>

definition runLoginTask_begin :: "int \<Rightarrow> (RuntimeTaskPayload \<Rightarrow> string login_res) \<Rightarrow> LoginEnterprise list \<Rightarrow> LoginTaskRecord \<Rightarrow>
    RuntimeTaskPayload \<Rightarrow> login_db \<Rightarrow> run_phase \<times> login_db" where
  "runLoginTask_begin now mkLog es task p d =
     (case mkLog p of
        Inl e \<Rightarrow> (Rejected (error_message e), d)
      | Inr path \<Rightarrow>
          let (r, d') = markRunning now (lt_enterprise task) (lt_id task) path (Some (rq_attempt p)) d in
          if r = None then (Settled, d')
          else (case run_checks es task p of
              Inl e \<Rightarrow> run_catch now (lt_enterprise task) (lt_id task) p False False e d'
            | Inr _ \<Rightarrow> (DeviceFlow, d')))"

text \<open>After the device flow: the token, or the error it ended with.\<close>

definition runLoginTask_token :: "int \<Rightarrow> login_run \<Rightarrow> string login_res \<Rightarrow> login_db \<Rightarrow> run_phase \<times> login_db" where
  "runLoginTask_token now r result d =
     (let p = run_payload r in
      case result of
        Inl e \<Rightarrow> run_catch now (pl_enterprise p) (pl_task p) p (run_aborted r) False e d
      | Inr token \<Rightarrow>
          if run_aborted r then run_catch now (pl_enterprise p) (pl_task p) p True False (OtherError CANCELLED_MESSAGE) d
          else (SavingToken, setStage now (pl_enterprise p) (pl_task p) (rq_attempt p) ''saving-token'' d))"

text \<open>After the Proxy's reply to the token: a saved token is a success even when the run was aborted meanwhile.\<close>

definition runLoginTask_saved :: "int \<Rightarrow> login_run \<Rightarrow> unit login_res \<Rightarrow> login_db \<Rightarrow> run_phase \<times> login_db" where
  "runLoginTask_saved now r result d =
     (let p = run_payload r in
      case result of
        Inl e \<Rightarrow> run_catch now (pl_enterprise p) (pl_task p) p (run_aborted r) True e d
      | Inr _ \<Rightarrow> (Settled, snd (markSuccess now (pl_enterprise p) (pl_task p) (Some (rq_attempt p)) d)))"

text \<open>The queue's handler of a rejected run, up to its report to the Proxy.\<close>

definition failRun :: "int \<Rightarrow> RuntimeTaskPayload \<Rightarrow> string \<Rightarrow> login_db \<Rightarrow> login_db" where
  "failRun now p message d =
     snd (markFailed now (pl_enterprise p) (pl_task p) (redactSecrets message [rq_password p]) (Some (rq_attempt p)) (Some ''runner_failed'') d)"

definition run_rejected :: "int \<Rightarrow> login_run \<Rightarrow> string \<Rightarrow> login_db \<Rightarrow> run_phase \<times> login_db" where
  "run_rejected now r message d =
     (if run_aborted r then (Settled, d) else (Reporting, failRun now (run_payload r) message d))"

section \<open>The queue\<close>

definition isRunnable :: "login_world \<Rightarrow> LoginTaskRecord \<Rightarrow> RuntimeTaskPayload \<Rightarrow> bool" where
  "isRunnable w task p \<longleftrightarrow> cancel_key (pl_task p) (rq_attempt p) \<notin> set (lw_cancelled w) \<and>
     lt_attempt task = Some (rq_attempt p) \<and> lt_status task = TaskPending"

definition start :: "int \<Rightarrow> (RuntimeTaskPayload \<Rightarrow> string login_res) \<Rightarrow> LoginTaskRecord \<Rightarrow> RuntimeTaskPayload \<Rightarrow> login_world \<Rightarrow> login_world" where
  "start now mkLog task p w =
     (let (phase, d) = runLoginTask_begin now mkLog (lw_enterprises w) task p (lw_db w)
      in w\<lparr>lw_db := d, lw_active := add_once (pl_task p) (lw_active w),
        lw_runs := lw_runs w @ [\<lparr>run_payload = p, run_aborted = False, run_phase = phase\<rparr>]\<rparr>)"

text \<open>The loop of \<open>drain\<close>: payloads leave the front of the queue while a slot is free.\<close>

fun drain_loop :: "int \<Rightarrow> (RuntimeTaskPayload \<Rightarrow> string login_res) \<Rightarrow> RuntimeTaskPayload list \<Rightarrow> login_world \<Rightarrow> login_world" where
  "drain_loop now mkLog [] w = w\<lparr>lw_pending := []\<rparr>"
| "drain_loop now mkLog (p # ps) w =
     (if int (length (lw_active w)) \<ge> getConcurrency w then w\<lparr>lw_pending := p # ps\<rparr>
      else (case getTask (pl_enterprise p) (pl_task p) (lw_db w) of
          None \<Rightarrow> drain_loop now mkLog ps w
        | Some task \<Rightarrow> drain_loop now mkLog ps (if isRunnable w task p then start now mkLog task p w else w)))"

definition drain :: "int \<Rightarrow> (RuntimeTaskPayload \<Rightarrow> string login_res) \<Rightarrow> login_world \<Rightarrow> login_world" where
  "drain now mkLog w = (if lw_accepting w then drain_loop now mkLog (lw_pending w) w else w)"

definition payload_of :: "LoginTaskRequest \<Rightarrow> string \<Rightarrow> string \<Rightarrow> RuntimeTaskPayload" where
  "payload_of request x i = LoginTaskRequest.extend request (RuntimeTaskPayload.fields x i)"

definition create_input :: "LoginTaskRequest \<Rightarrow> CreateTaskInput" where
  "create_input request = \<lparr>ct_identity = rq_identity request, ct_sso_user = rq_sso_user request, ct_gh_login = rq_gh_login request,
     ct_attempt = rq_attempt request, ct_sso_type = rq_sso_type request\<rparr>"

definition enqueue :: "int \<Rightarrow> (RuntimeTaskPayload \<Rightarrow> string login_res) \<Rightarrow> string \<Rightarrow> string \<Rightarrow> LoginTaskRequest \<Rightarrow> login_world \<Rightarrow>
    (LoginTaskRecord \<times> login_world) login_res" where
  "enqueue now mkLog fresh x request w =
     (case createTask now fresh x (create_input request) (lw_db w) of
        Inl e \<Rightarrow> Inl e
      | Inr (None, d) \<Rightarrow> Inl (OtherError ''Cannot read properties of undefined'')
      | Inr (Some task, d) \<Rightarrow>
          let w1 = w\<lparr>lw_db := d\<rparr> in
          if isBusy w1 (lt_id task) \<or> lt_status task \<noteq> TaskPending \<or> lt_stage task \<noteq> Some ''queued'' then Inr (task, w1)
          else Inr (task, drain now mkLog (w1\<lparr>lw_pending := lw_pending w1 @ [payload_of request x (lt_id task)]\<rparr>)))"

definition queue_retry :: "int \<Rightarrow> (RuntimeTaskPayload \<Rightarrow> string login_res) \<Rightarrow> LoginTaskRecord \<Rightarrow> LoginTaskRequest \<Rightarrow> login_world \<Rightarrow> login_world" where
  "queue_retry now mkLog task request w =
     (let x = lt_enterprise task; i = lt_id task in
      case getTask x i (lw_db w) of
        None \<Rightarrow> w
      | Some current \<Rightarrow>
          if lt_status current \<noteq> TaskPending \<or> lt_attempt current \<noteq> Some (rq_attempt request) then w
          else if isBusy w i then w
          else drain now mkLog (w\<lparr>lw_db := setStage now x i (rq_attempt request) ''queued'' (lw_db w),
            lw_pending := lw_pending w @ [payload_of request x i]\<rparr>))"

definition active_run :: "login_world \<Rightarrow> string \<Rightarrow> string option" where
  "active_run w i = map_option (\<lambda>r. rq_attempt (run_payload r)) (List.find (\<lambda>r. pl_task (run_payload r) = i) (lw_runs w))"

definition cancel :: "string \<Rightarrow> string \<Rightarrow> login_world \<Rightarrow> LoginTaskRecord option \<times> login_world" where
  "cancel x i w =
     (let (r, d) = requestCancellation x i (lw_db w); w1 = w\<lparr>lw_db := d\<rparr> in
      case r of
        None \<Rightarrow> (None, w1)
      | Some task \<Rightarrow>
          if lt_status task \<noteq> TaskCancelling \<or> \<not> truthy (lt_attempt task) then (Some task, w1)
          else let w2 = w1\<lparr>lw_cancelled := add_once (cancel_key i (the (lt_attempt task))) (lw_cancelled w1),
                     lw_pending := remove_first (\<lambda>p. pl_task p = i) (lw_pending w1),
                     lw_runs := update_where (\<lambda>r. pl_task (run_payload r) = i) (\<lambda>r. r\<lparr>run_aborted := True\<rparr>) (lw_runs w1)\<rparr>
            in (Some task,
              if list_ex (\<lambda>c. lt_id (cn_task c) = i) (lw_cancellations w2) then w2
              else w2\<lparr>lw_cancellations := lw_cancellations w2 @ [\<lparr>cn_task = task, cn_waits = active_run w i, cn_reporting = False\<rparr>]\<rparr>))"

text \<open>The end of a cancellation, in its \<open>finally\<close> blocks: both guard entries are released.\<close>

definition end_cancellation :: "cancellation \<Rightarrow> login_world \<Rightarrow> login_world" where
  "end_cancellation c w =
     w\<lparr>lw_cancelled := filter (\<lambda>k. k \<noteq> cancel_key (lt_id (cn_task c)) (the (lt_attempt (cn_task c)))) (lw_cancelled w),
       lw_cancellations := filter (\<lambda>c'. lt_id (cn_task c') \<noteq> lt_id (cn_task c)) (lw_cancellations w)\<rparr>"

text \<open>\<open>finishCancellation\<close> once the run it waited for has settled, up to its report to the Proxy.\<close>

definition finishCancellation :: "int \<Rightarrow> cancellation \<Rightarrow> login_world \<Rightarrow> login_world" where
  "finishCancellation now c w =
     (let task = cn_task c; x = lt_enterprise task; i = lt_id task in
      case getTask x i (lw_db w) of
        None \<Rightarrow> end_cancellation c w
      | Some current \<Rightarrow>
          if lt_status current \<noteq> TaskCancelling \<or> lt_attempt current \<noteq> lt_attempt task then end_cancellation c w
          else w\<lparr>lw_db := snd (markCancelled now x i (lt_attempt task) (lw_db w)),
            lw_cancellations := update_where (\<lambda>c'. lt_id (cn_task c') = i) (\<lambda>c'. c'\<lparr>cn_reporting := True\<rparr>) (lw_cancellations w)\<rparr>)"

text \<open>The \<open>finally\<close> block of a run.\<close>

definition finish_run :: "int \<Rightarrow> (RuntimeTaskPayload \<Rightarrow> string login_res) \<Rightarrow> login_run \<Rightarrow> login_world \<Rightarrow> login_world" where
  "finish_run now mkLog r w =
     (let i = pl_task (run_payload r)
      in drain now mkLog (w\<lparr>lw_active := filter (\<lambda>j. j \<noteq> i) (lw_active w),
           lw_runs := filter (\<lambda>q. pl_task (run_payload q) \<noteq> i) (lw_runs w)\<rparr>))"

definition stopAccepting :: "login_world \<Rightarrow> login_world" where
  "stopAccepting w = w\<lparr>lw_accepting := False\<rparr>"

text \<open>The view of one enterprise: items with their place in the global queue and their times.\<close>

record queue_item =
  qi_task :: LoginTaskRecord
  qi_position :: "nat option"
  qi_wait_ms :: int
  qi_run_ms :: "int option"

record LoginQueueDto =
  dto_concurrency :: int
  dto_preparing :: "string list"
  dto_pending :: "string list"
  dto_active :: "string list"
  dto_cancelling :: "string list"
  dto_longest_wait :: int
  dto_items :: "queue_item list"

definition queue_position :: "RuntimeTaskPayload list \<Rightarrow> string \<Rightarrow> nat option" where
  "queue_position ps i = map_of (rev (zip (map pl_task ps) (map Suc [0..<length ps]))) i"

definition queue_item_of :: "int \<Rightarrow> login_world \<Rightarrow> LoginTaskRecord \<Rightarrow> queue_item" where
  "queue_item_of now w t =
     \<lparr>qi_task = t, qi_position = queue_position (lw_pending w) (lt_id t),
      qi_wait_ms = max 0 ((case lt_started_at t of None \<Rightarrow> now | Some s \<Rightarrow> s) - (case lt_queued_at t of None \<Rightarrow> lt_created_at t | Some q \<Rightarrow> q)),
      qi_run_ms = map_option (\<lambda>s. max 0 (now - s)) (lt_started_at t)\<rparr>"

definition snapshot :: "int \<Rightarrow> string \<Rightarrow> login_world \<Rightarrow> LoginQueueDto" where
  "snapshot now x w =
     (let tasks = listUnfinishedTasks x (lw_db w); own = lt_id ` set tasks; items = map (queue_item_of now w) tasks
      in \<lparr>dto_concurrency = getConcurrency w,
          dto_preparing = map lt_id (filter (\<lambda>t. lt_stage t = Some ''preparing'') tasks),
          dto_pending = filter (\<lambda>i. i \<in> own) (map pl_task (lw_pending w)),
          dto_active = filter (\<lambda>i. i \<in> own) (lw_active w),
          dto_cancelling = map lt_id (filter (\<lambda>t. lt_status t = TaskCancelling) tasks),
          dto_longest_wait = foldl (\<lambda>m it. if qi_position it = None then m else max m (qi_wait_ms it)) 0 items,
          dto_items = items\<rparr>)"

section \<open>Retrying\<close>

datatype PoolTaskMutation = MutateDelete | MutateRetry

record PoolTaskProtection =
  pp_managed :: bool
  pp_referenced :: bool

text \<open>The Proxy's reply to the question whether the pool manages the task; a failed question is \<open>None\<close>.\<close>

definition assertPoolTaskMutationAllowed :: "PoolTaskMutation \<Rightarrow> PoolTaskProtection option \<Rightarrow> unit login_res" where
  "assertPoolTaskMutationAllowed m reply =
     (case reply of
        None \<Rightarrow> Inl (HttpApiError 503 ''pool_membership_unavailable'' ''Cannot verify pool task ownership; no task was changed.'')
      | Some prot \<Rightarrow>
          if (case m of MutateDelete \<Rightarrow> pp_referenced prot | MutateRetry \<Rightarrow> pp_managed prot)
          then Inl (HttpApiError 409 ''pool_task_managed'' ''Use User pool recovery controls; this Login task is managed by the pool.'')
          else Inr ())"

definition assertSameProvider :: "LoginEnterprise \<Rightarrow> LoginTaskRecord \<Rightarrow> unit login_res" where
  "assertSameProvider e task =
     (case pr_sso_provider (ent_profile e) of
        None \<Rightarrow> Inr ()
      | Some provider \<Rightarrow>
          if lt_sso_type task = provider then Inr ()
          else Inl (HttpApiError 409 ''sso_type_mismatch''
            (''This task used '' @ sso_text (lt_sso_type task) @ '' SSO, but the enterprise now uses '' @ sso_text provider @
             ''. Start a new authorization from the account.'')))"

definition retryRequest :: "LoginTaskRecord \<Rightarrow> string \<Rightarrow> string \<Rightarrow> LoginTaskRequest" where
  "retryRequest task aid password =
     \<lparr>rq_identity = lt_identity task, rq_sso_user = lt_sso_user task, rq_password = password,
      rq_gh_login = (case lt_gh_login task of None \<Rightarrow> [] | Some g \<Rightarrow> g), rq_attempt = aid, rq_sso_type = lt_sso_type task\<rparr>"

text \<open>\<open>retryTask\<close> up to the question to the Proxy; the credentials are the override, or \<open>None\<close> for the default.\<close>

definition retryTask_begin :: "LoginEnterprise \<Rightarrow> string \<Rightarrow> string option \<Rightarrow> login_world \<Rightarrow> login_world login_res" where
  "retryTask_begin e i override w =
     (case getTask (pr_id (ent_profile e)) i (lw_db w) of
        None \<Rightarrow> Inl (HttpApiError 404 ''task_not_found'' ''Login task was not found.'')
      | Some task \<Rightarrow>
          if isBusy w i
          then Inl (HttpApiError 409 ''task_already_active'' ''The previous attempt is still finishing. Wait for its queue slot to be released before retrying.'')
          else (case assertSameProvider e task of
              Inl err \<Rightarrow> Inl err
            | Inr _ \<Rightarrow> Inr (w\<lparr>lw_checks := lw_checks w @ [\<lparr>rc_task = task, rc_override = override\<rparr>]\<rparr>)))"

text \<open>After the Proxy's reply: the new attempt is reserved and the Proxy is asked to prepare it.\<close>

definition retryTask_reserve :: "int \<Rightarrow> string \<Rightarrow> retry_check \<Rightarrow> PoolTaskProtection option \<Rightarrow> login_world \<Rightarrow> login_world login_res" where
  "retryTask_reserve now aid c reply w =
     (case assertPoolTaskMutationAllowed MutateRetry reply of
        Inl err \<Rightarrow> Inl err
      | Inr _ \<Rightarrow>
          (case reserveRetry now (lt_enterprise (rc_task c)) (rc_task c) aid (lw_db w) of
             Inl err \<Rightarrow> Inl err
           | Inr (None, d) \<Rightarrow> Inl (OtherError ''Cannot read properties of undefined'')
           | Inr (Some reserved, d) \<Rightarrow>
               Inr (w\<lparr>lw_db := d, lw_retries := lw_retries w @
                 [\<lparr>rw_task = rc_task c, rw_reserved = reserved, rw_attempt = aid, rw_override = rc_override c\<rparr>]\<rparr>)))"

text \<open>After the preparation: the Proxy resolved the password, or refused.\<close>

definition retry_error_code :: "login_error \<Rightarrow> string" where
  "retry_error_code e = (case e of HttpApiError st code msg \<Rightarrow> code | _ \<Rightarrow> ''retry_failed'')"

definition retryTask_prepared :: "int \<Rightarrow> (RuntimeTaskPayload \<Rightarrow> string login_res) \<Rightarrow> retry_wait \<Rightarrow> string login_res \<Rightarrow> login_world \<Rightarrow> login_world" where
  "retryTask_prepared now mkLog rw reply w =
     (let x = lt_enterprise (rw_task rw); i = lt_id (rw_task rw); current = getTask x i (lw_db w) in
      if map_option lt_status current = Some TaskCancelling then snd (cancel x i w)
      else (case reply of
          Inr password \<Rightarrow>
            if current = None \<or> map_option lt_status current \<noteq> Some TaskPending \<or> lt_attempt (the current) \<noteq> Some (rw_attempt rw) then w
            else queue_retry now mkLog (rw_reserved rw) (retryRequest (rw_reserved rw) (rw_attempt rw) password) w
        | Inl e \<Rightarrow>
            if map_option lt_status current = Some TaskCancelled then w
            else w\<lparr>lw_db := snd (markFailed now x i
              (redactSecrets (error_message e) (case rw_override rw of None \<Rightarrow> [] | Some pw \<Rightarrow> [pw]))
              (Some (rw_attempt rw)) (Some (retry_error_code e)) (lw_db w))\<rparr>))"

section \<open>Deleting\<close>

text \<open>
  \<open>deleteLoginTask\<close>: the claim, made when the Proxy allows it (it is not asked about pending and running
  tasks), and the end once the logs are gone or could not be removed.
\<close>

definition deleteLoginTask_claim :: "string \<Rightarrow> string \<Rightarrow> PoolTaskProtection option \<Rightarrow> login_world \<Rightarrow> (deletion \<times> login_world) login_res" where
  "deleteLoginTask_claim x i reply w =
     (case (case getTask x i (lw_db w) of
         None \<Rightarrow> Inr ()
       | Some task \<Rightarrow> if lt_status task \<in> {TaskPending, TaskRunning} then Inr () else assertPoolTaskMutationAllowed MutateDelete reply) of
        Inl e \<Rightarrow> Inl e
      | Inr _ \<Rightarrow>
          let (claimed, d) = claimTaskDeletion x i (lw_db w)
          in Inr (claimed, if claimed = Claimed then w\<lparr>lw_db := d, lw_deletions := lw_deletions w @ [(x, i)]\<rparr> else w\<lparr>lw_db := d\<rparr>))"

definition deleteLoginTask_end :: "string \<Rightarrow> string \<Rightarrow> unit login_res \<Rightarrow> login_world \<Rightarrow> deletion login_res \<times> login_world" where
  "deleteLoginTask_end x i unlinked w =
     (let (res, d) = (case unlinked of
           Inl e \<Rightarrow> (Inl e, lw_db w)
         | Inr _ \<Rightarrow> (let (r, d') = deleteTask x i (lw_db w) in (Inr r, d')))
      in (res, w\<lparr>lw_db := releaseTaskDeletion x (Some i) d, lw_deletions := filter (\<lambda>k. k \<noteq> (x, i)) (lw_deletions w)\<rparr>))"

section \<open>Recovery\<close>

definition INTERRUPTED_REASON :: string where
  "INTERRUPTED_REASON = ''Login service restarted before this attempt completed. No work was replayed.''"

text \<open>Closing one unfinished task; the tasks to report to the Proxy are collected.\<close>

definition close_task :: "int \<Rightarrow> string \<Rightarrow> LoginTaskRecord \<Rightarrow> login_db \<Rightarrow> LoginTaskRecord list \<times> login_db" where
  "close_task now x task d =
     (if \<not> truthy (lt_attempt task) then ([], failLegacyInterruptedTask now x (lt_id task) d)
      else ([task],
        if lt_status task = TaskCancelling then snd (markCancelled now x (lt_id task) (lt_attempt task) d)
        else snd (markFailed now x (lt_id task) INTERRUPTED_REASON (lt_attempt task) (Some ''service_interrupted'') d)))"

fun close_tasks :: "int \<Rightarrow> string \<Rightarrow> LoginTaskRecord list \<Rightarrow> login_db \<Rightarrow> LoginTaskRecord list \<times> login_db" where
  "close_tasks now x [] d = ([], d)"
| "close_tasks now x (t # ts) d =
     (let (n, d1) = close_task now x t d; (ns, d2) = close_tasks now x ts d1 in (n @ ns, d2))"

definition closeInterruptedTasks :: "int \<Rightarrow> string \<Rightarrow> login_db \<Rightarrow> LoginTaskRecord list \<times> login_db" where
  "closeInterruptedTasks now x d =
     (let d0 = releaseTaskDeletion x None d in close_tasks now x (listUnfinishedTasks x d0) d0)"

fun recoverLoginOutcomes :: "int \<Rightarrow> string list \<Rightarrow> login_db \<Rightarrow> LoginTaskRecord list \<times> login_db" where
  "recoverLoginOutcomes now [] d = ([], d)"
| "recoverLoginOutcomes now (x # xs) d =
     (let (n, d1) = closeInterruptedTasks now x d; (ns, d2) = recoverLoginOutcomes now xs d1 in (n @ ns, d2))"

text \<open>A new process on the tables of an old one, with the registry it was started with.\<close>

definition startServer :: "(string \<Rightarrow> string) \<Rightarrow> int \<Rightarrow> LoginProfile list \<Rightarrow> RuntimeSettingsRow option \<Rightarrow> login_db \<Rightarrow> login_world login_res" where
  "startServer sha256 now profiles row d =
     (case syncEnterprises now (map (loginEnterpriseSeed sha256) profiles) d of
        Inl e \<Rightarrow> Inl e
      | Inr d' \<Rightarrow>
          (case readSnapshot row of
             Inl e \<Rightarrow> Inl (OtherError ''invalid runtime settings'')
           | Inr s \<Rightarrow> Inr
               \<lparr>lw_db = snd (recoverLoginOutcomes now (map pr_id profiles) d'), lw_row = row, lw_settings = s,
                lw_enterprises = map buildEnterprise profiles, lw_accepting = True, lw_pending = [], lw_active = [], lw_runs = [],
                lw_cancelled = [], lw_cancellations = [], lw_checks = [], lw_retries = [], lw_deletions = []\<rparr>))"

end
