(* ===== verification/Login_Machine.thy ===== *)
theory Login_Machine
  imports Login_Queue
begin

text \<open>
  The login service as a state machine. A step is one uninterrupted piece of its programs; the first
  component of a state is the set of identifiers issued so far, so that a new UUID differs from all of
  them. The invariant joins the tables with the queue: every running task holds one of at most twenty
  slots, every queued task is in the queue, and a free slot means an empty queue.
\<close>

section \<open>Steps\<close>

definition set_phase :: "login_run \<Rightarrow> run_phase \<times> login_db \<Rightarrow> login_world \<Rightarrow> login_world" where
  "set_phase r pd w = w\<lparr>lw_db := snd pd,
     lw_runs := update_where (\<lambda>q. q = r) (\<lambda>q. q\<lparr>run_phase := fst pd\<rparr>) (lw_runs w)\<rparr>"

definition run_stage :: "int \<Rightarrow> login_run \<Rightarrow> string \<Rightarrow> login_world \<Rightarrow> login_world" where
  "run_stage now r stage w =
     (let p = run_payload r in w\<lparr>lw_db := setStage now (pl_enterprise p) (pl_task p) (rq_attempt p) stage (lw_db w)\<rparr>)"

inductive login_step :: "string set \<Rightarrow> login_world \<Rightarrow> string set \<Rightarrow> login_world \<Rightarrow> bool" where
  Enqueue: "enqueue now mkLog fresh x request w = Inr (task, w') \<Longrightarrow> fresh \<notin> U \<Longrightarrow> CHR '':'' \<notin> set fresh \<Longrightarrow> rq_attempt request \<noteq> [] \<Longrightarrow>
    login_step U w (U \<union> {fresh, rq_attempt request}) w'"
| Cancel: "login_step U w U (snd (cancel x i w))"
| FinishCancellation: "c \<in> set (lw_cancellations w) \<Longrightarrow> \<not> cn_reporting c \<Longrightarrow>
    (\<forall>r \<in> set (lw_runs w). pl_task (run_payload r) = lt_id (cn_task c) \<longrightarrow> cn_waits c \<noteq> Some (rq_attempt (run_payload r))) \<Longrightarrow>
    login_step U w U (finishCancellation now c w)"
| EndCancellation: "c \<in> set (lw_cancellations w) \<Longrightarrow> cn_reporting c \<Longrightarrow> login_step U w U (end_cancellation c w)"
| RunStage: "r \<in> set (lw_runs w) \<Longrightarrow> run_phase r = DeviceFlow \<Longrightarrow> login_step U w U (run_stage now r stage w)"
| RunToken: "r \<in> set (lw_runs w) \<Longrightarrow> run_phase r = DeviceFlow \<Longrightarrow>
    login_step U w U (set_phase r (runLoginTask_token now r result (lw_db w)) w)"
| RunSaved: "r \<in> set (lw_runs w) \<Longrightarrow> run_phase r = SavingToken \<Longrightarrow>
    login_step U w U (set_phase r (runLoginTask_saved now r reply (lw_db w)) w)"
| RunRejected: "r \<in> set (lw_runs w) \<Longrightarrow> run_phase r = Rejected message \<Longrightarrow>
    login_step U w U (set_phase r (run_rejected now r message (lw_db w)) w)"
| RunReported: "r \<in> set (lw_runs w) \<Longrightarrow> run_phase r = Reporting \<Longrightarrow> login_step U w U (set_phase r (Settled, lw_db w) w)"
| RunFinish: "r \<in> set (lw_runs w) \<Longrightarrow> run_phase r = Settled \<Longrightarrow> login_step U w U (finish_run now mkLog r w)"
| RetryBegin: "e \<in> set (lw_enterprises w) \<Longrightarrow> retryTask_begin e i override w = Inr w' \<Longrightarrow> login_step U w U w'"
| RetryRefused: "c \<in> set (lw_checks w) \<Longrightarrow> login_step U w U (w\<lparr>lw_checks := remove1 c (lw_checks w)\<rparr>)"
| RetryReserve: "c \<in> set (lw_checks w) \<Longrightarrow> retryTask_reserve now aid c reply (w\<lparr>lw_checks := remove1 c (lw_checks w)\<rparr>) = Inr w' \<Longrightarrow>
    aid \<notin> U \<Longrightarrow> aid \<noteq> [] \<Longrightarrow> login_step U w (U \<union> {aid}) w'"
| RetryPrepared: "rw \<in> set (lw_retries w) \<Longrightarrow>
    login_step U w U (retryTask_prepared now mkLog rw prepared (w\<lparr>lw_retries := remove1 rw (lw_retries w)\<rparr>))"
| DeleteClaim: "deleteLoginTask_claim x i protection w = Inr (result, w') \<Longrightarrow> login_step U w U w'"
| DeleteEnd: "(x, i) \<in> set (lw_deletions w) \<Longrightarrow> login_step U w U (snd (deleteLoginTask_end x i unlinked w))"
| Settings: "patch_settings now body (lw_row w) = (200, Some s, row) \<Longrightarrow>
    login_step U w U (drain now mkLog (w\<lparr>lw_row := row, lw_settings := s\<rparr>))"
| Stop: "login_step U w U (stopAccepting w)"
| Restart: "startServer sha256 now profiles (lw_row w) (lw_db w) = Inr w' \<Longrightarrow> login_step U w U w'"

inductive login_run_to :: "string set \<Rightarrow> login_world \<Rightarrow> string set \<Rightarrow> login_world \<Rightarrow> bool" for U w where
  Here: "login_run_to U w U w"
| Step: "login_run_to U w U1 w1 \<Longrightarrow> login_step U1 w1 U2 w2 \<Longrightarrow> login_run_to U w U2 w2"

section \<open>The invariant\<close>

text \<open>Every attempt with that identifier of that task has at least rank \<open>n\<close>.\<close>

definition reached :: "nat \<Rightarrow> login_db \<Rightarrow> string \<Rightarrow> string \<Rightarrow> bool" where
  "reached n d i aid \<longleftrightarrow> (\<forall>a \<in> set (login_attempts d). la_task a = i \<longrightarrow> la_id a = aid \<longrightarrow> n \<le> status_rank (la_status a))"

definition no_legacy :: "login_db \<Rightarrow> bool" where
  "no_legacy d \<longleftrightarrow> (\<forall>t \<in> set (login_tasks d). isActiveStatus (lt_status t) \<longrightarrow> lt_attempt t \<noteq> None)"

definition issued_ok :: "string set \<Rightarrow> login_world \<Rightarrow> bool" where
  "issued_ok U w \<longleftrightarrow>
     (\<forall>t \<in> set (login_tasks (lw_db w)). lt_id t \<in> U \<and> CHR '':'' \<notin> set (lt_id t)) \<and>
     (\<forall>a \<in> set (login_attempts (lw_db w)). la_id a \<in> U) \<and>
     (\<forall>p \<in> set (lw_pending w) \<union> run_payload ` set (lw_runs w). pl_task p \<in> U \<and> CHR '':'' \<notin> set (pl_task p) \<and> rq_attempt p \<in> U) \<and>
     (\<forall>i aid. CHR '':'' \<notin> set i \<longrightarrow> cancel_key i aid \<in> set (lw_cancelled w) \<longrightarrow> i \<in> U \<and> aid \<in> U) \<and>
     (\<forall>t \<in> rc_task ` set (lw_checks w) \<union> rw_task ` set (lw_retries w) \<union> rw_reserved ` set (lw_retries w) \<union> cn_task ` set (lw_cancellations w).
        lt_id t \<in> U) \<and>
     (\<forall>rw \<in> set (lw_retries w). rw_attempt rw \<in> U)"

text \<open>What is remembered of a task in the process agrees with the task's row, if it still exists.\<close>

definition same_owner :: "login_db \<Rightarrow> string \<Rightarrow> string \<Rightarrow> bool" where
  "same_owner d i x \<longleftrightarrow> (\<forall>t \<in> set (login_tasks d). lt_id t = i \<longrightarrow> lt_enterprise t = x)"

definition memory_ok :: "login_world \<Rightarrow> bool" where
  "memory_ok w \<longleftrightarrow>
     (\<forall>p \<in> set (lw_pending w) \<union> run_payload ` set (lw_runs w). same_owner (lw_db w) (pl_task p) (pl_enterprise p)) \<and>
     (\<forall>t \<in> rc_task ` set (lw_checks w) \<union> rw_task ` set (lw_retries w) \<union> rw_reserved ` set (lw_retries w) \<union> cn_task ` set (lw_cancellations w).
        \<forall>u \<in> set (login_tasks (lw_db w)). lt_id u = lt_id t \<longrightarrow> lt_enterprise u = lt_enterprise t \<and> lt_identity u = lt_identity t) \<and>
     (\<forall>rw \<in> set (lw_retries w). lt_id (rw_reserved rw) = lt_id (rw_task rw))"

definition run_ok :: "login_db \<Rightarrow> login_run \<Rightarrow> bool" where
  "run_ok d r \<longleftrightarrow> (let i = pl_task (run_payload r); aid = rq_attempt (run_payload r) in
     (run_aborted r \<longrightarrow> reached 2 d i aid) \<and> (run_phase r = Settled \<longrightarrow> reached 2 d i aid) \<and>
     (run_phase r = Reporting \<longrightarrow> reached 3 d i aid) \<and> (run_phase r \<in> {DeviceFlow, SavingToken} \<longrightarrow> reached 1 d i aid))"

definition slots_ok :: "login_world \<Rightarrow> bool" where
  "slots_ok w \<longleftrightarrow> lw_active w = map (\<lambda>r. pl_task (run_payload r)) (lw_runs w) \<and> distinct (lw_active w) \<and> length (lw_active w) \<le> 20 \<and>
     distinct (map pl_task (lw_pending w)) \<and> pl_task ` set (lw_pending w) \<inter> set (lw_active w) = {}"

definition payload_for :: "RuntimeTaskPayload \<Rightarrow> 'a LoginTaskRecord_scheme \<Rightarrow> bool" where
  "payload_for p t \<longleftrightarrow> pl_task p = lt_id t \<and> lt_attempt t = Some (rq_attempt p)"

definition work_ok :: "login_world \<Rightarrow> bool" where
  "work_ok w \<longleftrightarrow> (\<forall>t \<in> set (login_tasks (lw_db w)).
     (lt_status t = TaskRunning \<longrightarrow> (\<exists>r \<in> set (lw_runs w). payload_for (run_payload r) t)) \<and>
     (lt_status t = TaskPending \<longrightarrow> lt_stage t = Some ''queued'' \<longrightarrow>
        (\<exists>p \<in> set (lw_pending w) \<union> run_payload ` set (lw_runs w). payload_for p t)))"

definition cancelled_ok :: "login_world \<Rightarrow> bool" where
  "cancelled_ok w \<longleftrightarrow> (\<forall>i aid. CHR '':'' \<notin> set i \<longrightarrow> cancel_key i aid \<in> set (lw_cancelled w) \<longrightarrow> reached 2 (lw_db w) i aid)"

definition settings_ok :: "login_world \<Rightarrow> bool" where
  "settings_ok w \<longleftrightarrow> (\<exists>row. lw_row w = Some row \<and> valid_row row \<and> lw_settings w = row_snapshot row)"

definition base_inv :: "string set \<Rightarrow> login_world \<Rightarrow> bool" where
  "base_inv U w \<longleftrightarrow> login_inv (lw_db w) \<and> no_legacy (lw_db w) \<and> issued_ok U w \<and> memory_ok w \<and> (\<forall>r \<in> set (lw_runs w). run_ok (lw_db w) r) \<and>
     slots_ok w \<and> work_ok w \<and> cancelled_ok w \<and> settings_ok w"

definition conserving :: "login_world \<Rightarrow> bool" where
  "conserving w \<longleftrightarrow> (lw_accepting w \<longrightarrow> lw_pending w = [] \<or> getConcurrency w \<le> int (length (lw_active w)))"

definition service_inv :: "string set \<Rightarrow> login_world \<Rightarrow> bool" where
  "service_inv U w \<longleftrightarrow> base_inv U w \<and> conserving w"

section \<open>Calm changes of the tables\<close>

text \<open>
  A change is calm when no attempt falls back, no task appears, and tasks that are pending or running
  afterwards were so before, at the same stage. Reports, cancellations and deletions are calm; the
  queue's bookkeeping survives every calm change.
\<close>

definition calm_task :: "TaskRow \<Rightarrow> TaskRow \<Rightarrow> bool" where
  "calm_task t t' \<longleftrightarrow> lt_id t' = lt_id t \<and> lt_enterprise t' = lt_enterprise t \<and> lt_identity t' = lt_identity t \<and> lt_attempt t' = lt_attempt t \<and>
     (isActiveStatus (lt_status t') \<longrightarrow> isActiveStatus (lt_status t)) \<and> (lt_status t' = TaskRunning \<longrightarrow> lt_status t = TaskRunning) \<and>
     (lt_status t' = TaskPending \<longrightarrow> lt_status t = TaskPending \<and> lt_stage t' = lt_stage t)"

definition calm :: "login_db \<Rightarrow> login_db \<Rightarrow> bool" where
  "calm d d' \<longleftrightarrow> login_inv d' \<and> (\<forall>n i aid. reached n d i aid \<longrightarrow> reached n d' i aid) \<and>
     (\<forall>t' \<in> set (login_tasks d'). \<exists>t \<in> set (login_tasks d). calm_task t t') \<and>
     la_id ` set (login_attempts d') \<subseteq> la_id ` set (login_attempts d)"

lemma calm_inv: "calm d d' \<Longrightarrow> login_inv d'"
  by (simp add: calm_def)

lemma calm_reached: "calm d d' \<Longrightarrow> reached n d i aid \<Longrightarrow> reached n d' i aid"
  unfolding calm_def by blast

lemma calm_back: "calm d d' \<Longrightarrow> t' \<in> set (login_tasks d') \<Longrightarrow> \<exists>t \<in> set (login_tasks d). calm_task t t'"
  unfolding calm_def by blast

lemma calm_attempts: "calm d d' \<Longrightarrow> a \<in> set (login_attempts d') \<Longrightarrow> \<exists>b \<in> set (login_attempts d). la_id b = la_id a"
  unfolding calm_def by (metis (no_types, lifting) image_iff subset_iff)

lemma calm_task_refl [simp]: "calm_task t t"
  by (simp add: calm_task_def)

lemma calm_task_trans: "calm_task t u \<Longrightarrow> calm_task u v \<Longrightarrow> calm_task t v"
  by (auto simp: calm_task_def)

lemma calm_refl: "login_inv d \<Longrightarrow> calm d d"
  by (auto simp: calm_def intro: calm_task_refl)

lemma calm_trans: "calm d d1 \<Longrightarrow> calm d1 d2 \<Longrightarrow> calm d d2"
  unfolding calm_def by (meson calm_task_trans subset_trans)

lemma status_moves_rank: "status_moves st st' \<Longrightarrow> status_rank st \<le> status_rank st'"
  by (auto simp: status_moves_def)

lemma progressed_reached:
  assumes "progressed d d'" "reached n d i aid"
  shows "reached n d' i aid"
  unfolding reached_def
proof (intro ballI impI)
  fix a' assume a': "a' \<in> set (login_attempts d')" "la_task a' = i" "la_id a' = aid"
  obtain a where a: "a \<in> set (login_attempts d)" "attempt_progress a a'" using progressed_attempt_back [OF assms(1) a'(1)] by blast
  then have "n \<le> status_rank (la_status a)" using assms(2) a' by (simp add: reached_def attempt_progress_def)
  also have "\<dots> \<le> status_rank (la_status a')" using a by (simp add: attempt_progress_def status_moves_rank)
  finally show "n \<le> status_rank (la_status a')" .
qed

lemma calm_progressed:
  assumes inv: "login_inv d'" and p: "progressed d d'"
    and keep: "\<And>t'. t' \<in> set (login_tasks d') \<Longrightarrow> lt_status t' \<in> {TaskPending, TaskRunning} \<Longrightarrow> \<exists>t \<in> set (login_tasks d). calm_task t t'"
  shows "calm d d'"
proof -
  have "\<exists>t \<in> set (login_tasks d). calm_task t t'" if t': "t' \<in> set (login_tasks d')" for t'
  proof (cases "lt_status t' \<in> {TaskPending, TaskRunning}")
    case True
    then show ?thesis by (rule keep [OF t'])
  next
    case False
    obtain t where "t \<in> set (login_tasks d)" "task_progress t t'" using progressed_task_back [OF p t'] by blast
    then show ?thesis using False status_moves_active unfolding calm_task_def task_progress_def by blast
  qed
  moreover have "la_id ` set (login_attempts d') = la_id ` set (login_attempts d)" by (rule set_map_eq [OF progressed_maps(3) [OF p]])
  ultimately show ?thesis using inv progressed_reached [OF p] by (simp add: calm_def)
qed

lemma calm_kept:
  assumes "login_inv d'" "progressed d d'"
    and "\<And>t. t \<in> set (login_tasks d') \<Longrightarrow> lt_status t \<in> {TaskPending, TaskRunning} \<Longrightarrow> t \<in> set (login_tasks d)"
  shows "calm d d'"
  using assms(3) calm_task_refl by (intro calm_progressed [OF assms(1,2)]) blast

lemma update_tasks_keep:
  assumes "\<And>t. P t \<Longrightarrow> lt_status (f t) \<notin> {TaskPending, TaskRunning}" and "t \<in> set (update_where P f ts)" "lt_status t \<in> {TaskPending, TaskRunning}"
  shows "t \<in> set ts"
  using assms by (auto simp: rows split: if_splits)

lemma calm_finishAttempt:
  assumes inv: "login_inv d" and st: "isFinishedStatus st"
  shows "calm d (snd (finishAttempt now x i attempt st reason code d))"
proof (rule calm_kept)
  note ok = finishAttempt_ok [OF inv st, of now x i attempt reason code]
  show "progressed d (snd (finishAttempt now x i attempt st reason code d))" using ok by blast
  show "login_inv (snd (finishAttempt now x i attempt st reason code d))"
    using ok keys_progressed [OF login_inv_parts(1) [OF inv]] exclusive_progressed [OF login_inv_parts(1) [OF inv] login_inv_parts(2) [OF inv]]
    by (simp add: login_inv_def)
  have st': "st \<notin> {TaskPending, TaskRunning}" using st by auto
  show "t \<in> set (login_tasks d)" if "t \<in> set (login_tasks (snd (finishAttempt now x i attempt st reason code d)))"
    "lt_status t \<in> {TaskPending, TaskRunning}" for t
    using that update_tasks_keep [of "at_attempt x i (the attempt) isActiveStatus" "\<lambda>t. t\<lparr>lt_status := st, lt_finished_at := Some now,
        lt_failure_reason := reason, lt_failure_code := code, lt_stage := Some (status_text st), lt_stage_updated_at := Some now\<rparr>" t] st'
    by (cases rule: finishAttempt_cases [of now x i attempt st reason code d]) auto
qed

lemma calm_markFailed: "login_inv d \<Longrightarrow> calm d (snd (markFailed now x i reason attempt code d))"
  unfolding markFailed_def by (rule calm_finishAttempt) simp_all

lemma calm_markSuccess: "login_inv d \<Longrightarrow> calm d (snd (markSuccess now x i attempt d))"
  unfolding markSuccess_def by (rule calm_finishAttempt) simp_all

lemma calm_markCancelled: "login_inv d \<Longrightarrow> calm d (snd (markCancelled now x i attempt d))"
  unfolding markCancelled_def by (rule calm_finishAttempt) simp_all

lemma calm_requestCancellation:
  assumes inv: "login_inv d"
  shows "calm d (snd (requestCancellation x i d))"
proof (rule calm_kept [OF requestCancellation.inv [OF inv] requestCancellation.progress [OF inv]])
  have "login_tasks (snd (requestCancellation x i d)) =
      update_where (\<lambda>t. lt_enterprise t = x \<and> lt_id t = i \<and> lt_status t \<in> {TaskPending, TaskRunning}) (\<lambda>t. t\<lparr>lt_status := TaskCancelling\<rparr>) (login_tasks d)"
    by (auto simp: requestCancellation_def Let_def split: option.split)
  then show "t \<in> set (login_tasks d)" if "t \<in> set (login_tasks (snd (requestCancellation x i d)))"
      "lt_status t \<in> {TaskPending, TaskRunning}" for t
    using that by (auto simp: rows split: if_splits)
qed

lemma calm_claimTaskDeletion:
  assumes inv: "login_inv d"
  shows "calm d (snd (claimTaskDeletion x i d))"
proof (rule calm_kept [OF claimTaskDeletion.inv [OF inv] claimTaskDeletion.progress [OF inv]])
  show "t \<in> set (login_tasks d)" if "t \<in> set (login_tasks (snd (claimTaskDeletion x i d)))" "lt_status t \<in> {TaskPending, TaskRunning}" for t
    using that by (auto simp: claimTaskDeletion_def Let_def rows split: if_splits)
qed

lemma calm_releaseTaskDeletion:
  assumes inv: "login_inv d"
  shows "calm d (releaseTaskDeletion x i d)"
proof (rule calm_kept [OF releaseTaskDeletion.inv [OF inv] releaseTaskDeletion.progress [OF inv]])
  show "t \<in> set (login_tasks d)" if "t \<in> set (login_tasks (releaseTaskDeletion x i d))" "lt_status t \<in> {TaskPending, TaskRunning}" for t
    using that by (auto simp: releaseTaskDeletion_def rows split: if_splits)
qed

lemma calm_deleteTask:
  assumes inv: "login_inv d"
  shows "calm d (snd (deleteTask x i d))"
proof (cases rule: deleteTask_cases [OF inv, of x i])
  case 1
  then show ?thesis using calm_refl [OF inv] by simp
next
  case (2 t1)
  have "set (login_tasks (snd (deleteTask x i d))) \<subseteq> set (login_tasks d)" "set (login_attempts (snd (deleteTask x i d))) \<subseteq> set (login_attempts d)"
    unfolding 2(6) by auto
  then show ?thesis using deleteTask_inv [OF inv, of x i] calm_task_refl unfolding calm_def reached_def by blast
qed

lemma calm_setStage:
  assumes inv: "login_inv d" and r: "reached 1 d i aid"
  shows "calm d (setStage now x i aid stage d)"
proof (rule calm_progressed [OF setStage.inv [OF inv] setStage.progress [OF inv]])
  fix t' assume t': "t' \<in> set (login_tasks (setStage now x i aid stage d))"
  show "\<exists>t \<in> set (login_tasks d). calm_task t t'"
  proof (cases "exists_row (at_attempt x i aid isActiveStatus) (login_tasks d)")
    case True
    then obtain t where t: "t \<in> set (login_tasks d)"
      "t' = (if at_attempt x i aid isActiveStatus t then t\<lparr>lt_stage := Some stage, lt_stage_updated_at := Some now\<rparr> else t)"
      using t' by (auto simp: setStage_def rows)
    have "lt_status t \<noteq> TaskPending" if at: "at_attempt x i aid isActiveStatus t"
    proof -
      have "lt_attempt t = Some aid" using at by (simp add: at_attempt_def)
      then obtain a where "a \<in> set (login_attempts d)" "la_id a = aid" "la_task a = lt_id t" "la_status a = lt_status t"
        using current_attemptE [OF login_inv_parts(3) [OF inv] t(1)] by metis
      then show ?thesis using r at by (force simp: reached_def at_attempt_def)
    qed
    then have "calm_task t t'" using t(2) by (auto simp: calm_task_def)
    then show ?thesis using t(1) by blast
  next
    case False
    then have "t' \<in> set (login_tasks d)" using t' by (simp add: setStage_def)
    then show ?thesis using calm_task_refl by blast
  qed
qed

section \<open>The queue survives calm changes\<close>

lemma calm_no_legacy:
  assumes "calm d d'" "no_legacy d"
  shows "no_legacy d'"
  unfolding no_legacy_def
proof (intro ballI impI)
  fix t' assume t': "t' \<in> set (login_tasks d')" "isActiveStatus (lt_status t')"
  obtain t where "t \<in> set (login_tasks d)" "calm_task t t'" using calm_back [OF assms(1) t'(1)] by blast
  then show "lt_attempt t' \<noteq> None" using assms(2) t'(2) by (simp add: no_legacy_def calm_task_def)
qed

lemma calm_same_owner:
  assumes "calm d d'" "same_owner d i x"
  shows "same_owner d' i x"
  unfolding same_owner_def
proof (intro ballI impI)
  fix t' assume t': "t' \<in> set (login_tasks d')" "lt_id t' = i"
  obtain t where "t \<in> set (login_tasks d)" "calm_task t t'" using calm_back [OF assms(1) t'(1)] by blast
  then show "lt_enterprise t' = x" using assms(2) t'(2) by (simp add: same_owner_def calm_task_def)
qed

definition remembers :: "login_db \<Rightarrow> LoginTaskRecord \<Rightarrow> bool" where
  "remembers d t \<longleftrightarrow> (\<forall>u \<in> set (login_tasks d). lt_id u = lt_id t \<longrightarrow> lt_enterprise u = lt_enterprise t \<and> lt_identity u = lt_identity t)"

lemma calm_remembers:
  assumes "calm d d'" "remembers d t"
  shows "remembers d' t"
  unfolding remembers_def
proof (intro ballI impI)
  fix u' assume u': "u' \<in> set (login_tasks d')" "lt_id u' = lt_id t"
  obtain u where "u \<in> set (login_tasks d)" "calm_task u u'" using calm_back [OF assms(1) u'(1)] by blast
  then show "lt_enterprise u' = lt_enterprise t \<and> lt_identity u' = lt_identity t" using assms(2) u'(2) by (simp add: remembers_def calm_task_def)
qed

lemma memory_ok_alt:
  "memory_ok w \<longleftrightarrow>
     (\<forall>p \<in> set (lw_pending w) \<union> run_payload ` set (lw_runs w). same_owner (lw_db w) (pl_task p) (pl_enterprise p)) \<and>
     (\<forall>t \<in> rc_task ` set (lw_checks w) \<union> rw_task ` set (lw_retries w) \<union> rw_reserved ` set (lw_retries w) \<union> cn_task ` set (lw_cancellations w).
        remembers (lw_db w) t) \<and>
     (\<forall>rw \<in> set (lw_retries w). lt_id (rw_reserved rw) = lt_id (rw_task rw))"
  by (simp add: memory_ok_def remembers_def)

lemma memory_owner:
  "memory_ok w \<Longrightarrow> p \<in> set (lw_pending w) \<union> run_payload ` set (lw_runs w) \<Longrightarrow> same_owner (lw_db w) (pl_task p) (pl_enterprise p)"
  by (simp add: memory_ok_alt)

lemma memory_task:
  "memory_ok w \<Longrightarrow>
     t \<in> rc_task ` set (lw_checks w) \<union> rw_task ` set (lw_retries w) \<union> rw_reserved ` set (lw_retries w) \<union> cn_task ` set (lw_cancellations w) \<Longrightarrow>
     remembers (lw_db w) t"
  by (simp add: memory_ok_alt)

lemma calm_work:
  assumes c: "calm (lw_db w) d'" and ok: "work_ok w"
  shows "work_ok (w\<lparr>lw_db := d'\<rparr>)"
proof -
  have pf: "payload_for p t' = payload_for p t" if "calm_task t t'" for p t t' using that by (simp add: payload_for_def calm_task_def)
  show ?thesis unfolding work_ok_def
  proof (intro ballI conjI impI)
    fix t' assume "t' \<in> set (login_tasks (lw_db (w\<lparr>lw_db := d'\<rparr>)))"
    then obtain t where t: "t \<in> set (login_tasks (lw_db w))" "calm_task t t'" using calm_back [OF c] by auto
    note okt = bspec [OF ok [unfolded work_ok_def] t(1)]
    show "\<exists>r \<in> set (lw_runs (w\<lparr>lw_db := d'\<rparr>)). payload_for (run_payload r) t'" if "lt_status t' = TaskRunning"
      using okt that t(2) pf [OF t(2)] by (simp add: calm_task_def)
    show "\<exists>p \<in> set (lw_pending (w\<lparr>lw_db := d'\<rparr>)) \<union> run_payload ` set (lw_runs (w\<lparr>lw_db := d'\<rparr>)). payload_for p t'"
      if "lt_status t' = TaskPending" "lt_stage t' = Some ''queued''"
      using okt that t(2) pf [OF t(2)] by (simp add: calm_task_def)
  qed
qed

lemma calm_issued:
  assumes c: "calm (lw_db w) d'" and ok: "issued_ok U w"
  shows "issued_ok U (w\<lparr>lw_db := d'\<rparr>)"
proof -
  have "lt_id t' \<in> U \<and> CHR '':'' \<notin> set (lt_id t')" if "t' \<in> set (login_tasks d')" for t'
    using calm_back [OF c that] ok by (auto simp: issued_ok_def calm_task_def)
  moreover have "la_id a \<in> U" if "a \<in> set (login_attempts d')" for a
    using calm_attempts [OF c that] ok by (auto simp: issued_ok_def)
  ultimately show ?thesis using ok by (simp add: issued_ok_def)
qed

lemma run_ok_calm: "calm d d' \<Longrightarrow> run_ok d r \<Longrightarrow> run_ok d' r"
  using calm_reached by (auto simp: run_ok_def Let_def)

lemma slots_ok_db [simp]: "slots_ok (w\<lparr>lw_db := d\<rparr>) = slots_ok w"
  by (simp add: slots_ok_def)

lemma settings_ok_db [simp]: "settings_ok (w\<lparr>lw_db := d\<rparr>) = settings_ok w"
  by (simp add: settings_ok_def)

lemma slots_ok_frame [simp]:
  "slots_ok (w\<lparr>lw_cancellations := v0\<rparr>) = slots_ok w"
  "slots_ok (w\<lparr>lw_cancelled := v1\<rparr>) = slots_ok w"
  "slots_ok (w\<lparr>lw_checks := v2\<rparr>) = slots_ok w"
  "slots_ok (w\<lparr>lw_retries := v3\<rparr>) = slots_ok w"
  "slots_ok (w\<lparr>lw_deletions := v4\<rparr>) = slots_ok w"
  "slots_ok (w\<lparr>lw_accepting := v5\<rparr>) = slots_ok w"
  "slots_ok (w\<lparr>lw_row := v6\<rparr>) = slots_ok w"
  "slots_ok (w\<lparr>lw_settings := v7\<rparr>) = slots_ok w"
  by (simp_all add: slots_ok_def)

lemma work_ok_frame [simp]:
  "work_ok (w\<lparr>lw_cancellations := v0\<rparr>) = work_ok w"
  "work_ok (w\<lparr>lw_cancelled := v1\<rparr>) = work_ok w"
  "work_ok (w\<lparr>lw_checks := v2\<rparr>) = work_ok w"
  "work_ok (w\<lparr>lw_retries := v3\<rparr>) = work_ok w"
  "work_ok (w\<lparr>lw_deletions := v4\<rparr>) = work_ok w"
  "work_ok (w\<lparr>lw_accepting := v5\<rparr>) = work_ok w"
  "work_ok (w\<lparr>lw_row := v6\<rparr>) = work_ok w"
  "work_ok (w\<lparr>lw_settings := v7\<rparr>) = work_ok w"
  by (simp_all add: work_ok_def)

lemma cancelled_ok_frame [simp]:
  "cancelled_ok (w\<lparr>lw_cancellations := v0\<rparr>) = cancelled_ok w"
  "cancelled_ok (w\<lparr>lw_checks := v1\<rparr>) = cancelled_ok w"
  "cancelled_ok (w\<lparr>lw_retries := v2\<rparr>) = cancelled_ok w"
  "cancelled_ok (w\<lparr>lw_deletions := v3\<rparr>) = cancelled_ok w"
  "cancelled_ok (w\<lparr>lw_accepting := v4\<rparr>) = cancelled_ok w"
  "cancelled_ok (w\<lparr>lw_row := v5\<rparr>) = cancelled_ok w"
  "cancelled_ok (w\<lparr>lw_settings := v6\<rparr>) = cancelled_ok w"
  by (simp_all add: cancelled_ok_def)

lemma settings_ok_frame [simp]:
  "settings_ok (w\<lparr>lw_cancellations := v0\<rparr>) = settings_ok w"
  "settings_ok (w\<lparr>lw_cancelled := v1\<rparr>) = settings_ok w"
  "settings_ok (w\<lparr>lw_checks := v2\<rparr>) = settings_ok w"
  "settings_ok (w\<lparr>lw_retries := v3\<rparr>) = settings_ok w"
  "settings_ok (w\<lparr>lw_deletions := v4\<rparr>) = settings_ok w"
  "settings_ok (w\<lparr>lw_accepting := v5\<rparr>) = settings_ok w"
  by (simp_all add: settings_ok_def)

lemma memory_ok_frame [simp]:
  "memory_ok (w\<lparr>lw_cancelled := v0\<rparr>) = memory_ok w"
  "memory_ok (w\<lparr>lw_deletions := v1\<rparr>) = memory_ok w"
  "memory_ok (w\<lparr>lw_accepting := v2\<rparr>) = memory_ok w"
  "memory_ok (w\<lparr>lw_row := v3\<rparr>) = memory_ok w"
  "memory_ok (w\<lparr>lw_settings := v4\<rparr>) = memory_ok w"
  by (simp_all add: memory_ok_def)

lemma issued_ok_frame [simp]:
  "issued_ok U (w\<lparr>lw_deletions := v0\<rparr>) = issued_ok U w"
  "issued_ok U (w\<lparr>lw_accepting := v1\<rparr>) = issued_ok U w"
  "issued_ok U (w\<lparr>lw_row := v2\<rparr>) = issued_ok U w"
  "issued_ok U (w\<lparr>lw_settings := v3\<rparr>) = issued_ok U w"
  by (simp_all add: issued_ok_def)

lemma base_calm:
  assumes inv: "base_inv U w" and c: "calm (lw_db w) d'"
  shows "base_inv U (w\<lparr>lw_db := d'\<rparr>)"
  using inv calm_inv [OF c] calm_no_legacy [OF c] calm_issued [OF c] calm_work [OF c] run_ok_calm [OF c]
    calm_same_owner [OF c] calm_remembers [OF c] calm_reached [OF c]
  by (simp add: base_inv_def memory_ok_alt cancelled_ok_def)

section \<open>What a report leaves behind\<close>

lemma unfenced_reached:
  assumes inv: "login_inv d" and nl: "no_legacy d" and own: "same_owner d i x"
    and no: "\<not> exists_row (at_attempt x i aid isActiveStatus) (login_tasks d)"
  shows "reached 3 d i aid"
  unfolding reached_def
proof (intro ballI impI)
  fix a assume a: "a \<in> set (login_attempts d)" "la_task a = i" "la_id a = aid"
  obtain t where t: "t \<in> set (login_tasks d)" "lt_id t = i" using keys_task_of [OF login_inv_parts(1) [OF inv] a(1)] a(2) by blast
  have "\<not> isActiveStatus (la_status a)"
  proof
    assume act: "isActiveStatus (la_status a)"
    have "lt_attempt t = Some aid"
      using history_okD [OF coherent_history [OF login_inv_parts(3) [OF inv] a(1)] act t(1)] nl t a by (auto simp: no_legacy_def)
    moreover from this have "lt_status t = la_status a" using current_is_own(2) [OF inv t(1) _ a(1)] a(3) by simp
    ultimately have "at_attempt x i aid isActiveStatus t" using own t act by (simp add: at_attempt_def same_owner_def)
    then show False using no t(1) by (auto simp: rows)
  qed
  then show "3 \<le> status_rank (la_status a)" by (simp add: active_rank)
qed

lemma reached_update:
  assumes "\<And>a. la_id (g a) = la_id a" "\<And>a. n \<le> status_rank (la_status (g a))" "aid = aid'"
  shows "reached n (update_attempts (\<lambda>a. la_id a = aid') g d) i aid"
  using assms by (auto simp: reached_def rows)

lemma update_whereE:
  assumes "r' \<in> set (update_where P f rs)"
  obtains r where "r \<in> set rs" "r' = (if P r then f r else r)"
  using assms by (auto simp: rows)

lemma finishAttempt_reached:
  assumes inv: "login_inv d" and nl: "no_legacy d" and own: "same_owner d i x" and st: "isFinishedStatus st"
  shows "reached 3 (snd (finishAttempt now x i (Some aid) st reason code d)) i aid"
proof (cases rule: finishAttempt_cases [of now x i "Some aid" st reason code d])
  case 1
  then show ?thesis
  proof (cases "aid = []")
    case True
    have "la_id a \<noteq> aid" if "a \<in> set (login_attempts d)" for a using keys_nonempty [OF login_inv_parts(1) [OF inv] that] True by simp
    then show ?thesis unfolding reached_def 1(1) by blast
  next
    case False
    then show ?thesis using 1 unfenced_reached [OF inv nl own] by (simp add: truthy_def)
  qed
next
  case (2 aid')
  have "3 \<le> status_rank st" using st by (simp add: finished_iff active_rank)
  moreover have "aid' = aid" using 2(1) by simp
  ultimately show ?thesis unfolding 2(3) by (intro reached_update) simp_all
qed

lemma markFailed_reached:
  "login_inv d \<Longrightarrow> no_legacy d \<Longrightarrow> same_owner d i x \<Longrightarrow> reached 3 (snd (markFailed now x i reason (Some aid) code d)) i aid"
  by (simp add: markFailed_def default_attempt_def finishAttempt_reached)

lemma markSuccess_reached:
  "login_inv d \<Longrightarrow> no_legacy d \<Longrightarrow> same_owner d i x \<Longrightarrow> reached 3 (snd (markSuccess now x i (Some aid) d)) i aid"
  by (simp add: markSuccess_def default_attempt_def finishAttempt_reached)

lemma reached_le: "reached n d i aid \<Longrightarrow> m \<le> n \<Longrightarrow> reached m d i aid"
  by (auto simp: reached_def)

section \<open>Draining the queue\<close>

lemma base_parts:
  assumes "base_inv U w"
  shows "login_inv (lw_db w)" "no_legacy (lw_db w)" "issued_ok U w" "memory_ok w" "slots_ok w" "work_ok w" "cancelled_ok w" "settings_ok w"
    "\<And>r. r \<in> set (lw_runs w) \<Longrightarrow> run_ok (lw_db w) r"
  using assms by (simp_all add: base_inv_def)

lemma base_concurrency:
  assumes "base_inv U w"
  shows "1 \<le> getConcurrency w" "getConcurrency w \<le> 20"
  using base_parts(8) [OF assms] by (auto simp: settings_ok_def getConcurrency_def row_snapshot_def valid_row_def)

text \<open>Dropping the first payload of the queue when its task does not wait for it.\<close>

lemma base_drop:
  assumes inv: "base_inv U (w\<lparr>lw_pending := p # ps\<rparr>)"
    and no: "\<And>t. t \<in> set (login_tasks (lw_db w)) \<Longrightarrow> payload_for p t \<Longrightarrow> lt_status t \<noteq> TaskPending"
  shows "base_inv U (w\<lparr>lw_pending := ps\<rparr>)"
proof -
  let ?w = "w\<lparr>lw_pending := p # ps\<rparr>" and ?w' = "w\<lparr>lw_pending := ps\<rparr>"
  note b = base_parts [OF inv]
  have "work_ok ?w'" unfolding work_ok_def
  proof (intro ballI conjI impI)
    fix t assume t: "t \<in> set (login_tasks (lw_db ?w'))"
    then have okt: "t \<in> set (login_tasks (lw_db ?w))" by simp
    note okt = bspec [OF b(6) [unfolded work_ok_def] okt]
    show "\<exists>r \<in> set (lw_runs ?w'). payload_for (run_payload r) t" if "lt_status t = TaskRunning" using okt that by simp
    show "\<exists>q \<in> set (lw_pending ?w') \<union> run_payload ` set (lw_runs ?w'). payload_for q t"
      if pend: "lt_status t = TaskPending" "lt_stage t = Some ''queued''"
    proof -
      obtain q where "q \<in> set (p # ps) \<union> run_payload ` set (lw_runs w)" "payload_for q t" using okt pend by auto
      moreover have "\<not> payload_for p t" using no [of t] t pend(1) by auto
      ultimately show ?thesis by auto
    qed
  qed
  then show ?thesis using inv unfolding base_inv_def issued_ok_def memory_ok_def slots_ok_def cancelled_ok_def settings_ok_def by auto
qed

lemma cancel_key_inject:
  assumes "CHR '':'' \<notin> set i" "CHR '':'' \<notin> set j"
  shows "cancel_key i a = cancel_key j b \<longleftrightarrow> i = j \<and> a = b"
proof -
  have "takeWhile (\<lambda>c. c \<noteq> CHR '':'') (k @ CHR '':'' # r) = k" if "CHR '':'' \<notin> set k" for k r
    using that by (induction k) auto
  then show ?thesis using assms unfolding cancel_key_def by (metis append.simps append_same_eq same_append_eq list.inject)
qed

lemma current_not_reached:
  assumes inv: "login_inv d" and t: "t \<in> set (login_tasks d)" "lt_attempt t = Some aid" and r: "reached n d (lt_id t) aid"
  shows "n \<le> status_rank (lt_status t)"
proof -
  obtain a where "a \<in> set (login_attempts d)" "la_id a = aid" "la_task a = lt_id t" "la_status a = lt_status t"
    using current_attemptE [OF login_inv_parts(3) [OF inv] t] by metis
  then show ?thesis using r by (force simp: reached_def)
qed

lemma unrunnable_drop:
  assumes inv: "base_inv U (w\<lparr>lw_pending := p # ps\<rparr>)"
    and g: "\<And>task. getTask (pl_enterprise p) (pl_task p) (lw_db w) = Some task \<Longrightarrow> \<not> isRunnable w task p"
  shows "base_inv U (w\<lparr>lw_pending := ps\<rparr>)"
proof (rule base_drop [OF inv])
  fix t assume t: "t \<in> set (login_tasks (lw_db w))" "payload_for p t"
  let ?w = "w\<lparr>lw_pending := p # ps\<rparr>"
  note b = base_parts [OF inv, simplified]
  have "same_owner (lw_db w) (pl_task p) (pl_enterprise p)" using b(4) by (simp add: memory_ok_def)
  then have "task_row (pl_enterprise p) (pl_task p) (lw_db w) = Some t"
    using task_row_Some [OF login_inv_parts(1) [OF b(1)]] t by (auto simp: payload_for_def same_owner_def)
  then have nr: "\<not> isRunnable w (mapRow t) p" using g by (simp add: getTask_def)
  show "lt_status t \<noteq> TaskPending"
  proof
    assume pend: "lt_status t = TaskPending"
    then have key: "cancel_key (pl_task p) (rq_attempt p) \<in> set (lw_cancelled w)" using nr t by (simp add: isRunnable_def payload_for_def)
    have "CHR '':'' \<notin> set (pl_task p)" using b(3) by (simp add: issued_ok_def)
    then have "reached 2 (lw_db w) (pl_task p) (rq_attempt p)" using b(7) key by (simp add: cancelled_ok_def)
    then have "2 \<le> status_rank (lt_status t)" using current_not_reached [OF b(1) t(1)] t(2) by (simp add: payload_for_def)
    then show False using pend by simp
  qed
qed

lemma update_tasks_back:
  assumes "t' \<in> set (update_where P f ts)" "\<And>t. P t \<Longrightarrow> lt_id (f t) = i" "lt_id t' \<noteq> i"
  shows "t' \<in> set ts"
  using assms by (auto elim!: update_whereE split: if_splits)

text \<open>Starting the first payload. A waiting task is found, and its run is marked.\<close>

lemma markRunning_runnable:
  assumes inv: "login_inv d" and t: "t \<in> set (login_tasks d)" "lt_enterprise t = x" "lt_id t = i" "lt_attempt t = Some aid" "lt_status t = TaskPending"
  obtains d' where "markRunning now x i path (Some aid) d = (getTask x i d', d')" "getTask x i d' \<noteq> None" "login_inv d'" "progressed d d'"
    "\<And>t'. t' \<in> set (login_tasks d') \<Longrightarrow> lt_id t' \<noteq> i \<Longrightarrow> t' \<in> set (login_tasks d)"
    "\<And>t'. t' \<in> set (login_tasks d') \<Longrightarrow> lt_id t' = i \<Longrightarrow> lt_status t' = TaskRunning"
    "reached 1 d' i aid"
proof -
  define d' where "d' = update_attempts (\<lambda>a. la_id a = aid)
      (\<lambda>a. a\<lparr>la_status := TaskRunning, la_started_at := Some now, la_log_path := Some path\<rparr>)
    (update_tasks (at_attempt x i aid (\<lambda>st. st = TaskPending))
      (\<lambda>t. t\<lparr>lt_status := TaskRunning, lt_attempts := lt_attempts t + 1, lt_started_at := Some now,
         lt_finished_at := None, lt_failure_reason := None, lt_log_path := Some path\<rparr>) d)"
  have at: "at_attempt x i aid (\<lambda>st. st = TaskPending) t" using t by (simp add: at_attempt_def)
  obtain a where "a \<in> set (login_attempts d)" "la_id a = aid" using current_attemptE [OF login_inv_parts(3) [OF inv] t(1,4)] by metis
  then have "aid \<noteq> []" using keys_nonempty [OF login_inv_parts(1) [OF inv]] by blast
  moreover have ex: "exists_row (at_attempt x i aid (\<lambda>st. st = TaskPending)) (login_tasks d)" using t(1) at by (auto simp: rows)
  ultimately have eq: "markRunning now x i path (Some aid) d = (getTask x i d', d')"
    unfolding d'_def by (simp add: markRunning_def default_attempt_def truthy_def Let_def)
  have inv': "login_inv d'" and prog: "progressed d d'"
    using markRunning.inv [OF inv, of now x i path "Some aid"] markRunning.progress [OF inv, of now x i path "Some aid"] eq by simp_all
  have keep: "t' \<in> set (login_tasks d)" if "t' \<in> set (login_tasks d')" "lt_id t' \<noteq> i" for t'
    using that update_tasks_back [of t' "at_attempt x i aid (\<lambda>st. st = TaskPending)"] by (simp add: d'_def at_attempt_def)
  have run: "lt_status t' = TaskRunning" if t': "t' \<in> set (login_tasks d')" "lt_id t' = i" for t'
  proof -
    have "t' \<in> set (update_where (at_attempt x i aid (\<lambda>st. st = TaskPending))
      (\<lambda>t. t\<lparr>lt_status := TaskRunning, lt_attempts := lt_attempts t + 1, lt_started_at := Some now,
         lt_finished_at := None, lt_failure_reason := None, lt_log_path := Some path\<rparr>) (login_tasks d))" using t'(1) by (simp add: d'_def)
    then obtain u where u: "u \<in> set (login_tasks d)" "t' = (if at_attempt x i aid (\<lambda>st. st = TaskPending) u
        then u\<lparr>lt_status := TaskRunning, lt_attempts := lt_attempts u + 1, lt_started_at := Some now,
         lt_finished_at := None, lt_failure_reason := None, lt_log_path := Some path\<rparr> else u)"
      by (rule update_whereE)
    then have "lt_id u = i" using t'(2) by (simp split: if_splits)
    then have "u = t" using task_unique [OF login_inv_parts(1) [OF inv] u(1) t(1)] t(3) by simp
    then show ?thesis using u(2) at by simp
  qed
  have r1: "reached 1 d' i aid" unfolding d'_def by (rule reached_update) simp_all
  obtain t' where "t' \<in> set (login_tasks d')" "task_progress t t'" using progressed_task_forth [OF prog t(1)] by blast
  then have "task_row x i d' = Some t'" using task_row_Some [OF login_inv_parts(1) [OF inv']] t by (simp add: task_progress_def)
  then have "getTask x i d' \<noteq> None" by (simp add: getTask_def)
  then show thesis by (rule that [OF eq _ inv' prog keep run r1])
qed

lemma progressed_same_owner:
  assumes p: "progressed d d'" and "same_owner d i x"
  shows "same_owner d' i x"
  unfolding same_owner_def
proof (intro ballI impI)
  fix t' assume t': "t' \<in> set (login_tasks d')" "lt_id t' = i"
  obtain t where "t \<in> set (login_tasks d)" "task_progress t t'" using progressed_task_back [OF p t'(1)] by blast
  then show "lt_enterprise t' = x" using assms(2) t'(2) by (simp add: same_owner_def task_progress_def)
qed

lemma progressed_remembers:
  assumes p: "progressed d d'" and "remembers d t"
  shows "remembers d' t"
  unfolding remembers_def
proof (intro ballI impI)
  fix u' assume u': "u' \<in> set (login_tasks d')" "lt_id u' = lt_id t"
  obtain u where "u \<in> set (login_tasks d)" "task_progress u u'" using progressed_task_back [OF p u'(1)] by blast
  then show "lt_enterprise u' = lt_enterprise t \<and> lt_identity u' = lt_identity t" using assms(2) u'(2)
    by (simp add: remembers_def task_progress_def)
qed

lemma progressed_no_legacy:
  assumes p: "progressed d d'" and "no_legacy d"
  shows "no_legacy d'"
  unfolding no_legacy_def
proof (intro ballI impI)
  fix t' assume t': "t' \<in> set (login_tasks d')" "isActiveStatus (lt_status t')"
  obtain t where "t \<in> set (login_tasks d)" "task_progress t t'" using progressed_task_back [OF p t'(1)] by blast
  then show "lt_attempt t' \<noteq> None" using assms(2) t'(2) status_moves_active by (auto simp: no_legacy_def task_progress_def)
qed

lemma progressed_issued:
  assumes p: "progressed (lw_db w) d'" and ok: "issued_ok U w"
  shows "issued_ok U (w\<lparr>lw_db := d'\<rparr>)"
proof -
  have "lt_id ` set (login_tasks d') = lt_id ` set (login_tasks (lw_db w))" "la_id ` set (login_attempts d') = la_id ` set (login_attempts (lw_db w))"
    by (rule set_map_eq [OF progressed_maps(1) [OF p]], rule set_map_eq [OF progressed_maps(3) [OF p]])
  then have "lt_id t' \<in> U \<and> CHR '':'' \<notin> set (lt_id t')" if "t' \<in> set (login_tasks d')" for t'
    using that ok unfolding issued_ok_def by (metis image_iff)
  moreover have "la_id a \<in> U" if "a \<in> set (login_attempts d')" for a
    using that ok \<open>la_id ` set (login_attempts d') = _\<close> unfolding issued_ok_def by (metis image_iff)
  ultimately show ?thesis using ok by (simp add: issued_ok_def)
qed

lemma slotsD:
  assumes "slots_ok w"
  shows "lw_active w = map (\<lambda>r. pl_task (run_payload r)) (lw_runs w)" "distinct (lw_active w)" "length (lw_active w) \<le> 20"
    "distinct (map pl_task (lw_pending w))" "pl_task ` set (lw_pending w) \<inter> set (lw_active w) = {}"
  using assms unfolding slots_ok_def by blast+

lemma slotsI:
  assumes "lw_active w = map (\<lambda>r. pl_task (run_payload r)) (lw_runs w)" "distinct (lw_active w)" "length (lw_active w) \<le> 20"
    "distinct (map pl_task (lw_pending w))" "pl_task ` set (lw_pending w) \<inter> set (lw_active w) = {}"
  shows "slots_ok w"
  using assms unfolding slots_ok_def by blast

lemma image_eq_bex: "f ` A = f ` B \<Longrightarrow> (\<exists>x \<in> A. P (f x)) = (\<exists>x \<in> B. P (f x))"
  by (metis (mono_tags, lifting) image_iff)

lemma update_where_last: "x \<notin> set xs \<Longrightarrow> update_where (\<lambda>q. q = x) f (xs @ [x]) = xs @ [f x]"
  by (induction xs) auto

lemma world_swap: "w\<lparr>lw_runs := rs, lw_db := d\<rparr> = w\<lparr>lw_db := d, lw_runs := rs\<rparr>" for w :: login_world
  by simp

lemma base_phase:
  assumes inv: "base_inv U w" and ok: "run_ok (lw_db w) (r\<lparr>run_phase := ph\<rparr>)"
  shows "base_inv U (w\<lparr>lw_runs := update_where (\<lambda>q. q = r) (\<lambda>q. q\<lparr>run_phase := ph\<rparr>) (lw_runs w)\<rparr>)" (is "base_inv U ?w")
proof -
  note b = base_parts [OF inv]
  have m: "map run_payload (lw_runs ?w) = map run_payload (lw_runs w)" by (simp add: map_update_where)
  then have pay: "run_payload ` set (lw_runs ?w) = run_payload ` set (lw_runs w)" by (rule set_map_eq)
  have "map (\<lambda>r. pl_task (run_payload r)) (lw_runs ?w) = map (\<lambda>r. pl_task (run_payload r)) (lw_runs w)" by (simp add: map_update_where)
  then have "slots_ok ?w" using slotsD [OF b(5)] by (intro slotsI) simp_all
  moreover have "run_ok (lw_db ?w) q" if "q \<in> set (lw_runs ?w)" for q
    using that ok b(9) by (auto elim!: update_whereE)
  moreover have "issued_ok U ?w" using b(3) pay by (simp add: issued_ok_def)
  moreover have "memory_ok ?w" using b(4) pay by (simp add: memory_ok_def)
  moreover have "work_ok ?w"
  proof -
    have "(\<exists>q \<in> set (lw_runs ?w). payload_for (run_payload q) t) = (\<exists>q \<in> set (lw_runs w). payload_for (run_payload q) t)" for t :: TaskRow
      by (rule image_eq_bex [OF pay])
    then show ?thesis using b(6) pay unfolding work_ok_def by simp
  qed
  ultimately show ?thesis using b by (simp add: base_inv_def cancelled_ok_def settings_ok_def)
qed

lemma base_move:
  assumes inv: "base_inv U (w\<lparr>lw_pending := p # ps\<rparr>)" and free: "int (length (lw_active w)) < getConcurrency w"
  shows "base_inv U (w\<lparr>lw_pending := ps, lw_active := lw_active w @ [pl_task p],
    lw_runs := lw_runs w @ [\<lparr>run_payload = p, run_aborted = False, run_phase = Rejected m\<rparr>]\<rparr>)" (is "base_inv U ?w")
proof -
  let ?old = "w\<lparr>lw_pending := p # ps\<rparr>" and ?r = "\<lparr>run_payload = p, run_aborted = False, run_phase = Rejected m\<rparr>"
  note b = base_parts [OF inv]
  have "getConcurrency ?old \<le> 20" by (rule base_concurrency(2) [OF inv])
  then have "length (lw_active w) < 20" using free by (simp add: getConcurrency_def)
  moreover have "distinct (map pl_task (p # ps))" "pl_task ` set (p # ps) \<inter> set (lw_active w) = {}"
    "lw_active w = map (\<lambda>r. pl_task (run_payload r)) (lw_runs w)" "distinct (lw_active w)"
    using slotsD [OF b(5)] by simp_all
  ultimately have slots: "slots_ok ?w" by (intro slotsI) auto
  have union: "set ps \<union> run_payload ` set (lw_runs w @ [?r]) = set (p # ps) \<union> run_payload ` set (lw_runs w)" by auto
  have issued: "issued_ok U ?w" using b(3) unfolding issued_ok_def by (simp add: union [simplified])
  have memory: "memory_ok ?w" using b(4) unfolding memory_ok_def by (simp add: union [simplified])
  have work: "work_ok ?w" unfolding work_ok_def
  proof (intro ballI conjI impI)
    fix t assume "t \<in> set (login_tasks (lw_db ?w))"
    then have t: "t \<in> set (login_tasks (lw_db ?old))" by simp
    note okt = bspec [OF b(6) [unfolded work_ok_def] t]
    show "\<exists>r \<in> set (lw_runs ?w). payload_for (run_payload r) t" if "lt_status t = TaskRunning" using okt that by auto
    show "\<exists>q \<in> set (lw_pending ?w) \<union> run_payload ` set (lw_runs ?w). payload_for q t" if "lt_status t = TaskPending" "lt_stage t = Some ''queued''"
      using okt that by auto
  qed
  have "run_ok (lw_db ?w) q" if "q \<in> set (lw_runs ?w)" for q
    using that b(9) [of q] by (auto simp: run_ok_def)
  then show ?thesis using b(1,2,7,8) slots issued memory work by (simp add: base_inv_def cancelled_ok_def settings_ok_def)
qed

lemma base_mark_running:
  assumes inv: "base_inv U w" and p: "progressed (lw_db w) d'" and inv': "login_inv d'"
    and others: "\<And>t'. t' \<in> set (login_tasks d') \<Longrightarrow> lt_id t' \<noteq> i \<Longrightarrow> t' \<in> set (login_tasks (lw_db w))"
    and own: "\<And>t'. t' \<in> set (login_tasks d') \<Longrightarrow> lt_id t' = i \<Longrightarrow> lt_status t' = TaskRunning"
    and run: "r \<in> set (lw_runs w)" "pl_task (run_payload r) = i" "\<And>t'. t' \<in> set (login_tasks d') \<Longrightarrow> lt_id t' = i \<Longrightarrow> lt_attempt t' = Some (rq_attempt (run_payload r))"
  shows "base_inv U (w\<lparr>lw_db := d'\<rparr>)"
proof -
  note b = base_parts [OF inv]
  have "work_ok (w\<lparr>lw_db := d'\<rparr>)" unfolding work_ok_def
  proof (rule ballI)
    fix t' assume "t' \<in> set (login_tasks (lw_db (w\<lparr>lw_db := d'\<rparr>)))"
    then have t': "t' \<in> set (login_tasks d')" by simp
    show "(lt_status t' = TaskRunning \<longrightarrow> (\<exists>r \<in> set (lw_runs (w\<lparr>lw_db := d'\<rparr>)). payload_for (run_payload r) t')) \<and>
      (lt_status t' = TaskPending \<longrightarrow> lt_stage t' = Some ''queued'' \<longrightarrow>
        (\<exists>p \<in> set (lw_pending (w\<lparr>lw_db := d'\<rparr>)) \<union> run_payload ` set (lw_runs (w\<lparr>lw_db := d'\<rparr>)). payload_for p t'))"
    proof (cases "lt_id t' = i")
      case True
      then show ?thesis using own [OF t'] run t' by (auto simp: payload_for_def)
    next
      case False
      then show ?thesis using bspec [OF b(6) [unfolded work_ok_def] others [OF t' False]] by simp
    qed
  qed
  moreover have "run_ok d' q" if "run_ok (lw_db w) q" for q using that progressed_reached [OF p] by (auto simp: run_ok_def Let_def)
  ultimately show ?thesis
    using b inv' progressed_no_legacy [OF p b(2)] progressed_issued [OF p b(3)] progressed_same_owner [OF p] progressed_remembers [OF p]
      progressed_reached [OF p]
    by (simp add: base_inv_def memory_ok_alt cancelled_ok_def)
qed

lemma base_start:
  assumes inv: "base_inv U (w\<lparr>lw_pending := p # ps\<rparr>)" and free: "int (length (lw_active w)) < getConcurrency w"
    and g: "getTask (pl_enterprise p) (pl_task p) (lw_db w) = Some task" and run: "isRunnable w task p"
  shows "base_inv U ((start now mkLog task p w)\<lparr>lw_pending := ps\<rparr>)"
proof -
  let ?run = "\<lambda>ph. \<lparr>run_payload = p, run_aborted = False, run_phase = ph\<rparr>"
  let ?w = "\<lambda>d ph. w\<lparr>lw_pending := ps, lw_active := lw_active w @ [pl_task p], lw_runs := lw_runs w @ [?run ph], lw_db := d\<rparr>"
  note b = base_parts [OF inv, simplified]
  have fresh: "pl_task p \<notin> set (lw_active w)" using b(5) by (auto simp: slots_ok_def)
  have new: "?run ph \<notin> set (lw_runs w)" for ph
  proof
    assume "?run ph \<in> set (lw_runs w)"
    from imageI [OF this, of "\<lambda>r. pl_task (run_payload r)"] show False using fresh slotsD(1) [OF b(5)] by simp
  qed
  have st: "(start now mkLog task p w)\<lparr>lw_pending := ps\<rparr> =
      ?w (snd (runLoginTask_begin now mkLog (lw_enterprises w) task p (lw_db w))) (fst (runLoginTask_begin now mkLog (lw_enterprises w) task p (lw_db w)))"
    using fresh by (simp add: start_def add_once_def split_beta)
  have moved: "base_inv U (?w (lw_db w) (Rejected m))" for m using base_move [OF inv free, of m] by simp
  obtain t where t: "t \<in> set (login_tasks (lw_db w))" "lt_enterprise t = pl_enterprise p" "lt_id t = pl_task p" "task = mapRow t"
    using g task_row_Some [OF login_inv_parts(1) [OF b(1)]] by (auto simp: getTask_def)
  have at: "lt_attempt t = Some (rq_attempt p)" "lt_status t = TaskPending" using run t(4) by (simp_all add: isRunnable_def)
  show ?thesis
  proof (cases "mkLog p")
    case (Inl e)
    then show ?thesis unfolding st using moved by (simp add: runLoginTask_begin_def)
  next
    case (Inr path)
    obtain d' where d': "markRunning now (pl_enterprise p) (pl_task p) path (Some (rq_attempt p)) (lw_db w) = (getTask (pl_enterprise p) (pl_task p) d', d')"
      "getTask (pl_enterprise p) (pl_task p) d' \<noteq> None" "login_inv d'" "progressed (lw_db w) d'"
      "\<And>t'. t' \<in> set (login_tasks d') \<Longrightarrow> lt_id t' \<noteq> pl_task p \<Longrightarrow> t' \<in> set (login_tasks (lw_db w))"
      "\<And>t'. t' \<in> set (login_tasks d') \<Longrightarrow> lt_id t' = pl_task p \<Longrightarrow> lt_status t' = TaskRunning"
      "reached 1 d' (pl_task p) (rq_attempt p)"
      using markRunning_runnable [OF b(1) t(1-3) at] by metis
    have att: "lt_attempt t' = Some (rq_attempt p)" if t': "t' \<in> set (login_tasks d')" "lt_id t' = pl_task p" for t'
    proof -
      obtain u where u: "u \<in> set (login_tasks (lw_db w))" "task_progress u t'" using progressed_task_back [OF d'(4) t'(1)] by blast
      then have "u = t" using task_unique [OF login_inv_parts(1) [OF b(1)] u(1) t(1)] t(3) t'(2) by (simp add: task_progress_def)
      then show ?thesis using u(2) at(1) by (simp add: task_progress_def)
    qed
    have "base_inv U ((?w (lw_db w) (Rejected m))\<lparr>lw_db := d'\<rparr>)" for m
      by (rule base_mark_running [OF moved, where i = "pl_task p" and r = "?run (Rejected m)"]) (use d' att in simp_all)
    then have running: "base_inv U (?w d' (Rejected m))" for m by simp
    show ?thesis
    proof (cases "run_checks (lw_enterprises w) task p")
      case (Inl e)
      let ?m = "redactSecrets (error_message e) [rq_password p]"
      have "calm d' (snd (markFailed now (pl_enterprise p) (pl_task p) ?m (Some (rq_attempt p)) (Some (failure_code False e)) d'))"
        by (rule calm_markFailed [OF d'(3)])
      then have "base_inv U (?w (snd (markFailed now (pl_enterprise p) (pl_task p) ?m (Some (rq_attempt p)) (Some (failure_code False e)) d')) (Rejected ?m))"
        using base_calm [OF running] by simp
      then show ?thesis unfolding st using d'(1,2) Inr Inl t
        by (simp add: runLoginTask_begin_def run_catch_def Let_def) auto
    next
      case (Inr e)
      have "base_inv U ((?w d' (Rejected []))\<lparr>lw_runs := update_where (\<lambda>q. q = ?run (Rejected [])) (\<lambda>q. q\<lparr>run_phase := DeviceFlow\<rparr>)
          (lw_runs (?w d' (Rejected [])))\<rparr>)"
        by (rule base_phase [OF running]) (use d'(7) in \<open>simp add: run_ok_def\<close>)
      moreover have "update_where (\<lambda>q. q = ?run (Rejected [])) (\<lambda>q. q\<lparr>run_phase := DeviceFlow\<rparr>) (lw_runs w @ [?run (Rejected [])]) =
          lw_runs w @ [?run DeviceFlow]"
        using update_where_last [OF new [of "Rejected []"]] by simp
      ultimately have "base_inv U (?w d' DeviceFlow)" by (simp add: world_swap)
      then show ?thesis unfolding st using d'(1,2) \<open>mkLog p = Inr path\<close> Inr t by (simp add: runLoginTask_begin_def) auto
    qed
  qed
qed

lemma start_frame [simp]:
  "lw_settings (start now mkLog task p w) = lw_settings w" "lw_accepting (start now mkLog task p w) = lw_accepting w"
  "getConcurrency (start now mkLog task p w) = getConcurrency w"
  by (simp_all add: start_def split_beta getConcurrency_def)

lemma base_drain_loop:
  assumes "base_inv U (w\<lparr>lw_pending := ps\<rparr>)"
  shows "base_inv U (drain_loop now mkLog ps w) \<and> lw_accepting (drain_loop now mkLog ps w) = lw_accepting w \<and>
    (lw_pending (drain_loop now mkLog ps w) = [] \<or>
     getConcurrency (drain_loop now mkLog ps w) \<le> int (length (lw_active (drain_loop now mkLog ps w))))"
  using assms
proof (induction now mkLog ps w rule: drain_loop.induct)
  case (2 now mkLog p ps w)
  show ?case
  proof (cases "int (length (lw_active w)) \<ge> getConcurrency w")
    case True
    then show ?thesis using 2(3) by (simp add: getConcurrency_def)
  next
    case False
    show ?thesis
    proof (cases "getTask (pl_enterprise p) (pl_task p) (lw_db w)")
      case None
      then have "base_inv U (w\<lparr>lw_pending := ps\<rparr>)" using unrunnable_drop [OF 2(3)] by simp
      then show ?thesis using 2(1) [OF False None] False None by simp
    next
      case (Some task)
      let ?w = "if isRunnable w task p then start now mkLog task p w else w"
      have "base_inv U (?w\<lparr>lw_pending := ps\<rparr>)"
        using base_start [OF 2(3) _ Some] unrunnable_drop [OF 2(3)] Some False by simp
      then have "base_inv U (drain_loop now mkLog ps ?w) \<and> lw_accepting (drain_loop now mkLog ps ?w) = lw_accepting ?w \<and>
        (lw_pending (drain_loop now mkLog ps ?w) = [] \<or>
         getConcurrency (drain_loop now mkLog ps ?w) \<le> int (length (lw_active (drain_loop now mkLog ps ?w))))"
        by (rule 2(2) [OF False Some])
      moreover have "drain_loop now mkLog (p # ps) w = drain_loop now mkLog ps ?w" using False Some by simp
      moreover have "lw_accepting ?w = lw_accepting w" by simp
      ultimately show ?thesis by (simp only:)
    qed
  qed
qed simp

lemma service_drain:
  assumes "base_inv U w"
  shows "service_inv U (drain now mkLog w)"
proof (cases "lw_accepting w")
  case True
  have "base_inv U (w\<lparr>lw_pending := lw_pending w\<rparr>)" using assms by simp
  from base_drain_loop [OF this] show ?thesis using True by (simp add: service_inv_def conserving_def drain_def)
qed (simp add: service_inv_def conserving_def drain_def assms)

section \<open>Submitting a task\<close>

lemma getTask_Some:
  assumes "keys_inv d" "getTask x i d = Some task"
  obtains t where "t \<in> set (login_tasks d)" "lt_enterprise t = x" "lt_id t = i" "task = mapRow t"
  using assms task_row_Some by (auto simp: getTask_def)

lemma mapAttempt_dto [simp]: "dto_task_id (mapAttempt task row) = lt_id task"
  by (simp add: mapAttempt_def LoginTaskRecord.extend_def LoginAttemptDto.fields_def Let_def)

lemma getTaskByAttempt_Some:
  assumes k: "keys_inv d" and g: "getTaskByAttempt x aid d = Some task"
  shows "\<exists>t \<in> set (login_tasks d). lt_id t = lt_id task \<and> lt_enterprise t = x"
proof -
  have "attemptOwner aid d \<noteq> None" using g unfolding getTaskByAttempt_def by (simp split: option.split_asm)
  then obtain i y where iy: "attemptOwner aid d = Some (i, y)" by auto
  then have "y = x" using g unfolding getTaskByAttempt_def by (simp split: if_split_asm)
  then obtain e where e: "List.find (\<lambda>e. lt_id e = aid) (listAttempts x i d) = Some e"
    "task = (LoginTaskRecord.truncate e)\<lparr>lt_id := dto_task_id e, lt_enterprise := x\<rparr>"
    using g iy unfolding getTaskByAttempt_def by (cases "List.find (\<lambda>e. lt_id e = aid) (listAttempts x i d)") simp_all
  have mem: "e \<in> set (listAttempts x i d)" using find_Some_mem [OF e(1)] by simp
  then obtain t0 where t0: "getTask x i d = Some t0" by (cases "getTask x i d") (simp_all add: listAttempts_def)
  then have "dto_task_id e = lt_id t0" using mem by (auto simp: listAttempts_def)
  moreover obtain t where "t \<in> set (login_tasks d)" "lt_enterprise t = x" "lt_id t = i" "t0 = mapRow t"
    using getTask_Some [OF k t0] by blast
  ultimately show ?thesis using e(2) by auto
qed

lemma owner_of:
  assumes "keys_inv d" "t \<in> set (login_tasks d)"
  shows "same_owner d (lt_id t) (lt_enterprise t)"
  unfolding same_owner_def
proof (intro ballI impI)
  fix u assume "u \<in> set (login_tasks d)" "lt_id u = lt_id t"
  then have "u = t" using task_unique [OF assms(1) _ assms(2)] by blast
  then show "lt_enterprise u = lt_enterprise t" by simp
qed

lemma remembers_row:
  assumes "keys_inv d" "t \<in> set (login_tasks d)"
  shows "remembers d (mapRow t)"
  unfolding remembers_def
proof (intro ballI impI)
  fix u assume "u \<in> set (login_tasks d)" "lt_id u = lt_id (mapRow t)"
  then have "u = t" using task_unique [OF assms(1) _ assms(2)] by simp
  then show "lt_enterprise u = lt_enterprise (mapRow t) \<and> lt_identity u = lt_identity (mapRow t)" by simp
qed

lemma createTask_cases:
  assumes inv: "login_inv d" and c: "createTask now fresh x inp d = Inr (r, d')"
  obtains task where "d' = d" "r = Some task" "\<exists>t \<in> set (login_tasks d). lt_id t = lt_id task \<and> lt_enterprise t = x"
  | "d' = d\<lparr>login_tasks := login_tasks d @ [new_task now x fresh inp],
        login_attempts := login_attempts d @ [new_attempt now fresh (ct_attempt inp) 1 ''queued'']\<rparr>"
      "r = Some (mapRow (new_task now x fresh inp))" "\<not> hasActiveTask (ct_identity inp) d" "attemptOwner (ct_attempt inp) d = None"
proof (cases "attemptOwner (ct_attempt inp) d")
  case (Some owner)
  then obtain task where task: "existingTaskForAttempt x owner inp d = Inr task" "r = Some task" "d' = d"
    using c by (cases "existingTaskForAttempt x owner inp d") (simp_all add: createTask_def)
  have "getTaskByAttempt x (ct_attempt inp) d = Some task"
    using task(1) by (auto simp: existingTaskForAttempt_def split: option.splits if_splits)
  then show ?thesis using that(1) task getTaskByAttempt_Some [OF login_inv_parts(1) [OF inv]] by blast
next
  case None
  have noact: "\<not> hasActiveTask (ct_identity inp) d" using c None by (auto simp: createTask_def split: if_splits)
  then have ins: "insertTask now x fresh inp d = Inr d'" "r = getTask x fresh d'" using c None
    by (cases "insertTask now x fresh inp d", simp_all add: createTask_def)+
  let ?t = "new_task now x fresh inp"
  have d': "d' = d\<lparr>login_tasks := login_tasks d @ [?t], login_attempts := login_attempts d @ [new_attempt now fresh (ct_attempt inp) 1 ''queued'']\<rparr>"
    and fr: "\<forall>t \<in> set (login_tasks d). lt_id t \<noteq> fresh"
    using ins(1) by (auto simp: insertTask_def insert_attempt_Inr exists_row_iff split: if_splits)
  have "task_row x fresh d' = Some ?t"
    unfolding d' task_row_def using fr by (auto simp: find_append new_task_def find_None_mem split: option.split dest: find_Some_mem)
  then show ?thesis using that(2) d' ins(2) noact None by (simp add: getTask_def)
qed

lemma base_push:
  assumes inv: "base_inv U w" and busy: "\<not> isBusy w (pl_task p)" and own: "same_owner (lw_db w) (pl_task p) (pl_enterprise p)"
    and iss: "pl_task p \<in> U" "CHR '':'' \<notin> set (pl_task p)" "rq_attempt p \<in> U"
  shows "base_inv U (w\<lparr>lw_pending := lw_pending w @ [p]\<rparr>)" (is "base_inv U ?w")
proof -
  note b = base_parts [OF inv]
  have "pl_task p \<notin> set (lw_active w)" "pl_task p \<notin> pl_task ` set (lw_pending w)"
    using busy by (auto simp: isBusy_def list_ex_iff)
  then have "slots_ok ?w" using slotsD [OF b(5)] by (intro slotsI) auto
  moreover have "issued_ok U ?w" using b(3) iss by (auto simp: issued_ok_def)
  moreover have "memory_ok ?w" using b(4) own by (auto simp: memory_ok_alt)
  moreover have "work_ok ?w" using b(6) by (auto simp: work_ok_def)
  ultimately show ?thesis using b by (simp add: base_inv_def cancelled_ok_def settings_ok_def)
qed

lemma issued_mono: "issued_ok U w \<Longrightarrow> U \<subseteq> V \<Longrightarrow> issued_ok V w"
  unfolding issued_ok_def by (auto simp: subset_iff)

lemma base_mono: "base_inv U w \<Longrightarrow> U \<subseteq> V \<Longrightarrow> base_inv V w"
  using issued_mono by (auto simp: base_inv_def)

lemma base_create:
  assumes inv: "base_inv U w" and inv': "login_inv d'" and fresh: "fresh \<notin> U" "CHR '':'' \<notin> set fresh"
    and d': "d' = (lw_db w)\<lparr>login_tasks := login_tasks (lw_db w) @ [t], login_attempts := login_attempts (lw_db w) @ [a]\<rparr>"
    and t: "lt_id t = fresh" "lt_enterprise t = pl_enterprise p" "payload_for p t" "lt_status t = TaskPending"
    and a: "la_task a = fresh" "la_id a = rq_attempt p"
  shows "base_inv (U \<union> {fresh, rq_attempt p}) (w\<lparr>lw_db := d', lw_pending := lw_pending w @ [p]\<rparr>)" (is "base_inv ?U ?w")
proof -
  note b = base_parts [OF inv]
  have ids: "lt_id u \<noteq> fresh" if "u \<in> set (login_tasks (lw_db w))" for u using b(3) fresh that by (auto simp: issued_ok_def)
  have pt: "pl_task p = fresh" using t by (simp add: payload_for_def)
  have reach: "reached n d' i aid = reached n (lw_db w) i aid" if "i \<noteq> fresh" for n i aid using that a by (auto simp: reached_def d')
  have run_ids: "pl_task q \<in> U" if "q \<in> set (lw_pending w) \<union> run_payload ` set (lw_runs w)" for q using b(3) that by (auto simp: issued_ok_def)
  have nl: "no_legacy d'" using b(2) t by (auto simp: no_legacy_def d' payload_for_def)
  have issued: "issued_ok ?U ?w"
  proof -
    have "issued_ok ?U w" by (rule issued_mono [OF b(3)]) blast
    then show ?thesis using t(1) a(2) fresh(2) pt unfolding issued_ok_def d' by simp
  qed
  have own: "same_owner d' i x" if "same_owner (lw_db w) i x" "i \<noteq> fresh" for i x using that t(1) by (auto simp: same_owner_def d')
  have rem: "remembers d' u" if "remembers (lw_db w) u" "lt_id u \<noteq> fresh" for u using that t(1) by (auto simp: remembers_def d')
  have mem_ids: "lt_id u \<noteq> fresh"
    if "u \<in> rc_task ` set (lw_checks w) \<union> rw_task ` set (lw_retries w) \<union> rw_reserved ` set (lw_retries w) \<union> cn_task ` set (lw_cancellations w)" for u
    using b(3) fresh(1) that unfolding issued_ok_def by blast
  have "same_owner d' (pl_task p) (pl_enterprise p)" using ids t by (auto simp: same_owner_def d' pt)
  moreover have "same_owner d' (pl_task q) (pl_enterprise q)" if "q \<in> set (lw_pending w) \<union> run_payload ` set (lw_runs w)" for q
    by (rule own [OF memory_owner [OF b(4) that]]) (use run_ids [OF that] fresh(1) in auto)
  moreover have "remembers d' u"
    if "u \<in> rc_task ` set (lw_checks w) \<union> rw_task ` set (lw_retries w) \<union> rw_reserved ` set (lw_retries w) \<union> cn_task ` set (lw_cancellations w)" for u
    by (rule rem [OF memory_task [OF b(4) that] mem_ids [OF that]])
  ultimately have memory: "memory_ok ?w" using b(4) unfolding memory_ok_alt by simp
  have active: "set (lw_active w) \<subseteq> U" using run_ids slotsD(1) [OF b(5)] by auto
  have "pl_task p \<notin> pl_task ` set (lw_pending w)" using run_ids fresh(1) pt by auto
  then have slots: "slots_ok ?w" using slotsD [OF b(5)] active fresh(1) pt by (intro slotsI) auto
  have work: "work_ok ?w"
    using b(6) t(3,4) unfolding work_ok_def by (auto simp: d')
  have canc: "cancelled_ok ?w" unfolding cancelled_ok_def
  proof (intro allI impI)
    fix i aid assume i: "CHR '':'' \<notin> set i" "cancel_key i aid \<in> set (lw_cancelled ?w)"
    then have "i \<in> U" "reached 2 (lw_db w) i aid" using b(3,7) by (auto simp: issued_ok_def cancelled_ok_def)
    then have "i \<noteq> fresh" using fresh(1) by blast
    then show "reached 2 (lw_db ?w) i aid" using reach [of i 2 aid] \<open>reached 2 (lw_db w) i aid\<close> by simp
  qed
  have "run_ok d' r" if "r \<in> set (lw_runs w)" for r
    using b(9) [OF that] reach [of "pl_task (run_payload r)"] run_ids [of "run_payload r"] that fresh(1) by (auto simp: run_ok_def Let_def)
  then show ?thesis using b(8) inv' nl issued memory slots work canc by (simp add: base_inv_def settings_ok_def)
qed

lemma payload_of_simps [simp]:
  "pl_task (payload_of request x i) = i" "pl_enterprise (payload_of request x i) = x" "rq_attempt (payload_of request x i) = rq_attempt request"
  by (simp_all add: payload_of_def LoginTaskRequest.extend_def RuntimeTaskPayload.fields_def)

lemma create_input_simps [simp]: "ct_attempt (create_input request) = rq_attempt request"
  by (simp add: create_input_def)

lemma conserving_same:
  "conserving w \<Longrightarrow> lw_accepting w' = lw_accepting w \<Longrightarrow> lw_pending w = [] \<longrightarrow> lw_pending w' = [] \<Longrightarrow> lw_active w' = lw_active w \<Longrightarrow>
     lw_settings w' = lw_settings w \<Longrightarrow> conserving w'"
  by (auto simp: conserving_def getConcurrency_def)

lemma service_enqueue:
  assumes inv: "service_inv U w" and e: "enqueue now mkLog fresh x request w = Inr (task, w')"
    and fresh: "fresh \<notin> U" "CHR '':'' \<notin> set fresh" and att: "rq_attempt request \<noteq> []"
  shows "service_inv (U \<union> {fresh, rq_attempt request}) w'"
proof -
  let ?U = "U \<union> {fresh, rq_attempt request}"
  have base: "base_inv U w" and cons: "conserving w" using inv by (simp_all add: service_inv_def)
  note b = base_parts [OF base]
  obtain d where c: "createTask now fresh x (create_input request) (lw_db w) = Inr (Some task, d)"
    and w': "w' = (if isBusy (w\<lparr>lw_db := d\<rparr>) (lt_id task) \<or> lt_status task \<noteq> TaskPending \<or> lt_stage task \<noteq> Some ''queued'' then w\<lparr>lw_db := d\<rparr>
      else drain now mkLog (w\<lparr>lw_db := d, lw_pending := lw_pending w @ [payload_of request x (lt_id task)]\<rparr>))"
    using e by (auto simp: enqueue_def Let_def split: sum.splits option.splits if_splits)
  show ?thesis
  proof (cases rule: createTask_cases [OF b(1) c])
    case (1 task')
    then have same: "d = lw_db w" "task' = task" by simp_all
    obtain t where t: "t \<in> set (login_tasks (lw_db w))" "lt_id t = lt_id task" "lt_enterprise t = x" using 1(3) same by blast
    have base': "base_inv ?U w" by (rule base_mono [OF base]) blast
    show ?thesis
    proof (cases "isBusy w (lt_id task) \<or> lt_status task \<noteq> TaskPending \<or> lt_stage task \<noteq> Some ''queued''")
      case True
      then show ?thesis using w' same base' cons by (simp add: service_inv_def isBusy_def)
    next
      case False
      have "same_owner (lw_db w) (lt_id task) x"
        using owner_of [OF login_inv_parts(1) [OF b(1)] t(1)] t(2,3) by simp
      moreover have "lt_id task \<in> ?U" "CHR '':'' \<notin> set (lt_id task)" using b(3) t(1,2) by (auto simp: issued_ok_def)
      ultimately have "base_inv ?U (w\<lparr>lw_pending := lw_pending w @ [payload_of request x (lt_id task)]\<rparr>)"
        using False by (intro base_push [OF base']) simp_all
      then show ?thesis using w' False same service_drain by (simp add: isBusy_def)
    qed
  next
    case 2
    let ?t = "new_task now x fresh (create_input request)" and ?p = "payload_of request x fresh"
    have task: "task = mapRow ?t" "lt_id task = fresh" "lt_status task = TaskPending" "lt_stage task = Some ''queued''"
      using 2(2) by (simp_all add: new_task_def)
    have "login_inv d" using createTask_inv [OF b(1) c] att by simp
    then have base': "base_inv (U \<union> {fresh, rq_attempt ?p}) (w\<lparr>lw_db := d, lw_pending := lw_pending w @ [?p]\<rparr>)"
      by (rule base_create [OF base _ fresh 2(1)]) (simp_all add: new_task_def payload_for_def)
    have "\<not> isBusy w fresh"
    proof -
      have "pl_task p \<noteq> fresh" if "p \<in> set (lw_pending w) \<union> run_payload ` set (lw_runs w)" for p
        using b(3) fresh(1) that by (auto simp: issued_ok_def)
      then show ?thesis using slotsD(1) [OF b(5)] by (auto simp: isBusy_def list_ex_iff)
    qed
    then show ?thesis using w' task service_drain [OF base'] by (simp add: isBusy_def)
  qed
qed

section \<open>Cancelling\<close>

lemma requestCancellation_cancelling:
  assumes inv: "login_inv d" and r: "requestCancellation x i d = (Some task, d')" and st: "lt_status task = TaskCancelling" "lt_attempt task = Some aid"
  shows "reached 2 d' i aid" and "\<exists>t \<in> set (login_tasks d'). task = mapRow t \<and> lt_id t = i \<and> lt_enterprise t = x"
proof -
  have inv': "login_inv d'" using requestCancellation.inv [OF inv, of x i] r by simp
  have "getTask x i d' = Some task" using r by (auto simp: requestCancellation_def Let_def split: option.splits if_splits)
  then obtain t where t: "t \<in> set (login_tasks d')" "lt_enterprise t = x" "lt_id t = i" "task = mapRow t"
    using getTask_Some [OF login_inv_parts(1) [OF inv']] by blast
  then show "\<exists>t \<in> set (login_tasks d'). task = mapRow t \<and> lt_id t = i \<and> lt_enterprise t = x" by blast
  have "la_status a = TaskCancelling" if "a \<in> set (login_attempts d')" "la_id a = aid" for a
    using current_is_own(2) [OF inv' t(1) _ that] st t(4) by simp
  then show "reached 2 d' i aid" by (simp add: reached_def)
qed

lemma remove_first_subset: "set (remove_first P xs) \<subseteq> set xs"
  by (induction xs) auto

lemma remove_first_keeps: "x \<in> set xs \<Longrightarrow> \<not> P x \<Longrightarrow> x \<in> set (remove_first P xs)"
  by (induction xs) auto

lemma remove_first_distinct: "distinct (map f xs) \<Longrightarrow> distinct (map f (remove_first P xs))"
  using remove_first_subset by (induction xs) fastforce+

lemma base_cancel_marks:
  assumes inv: "base_inv U w" and r: "reached 2 (lw_db w) i aid" and iss: "i \<in> U" "aid \<in> U" "CHR '':'' \<notin> set i"
    and st: "\<And>t. t \<in> set (login_tasks (lw_db w)) \<Longrightarrow> lt_id t = i \<Longrightarrow> lt_status t \<noteq> TaskPending"
    and run: "\<And>q. q \<in> set (lw_runs w) \<Longrightarrow> pl_task (run_payload q) = i \<Longrightarrow> reached 2 (lw_db w) i (rq_attempt (run_payload q))"
  shows "base_inv U (w\<lparr>lw_cancelled := add_once (cancel_key i aid) (lw_cancelled w), lw_pending := remove_first (\<lambda>p. pl_task p = i) (lw_pending w),
    lw_runs := update_where (\<lambda>r. pl_task (run_payload r) = i) (\<lambda>r. r\<lparr>run_aborted := True\<rparr>) (lw_runs w)\<rparr>)" (is "base_inv U ?w")
proof -
  note b = base_parts [OF inv]
  have "map run_payload (lw_runs ?w) = map run_payload (lw_runs w)" by (simp add: map_update_where)
  then have pay: "run_payload ` set (lw_runs ?w) = run_payload ` set (lw_runs w)" by (rule set_map_eq)
  have ids: "map (\<lambda>r. pl_task (run_payload r)) (lw_runs ?w) = map (\<lambda>r. pl_task (run_payload r)) (lw_runs w)" by (simp add: map_update_where)
  have sub: "set (lw_pending ?w) \<subseteq> set (lw_pending w)" by (simp add: remove_first_subset)
  have "slots_ok ?w" using slotsD [OF b(5)] ids sub by (intro slotsI) (auto simp: remove_first_distinct)
  moreover have "issued_ok U ?w"
    using b(3) sub pay iss cancel_key_inject [of _ i] unfolding issued_ok_def by (auto simp: add_once_def)
  moreover have "memory_ok ?w" using b(4) sub pay unfolding memory_ok_alt by auto
  moreover have "cancelled_ok ?w" using b(7) r iss(3) cancel_key_inject [of _ i] unfolding cancelled_ok_def by (auto simp: add_once_def)
  moreover have "run_ok (lw_db ?w) q" if "q \<in> set (lw_runs ?w)" for q
  proof -
    have "q \<in> set (update_where (\<lambda>r. pl_task (run_payload r) = i) (\<lambda>r. r\<lparr>run_aborted := True\<rparr>) (lw_runs w))" using that by simp
    then obtain q0 where q0: "q0 \<in> set (lw_runs w)" "q = (if pl_task (run_payload q0) = i then q0\<lparr>run_aborted := True\<rparr> else q0)"
      by (rule update_whereE)
    then show ?thesis using b(9) [OF q0(1)] run [OF q0(1)] by (auto simp: run_ok_def Let_def)
  qed
  moreover have "work_ok ?w" unfolding work_ok_def
  proof (intro ballI conjI impI)
    fix t assume t: "t \<in> set (login_tasks (lw_db ?w))"
    then have t: "t \<in> set (login_tasks (lw_db w))" by simp
    note okt = bspec [OF b(6) [unfolded work_ok_def] t]
    show "\<exists>r \<in> set (lw_runs ?w). payload_for (run_payload r) t" if "lt_status t = TaskRunning"
      using okt that image_eq_bex [OF pay, of "\<lambda>p. payload_for p t"] by simp
    show "\<exists>p \<in> set (lw_pending ?w) \<union> run_payload ` set (lw_runs ?w). payload_for p t" if q: "lt_status t = TaskPending" "lt_stage t = Some ''queued''"
    proof -
      obtain p where p: "p \<in> set (lw_pending w) \<union> run_payload ` set (lw_runs w)" "payload_for p t" using okt q by blast
      have "pl_task p \<noteq> i" using st [OF t] q(1) p(2) by (auto simp: payload_for_def)
      then have "p \<in> set (lw_pending ?w) \<union> run_payload ` set (lw_runs w)" using p(1) remove_first_keeps [of p "lw_pending w"] by auto
      then show ?thesis using p(2) pay by auto
    qed
  qed
  ultimately show ?thesis using b(1,2,8) by (simp add: base_inv_def settings_ok_def)
qed

lemma other_attempts_finished:
  assumes inv: "login_inv d" and t: "t \<in> set (login_tasks d)" "lt_attempt t = Some aid" and "b \<noteq> aid"
  shows "reached 3 d (lt_id t) b"
  unfolding reached_def
proof (intro ballI impI)
  fix a assume a: "a \<in> set (login_attempts d)" "la_task a = lt_id t" "la_id a = b"
  have "\<not> isActiveStatus (la_status a)"
  proof
    assume "isActiveStatus (la_status a)"
    then have "lt_attempt t = Some (la_id a) \<or> lt_attempt t = None"
      using history_okD [OF coherent_history [OF login_inv_parts(3) [OF inv] a(1)] _ t(1)] a(2) by auto
    then show False using t(2) a(3) \<open>b \<noteq> aid\<close> by simp
  qed
  then show "3 \<le> status_rank (la_status a)" by (simp add: active_rank)
qed

lemma base_cancellations:
  assumes inv: "base_inv U w" and ok: "remembers (lw_db w) t" "lt_id t \<in> U" and cs: "cn_task ` set cs \<subseteq> insert t (cn_task ` set (lw_cancellations w))"
  shows "base_inv U (w\<lparr>lw_cancellations := cs\<rparr>)"
proof -
  note b = base_parts [OF inv]
  have "memory_ok (w\<lparr>lw_cancellations := cs\<rparr>)" using b(4) ok(1) cs unfolding memory_ok_alt by auto
  moreover have "issued_ok U (w\<lparr>lw_cancellations := cs\<rparr>)" using b(3) ok(2) cs unfolding issued_ok_def by auto
  ultimately show ?thesis using inv by (simp add: base_inv_def)
qed

lemma service_cancel:
  assumes inv: "service_inv U w"
  shows "service_inv U (snd (cancel x i w))"
proof -
  have base: "base_inv U w" and cons: "conserving w" using inv by (simp_all add: service_inv_def)
  obtain r d where rd: "requestCancellation x i (lw_db w) = (r, d)" by (cases "requestCancellation x i (lw_db w)")
  have calm: "calm (lw_db w) d" using calm_requestCancellation [OF base_parts(1) [OF base], of x i] rd by simp
  let ?w1 = "w\<lparr>lw_db := d\<rparr>"
  have base1: "base_inv U ?w1" by (rule base_calm [OF base calm])
  have plain: "service_inv U ?w1" using base1 cons conserving_same [of w ?w1] by (simp add: service_inv_def)
  show ?thesis
  proof (cases "\<exists>task. r = Some task \<and> lt_status task = TaskCancelling \<and> truthy (lt_attempt task)")
    case False
    then have "snd (cancel x i w) = ?w1" using rd by (cases r) (auto simp: cancel_def)
    then show ?thesis using plain by simp
  next
    case True
    then obtain task aid where task: "r = Some task" "lt_status task = TaskCancelling" "lt_attempt task = Some aid" "aid \<noteq> []" by (auto simp: truthy_def)
    have inv_d: "login_inv d" by (rule calm_inv [OF calm])
    have rd': "requestCancellation x i (lw_db w) = (Some task, d)" using rd task(1) by simp
    note rc = requestCancellation_cancelling [OF base_parts(1) [OF base] rd' task(2,3)]
    obtain t where t: "t \<in> set (login_tasks d)" "task = mapRow t" "lt_id t = i" "lt_enterprise t = x" using rc(2) by blast
    have at: "lt_attempt t = Some aid" "lt_status t = TaskCancelling" using t(2) task by simp_all
    have iss: "i \<in> U" "CHR '':'' \<notin> set i" using base_parts(3) [OF base1] t(1,3) by (auto simp: issued_ok_def)
    obtain a where "a \<in> set (login_attempts d)" "la_id a = aid" using current_attemptE [OF login_inv_parts(3) [OF inv_d] t(1) at(1)] by metis
    then have "aid \<in> U" using base_parts(3) [OF base1] by (auto simp: issued_ok_def)
    let ?w2 = "?w1\<lparr>lw_cancelled := add_once (cancel_key i aid) (lw_cancelled ?w1), lw_pending := remove_first (\<lambda>p. pl_task p = i) (lw_pending ?w1),
      lw_runs := update_where (\<lambda>r. pl_task (run_payload r) = i) (\<lambda>r. r\<lparr>run_aborted := True\<rparr>) (lw_runs ?w1)\<rparr>"
    have base2: "base_inv U ?w2"
    proof (rule base_cancel_marks [OF base1 _ iss(1) \<open>aid \<in> U\<close> iss(2)])
      show "reached 2 (lw_db ?w1) i aid" using rc(1) by simp
      show "lt_status u \<noteq> TaskPending" if "u \<in> set (login_tasks (lw_db ?w1))" "lt_id u = i" for u
        using task_unique [OF login_inv_parts(1) [OF inv_d] _ t(1), of u] that t(3) at(2) by auto
      show "reached 2 (lw_db ?w1) i (rq_attempt (run_payload q))" for q
        using other_attempts_finished [OF inv_d t(1) at(1), of "rq_attempt (run_payload q)"] rc(1) reached_le t(3)
        by (cases "rq_attempt (run_payload q) = aid") (auto intro: reached_le)
    qed
    let ?c = "\<lparr>cn_task = task, cn_waits = active_run w i, cn_reporting = False\<rparr>"
    let ?cs = "if list_ex (\<lambda>c. lt_id (cn_task c) = i) (lw_cancellations w) then lw_cancellations w else lw_cancellations w @ [?c]"
    have "base_inv U (?w2\<lparr>lw_cancellations := ?cs\<rparr>)"
    proof (rule base_cancellations [OF base2, where t = task])
      show "remembers (lw_db ?w2) task" using remembers_row [OF login_inv_parts(1) [OF inv_d] t(1)] t(2) by simp
      show "lt_id task \<in> U" using t(2,3) iss(1) by simp
    qed auto
    moreover have "snd (cancel x i w) = ?w2\<lparr>lw_cancellations := ?cs\<rparr>"
      using rd task by (simp add: cancel_def truthy_def)
    moreover have "conserving (?w2\<lparr>lw_cancellations := ?cs\<rparr>)" by (rule conserving_same [OF cons]) simp_all
    ultimately show ?thesis by (simp add: service_inv_def)
  qed
qed

lemma service_end_cancellation:
  assumes inv: "service_inv U w"
  shows "service_inv U (end_cancellation c w)"
proof -
  have base: "base_inv U w" and cons: "conserving w" using inv by (simp_all add: service_inv_def)
  note b = base_parts [OF base]
  let ?w = "end_cancellation c w"
  have "issued_ok U ?w" using b(3) unfolding issued_ok_def end_cancellation_def by auto
  moreover have "memory_ok ?w" using b(4) unfolding memory_ok_alt end_cancellation_def by auto
  moreover have "cancelled_ok ?w" using b(7) unfolding cancelled_ok_def end_cancellation_def by auto
  ultimately have "base_inv U ?w" using base by (simp add: base_inv_def end_cancellation_def)
  moreover have "conserving ?w" by (rule conserving_same [OF cons]) (simp_all add: end_cancellation_def)
  ultimately show ?thesis by (simp add: service_inv_def)
qed

lemma service_calm:
  assumes "service_inv U w" "calm (lw_db w) d"
  shows "service_inv U (w\<lparr>lw_db := d\<rparr>)"
  using base_calm [of U w d] conserving_same [of w "w\<lparr>lw_db := d\<rparr>"] assms by (simp add: service_inv_def)

lemma service_finishCancellation:
  assumes inv: "service_inv U w" and c: "c \<in> set (lw_cancellations w)"
  shows "service_inv U (finishCancellation now c w)"
proof -
  have base: "base_inv U w" and cons: "conserving w" using inv by (simp_all add: service_inv_def)
  note b = base_parts [OF base]
  let ?x = "lt_enterprise (cn_task c)" and ?i = "lt_id (cn_task c)"
  let ?d = "snd (markCancelled now ?x ?i (lt_attempt (cn_task c)) (lw_db w))"
  let ?cs = "update_where (\<lambda>c'. lt_id (cn_task c') = ?i) (\<lambda>c'. c'\<lparr>cn_reporting := True\<rparr>) (lw_cancellations w)"
  have "calm (lw_db w) ?d" by (rule calm_markCancelled [OF b(1)])
  then have base1: "base_inv U (w\<lparr>lw_db := ?d\<rparr>)" by (rule base_calm [OF base])
  have "cn_task ` set ?cs = cn_task ` set (lw_cancellations w)" by (rule set_map_eq) (simp add: map_update_where)
  moreover have "remembers (lw_db (w\<lparr>lw_db := ?d\<rparr>)) (cn_task c)" "lt_id (cn_task c) \<in> U"
    using memory_task [OF base_parts(4) [OF base1]] b(3) c by (auto simp: issued_ok_def)
  ultimately have "base_inv U (w\<lparr>lw_db := ?d, lw_cancellations := ?cs\<rparr>)" by (intro base_cancellations [OF base1]) auto
  moreover have "conserving (w\<lparr>lw_db := ?d, lw_cancellations := ?cs\<rparr>)" by (rule conserving_same [OF cons]) simp_all
  moreover have "finishCancellation now c w = end_cancellation c w \<or> finishCancellation now c w = w\<lparr>lw_db := ?d, lw_cancellations := ?cs\<rparr>"
    by (simp add: finishCancellation_def Let_def split: option.split)
  ultimately show ?thesis using service_end_cancellation [OF inv] by (auto simp: service_inv_def)
qed

section \<open>Runs\<close>

lemma service_set_phase:
  assumes inv: "service_inv U w" and calm: "calm (lw_db w) (snd pd)" and ok: "run_ok (snd pd) (r\<lparr>run_phase := fst pd\<rparr>)"
  shows "service_inv U (set_phase r pd w)"
proof -
  have base: "base_inv U w" and cons: "conserving w" using inv by (simp_all add: service_inv_def)
  have "base_inv U (w\<lparr>lw_db := snd pd\<rparr>)" by (rule base_calm [OF base calm])
  from base_phase [OF this, where r = r and ph = "fst pd"] have "base_inv U (set_phase r pd w)" using ok by (simp add: set_phase_def)
  moreover have "conserving (set_phase r pd w)" by (rule conserving_same [OF cons]) (simp_all add: set_phase_def)
  ultimately show ?thesis by (simp add: service_inv_def)
qed

lemma run_catch_ok:
  assumes inv: "login_inv d" and r: "run_ok d r" and ph: "aborted = run_aborted r"
  shows "calm d (snd (run_catch now x i p aborted wt e d)) \<and>
    run_ok (snd (run_catch now x i p aborted wt e d)) (r\<lparr>run_phase := fst (run_catch now x i p aborted wt e d)\<rparr>)"
proof (cases aborted)
  case True
  then show ?thesis using calm_refl [OF inv] r ph by (auto simp: run_catch_def run_ok_def Let_def)
next
  case False
  then show ?thesis using calm_markFailed [OF inv] ph by (simp add: run_catch_def run_ok_def Let_def)
qed

lemma service_run_token:
  assumes inv: "service_inv U w" and r: "r \<in> set (lw_runs w)" "run_phase r = DeviceFlow"
  shows "service_inv U (set_phase r (runLoginTask_token now r result (lw_db w)) w)"
proof -
  have base: "base_inv U w" using inv by (simp add: service_inv_def)
  note b = base_parts [OF base]
  let ?p = "run_payload r"
  have ok: "run_ok (lw_db w) r" by (rule b(9) [OF r(1)])
  then have r1: "reached 1 (lw_db w) (pl_task ?p) (rq_attempt ?p)" using r(2) by (simp add: run_ok_def Let_def)
  show ?thesis
  proof (cases "\<exists>token. result = Inr token \<and> \<not> run_aborted r")
    case True
    let ?d = "setStage now (pl_enterprise ?p) (pl_task ?p) (rq_attempt ?p) ''saving-token'' (lw_db w)"
    have "calm (lw_db w) ?d" by (rule calm_setStage [OF b(1) r1])
    moreover have "run_ok ?d (r\<lparr>run_phase := SavingToken\<rparr>)" using True calm_reached [OF calculation r1] by (auto simp: run_ok_def)
    moreover have "runLoginTask_token now r result (lw_db w) = (SavingToken, ?d)" using True by (auto simp: runLoginTask_token_def Let_def)
    ultimately show ?thesis using service_set_phase [OF inv, of "(SavingToken, ?d)"] by simp
  next
    case False
    then obtain e where "runLoginTask_token now r result (lw_db w) =
        run_catch now (pl_enterprise ?p) (pl_task ?p) ?p (run_aborted r) False e (lw_db w)"
      by (cases result) (auto simp: runLoginTask_token_def Let_def)
    then show ?thesis using service_set_phase [OF inv] run_catch_ok [OF b(1) ok refl] by simp
  qed
qed

lemma service_run_saved:
  assumes inv: "service_inv U w" and r: "r \<in> set (lw_runs w)"
  shows "service_inv U (set_phase r (runLoginTask_saved now r reply (lw_db w)) w)"
proof -
  have base: "base_inv U w" using inv by (simp add: service_inv_def)
  note b = base_parts [OF base]
  let ?p = "run_payload r"
  have ok: "run_ok (lw_db w) r" by (rule b(9) [OF r])
  show ?thesis
  proof (cases reply)
    case (Inl e)
    then show ?thesis using service_set_phase [OF inv] run_catch_ok [OF b(1) ok refl] by (simp add: runLoginTask_saved_def Let_def)
  next
    case (Inr u)
    let ?d = "snd (markSuccess now (pl_enterprise ?p) (pl_task ?p) (Some (rq_attempt ?p)) (lw_db w))"
    have "same_owner (lw_db w) (pl_task ?p) (pl_enterprise ?p)" by (rule memory_owner [OF b(4)]) (use r in simp)
    then have "reached 3 ?d (pl_task ?p) (rq_attempt ?p)" by (rule markSuccess_reached [OF b(1,2)])
    then have "run_ok ?d (r\<lparr>run_phase := Settled\<rparr>)" using reached_le [of 3 ?d _ _ 2] by (simp add: run_ok_def)
    moreover have "calm (lw_db w) ?d" by (rule calm_markSuccess [OF b(1)])
    ultimately show ?thesis using service_set_phase [OF inv, of "(Settled, ?d)"] Inr by (simp add: runLoginTask_saved_def Let_def)
  qed
qed

lemma service_run_rejected:
  assumes inv: "service_inv U w" and r: "r \<in> set (lw_runs w)"
  shows "service_inv U (set_phase r (run_rejected now r message (lw_db w)) w)"
proof -
  have base: "base_inv U w" using inv by (simp add: service_inv_def)
  note b = base_parts [OF base]
  let ?p = "run_payload r"
  have ok: "run_ok (lw_db w) r" by (rule b(9) [OF r])
  show ?thesis
  proof (cases "run_aborted r")
    case True
    then have "run_ok (lw_db w) (r\<lparr>run_phase := Settled\<rparr>)" using ok by (simp add: run_ok_def Let_def)
    then show ?thesis using service_set_phase [OF inv, of "(Settled, lw_db w)"] calm_refl [OF b(1)] True by (simp add: run_rejected_def)
  next
    case False
    let ?d = "failRun now ?p message (lw_db w)"
    have "same_owner (lw_db w) (pl_task ?p) (pl_enterprise ?p)" by (rule memory_owner [OF b(4)]) (use r in simp)
    then have "reached 3 ?d (pl_task ?p) (rq_attempt ?p)" unfolding failRun_def by (rule markFailed_reached [OF b(1,2)])
    then have "run_ok ?d (r\<lparr>run_phase := Reporting\<rparr>)" using False by (simp add: run_ok_def)
    moreover have "calm (lw_db w) ?d" unfolding failRun_def by (rule calm_markFailed [OF b(1)])
    ultimately show ?thesis using service_set_phase [OF inv, of "(Reporting, ?d)"] False by (simp add: run_rejected_def)
  qed
qed

lemma service_run_reported:
  assumes inv: "service_inv U w" and r: "r \<in> set (lw_runs w)" "run_phase r = Reporting"
  shows "service_inv U (set_phase r (Settled, lw_db w) w)"
proof -
  have base: "base_inv U w" using inv by (simp add: service_inv_def)
  note b = base_parts [OF base]
  have "run_ok (lw_db w) (r\<lparr>run_phase := Settled\<rparr>)"
    using b(9) [OF r(1)] r(2) reached_le [of 3 "lw_db w" _ _ 2] by (simp add: run_ok_def Let_def)
  then show ?thesis using service_set_phase [OF inv, of "(Settled, lw_db w)"] calm_refl [OF b(1)] by simp
qed

lemma service_finish_run:
  assumes inv: "service_inv U w" and r: "r \<in> set (lw_runs w)" "run_phase r = Settled"
  shows "service_inv U (finish_run now mkLog r w)"
proof -
  have base: "base_inv U w" using inv by (simp add: service_inv_def)
  note b = base_parts [OF base]
  let ?i = "pl_task (run_payload r)"
  let ?w = "w\<lparr>lw_active := filter (\<lambda>j. j \<noteq> ?i) (lw_active w), lw_runs := filter (\<lambda>q. pl_task (run_payload q) \<noteq> ?i) (lw_runs w)\<rparr>"
  have r2: "reached 2 (lw_db w) ?i (rq_attempt (run_payload r))" using b(9) [OF r(1)] r(2) by (simp add: run_ok_def Let_def)
  have only: "q = r" if "q \<in> set (lw_runs w)" "pl_task (run_payload q) = ?i" for q
    using slotsD(1,2) [OF b(5)] distinct_map_eqD [of "\<lambda>r. pl_task (run_payload r)" "lw_runs w" q r] that r(1) by simp
  have gone: "pl_task (run_payload q) \<noteq> ?i" if "q \<in> set (lw_runs w)" "payload_for (run_payload q) t" "t \<in> set (login_tasks (lw_db w))"
      "lt_status t \<in> {TaskPending, TaskRunning}" for q t
  proof
    assume "pl_task (run_payload q) = ?i"
    then have "q = r" by (rule only [OF that(1)])
    then have "2 \<le> status_rank (lt_status t)" using current_not_reached [OF b(1) that(3)] that(2) r2 by (simp add: payload_for_def)
    then show False using that(4) by auto
  qed
  have work: "work_ok ?w" unfolding work_ok_def
  proof (intro ballI conjI impI)
    fix t assume "t \<in> set (login_tasks (lw_db ?w))"
    then have t: "t \<in> set (login_tasks (lw_db w))" by simp
    note okt = bspec [OF b(6) [unfolded work_ok_def] t]
    show "\<exists>q \<in> set (lw_runs ?w). payload_for (run_payload q) t" if "lt_status t = TaskRunning"
      using okt that gone [OF _ _ t] by auto
    show "\<exists>p \<in> set (lw_pending ?w) \<union> run_payload ` set (lw_runs ?w). payload_for p t" if "lt_status t = TaskPending" "lt_stage t = Some ''queued''"
      using okt that gone [OF _ _ t] by auto
  qed
  have eq: "filter (\<lambda>j. j \<noteq> ?i) (map (\<lambda>r. pl_task (run_payload r)) rs) = map (\<lambda>r. pl_task (run_payload r)) (filter (\<lambda>q. pl_task (run_payload q) \<noteq> ?i) rs)" for rs
    by (induction rs) auto
  have "length (filter (\<lambda>j. j \<noteq> ?i) (lw_active w)) \<le> 20" using slotsD(3) [OF b(5)] length_filter_le le_trans by blast
  then have slots: "slots_ok ?w" using slotsD [OF b(5)] eq [of "lw_runs w"] by (intro slotsI) (auto simp: distinct_map_filter)
  have "issued_ok U ?w" using b(3) unfolding issued_ok_def by auto
  moreover have "memory_ok ?w" using b(4) unfolding memory_ok_alt by auto
  moreover have "\<forall>q \<in> set (lw_runs ?w). run_ok (lw_db ?w) q" using b(9) by simp
  ultimately have "base_inv U ?w" using base slots work by (simp add: base_inv_def cancelled_ok_def settings_ok_def)
  then show ?thesis unfolding finish_run_def Let_def by (rule service_drain)
qed

section \<open>Retries\<close>

lemma service_checks:
  assumes inv: "service_inv U w" and ok: "\<And>c. c \<in> set cs \<Longrightarrow> c \<in> set (lw_checks w) \<or> remembers (lw_db w) (rc_task c) \<and> lt_id (rc_task c) \<in> U"
  shows "service_inv U (w\<lparr>lw_checks := cs\<rparr>)"
proof -
  have base: "base_inv U w" and cons: "conserving w" using inv by (simp_all add: service_inv_def)
  note b = base_parts [OF base]
  have "remembers (lw_db w) (rc_task c)" "lt_id (rc_task c) \<in> U" if "c \<in> set cs" for c
    using ok [OF that] memory_task [OF b(4), of "rc_task c"] b(3) by (auto simp: issued_ok_def)
  then have "memory_ok (w\<lparr>lw_checks := cs\<rparr>)" "issued_ok U (w\<lparr>lw_checks := cs\<rparr>)"
    using b(3,4) unfolding memory_ok_alt issued_ok_def by auto
  then have "base_inv U (w\<lparr>lw_checks := cs\<rparr>)" using base by (simp add: base_inv_def)
  moreover have "conserving (w\<lparr>lw_checks := cs\<rparr>)" by (rule conserving_same [OF cons]) simp_all
  ultimately show ?thesis by (simp add: service_inv_def)
qed

lemma service_retry_begin:
  assumes inv: "service_inv U w" and r: "retryTask_begin e i override w = Inr w'"
  shows "service_inv U w'"
proof -
  have base: "base_inv U w" using inv by (simp add: service_inv_def)
  note b = base_parts [OF base]
  obtain task where task: "getTask (pr_id (ent_profile e)) i (lw_db w) = Some task"
    "w' = w\<lparr>lw_checks := lw_checks w @ [\<lparr>rc_task = task, rc_override = override\<rparr>]\<rparr>"
    using r by (auto simp: retryTask_begin_def split: option.splits if_splits sum.splits)
  obtain t where t: "t \<in> set (login_tasks (lw_db w))" "task = mapRow t" using getTask_Some [OF login_inv_parts(1) [OF b(1)] task(1)] by blast
  have "remembers (lw_db w) task" using remembers_row [OF login_inv_parts(1) [OF b(1)] t(1)] t(2) by simp
  moreover have "lt_id task \<in> U" using b(3) t by (auto simp: issued_ok_def)
  ultimately show ?thesis unfolding task(2) by (intro service_checks [OF inv]) auto
qed

lemma base_reserve:
  assumes inv: "base_inv U w" and r: "reserveRetry now (lt_enterprise task) task aid (lw_db w) = Inr (Some reserved, d')"
    and rem: "remembers (lw_db w) task" and aid: "aid \<notin> U" "aid \<noteq> []"
  shows "base_inv (U \<union> {aid}) (w\<lparr>lw_db := d', lw_retries := lw_retries w @
      [\<lparr>rw_task = task, rw_reserved = reserved, rw_attempt = aid, rw_override = ov\<rparr>]\<rparr>)" (is "base_inv ?U ?w")
proof (rule reserveRetry_cases [OF base_parts(1) [OF inv] r])
  fix t1
  let ?d = "lw_db w" and ?a = "new_attempt now (lt_id task) aid (next_number (lt_id task) (lw_db w)) ''preparing''"
  assume t1: "t1 \<in> set (login_tasks ?d)" "lt_enterprise t1 = lt_enterprise task" "lt_id t1 = lt_id task" "lt_status t1 = TaskFailed"
    and d': "login_tasks d' = update_where (\<lambda>t. t = t1) (retried_task now aid) (login_tasks ?d)" "login_attempts d' = login_attempts ?d @ [?a]"
    and res: "Some reserved = getTask (lt_enterprise task) (lt_id task) d'"
  note b = base_parts [OF inv]
  have inv': "login_inv d'"
    by (rule reserveRetry_inv [OF b(1) r aid(2)]) (use rem in \<open>auto simp: remembers_def\<close>)
  have prev: "\<exists>t \<in> set (login_tasks ?d). lt_id t' = lt_id t \<and> lt_enterprise t' = lt_enterprise t \<and> lt_identity t' = lt_identity t \<and>
      (t' = t \<or> lt_status t' = TaskPending \<and> lt_stage t' = Some ''preparing'' \<and> lt_attempt t' = Some aid)"
    if mem: "t' \<in> set (login_tasks d')" for t'
  proof -
    obtain t where t: "t \<in> set (login_tasks ?d)" "t' = (if t = t1 then retried_task now aid t else t)"
      using mem unfolding d'(1) by (rule update_whereE)
    then show ?thesis by (intro bexI [OF _ t(1)]) auto
  qed
  have reach: "reached n d' i b" if "reached n ?d i b" "b \<in> U" for n i b using that aid(1) by (auto simp: reached_def d'(2))
  have own: "same_owner d' i x" if "same_owner ?d i x" for i x
    using that prev unfolding same_owner_def by metis
  have rem': "remembers d' u" if "remembers ?d u" for u
    using that prev unfolding remembers_def by metis
  have nl: "no_legacy d'" using b(2) prev unfolding no_legacy_def by (metis option.distinct(1))
  obtain t where t: "t \<in> set (login_tasks d')" "reserved = mapRow t" "lt_id t = lt_id task"
    using getTask_Some [OF login_inv_parts(1) [OF inv'] res [symmetric]] by blast
  have remr: "remembers d' reserved" using remembers_row [OF login_inv_parts(1) [OF inv'] t(1)] t(2) by simp
  have ids: "lt_id t' \<in> U \<and> CHR '':'' \<notin> set (lt_id t')" if "t' \<in> set (login_tasks d')" for t'
    using prev [OF that] b(3) by (auto simp: issued_ok_def)
  have idr: "lt_id task \<in> U" "lt_id reserved = lt_id task" using b(3) t1(1,3) t by (auto simp: issued_ok_def)
  have "issued_ok ?U ?w"
  proof -
    have "issued_ok ?U w" by (rule issued_mono [OF b(3)]) blast
    then show ?thesis using ids idr unfolding issued_ok_def by (simp add: d'(2))
  qed
  moreover have "memory_ok ?w" using b(4) own rem' rem'[OF rem] remr idr(2) unfolding memory_ok_alt by auto
  moreover have "run_ok d' q" if "q \<in> set (lw_runs w)" for q
  proof -
    have "rq_attempt (run_payload q) \<in> U" using b(3) that by (auto simp: issued_ok_def)
    then show ?thesis using b(9) [OF that] reach by (auto simp: run_ok_def Let_def)
  qed
  moreover have "cancelled_ok ?w" unfolding cancelled_ok_def
  proof (intro allI impI)
    fix i k assume k: "CHR '':'' \<notin> set i" "cancel_key i k \<in> set (lw_cancelled ?w)"
    then have "k \<in> U" "reached 2 ?d i k" using b(3,7) by (auto simp: issued_ok_def cancelled_ok_def)
    then show "reached 2 (lw_db ?w) i k" using reach by simp
  qed
  moreover have "work_ok ?w" unfolding work_ok_def
  proof (rule ballI)
    fix t' assume "t' \<in> set (login_tasks (lw_db ?w))"
    then have t': "t' \<in> set (login_tasks d')" by simp
    consider "t' \<in> set (login_tasks ?d)" | "lt_status t' = TaskPending" "lt_stage t' = Some ''preparing''" using prev [OF t'] by blast
    then show "(lt_status t' = TaskRunning \<longrightarrow> (\<exists>r \<in> set (lw_runs ?w). payload_for (run_payload r) t')) \<and>
      (lt_status t' = TaskPending \<longrightarrow> lt_stage t' = Some ''queued'' \<longrightarrow> (\<exists>p \<in> set (lw_pending ?w) \<union> run_payload ` set (lw_runs ?w). payload_for p t'))"
    proof cases
      case 1
      then show ?thesis using bspec [OF b(6) [unfolded work_ok_def] 1] by simp
    qed simp
  qed
  ultimately show ?thesis using inv' nl b(5,8) by (simp add: base_inv_def)
qed

lemma service_retry_reserve:
  assumes inv: "service_inv U w" and c: "c \<in> set (lw_checks w)"
    and r: "retryTask_reserve now aid c reply (w\<lparr>lw_checks := remove1 c (lw_checks w)\<rparr>) = Inr w'" and aid: "aid \<notin> U" "aid \<noteq> []"
  shows "service_inv (U \<union> {aid}) w'"
proof -
  let ?w = "w\<lparr>lw_checks := remove1 c (lw_checks w)\<rparr>"
  have inv1: "service_inv U ?w" by (rule service_checks [OF inv]) (use set_remove1_subset in fastforce)
  then have base: "base_inv U ?w" and cons: "conserving ?w" by (simp_all add: service_inv_def)
  have rem: "remembers (lw_db ?w) (rc_task c)"
    using memory_task [OF base_parts(4), of U w "rc_task c"] inv c by (simp add: service_inv_def)
  obtain reserved d where d: "reserveRetry now (lt_enterprise (rc_task c)) (rc_task c) aid (lw_db ?w) = Inr (Some reserved, d)"
    and w': "w' = ?w\<lparr>lw_db := d, lw_retries := lw_retries ?w @ [\<lparr>rw_task = rc_task c, rw_reserved = reserved, rw_attempt = aid, rw_override = rc_override c\<rparr>]\<rparr>"
    using r by (auto simp: retryTask_reserve_def split: sum.splits option.splits)
  have "base_inv (U \<union> {aid}) w'" unfolding w' by (rule base_reserve [OF base d rem aid])
  moreover have "conserving w'" unfolding w' by (rule conserving_same [OF cons]) simp_all
  ultimately show ?thesis by (simp add: service_inv_def)
qed

lemma base_requeue:
  assumes inv: "base_inv U w" and p: "p \<in> set (lw_pending w)" and i: "pl_task p = i" "rq_attempt p = aid"
  shows "base_inv U (w\<lparr>lw_db := setStage now x i aid ''queued'' (lw_db w)\<rparr>)"
proof -
  note b = base_parts [OF inv]
  let ?d = "setStage now x i aid ''queued'' (lw_db w)"
  have prog: "progressed (lw_db w) ?d" and inv': "login_inv ?d" by (rule setStage.progress [OF b(1)], rule setStage.inv [OF b(1)])
  have mem: "t' \<in> set (login_tasks (lw_db w)) \<or> payload_for p t' \<and> (\<exists>t \<in> set (login_tasks (lw_db w)). lt_status t' = lt_status t \<and> lt_id t' = lt_id t \<and> lt_attempt t' = lt_attempt t)"
    if "t' \<in> set (login_tasks ?d)" for t'
  proof (cases "exists_row (at_attempt x i aid isActiveStatus) (login_tasks (lw_db w))")
    case True
    then have "t' \<in> set (update_where (at_attempt x i aid isActiveStatus) (\<lambda>t. t\<lparr>lt_stage := Some ''queued'', lt_stage_updated_at := Some now\<rparr>) (login_tasks (lw_db w)))"
      using that by (simp add: setStage_def)
    then obtain t where t: "t \<in> set (login_tasks (lw_db w))"
      "t' = (if at_attempt x i aid isActiveStatus t then t\<lparr>lt_stage := Some ''queued'', lt_stage_updated_at := Some now\<rparr> else t)"
      by (rule update_whereE)
    show ?thesis
    proof (cases "at_attempt x i aid isActiveStatus t")
      case True
      then have "payload_for p t'" using t(2) i by (simp add: payload_for_def at_attempt_def)
      moreover have "lt_status t' = lt_status t \<and> lt_id t' = lt_id t \<and> lt_attempt t' = lt_attempt t" using t(2) True by simp
      ultimately show ?thesis using t(1) by blast
    qed (use t in simp)
  qed (use that in \<open>simp add: setStage_def\<close>)
  have "work_ok (w\<lparr>lw_db := ?d\<rparr>)" unfolding work_ok_def
  proof (rule ballI)
    fix t' assume "t' \<in> set (login_tasks (lw_db (w\<lparr>lw_db := ?d\<rparr>)))"
    then have t': "t' \<in> set (login_tasks ?d)" by simp
    let ?goal = "(lt_status t' = TaskRunning \<longrightarrow> (\<exists>r \<in> set (lw_runs w). payload_for (run_payload r) t')) \<and>
      (lt_status t' = TaskPending \<longrightarrow> lt_stage t' = Some ''queued'' \<longrightarrow> (\<exists>p \<in> set (lw_pending w) \<union> run_payload ` set (lw_runs w). payload_for p t'))"
    have ?goal
    proof (cases "t' \<in> set (login_tasks (lw_db w))")
      case True
      then show ?thesis using bspec [OF b(6) [unfolded work_ok_def] True] by simp
    next
      case False
      then obtain t where t: "payload_for p t'" "t \<in> set (login_tasks (lw_db w))" "lt_status t' = lt_status t" "lt_id t' = lt_id t" "lt_attempt t' = lt_attempt t"
        using mem [OF t'] by blast
      have "payload_for (run_payload r) t' = payload_for (run_payload r) t" for r using t by (simp add: payload_for_def)
      then show ?thesis using bspec [OF b(6) [unfolded work_ok_def] t(2)] t(1,3) p by auto
    qed
    then show "(lt_status t' = TaskRunning \<longrightarrow> (\<exists>r \<in> set (lw_runs (w\<lparr>lw_db := ?d\<rparr>)). payload_for (run_payload r) t')) \<and>
      (lt_status t' = TaskPending \<longrightarrow> lt_stage t' = Some ''queued'' \<longrightarrow>
        (\<exists>p \<in> set (lw_pending (w\<lparr>lw_db := ?d\<rparr>)) \<union> run_payload ` set (lw_runs (w\<lparr>lw_db := ?d\<rparr>)). payload_for p t'))" by simp
  qed
  moreover have "run_ok ?d q" if "run_ok (lw_db w) q" for q using that progressed_reached [OF prog] by (auto simp: run_ok_def Let_def)
  ultimately show ?thesis
    using b inv' progressed_no_legacy [OF prog b(2)] progressed_issued [OF prog b(3)] progressed_same_owner [OF prog] progressed_remembers [OF prog]
      progressed_reached [OF prog]
    by (simp add: base_inv_def memory_ok_alt cancelled_ok_def)
qed

lemma service_queue_retry:
  assumes inv: "service_inv U w" and aid: "rq_attempt request \<in> U"
  shows "service_inv U (queue_retry now mkLog task request w)"
proof -
  have base: "base_inv U w" using inv by (simp add: service_inv_def)
  note b = base_parts [OF base]
  let ?x = "lt_enterprise task" and ?i = "lt_id task" and ?p = "payload_of request (lt_enterprise task) (lt_id task)"
  show ?thesis
  proof (cases "getTask ?x ?i (lw_db w)")
    case None
    then show ?thesis using inv by (simp add: queue_retry_def Let_def)
  next
    case (Some current)
    show ?thesis
    proof (cases "lt_status current \<noteq> TaskPending \<or> lt_attempt current \<noteq> Some (rq_attempt request) \<or> isBusy w ?i")
      case True
      then show ?thesis using inv Some by (auto simp: queue_retry_def Let_def)
    next
      case False
      obtain t where t: "t \<in> set (login_tasks (lw_db w))" "lt_enterprise t = ?x" "lt_id t = ?i" using getTask_Some [OF login_inv_parts(1) [OF b(1)] Some] by blast
      have "base_inv U (w\<lparr>lw_pending := lw_pending w @ [?p]\<rparr>)"
        using False owner_of [OF login_inv_parts(1) [OF b(1)] t(1)] t b(3) aid by (intro base_push [OF base]) (auto simp: issued_ok_def)
      from base_requeue [OF this, where p = ?p and i = ?i and aid = "rq_attempt request" and now = now and x = ?x]
      have "base_inv U (w\<lparr>lw_pending := lw_pending w @ [?p], lw_db := setStage now ?x ?i (rq_attempt request) ''queued'' (lw_db w)\<rparr>)" by simp
      moreover have "w\<lparr>lw_pending := lw_pending w @ [?p], lw_db := setStage now ?x ?i (rq_attempt request) ''queued'' (lw_db w)\<rparr> =
        w\<lparr>lw_db := setStage now ?x ?i (rq_attempt request) ''queued'' (lw_db w), lw_pending := lw_pending w @ [?p]\<rparr>" by simp
      ultimately show ?thesis using service_drain False Some by (simp add: queue_retry_def Let_def)
    qed
  qed
qed

lemma service_retries:
  assumes inv: "service_inv U w" and ok: "set rs \<subseteq> set (lw_retries w)"
  shows "service_inv U (w\<lparr>lw_retries := rs\<rparr>)"
proof -
  have base: "base_inv U w" and cons: "conserving w" using inv by (simp_all add: service_inv_def)
  note b = base_parts [OF base]
  have "memory_ok (w\<lparr>lw_retries := rs\<rparr>)" "issued_ok U (w\<lparr>lw_retries := rs\<rparr>)"
    using b(3,4) ok unfolding memory_ok_alt issued_ok_def by auto
  then have "base_inv U (w\<lparr>lw_retries := rs\<rparr>)" using base by (simp add: base_inv_def)
  moreover have "conserving (w\<lparr>lw_retries := rs\<rparr>)" by (rule conserving_same [OF cons]) simp_all
  ultimately show ?thesis by (simp add: service_inv_def)
qed

lemma service_retry_prepared:
  assumes inv: "service_inv U w" and r: "rw \<in> set (lw_retries w)"
  shows "service_inv U (retryTask_prepared now mkLog rw reply (w\<lparr>lw_retries := remove1 rw (lw_retries w)\<rparr>))"
proof -
  let ?w = "w\<lparr>lw_retries := remove1 rw (lw_retries w)\<rparr>"
  have inv1: "service_inv U ?w" by (rule service_retries [OF inv set_remove1_subset])
  have "rw_attempt rw \<in> U" using inv r by (simp add: service_inv_def base_inv_def issued_ok_def)
  then have q: "service_inv U (queue_retry now mkLog (rw_reserved rw) (retryRequest (rw_reserved rw) (rw_attempt rw) pw) ?w)" for pw
    by (intro service_queue_retry [OF inv1]) (simp add: retryRequest_def)
  have f: "service_inv U (?w\<lparr>lw_db := snd (markFailed now x i reason attempt code (lw_db ?w))\<rparr>)" for x i reason attempt code
    by (rule service_calm [OF inv1 calm_markFailed]) (use inv in \<open>simp add: service_inv_def base_inv_def\<close>)
  show ?thesis
    unfolding retryTask_prepared_def Let_def using inv1 q f service_cancel [OF inv1] by (cases reply) auto
qed

section \<open>Deletion and settings\<close>

lemma service_deletions:
  "service_inv U w \<Longrightarrow> service_inv U (w\<lparr>lw_deletions := ds\<rparr>)"
  by (simp add: service_inv_def base_inv_def conserving_def getConcurrency_def)

lemma service_delete_claim:
  assumes inv: "service_inv U w" and c: "deleteLoginTask_claim x i reply w = Inr (result, w')"
  shows "service_inv U w'"
proof -
  let ?d = "snd (claimTaskDeletion x i (lw_db w))"
  have "calm (lw_db w) ?d" by (rule calm_claimTaskDeletion) (use inv in \<open>simp add: service_inv_def base_inv_def\<close>)
  then have "service_inv U (w\<lparr>lw_db := ?d\<rparr>)" by (rule service_calm [OF inv])
  moreover have "w' = w\<lparr>lw_db := ?d\<rparr> \<or> w' = w\<lparr>lw_db := ?d, lw_deletions := lw_deletions w @ [(x, i)]\<rparr>"
    using c by (auto simp: deleteLoginTask_claim_def split_beta split: sum.splits if_splits)
  ultimately show ?thesis using service_deletions by auto
qed

lemma service_delete_end:
  assumes inv: "service_inv U w"
  shows "service_inv U (snd (deleteLoginTask_end x i unlinked w))"
proof -
  have li: "login_inv (lw_db w)" using inv by (simp add: service_inv_def base_inv_def)
  have "calm (lw_db w) (releaseTaskDeletion x (Some i) (lw_db w))" by (rule calm_releaseTaskDeletion [OF li])
  moreover have "calm (lw_db w) (releaseTaskDeletion x (Some i) (snd (deleteTask x i (lw_db w))))"
    by (rule calm_trans [OF calm_deleteTask [OF li] calm_releaseTaskDeletion [OF deleteTask_inv [OF li]]])
  ultimately show ?thesis
    using service_deletions [OF service_calm [OF inv]]
    by (cases unlinked) (simp_all add: deleteLoginTask_end_def split_beta)
qed

lemma patch_settings_row:
  assumes "patch_settings now body (Some row) = (200, Some s, r')" "valid_row row"
  shows "\<exists>row'. r' = Some row' \<and> valid_row row' \<and> s = row_snapshot row'"
proof -
  obtain request where "update_settings now request (Some row) = Inr (s, r')"
    using assms(1) by (auto simp: patch_settings_def split: sum.splits settings_error.splits prod.splits)
  then show ?thesis by (rule update_settings_Inr [OF assms(2)]) blast
qed

lemma service_settings:
  assumes inv: "service_inv U w" and p: "patch_settings now body (lw_row w) = (200, Some s, r')"
  shows "service_inv U (drain now' mkLog (w\<lparr>lw_row := r', lw_settings := s\<rparr>))"
proof -
  have base: "base_inv U w" using inv by (simp add: service_inv_def)
  obtain row where "lw_row w = Some row" "valid_row row" using base_parts(8) [OF base] by (auto simp: settings_ok_def)
  then have "settings_ok (w\<lparr>lw_row := r', lw_settings := s\<rparr>)" using patch_settings_row p by (simp add: settings_ok_def)
  then have "base_inv U (w\<lparr>lw_row := r', lw_settings := s\<rparr>)" using base by (simp add: base_inv_def)
  then show ?thesis by (rule service_drain)
qed

end
