(* ===== verification/Login_Recovery.thy ===== *)
theory Login_Recovery
  imports Login_Machine
begin

text \<open>
  The restart of the login service and its runs. A restart closes every task the last process left
  unfinished; its pieces are interpretations of \<open>progress_op\<close>, because \<open>progress_op\<close>s compose. With it
  every step keeps the service's invariant, and the invariant holds in every reachable state.
\<close>

section \<open>Operations that move tasks forward compose\<close>

lemma progress_op_comp:
  assumes "progress_op f" "progress_op g"
  shows "progress_op (\<lambda>d. g (f d))"
proof unfold_locales
  fix d assume inv: "login_inv d"
  note f = progress_op.progress [OF assms(1) inv] progress_op.inv [OF assms(1) inv]
  show "progressed d (g (f d))" using f progress_op.progress [OF assms(2)] progressed_trans by blast
  show "coherent (g (f d))" using f(2) progress_op.inv [OF assms(2)] login_inv_parts(3) by blast
qed

lemma progress_op_id: "progress_op (\<lambda>d. d)"
  by unfold_locales (simp_all add: login_inv_parts)

interpretation close_task: progress_op "\<lambda>d. snd (close_task now x t d)"
  using failLegacyInterruptedTask.progress_op_axioms markCancelled.progress_op_axioms markFailed.progress_op_axioms
  by (cases "truthy (lt_attempt t)"; cases "lt_status t = TaskCancelling") (simp_all add: close_task_def)

lemma close_tasks_op: "progress_op (\<lambda>d. snd (close_tasks now x ts d))"
proof (induction ts)
  case (Cons t ts)
  show ?case using progress_op_comp [OF close_task.progress_op_axioms Cons.IH] by (simp add: split_beta)
qed (simp add: progress_op_id)

interpretation close_tasks: progress_op "\<lambda>d. snd (close_tasks now x ts d)"
  by (rule close_tasks_op)

interpretation closeInterruptedTasks: progress_op "\<lambda>d. snd (closeInterruptedTasks now x d)"
proof unfold_locales
  fix d assume inv: "login_inv d"
  let ?d0 = "releaseTaskDeletion x None d"
  note r = releaseTaskDeletion.progress [OF inv, of x None] releaseTaskDeletion.inv [OF inv, of x None]
  show "progressed d (snd (closeInterruptedTasks now x d))"
    using progressed_trans [OF r(1) close_tasks.progress [OF r(2)]] by (simp add: closeInterruptedTasks_def Let_def)
  show "coherent (snd (closeInterruptedTasks now x d))"
    using close_tasks.keeps_coherent [OF r(2)] by (simp add: closeInterruptedTasks_def Let_def)
qed

lemma recoverLoginOutcomes_op: "progress_op (\<lambda>d. snd (recoverLoginOutcomes now xs d))"
proof (induction xs)
  case (Cons x xs)
  show ?case using progress_op_comp [OF closeInterruptedTasks.progress_op_axioms Cons.IH] by (simp add: split_beta)
qed (simp add: progress_op_id)

interpretation recoverLoginOutcomes: progress_op "\<lambda>d. snd (recoverLoginOutcomes now xs d)"
  by (rule recoverLoginOutcomes_op)

section \<open>A restart closes every task\<close>

definition finished_rows :: "(TaskRow \<Rightarrow> bool) \<Rightarrow> login_db \<Rightarrow> bool" where
  "finished_rows P d \<longleftrightarrow> (\<forall>t \<in> set (login_tasks d). P t \<longrightarrow> isFinishedStatus (lt_status t))"

lemma finished_rows_progressed:
  assumes "progressed d d'" "finished_rows P d" and P: "\<And>t t'. task_progress t t' \<Longrightarrow> P t' \<Longrightarrow> P t"
  shows "finished_rows P d'"
  unfolding finished_rows_def
proof (intro ballI impI)
  fix t' assume t': "t' \<in> set (login_tasks d')" "P t'"
  obtain t where t: "t \<in> set (login_tasks d)" "task_progress t t'" using progressed_task_back [OF assms(1) t'(1)] by blast
  then have "isFinishedStatus (lt_status t)" using assms(2) P [OF t(2) t'(2)] by (simp add: finished_rows_def)
  then show "isFinishedStatus (lt_status t')" using finished_is_final t(2) by (metis task_progress_def)
qed

lemma finishAttempt_finishes:
  assumes inv: "login_inv d" and st: "isFinishedStatus st" and t: "t \<in> set (login_tasks d)" "lt_enterprise t = x" "lt_id t = i" "lt_attempt t = Some aid"
  shows "finished_rows (\<lambda>t. lt_id t = i) (snd (finishAttempt now x i (Some aid) st reason code d))"
proof -
  have only: "u = t" if "u \<in> set (login_tasks d)" "lt_id u = i" for u
    using task_unique [OF login_inv_parts(1) [OF inv] that(1) t(1)] that(2) t(3) by simp
  have ne: "aid \<noteq> []"
    using current_attemptE [OF login_inv_parts(3) [OF inv] t(1,4)] keys_nonempty [OF login_inv_parts(1) [OF inv]] by metis
  show ?thesis
  proof (cases rule: finishAttempt_cases [of now x i "Some aid" st reason code d])
    case 1
    then have "\<not> at_attempt x i aid isActiveStatus t" using ne t(1) by (auto simp: truthy_def rows)
    then have "isFinishedStatus (lt_status t)" using t by (simp add: at_attempt_def finished_iff)
    then show ?thesis unfolding 1(1) finished_rows_def using only by blast
  next
    case (2 aid')
    show ?thesis unfolding 2(3) finished_rows_def
    proof (intro ballI impI)
      fix u' assume u': "u' \<in> set (login_tasks (update_attempts (\<lambda>a. la_id a = aid')
           (\<lambda>a. a\<lparr>la_status := st, la_finished_at := Some now, la_failure_reason := reason, la_failure_code := code,
              la_stage := Some (status_text st), la_stage_updated_at := Some now\<rparr>)
         (update_tasks (at_attempt x i aid' isActiveStatus)
           (\<lambda>t. t\<lparr>lt_status := st, lt_finished_at := Some now, lt_failure_reason := reason, lt_failure_code := code,
              lt_stage := Some (status_text st), lt_stage_updated_at := Some now\<rparr>) d)))" "lt_id u' = i"
      obtain u where u: "u \<in> set (login_tasks d)" "u' = (if at_attempt x i aid' isActiveStatus u then
          u\<lparr>lt_status := st, lt_finished_at := Some now, lt_failure_reason := reason, lt_failure_code := code,
              lt_stage := Some (status_text st), lt_stage_updated_at := Some now\<rparr> else u)"
        using u'(1) unfolding update_attempts_simps update_tasks_simps by (rule update_whereE)
      show "isFinishedStatus (lt_status u')"
      proof (cases "at_attempt x i aid' isActiveStatus u")
        case True
        then show ?thesis using u(2) st by simp
      next
        case False
        then have "u' = u" using u(2) by simp
        then have "u = t" using only u(1) u'(2) by blast
        then show ?thesis using False \<open>u' = u\<close> t 2(1) by (simp add: at_attempt_def finished_iff)
      qed
    qed
  qed
qed

lemma failLegacy_finishes:
  assumes inv: "login_inv d" and t: "t \<in> set (login_tasks d)" "lt_enterprise t = x" "lt_id t = i" "lt_attempt t = None"
  shows "finished_rows (\<lambda>t. lt_id t = i) (failLegacyInterruptedTask now x i d)"
  unfolding finished_rows_def
proof (intro ballI impI)
  let ?P = "\<lambda>t. lt_enterprise t = x \<and> lt_id t = i \<and> lt_attempt t = None \<and> isActiveStatus (lt_status t)"
  have only: "u = t" if "u \<in> set (login_tasks d)" "lt_id u = i" for u
    using task_unique [OF login_inv_parts(1) [OF inv] that(1) t(1)] that(2) t(3) by simp
  fix u' assume u': "u' \<in> set (login_tasks (failLegacyInterruptedTask now x i d))" "lt_id u' = i"
  show "isFinishedStatus (lt_status u')"
  proof (cases "exists_row ?P (login_tasks d)")
    case True
    then have "u' \<in> set (update_where ?P (\<lambda>t. t\<lparr>lt_status := TaskFailed, lt_failure_code := Some ''service_interrupted'',
             lt_failure_reason := Some LEGACY_INTERRUPTED_REASON, lt_finished_at := Some now\<rparr>) (login_tasks d))"
      using u'(1) by (simp add: failLegacyInterruptedTask_def)
    then show ?thesis
    proof (rule update_whereE)
      fix u assume u: "u \<in> set (login_tasks d)" "u' = (if ?P u then u\<lparr>lt_status := TaskFailed, lt_failure_code := Some ''service_interrupted'',
             lt_failure_reason := Some LEGACY_INTERRUPTED_REASON, lt_finished_at := Some now\<rparr> else u)"
      have "lt_id u = i" using u(2) u'(2) by (simp split: if_splits)
      then have "u = t" using only u(1) by blast
      then show ?thesis using u(2) t by (simp add: finished_iff split: if_splits)
    qed
  next
    case False
    then have "u' \<in> set (login_tasks d)" using u'(1) by (simp add: failLegacyInterruptedTask_def)
    then have "u' = t" using only u'(2) by blast
    then show ?thesis using False t by (auto simp: rows finished_iff)
  qed
qed

lemma close_task_finishes:
  assumes inv: "login_inv d" and row: "row \<in> set (login_tasks d)" "lt_enterprise row = x" "lt_id row = lt_id t" "lt_attempt row = lt_attempt t"
  shows "finished_rows (\<lambda>r. lt_id r = lt_id t) (snd (close_task now x t d))"
proof (cases "lt_attempt t")
  case None
  then show ?thesis using failLegacy_finishes [OF inv row(1,2,3)] row(4) by (simp add: close_task_def truthy_def)
next
  case (Some aid)
  obtain a where "a \<in> set (login_attempts d)" "la_id a = aid"
    using current_attemptE [OF login_inv_parts(3) [OF inv] row(1)] row(4) Some by metis
  then have "aid \<noteq> []" using keys_nonempty [OF login_inv_parts(1) [OF inv]] by blast
  then show ?thesis using finishAttempt_finishes [OF inv _ row(1,2,3)] Some row(4)
    by (simp add: close_task_def truthy_def markCancelled_def markFailed_def default_attempt_def)
qed

lemma close_tasks_finish:
  assumes "login_inv d" "\<And>t. t \<in> set ts \<Longrightarrow> \<exists>row \<in> set (login_tasks d). lt_enterprise row = x \<and> lt_id row = lt_id t \<and> lt_attempt row = lt_attempt t"
    and "t \<in> set ts"
  shows "finished_rows (\<lambda>r. lt_id r = lt_id t) (snd (close_tasks now x ts d))"
  using assms
proof (induction ts arbitrary: d)
  case (Cons u ts)
  let ?d1 = "snd (close_task now x u d)"
  have inv1: "login_inv ?d1" by (rule close_task.inv [OF Cons.prems(1)])
  have p1: "progressed d ?d1" by (rule close_task.progress [OF Cons.prems(1)])
  have e: "snd (close_tasks now x (u # ts) d) = snd (close_tasks now x ts ?d1)" by (simp add: split_beta)
  show ?case
  proof (cases "t \<in> set ts")
    case True
    show ?thesis unfolding e
    proof (rule Cons.IH [OF inv1 _ True])
      fix v assume "v \<in> set ts"
      then obtain row where row: "row \<in> set (login_tasks d)" "lt_enterprise row = x" "lt_id row = lt_id v" "lt_attempt row = lt_attempt v"
        using Cons.prems(2) [of v] by auto
      obtain row' where "row' \<in> set (login_tasks ?d1)" "task_progress row row'" using progressed_task_forth [OF p1 row(1)] by blast
      then show "\<exists>row \<in> set (login_tasks ?d1). lt_enterprise row = x \<and> lt_id row = lt_id v \<and> lt_attempt row = lt_attempt v"
        using row by (metis task_progress_def)
    qed
  next
    case False
    then have "t = u" using Cons.prems(3) by simp
    obtain row where row: "row \<in> set (login_tasks d)" "lt_enterprise row = x" "lt_id row = lt_id u" "lt_attempt row = lt_attempt u"
      using Cons.prems(2) [of u] by auto
    have "finished_rows (\<lambda>r. lt_id r = lt_id t) ?d1" unfolding \<open>t = u\<close> by (rule close_task_finishes [OF Cons.prems(1) row])
    then show ?thesis unfolding e
      by (rule finished_rows_progressed [OF close_tasks.progress [OF inv1]]) (simp add: task_progress_def)
  qed
qed simp

lemma closeInterruptedTasks_finish:
  assumes inv: "login_inv d"
  shows "finished_rows (\<lambda>r. lt_enterprise r = x) (snd (closeInterruptedTasks now x d))"
  unfolding finished_rows_def
proof (intro ballI impI)
  let ?d0 = "releaseTaskDeletion x None d" and ?d' = "snd (closeInterruptedTasks now x d)"
  have inv0: "login_inv ?d0" by (rule releaseTaskDeletion.inv [OF inv])
  have e: "?d' = snd (close_tasks now x (listUnfinishedTasks x ?d0) ?d0)" by (simp add: closeInterruptedTasks_def Let_def)
  fix t' assume t': "t' \<in> set (login_tasks ?d')" "lt_enterprise t' = x"
  obtain t where t: "t \<in> set (login_tasks ?d0)" "task_progress t t'"
    using progressed_task_back [OF close_tasks.progress [OF inv0]] t'(1) unfolding e by blast
  show "isFinishedStatus (lt_status t')"
  proof (cases "isActiveStatus (lt_status t)")
    case True
    then have u: "mapRow t \<in> set (listUnfinishedTasks x ?d0)" using t t'(2) by (auto simp: listUnfinishedTasks_def task_progress_def)
    have "finished_rows (\<lambda>r. lt_id r = lt_id (mapRow t)) ?d'" unfolding e
    proof (rule close_tasks_finish [OF inv0 _ u])
      fix v assume "v \<in> set (listUnfinishedTasks x ?d0)"
      then obtain row where "row \<in> set (login_tasks ?d0)" "lt_enterprise row = x" "v = mapRow row" by (auto simp: listUnfinishedTasks_def)
      then show "\<exists>row \<in> set (login_tasks ?d0). lt_enterprise row = x \<and> lt_id row = lt_id v \<and> lt_attempt row = lt_attempt v" by (intro bexI [of _ row]) simp_all
    qed
    then show ?thesis using t'(1) t(2) by (simp add: finished_rows_def task_progress_def)
  next
    case False
    then show ?thesis using t(2) finished_is_final finished_iff by (metis task_progress_def)
  qed
qed

lemma recoverLoginOutcomes_finish:
  "login_inv d \<Longrightarrow> finished_rows (\<lambda>r. lt_enterprise r \<in> set xs) (snd (recoverLoginOutcomes now xs d))"
proof (induction xs arbitrary: d)
  case (Cons x xs)
  let ?d1 = "snd (closeInterruptedTasks now x d)"
  have inv1: "login_inv ?d1" by (rule closeInterruptedTasks.inv [OF Cons.prems])
  have e: "snd (recoverLoginOutcomes now (x # xs) d) = snd (recoverLoginOutcomes now xs ?d1)" by (simp add: split_beta)
  have "finished_rows (\<lambda>r. lt_enterprise r = x) (snd (recoverLoginOutcomes now xs ?d1))"
    by (rule finished_rows_progressed [OF recoverLoginOutcomes.progress [OF inv1] closeInterruptedTasks_finish [OF Cons.prems]])
      (simp add: task_progress_def)
  then show ?case using Cons.IH [OF inv1] unfolding e by (auto simp: finished_rows_def)
qed (simp add: finished_rows_def)

section \<open>The first state of a process\<close>

lemma syncEnterprises_kept:
  assumes inv: "login_inv d" and s: "syncEnterprises now seeds d = Inr d'"
  shows "login_inv d'" and "login_tasks d' = login_tasks d" and "login_attempts d' = login_attempts d"
    and "lt_enterprise ` set (login_tasks d') \<subseteq> ls_id ` set seeds"
proof -
  have s1: "sync_login_seeds now seeds d = Inr d'" and no: "\<not> exists_row (\<lambda>e. le_id e \<notin> ls_id ` set seeds \<and> hasTasks d' (le_id e)) (login_enterprises d')"
    using s by (auto simp: syncEnterprises_def assertNoRemovedEnterpriseWithTasks_def split: sum.splits if_split_asm)
  note sp = sync_login_seeds_spec [OF s1]
  show t: "login_tasks d' = login_tasks d" and a: "login_attempts d' = login_attempts d" using sp by simp_all
  have ids: "set (login_enterprise_ids d) \<subseteq> set (login_enterprise_ids d')" using sp by simp
  have own: "lt_enterprise ` set (login_tasks d) \<subseteq> set (login_enterprise_ids d)" using inv by (simp add: login_inv_def keys_inv_def)
  have "current_ok d' = current_ok d" "history_ok d' = history_ok d"
    unfolding current_ok_def [abs_def] history_ok_def [abs_def] t a by (rule refl)+
  moreover have "lt_enterprise ` set (login_tasks d) \<subseteq> set (login_enterprise_ids d')" using own ids by (rule subset_trans)
  ultimately show "login_inv d'"
    using inv by (simp add: login_inv_def keys_inv_def exclusive_inv_def coherent_def t a)
  show "lt_enterprise ` set (login_tasks d') \<subseteq> ls_id ` set seeds"
  proof (rule image_subsetI)
    fix u assume u: "u \<in> set (login_tasks d')"
    then have "lt_enterprise u \<in> set (login_enterprise_ids d')" using own ids t by auto
    then obtain e where e: "e \<in> set (login_enterprises d')" "le_id e = lt_enterprise u" by (auto simp: login_enterprise_ids_def)
    have "hasTasks d' (le_id e)" using u e(2) by (auto simp: hasTasks_def rows)
    then show "lt_enterprise u \<in> ls_id ` set seeds" using no e by (force simp: rows)
  qed
qed

lemma startServer_Inr:
  assumes "startServer sha256 now profiles row d = Inr w'"
  obtains d1 s where "syncEnterprises now (map (loginEnterpriseSeed sha256) profiles) d = Inr d1" "readSnapshot row = Inr s"
    "w' = \<lparr>lw_db = snd (recoverLoginOutcomes now (map pr_id profiles) d1), lw_row = row, lw_settings = s,
                lw_enterprises = map buildEnterprise profiles, lw_accepting = True, lw_pending = [], lw_active = [], lw_runs = [],
                lw_cancelled = [], lw_cancellations = [], lw_checks = [], lw_retries = [], lw_deletions = []\<rparr>"
  using assms by (auto simp: startServer_def split: sum.splits)

lemma seed_ids: "ls_id ` set (map (loginEnterpriseSeed sha256) profiles) = pr_id ` set profiles"
  by (auto simp: loginEnterpriseSeed_def image_iff)

text \<open>The tables after the start: the invariant holds, every task is finished, and the rows are those of before.\<close>

lemma startServer_tables:
  assumes inv: "login_inv d" and s: "startServer sha256 now profiles row d = Inr w'"
  shows "login_inv (lw_db w')" and "finished_rows (\<lambda>_. True) (lw_db w')"
    and "map lt_id (login_tasks (lw_db w')) = map lt_id (login_tasks d)"
    and "map la_id (login_attempts (lw_db w')) = map la_id (login_attempts d)"
proof -
  obtain d1 s where d1: "syncEnterprises now (map (loginEnterpriseSeed sha256) profiles) d = Inr d1"
    and w': "lw_db w' = snd (recoverLoginOutcomes now (map pr_id profiles) d1)"
    by (rule startServer_Inr [OF s]) auto
  note k = syncEnterprises_kept [OF inv d1]
  have p: "progressed d1 (lw_db w')" unfolding w' by (rule recoverLoginOutcomes.progress [OF k(1)])
  show "login_inv (lw_db w')" unfolding w' by (rule recoverLoginOutcomes.inv [OF k(1)])
  show "map lt_id (login_tasks (lw_db w')) = map lt_id (login_tasks d)" "map la_id (login_attempts (lw_db w')) = map la_id (login_attempts d)"
    using progressed_maps [OF p] k(2,3) by simp_all
  show "finished_rows (\<lambda>_. True) (lw_db w')"
    unfolding finished_rows_def
  proof (intro ballI impI)
    fix t' assume t': "t' \<in> set (login_tasks (lw_db w'))"
    obtain t where "t \<in> set (login_tasks d1)" "task_progress t t'" using progressed_task_back [OF p t'] by blast
    then have "lt_enterprise t' \<in> set (map pr_id profiles)" using k(4) unfolding seed_ids by (auto simp: task_progress_def)
    then show "isFinishedStatus (lt_status t')"
      using recoverLoginOutcomes_finish [OF k(1), of "map pr_id profiles" now] t' unfolding w' finished_rows_def by blast
  qed
qed

lemma same_keys_ball: "map f ys = map f xs \<Longrightarrow> \<forall>x \<in> set xs. P (f x) \<Longrightarrow> \<forall>y \<in> set ys. P (f y)"
  by (drule set_map_eq) (metis imageE imageI)

lemma restart_inv:
  assumes inv: "login_inv d"
    and U: "\<forall>t \<in> set (login_tasks d). lt_id t \<in> U \<and> CHR '':'' \<notin> set (lt_id t)" "\<forall>a \<in> set (login_attempts d). la_id a \<in> U"
    and s: "startServer sha256 now profiles row d = Inr w'"
  shows "service_inv U w'"
proof -
  note t = startServer_tables [OF inv s]
  have f: "\<not> isActiveStatus (lt_status u)" if "u \<in> set (login_tasks (lw_db w'))" for u
    using t(2) that by (simp add: finished_rows_def finished_iff)
  then have nr: "lt_status u \<noteq> TaskRunning \<and> lt_status u \<noteq> TaskPending" if "u \<in> set (login_tasks (lw_db w'))" for u
    using that by force
  have U': "\<forall>t \<in> set (login_tasks (lw_db w')). lt_id t \<in> U \<and> CHR '':'' \<notin> set (lt_id t)" "\<forall>a \<in> set (login_attempts (lw_db w')). la_id a \<in> U"
  proof -

    show "\<forall>t \<in> set (login_tasks (lw_db w')). lt_id t \<in> U \<and> CHR '':'' \<notin> set (lt_id t)"
      using U(1) by (rule same_keys_ball [OF t(3)])
    show "\<forall>a \<in> set (login_attempts (lw_db w')). la_id a \<in> U"
      using U(2) by (rule same_keys_ball [OF t(4)])
  qed
  obtain s0 where r: "readSnapshot row = Inr s0"
    and w': "lw_row w' = row" "lw_settings w' = s0" "lw_accepting w'" "lw_pending w' = []" "lw_active w' = []" "lw_runs w' = []"
      "lw_cancelled w' = []" "lw_cancellations w' = []" "lw_checks w' = []" "lw_retries w' = []"
    by (rule startServer_Inr [OF s]) auto
  obtain row' where row': "row = Some row'" "valid_row row'" "s0 = row_snapshot row'" using r readSnapshot_iff by blast
  have "no_legacy (lw_db w')" using f by (auto simp: no_legacy_def)
  moreover have "issued_ok U w'" using U' w' by (simp add: issued_ok_def)
  moreover have "memory_ok w'" "slots_ok w'" "cancelled_ok w'" "conserving w'"
    using w' by (simp_all add: memory_ok_def slots_ok_def cancelled_ok_def conserving_def)
  moreover have "work_ok w'" using nr by (auto simp: work_ok_def)
  moreover have "settings_ok w'" using row' w' by (simp add: settings_ok_def)
  ultimately show ?thesis using t(1) w' by (simp add: service_inv_def base_inv_def)
qed

section \<open>Every step keeps the invariant\<close>

lemma service_run_stage:
  assumes inv: "service_inv U w" and r: "r \<in> set (lw_runs w)" "run_phase r = DeviceFlow"
  shows "service_inv U (run_stage now r stage w)"
proof -
  have base: "base_inv U w" using inv by (simp add: service_inv_def)
  have "run_ok (lw_db w) r" using base_parts [OF base] r(1) by blast
  then have "reached 1 (lw_db w) (pl_task (run_payload r)) (rq_attempt (run_payload r))" using r(2) by (simp add: run_ok_def Let_def)
  then have "calm (lw_db w) (setStage now (pl_enterprise (run_payload r)) (pl_task (run_payload r)) (rq_attempt (run_payload r)) stage (lw_db w))"
    by (rule calm_setStage [OF base_parts(1) [OF base]])
  then show ?thesis unfolding run_stage_def Let_def by (rule service_calm [OF inv])
qed

lemma service_stop: "service_inv U w \<Longrightarrow> service_inv U (stopAccepting w)"
  by (simp add: stopAccepting_def service_inv_def base_inv_def conserving_def)

lemma service_step:
  assumes "login_step U w U' w'" "service_inv U w"
  shows "service_inv U' w'"
  using assms
proof (induction rule: login_step.induct)
  case (Restart sha256 now profiles w w' U)
  have base: "base_inv U w" using Restart.prems by (simp add: service_inv_def)
  show ?case by (rule restart_inv [OF base_parts(1) [OF base] _ _ Restart.hyps]) (use base_parts(3) [OF base] in \<open>simp_all add: issued_ok_def\<close>)
next
  case (RetryRefused c w U)
  show ?case by (rule service_checks [OF RetryRefused.prems]) (use set_remove1_subset in fastforce)
qed (blast intro: service_enqueue service_cancel service_finishCancellation service_end_cancellation service_run_stage
  service_run_token service_run_saved service_run_rejected service_run_reported service_finish_run service_retry_begin
  service_retry_reserve service_retry_prepared service_delete_claim service_delete_end service_settings service_stop)+

lemma service_run:
  "login_run_to U w U' w' \<Longrightarrow> service_inv U w \<Longrightarrow> service_inv U' w'"
  by (induction rule: login_run_to.induct) (simp_all add: service_step)

end
