(* ===== verification/Login_Guarantees.thy ===== *)
theory Login_Guarantees
  imports Login_Recovery
begin

text \<open>
  What the login service promises: its properties over whole runs, read off the invariant, the finality
  of finished attempts, what a restart does, and the contracts of creating and deleting tasks. The
  service starts on tables that satisfy the invariant of the tables, with the identifiers in them
  issued; the empty tables of a new installation are such tables.
\<close>

section \<open>Finished attempts are final\<close>

text \<open>Every attempt moves forward, or its task is gone.\<close>

definition kept :: "login_db \<Rightarrow> login_db \<Rightarrow> bool" where
  "kept d d' \<longleftrightarrow> (\<forall>a \<in> set (login_attempts d).
     (\<exists>a' \<in> set (login_attempts d'). attempt_progress a a') \<or> la_task a \<notin> lt_id ` set (login_tasks d'))"

lemma kept_progressed: "progressed d d' \<Longrightarrow> kept d d'"
  using progressed_attempt_forth [of d d'] by (auto simp: kept_def)

lemma kept_refl [simp]: "kept d d"
  by (rule kept_progressed) simp

lemma kept_then_progressed:
  assumes "kept d d1" "progressed d1 d2"
  shows "kept d d2"
  unfolding kept_def
proof
  fix a assume "a \<in> set (login_attempts d)"
  then consider a1 where "a1 \<in> set (login_attempts d1)" "attempt_progress a a1" | "la_task a \<notin> lt_id ` set (login_tasks d1)"
    using assms(1) by (auto simp: kept_def)
  then show "(\<exists>a' \<in> set (login_attempts d2). attempt_progress a a') \<or> la_task a \<notin> lt_id ` set (login_tasks d2)"
  proof cases
    case 1
    then show ?thesis using progressed_attempt_forth [OF assms(2)] attempt_progress_trans by blast
  next
    case 2
    then show ?thesis using set_map_eq [OF progressed_maps(1) [OF assms(2)]] by simp
  qed
qed

lemma progressed_then_kept:
  assumes "progressed d d1" "kept d1 d2"
  shows "kept d d2"
  unfolding kept_def
proof
  fix a assume "a \<in> set (login_attempts d)"
  then obtain a1 where "a1 \<in> set (login_attempts d1)" "attempt_progress a a1" using progressed_attempt_forth [OF assms(1)] by blast
  moreover from this have "(\<exists>a' \<in> set (login_attempts d2). attempt_progress a1 a') \<or> la_task a1 \<notin> lt_id ` set (login_tasks d2)"
    using assms(2) by (simp add: kept_def)
  ultimately show "(\<exists>a' \<in> set (login_attempts d2). attempt_progress a a') \<or> la_task a \<notin> lt_id ` set (login_tasks d2)"
    using attempt_progress_trans by (metis attempt_progress_def)
qed

lemma kept_more: "set (login_attempts d) \<subseteq> set (login_attempts d') \<Longrightarrow> kept d d'"
  unfolding kept_def using attempt_progress_refl by blast

interpretation run_catch: progress_op "\<lambda>d. snd (run_catch now x i p aborted writing e d)"
  using progress_op_id markFailed.progress_op_axioms by (cases aborted) (simp_all add: run_catch_def Let_def)

interpretation runLoginTask_begin: progress_op "\<lambda>d. snd (runLoginTask_begin now mkLog es task p d)"
proof unfold_locales
  fix d assume inv: "login_inv d"
  have "progressed d (snd (runLoginTask_begin now mkLog es task p d)) \<and> coherent (snd (runLoginTask_begin now mkLog es task p d))"
  proof (cases "mkLog p")
    case (Inr path)
    let ?x = "lt_enterprise task" and ?i = "lt_id task"
    let ?d1 = "snd (markRunning now ?x ?i path (Some (rq_attempt p)) d)"
    note m = markRunning.progress [OF inv, of now ?x ?i path "Some (rq_attempt p)"] markRunning.inv [OF inv, of now ?x ?i path "Some (rq_attempt p)"]
    consider "snd (runLoginTask_begin now mkLog es task p d) = ?d1"
      | e where "snd (runLoginTask_begin now mkLog es task p d) = snd (run_catch now ?x ?i p False False e ?d1)"
      using Inr by (cases "run_checks es task p"; cases "fst (markRunning now ?x ?i path (Some (rq_attempt p)) d) = None")
        (auto simp: runLoginTask_begin_def split_beta)
    then show ?thesis
    proof cases
      case 1
      then show ?thesis using m login_inv_parts(3) by simp
    next
      case (2 e)
      then show ?thesis using progressed_trans [OF m(1) run_catch.progress [OF m(2)]] run_catch.keeps_coherent [OF m(2)] by simp
    qed
  qed (simp add: runLoginTask_begin_def login_inv_parts(3) [OF inv])
  then show "progressed d (snd (runLoginTask_begin now mkLog es task p d))" "coherent (snd (runLoginTask_begin now mkLog es task p d))" by simp_all
qed

interpretation runLoginTask_token: progress_op "\<lambda>d. snd (runLoginTask_token now r result d)"
  using run_catch.progress_op_axioms setStage.progress_op_axioms
  by (cases result; cases "run_aborted r") (simp_all add: runLoginTask_token_def Let_def)

interpretation runLoginTask_saved: progress_op "\<lambda>d. snd (runLoginTask_saved now r reply d)"
  using run_catch.progress_op_axioms markSuccess.progress_op_axioms
  by (cases reply) (simp_all add: runLoginTask_saved_def Let_def)

interpretation run_rejected: progress_op "\<lambda>d. snd (run_rejected now r message d)"
  using progress_op_id markFailed.progress_op_axioms
  by (cases "run_aborted r") (simp_all add: run_rejected_def failRun_def)

lemma start_db: "lw_db (start now mkLog task p w) = snd (runLoginTask_begin now mkLog (lw_enterprises w) task p (lw_db w))"
  by (simp add: start_def split_beta)

lemma drain_loop_progress:
  "login_inv (lw_db w) \<Longrightarrow> progressed (lw_db w) (lw_db (drain_loop now mkLog ps w)) \<and> login_inv (lw_db (drain_loop now mkLog ps w))"
proof (induction ps arbitrary: w)
  case (Cons p ps)
  have "progressed (lw_db w) (lw_db (start now mkLog task p w)) \<and> login_inv (lw_db (start now mkLog task p w))" for task
    unfolding start_db using runLoginTask_begin.progress [OF Cons.prems] runLoginTask_begin.inv [OF Cons.prems] by simp
  then show ?case using Cons.IH Cons.prems progressed_trans by (auto split: option.split) blast+
qed simp

lemma drain_progress:
  "login_inv (lw_db w) \<Longrightarrow> progressed (lw_db w) (lw_db (drain now mkLog w)) \<and> login_inv (lw_db (drain now mkLog w))"
  using drain_loop_progress by (simp add: drain_def)

lemma kept_createTask:
  assumes "login_inv d" "createTask now fresh x inp d = Inr (r, d')"
  shows "kept d d'"
  by (rule createTask_cases [OF assms]) (auto intro: kept_more)

lemma kept_enqueue:
  assumes inv: "login_inv (lw_db w)" and e: "enqueue now mkLog fresh x request w = Inr (task, w')" and att: "rq_attempt request \<noteq> []"
    and fresh: "\<forall>a \<in> set (login_attempts (lw_db w)). la_task a \<noteq> fresh"
  shows "kept (lw_db w) (lw_db w')"
proof -
  obtain d where c: "createTask now fresh x (create_input request) (lw_db w) = Inr (Some task, d)"
    and w': "w' = (if isBusy (w\<lparr>lw_db := d\<rparr>) (lt_id task) \<or> lt_status task \<noteq> TaskPending \<or> lt_stage task \<noteq> Some ''queued'' then w\<lparr>lw_db := d\<rparr>
      else drain now mkLog (w\<lparr>lw_db := d, lw_pending := lw_pending w @ [payload_of request x (lt_id task)]\<rparr>))"
    using e by (auto simp: enqueue_def Let_def split: sum.splits option.splits if_splits)
  have "login_inv d" by (rule createTask_inv [OF inv c]) (use att in simp)
  then have "progressed d (lw_db w')"
    using drain_progress [of "w\<lparr>lw_db := d, lw_pending := lw_pending w @ [payload_of request x (lt_id task)]\<rparr>"] w' by simp
  then show ?thesis by (rule kept_then_progressed [OF kept_createTask [OF inv c]])
qed

lemma kept_reserve:
  assumes inv: "login_inv d" and r: "reserveRetry now x task aid d = Inr (r, d')"
  shows "kept d d'"
  by (rule reserveRetry_cases [OF assms]) (auto intro: kept_more)

lemma kept_deleteTask:
  assumes "login_inv d"
  shows "kept d (snd (deleteTask x i d))"
proof (cases rule: deleteTask_cases [OF assms, of x i])
  case (2 t)
  then show ?thesis unfolding kept_def by (auto intro: attempt_progress_refl)
qed simp

lemma queue_retry_progress:
  assumes inv: "login_inv (lw_db w)"
  shows "progressed (lw_db w) (lw_db (queue_retry now mkLog task request w))"
proof -
  let ?d = "setStage now (lt_enterprise task) (lt_id task) (rq_attempt request) ''queued'' (lw_db w)"
  have "progressed (lw_db w) ?d" "login_inv ?d" by (rule setStage.progress [OF inv], rule setStage.inv [OF inv])
  then have "progressed (lw_db w) (lw_db (drain now mkLog w1))" if "lw_db w1 = ?d" for w1
    using progressed_trans [OF _ drain_progress [THEN conjunct1]] that by metis
  then show ?thesis by (auto simp: queue_retry_def Let_def split: option.split)
qed

lemma cancel_db: "lw_db (snd (cancel x i w)) = snd (requestCancellation x i (lw_db w))"
  by (auto simp: cancel_def Let_def split_beta split: option.split)

lemma finishCancellation_progress:
  "login_inv (lw_db w) \<Longrightarrow> progressed (lw_db w) (lw_db (finishCancellation now c w))"
  using markCancelled.progress by (auto simp: finishCancellation_def Let_def end_cancellation_def split: option.split)

lemma retryTask_prepared_progress:
  assumes "login_inv (lw_db w)"
  shows "progressed (lw_db w) (lw_db (retryTask_prepared now mkLog rw prepared w))"
  using queue_retry_progress [OF assms] markFailed.progress [OF assms] requestCancellation.progress [OF assms]
  by (cases prepared) (simp_all add: retryTask_prepared_def Let_def cancel_db)

lemma deleteLoginTask_end_kept:
  assumes inv: "login_inv (lw_db w)"
  shows "kept (lw_db w) (lw_db (snd (deleteLoginTask_end x i unlinked w)))"
  using kept_progressed [OF releaseTaskDeletion.progress [OF inv]]
    kept_then_progressed [OF kept_deleteTask [OF inv] releaseTaskDeletion.progress [OF deleteTask_inv [OF inv]]]
  by (cases unlinked) (simp_all add: deleteLoginTask_end_def split_beta)

lemma startServer_progress:
  assumes inv: "login_inv d" and s: "startServer sha256 now profiles row d = Inr w'"
  shows "kept d (lw_db w')"
proof -
  obtain d1 s where d1: "syncEnterprises now (map (loginEnterpriseSeed sha256) profiles) d = Inr d1"
    and w': "lw_db w' = snd (recoverLoginOutcomes now (map pr_id profiles) d1)"
    by (rule startServer_Inr [OF s]) auto
  note k = syncEnterprises_kept [OF inv d1]
  have "kept d d1" by (rule kept_more) (simp add: k(3))
  then show ?thesis unfolding w' by (rule kept_then_progressed) (rule recoverLoginOutcomes.progress [OF k(1)])
qed

lemma set_phase_db [simp]: "lw_db (set_phase r pd w) = snd pd"
  by (simp add: set_phase_def)

lemma finish_run_progress:
  "login_inv (lw_db w) \<Longrightarrow> progressed (lw_db w) (lw_db (finish_run now mkLog r w))"
  using drain_progress [of "w\<lparr>lw_active := filter (\<lambda>j. j \<noteq> pl_task (run_payload r)) (lw_active w),
           lw_runs := filter (\<lambda>q. pl_task (run_payload q) \<noteq> pl_task (run_payload r)) (lw_runs w)\<rparr>" now mkLog]
  by (simp add: finish_run_def Let_def)

lemma kept_step:
  assumes "login_step U w U' w'" "service_inv U w"
  shows "kept (lw_db w) (lw_db w')"
proof -
  have base: "base_inv U w" using assms(2) by (simp add: service_inv_def)
  note inv = base_parts(1) [OF base]
  show ?thesis
    using assms(1) inv base
  proof (cases rule: login_step.cases)
    case (Enqueue now mkLog fresh x request task)
    have "la_task a \<noteq> fresh" if "a \<in> set (login_attempts (lw_db w))" for a
      using keys_task_of [OF login_inv_parts(1) [OF inv] that] base_parts(3) [OF base] Enqueue(3) by (auto simp: issued_ok_def)
    then show ?thesis using kept_enqueue [OF inv Enqueue(2,5)] by blast
  next
    case (RetryReserve c now aid reply)
    then show ?thesis using kept_reserve [OF inv]
      by (fastforce simp: retryTask_reserve_def split: sum.splits prod.splits option.splits)
  next
    case (DeleteClaim x i protection result)
    then show ?thesis using kept_progressed [OF claimTaskDeletion.progress [OF inv]]
      by (auto simp: deleteLoginTask_claim_def split_beta Let_def split: sum.splits if_splits)
  next
    case (RetryBegin e i override)
    then show ?thesis by (auto simp: retryTask_begin_def split: option.splits if_splits sum.splits)
  next
    case (RetryPrepared rw now mkLog prepared)
    then show ?thesis
      using kept_progressed [OF retryTask_prepared_progress [of "w\<lparr>lw_retries := remove1 rw (lw_retries w)\<rparr>" now mkLog rw prepared]] inv by simp
  next
    case (Settings now body s row mkLog)
    then show ?thesis using kept_progressed drain_progress [of "w\<lparr>lw_row := row, lw_settings := s\<rparr>" now mkLog] inv by simp
  qed (simp_all add: kept_progressed requestCancellation.progress cancel_db finishCancellation_progress end_cancellation_def run_stage_def Let_def
      setStage.progress runLoginTask_token.progress runLoginTask_saved.progress run_rejected.progress finish_run_progress
      retryTask_prepared_progress deleteLoginTask_end_kept drain_progress stopAccepting_def startServer_progress)
qed

section \<open>Runs of the service\<close>

definition tables_ok :: "string set \<Rightarrow> login_db \<Rightarrow> bool" where
  "tables_ok U d \<longleftrightarrow> login_inv d \<and> (\<forall>t \<in> set (login_tasks d). lt_id t \<in> U \<and> CHR '':'' \<notin> set (lt_id t)) \<and>
     (\<forall>a \<in> set (login_attempts d). la_id a \<in> U)"

definition empty_login_db :: login_db where
  "empty_login_db = \<lparr>login_enterprises = [], login_tasks = [], login_attempts = []\<rparr>"

lemma empty_tables_ok: "tables_ok U empty_login_db"
  by (simp add: tables_ok_def empty_login_db_def login_inv_def keys_inv_def exclusive_inv_def coherent_def)

lemma reachable_inv:
  assumes "tables_ok U d" "startServer sha256 now profiles row d = Inr w" "login_run_to U w U' w'"
  shows "service_inv U' w'"
proof -
  have "service_inv U w" by (rule restart_inv [OF _ _ _ assms(2)]) (use assms(1) in \<open>simp_all add: tables_ok_def\<close>)
  then show ?thesis by (rule service_run [OF assms(3)])
qed

lemma active_current:
  assumes inv: "login_inv d" and l: "no_legacy d" and t: "t \<in> set (login_tasks d)" "isActiveStatus (lt_status t)"
  obtains a where "a \<in> set (login_attempts d)" "lt_attempt t = Some (la_id a)" "la_task a = lt_id t" "la_status a = lt_status t"
    "\<forall>b \<in> set (login_attempts d). la_task b = lt_id t \<longrightarrow> b \<noteq> a \<longrightarrow> la_number b < la_number a \<and> isFinishedStatus (la_status b)"
proof -
  obtain aid where aid: "lt_attempt t = Some aid" using l t by (auto simp: no_legacy_def)
  obtain a where a: "a \<in> set (login_attempts d)" "la_id a = aid" "la_task a = lt_id t" "la_status a = lt_status t"
    "\<forall>b \<in> set (login_attempts d). la_task b = lt_id t \<longrightarrow> la_number b \<le> la_number a"
    by (rule current_attemptE [OF login_inv_parts(3) [OF inv] t(1) aid])
  have "la_number b < la_number a \<and> isFinishedStatus (la_status b)"
    if b: "b \<in> set (login_attempts d)" "la_task b = lt_id t" "b \<noteq> a" for b
  proof
    have "distinct (map (\<lambda>a. (la_task a, la_number a)) (login_attempts d))" using inv by (simp add: login_inv_def keys_inv_def)
    then have "la_number b = la_number a \<Longrightarrow> b = a" by (rule distinct_map_eqD [OF _ b(1) a(1)]) (simp add: a(3) b(2))
    then have "la_number b \<noteq> la_number a" using b(3) by blast
    then show "la_number b < la_number a" using a(5) b by force
    have "la_id b \<noteq> aid" using attempt_unique [OF login_inv_parts(1) [OF inv] b(1) a(1)] a(2) b(3) by metis
    then show "isFinishedStatus (la_status b)"
      using history_okD [OF coherent_history [OF login_inv_parts(3) [OF inv] b(1)] _ t(1)] aid b(2) by (auto simp: finished_iff)
  qed
  then show thesis using that a(1-4) aid by simp
qed

text \<open>A service with one enterprise on empty tables, and its first task.\<close>

definition example_profiles :: "LoginProfile list" where
  "example_profiles = [\<lparr>pr_id = ''acme'', pr_base_url = ''https://github.com'', pr_is_ghe = False, pr_slug = None, pr_client_id = Some ''client'',
     pr_sso_provider = Some SsoCustom, pr_sso_login_url = Some ''https://sso'', pr_blockers = []\<rparr>]"

definition example_world :: login_world where
  "example_world = projr (startServer (\<lambda>s. s) 1 example_profiles (Some example_row) empty_login_db)"

definition example_request :: "string \<Rightarrow> string \<Rightarrow> LoginTaskRequest" where
  "example_request ident aid = \<lparr>rq_identity = ident, rq_sso_user = ''user'', rq_password = ''secret'', rq_gh_login = ''user_acme'',
     rq_attempt = aid, rq_sso_type = SsoCustom\<rparr>"

definition example_log :: "RuntimeTaskPayload \<Rightarrow> string login_res" where
  "example_log p = Inr ''task.log''"

definition example_submit :: "string \<Rightarrow> string \<Rightarrow> string \<Rightarrow> login_world \<Rightarrow> login_world" where
  "example_submit i ident aid w = snd (projr (enqueue 2 example_log i ''acme'' (example_request ident aid) w))"

definition example_busy :: login_world where
  "example_busy = example_submit ''t2'' ''bob'' ''a2'' (example_submit ''t1'' ''ann'' ''a1'' example_world)"

lemma isl_projr: "\<not> isl r \<Longrightarrow> r = Inr (projr r)"
  by (cases r) simp_all

lemma example_start: "startServer (\<lambda>s. s) 1 example_profiles (Some example_row) empty_login_db = Inr example_world"
  unfolding example_world_def by (rule isl_projr) code_simp

lemma example_enqueue:
  assumes "\<not> isl (enqueue 2 example_log i ''acme'' (example_request ident aid) w)" "i \<notin> U" "CHR '':'' \<notin> set i" "aid \<noteq> []"
  shows "login_step U w (U \<union> {i, aid}) (example_submit i ident aid w)"
proof -
  have "enqueue 2 example_log i ''acme'' (example_request ident aid) w =
      Inr (fst (projr (enqueue 2 example_log i ''acme'' (example_request ident aid) w)), example_submit i ident aid w)"
    using isl_projr [OF assms(1)] by (simp add: example_submit_def)
  from login_step.Enqueue [OF this assms(2,3)] show ?thesis using assms(4) by (simp add: example_request_def)
qed

lemma example_login_run: "login_run_to {} example_world {''t1'', ''a1'', ''t2'', ''a2''} example_busy"
proof -
  have "login_step {} example_world ({} \<union> {''t1'', ''a1''}) (example_submit ''t1'' ''ann'' ''a1'' example_world)"
    by (rule example_enqueue) (simp_all, code_simp)
  moreover have "login_step ({} \<union> {''t1'', ''a1''}) (example_submit ''t1'' ''ann'' ''a1'' example_world) ({} \<union> {''t1'', ''a1''} \<union> {''t2'', ''a2''}) example_busy"
    unfolding example_busy_def by (rule example_enqueue) (simp_all, code_simp)
  ultimately have "login_run_to {} example_world ({} \<union> {''t1'', ''a1''} \<union> {''t2'', ''a2''}) example_busy"
    using login_run_to.intros by blast
  then show ?thesis by (simp add: insert_commute)
qed

text \<open>
  C3. In every reachable state of the login service an account has at most one active task, across all
  enterprises, and an active task's current attempt has the task's status and the highest number of its
  attempts; all its earlier attempts are finished.
\<close>

theorem login_tasks_exclusive:
  assumes "tables_ok U d" "startServer sha256 now profiles row d = Inr w" "login_run_to U w U' w'"
    and t: "t \<in> set (login_tasks (lw_db w'))" "isActiveStatus (lt_status t)"
  shows "(\<forall>u \<in> set (login_tasks (lw_db w')). isActiveStatus (lt_status u) \<longrightarrow> lt_identity u = lt_identity t \<longrightarrow> u = t) \<and>
    (\<exists>a \<in> set (login_attempts (lw_db w')). lt_attempt t = Some (la_id a) \<and> la_task a = lt_id t \<and> la_status a = lt_status t \<and>
      (\<forall>b \<in> set (login_attempts (lw_db w')). la_task b = lt_id t \<longrightarrow> b \<noteq> a \<longrightarrow> la_number b < la_number a \<and> isFinishedStatus (la_status b)))"
proof -
  have "base_inv U' w'" using reachable_inv [OF assms(1-3)] by (simp add: service_inv_def)
  then have inv: "login_inv (lw_db w')" and l: "no_legacy (lw_db w')" by (simp_all add: base_inv_def)
  obtain a where a: "a \<in> set (login_attempts (lw_db w'))" "lt_attempt t = Some (la_id a)" "la_task a = lt_id t" "la_status a = lt_status t"
    "\<forall>b \<in> set (login_attempts (lw_db w')). la_task b = lt_id t \<longrightarrow> b \<noteq> a \<longrightarrow> la_number b < la_number a \<and> isFinishedStatus (la_status b)"
    by (rule active_current [OF inv l t])
  have "\<forall>u \<in> set (login_tasks (lw_db w')). isActiveStatus (lt_status u) \<longrightarrow> lt_identity u = lt_identity t \<longrightarrow> u = t"
    using exclusive_eq [OF login_inv_parts(2) [OF inv] _ t(1) _ t(2)] by blast
  moreover have "\<exists>a \<in> set (login_attempts (lw_db w')). lt_attempt t = Some (la_id a) \<and> la_task a = lt_id t \<and> la_status a = lt_status t \<and>
      (\<forall>b \<in> set (login_attempts (lw_db w')). la_task b = lt_id t \<longrightarrow> b \<noteq> a \<longrightarrow> la_number b < la_number a \<and> isFinishedStatus (la_status b))"
    by (rule bexI [OF _ a(1)]) (use a(2-) in blast)
  ultimately show ?thesis by (rule conjI)
qed

theorem login_tasks_exclusive_witness:
  "isActiveStatus (lt_status (hd (login_tasks (lw_db example_busy)))) \<and>
    (\<exists>a \<in> set (login_attempts (lw_db example_busy)). lt_attempt (hd (login_tasks (lw_db example_busy))) = Some (la_id a) \<and>
      la_status a = lt_status (hd (login_tasks (lw_db example_busy))))"
proof -
  have t: "hd (login_tasks (lw_db example_busy)) \<in> set (login_tasks (lw_db example_busy))"
    and a: "isActiveStatus (lt_status (hd (login_tasks (lw_db example_busy))))" by code_simp+
  show ?thesis using login_tasks_exclusive [OF empty_tables_ok example_start example_login_run t a] a by blast
qed

text \<open>
  C14. Every running task occupies a slot of the queue with a run of its current attempt, no task
  occupies two slots, and at most twenty tasks run at a time.
\<close>

theorem running_tasks_bounded:
  assumes "tables_ok U d" "startServer sha256 now profiles row d = Inr w" "login_run_to U w U' w'"
  shows "length (filter (\<lambda>t. lt_status t = TaskRunning) (login_tasks (lw_db w'))) \<le> length (lw_active w') \<and>
    length (lw_active w') \<le> 20 \<and> distinct (lw_active w') \<and> lw_active w' = map (\<lambda>r. pl_task (run_payload r)) (lw_runs w') \<and>
    (\<forall>t \<in> set (login_tasks (lw_db w')). lt_status t = TaskRunning \<longrightarrow>
      (\<exists>r \<in> set (lw_runs w'). pl_task (run_payload r) = lt_id t \<and> lt_attempt t = Some (rq_attempt (run_payload r))))"
proof -
  have base: "base_inv U' w'" using reachable_inv [OF assms] by (simp add: service_inv_def)
  note b = base_parts [OF base] and s = slotsD [OF base_parts(5) [OF base]]
  let ?ts = "filter (\<lambda>t. lt_status t = TaskRunning) (login_tasks (lw_db w'))"
  have run: "\<exists>r \<in> set (lw_runs w'). pl_task (run_payload r) = lt_id t \<and> lt_attempt t = Some (rq_attempt (run_payload r))"
    if "t \<in> set (login_tasks (lw_db w'))" "lt_status t = TaskRunning" for t
    using b(6) that by (simp add: work_ok_def payload_for_def)
  have "distinct (map lt_id ?ts)" by (rule distinct_map_filter [OF keys_tasks [OF login_inv_parts(1) [OF b(1)]]])
  moreover have "set (map lt_id ?ts) \<subseteq> set (lw_active w')"
  proof
    fix i assume "i \<in> set (map lt_id ?ts)"
    then obtain t where "t \<in> set (login_tasks (lw_db w'))" "lt_status t = TaskRunning" "lt_id t = i" by auto
    then show "i \<in> set (lw_active w')" using run [of t] s(1) by force
  qed
  ultimately have "card (set (map lt_id ?ts)) = length (map lt_id ?ts) \<and> card (set (map lt_id ?ts)) \<le> card (set (lw_active w'))"
    by (intro conjI distinct_card card_mono [OF finite_set])
  then have "length ?ts \<le> length (lw_active w')" using card_length [of "lw_active w'"] by (simp only: length_map) linarith
  then show ?thesis using s run by blast
qed

theorem running_tasks_bounded_witness:
  "length (filter (\<lambda>t. lt_status t = TaskRunning) (login_tasks (lw_db example_busy))) = 1 \<and> length (lw_active example_busy) \<le> 20 \<and>
    length (lw_active example_busy) \<ge> 1"
proof -
  have n: "length (filter (\<lambda>t. lt_status t = TaskRunning) (login_tasks (lw_db example_busy))) = 1" by code_simp
  note b = running_tasks_bounded [OF empty_tables_ok example_start example_login_run]
  show ?thesis by (intro conjI n) (use n conjunct1 [OF b] conjunct1 [OF conjunct2 [OF b]] in linarith)+
qed

text \<open>
  C15. No queued task is lost and no slot idles: a pending task in the stage \<open>queued\<close> has its payload in
  the queue or in a run, no task is queued twice or both queued and run, and while the service accepts
  work the queue is empty or every slot of the configured concurrency is taken.
\<close>

theorem queued_tasks_kept:
  assumes "tables_ok U d" "startServer sha256 now profiles row d = Inr w" "login_run_to U w U' w'"
  shows "(\<forall>t \<in> set (login_tasks (lw_db w')). lt_status t = TaskPending \<longrightarrow> lt_stage t = Some ''queued'' \<longrightarrow>
      (\<exists>p \<in> set (lw_pending w') \<union> run_payload ` set (lw_runs w'). pl_task p = lt_id t \<and> lt_attempt t = Some (rq_attempt p))) \<and>
    distinct (map pl_task (lw_pending w') @ lw_active w') \<and>
    (lw_accepting w' \<longrightarrow> lw_pending w' = [] \<or> getConcurrency w' \<le> int (length (lw_active w')))"
proof -
  have base: "base_inv U' w'" and cons: "conserving w'" using reachable_inv [OF assms] by (simp_all add: service_inv_def)
  have "distinct (map pl_task (lw_pending w') @ lw_active w')"
    using base_parts(5) [OF base] unfolding slots_ok_def distinct_append set_map by blast
  then show ?thesis using base_parts(6) [OF base] cons by (simp add: work_ok_def payload_for_def conserving_def)
qed

theorem queued_tasks_kept_witness:
  "lw_accepting example_busy \<and> length (lw_pending example_busy) = 1 \<and> getConcurrency example_busy \<le> int (length (lw_active example_busy))"
proof -
  have "lw_accepting example_busy" "length (lw_pending example_busy) = 1" by code_simp+
  then show ?thesis using queued_tasks_kept [OF empty_tables_ok example_start example_login_run] by auto
qed

text \<open>
  C16. A finished attempt is final: a step from a reachable state leaves the status of every finished
  attempt as it is, unless it deletes the attempt's task.
\<close>

theorem finished_attempts_final:
  assumes "tables_ok U d" "startServer sha256 now profiles row d = Inr w" "login_run_to U w U1 w1" "login_step U1 w1 U2 w2"
    and a: "a \<in> set (login_attempts (lw_db w1))" "isFinishedStatus (la_status a)"
  shows "(\<exists>a' \<in> set (login_attempts (lw_db w2)). la_id a' = la_id a \<and> la_task a' = la_task a \<and> la_number a' = la_number a \<and>
      la_status a' = la_status a) \<or> la_task a \<notin> lt_id ` set (login_tasks (lw_db w2))"
proof -
  have "kept (lw_db w1) (lw_db w2)" by (rule kept_step [OF assms(4) reachable_inv [OF assms(1-3)]])
  then show ?thesis using a finished_is_final unfolding kept_def attempt_progress_def by blast
qed

definition example_failed :: login_world where
  "example_failed = (let r = hd (lw_runs example_busy)
     in set_phase r (runLoginTask_token 3 r (Inl (OtherError ''refused'')) (lw_db example_busy)) example_busy)"

definition example_closed :: login_world where
  "example_closed = (let r = hd (lw_runs example_failed)
     in set_phase r (run_rejected 4 r ''refused'' (lw_db example_failed)) example_failed)"

theorem finished_attempts_final_witness:
  "\<exists>a' \<in> set (login_attempts (lw_db example_closed)). la_id a' = ''a1'' \<and> la_status a' = TaskFailed"
proof -
  have r: "hd (lw_runs example_busy) \<in> set (lw_runs example_busy)" "run_phase (hd (lw_runs example_busy)) = DeviceFlow" by code_simp+
  have "login_step {''t1'', ''a1'', ''t2'', ''a2''} example_busy {''t1'', ''a1'', ''t2'', ''a2''} example_failed"
    unfolding example_failed_def Let_def by (rule login_step.RunToken [OF r])
  with example_login_run have run: "login_run_to {} example_world {''t1'', ''a1'', ''t2'', ''a2''} example_failed" by (rule login_run_to.Step)
  have f: "hd (lw_runs example_failed) \<in> set (lw_runs example_failed)" "run_phase (hd (lw_runs example_failed)) = Rejected ''refused''" by code_simp+
  have step: "login_step {''t1'', ''a1'', ''t2'', ''a2''} example_failed {''t1'', ''a1'', ''t2'', ''a2''} example_closed"
    unfolding example_closed_def Let_def by (rule login_step.RunRejected [OF f])
  let ?a = "hd (login_attempts (lw_db example_failed))"
  have a: "?a \<in> set (login_attempts (lw_db example_failed))" "isFinishedStatus (la_status ?a)" by code_simp+
  have c: "la_id ?a = ''a1''" "la_status ?a = TaskFailed" "\<not> la_task ?a \<notin> lt_id ` set (login_tasks (lw_db example_closed))" by code_simp+
  show ?thesis using finished_attempts_final [OF empty_tables_ok example_start run step a] c by metis
qed

section \<open>Restart, creation and deletion\<close>

text \<open>
  C17. A start closes everything: it succeeds only if every task's enterprise is registered, and then no
  task and no attempt of any enterprise is left unfinished, no task or attempt appears or disappears,
  those that were finished keep their status, and the queue starts empty and accepting.
\<close>

theorem startServer_closes_all:
  assumes inv: "login_inv d" and s: "startServer sha256 now profiles row d = Inr w"
  shows "(\<forall>t \<in> set (login_tasks (lw_db w)). isFinishedStatus (lt_status t)) \<and>
    (\<forall>a \<in> set (login_attempts (lw_db w)). isFinishedStatus (la_status a)) \<and>
    map lt_id (login_tasks (lw_db w)) = map lt_id (login_tasks d) \<and> map la_id (login_attempts (lw_db w)) = map la_id (login_attempts d) \<and>
    (\<forall>t \<in> set (login_tasks d). isFinishedStatus (lt_status t) \<longrightarrow> (\<exists>t' \<in> set (login_tasks (lw_db w)). lt_id t' = lt_id t \<and> lt_status t' = lt_status t)) \<and>
    lt_enterprise ` set (login_tasks (lw_db w)) \<subseteq> pr_id ` set profiles \<and> lw_pending w = [] \<and> lw_active w = [] \<and> lw_accepting w"
proof -
  note t = startServer_tables [OF inv s]
  obtain d1 s0 where d1: "syncEnterprises now (map (loginEnterpriseSeed sha256) profiles) d = Inr d1"
    and w: "lw_db w = snd (recoverLoginOutcomes now (map pr_id profiles) d1)" "lw_pending w = []" "lw_active w = []" "lw_accepting w"
    by (rule startServer_Inr [OF s]) auto
  note k = syncEnterprises_kept [OF inv d1]
  have p: "progressed d1 (lw_db w)" unfolding w(1) by (rule recoverLoginOutcomes.progress [OF k(1)])
  have ft: "isFinishedStatus (lt_status t)" if "t \<in> set (login_tasks (lw_db w))" for t using t(2) that by (simp add: finished_rows_def)
  have fa: "isFinishedStatus (la_status a)" if a: "a \<in> set (login_attempts (lw_db w))" for a
  proof (rule ccontr)
    assume n: "\<not> isFinishedStatus (la_status a)"
    obtain t where u: "t \<in> set (login_tasks (lw_db w))" "lt_id t = la_task a" using keys_task_of [OF login_inv_parts(1) [OF t(1)] a] by blast
    then have "lt_attempt t = Some (la_id a)"
      using history_okD [OF coherent_history [OF login_inv_parts(3) [OF t(1)] a] _ u] n ft [OF u(1)] by (auto simp: finished_iff)
    then show False using current_is_own(2) [OF t(1) u(1) _ a refl] ft [OF u(1)] n by simp
  qed
  have own: "lt_enterprise ` set (login_tasks (lw_db w)) \<subseteq> pr_id ` set profiles"
    using set_map_eq [OF progressed_maps(2) [OF p]] k(4) unfolding seed_ids by simp
  have same: "\<exists>t' \<in> set (login_tasks (lw_db w)). lt_id t' = lt_id t \<and> lt_status t' = lt_status t"
    if "t \<in> set (login_tasks d)" "isFinishedStatus (lt_status t)" for t
    using progressed_task_forth [OF p, of t] k(2) that finished_is_final unfolding task_progress_def by metis
  show ?thesis using ft fa t(3,4) own same w(2-4) by blast
qed

theorem startServer_closes_all_witness:
  "map lt_status (login_tasks (lw_db example_busy)) = [TaskRunning, TaskPending] \<and>
    (\<exists>w. startServer (\<lambda>s. s) 9 example_profiles (Some example_row) (lw_db example_busy) = Inr w \<and>
      list_all (\<lambda>t. isFinishedStatus (lt_status t)) (login_tasks (lw_db w)) \<and> map lt_id (login_tasks (lw_db w)) = [''t1'', ''t2''])"
proof -
  have "service_inv {''t1'', ''a1'', ''t2'', ''a2''} example_busy" by (rule reachable_inv [OF empty_tables_ok example_start example_login_run])
  then have inv: "login_inv (lw_db example_busy)" by (simp add: service_inv_def base_inv_def)
  have r: "\<not> isl (startServer (\<lambda>s. s) 9 example_profiles (Some example_row) (lw_db example_busy))" by code_simp
  have m: "map lt_status (login_tasks (lw_db example_busy)) = [TaskRunning, TaskPending]" "map lt_id (login_tasks (lw_db example_busy)) = [''t1'', ''t2'']"
    by code_simp+
  show ?thesis using startServer_closes_all [OF inv isl_projr [OF r]] isl_projr [OF r] m by (auto simp: list_all_iff)
qed

lemma find_fresh: "(\<forall>y \<in> set xs. \<not> P y) \<Longrightarrow> P x \<Longrightarrow> find P (xs @ [x]) = Some x"
  by (induction xs) auto

lemma sort_key_one: "sort_key f [x] = [x]"
  by simp

lemma attemptOwner_new:
  assumes "\<forall>a \<in> set (login_attempts d). la_id a \<noteq> aid" "\<forall>t \<in> set (login_tasks d). lt_id t \<noteq> i"
  shows "attemptOwner aid (d\<lparr>login_tasks := login_tasks d @ [new_task now x i inp], login_attempts := login_attempts d @ [new_attempt now i aid n st]\<rparr>) =
    Some (i, x)"
  using assms by (simp add: attemptOwner_def find_fresh new_task_def)

text \<open>
  C29. Submitting an authorization attempt twice has the effect of submitting it once: the repetition
  returns the task of the first submission, whatever its fresh identifier and time, and changes nothing.
  The first submission either created exactly one pending task with one attempt, for an account without
  an active task, or found the attempt already known.
\<close>

theorem createTask_idempotent:
  assumes inv: "login_inv d" and c: "createTask now fresh x inp d = Inr (r, d')"
  shows "createTask now' fresh' x inp d' = Inr (r, d') \<and>
    (d' = d \<or> \<not> hasActiveTask (ct_identity inp) d \<and> login_tasks d' = login_tasks d @ [new_task now x fresh inp] \<and>
      login_attempts d' = login_attempts d @ [new_attempt now fresh (ct_attempt inp) 1 ''queued''])"
proof (cases "attemptOwner (ct_attempt inp) d")
  case (Some owner)
  then obtain task where task: "existingTaskForAttempt x owner inp d = Inr task" "r = Some task" "d' = d"
    using c by (cases "existingTaskForAttempt x owner inp d") (simp_all add: createTask_def)
  then show ?thesis using Some by (simp add: createTask_def)
next
  case None
  let ?t = "new_task now x fresh inp" and ?a = "new_attempt now fresh (ct_attempt inp) 1 ''queued''"
  have noact: "\<not> hasActiveTask (ct_identity inp) d" using c None by (auto simp: createTask_def split: if_splits)
  then have ins: "insertTask now x fresh inp d = Inr d'" "r = getTask x fresh d'" using c None
    by (cases "insertTask now x fresh inp d", simp_all add: createTask_def)+
  have d': "d' = d\<lparr>login_tasks := login_tasks d @ [?t], login_attempts := login_attempts d @ [?a]\<rparr>"
    and fr: "\<forall>t \<in> set (login_tasks d). lt_id t \<noteq> fresh" "\<forall>a \<in> set (login_attempts d). la_id a \<noteq> ct_attempt inp"
    using ins(1) by (auto simp: insertTask_def insert_attempt_Inr exists_row_iff split: if_splits)
  have row: "task_row x fresh d' = Some ?t"
    unfolding d' task_row_def using fr(1) by (simp add: find_fresh new_task_def)
  have old: "filter (\<lambda>a. la_task a = fresh) (login_attempts d) = []"
    using keys_task_of [OF login_inv_parts(1) [OF inv]] fr(1) by (fastforce simp: filter_empty_conv)
  then have list: "listAttempts x fresh d' = [mapAttempt (mapRow ?t) ?a]"
    unfolding listAttempts_def getTask_def row by (simp add: d')
  have owner: "attemptOwner (ct_attempt inp) d' = Some (fresh, x)" unfolding d' by (rule attemptOwner_new [OF fr(2,1)])
  have "getTaskByAttempt x (ct_attempt inp) d' = Some (mapRow ?t)"
    unfolding getTaskByAttempt_def owner using list
    by (simp add: mapAttempt_def mapRow_def new_task_def new_attempt_def LoginTaskRecord.defs LoginAttemptDto.defs)
  then have "existingTaskForAttempt x (fresh, x) inp d' = Inr (mapRow ?t)"
    by (simp add: existingTaskForAttempt_def isSameMapping_def) (simp add: new_task_def)
  then have "createTask now' fresh' x inp d' = Inr (Some (mapRow ?t), d')" by (simp add: createTask_def owner)
  then show ?thesis using ins(2) row noact by (simp add: getTask_def d')
qed

theorem createTask_idempotent_witness:
  "\<exists>r d'. createTask 2 ''t1'' ''acme'' (create_input (example_request ''ann'' ''a1'')) (lw_db example_world) = Inr (r, d') \<and>
    createTask 7 ''t9'' ''acme'' (create_input (example_request ''ann'' ''a1'')) d' = Inr (r, d') \<and> length (login_tasks d') = 1"
proof -
  let ?c = "createTask 2 ''t1'' ''acme'' (create_input (example_request ''ann'' ''a1'')) (lw_db example_world)"
  have "service_inv {} example_world" by (rule reachable_inv [OF empty_tables_ok example_start login_run_to.Here])
  then have inv: "login_inv (lw_db example_world)" by (simp add: service_inv_def base_inv_def)
  have "\<not> isl ?c" "length (login_tasks (snd (projr ?c))) = 1" by code_simp+
  then have c: "?c = Inr (fst (projr ?c), snd (projr ?c))" "length (login_tasks (snd (projr ?c))) = 1" by (simp_all add: isl_projr)
  show ?thesis using createTask_idempotent [OF inv c(1), of 7 "''t9''"] c by blast
qed

lemma claimed_row:
  assumes "lt_stage t \<noteq> None" "lt_prior_stage t = None"
  shows "t\<lparr>lt_stage := Some (case lt_stage t of None \<Rightarrow> s | Some st \<Rightarrow> st), lt_prior_stage := None\<rparr> = (t :: TaskRow)"
  using assms by (cases t) auto

text \<open>
  C31. Deleting a task is claimed before its logs are removed, and a claim that is released leaves no
  trace: while it lasts a retry of the task is refused, and the release restores the task as it was.
\<close>

theorem deletion_claim_released:
  assumes inv: "login_inv d" and t: "t \<in> set (login_tasks d)" "lt_id t = i" "lt_enterprise t = x" "lt_stage t \<noteq> None" "lt_prior_stage t = None"
    and c: "claimTaskDeletion x i d = (Claimed, d1)"
  shows "releaseTaskDeletion x (Some i) d1 = d \<and> \<not> (\<exists>r d2. reserveRetry now x (mapRow t) aid d1 = Inr (r, d2)) \<and>
    fst (claimTaskDeletion x i d1) = NotAllowed"
proof -
  let ?P = "\<lambda>t. lt_enterprise t = x \<and> lt_id t = i \<and> isFinishedStatus (lt_status t) \<and> lt_stage t \<noteq> Some ''deleting''"
  let ?f = "\<lambda>t. t\<lparr>lt_prior_stage := lt_stage t, lt_stage := Some ''deleting''\<rparr> :: TaskRow"
  have d1: "d1 = update_tasks ?P ?f d" and ex: "exists_row ?P (login_tasks d)"
    using c by (auto simp: claimTaskDeletion_def Let_def split: if_splits)
  have only: "u = t" if "u \<in> set (login_tasks d)" "lt_id u = i" for u
    using task_unique [OF login_inv_parts(1) [OF inv] that(1) t(1)] that(2) t(2) by simp
  then have P: "?P t" using ex by (auto simp: rows)
  have "update_where (\<lambda>t. lt_enterprise t = x \<and> lt_stage t = Some ''deleting'' \<and> isFinishedStatus (lt_status t) \<and> i = lt_id t)
       (\<lambda>t. t\<lparr>lt_stage := Some (case lt_prior_stage t of None \<Rightarrow> status_text (lt_status t) | Some st \<Rightarrow> st), lt_prior_stage := None\<rparr>)
      (update_where ?P ?f (login_tasks d)) = login_tasks d"
    unfolding update_where_def map_map
  proof (rule map_idI)
    fix u assume "u \<in> set (login_tasks d)"
    then have u: "lt_id u = i \<Longrightarrow> u = t" by (rule only)
    show "((\<lambda>t. if lt_enterprise t = x \<and> lt_stage t = Some ''deleting'' \<and> isFinishedStatus (lt_status t) \<and> i = lt_id t
         then t\<lparr>lt_stage := Some (case lt_prior_stage t of None \<Rightarrow> status_text (lt_status t) | Some st \<Rightarrow> st), lt_prior_stage := None\<rparr>
         else t) \<circ> (\<lambda>r. if ?P r then ?f r else r)) u = u"
    proof (cases "lt_id u = i")
      case True
      then have "u = t" by (rule u)
      have "lt_enterprise (?f t) = x \<and> lt_stage (?f t) = Some ''deleting'' \<and> isFinishedStatus (lt_status (?f t)) \<and> i = lt_id (?f t)"
        using P by simp
      then show ?thesis unfolding \<open>u = t\<close> o_def if_P [OF P] by (simp only: if_True simp_thms) (simp add: claimed_row [OF t(4,5)])
    qed simp
  qed
  then have rel: "releaseTaskDeletion x (Some i) d1 = d"
    unfolding d1 releaseTaskDeletion_def update_tasks_def by simp
  have none: "\<not> exists_row (\<lambda>u. lt_enterprise u = x \<and> lt_id u = i \<and> Q u \<and> lt_stage u \<noteq> Some ''deleting'') (login_tasks d1)" for Q
  proof -
    have "lt_stage u' = Some ''deleting''" if m: "u' \<in> set (login_tasks d1)" "lt_id u' = i" for u'
    proof -
      obtain u where u: "u \<in> set (login_tasks d)" "u' = (if ?P u then ?f u else u)"
        using m(1) unfolding d1 update_tasks_simps by (rule update_whereE)
      then have "lt_id u = i" using m(2) by (simp split: if_splits)
      then have "u = t" using only u(1) by blast
      then show ?thesis using u(2) P by simp
    qed
    then show ?thesis by (auto simp: rows)
  qed
  have "fst (claimTaskDeletion x i d1) = NotAllowed \<or> getTask x i d1 = None"
    using none [of "\<lambda>u. isFinishedStatus (lt_status u)"] by (simp add: claimTaskDeletion_def Let_def)
  moreover have "getTask x i d1 \<noteq> None"
  proof -
    have "?f t \<in> set (login_tasks d1)" using t(1) P unfolding d1 by (force simp: update_where_def)
    then have "\<exists>u \<in> set (login_tasks d1). lt_enterprise u = x \<and> lt_id u = i" by (rule bexI [rotated]) (simp add: t(2,3))
    then show ?thesis by (simp add: getTask_def task_row_None)
  qed
  moreover have "\<not> (\<exists>r d2. reserveRetry now x (mapRow t) aid d1 = Inr (r, d2))"
    using none [of "\<lambda>u. lt_status u = TaskFailed \<and> lt_attempt u = lt_attempt t"] t(2) by (simp add: reserveRetry_def Let_def conj_assoc)
  ultimately show ?thesis using rel by blast
qed

theorem deletion_claim_released_witness:
  "fst (claimTaskDeletion ''acme'' ''t1'' (lw_db example_failed)) = Claimed \<and>
    releaseTaskDeletion ''acme'' (Some ''t1'') (snd (claimTaskDeletion ''acme'' ''t1'' (lw_db example_failed))) = lw_db example_failed"
proof -
  have r: "hd (lw_runs example_busy) \<in> set (lw_runs example_busy)" "run_phase (hd (lw_runs example_busy)) = DeviceFlow" by code_simp+
  have "service_inv {''t1'', ''a1'', ''t2'', ''a2''} example_failed"
    unfolding example_failed_def Let_def
    by (rule service_step [OF login_step.RunToken [OF r] reachable_inv [OF empty_tables_ok example_start example_login_run]])
  then have inv: "login_inv (lw_db example_failed)" by (simp add: service_inv_def base_inv_def)
  let ?t = "hd (login_tasks (lw_db example_failed))"
  have t: "?t \<in> set (login_tasks (lw_db example_failed))" "lt_id ?t = ''t1''" "lt_enterprise ?t = ''acme''" "lt_stage ?t \<noteq> None" "lt_prior_stage ?t = None"
    by code_simp+
  have c: "fst (claimTaskDeletion ''acme'' ''t1'' (lw_db example_failed)) = Claimed" by code_simp
  then have "claimTaskDeletion ''acme'' ''t1'' (lw_db example_failed) = (Claimed, snd (claimTaskDeletion ''acme'' ''t1'' (lw_db example_failed)))"
    by (simp add: prod_eq_iff)
  from deletion_claim_released [OF inv t this] show ?thesis using c by blast
qed

end
