(* ===== verification/Worker_Tenure.thy ===== *)
theory Worker_Tenure
  imports Pool_Store
begin

text \<open>
  The prewarm worker of one process (\<^verbatim>\<open>src/proxy/src/userPool/worker.ts\<close>): its election, its tenure and
  the scheduler that runs under it. The class is an object on the JavaScript event loop, so every
  stretch of code between two \<open>await\<close>s is one reaction: a function of the clocks, of what the awaited
  promise delivered and of the state of the object. What is awaited is part of the state: the request
  to the store in \<open>ownership\<close>, the position of \<open>schedule\<close> in \<open>scheduling\<close>, the position of \<open>start\<close> in
  \<open>starting\<close>, the tenure that \<open>stop\<close> still has to release in \<open>stopping\<close>.

  The tenure object is shared by reference: the code compares tenures by identity and a renewal updates
  \<open>renewedAt\<close> in place. Its \<open>id\<close> is a fresh UUID, so the model captures a tenure by its id and reads
  \<open>renewedAt\<close> from the field \<open>tenure\<close> of the worker. The monotonic clock and the wall clock are arguments.
\<close>

section \<open>Tenures, losses and the state of a worker\<close>

definition OWNER_TTL_MS :: int where "OWNER_TTL_MS = 30000"

definition DRIFT_CORRECTION_MS :: int where "DRIFT_CORRECTION_MS = 60 * 60 * 1000"

record Tenure =
  tn_id :: string
  renewedAt :: int

datatype loss_reason = LocalTenureExpired | RenewalRejected | StorageUnavailable | StorageOperationFailed

datatype storage_failure = Deadline | Connection

record OwnershipLoss =
  reason :: loss_reason
  storageFailure :: "storage_failure option"

text \<open>What a failed call of the store throws: the two trusted wrappers, or anything else.\<close>

datatype storage_error = MysqlDeadlineError | MysqlConnectionError | OtherError

fun ownershipStorageFailure :: "storage_error \<Rightarrow> OwnershipLoss" where
  "ownershipStorageFailure MysqlDeadlineError = \<lparr>reason = StorageUnavailable, storageFailure = Some Deadline\<rparr>"
| "ownershipStorageFailure MysqlConnectionError = \<lparr>reason = StorageUnavailable, storageFailure = Some Connection\<rparr>"
| "ownershipStorageFailure OtherError = \<lparr>reason = StorageOperationFailed, storageFailure = None\<rparr>"

text \<open>The request behind the promise \<open>ownership\<close>, and what came back for it.\<close>

datatype OwnershipFlight = Claiming Tenure | Renewing string int | Releasing string

datatype OwnerReply = Answered bool | Failed storage_error

text \<open>
  What a caller of \<open>ensureOwner\<close> or \<open>renewTenure\<close> holds: an answer, the promise \<open>ownership\<close> itself, or
  the promise after which it checks its tenure again.
\<close>

datatype OwnerWait = Resolved bool | OnFlight | OnRenewal string | Recheck string

text \<open>An entry of the map \<open>active\<close>: the account, the tenure captured by its step, its abort signal.\<close>

record ActiveStep =
  st_identity :: string
  st_tenure :: string
  st_aborted :: bool

record ReservationTask =
  rt_tenure :: string
  rt_aborted :: bool

text \<open>The position of \<open>schedule\<close>, with the locals that are live there.\<close>

datatype SchedulePhase =
    Idle
  | AwaitOwner OwnerWait
  | Reclaiming string
  | ReadingSettings string
  | CorrectingDrift string
  | AskingEligible string
  | ReservingDeficit string "string list"
  | SelectingRow string "string list"
  | CheckingHolds string "string list" string

record PrewarmWorker =
  multiReplica :: bool
  fencedRenewal :: bool                                      \<comment> \<open>the store has \<open>renewOwner\<close>\<close>
  pollMs :: int
  concurrency :: nat
  tenure :: "Tenure option"
  active :: "ActiveStep list"
  reservationTask :: "ReservationTask option"
  lastReservationPoll :: "int option"                        \<comment> \<open>\<open>None\<close> for \<open>-Infinity\<close>\<close>
  reservationOffset :: nat
  lastDriftCorrection :: int
  scheduling :: SchedulePhase
  ownership :: "OwnershipFlight option"
  starting :: "OwnerWait option"
  stopping :: "string option option"
  started :: bool
  stopped :: bool
  claimAttempts :: nat
  ownershipAcquisitions :: nat
  ownershipLosses :: nat
  lastSuccessfulRenewal :: "(int \<times> int) option"             \<comment> \<open>wall and monotonic instant\<close>
  lastOwnershipLoss :: "(OwnershipLoss \<times> int) option"

text \<open>The constructor, with the errors it throws.\<close>

definition newPrewarmWorker :: "bool \<Rightarrow> bool \<Rightarrow> int \<Rightarrow> int \<Rightarrow> int \<Rightarrow> string + PrewarmWorker" where
  "newPrewarmWorker multi fenced poll conc mnow =
     (if poll \<le> 0 then Inl ''Invalid prewarm poll interval''
      else if conc < 1 \<or> conc > 20 then Inl ''Invalid prewarm concurrency''
      else if multi \<and> \<not> fenced then Inl ''Multi-replica pool requires fenced owner renewal''
      else Inr \<lparr>multiReplica = multi, fencedRenewal = fenced, pollMs = poll, concurrency = nat conc, tenure = None,
        active = [], reservationTask = None, lastReservationPoll = None, reservationOffset = 0,
        lastDriftCorrection = mnow, scheduling = Idle, ownership = None, starting = None, stopping = None,
        started = False, stopped = False, claimAttempts = 0, ownershipAcquisitions = 0, ownershipLosses = 0,
        lastSuccessfulRenewal = None, lastOwnershipLoss = None\<rparr>)"

section \<open>Losing and checking a tenure\<close>

definition holds_tenure :: "string \<Rightarrow> PrewarmWorker \<Rightarrow> bool" where
  "holds_tenure x w \<longleftrightarrow> map_option tn_id (tenure w) = Some x"

definition abort_steps :: "ActiveStep list \<Rightarrow> ActiveStep list" where
  "abort_steps = map (\<lambda>a. a\<lparr>st_aborted := True\<rparr>)"

definition abort_reservation :: "ReservationTask option \<Rightarrow> ReservationTask option" where
  "abort_reservation = map_option (\<lambda>r. r\<lparr>rt_aborted := True\<rparr>)"

text \<open>A worker that is not one of several replicas stops for good with its first refusal or loss.\<close>

definition halt :: "PrewarmWorker \<Rightarrow> PrewarmWorker" where
  "halt w = (if multiReplica w then w else w\<lparr>stopped := True\<rparr>)"

definition loseOwnership :: "int \<Rightarrow> string \<Rightarrow> OwnershipLoss \<Rightarrow> PrewarmWorker \<Rightarrow> PrewarmWorker" where
  "loseOwnership wall x l w =
     (if \<not> holds_tenure x w then w
      else halt (w\<lparr>tenure := None, ownershipLosses := ownershipLosses w + 1, lastOwnershipLoss := Some (l, wall),
             active := abort_steps (active w), reservationTask := abort_reservation (reservationTask w)\<rparr>))"

definition isCurrentTenure :: "int \<Rightarrow> int \<Rightarrow> string \<Rightarrow> PrewarmWorker \<Rightarrow> bool \<times> PrewarmWorker" where
  "isCurrentTenure mnow wall x w =
     (if stopped w then (False, w) else
      case tenure w of
        None \<Rightarrow> (False, w)
      | Some t \<Rightarrow>
          if tn_id t \<noteq> x then (False, w)
          else if mnow - renewedAt t \<ge> OWNER_TTL_MS
          then (False, loseOwnership wall x \<lparr>reason = LocalTenureExpired, storageFailure = None\<rparr> w)
          else (True, w))"

definition isActive :: "int \<Rightarrow> int \<Rightarrow> PrewarmWorker \<Rightarrow> bool \<times> PrewarmWorker" where
  "isActive mnow wall w =
     (case tenure w of None \<Rightarrow> (False, w) | Some t \<Rightarrow> isCurrentTenure mnow wall (tn_id t) w)"

text \<open>The failure of a store call made under a tenure.\<close>

definition storageFailed :: "int \<Rightarrow> string \<Rightarrow> storage_error \<Rightarrow> PrewarmWorker \<Rightarrow> PrewarmWorker" where
  "storageFailed wall x e w = loseOwnership wall x (ownershipStorageFailure e) w"

section \<open>Election and renewal\<close>

definition renewTenure :: "int \<Rightarrow> int \<Rightarrow> string \<Rightarrow> PrewarmWorker \<Rightarrow> OwnerWait \<times> PrewarmWorker" where
  "renewTenure mnow wall x w =
     (case isCurrentTenure mnow wall x w of
        (False, w') \<Rightarrow> (Resolved False, w')
      | (True, w') \<Rightarrow>
          (case ownership w' of
             Some _ \<Rightarrow> (OnRenewal x, w')
           | None \<Rightarrow> (OnFlight, w'\<lparr>ownership := Some (Renewing x mnow)\<rparr>)))"

definition ensureOwner :: "int \<Rightarrow> int \<Rightarrow> string \<Rightarrow> PrewarmWorker \<Rightarrow> OwnerWait \<times> PrewarmWorker" where
  "ensureOwner mnow wall u w =
     (if stopped w then (Resolved False, w) else
      case tenure w of
        Some t \<Rightarrow> renewTenure mnow wall (tn_id t) w
      | None \<Rightarrow>
          if ownership w \<noteq> None then (OnFlight, w)
          else if active w \<noteq> [] \<or> reservationTask w \<noteq> None then (Resolved False, w)
          else (OnFlight, w\<lparr>claimAttempts := claimAttempts w + 1,
                            ownership := Some (Claiming \<lparr>tn_id = u, renewedAt = mnow\<rparr>)\<rparr>))"

text \<open>When the promise \<open>ownership\<close> settles, those who wait for it are resumed.\<close>

fun resolved :: "bool \<Rightarrow> OwnerWait \<Rightarrow> OwnerWait" where
  "resolved b OnFlight = Resolved b"
| "resolved b (OnRenewal x) = Recheck x"
| "resolved b w = w"

definition settled :: "bool \<Rightarrow> PrewarmWorker \<Rightarrow> PrewarmWorker" where
  "settled b w = w\<lparr>ownership := None,
     scheduling := (case scheduling w of AwaitOwner o' \<Rightarrow> AwaitOwner (resolved b o') | p \<Rightarrow> p),
     starting := map_option (resolved b) (starting w)\<rparr>"

fun settleClaim :: "int \<Rightarrow> Tenure \<Rightarrow> OwnerReply \<Rightarrow> PrewarmWorker \<Rightarrow> PrewarmWorker" where
  "settleClaim mnow t (Answered True) w =
     (if stopped w \<or> mnow - renewedAt t \<ge> OWNER_TTL_MS
      then w\<lparr>ownership := Some (Releasing (tn_id t))\<rparr>
      else settled True (w\<lparr>tenure := Some t, ownershipAcquisitions := ownershipAcquisitions w + 1\<rparr>))"
| "settleClaim mnow t _ w = settled False (halt w)"

fun settleRenewal :: "int \<Rightarrow> int \<Rightarrow> string \<Rightarrow> int \<Rightarrow> OwnerReply \<Rightarrow> PrewarmWorker \<Rightarrow> PrewarmWorker" where
  "settleRenewal mnow wall x requestedAt (Answered True) w =
     (case isCurrentTenure mnow wall x w of
        (False, w') \<Rightarrow> settled False w'
      | (True, w') \<Rightarrow> settled True (w'\<lparr>tenure := Some \<lparr>tn_id = x, renewedAt = requestedAt\<rparr>,
                        lastSuccessfulRenewal := Some (wall, mnow)\<rparr>))"
| "settleRenewal mnow wall x requestedAt (Answered False) w =
     settled False (loseOwnership wall x \<lparr>reason = RenewalRejected, storageFailure = None\<rparr> w)"
| "settleRenewal mnow wall x requestedAt (Failed e) w = settled False (storageFailed wall x e w)"

definition settleOwnership :: "int \<Rightarrow> int \<Rightarrow> OwnerReply \<Rightarrow> PrewarmWorker \<Rightarrow> PrewarmWorker" where
  "settleOwnership mnow wall r w =
     (case ownership w of
        None \<Rightarrow> w
      | Some (Claiming t) \<Rightarrow> settleClaim mnow t r w
      | Some (Renewing x requestedAt) \<Rightarrow> settleRenewal mnow wall x requestedAt r w
      | Some (Releasing x) \<Rightarrow> settled False (halt w))"

text \<open>The answer a waiting caller has by now.\<close>

fun owner_answer :: "int \<Rightarrow> int \<Rightarrow> OwnerWait \<Rightarrow> PrewarmWorker \<Rightarrow> (bool \<times> PrewarmWorker) option" where
  "owner_answer mnow wall (Resolved b) w = Some (b, w)"
| "owner_answer mnow wall (Recheck x) w = Some (isCurrentTenure mnow wall x w)"
| "owner_answer mnow wall _ w = None"

section \<open>Start, stop and the heartbeat\<close>

text \<open>
  \<open>start\<close> up to its first \<open>await\<close>, and from the answer on: an error is thrown, or the timers run. The
  periodic timers themselves are the events \<open>Heartbeat\<close> and \<open>Tick\<close> below.
\<close>

definition start :: "int \<Rightarrow> int \<Rightarrow> string \<Rightarrow> PrewarmWorker \<Rightarrow> (string + unit) \<times> PrewarmWorker" where
  "start mnow wall u w =
     (if stopped w then (Inl ''Pool worker has stopped'', w)
      else if starting w \<noteq> None \<or> started w then (Inr (), w)
      else let (a, w') = ensureOwner mnow wall u w in (Inr (), w'\<lparr>starting := Some a\<rparr>))"

definition start_resumed :: "int \<Rightarrow> int \<Rightarrow> PrewarmWorker \<Rightarrow> (string + unit) \<times> PrewarmWorker" where
  "start_resumed mnow wall w =
     (case starting w of
        None \<Rightarrow> (Inr (), w)
      | Some a \<Rightarrow>
          (case owner_answer mnow wall a w of
             None \<Rightarrow> (Inr (), w)
           | Some (b, w') \<Rightarrow>
               if \<not> b \<and> \<not> multiReplica w' then (Inl ''Another Proxy owns the SQLite user pool'', w'\<lparr>starting := None\<rparr>)
               else if stopped w' then (Inr (), w'\<lparr>starting := None\<rparr>)
               else (Inr (), w'\<lparr>starting := None, started := True\<rparr>)))"

definition stop :: "PrewarmWorker \<Rightarrow> PrewarmWorker" where
  "stop w =
     (if stopping w \<noteq> None then w
      else w\<lparr>stopped := True, stopping := Some (map_option tn_id (tenure w)), tenure := None,
             active := abort_steps (active w), reservationTask := abort_reservation (reservationTask w)\<rparr>)"

text \<open>What \<open>stop\<close> awaits before it releases the tenure it took away.\<close>

definition drained :: "PrewarmWorker \<Rightarrow> bool" where
  "drained w \<longleftrightarrow> ownership w = None \<and> starting w = None \<and> scheduling w = Idle \<and> reservationTask w = None \<and> active w = []"

section \<open>The scheduler\<close>

text \<open>
  \<open>reply\<close> is what an awaited call of the store delivered. A failed call under \<open>storageOperation\<close> loses
  the tenure and the round ends, because \<open>tick\<close> catches what \<open>schedule\<close> throws.
\<close>

definition scheduled :: "SchedulePhase \<Rightarrow> PrewarmWorker \<Rightarrow> PrewarmWorker" where
  "scheduled p w = w\<lparr>scheduling := p\<rparr>"

text \<open>Continue at \<open>p\<close> under the captured tenure, or end the round.\<close>

definition while_current :: "int \<Rightarrow> int \<Rightarrow> string \<Rightarrow> (PrewarmWorker \<Rightarrow> PrewarmWorker) \<Rightarrow> PrewarmWorker \<Rightarrow> PrewarmWorker" where
  "while_current mnow wall x k w =
     (case isCurrentTenure mnow wall x w of (False, w') \<Rightarrow> scheduled Idle w' | (True, w') \<Rightarrow> k w')"

definition under_storage :: "int \<Rightarrow> string \<Rightarrow> storage_error + 'a \<Rightarrow> ('a \<Rightarrow> PrewarmWorker \<Rightarrow> PrewarmWorker) \<Rightarrow>
    PrewarmWorker \<Rightarrow> PrewarmWorker" where
  "under_storage wall x reply k w =
     (case reply of Inl e \<Rightarrow> scheduled Idle (storageFailed wall x e w) | Inr v \<Rightarrow> k v w)"

definition tick_begin :: "int \<Rightarrow> int \<Rightarrow> string \<Rightarrow> PrewarmWorker \<Rightarrow> PrewarmWorker" where
  "tick_begin mnow wall u w =
     (if stopped w \<or> scheduling w \<noteq> Idle then w
      else let (a, w') = ensureOwner mnow wall u w in scheduled (AwaitOwner a) w')"

definition schedule_owned :: "int \<Rightarrow> int \<Rightarrow> OwnerWait \<Rightarrow> PrewarmWorker \<Rightarrow> PrewarmWorker" where
  "schedule_owned mnow wall a w =
     (case owner_answer mnow wall a w of
        None \<Rightarrow> w
      | Some (False, w') \<Rightarrow> scheduled Idle w'
      | Some (True, w') \<Rightarrow>
          (case tenure w' of
             None \<Rightarrow> scheduled Idle w'
           | Some t \<Rightarrow> while_current mnow wall (tn_id t) (scheduled (Reclaiming (tn_id t))) w'))"

definition schedule_reclaimed :: "int \<Rightarrow> int \<Rightarrow> string \<Rightarrow> storage_error + unit \<Rightarrow> PrewarmWorker \<Rightarrow> PrewarmWorker" where
  "schedule_reclaimed mnow wall x reply =
     under_storage wall x reply (\<lambda>_. while_current mnow wall x (scheduled (ReadingSettings x)))"

text \<open>The terminal observation runs beside the scheduler, at most one batch in a poll interval.\<close>

definition observeLoginReservations :: "int \<Rightarrow> int \<Rightarrow> string \<Rightarrow> PrewarmWorker \<Rightarrow> PrewarmWorker" where
  "observeLoginReservations mnow wall x w =
     (if reservationTask w \<noteq> None then w
      else case isCurrentTenure mnow wall x w of
        (False, w') \<Rightarrow> w'
      | (True, w') \<Rightarrow>
          (case lastReservationPoll w' of
             Some p \<Rightarrow> if mnow - p < pollMs w' then w'
                       else w'\<lparr>lastReservationPoll := Some mnow, reservationTask := Some \<lparr>rt_tenure = x, rt_aborted = False\<rparr>\<rparr>
           | None \<Rightarrow> w'\<lparr>lastReservationPoll := Some mnow, reservationTask := Some \<lparr>rt_tenure = x, rt_aborted = False\<rparr>\<rparr>))"

definition correctDriftHourly :: "int \<Rightarrow> string \<Rightarrow> PrewarmWorker \<Rightarrow> PrewarmWorker" where
  "correctDriftHourly mnow x w =
     (if mnow - lastDriftCorrection w < DRIFT_CORRECTION_MS then scheduled (AskingEligible x) w
      else scheduled (CorrectingDrift x) (w\<lparr>lastDriftCorrection := mnow\<rparr>))"

definition schedule_settings :: "int \<Rightarrow> int \<Rightarrow> string \<Rightarrow> storage_error + bool \<Rightarrow> PrewarmWorker \<Rightarrow> PrewarmWorker" where
  "schedule_settings mnow wall x reply =
     under_storage wall x reply (\<lambda>paused w.
       if paused then scheduled Idle (w\<lparr>reservationTask := abort_reservation (reservationTask w)\<rparr>)
       else while_current mnow wall x (\<lambda>w. correctDriftHourly mnow x (observeLoginReservations mnow wall x w)) w)"

definition schedule_drift :: "int \<Rightarrow> string \<Rightarrow> storage_error + unit \<Rightarrow> PrewarmWorker \<Rightarrow> PrewarmWorker" where
  "schedule_drift wall x reply = under_storage wall x reply (\<lambda>_. scheduled (AskingEligible x))"

text \<open>An eligibility round that fails or times out makes no enterprise eligible.\<close>

definition schedule_eligible :: "int \<Rightarrow> int \<Rightarrow> string \<Rightarrow> string list option \<Rightarrow> PrewarmWorker \<Rightarrow> PrewarmWorker" where
  "schedule_eligible mnow wall x reply =
     while_current mnow wall x (scheduled (ReservingDeficit x (case reply of None \<Rightarrow> [] | Some es \<Rightarrow> es)))"

text \<open>The head of the launch loop.\<close>

definition launch_loop :: "int \<Rightarrow> int \<Rightarrow> string \<Rightarrow> string list \<Rightarrow> PrewarmWorker \<Rightarrow> PrewarmWorker" where
  "launch_loop mnow wall x excluded =
     while_current mnow wall x (\<lambda>w. if length (active w) < concurrency w then scheduled (SelectingRow x excluded) w
                                    else scheduled Idle w)"

definition schedule_reserved :: "int \<Rightarrow> int \<Rightarrow> string \<Rightarrow> storage_error + int \<Rightarrow> PrewarmWorker \<Rightarrow> PrewarmWorker" where
  "schedule_reserved mnow wall x reply =
     under_storage wall x reply (\<lambda>_ w. launch_loop mnow wall x (map st_identity (active w)) w)"

definition schedule_selected :: "int \<Rightarrow> string \<Rightarrow> string list \<Rightarrow> storage_error + string option \<Rightarrow> PrewarmWorker \<Rightarrow> PrewarmWorker" where
  "schedule_selected wall x excluded reply =
     under_storage wall x reply (\<lambda>row w.
       case row of
         None \<Rightarrow> scheduled Idle w
       | Some i \<Rightarrow> if i \<in> set excluded then scheduled Idle w else scheduled (CheckingHolds x (excluded @ [i]) i) w)"

definition launch :: "string \<Rightarrow> string \<Rightarrow> PrewarmWorker \<Rightarrow> PrewarmWorker" where
  "launch x i w = w\<lparr>active := active w @ [\<lparr>st_identity = i, st_tenure = x, st_aborted = False\<rparr>]\<rparr>"

definition schedule_held :: "int \<Rightarrow> int \<Rightarrow> string \<Rightarrow> string list \<Rightarrow> string \<Rightarrow> storage_error + bool \<Rightarrow> PrewarmWorker \<Rightarrow> PrewarmWorker" where
  "schedule_held mnow wall x excluded i reply =
     under_storage wall x reply (\<lambda>held w.
       if held then launch_loop mnow wall x excluded w
       else while_current mnow wall x (\<lambda>w. launch_loop mnow wall x excluded (launch x i w)) w)"

section \<open>Steps and observations that are under way\<close>

definition step_of :: "string \<Rightarrow> PrewarmWorker \<Rightarrow> ActiveStep option" where
  "step_of i w = find (\<lambda>a. st_identity a = i) (active w)"

text \<open>A step ends: its signal is aborted and it leaves \<open>active\<close>.\<close>

definition step_finished :: "string \<Rightarrow> PrewarmWorker \<Rightarrow> PrewarmWorker" where
  "step_finished i w = w\<lparr>active := filter (\<lambda>a. st_identity a \<noteq> i) (active w)\<rparr>"

text \<open>The deadline of a step, or the end of its adapter call, aborts its signal.\<close>

definition step_aborted :: "string \<Rightarrow> PrewarmWorker \<Rightarrow> PrewarmWorker" where
  "step_aborted i w = w\<lparr>active := map (\<lambda>a. if st_identity a = i then a\<lparr>st_aborted := True\<rparr> else a) (active w)\<rparr>"

text \<open>The batch of reservations observed next: ten of at most a hundred rows, rotating.\<close>

definition reservation_batch :: "nat \<Rightarrow> 'a list \<Rightarrow> 'a list \<times> nat" where
  "reservation_batch pos listed =
     (let rows = take 100 listed in
      if rows = [] then ([], 0)
      else let offset = pos mod length rows; batch = take 10 (drop offset rows @ take offset rows)
           in (batch, (offset + length batch) mod length rows))"

definition reservations_listed :: "string list \<Rightarrow> PrewarmWorker \<Rightarrow> PrewarmWorker" where
  "reservations_listed rows w = w\<lparr>reservationOffset := snd (reservation_batch (reservationOffset w) rows)\<rparr>"

definition reservations_finished :: "PrewarmWorker \<Rightarrow> PrewarmWorker" where
  "reservations_finished w = w\<lparr>reservationTask := None\<rparr>"


section \<open>The reactions of a worker\<close>

text \<open>
  Everything that can happen to a worker on its event loop, apart from the settling of \<open>ownership\<close>. The
  first three bring the UUID of a possible candidacy. A reply is accepted only where the code awaits it.
\<close>

datatype WorkerEvent =
    Start string
  | Heartbeat string
  | Tick string
  | StartResumed
  | ScheduleOwned
  | Reclaimed "storage_error + unit"
  | SettingsRead "storage_error + bool"
  | DriftCorrected "storage_error + unit"
  | EligibleKnown "string list option"
  | DeficitReserved "storage_error + int"
  | RowSelected "storage_error + string option"
  | HoldsChecked "storage_error + bool"
  | StepChecks string
  | StepRenews string
  | StepStorageFails string storage_error
  | StepAborts string
  | StepFinishes string
  | ObservationChecks
  | ObservationRenews
  | ObservationStorageFails storage_error
  | ReservationsListed "string list"
  | ReservationsFinish
  | ActiveAsked
  | Stop

fun event_ids :: "WorkerEvent \<Rightarrow> string set" where
  "event_ids (Start u) = {u}"
| "event_ids (Heartbeat u) = {u}"
| "event_ids (Tick u) = {u}"
| "event_ids _ = {}"

text \<open>A step or the observation acts under the tenure it captured.\<close>

definition for_step :: "string \<Rightarrow> (string \<Rightarrow> PrewarmWorker \<Rightarrow> PrewarmWorker) \<Rightarrow> PrewarmWorker \<Rightarrow> PrewarmWorker" where
  "for_step i f w = (case step_of i w of None \<Rightarrow> w | Some a \<Rightarrow> f (st_tenure a) w)"

definition for_observation :: "(string \<Rightarrow> PrewarmWorker \<Rightarrow> PrewarmWorker) \<Rightarrow> PrewarmWorker \<Rightarrow> PrewarmWorker" where
  "for_observation f w = (case reservationTask w of None \<Rightarrow> w | Some r \<Rightarrow> f (rt_tenure r) w)"

fun react :: "int \<Rightarrow> int \<Rightarrow> WorkerEvent \<Rightarrow> PrewarmWorker \<Rightarrow> PrewarmWorker" where
  "react mnow wall (Start u) w = snd (start mnow wall u w)"
| "react mnow wall (Heartbeat u) w = snd (ensureOwner mnow wall u w)"
| "react mnow wall (Tick u) w = tick_begin mnow wall u w"
| "react mnow wall StartResumed w = snd (start_resumed mnow wall w)"
| "react mnow wall (StepChecks i) w = for_step i (\<lambda>x w. snd (isCurrentTenure mnow wall x w)) w"
| "react mnow wall (StepRenews i) w = for_step i (\<lambda>x w. snd (renewTenure mnow wall x w)) w"
| "react mnow wall (StepStorageFails i e) w = for_step i (\<lambda>x. storageFailed wall x e) w"
| "react mnow wall (StepAborts i) w = step_aborted i w"
| "react mnow wall (StepFinishes i) w = step_finished i w"
| "react mnow wall ObservationChecks w = for_observation (\<lambda>x w. snd (isCurrentTenure mnow wall x w)) w"
| "react mnow wall ObservationRenews w = for_observation (\<lambda>x w. snd (renewTenure mnow wall x w)) w"
| "react mnow wall (ObservationStorageFails e) w = for_observation (\<lambda>x. storageFailed wall x e) w"
| "react mnow wall (ReservationsListed rows) w = for_observation (\<lambda>x. reservations_listed rows) w"
| "react mnow wall ReservationsFinish w = reservations_finished w"
| "react mnow wall ActiveAsked w = snd (isActive mnow wall w)"
| "react mnow wall Stop w = stop w"
| "react mnow wall ScheduleOwned w = (case scheduling w of AwaitOwner a \<Rightarrow> schedule_owned mnow wall a w | _ \<Rightarrow> w)"
| "react mnow wall (Reclaimed r) w = (case scheduling w of Reclaiming x \<Rightarrow> schedule_reclaimed mnow wall x r w | _ \<Rightarrow> w)"
| "react mnow wall (SettingsRead r) w = (case scheduling w of ReadingSettings x \<Rightarrow> schedule_settings mnow wall x r w | _ \<Rightarrow> w)"
| "react mnow wall (DriftCorrected r) w = (case scheduling w of CorrectingDrift x \<Rightarrow> schedule_drift wall x r w | _ \<Rightarrow> w)"
| "react mnow wall (EligibleKnown es) w = (case scheduling w of AskingEligible x \<Rightarrow> schedule_eligible mnow wall x es w | _ \<Rightarrow> w)"
| "react mnow wall (DeficitReserved n) w = (case scheduling w of ReservingDeficit x es \<Rightarrow> schedule_reserved mnow wall x n w | _ \<Rightarrow> w)"
| "react mnow wall (RowSelected r) w = (case scheduling w of SelectingRow x excluded \<Rightarrow> schedule_selected wall x excluded r w | _ \<Rightarrow> w)"
| "react mnow wall (HoldsChecked h) w = (case scheduling w of CheckingHolds x excluded i \<Rightarrow> schedule_held mnow wall x excluded i h w | _ \<Rightarrow> w)"

section \<open>The snapshot\<close>

datatype worker_state = OwnerState | StandbyState | StoppedState

record PrewarmWorkerSnapshot =
  sn_state :: worker_state
  sn_observedAt :: int
  sn_tenureAge :: "int option"
  sn_renewalAt :: "int option"
  sn_renewalAge :: "int option"
  sn_claimAttempts :: nat
  sn_acquisitions :: nat
  sn_losses :: nat
  sn_lastLoss :: "(OwnershipLoss \<times> int) option"

definition snapshot :: "int \<Rightarrow> int \<Rightarrow> PrewarmWorker \<Rightarrow> PrewarmWorkerSnapshot" where
  "snapshot mnow wall w =
     (let age = map_option (\<lambda>t. max 0 (mnow - renewedAt t)) (tenure w)
      in \<lparr>sn_state = (if stopped w then StoppedState
                      else case age of Some a \<Rightarrow> if a < OWNER_TTL_MS then OwnerState else StandbyState
                                     | None \<Rightarrow> StandbyState),
          sn_observedAt = wall, sn_tenureAge = age,
          sn_renewalAt = map_option fst (lastSuccessfulRenewal w),
          sn_renewalAge = map_option (\<lambda>r. max 0 (mnow - snd r)) (lastSuccessfulRenewal w),
          sn_claimAttempts = claimAttempts w, sn_acquisitions = ownershipAcquisitions w,
          sn_losses = ownershipLosses w, sn_lastLoss = lastOwnershipLoss w\<rparr>)"

section \<open>What a reaction does to the tenure\<close>

text \<open>
  The clause-by-clause effect of a reaction on what the election depends on: a tenure is kept or lost, a
  request is sent for a fresh candidate or for the tenure in force, \<open>stop\<close> takes the tenure away.
\<close>

definition evolves :: "int \<Rightarrow> string set \<Rightarrow> PrewarmWorker \<Rightarrow> PrewarmWorker \<Rightarrow> bool" where
  "evolves mnow U w w' \<longleftrightarrow>
     (tenure w' = tenure w \<or> tenure w' = None) \<and>
     (ownership w' = ownership w \<or>
      ownership w = None \<and> tenure w' = None \<and> (\<exists>u\<in>U. ownership w' = Some (Claiming \<lparr>tn_id = u, renewedAt = mnow\<rparr>)) \<or>
      ownership w = None \<and> (\<exists>t. tenure w = Some t \<and> ownership w' = Some (Renewing (tn_id t) mnow))) \<and>
     (stopping w' = stopping w \<or>
      stopping w = None \<and> stopping w' \<in> {Some None, Some (map_option tn_id (tenure w))} \<and> tenure w' = None \<and> stopped w') \<and>
     (stopped w \<longrightarrow> stopped w') \<and> concurrency w' = concurrency w"

text \<open>
  The invariant of one worker: without a tenure every step and the observation are aborted, under a tenure
  they all belong to it; accounts are not advanced twice; a candidacy excludes a tenure and local work.
\<close>

definition step_fenced :: "Tenure option \<Rightarrow> ActiveStep \<Rightarrow> bool" where
  "step_fenced tn a \<longleftrightarrow> (case tn of None \<Rightarrow> st_aborted a | Some t \<Rightarrow> st_tenure a = tn_id t)"

definition reservation_fenced :: "Tenure option \<Rightarrow> ReservationTask \<Rightarrow> bool" where
  "reservation_fenced tn r \<longleftrightarrow> (case tn of None \<Rightarrow> rt_aborted r | Some t \<Rightarrow> rt_tenure r = tn_id t)"

fun phase_ok :: "nat \<Rightarrow> ActiveStep list \<Rightarrow> SchedulePhase \<Rightarrow> bool" where
  "phase_ok c as (SelectingRow x excluded) = (length as < c \<and> st_identity ` set as \<subseteq> set excluded)"
| "phase_ok c as (CheckingHolds x excluded i) =
     (length as < c \<and> st_identity ` set as \<subseteq> set excluded - {i} \<and> i \<in> set excluded)"
| "phase_ok c as _ = True"

fun flight_ok :: "OwnershipFlight option \<Rightarrow> PrewarmWorker \<Rightarrow> bool" where
  "flight_ok (Some (Claiming t)) w = (tenure w = None \<and> active w = [] \<and> reservationTask w = None)"
| "flight_ok (Some (Releasing x)) w = (tenure w = None \<and> active w = [] \<and> reservationTask w = None)"
| "flight_ok (Some (Renewing x r)) w = (\<forall>t. tenure w = Some t \<longrightarrow> tn_id t = x)"
| "flight_ok None w = True"

definition worker_inv :: "PrewarmWorker \<Rightarrow> bool" where
  "worker_inv w \<longleftrightarrow>
     list_all (step_fenced (tenure w)) (active w) \<and>
     pred_option (reservation_fenced (tenure w)) (reservationTask w) \<and>
     distinct (map st_identity (active w)) \<and> length (active w) \<le> concurrency w \<and>
     phase_ok (concurrency w) (active w) (scheduling w) \<and> flight_ok (ownership w) w \<and>
     (stopped w \<longrightarrow> tenure w = None) \<and> (stopping w \<noteq> None \<longrightarrow> stopped w)"


section \<open>The invariant of one worker\<close>

lemma evolves_refl [simp]: "evolves mnow U w w"
  by (simp add: evolves_def)

lemma evolves_trans: "evolves mnow U w1 w2 \<Longrightarrow> evolves mnow U w2 w3 \<Longrightarrow> evolves mnow U w1 w3"
  unfolding evolves_def by (elim conjE disjE; auto)

text \<open>A reaction is safe when it keeps the invariant and evolves the tenure as described.\<close>

definition safe :: "int \<Rightarrow> string set \<Rightarrow> PrewarmWorker \<Rightarrow> PrewarmWorker \<Rightarrow> bool" where
  "safe mnow U w w' \<longleftrightarrow> (worker_inv w \<longrightarrow> worker_inv w') \<and> evolves mnow U w w'"

lemma safe_refl [simp]: "safe mnow U w w"
  by (simp add: safe_def)

lemma safe_trans: "safe mnow U w1 w2 \<Longrightarrow> safe mnow U w2 w3 \<Longrightarrow> safe mnow U w1 w3"
  unfolding safe_def by (blast intro: evolves_trans)

lemma aborted_fenced [simp]:
  "list_all (step_fenced None) (abort_steps as)" "pred_option (reservation_fenced None) (abort_reservation r)"
  "map st_identity (abort_steps as) = map st_identity as" "length (abort_steps as) = length as"
  "st_identity ` set (abort_steps as) = st_identity ` set as"
  "abort_steps as = [] \<longleftrightarrow> as = []" "abort_reservation r = None \<longleftrightarrow> r = None"
  by (auto simp: abort_steps_def abort_reservation_def step_fenced_def reservation_fenced_def list_all_iff
      pred_option_def image_image)

lemma phase_ok_abort [simp]: "phase_ok c (abort_steps as) p = phase_ok c as p"
  by (cases p) simp_all

lemma abort_reservation_fenced [simp]:
  "pred_option (reservation_fenced tn) r \<Longrightarrow> pred_option (reservation_fenced tn) (abort_reservation r)"
  by (cases r) (auto simp: abort_reservation_def reservation_fenced_def split: option.splits)

lemma flight_ok_lost:
  "flight_ok f w \<Longrightarrow> tenure w' = None \<Longrightarrow> (active w = [] \<longrightarrow> active w' = []) \<Longrightarrow>
    (reservationTask w = None \<longrightarrow> reservationTask w' = None) \<Longrightarrow> flight_ok f w'"
  by (cases "(f, w)" rule: flight_ok.cases) auto

lemma flight_ok_kept:
  "flight_ok f w \<Longrightarrow> tenure w' = tenure w \<Longrightarrow> (active w = [] \<longrightarrow> active w' = []) \<Longrightarrow>
    (reservationTask w = None \<longrightarrow> reservationTask w' = None) \<Longrightarrow> flight_ok f w'"
  by (cases "(f, w)" rule: flight_ok.cases) auto

lemma worker_inv_lost:
  "worker_inv w \<Longrightarrow> tenure w' = None \<Longrightarrow> active w' = abort_steps (active w) \<Longrightarrow>
    reservationTask w' = abort_reservation (reservationTask w) \<Longrightarrow> scheduling w' = scheduling w \<Longrightarrow>
    ownership w' = ownership w \<Longrightarrow> concurrency w' = concurrency w \<Longrightarrow>
    (stopping w' \<noteq> None \<longrightarrow> stopped w') \<Longrightarrow> worker_inv w'"
  unfolding worker_inv_def by (auto intro: flight_ok_lost [of _ w])

text \<open>A change of what the invariant does not read, and of the position of the scheduler.\<close>

lemma worker_inv_kept:
  "worker_inv w \<Longrightarrow> tenure w' = tenure w \<Longrightarrow> active w' = active w \<Longrightarrow> reservationTask w' = reservationTask w \<Longrightarrow>
    phase_ok (concurrency w) (active w) (scheduling w') \<Longrightarrow> flight_ok (ownership w') w' \<Longrightarrow> concurrency w' = concurrency w \<Longrightarrow>
    stopped w' = stopped w \<Longrightarrow> stopping w' = stopping w \<Longrightarrow> worker_inv w'"
  unfolding worker_inv_def by simp

lemma safe_loseOwnership: "safe mnow U w (loseOwnership wall x l w)"
proof -
  have "worker_inv w \<longrightarrow> worker_inv (loseOwnership wall x l w)"
  proof
    assume w: "worker_inv w"
    show "worker_inv (loseOwnership wall x l w)"
    proof (cases "holds_tenure x w")
      case True
      then show ?thesis using w unfolding loseOwnership_def
        by (simp add: halt_def) (intro conjI impI; rule worker_inv_lost [OF w]; use w in \<open>simp add: worker_inv_def\<close>)
    qed (simp add: loseOwnership_def w)
  qed
  moreover have "evolves mnow U w (loseOwnership wall x l w)"
    by (auto simp: loseOwnership_def halt_def evolves_def)
  ultimately show ?thesis by (simp add: safe_def)
qed

lemma safe_isCurrentTenure: "safe mnow U w (snd (isCurrentTenure m wall x w))"
  using safe_loseOwnership by (auto simp: isCurrentTenure_def split: option.splits)

lemma isCurrentTenure_True:
  "isCurrentTenure mnow wall x w = (True, w') \<longleftrightarrow>
     w' = w \<and> \<not> stopped w \<and> (\<exists>t. tenure w = Some t \<and> tn_id t = x \<and> mnow - renewedAt t < OWNER_TTL_MS)"
  by (auto simp: isCurrentTenure_def split: option.splits if_splits)

lemma safe_isCurrentTenure_eq: "isCurrentTenure m wall x w = (b, w') \<Longrightarrow> safe mnow U w w'"
  using safe_isCurrentTenure [of mnow U w m wall x] by simp

lemma safe_storageFailed: "safe mnow U w (storageFailed wall x e w)"
  by (simp add: storageFailed_def safe_loseOwnership)

lemma safe_renewTenure: "safe mnow U w (snd (renewTenure mnow wall x w))"
proof (cases "isCurrentTenure mnow wall x w")
  case (Pair b w')
  show ?thesis
  proof (cases b)
    case True
    then have "isCurrentTenure mnow wall x w = (True, w')" using Pair by simp
    then obtain t where t: "w' = w" "tenure w = Some t" "tn_id t = x"
      unfolding isCurrentTenure_True by blast
    have "worker_inv w \<longrightarrow> worker_inv (w\<lparr>ownership := Some (Renewing x mnow)\<rparr>)"
      using t(2,3) by (auto simp: worker_inv_def)
    moreover have "evolves mnow U w (w\<lparr>ownership := Some (Renewing x mnow)\<rparr>)" if "ownership w = None"
      using that t(2,3) by (simp add: evolves_def)
    ultimately have "safe mnow U w (w\<lparr>ownership := Some (Renewing x mnow)\<rparr>)" if "ownership w = None"
      using that by (simp add: safe_def)
    then show ?thesis using Pair True t by (simp add: renewTenure_def split: option.splits)
  next
    case False
    then show ?thesis using Pair safe_isCurrentTenure_eq by (simp add: renewTenure_def)
  qed
qed

lemma safe_ensureOwner:
  assumes "u \<in> U" shows "safe mnow U w (snd (ensureOwner mnow wall u w))"
proof (cases "stopped w \<or> tenure w \<noteq> None")
  case True
  then show ?thesis using safe_renewTenure [of mnow U w wall] by (auto simp: ensureOwner_def)
next
  case False
  then show ?thesis using assms by (simp add: ensureOwner_def safe_def evolves_def worker_inv_def)
qed


lemma safe_scheduled: "(worker_inv w \<Longrightarrow> phase_ok (concurrency w) (active w) p) \<Longrightarrow> safe mnow U w (scheduled p w)"
  by (auto simp: safe_def scheduled_def evolves_def intro!: worker_inv_kept [of w] elim!: flight_ok_kept)
     (auto simp: worker_inv_def elim: flight_ok_kept)

lemma safe_while_current:
  assumes "\<And>t. tenure w = Some t \<Longrightarrow> tn_id t = x \<Longrightarrow> \<not> stopped w \<Longrightarrow> safe mnow U w (k w)"
  shows "safe mnow U w (while_current m wall x k w)"
proof (cases "isCurrentTenure m wall x w")
  case (Pair b w')
  show ?thesis
  proof (cases b)
    case True
    then have e: "isCurrentTenure m wall x w = (True, w')" using Pair by simp
    then have "w' = w \<and> safe mnow U w (k w)" using assms unfolding isCurrentTenure_True by blast
    then show ?thesis using e by (simp add: while_current_def)
  next
    case False
    then have "safe mnow U w' (scheduled Idle w')" by (simp add: safe_scheduled)
    then show ?thesis using Pair False safe_isCurrentTenure_eq [OF Pair] safe_trans
      by (fastforce simp: while_current_def)
  qed
qed

lemma safe_under_storage:
  assumes "\<And>v. safe mnow U w (k v w)" shows "safe mnow U w (under_storage wall x reply k w)"
proof (cases reply)
  case (Inl e)
  have "safe mnow U (storageFailed wall x e w) (scheduled Idle (storageFailed wall x e w))" by (simp add: safe_scheduled)
  then show ?thesis using Inl safe_storageFailed safe_trans by (fastforce simp: under_storage_def)
qed (simp add: under_storage_def assms)

lemma safe_owner_answer: "owner_answer m wall a w = Some (b, w') \<Longrightarrow> safe mnow U w w'"
  by (cases a) (auto dest: safe_isCurrentTenure_eq)

lemma safe_tick_begin:
  assumes "u \<in> U" shows "safe mnow U w (tick_begin mnow wall u w)"
proof (cases "ensureOwner mnow wall u w")
  case (Pair a w')
  then have "safe mnow U w w'" using safe_ensureOwner [OF assms, of mnow w wall] by simp
  then have "safe mnow U w (scheduled (AwaitOwner a) w')" by (rule safe_trans) (simp add: safe_scheduled)
  then show ?thesis using Pair by (simp add: tick_begin_def)
qed

lemma safe_schedule_owned: "safe mnow U w (schedule_owned mnow wall a w)"
proof (cases "owner_answer mnow wall a w")
  case (Some r)
  then obtain b w' where r: "owner_answer mnow wall a w = Some (b, w')" by (cases r) auto
  have "safe mnow U w' (if b then case tenure w' of None \<Rightarrow> scheduled Idle w'
      | Some t \<Rightarrow> while_current mnow wall (tn_id t) (scheduled (Reclaiming (tn_id t))) w' else scheduled Idle w')"
    by (auto split: option.splits intro!: safe_while_current safe_scheduled)
  then show ?thesis using r safe_trans [OF safe_owner_answer [OF r]] by (cases b) (auto simp: schedule_owned_def)
qed (simp add: schedule_owned_def)

lemma safe_observe: "safe mnow U w (observeLoginReservations m wall x w)"
proof (cases "isCurrentTenure m wall x w")
  case (Pair b w')
  have *: "safe mnow U w (w\<lparr>lastReservationPoll := Some m, reservationTask := Some \<lparr>rt_tenure = x, rt_aborted = False\<rparr>\<rparr>)"
    if t: "tenure w = Some t" "tn_id t = x" for t
  proof -
    have "\<not> (\<exists>c. ownership w = Some (Claiming c))" "\<not> (\<exists>c. ownership w = Some (Releasing c))" if "worker_inv w"
      using that t by (auto simp: worker_inv_def)
    then have "worker_inv w \<longrightarrow> worker_inv (w\<lparr>lastReservationPoll := Some m, reservationTask := Some \<lparr>rt_tenure = x, rt_aborted = False\<rparr>\<rparr>)"
      using t by (cases "(ownership w, w)" rule: flight_ok.cases) (auto simp: worker_inv_def reservation_fenced_def)
    then show ?thesis by (simp add: safe_def evolves_def)
  qed
  show ?thesis
  proof (cases b)
    case True
    then have e: "isCurrentTenure m wall x w = (True, w')" using Pair by simp
    then have "w' = w \<and> safe mnow U w (w\<lparr>lastReservationPoll := Some m, reservationTask := Some \<lparr>rt_tenure = x, rt_aborted = False\<rparr>\<rparr>)"
      using * unfolding isCurrentTenure_True by blast
    then show ?thesis using e by (auto simp: observeLoginReservations_def split: option.split)
  next
    case False
    then show ?thesis using Pair safe_isCurrentTenure_eq [OF Pair] by (simp add: observeLoginReservations_def)
  qed
qed

lemma safe_correctDrift: "safe mnow U w (correctDriftHourly m x w)"
  unfolding correctDriftHourly_def
  by (auto simp: safe_def scheduled_def evolves_def worker_inv_def elim: flight_ok_kept)

lemma safe_abort_reservation: "safe mnow U w (w\<lparr>reservationTask := abort_reservation (reservationTask w)\<rparr>)"
  by (auto simp: safe_def evolves_def worker_inv_def elim: flight_ok_kept)

lemma safe_launch_loop:
  "(worker_inv w \<Longrightarrow> st_identity ` set (active w) \<subseteq> set ex) \<Longrightarrow> safe mnow U w (launch_loop m wall x ex w)"
  unfolding launch_loop_def by (rule safe_while_current) (auto intro: safe_scheduled)


lemma safe_launch:
  assumes "tenure w = Some t" "tn_id t = x"
    "worker_inv w \<Longrightarrow> length (active w) < concurrency w \<and> i \<notin> st_identity ` set (active w)"
  shows "safe mnow U w (scheduled Idle (launch x i w))"
proof -
  have "worker_inv w \<longrightarrow> worker_inv (scheduled Idle (launch x i w))"
  proof
    assume w: "worker_inv w"
    then have "\<not> (\<exists>c. ownership w = Some (Claiming c))" "\<not> (\<exists>c. ownership w = Some (Releasing c))"
      using assms(1) by (auto simp: worker_inv_def)
    then show "worker_inv (scheduled Idle (launch x i w))" using w assms(1-3)
      by (cases "(ownership w, w)" rule: flight_ok.cases)
         (auto simp: worker_inv_def launch_def scheduled_def step_fenced_def)
  qed
  then show ?thesis by (simp add: safe_def evolves_def launch_def scheduled_def)
qed


lemma isCurrentTenure_scheduled:
  "isCurrentTenure m wall x (scheduled p w) = map_prod id (scheduled p) (isCurrentTenure m wall x w)"
  by (auto simp: isCurrentTenure_def scheduled_def loseOwnership_def holds_tenure_def halt_def split: option.split)

lemma launch_loop_scheduled: "launch_loop m wall x ex (scheduled p w) = launch_loop m wall x ex w"
  unfolding launch_loop_def while_current_def isCurrentTenure_scheduled
  by (cases "isCurrentTenure m wall x w") (auto simp: scheduled_def split: bool.split)

lemma evolves_launch_loop: "evolves mnow U w (launch_loop m wall x ex w)"
proof (cases "isCurrentTenure m wall x w")
  case (Pair b w')
  have "evolves mnow U w w'" using safe_isCurrentTenure_eq [OF Pair, of mnow U] by (simp add: safe_def)
  then have "evolves mnow U w (scheduled p w')" for p by (simp add: evolves_def scheduled_def)
  then show ?thesis using Pair by (simp add: launch_loop_def while_current_def split: bool.split)
qed

lemma safe_schedule_held:
  assumes "scheduling w = CheckingHolds x ex i"
  shows "safe mnow U w (schedule_held m wall x ex i reply w)"
  unfolding schedule_held_def
proof (rule safe_under_storage)
  fix held
  have inv: "length (active w) < concurrency w \<and> st_identity ` set (active w) \<subseteq> set ex - {i} \<and> i \<in> set ex" if "worker_inv w"
    using that assms by (auto simp: worker_inv_def)
  have "safe mnow U w (launch_loop m wall x ex (launch x i w))" if t: "tenure w = Some t" "tn_id t = x" for t
  proof -
    let ?w = "scheduled Idle (launch x i w)"
    have 1: "safe mnow U w ?w" by (rule safe_launch [OF t]) (use inv in auto)
    have 2: "evolves mnow U ?w (launch_loop m wall x ex ?w)" by (rule evolves_launch_loop)
    have "worker_inv (launch_loop m wall x ex ?w)" if w: "worker_inv w"
    proof -
      have "st_identity ` set (active ?w) \<subseteq> set ex" using inv [OF w] by (auto simp: launch_def scheduled_def)
      then have "safe mnow U ?w (launch_loop m wall x ex ?w)" by (intro safe_launch_loop)
      then show ?thesis using 1 w by (simp add: safe_def)
    qed
    then have "safe mnow U w (launch_loop m wall x ex ?w)" using 1 2 evolves_trans unfolding safe_def by blast
    then show ?thesis by (simp add: launch_loop_scheduled)
  qed
  then show "safe mnow U w (if held then launch_loop m wall x ex w
       else while_current m wall x (\<lambda>w. launch_loop m wall x ex (launch x i w)) w)"
    using inv by (auto intro!: safe_launch_loop safe_while_current)
qed


lemma safe_starting: "safe mnow U w (w\<lparr>starting := a, started := b\<rparr>)" "safe mnow U w (w\<lparr>starting := a\<rparr>)"
  by (auto simp: safe_def evolves_def worker_inv_def elim!: flight_ok_kept)

lemma safe_start:
  assumes "u \<in> U" shows "safe mnow U w (snd (start mnow wall u w))"
proof (cases "ensureOwner mnow wall u w")
  case (Pair a w')
  then have "safe mnow U w w'" using safe_ensureOwner [OF assms, of mnow w wall] by simp
  then have "safe mnow U w (w'\<lparr>starting := Some a\<rparr>)" by (rule safe_trans) (rule safe_starting)
  then show ?thesis using Pair by (simp add: start_def)
qed

lemma safe_start_resumed: "safe mnow U w (snd (start_resumed mnow wall w))"
proof (cases "starting w")
  case (Some a)
  show ?thesis
  proof (cases "owner_answer mnow wall a w")
    case r: (Some r)
    then obtain b w' where r': "owner_answer mnow wall a w = Some (b, w')" by (cases r) auto
    note t = safe_trans [OF safe_owner_answer [OF r'] safe_starting(1)] safe_trans [OF safe_owner_answer [OF r'] safe_starting(2)]
    show ?thesis using Some r' t by (simp add: start_resumed_def)
  qed (simp add: start_resumed_def Some)
qed (simp add: start_resumed_def)

lemma safe_stop: "safe mnow U w (stop w)"
proof (cases "stopping w = None")
  case True
  then have "worker_inv w \<longrightarrow> worker_inv (stop w)" by (auto simp: stop_def intro: worker_inv_lost)
  then show ?thesis using True by (simp add: safe_def evolves_def stop_def)
qed (simp add: stop_def)

lemma phase_ok_subset:
  "phase_ok c as p \<Longrightarrow> length bs \<le> length as \<Longrightarrow> st_identity ` set bs \<subseteq> st_identity ` set as \<Longrightarrow> phase_ok c bs p"
  by (cases p) auto

lemma safe_active:
  assumes "list_all (step_fenced (tenure w)) (active w) \<Longrightarrow> list_all (step_fenced (tenure w)) as"
    "length as \<le> length (active w)" "st_identity ` set as \<subseteq> st_identity ` set (active w)"
    "distinct (map st_identity (active w)) \<Longrightarrow> distinct (map st_identity as)"
  shows "safe mnow U w (w\<lparr>active := as\<rparr>)"
  using assms by (auto simp: safe_def evolves_def worker_inv_def elim!: flight_ok_kept intro: phase_ok_subset)

lemma safe_step_finished: "safe mnow U w (step_finished i w)"
  unfolding step_finished_def
  by (rule safe_active) (auto simp: list_all_iff distinct_map inj_on_def length_filter_le)

lemma safe_step_aborted: "safe mnow U w (step_aborted i w)"
proof -
  have "map st_identity (map (\<lambda>a. if st_identity a = i then a\<lparr>st_aborted := True\<rparr> else a) (active w)) = map st_identity (active w)"
    by simp
  then show ?thesis unfolding step_aborted_def
    by (intro safe_active, unfold set_map [symmetric])
       (simp_all only: length_map, auto simp: list_all_iff step_fenced_def split: option.splits)
qed

lemma safe_reservations_finished: "safe mnow U w (reservations_finished w)"
  by (auto simp: reservations_finished_def safe_def evolves_def worker_inv_def elim!: flight_ok_kept)

lemma safe_reservations_listed: "safe mnow U w (reservations_listed rows w)"
  by (auto simp: reservations_listed_def safe_def evolves_def worker_inv_def elim!: flight_ok_kept)

lemma safe_isActive: "safe mnow U w (snd (isActive m wall w))"
  using safe_isCurrentTenure by (auto simp: isActive_def split: option.split)

lemma safe_schedule_settings: "safe mnow U w (schedule_settings m wall x reply w)"
  unfolding schedule_settings_def
proof (rule safe_under_storage)
  fix p
  have "safe mnow U w (correctDriftHourly m x (observeLoginReservations m wall x w))"
    by (rule safe_trans [OF safe_observe safe_correctDrift])
  moreover have "safe mnow U w (scheduled Idle (w\<lparr>reservationTask := abort_reservation (reservationTask w)\<rparr>))"
    by (rule safe_trans [OF safe_abort_reservation safe_scheduled]) simp
  ultimately show "safe mnow U w (if p then scheduled Idle (w\<lparr>reservationTask := abort_reservation (reservationTask w)\<rparr>)
       else while_current m wall x (\<lambda>w. correctDriftHourly m x (observeLoginReservations m wall x w)) w)"
    by (auto intro: safe_while_current)
qed

lemma safe_schedule_selected:
  assumes "scheduling w = SelectingRow x ex"
  shows "safe mnow U w (schedule_selected wall x ex reply w)"
  unfolding schedule_selected_def
proof (rule safe_under_storage)
  fix row
  have "length (active w) < concurrency w \<and> st_identity ` set (active w) \<subseteq> set ex" if "worker_inv w"
    using that assms by (auto simp: worker_inv_def)
  then show "safe mnow U w (case row of None \<Rightarrow> scheduled Idle w
      | Some i \<Rightarrow> if i \<in> set ex then scheduled Idle w else scheduled (CheckingHolds x (ex @ [i]) i) w)"
    by (auto split: option.split intro!: safe_scheduled)
qed

lemma safe_for_step: "(\<And>x. safe mnow U w (f x w)) \<Longrightarrow> safe mnow U w (for_step i f w)"
  by (simp add: for_step_def split: option.split)

lemma safe_for_observation: "(\<And>x. safe mnow U w (f x w)) \<Longrightarrow> safe mnow U w (for_observation f w)"
  by (simp add: for_observation_def split: option.split)

theorem safe_react: "event_ids e \<subseteq> U \<Longrightarrow> safe mnow U w (react mnow wall e w)"
proof (cases e)
  case ReservationsFinish
  then show ?thesis by (simp add: safe_reservations_finished)
next
  case (DeficitReserved r)
  then show ?thesis
    by (auto simp: schedule_reserved_def split: SchedulePhase.split intro!: safe_under_storage safe_launch_loop)
qed (auto intro!: safe_start safe_ensureOwner safe_tick_begin safe_start_resumed safe_for_step safe_for_observation
      safe_isCurrentTenure safe_renewTenure safe_storageFailed safe_step_aborted safe_step_finished safe_reservations_listed
      safe_isActive safe_stop safe_schedule_owned safe_schedule_settings safe_schedule_selected safe_schedule_held
      safe_under_storage safe_while_current safe_scheduled
      simp: schedule_reclaimed_def schedule_drift_def schedule_eligible_def split: SchedulePhase.split)


section \<open>Settling the request of the election\<close>

lemma settled_simps [simp]:
  "tenure (settled b w) = tenure w" "ownership (settled b w) = None" "active (settled b w) = active w"
  "reservationTask (settled b w) = reservationTask w" "stopped (settled b w) = stopped w"
  "stopping (settled b w) = stopping w" "concurrency (settled b w) = concurrency w"
  by (simp_all add: settled_def)

lemma halt_simps [simp]:
  "tenure (halt w) = tenure w" "ownership (halt w) = ownership w" "active (halt w) = active w"
  "reservationTask (halt w) = reservationTask w" "stopping (halt w) = stopping w" "concurrency (halt w) = concurrency w"
  "scheduling (halt w) = scheduling w" "stopped w \<Longrightarrow> stopped (halt w)"
  by (simp_all add: halt_def)

lemma worker_inv_settled: "worker_inv w \<Longrightarrow> worker_inv (settled b w)"
  unfolding worker_inv_def by (cases "scheduling w") (simp_all add: settled_def)

lemma worker_inv_halt:
  "worker_inv w \<Longrightarrow> tenure w = None \<Longrightarrow> worker_inv (halt w)"
  unfolding worker_inv_def by (auto elim!: flight_ok_kept)

lemma worker_inv_safe: "safe mnow U w w' \<Longrightarrow> worker_inv w \<Longrightarrow> worker_inv w'"
  by (simp add: safe_def)

lemma worker_inv_settleClaim:
  assumes w: "worker_inv w" "ownership w = Some (Claiming t)"
  shows "worker_inv (settleClaim mnow t r w)"
proof -
  have n: "tenure w = None" "active w = []" "reservationTask w = None" using w by (auto simp: worker_inv_def)
  have "worker_inv (settled True (w\<lparr>tenure := Some t, ownershipAcquisitions := k\<rparr>))" if "\<not> stopped w" for k
  proof -
    have "settled True (w\<lparr>tenure := Some t, ownershipAcquisitions := k\<rparr>) =
        settled True (w\<lparr>tenure := Some t, ownershipAcquisitions := k, ownership := None\<rparr>)" by (simp add: settled_def)
    moreover have "worker_inv (w\<lparr>tenure := Some t, ownershipAcquisitions := k, ownership := None\<rparr>)"
      using that w n by (auto simp: worker_inv_def)
    ultimately show ?thesis by (simp add: worker_inv_settled)
  qed
  moreover have "worker_inv (w\<lparr>ownership := Some (Releasing x)\<rparr>)" for x
    using w n by (auto simp: worker_inv_def)
  ultimately show ?thesis using w n by (cases "(mnow, t, r, w)" rule: settleClaim.cases)
      (auto intro: worker_inv_settled worker_inv_halt)
qed

lemma worker_inv_settleRenewal:
  assumes w: "worker_inv w" "ownership w = Some (Renewing x q)"
  shows "worker_inv (settleRenewal mnow wall x q r w)"
proof (cases "(mnow, wall, x, q, r, w)" rule: settleRenewal.cases)
  case (1 mnow wall x' q' w')
  show ?thesis
  proof (cases "isCurrentTenure mnow wall x w")
    case (Pair b v)
    show ?thesis
    proof (cases b)
      case True
      then have e: "isCurrentTenure mnow wall x w = (True, v)" using Pair by simp
      then obtain t where t: "v = w" "tenure w = Some t" "tn_id t = x" "\<not> stopped w" unfolding isCurrentTenure_True by blast
      have "worker_inv (w\<lparr>tenure := Some \<lparr>tn_id = x, renewedAt = q\<rparr>, lastSuccessfulRenewal := k\<rparr>)" for k
        using w t by (auto simp: worker_inv_def step_fenced_def [abs_def] reservation_fenced_def [abs_def])
      then show ?thesis using 1 e t(1) by (simp add: worker_inv_settled)
    next
      case False
      then show ?thesis using 1 Pair w worker_inv_safe [OF safe_isCurrentTenure_eq [OF Pair]]
        by (simp add: worker_inv_settled)
    qed
  qed
qed (use w in \<open>auto intro!: worker_inv_settled worker_inv_safe [OF safe_loseOwnership] worker_inv_safe [OF safe_storageFailed]\<close>)

theorem worker_inv_settleOwnership: "worker_inv w \<Longrightarrow> worker_inv (settleOwnership mnow wall r w)"
proof -
  assume w: "worker_inv w"
  have "tenure w = None" if "ownership w = Some (Releasing x)" for x using w that by (auto simp: worker_inv_def)
  then show ?thesis using w
    by (auto simp: settleOwnership_def split: option.split OwnershipFlight.split
        intro: worker_inv_settleClaim worker_inv_settleRenewal worker_inv_settled worker_inv_halt)
qed

text \<open>What becomes of the tenure: the claimed or renewed one is in force, or none is.\<close>

lemma settleOwnership_effect:
  assumes w: "worker_inv w" "ownership w = Some f" and w': "w' = settleOwnership mnow wall r w"
  shows "stopping w' = stopping w \<and> (stopped w \<longrightarrow> stopped w') \<and> concurrency w' = concurrency w \<and>
    (tenure w' = None \<and> ownership w' = None \<or>
     (\<exists>t. f = Claiming t \<and> r = Answered True \<and> \<not> stopped w \<and> tenure w' = Some t \<and> ownership w' = None) \<or>
     (\<exists>t. f = Claiming t \<and> tenure w' = None \<and> ownership w' = Some (Releasing (tn_id t))) \<or>
     (\<exists>x q. f = Renewing x q \<and> r = Answered True \<and> tenure w' = Some \<lparr>tn_id = x, renewedAt = q\<rparr> \<and> ownership w' = None))"
proof (cases f)
  case (Claiming t)
  then have "tenure w = None" using w by (simp add: worker_inv_def)
  then show ?thesis using Claiming w w' by (cases "(mnow, t, r, w)" rule: settleClaim.cases) (auto simp: settleOwnership_def)
next
  case (Renewing x q)
  have x: "\<forall>t. tenure w = Some t \<longrightarrow> tn_id t = x" "stopped w \<longrightarrow> tenure w = None" using w Renewing by (simp_all add: worker_inv_def)
  then have l: "tenure (loseOwnership wall x l w) = None" "stopping (loseOwnership wall x l w) = stopping w"
    "stopped w \<longrightarrow> stopped (loseOwnership wall x l w)" "concurrency (loseOwnership wall x l w) = concurrency w" for l
    by (auto simp: loseOwnership_def holds_tenure_def halt_def)
  show ?thesis
  proof (cases "(mnow, wall, x, q, r, w)" rule: settleRenewal.cases)
    case 1
    show ?thesis
    proof (cases "isCurrentTenure mnow wall x w")
      case (Pair b v)
      then show ?thesis using 1 w w' l x Renewing
        by (cases b) (auto simp: settleOwnership_def isCurrentTenure_def split: option.splits if_splits)
    qed
  qed (use w w' l Renewing in \<open>auto simp: settleOwnership_def storageFailed_def\<close>)
next
  case (Releasing x)
  then show ?thesis using w w' by (auto simp: settleOwnership_def worker_inv_def halt_def)
qed

end
