(* ===== verification/Worker_Cluster.thy ===== *)
theory Worker_Cluster
  imports Worker_Tenure
begin

text \<open>
  Several processes with a prewarm worker each, on one store. A replica is a worker with its own monotonic
  clock, which runs at the rate of the store's clock from an origin of its own (\<open>skew\<close>), and with the
  answer that is on its way back to it. A request may be served, served with its answer lost, or given up by
  the caller and still served later (\<open>abandoned\<close>). Replicas join at any time; one that crashed is one
  that has no further steps. Whatever else happens to the store leaves the two owner columns alone.
\<close>

section \<open>Replicas and the requests of the election\<close>

datatype OwnerRequest = ClaimRequest string | RenewRequest string | ReleaseRequest string

fun serve :: "int \<Rightarrow> OwnerRequest \<Rightarrow> store \<Rightarrow> bool \<times> store" where
  "serve now (ClaimRequest x) s = claimOwner now x s"
| "serve now (RenewRequest x) s = renewOwner now x s"
| "serve now (ReleaseRequest x) s = (True, releaseOwner x s)"

text \<open>The call behind a flight; a store without \<open>renewOwner\<close> renews by claiming.\<close>

fun request_of :: "bool \<Rightarrow> OwnershipFlight \<Rightarrow> OwnerRequest" where
  "request_of fenced (Claiming t) = ClaimRequest (tn_id t)"
| "request_of fenced (Renewing x q) = (if fenced then RenewRequest x else ClaimRequest x)"
| "request_of fenced (Releasing x) = ReleaseRequest x"

record replica =
  worker :: PrewarmWorker
  skew :: int
  reply :: "OwnerReply option"

record cluster =
  clk :: int
  cdb :: store
  replicas :: "replica list"
  used_ids :: "string set"
  abandoned :: "OwnerRequest list"

definition monotonic :: "cluster \<Rightarrow> replica \<Rightarrow> int" where
  "monotonic c r = clk c + skew r"

definition put_replica :: "nat \<Rightarrow> replica \<Rightarrow> cluster \<Rightarrow> cluster" where
  "put_replica i r c = c\<lparr>replicas := (replicas c)[i := r]\<rparr>"

definition same_owner :: "store \<Rightarrow> store \<Rightarrow> bool" where
  "same_owner s s' \<longleftrightarrow> owner (settings s') = owner (settings s) \<and> owner_until (settings s') = owner_until (settings s)"

inductive cluster_step :: "cluster \<Rightarrow> cluster \<Rightarrow> bool" where
  time_passes: "clk c \<le> t \<Longrightarrow> cluster_step c (c\<lparr>clk := t\<rparr>)"
| store_changes: "same_owner (cdb c) s \<Longrightarrow> cluster_step c (c\<lparr>cdb := s\<rparr>)"
| joins: "newPrewarmWorker multi fenced poll conc (clk c + k) = Inr w \<Longrightarrow>
    cluster_step c (c\<lparr>replicas := replicas c @ [\<lparr>worker = w, skew = k, reply = None\<rparr>]\<rparr>)"
| reacts: "i < length (replicas c) \<Longrightarrow> r = replicas c ! i \<Longrightarrow> event_ids e \<inter> used_ids c = {} \<Longrightarrow>
    cluster_step c (put_replica i (r\<lparr>worker := react (monotonic c r) wall e (worker r)\<rparr>) c\<lparr>used_ids := used_ids c \<union> event_ids e\<rparr>)"
| served: "i < length (replicas c) \<Longrightarrow> r = replicas c ! i \<Longrightarrow> ownership (worker r) = Some f \<Longrightarrow> reply r = None \<Longrightarrow>
    serve (clk c) (request_of (fencedRenewal (worker r)) f) (cdb c) = (b, s) \<Longrightarrow>
    cluster_step c (put_replica i (r\<lparr>reply := Some (Answered b)\<rparr>) c\<lparr>cdb := s\<rparr>)"
| answer_lost: "i < length (replicas c) \<Longrightarrow> r = replicas c ! i \<Longrightarrow> ownership (worker r) = Some f \<Longrightarrow> reply r \<noteq> None \<Longrightarrow>
    cluster_step c (put_replica i (r\<lparr>reply := Some (Failed e)\<rparr>) c)"
| given_up: "i < length (replicas c) \<Longrightarrow> r = replicas c ! i \<Longrightarrow> ownership (worker r) = Some f \<Longrightarrow> reply r = None \<Longrightarrow>
    q = request_of (fencedRenewal (worker r)) f \<Longrightarrow>
    cluster_step c (put_replica i (r\<lparr>reply := Some (Failed e)\<rparr>) c\<lparr>abandoned := abandoned c @ [q]\<rparr>)"
| served_late: "q \<in> set (abandoned c) \<Longrightarrow>
    cluster_step c (c\<lparr>cdb := snd (serve (clk c) q (cdb c)), abandoned := remove1 q (abandoned c)\<rparr>)"
| settles: "i < length (replicas c) \<Longrightarrow> r = replicas c ! i \<Longrightarrow> ownership (worker r) \<noteq> None \<Longrightarrow> reply r = Some a \<Longrightarrow>
    cluster_step c (put_replica i (r\<lparr>worker := settleOwnership (monotonic c r) wall a (worker r), reply := None\<rparr>) c)"
| stop_releases: "i < length (replicas c) \<Longrightarrow> r = replicas c ! i \<Longrightarrow> stopping (worker r) = Some (Some x) \<Longrightarrow> drained (worker r) \<Longrightarrow>
    cluster_step c (put_replica i (r\<lparr>worker := (worker r)\<lparr>stopping := Some None\<rparr>\<rparr>) c\<lparr>abandoned := abandoned c @ [ReleaseRequest x]\<rparr>)"

text \<open>
  The release that ends \<open>stop\<close> has no reader of its answer, so it is sent off as a request that is served
  at some later instant, or never.
\<close>

inductive cluster_reachable :: "cluster \<Rightarrow> bool" where
  no_replicas: "0 \<le> now \<Longrightarrow> owner_until (settings s) \<le> now + OWNER_TTL_MS \<Longrightarrow>
    cluster_reachable \<lparr>clk = now, cdb = s, replicas = [], used_ids = {}, abandoned = []\<rparr>"
| goes_on: "cluster_reachable c \<Longrightarrow> cluster_step c c' \<Longrightarrow> cluster_reachable c'"

section \<open>The invariant of the election\<close>

text \<open>The store vouches for a tenure whose last granted request started at \<open>g\<close>, until it expires.\<close>

definition vouched :: "int \<Rightarrow> store \<Rightarrow> string \<Rightarrow> int \<Rightarrow> bool" where
  "vouched now s x g \<longleftrightarrow> g \<le> now \<and>
     (now < g + OWNER_TTL_MS \<longrightarrow> owner (settings s) = Some x \<and> g + OWNER_TTL_MS \<le> owner_until (settings s))"

lemma vouched_time: "vouched now s x g \<Longrightarrow> now \<le> t \<Longrightarrow> vouched t s x g"
  by (auto simp: vouched_def)

lemma vouched_same_owner: "vouched now s x g \<Longrightarrow> same_owner s s' \<Longrightarrow> vouched now s' x g"
  by (auto simp: vouched_def same_owner_def)

lemma vouched_serve: "vouched now s x g \<Longrightarrow> q \<noteq> ReleaseRequest x \<Longrightarrow> vouched now (snd (serve now q s)) x g"
  by (cases q) (auto simp: vouched_def claimOwner_def renewOwner_def releaseOwner_def OWNER_TTL_MS_def)

lemma vouched_granted:
  "g \<le> now \<Longrightarrow> serve now q s = (True, s') \<Longrightarrow> q = ClaimRequest x \<or> q = RenewRequest x \<Longrightarrow> vouched now s' x g"
  by (auto simp: vouched_def claimOwner_def renewOwner_def OWNER_TTL_MS_def split: if_splits)

text \<open>The ids a worker may still act under, and all the ids that are its own.\<close>

fun flight_live :: "OwnershipFlight option \<Rightarrow> string set" where
  "flight_live (Some (Claiming t)) = {tn_id t}"
| "flight_live (Some (Renewing x q)) = {x}"
| "flight_live _ = {}"

fun flight_release :: "OwnershipFlight option \<Rightarrow> string set" where
  "flight_release (Some (Releasing x)) = {x}"
| "flight_release _ = {}"

definition live_ids :: "PrewarmWorker \<Rightarrow> string set" where
  "live_ids w = tn_id ` set_option (tenure w) \<union> flight_live (ownership w)"

definition own_ids :: "PrewarmWorker \<Rightarrow> string set" where
  "own_ids w = live_ids w \<union> flight_release (ownership w) \<union> \<Union> (set_option ` set_option (stopping w))"

fun flight_vouched :: "int \<Rightarrow> store \<Rightarrow> int \<Rightarrow> OwnerReply option \<Rightarrow> OwnershipFlight option \<Rightarrow> bool" where
  "flight_vouched now s k a (Some (Claiming t)) =
     (renewedAt t - k \<le> now \<and> (a = Some (Answered True) \<longrightarrow> vouched now s (tn_id t) (renewedAt t - k)))"
| "flight_vouched now s k a (Some (Renewing x q)) =
     (q - k \<le> now \<and> (a = Some (Answered True) \<longrightarrow> vouched now s x (q - k)))"
| "flight_vouched now s k a (Some (Releasing x)) = True"
| "flight_vouched now s k a None = (a = None)"

definition replica_ok :: "int \<Rightarrow> store \<Rightarrow> replica \<Rightarrow> bool" where
  "replica_ok now s r \<longleftrightarrow> worker_inv (worker r) \<and> 1 \<le> concurrency (worker r) \<and> concurrency (worker r) \<le> 20 \<and>
     pred_option (\<lambda>t. vouched now s (tn_id t) (renewedAt t - skew r)) (tenure (worker r)) \<and>
     flight_vouched now s (skew r) (reply r) (ownership (worker r))"

definition release_dead :: "string set \<Rightarrow> replica list \<Rightarrow> OwnerRequest \<Rightarrow> bool" where
  "release_dead U rs q \<longleftrightarrow> (\<forall>x. q = ReleaseRequest x \<longrightarrow> x \<in> U \<and> (\<forall>r\<in>set rs. x \<notin> live_ids (worker r)))"

definition cluster_inv :: "cluster \<Rightarrow> bool" where
  "cluster_inv c \<longleftrightarrow>
     (\<forall>r\<in>set (replicas c). replica_ok (clk c) (cdb c) r \<and> own_ids (worker r) \<subseteq> used_ids c) \<and>
     (\<forall>i<length (replicas c). \<forall>j<length (replicas c). i \<noteq> j \<longrightarrow>
        own_ids (worker (replicas c ! i)) \<inter> own_ids (worker (replicas c ! j)) = {}) \<and>
     (\<forall>q\<in>set (abandoned c). release_dead (used_ids c) (replicas c) q) \<and>
     0 \<le> clk c \<and> owner_until (settings (cdb c)) \<le> clk c + OWNER_TTL_MS"

section \<open>Every step keeps the invariant\<close>

lemma flight_live_set: "flight_vouched now s k a f \<Longrightarrow> (\<And>x g. x \<in> flight_live f \<Longrightarrow> vouched now s x g \<Longrightarrow> vouched now' s' x g) \<Longrightarrow>
    now \<le> now' \<Longrightarrow> flight_vouched now' s' k a f"
  by (cases "(now, s, k, a, f)" rule: flight_vouched.cases) auto

lemma replica_ok_mono:
  assumes r: "replica_ok now s r" and "now \<le> now'"
    and v: "\<And>x g. x \<in> live_ids (worker r) \<Longrightarrow> vouched now s x g \<Longrightarrow> vouched now' s' x g"
  shows "replica_ok now' s' r"
proof -
  have "flight_vouched now' s' (skew r) (reply r) (ownership (worker r))"
  proof (rule flight_live_set [OF _ _ assms(2)])
    show "flight_vouched now s (skew r) (reply r) (ownership (worker r))" using r by (simp add: replica_ok_def)
    show "vouched now' s' x g" if "x \<in> flight_live (ownership (worker r))" "vouched now s x g" for x g
      using v [OF _ that(2)] that(1) by (simp add: live_ids_def)
  qed
  moreover have "pred_option (\<lambda>t. vouched now' s' (tn_id t) (renewedAt t - skew r)) (tenure (worker r))"
    using r v by (cases "tenure (worker r)") (auto simp: replica_ok_def live_ids_def)
  ultimately show ?thesis using r by (simp add: replica_ok_def)
qed

lemma replica_ok_serve:
  assumes "replica_ok now s r" "\<And>x. q = ReleaseRequest x \<Longrightarrow> x \<notin> live_ids (worker r)"
  shows "replica_ok now (snd (serve now q s)) r"
  using assms by (intro replica_ok_mono [OF assms(1)]) (auto intro!: vouched_serve)

lemma owner_until_serve:
  "owner_until (settings s) \<le> now + OWNER_TTL_MS \<Longrightarrow> 0 \<le> now + OWNER_TTL_MS \<Longrightarrow>
    owner_until (settings (snd (serve now q s))) \<le> now + OWNER_TTL_MS"
  by (cases q) (auto simp: claimOwner_def renewOwner_def releaseOwner_def OWNER_TTL_MS_def)

lemma release_dead_put:
  assumes "release_dead U rs q" "live_ids (worker r') \<subseteq> live_ids (worker (rs ! i)) \<union> E" "E \<inter> U = {}" "i < length rs"
  shows "release_dead (U \<union> E) (rs[i := r']) q"
  unfolding release_dead_def
proof (intro allI impI conjI ballI)
  fix x r assume q: "q = ReleaseRequest x"
  then have x: "x \<in> U" "\<forall>r\<in>set rs. x \<notin> live_ids (worker r)" using assms(1) by (auto simp: release_dead_def)
  show "x \<in> U \<union> E" using x by simp
  assume "r \<in> set (rs[i := r'])"
  then have "r = r' \<or> r \<in> set rs" using set_update_subset_insert by fast
  then show "x \<notin> live_ids (worker r)" using x assms(2-4) nth_mem [of i rs] by blast
qed

lemma cluster_inv_put:
  assumes c: "cluster_inv c" and i: "i < length (replicas c)" "r = replicas c ! i"
    and others: "\<And>q. q \<in> set (replicas c) \<Longrightarrow> replica_ok (clk c) s q" and r': "replica_ok (clk c) s r'"
    and E: "live_ids (worker r') \<subseteq> live_ids (worker r) \<union> E" "own_ids (worker r') \<subseteq> own_ids (worker r) \<union> E" "E \<inter> used_ids c = {}"
    and A: "\<And>q. q \<in> set A \<Longrightarrow> q \<in> set (abandoned c) \<or> release_dead (used_ids c \<union> E) ((replicas c)[i := r']) q"
    and s: "owner_until (settings s) \<le> clk c + OWNER_TTL_MS"
  shows "cluster_inv (c\<lparr>replicas := (replicas c)[i := r'], cdb := s, used_ids := used_ids c \<union> E, abandoned := A\<rparr>)"
proof -
  have now: "0 \<le> clk c" using c by (simp add: cluster_inv_def)
  let ?rs = "(replicas c)[i := r']"
  note inv = c [unfolded cluster_inv_def]
  have own: "own_ids (worker q) \<subseteq> used_ids c" if "q \<in> set (replicas c)" for q using inv that by blast
  have ri: "r \<in> set (replicas c)" using i by simp
  have 1: "replica_ok (clk c) s q \<and> own_ids (worker q) \<subseteq> used_ids c \<union> E" if q: "q \<in> set ?rs" for q
  proof -
    have "q = r' \<or> q \<in> set (replicas c)" using q set_update_subset_insert by fast
    then show ?thesis using others r' own E(2) ri by blast
  qed
  have part: "own_ids (worker (replicas c ! j)) \<inter> own_ids (worker (replicas c ! k)) = {}"
    if "j < length (replicas c)" "k < length (replicas c)" "j \<noteq> k" for j k using inv that by blast
  have new: "own_ids (worker r') \<inter> own_ids (worker (replicas c ! j)) = {}" if j: "j < length (replicas c)" "j \<noteq> i" for j
  proof -
    have "own_ids (worker r) \<inter> own_ids (worker (replicas c ! j)) = {}" using part [of i j] i j by simp
    moreover have "own_ids (worker (replicas c ! j)) \<subseteq> used_ids c" using own j(1) by simp
    ultimately show ?thesis using E(2,3) by blast
  qed
  have 2: "own_ids (worker (?rs ! j)) \<inter> own_ids (worker (?rs ! k)) = {}"
    if jk: "j < length ?rs" "k < length ?rs" "j \<noteq> k" for j k
    using jk part [of j k] new [of k] new [of j] i(1) by (cases "j = i"; cases "k = i") (auto simp: Int_commute)
  have 3: "release_dead (used_ids c \<union> E) ?rs q" if "q \<in> set A" for q
    using A [OF that] inv E i release_dead_put [of "used_ids c" "replicas c" q r' i E] by blast
  show ?thesis unfolding cluster_inv_def using 1 2 3 s now by simp
qed

lemma cluster_inv_store:
  assumes c: "cluster_inv c" and "\<And>q. q \<in> set (replicas c) \<Longrightarrow> replica_ok (clk c) s q"
    and "owner_until (settings s) \<le> clk c + OWNER_TTL_MS" "set A \<subseteq> set (abandoned c)"
  shows "cluster_inv (c\<lparr>cdb := s, abandoned := A\<rparr>)"
  using assms unfolding cluster_inv_def by auto


lemma evolves_ids:
  assumes "evolves m U w w'"
  shows "live_ids w' \<subseteq> live_ids w \<union> U" "own_ids w' \<subseteq> own_ids w \<union> U"
proof -
  have t: "tn_id ` set_option (tenure w') \<subseteq> tn_id ` set_option (tenure w)"
    and o: "flight_live (ownership w') \<subseteq> live_ids w \<union> U" "flight_release (ownership w') \<subseteq> flight_release (ownership w)"
    and s: "\<Union> (set_option ` set_option (stopping w')) \<subseteq> \<Union> (set_option ` set_option (stopping w)) \<union> live_ids w"
    using assms unfolding evolves_def live_ids_def by fastforce+
  show "live_ids w' \<subseteq> live_ids w \<union> U" using t o(1) unfolding live_ids_def by blast
  then show "own_ids w' \<subseteq> own_ids w \<union> U" using o(2) s unfolding own_ids_def by blast
qed

lemma cluster_inv_replica: "cluster_inv c \<Longrightarrow> q \<in> set (replicas c) \<Longrightarrow> replica_ok (clk c) (cdb c) q"
  by (simp add: cluster_inv_def)

lemma cluster_inv_release: "cluster_inv c \<Longrightarrow> q \<in> set (abandoned c) \<Longrightarrow> release_dead (used_ids c) (replicas c) q"
  by (simp add: cluster_inv_def)

lemma cluster_inv_until: "cluster_inv c \<Longrightarrow> owner_until (settings (cdb c)) \<le> clk c + OWNER_TTL_MS"
  by (simp add: cluster_inv_def)

lemma cluster_inv_clk: "cluster_inv c \<Longrightarrow> 0 \<le> clk c"
  by (simp add: cluster_inv_def)

text \<open>The store is unchanged: what remains is the replica that acted.\<close>

lemma cluster_inv_replace:
  assumes "cluster_inv c" "i < length (replicas c)" "r = replicas c ! i" "replica_ok (clk c) (cdb c) r'"
    "live_ids (worker r') \<subseteq> live_ids (worker r) \<union> E" "own_ids (worker r') \<subseteq> own_ids (worker r) \<union> E" "E \<inter> used_ids c = {}"
  shows "cluster_inv (put_replica i r' c\<lparr>used_ids := used_ids c \<union> E\<rparr>)"
proof -
  have "put_replica i r' c\<lparr>used_ids := used_ids c \<union> E\<rparr> =
      c\<lparr>replicas := (replicas c)[i := r'], cdb := cdb c, used_ids := used_ids c \<union> E, abandoned := abandoned c\<rparr>"
    by (simp add: put_replica_def)
  then show ?thesis
    using cluster_inv_put [OF assms(1-3) cluster_inv_replica [OF assms(1)] assms(4-7), of "abandoned c"]
      cluster_inv_until [OF assms(1)] by simp
qed

lemma evolves_flight:
  assumes "evolves m U w w'" and old: "flight_vouched now s k a (ownership w)" and m: "m = now + k"
  shows "flight_vouched now s k a (ownership w')"
proof -
  have o: "ownership w' = ownership w \<or>
      ownership w = None \<and> tenure w' = None \<and> (\<exists>u\<in>U. ownership w' = Some (Claiming \<lparr>tn_id = u, renewedAt = m\<rparr>)) \<or>
      ownership w = None \<and> (\<exists>t. tenure w = Some t \<and> ownership w' = Some (Renewing (tn_id t) m))"
    using assms(1) unfolding evolves_def by (elim conjE)
  then show ?thesis
  proof (elim disjE conjE bexE exE)
    assume "ownership w' = ownership w" then show ?thesis using old by simp
  qed (use old m in simp_all)
qed

lemma replica_ok_reacts:
  assumes r: "replica_ok now s r" and m: "m = now + skew r"
  shows "replica_ok now s (r\<lparr>worker := react m wall e (worker r)\<rparr>)"
proof -
  let ?w = "worker r" let ?w' = "react m wall e ?w"
  have "safe m (event_ids e) ?w ?w'" by (rule safe_react) simp
  then have inv: "worker_inv ?w'" and ev: "evolves m (event_ids e) ?w ?w'"
    using r by (simp_all add: safe_def replica_ok_def)
  have t: "pred_option (\<lambda>t. vouched now s (tn_id t) (renewedAt t - skew r)) (tenure ?w')"
    using ev r unfolding evolves_def replica_ok_def by auto
  have old: "flight_vouched now s (skew r) (reply r) (ownership ?w)" using r by (simp add: replica_ok_def)
  have "flight_vouched now s (skew r) (reply r) (ownership ?w')"
    by (rule evolves_flight [OF ev old m])
  then show ?thesis using inv t ev r by (simp add: replica_ok_def evolves_def)
qed

lemma cluster_inv_reacts:
  assumes c: "cluster_inv c" and i: "i < length (replicas c)" "r = replicas c ! i" and e: "event_ids e \<inter> used_ids c = {}"
  shows "cluster_inv (put_replica i (r\<lparr>worker := react (monotonic c r) wall e (worker r)\<rparr>) c\<lparr>used_ids := used_ids c \<union> event_ids e\<rparr>)"
proof -
  have "replica_ok (clk c) (cdb c) r" using c i by (auto intro: cluster_inv_replica)
  then have "replica_ok (clk c) (cdb c) (r\<lparr>worker := react (monotonic c r) wall e (worker r)\<rparr>)"
    by (rule replica_ok_reacts) (simp add: monotonic_def)
  moreover have "evolves (monotonic c r) (event_ids e) (worker r) (react (monotonic c r) wall e (worker r))"
    using safe_react [of e "event_ids e"] by (simp add: safe_def)
  ultimately show ?thesis using c i e evolves_ids by (intro cluster_inv_replace [where r = r]) auto
qed

lemma release_of_request:
  "request_of b f = ReleaseRequest x \<Longrightarrow> f = Releasing x"
  by (cases f) (auto split: if_splits)

lemma live_of_releasing:
  "worker_inv w \<Longrightarrow> ownership w = Some (Releasing x) \<Longrightarrow> live_ids w = {}"
  by (auto simp: worker_inv_def live_ids_def)

text \<open>A release that a replica sends names an id under which nobody acts any more.\<close>

lemma release_is_dead:
  assumes c: "cluster_inv c" and i: "i < length (replicas c)" "r = replicas c ! i"
    and x: "x \<in> own_ids (worker r)" "x \<notin> live_ids (worker r)"
  shows "release_dead (used_ids c) (replicas c) (ReleaseRequest x)"
proof -
  have "x \<notin> live_ids (worker q)" if q: "q \<in> set (replicas c)" for q
  proof -
    obtain j where j: "j < length (replicas c)" "q = replicas c ! j" using q unfolding in_set_conv_nth by blast
    show ?thesis
    proof (cases "j = i")
      case False
      then have "own_ids (worker q) \<inter> own_ids (worker r) = {}" using c i j unfolding cluster_inv_def by simp
      then show ?thesis using x unfolding own_ids_def by blast
    qed (use j i x in simp)
  qed
  moreover have "x \<in> used_ids c" using c i x(1) unfolding cluster_inv_def by (meson nth_mem subsetD)
  ultimately show ?thesis by (auto simp: release_dead_def)
qed


lemma own_ids_of_release: "ownership w = Some (Releasing x) \<Longrightarrow> x \<in> own_ids w"
  by (simp add: own_ids_def)

lemma release_of_flight:
  assumes c: "cluster_inv c" and i: "i < length (replicas c)" "r = replicas c ! i"
    and f: "ownership (worker r) = Some f" "request_of (fencedRenewal (worker r)) f = ReleaseRequest x"
  shows "release_dead (used_ids c) (replicas c) (ReleaseRequest x)"
proof (rule release_is_dead [OF c i])
  have f': "ownership (worker r) = Some (Releasing x)" using f release_of_request by simp
  have "worker_inv (worker r)" using cluster_inv_replica [OF c, of r] i by (simp add: replica_ok_def)
  then show "x \<notin> live_ids (worker r)" using f' by (simp add: live_of_releasing)
  show "x \<in> own_ids (worker r)" using f' by (rule own_ids_of_release)
qed

lemma release_dead_live: "release_dead U rs (ReleaseRequest x) \<Longrightarrow> r \<in> set rs \<Longrightarrow> x \<notin> live_ids (worker r)"
  by (simp add: release_dead_def)

lemma replicas_ok_serve:
  assumes c: "cluster_inv c" and q: "release_dead (used_ids c) (replicas c) q" and r: "r \<in> set (replicas c)"
  shows "replica_ok (clk c) (snd (serve (clk c) q (cdb c))) r"
  by (rule replica_ok_serve [OF cluster_inv_replica [OF c r]]) (use q r in \<open>auto simp: release_dead_def\<close>)

lemma flight_release_dead:
  assumes c: "cluster_inv c" and i: "i < length (replicas c)" "r = replicas c ! i"
    and f: "ownership (worker r) = Some f"
  shows "release_dead (used_ids c) (replicas c) (request_of (fencedRenewal (worker r)) f)"
  using release_of_flight [OF c i f] by (cases "request_of (fencedRenewal (worker r)) f") (auto simp: release_dead_def)

lemma owner_until_served:
  "cluster_inv c \<Longrightarrow> owner_until (settings (snd (serve (clk c) q (cdb c)))) \<le> clk c + OWNER_TTL_MS"
  using owner_until_serve [OF cluster_inv_until, of c q] cluster_inv_clk [of c] by (simp add: OWNER_TTL_MS_def)

text \<open>An answer the store has just given is vouched for.\<close>

lemma flight_vouched_granted:
  assumes "flight_vouched now s0 k a0 (Some f)" "serve now (request_of b f) s0 = (v, s)"
  shows "flight_vouched now s k (Some (Answered v)) (Some f)"
proof (cases f)
  case (Claiming t)
  then show ?thesis using assms vouched_granted [of "renewedAt t - k" now "ClaimRequest (tn_id t)" s0 s "tn_id t"] by auto
next
  case (Renewing x q)
  then show ?thesis
    using assms vouched_granted [of "q - k" now "request_of b f" s0 s x] by (auto split: if_splits)
qed simp

lemma flight_vouched_failed: "flight_vouched now s k a (Some f) \<Longrightarrow> flight_vouched now s k (Some (Failed e)) (Some f)"
  by (cases f) auto

lemma cluster_inv_served:
  assumes c: "cluster_inv c" and i: "i < length (replicas c)" "r = replicas c ! i"
    and f: "ownership (worker r) = Some f" "serve (clk c) (request_of (fencedRenewal (worker r)) f) (cdb c) = (b, s)"
  shows "cluster_inv (put_replica i (r\<lparr>reply := Some (Answered b)\<rparr>) c\<lparr>cdb := s\<rparr>)"
proof -
  let ?q = "request_of (fencedRenewal (worker r)) f"
  have s: "s = snd (serve (clk c) ?q (cdb c))" using f(2) by simp
  have ri: "r \<in> set (replicas c)" using i by simp
  have ok: "replica_ok (clk c) s q" if "q \<in> set (replicas c)" for q
    unfolding s by (rule replicas_ok_serve [OF c flight_release_dead [OF c i f(1)] that])
  have "flight_vouched (clk c) (cdb c) (skew r) (reply r) (Some f)"
    using cluster_inv_replica [OF c ri] f(1) by (simp add: replica_ok_def)
  then have "flight_vouched (clk c) s (skew r) (Some (Answered b)) (Some f)" by (rule flight_vouched_granted [OF _ f(2)])
  then have "replica_ok (clk c) s (r\<lparr>reply := Some (Answered b)\<rparr>)" using ok [OF ri] f(1) by (simp add: replica_ok_def)
  then have "cluster_inv (c\<lparr>replicas := (replicas c)[i := r\<lparr>reply := Some (Answered b)\<rparr>], cdb := s,
      used_ids := used_ids c \<union> {}, abandoned := abandoned c\<rparr>)"
    using ok owner_until_served [OF c, of ?q] s by (intro cluster_inv_put [OF c i]) auto
  then show ?thesis by (simp add: put_replica_def)
qed

lemma cluster_inv_failed:
  assumes c: "cluster_inv c" and i: "i < length (replicas c)" "r = replicas c ! i"
    and f: "ownership (worker r) = Some f" and q: "set A \<subseteq> {request_of (fencedRenewal (worker r)) f}"
  shows "cluster_inv (put_replica i (r\<lparr>reply := Some (Failed e)\<rparr>) c\<lparr>abandoned := abandoned c @ A\<rparr>)"
proof -
  have ri: "r \<in> set (replicas c)" using i by simp
  have ok: "replica_ok (clk c) (cdb c) (r\<lparr>reply := Some (Failed e)\<rparr>)"
    using cluster_inv_replica [OF c ri] f flight_vouched_failed [of "clk c" "cdb c" "skew r" "reply r" f]
    by (simp add: replica_ok_def)
  have "release_dead (used_ids c \<union> {}) ((replicas c)[i := r\<lparr>reply := Some (Failed e)\<rparr>]) p" if "p \<in> set A" for p
  proof (rule release_dead_put)
    show "release_dead (used_ids c) (replicas c) p" using flight_release_dead [OF c i f] that q by auto
  qed (use i in auto)
  then have "cluster_inv (c\<lparr>replicas := (replicas c)[i := r\<lparr>reply := Some (Failed e)\<rparr>], cdb := cdb c,
      used_ids := used_ids c \<union> {}, abandoned := abandoned c @ A\<rparr>)"
    using ok cluster_inv_replica [OF c] cluster_inv_until [OF c] by (intro cluster_inv_put [OF c i]) auto
  then show ?thesis by (simp add: put_replica_def)
qed


lemma replica_ok_settles:
  assumes r: "replica_ok now s r" and f: "ownership (worker r) = Some f" and a: "reply r = Some a"
  shows "replica_ok now s (r\<lparr>worker := settleOwnership m wall a (worker r), reply := None\<rparr>)"
proof -
  let ?w = "worker r" let ?w' = "settleOwnership m wall a ?w"
  have w: "worker_inv ?w" "worker_inv ?w'" using r worker_inv_settleOwnership by (simp_all add: replica_ok_def)
  have v: "flight_vouched now s (skew r) (Some a) (Some f)" using r f a by (simp add: replica_ok_def)
  note e = settleOwnership_effect [OF w(1) f refl, of m wall a]
  then have "pred_option (\<lambda>t. vouched now s (tn_id t) (renewedAt t - skew r)) (tenure ?w') \<and>
      flight_vouched now s (skew r) None (ownership ?w')"
    using v by (elim conjE disjE exE) simp_all
  then show ?thesis using w(2) e r by (simp add: replica_ok_def)
qed

lemma settles_ids:
  assumes "worker_inv w" "ownership w = Some f"
  shows "live_ids (settleOwnership m wall a w) \<subseteq> live_ids w" "own_ids (settleOwnership m wall a w) \<subseteq> own_ids w"
  using settleOwnership_effect [OF assms refl, of m wall a] assms(2)
  by (elim conjE disjE exE; simp add: own_ids_def live_ids_def; blast)+

lemma cluster_inv_settles:
  assumes c: "cluster_inv c" and i: "i < length (replicas c)" "r = replicas c ! i"
    and f: "ownership (worker r) \<noteq> None" and a: "reply r = Some a"
  shows "cluster_inv (put_replica i (r\<lparr>worker := settleOwnership m wall a (worker r), reply := None\<rparr>) c)"
proof -
  obtain g where g: "ownership (worker r) = Some g" using f by auto
  have ok: "replica_ok (clk c) (cdb c) r" using c i by (auto intro: cluster_inv_replica)
  then have w: "worker_inv (worker r)" by (simp add: replica_ok_def)
  have "cluster_inv (put_replica i (r\<lparr>worker := settleOwnership m wall a (worker r), reply := None\<rparr>) c\<lparr>used_ids := used_ids c \<union> {}\<rparr>)"
    using settles_ids [OF w g, of m wall a] replica_ok_settles [OF ok g a, of m wall]
    by (intro cluster_inv_replace [OF c i]) auto
  then show ?thesis by (simp add: put_replica_def)
qed

lemma cluster_inv_stop_releases:
  assumes c: "cluster_inv c" and i: "i < length (replicas c)" "r = replicas c ! i"
    and x: "stopping (worker r) = Some (Some x)" and d: "drained (worker r)"
  shows "cluster_inv (put_replica i (r\<lparr>worker := (worker r)\<lparr>stopping := Some None\<rparr>\<rparr>) c\<lparr>abandoned := abandoned c @ [ReleaseRequest x]\<rparr>)"
proof -
  let ?r = "r\<lparr>worker := (worker r)\<lparr>stopping := Some None\<rparr>\<rparr>"
  have ri: "r \<in> set (replicas c)" using i by simp
  note ok = cluster_inv_replica [OF c ri]
  then have live: "live_ids (worker r) = {}" using x d by (auto simp: replica_ok_def worker_inv_def drained_def live_ids_def)
  have ok': "replica_ok (clk c) (cdb c) ?r" using ok x by (auto simp: replica_ok_def worker_inv_def elim!: flight_ok_kept)
  have ids: "live_ids (worker ?r) \<subseteq> live_ids (worker r) \<union> {}" "own_ids (worker ?r) \<subseteq> own_ids (worker r) \<union> {}"
    by (auto simp: live_ids_def own_ids_def)
  have "release_dead (used_ids c) (replicas c) (ReleaseRequest x)"
    using live x by (intro release_is_dead [OF c i]) (auto simp: own_ids_def)
  then have "release_dead (used_ids c \<union> {}) ((replicas c)[i := ?r]) (ReleaseRequest x)"
    by (rule release_dead_put) (use ids i in auto)
  then have "cluster_inv (c\<lparr>replicas := (replicas c)[i := ?r], cdb := cdb c, used_ids := used_ids c \<union> {},
      abandoned := abandoned c @ [ReleaseRequest x]\<rparr>)"
    using ok' ids cluster_inv_replica [OF c] cluster_inv_until [OF c] by (intro cluster_inv_put [OF c i]) auto
  then show ?thesis by (simp add: put_replica_def)
qed

lemma newPrewarmWorker_inv:
  "newPrewarmWorker multi fenced poll conc m = Inr w \<Longrightarrow>
     worker_inv w \<and> 1 \<le> concurrency w \<and> concurrency w \<le> 20 \<and> tenure w = None \<and> ownership w = None \<and> stopping w = None"
  by (auto simp: newPrewarmWorker_def worker_inv_def split: if_splits)

lemma cluster_inv_joins:
  assumes c: "cluster_inv c" and w: "newPrewarmWorker multi fenced poll conc m = Inr w"
  shows "cluster_inv (c\<lparr>replicas := replicas c @ [\<lparr>worker = w, skew = k, reply = None\<rparr>]\<rparr>)"
proof -
  let ?r = "\<lparr>worker = w, skew = k, reply = None\<rparr>"
  note n = newPrewarmWorker_inv [OF w]
  have ids: "live_ids w = {}" "own_ids w = {}" using n by (simp_all add: live_ids_def own_ids_def)
  have "replica_ok (clk c) (cdb c) ?r" using n by (simp add: replica_ok_def)
  then show ?thesis using c ids unfolding cluster_inv_def
    by (auto simp: nth_append less_Suc_eq release_dead_def)
qed

lemma cluster_inv_time:
  assumes c: "cluster_inv c" and t: "clk c \<le> t" shows "cluster_inv (c\<lparr>clk := t\<rparr>)"
proof -
  have "replica_ok t (cdb c) r" if "r \<in> set (replicas c)" for r
    by (rule replica_ok_mono [OF cluster_inv_replica [OF c that] t]) (simp add: vouched_time [OF _ t])
  then show ?thesis using c t by (simp add: cluster_inv_def)
qed

lemma cluster_inv_store_changes:
  assumes c: "cluster_inv c" and s: "same_owner (cdb c) s" shows "cluster_inv (c\<lparr>cdb := s\<rparr>)"
proof -
  have "replica_ok (clk c) s r" if "r \<in> set (replicas c)" for r
    by (rule replica_ok_mono [OF cluster_inv_replica [OF c that]]) (use s in \<open>auto intro: vouched_same_owner\<close>)
  then show ?thesis using c s by (simp add: cluster_inv_def same_owner_def)
qed

lemma cluster_inv_served_late:
  assumes c: "cluster_inv c" and q: "q \<in> set (abandoned c)"
  shows "cluster_inv (c\<lparr>cdb := snd (serve (clk c) q (cdb c)), abandoned := remove1 q (abandoned c)\<rparr>)"
  by (rule cluster_inv_store [OF c replicas_ok_serve [OF c cluster_inv_release [OF c q]] owner_until_served [OF c]
        set_remove1_subset])

lemma cluster_inv_step: "cluster_step c c' \<Longrightarrow> cluster_inv c \<Longrightarrow> cluster_inv c'"
proof (induction rule: cluster_step.induct)
  case (answer_lost i c r f e)
  then show ?case using cluster_inv_failed [of c i r f "[]" e] by (simp add: put_replica_def)
next
  case (given_up i c r f q e)
  then show ?case using cluster_inv_failed [of c i r f "[q]" e] by simp
qed (blast intro: cluster_inv_time cluster_inv_store_changes cluster_inv_joins cluster_inv_reacts cluster_inv_served
      cluster_inv_served_late cluster_inv_settles cluster_inv_stop_releases)+

lemma cluster_inv_reachable: "cluster_reachable c \<Longrightarrow> cluster_inv c"
proof (induction rule: cluster_reachable.induct)
  case (no_replicas now s) then show ?case by (simp add: cluster_inv_def)
qed (rule cluster_inv_step)


section \<open>Any running replica can take over\<close>

text \<open>
  Runs in which only replica \<open>i\<close> and the clock move: nothing joins, every other replica stays as it is, the
  store changes only by serving a request of that replica, and no abandoned request is served. A replica of a
  multi-replica deployment that was not stopped can give up what it had under way, and then a candidacy
  succeeds once the recorded lease is over.
\<close>

definition replica_at :: "nat \<Rightarrow> cluster \<Rightarrow> PrewarmWorker" where
  "replica_at i c = worker (replicas c ! i)"

definition moves_alone :: "nat \<Rightarrow> cluster \<Rightarrow> cluster \<Rightarrow> bool" where
  "moves_alone i c c' \<longleftrightarrow> cluster_step c c' \<and> (\<exists>r. replicas c' = (replicas c)[i := r]) \<and>
     (\<exists>qs. abandoned c' = abandoned c @ qs) \<and>
     (cdb c' = cdb c \<or> (\<exists>f. ownership (replica_at i c) = Some f \<and>
        cdb c' = snd (serve (clk c) (request_of (fencedRenewal (replica_at i c)) f) (cdb c))))"

abbreviation runs_alone :: "nat \<Rightarrow> cluster \<Rightarrow> cluster \<Rightarrow> bool" where
  "runs_alone i \<equiv> (moves_alone i)\<^sup>*\<^sup>*"

lemma moves_alone_step: "moves_alone i c c' \<Longrightarrow> cluster_step c c'"
  by (simp add: moves_alone_def)

lemma moves_aloneI:
  "cluster_step c c' \<Longrightarrow> replicas c' = (replicas c)[i := r] \<Longrightarrow> abandoned c' = abandoned c @ qs \<Longrightarrow> cdb c' = cdb c \<Longrightarrow>
    moves_alone i c c'"
  by (auto simp: moves_alone_def)

lemma clock_moves_alone: "clk c \<le> t \<Longrightarrow> moves_alone i c (c\<lparr>clk := t\<rparr>)"
  by (rule moves_aloneI [OF time_passes, where r = "replicas c ! i" and qs = "[]"]) simp_all

text \<open>At the end of such a run the other replicas are what they were.\<close>

lemma runs_alone_others:
  "runs_alone i c c' \<Longrightarrow> length (replicas c') = length (replicas c) \<and> (\<forall>j. j \<noteq> i \<longrightarrow> replicas c' ! j = replicas c ! j)"
  by (induction rule: rtranclp_induct) (auto simp: moves_alone_def)

definition runnable :: "nat \<Rightarrow> cluster \<Rightarrow> bool" where
  "runnable i c \<longleftrightarrow> cluster_inv c \<and> i < length (replicas c) \<and> multiReplica (replica_at i c) \<and> \<not> stopped (replica_at i c)"

definition active_at :: "nat \<Rightarrow> cluster \<Rightarrow> bool" where
  "active_at i c \<longleftrightarrow> fst (isActive (monotonic c (replicas c ! i)) 0 (worker (replicas c ! i)))"

lemma put_replica_simps [simp]:
  "i < length (replicas c) \<Longrightarrow> replica_at i (put_replica i r c) = worker r"
  "replicas (put_replica i r c) = (replicas c)[i := r]" "clk (put_replica i r c) = clk c"
  "cdb (put_replica i r c) = cdb c" "abandoned (put_replica i r c) = abandoned c" "used_ids (put_replica i r c) = used_ids c"
  by (simp_all add: put_replica_def replica_at_def)

lemma runnable_step:
  "runnable i c \<Longrightarrow> moves_alone i c c' \<Longrightarrow> length (replicas c') = length (replicas c) \<Longrightarrow>
    multiReplica (replica_at i c') \<Longrightarrow> \<not> stopped (replica_at i c') \<Longrightarrow> runnable i c'"
  by (auto simp: runnable_def intro: cluster_inv_step moves_alone_step)

lemma event_step:
  assumes "runnable i c" "event_ids e = {}"
  defines "c' \<equiv> put_replica i ((replicas c ! i)\<lparr>worker := react (monotonic c (replicas c ! i)) 0 e (replica_at i c)\<rparr>) c"
  shows "moves_alone i c c'"
proof -
  have "cluster_step c (c'\<lparr>used_ids := used_ids c \<union> event_ids e\<rparr>)" unfolding c'_def replica_at_def
    by (rule reacts) (use assms(1,2) in \<open>simp_all add: runnable_def\<close>)
  then have "cluster_step c c'" using assms(2) by (simp add: c'_def put_replica_def)
  then show ?thesis by (rule moves_aloneI [where qs = "[]"]) (simp_all add: c'_def put_replica_def)
qed

text \<open>A tenure that has run out is given up at the next check.\<close>

lemma drop_tenure:
  assumes r: "runnable i c" and a: "\<not> active_at i c"
  obtains c' where "runs_alone i c c'" "runnable i c'" "clk c' = clk c" "tenure (replica_at i c') = None"
proof -
  let ?r = "replicas c ! i" let ?w = "react (monotonic c ?r) 0 ActiveAsked (replica_at i c)"
  let ?c = "put_replica i (?r\<lparr>worker := ?w\<rparr>) c"
  have s: "moves_alone i c ?c" by (rule event_step [OF r]) simp
  have i: "i < length (replicas c)" using r by (simp add: runnable_def)
  have w: "tenure ?w = None \<and> multiReplica ?w \<and> \<not> stopped ?w"
    using r a unfolding runnable_def active_at_def replica_at_def
    by (auto simp: isActive_def isCurrentTenure_def loseOwnership_def halt_def holds_tenure_def split: option.splits if_splits)
  then have "runnable i ?c" using i by (intro runnable_step [OF r s]) simp_all
  then show thesis using that [of ?c] s w i by auto
qed

text \<open>A request under way is given up.\<close>

lemma settle_failed:
  assumes "tenure w = None" "multiReplica w"
  shows "tenure (settleOwnership m wall (Failed e) w) = None \<and> ownership (settleOwnership m wall (Failed e) w) = None \<and>
    stopped (settleOwnership m wall (Failed e) w) = stopped w \<and> multiReplica (settleOwnership m wall (Failed e) w)"
  using assms
  by (cases "ownership w"; (cases "the (ownership w)")?)
     (simp_all add: settleOwnership_def halt_def storageFailed_def loseOwnership_def holds_tenure_def settled_def)

lemma drop_flight:
  assumes r: "runnable i c" and t: "tenure (replica_at i c) = None"
  obtains c' where "runs_alone i c c'" "runnable i c'" "clk c' = clk c" "tenure (replica_at i c') = None" "ownership (replica_at i c') = None"
proof (cases "ownership (replica_at i c)")
  case None
  then show thesis using that [of c] r t by simp
next
  case (Some f)
  let ?r = "replicas c ! i" let ?r1 = "?r\<lparr>reply := Some (Failed OtherError)\<rparr>"
  have i: "i < length (replicas c)" using r by (simp add: runnable_def)
  obtain qs where s1: "cluster_step c (put_replica i ?r1 c\<lparr>abandoned := abandoned c @ qs\<rparr>)"
  proof (cases "reply ?r")
    case None
    show thesis by (rule that [OF given_up [OF i refl _ None refl]]) (use Some in \<open>simp add: replica_at_def\<close>)
  next
    case r: (Some a)
    have "cluster_step c (put_replica i ?r1 c)"
      by (rule answer_lost [OF i refl]) (use Some r in \<open>simp_all add: replica_at_def\<close>)
    then show thesis using that [of "[]"] by (simp add: put_replica_def)
  qed
  define c1 where "c1 = put_replica i ?r1 c\<lparr>abandoned := abandoned c @ qs\<rparr>"
  have a1: "moves_alone i c c1" unfolding c1_def by (rule moves_aloneI [OF s1, where qs = qs]) simp_all
  have c1: "replicas c1 ! i = ?r1" "length (replicas c1) = length (replicas c)" "clk c1 = clk c" using i by (simp_all add: c1_def)
  let ?w = "settleOwnership (monotonic c1 ?r1) 0 (Failed OtherError) (worker ?r1)"
  let ?c = "put_replica i (?r1\<lparr>worker := ?w, reply := None\<rparr>) c1"
  have s2: "moves_alone i c1 ?c"
    by (rule moves_aloneI [OF settles, where qs = "[]"]) (use i c1 Some in \<open>simp_all add: replica_at_def\<close>)
  have w: "tenure ?w = None \<and> ownership ?w = None \<and> stopped ?w = stopped (worker ?r1) \<and> multiReplica ?w"
    by (rule settle_failed) (use r t in \<open>simp_all add: replica_at_def runnable_def\<close>)
  have r1: "runnable i c1" using a1 r c1
    by (intro runnable_step [OF r a1]) (simp_all add: replica_at_def runnable_def)
  then have "runnable i ?c" using w i c1 by (intro runnable_step [OF r1 s2]) (simp_all add: runnable_def replica_at_def)
  moreover have "runs_alone i c ?c" using a1 s2 by (meson converse_rtranclp_into_rtranclp r_into_rtranclp)
  ultimately show thesis using that [of ?c] w i c1 by simp
qed


text \<open>The steps and the observation under way come to their end.\<close>

definition vacant :: "nat \<Rightarrow> cluster \<Rightarrow> bool" where
  "vacant i c \<longleftrightarrow> tenure (replica_at i c) = None \<and> ownership (replica_at i c) = None"

lemma finish_step:
  assumes r: "runnable i c" and v: "vacant i c" and e: "e = StepFinishes x \<or> e = ReservationsFinish"
  obtains c' where "moves_alone i c c'" "runnable i c'" "vacant i c'" "clk c' = clk c"
    "replica_at i c' = react (monotonic c (replicas c ! i)) 0 e (replica_at i c)"
proof -
  let ?c = "put_replica i ((replicas c ! i)\<lparr>worker := react (monotonic c (replicas c ! i)) 0 e (replica_at i c)\<rparr>) c"
  have i: "i < length (replicas c)" using r by (simp add: runnable_def)
  have s: "moves_alone i c ?c" by (rule event_step [OF r]) (use e in auto)
  have "runnable i ?c" using r e i
    by (intro runnable_step [OF r s]) (auto simp: runnable_def step_finished_def reservations_finished_def)
  then show thesis using that [of ?c] s e v i by (auto simp: vacant_def step_finished_def reservations_finished_def)
qed

lemma drop_steps:
  assumes "runnable i c" "vacant i c"
  obtains c' where "runs_alone i c c'" "runnable i c'" "vacant i c'" "clk c' = clk c" "active (replica_at i c') = []"
  using assms
proof (induction "length (active (replica_at i c))" arbitrary: c thesis rule: less_induct)
  case less
  show ?case
  proof (cases "active (replica_at i c)")
    case Nil
    then show ?thesis using less.prems(1) [of c] less.prems(2,3) by simp
  next
    case (Cons a as)
    obtain c1 where c1: "moves_alone i c c1" "runnable i c1" "vacant i c1" "clk c1 = clk c"
        "replica_at i c1 = react (monotonic c (replicas c ! i)) 0 (StepFinishes (st_identity a)) (replica_at i c)"
      by (rule finish_step [OF less.prems(2,3), of "StepFinishes (st_identity a)"]) auto
    have "length (active (replica_at i c1)) < length (active (replica_at i c))"
      using c1(5) Cons by (simp add: step_finished_def less_Suc_eq_le)
    then obtain c2 where "runs_alone i c1 c2" "runnable i c2" "vacant i c2" "clk c2 = clk c1" "active (replica_at i c2) = []"
      using less.hyps [OF _ _ c1(2,3)] by blast
    then show ?thesis using less.prems(1) [of c2] c1(1,4) converse_rtranclp_into_rtranclp [of "moves_alone i" c c1 c2] by simp
  qed
qed

lemma drop_observation:
  assumes r: "runnable i c" and v: "vacant i c" and a: "active (replica_at i c) = []"
  obtains c' where "runs_alone i c c'" "runnable i c'" "vacant i c'" "clk c' = clk c" "active (replica_at i c') = []"
    "reservationTask (replica_at i c') = None"
proof -
  obtain c1 where c1: "moves_alone i c c1" "runnable i c1" "vacant i c1" "clk c1 = clk c"
      "replica_at i c1 = react (monotonic c (replicas c ! i)) 0 ReservationsFinish (replica_at i c)"
    by (rule finish_step [OF r v, of ReservationsFinish]) auto
  then show thesis using that [of c1] a by (auto simp: reservations_finished_def)
qed

lemma event_ids_finite [simp]: "finite (event_ids e)"
  by (cases e) simp_all

lemma finite_ids_step: "cluster_step c c' \<Longrightarrow> finite (used_ids c) \<Longrightarrow> finite (used_ids c')"
  by (induction rule: cluster_step.induct) simp_all

lemma cluster_finite_ids: "cluster_reachable c \<Longrightarrow> finite (used_ids c)"
  by (induction rule: cluster_reachable.induct) (simp_all add: finite_ids_step)

lemma reachable_runs: "runs_alone i c c' \<Longrightarrow> cluster_reachable c \<Longrightarrow> cluster_reachable c'"
  by (induction rule: rtranclp_induct) (auto intro: goes_on moves_alone_step)

text \<open>A candidacy after the recorded lease is over succeeds.\<close>

lemma candidacy:
  assumes r: "runnable i c" and v: "vacant i c" and a: "active (replica_at i c) = []" "reservationTask (replica_at i c) = None"
    and u: "u \<notin> used_ids c" and t: "owner_until (settings (cdb c)) \<le> clk c"
  obtains c' where "runs_alone i c c'" "clk c' = clk c" "active_at i c'"
proof -
  let ?r = "replicas c ! i" let ?m = "monotonic c ?r" let ?t = "\<lparr>tn_id = u, renewedAt = ?m\<rparr>"
  have i: "i < length (replicas c)" using r by (simp add: runnable_def)
  have none: "reply ?r = None"
    using cluster_inv_replica [of c ?r] r v by (simp add: runnable_def vacant_def replica_at_def replica_ok_def)
  let ?w1 = "react ?m 0 (Heartbeat u) (worker ?r)" let ?r1 = "?r\<lparr>worker := ?w1\<rparr>"
  define c1 where "c1 = put_replica i ?r1 c\<lparr>used_ids := used_ids c \<union> event_ids (Heartbeat u)\<rparr>"
  have s1: "moves_alone i c c1" unfolding c1_def
    by (rule moves_aloneI [OF reacts, where qs = "[]"]) (use u i in simp_all)
  have w1: "?w1 = (worker ?r)\<lparr>claimAttempts := claimAttempts (worker ?r) + 1, ownership := Some (Claiming ?t)\<rparr>"
    using r v a by (simp add: ensureOwner_def runnable_def vacant_def replica_at_def)
  have c1: "replicas c1 ! i = ?r1" "length (replicas c1) = length (replicas c)" "clk c1 = clk c" "cdb c1 = cdb c"
    using i by (simp_all add: c1_def)
  let ?s = "snd (claimOwner (clk c) u (cdb c))" let ?r2 = "?r1\<lparr>reply := Some (Answered True)\<rparr>"
  define c2 where "c2 = put_replica i ?r2 c1\<lparr>cdb := ?s\<rparr>"
  have "cluster_step c1 c2" unfolding c2_def
    by (rule served [where f = "Claiming ?t"]) (use i c1 w1 none t in \<open>simp_all add: claimOwner_def\<close>)
  then have s2: "moves_alone i c1 c2"
    using c1 w1 i unfolding moves_alone_def c2_def by (auto simp: replica_at_def)
  have c2: "replicas c2 ! i = ?r2" "length (replicas c2) = length (replicas c)" "clk c2 = clk c"
    using i c1 by (simp_all add: c2_def)
  let ?w3 = "settleOwnership (monotonic c2 ?r2) 0 (Answered True) (worker ?r2)"
  let ?c3 = "put_replica i (?r2\<lparr>worker := ?w3, reply := None\<rparr>) c2"
  have s3: "moves_alone i c2 ?c3"
    by (rule moves_aloneI [OF settles, where qs = "[]"]) (use i c2 w1 in simp_all)
  have "fst (isActive (monotonic c2 ?r2) 0 ?w3)"
    using r w1 c2(3) by (simp add: settleOwnership_def monotonic_def OWNER_TTL_MS_def settled_def isActive_def
        isCurrentTenure_def runnable_def replica_at_def)
  then have "active_at i ?c3" using i c2 by (simp add: active_at_def monotonic_def)
  moreover have "runs_alone i c ?c3" using s1 s2 s3 by (meson converse_rtranclp_into_rtranclp r_into_rtranclp)
  ultimately show thesis using that [of ?c3] c2 by simp
qed

end
