(* ===== verification/Worker_Guarantees.thy ===== *)
theory Worker_Guarantees
  imports Worker_Cluster Pool_Machine
begin

text \<open>
  What the election of the prewarm workers guarantees: one active replica, fenced local steps, and that
  ownership is never stuck. The example is a deployment of two replicas whose clocks differ.
\<close>

section \<open>A deployment with two replicas\<close>

definition example_worker :: "int \<Rightarrow> PrewarmWorker" where
  "example_worker m = projr (newPrewarmWorker True True 1000 5 m)"

definition example_empty :: cluster where
  "example_empty = \<lparr>clk = 0, cdb = initial_store (pool_defaults True) example_enterprises, replicas = [], used_ids = {},
     abandoned = []\<rparr>"

definition example_joined :: cluster where
  "example_joined = example_empty\<lparr>replicas := [\<lparr>worker = example_worker 100, skew = 100, reply = None\<rparr>,
     \<lparr>worker = example_worker 5000, skew = 5000, reply = None\<rparr>]\<rparr>"

definition after_event :: "nat \<Rightarrow> WorkerEvent \<Rightarrow> cluster \<Rightarrow> cluster" where
  "after_event i e c = (let r = replicas c ! i
     in put_replica i (r\<lparr>worker := react (monotonic c r) 0 e (worker r)\<rparr>) c\<lparr>used_ids := used_ids c \<union> event_ids e\<rparr>)"

definition after_served :: "nat \<Rightarrow> cluster \<Rightarrow> cluster" where
  "after_served i c = (let r = replicas c ! i;
       (b, s) = serve (clk c) (request_of (fencedRenewal (worker r)) (the (ownership (worker r)))) (cdb c)
     in put_replica i (r\<lparr>reply := Some (Answered b)\<rparr>) c\<lparr>cdb := s\<rparr>)"

definition after_settled :: "nat \<Rightarrow> cluster \<Rightarrow> cluster" where
  "after_settled i c = (let r = replicas c ! i
     in put_replica i (r\<lparr>worker := settleOwnership (monotonic c r) 0 (the (reply r)) (worker r), reply := None\<rparr>) c)"

text \<open>Both replicas are candidates; the request of the second is served first and wins.\<close>

definition example_candidates :: cluster where
  "example_candidates = after_event 1 (Heartbeat ''b'') (after_event 0 (Heartbeat ''a'') example_joined)"

definition example_elected :: cluster where
  "example_elected = after_settled 0 (after_served 0 (after_settled 1 (after_served 1 example_candidates)))"

lemma example_joined_reachable: "cluster_reachable example_joined"
proof -
  have 0: "cluster_reachable example_empty" unfolding example_empty_def
    by (rule no_replicas) (simp_all add: initial_store_def OWNER_TTL_MS_def)
  let ?r = "\<lambda>k. \<lparr>worker = example_worker k, skew = k, reply = None\<rparr>"
  have 1: "cluster_step example_empty (example_empty\<lparr>replicas := replicas example_empty @ [?r 100]\<rparr>)"
    by (rule joins [where multi = True and fenced = True and poll = 1000 and conc = 5])
       (simp add: example_empty_def example_worker_def newPrewarmWorker_def)
  let ?c = "example_empty\<lparr>replicas := replicas example_empty @ [?r 100]\<rparr>"
  have 2: "cluster_step ?c (?c\<lparr>replicas := replicas ?c @ [?r 5000]\<rparr>)"
    by (rule joins [where multi = True and fenced = True and poll = 1000 and conc = 5])
       (simp add: example_empty_def example_worker_def newPrewarmWorker_def)
  show ?thesis using goes_on [OF goes_on [OF 0 1] 2] by (simp add: example_joined_def example_empty_def)
qed

lemma reachable_after_event:
  "cluster_reachable c \<Longrightarrow> i < length (replicas c) \<Longrightarrow> event_ids e \<inter> used_ids c = {} \<Longrightarrow> cluster_reachable (after_event i e c)"
  unfolding after_event_def Let_def by (rule goes_on, assumption, rule reacts) simp_all

lemma reachable_after_served:
  assumes "cluster_reachable c" "i < length (replicas c)" "ownership (worker (replicas c ! i)) \<noteq> None" "reply (replicas c ! i) = None"
  shows "cluster_reachable (after_served i c)"
proof -
  obtain f where f: "ownership (worker (replicas c ! i)) = Some f" using assms(3) by auto
  obtain b s where bs: "serve (clk c) (request_of (fencedRenewal (worker (replicas c ! i))) f) (cdb c) = (b, s)" by fastforce
  show ?thesis using goes_on [OF assms(1) served [OF assms(2) refl f assms(4) bs]] f bs
    by (simp add: after_served_def Let_def)
qed

lemma reachable_after_settled:
  assumes "cluster_reachable c" "i < length (replicas c)" "ownership (worker (replicas c ! i)) \<noteq> None" "reply (replicas c ! i) \<noteq> None"
  shows "cluster_reachable (after_settled i c)"
proof -
  obtain a where a: "reply (replicas c ! i) = Some a" using assms(4) by auto
  show ?thesis using goes_on [OF assms(1) settles [OF assms(2) refl assms(3) a]] a by (simp add: after_settled_def Let_def)
qed

lemma example_candidates_reachable: "cluster_reachable example_candidates"
  unfolding example_candidates_def
  by (intro reachable_after_event example_joined_reachable; code_simp)

lemma example_elected_reachable: "cluster_reachable example_elected"
  unfolding example_elected_def
  by (intro reachable_after_settled reachable_after_served example_candidates_reachable; code_simp)

lemma example_elected_active: "active_at 1 example_elected \<and> \<not> active_at 0 example_elected"
  by code_simp

text \<open>The elected replica renews its tenure, runs a round of its scheduler and launches a step.\<close>

definition example_renewed :: cluster where
  "example_renewed = after_settled 1 (after_served 1 (after_event 1 (Tick ''t'') example_elected))"

definition example_round :: "WorkerEvent list" where
  "example_round = [ScheduleOwned, Reclaimed (Inr ()), SettingsRead (Inr False), EligibleKnown (Some [''default'']),
     DeficitReserved (Inr 1), RowSelected (Inr (Some ''ada00'')), HoldsChecked (Inr False)]"

definition example_launched :: cluster where
  "example_launched = fold (after_event 1) example_round example_renewed"

lemma reachable_after_events:
  "cluster_reachable c \<Longrightarrow> i < length (replicas c) \<Longrightarrow> list_all (\<lambda>e. event_ids e = {}) es \<Longrightarrow>
    cluster_reachable (fold (after_event i) es c)"
proof (induction es arbitrary: c)
  case (Cons e es)
  have "cluster_reachable (after_event i e c)" using Cons.prems by (intro reachable_after_event) auto
  then show ?case using Cons by (simp add: after_event_def Let_def)
qed simp

lemma example_renewed_reachable: "cluster_reachable example_renewed"
  unfolding example_renewed_def
  by (intro reachable_after_settled reachable_after_served reachable_after_event example_elected_reachable; code_simp)

lemma example_launched_reachable: "cluster_reachable example_launched"
  unfolding example_launched_def
  by (intro reachable_after_events example_renewed_reachable) (code_simp, simp add: example_round_def)

section \<open>At most one replica is active\<close>

lemma isActive_iff:
  "fst (isActive m wall w) \<longleftrightarrow> \<not> stopped w \<and> (\<exists>t. tenure w = Some t \<and> m - renewedAt t < OWNER_TTL_MS)"
  by (auto simp: isActive_def isCurrentTenure_def split: option.splits)

lemma active_is_vouched:
  assumes c: "cluster_inv c" and i: "i < length (replicas c)" and a: "active_at i c"
  obtains t where "tenure (replica_at i c) = Some t" "owner (settings (cdb c)) = Some (tn_id t)" "clk c < owner_until (settings (cdb c))"
    "tn_id t \<in> own_ids (replica_at i c)"
proof -
  let ?r = "replicas c ! i"
  obtain t where t: "tenure (worker ?r) = Some t" "monotonic c ?r - renewedAt t < OWNER_TTL_MS"
    using a by (auto simp: active_at_def isActive_iff)
  have "vouched (clk c) (cdb c) (tn_id t) (renewedAt t - skew ?r)"
    using cluster_inv_replica [OF c, of ?r] i t(1) by (simp add: replica_ok_def)
  then show thesis using that t by (auto simp: vouched_def monotonic_def replica_at_def own_ids_def live_ids_def)
qed

lemma one_active:
  assumes "cluster_reachable c" and "i < length (replicas c)" and "active_at i c"
    and j: "j < length (replicas c)" "active_at j c"
  shows "j = i"
proof (rule ccontr)
  note c = cluster_inv_reachable [OF assms(1)]
  obtain t where t: "tenure (replica_at i c) = Some t" "owner (settings (cdb c)) = Some (tn_id t)"
    "clk c < owner_until (settings (cdb c))" "tn_id t \<in> own_ids (replica_at i c)"
    by (rule active_is_vouched [OF c assms(2,3)])
  assume "j \<noteq> i"
  then have "own_ids (replica_at j c) \<inter> own_ids (replica_at i c) = {}"
    using c j(1) assms(2) unfolding cluster_inv_def replica_at_def by simp
  moreover obtain t' where "tenure (replica_at j c) = Some t'" "owner (settings (cdb c)) = Some (tn_id t')"
    "clk c < owner_until (settings (cdb c))" "tn_id t' \<in> own_ids (replica_at j c)"
    by (rule active_is_vouched [OF c j])
  ultimately show False using t(2,4) by auto
qed

text \<open>
  C2. At any instant at most one replica takes itself for the owner. The store then records exactly its
  tenure as the unexpired owner, and accepts a write fenced with an owner id only if it is the id of that
  tenure. This holds whatever the order of requests, answers, losses, restarts and shutdowns, however
  late an abandoned request is served, and although every replica reads its own clock.
\<close>

theorem one_active_replica:
  assumes "cluster_reachable c" and "i < length (replicas c)" and "active_at i c"
  shows "(\<forall>j < length (replicas c). active_at j c \<longleftrightarrow> j = i) \<and>
    (\<forall>x. matchesOwner (clk c) (cdb c) (Some x) \<longleftrightarrow> holds_tenure x (replica_at i c))"
proof -
  note c = cluster_inv_reachable [OF assms(1)]
  obtain t where t: "tenure (replica_at i c) = Some t" "owner (settings (cdb c)) = Some (tn_id t)"
    "clk c < owner_until (settings (cdb c))" "tn_id t \<in> own_ids (replica_at i c)"
    by (rule active_is_vouched [OF c assms(2,3)])
  have "j = i" if "j < length (replicas c)" "active_at j c" for j by (rule one_active [OF assms that])
  then show ?thesis using assms(3) t by (auto simp: matchesOwner_def holds_tenure_def)
qed

theorem one_active_replica_witness:
  "cluster_reachable example_elected \<and> active_at 1 example_elected \<and> \<not> active_at 0 example_elected \<and>
   matchesOwner (clk example_elected) (cdb example_elected) (Some ''b'') \<and>
   \<not> matchesOwner (clk example_elected) (cdb example_elected) (Some ''a'')"
proof -
  have l: "length (replicas example_elected) = 2" by code_simp
  have h: "holds_tenure ''b'' (replica_at 1 example_elected)" "\<not> holds_tenure ''a'' (replica_at 1 example_elected)"
    by code_simp+
  show ?thesis
    using one_active_replica [OF example_elected_reachable, of 1] example_elected_active example_elected_reachable l h by auto
qed

section \<open>Local work belongs to the tenure in force\<close>

text \<open>
  C18. In every reachable state of every replica the steps under way are of different accounts and within
  the configured concurrency, which is at most 20; a step or an observation that is not aborted was
  launched under the tenure the worker still holds; and a stopped worker holds no tenure, so all its
  steps are aborted.
\<close>

theorem worker_steps_fenced:
  assumes "cluster_reachable c" and "i < length (replicas c)"
  shows "distinct (map st_identity (active (replica_at i c))) \<and>
    length (active (replica_at i c)) \<le> concurrency (replica_at i c) \<and> concurrency (replica_at i c) \<le> 20 \<and>
    list_all (\<lambda>a. st_aborted a \<or> holds_tenure (st_tenure a) (replica_at i c)) (active (replica_at i c)) \<and>
    pred_option (\<lambda>b. rt_aborted b \<or> holds_tenure (rt_tenure b) (replica_at i c)) (reservationTask (replica_at i c)) \<and>
    (stopped (replica_at i c) \<longrightarrow> tenure (replica_at i c) = None)"
proof -
  have "replicas c ! i \<in> set (replicas c)" using assms(2) by simp
  then have r: "worker_inv (replica_at i c)" "concurrency (replica_at i c) \<le> 20"
    using cluster_inv_replica [OF cluster_inv_reachable [OF assms(1)]] by (simp_all add: replica_ok_def replica_at_def)
  have "list_all (\<lambda>a. st_aborted a \<or> holds_tenure (st_tenure a) (replica_at i c)) (active (replica_at i c))"
    using r(1) unfolding worker_inv_def list_all_iff step_fenced_def holds_tenure_def
    by (auto split: option.splits)
  moreover have "pred_option (\<lambda>b. rt_aborted b \<or> holds_tenure (rt_tenure b) (replica_at i c)) (reservationTask (replica_at i c))"
    using r(1) unfolding worker_inv_def reservation_fenced_def holds_tenure_def
    by (cases "reservationTask (replica_at i c)") (auto split: option.splits)
  ultimately show ?thesis using r by (simp add: worker_inv_def)
qed

theorem worker_steps_fenced_witness:
  "length (active (replica_at 1 example_launched)) = 1 \<and> concurrency (replica_at 1 example_launched) \<le> 20 \<and>
   list_all (\<lambda>a. \<not> st_aborted a \<and> holds_tenure (st_tenure a) (replica_at 1 example_launched)) (active (replica_at 1 example_launched))"
proof -
  have "length (replicas example_launched) = 2" "length (active (replica_at 1 example_launched)) = 1"
    "list_all (\<lambda>a. \<not> st_aborted a) (active (replica_at 1 example_launched))" by code_simp+
  then show ?thesis using worker_steps_fenced [OF example_launched_reachable, of 1] by (auto simp: list_all_iff)
qed

section \<open>Ownership is never stuck\<close>

text \<open>
  C11. Whatever happened before, a replica of a multi-replica deployment that was not stopped can become the
  active one on its own: there is a run of at most 30 seconds of the clock after which it is active, in
  which only this replica and the clock move. No other replica joins or takes a step, the store only
  serves the requests of this replica, and no request that was given up is served.
\<close>

theorem any_replica_can_take_over:
  assumes "cluster_reachable c" and "i < length (replicas c)" and "multiReplica (replica_at i c)" and "\<not> stopped (replica_at i c)"
  shows "\<exists>c'. runs_alone i c c' \<and> active_at i c' \<and> clk c' \<le> clk c + OWNER_TTL_MS \<and>
    length (replicas c') = length (replicas c) \<and> (\<forall>j. j \<noteq> i \<longrightarrow> replicas c' ! j = replicas c ! j)"
proof (cases "active_at i c")
  case True
  then show ?thesis by (intro exI [of _ c]) (simp add: OWNER_TTL_MS_def)
next
  case False
  note inv = cluster_inv_reachable [OF assms(1)]
  have "runnable i c" using assms inv by (simp add: runnable_def)
  then obtain c1 where c1: "runs_alone i c c1" "runnable i c1" "clk c1 = clk c" "tenure (replica_at i c1) = None"
    using False by (rule drop_tenure)
  obtain c2 where c2: "runs_alone i c1 c2" "runnable i c2" "clk c2 = clk c1" "tenure (replica_at i c2) = None" "ownership (replica_at i c2) = None"
    by (rule drop_flight [OF c1(2,4)])
  then have "vacant i c2" by (simp add: vacant_def)
  then obtain c3 where c3: "runs_alone i c2 c3" "runnable i c3" "vacant i c3" "clk c3 = clk c2" "active (replica_at i c3) = []"
    using c2(2) drop_steps by blast
  obtain c4 where c4: "runs_alone i c3 c4" "runnable i c4" "vacant i c4" "clk c4 = clk c3" "active (replica_at i c4) = []"
      "reservationTask (replica_at i c4) = None"
    by (rule drop_observation [OF c3(2,3,5)])
  have run4: "runs_alone i c c4" using c1(1) c2(1) c3(1) c4(1) by simp
  have r4: "cluster_reachable c4" by (rule reachable_runs [OF run4 assms(1)])
  define t where "t = clk c4 + OWNER_TTL_MS"
  let ?c5 = "c4\<lparr>clk := t\<rparr>"
  have t: "clk c4 \<le> t" "owner_until (settings (cdb c4)) \<le> t"
    using cluster_inv_until [OF cluster_inv_reachable [OF r4]] by (simp_all add: t_def OWNER_TTL_MS_def)
  have s5: "moves_alone i c4 ?c5" by (rule clock_moves_alone [OF t(1)])
  have r5: "runnable i ?c5" using c4(2) by (intro runnable_step [OF c4(2) s5]) (simp_all add: runnable_def replica_at_def)
  obtain u where u: "u \<notin> used_ids ?c5"
    using cluster_finite_ids [OF r4] ex_new_if_finite [OF infinite_UNIV_listI, of "used_ids c4"] by auto
  obtain c6 where c6: "runs_alone i ?c5 c6" "clk c6 = clk ?c5" "active_at i c6"
    by (rule candidacy [OF r5 _ _ _ u]) (use c4 t in \<open>simp_all add: vacant_def replica_at_def\<close>)
  have run6: "runs_alone i c c6" using run4 s5 c6(1) by (meson rtranclp.rtrancl_into_rtrancl rtranclp_trans)
  then show ?thesis using c6 c1(3) c2(3) c3(4) c4(4) runs_alone_others [OF run6]
    by (intro exI [of _ c6]) (simp add: t_def)
qed

theorem any_replica_can_take_over_witness:
  "\<exists>c'. runs_alone 0 example_elected c' \<and> active_at 0 c' \<and> clk c' \<le> 30000"
proof -
  have "0 < length (replicas example_elected)" "multiReplica (replica_at 0 example_elected)"
    "\<not> stopped (replica_at 0 example_elected)" "clk example_elected = 0" by code_simp+
  then show ?thesis using any_replica_can_take_over [OF example_elected_reachable, of 0] by (auto simp: OWNER_TTL_MS_def)
qed


section \<open>The cluster implements a lock\<close>

text \<open>
  The abstract specification: a lock that one replica at a time can hold, that is given up before another
  takes it. The abstraction reads who is active off the cluster.
\<close>

definition lock_step :: "nat option \<Rightarrow> nat option \<Rightarrow> bool" where
  "lock_step h h' \<longleftrightarrow> h' = h \<or> h = None \<or> h' = None"

definition holder :: "cluster \<Rightarrow> nat option" where
  "holder c = find (\<lambda>i. active_at i c) [0..<length (replicas c)]"

lemma holder_Some: "holder c = Some i \<Longrightarrow> i < length (replicas c) \<and> active_at i c"
  by (auto simp: holder_def find_Some_iff)

lemma active_at_cong:
  "clk c' = clk c \<Longrightarrow> replicas c' ! i = replicas c ! i \<Longrightarrow> active_at i c' = active_at i c"
  by (simp add: active_at_def monotonic_def)

lemma active_at_earlier:
  assumes "active_at i (c\<lparr>clk := t\<rparr>)" "clk c \<le> t" shows "active_at i c"
proof -
  obtain u where u: "tenure (worker (replicas c ! i)) = Some u" "t + skew (replicas c ! i) - renewedAt u < OWNER_TTL_MS"
    "\<not> stopped (worker (replicas c ! i))"
    using assms(1) by (auto simp: active_at_def isActive_iff monotonic_def)
  then show ?thesis using assms(2) by (simp add: active_at_def isActive_iff monotonic_def)
qed

text \<open>A step leaves all replicas but one as they are, or it only lets time pass.\<close>

definition touches_one :: "cluster \<Rightarrow> cluster \<Rightarrow> bool" where
  "touches_one c c' \<longleftrightarrow> clk c' = clk c \<and> length (replicas c) \<le> length (replicas c') \<and>
      (\<exists>k. \<forall>i < length (replicas c). i \<noteq> k \<longrightarrow> replicas c' ! i = replicas c ! i) \<and>
      (length (replicas c') = length (replicas c) \<or> (\<forall>i < length (replicas c). replicas c' ! i = replicas c ! i))"

lemma touches_put: "clk c' = clk c \<Longrightarrow> replicas c' = (replicas c)[k := r] \<Longrightarrow> touches_one c c'"
  unfolding touches_one_def by (intro conjI exI [of _ k]) simp_all

lemma touches_append: "clk c' = clk c \<Longrightarrow> replicas c' = replicas c @ rs \<Longrightarrow> touches_one c c'"
  unfolding touches_one_def by (intro conjI disjI2 exI [of _ 0]) (simp_all add: nth_append)

lemma step_touches_one: "cluster_step c c' \<Longrightarrow> (\<exists>t. clk c \<le> t \<and> c' = c\<lparr>clk := t\<rparr>) \<or> touches_one c c'"
proof (induction rule: cluster_step.induct)
  case (time_passes c t)
  then have "\<exists>t'. clk c \<le> t' \<and> c\<lparr>clk := t\<rparr> = c\<lparr>clk := t'\<rparr>" by (intro exI [of _ t]) simp
  then show ?case by (rule disjI1)
next
  case (store_changes c s)
  then show ?case using touches_append [of _ c "[]"] by simp
next
  case (served_late q c)
  then show ?case using touches_append [of _ c "[]"] by simp
qed (intro disjI2, rule touches_put touches_append, simp, simp)+

text \<open>
  C10. The cluster implements the lock: every step of any replica, of the store or of the clock, taken from any
  reachable state, is a step of the lock between the holders before and after it. So ownership never
  passes from one replica to another without a moment at which nobody holds it.
\<close>

theorem cluster_implements_lock:
  assumes "cluster_reachable c" and "cluster_step c c'"
  shows "lock_step (holder c) (holder c')"
proof -
  have r': "cluster_reachable c'" using assms by (rule goes_on)
  have eq: "i = j" if i: "holder c = Some i" and j: "holder c' = Some j" for i j
  proof -
    have i': "i < length (replicas c)" "active_at i c" and j': "j < length (replicas c')" "active_at j c'"
      using holder_Some i j by blast+
    have old: "i = j" if "j < length (replicas c)" "active_at j c"
      using one_active [OF assms(1) i'] that by blast
    have new: "i = j" if "i < length (replicas c')" "active_at i c'"
      using one_active [OF r' j'] that by blast
    from step_touches_one [OF assms(2)] show ?thesis
    proof
      assume "\<exists>t. clk c \<le> t \<and> c' = c\<lparr>clk := t\<rparr>"
      then show ?thesis using old j' active_at_earlier by auto
    next
      assume "touches_one c c'"
      note s = this [unfolded touches_one_def]
      then obtain k where k: "\<And>m. m < length (replicas c) \<Longrightarrow> m \<noteq> k \<Longrightarrow> replicas c' ! m = replicas c ! m" by blast
      have same: "i = j" if "replicas c' ! i = replicas c ! i"
        using new i' s that active_at_cong [of c' c i] by simp
      show ?thesis
      proof (cases "i = k")
        case True
        show ?thesis
        proof (rule ccontr)
          assume ne: "i \<noteq> j"
          then have "length (replicas c') = length (replicas c)" using s same i'(1) by blast
          then have "j < length (replicas c)" using j' by simp
          then show False using ne old k [of j] True j' active_at_cong [of c' c j] s by simp
        qed
      next
        case False
        then show ?thesis using same k i' by blast
      qed
    qed
  qed
  show ?thesis
  proof (cases "holder c = None \<or> holder c' = None")
    case False
    then obtain i j where ij: "holder c = Some i" "holder c' = Some j" by auto
    then have "i = j" by (rule eq)
    then show ?thesis using ij by (simp add: lock_step_def)
  qed (auto simp: lock_step_def)
qed

theorem cluster_implements_lock_witness:
  "lock_step (holder example_elected) (holder (example_elected\<lparr>clk := 30000\<rparr>)) \<and> holder example_elected = Some 1 \<and>
   holder (example_elected\<lparr>clk := 30000\<rparr>) = None"
proof -
  have "clk example_elected = 0" by code_simp
  then have "cluster_step example_elected (example_elected\<lparr>clk := 30000\<rparr>)" by (intro time_passes) simp
  moreover have "holder example_elected = Some 1" "holder (example_elected\<lparr>clk := 30000\<rparr>) = None" by code_simp+
  ultimately show ?thesis using cluster_implements_lock [OF example_elected_reachable] by blast
qed

end
