(* ===== verification/Async_Program.thy ===== *)
theory Async_Program
  imports Pool_Prelude
begin

text \<open>
  Asynchronous code as a program over the calls it awaits: it returns, throws, or awaits a call and goes on
  with the answer. \<open>play\<close> runs a program against a list of answers and records the calls; the list may end
  early, which is a process that dies while it waits. A monitor watches the calls: \<open>wp\<close> is the weakest
  precondition under which a program only makes calls the monitor allows, whatever is answered.
\<close>

section \<open>Programs\<close>

datatype ('c, 'a, 'e, 'r) prog =
    Return 'r
  | Throw 'e
  | Await 'c "'a \<Rightarrow> ('c, 'a, 'e, 'r) prog"

primrec bind :: "('c, 'a, 'e, 'r) prog \<Rightarrow> ('r \<Rightarrow> ('c, 'a, 'e, 's) prog) \<Rightarrow> ('c, 'a, 'e, 's) prog" where
  "bind (Return r) f = f r"
| "bind (Throw e) f = Throw e"
| "bind (Await c k) f = Await c (\<lambda>a. bind (k a) f)"

text \<open>\<open>try { p } catch (e) { h(e) }\<close>\<close>

primrec catching :: "('c, 'a, 'e, 'r) prog \<Rightarrow> ('e \<Rightarrow> ('c, 'a, 'e, 'r) prog) \<Rightarrow> ('c, 'a, 'e, 'r) prog" where
  "catching (Return r) h = Return r"
| "catching (Throw e) h = h e"
| "catching (Await c k) h = Await c (\<lambda>a. catching (k a) h)"

definition lift :: "'e + 'r \<Rightarrow> ('c, 'a, 'e, 'r) prog" where
  "lift x = (case x of Inl e \<Rightarrow> Throw e | Inr r \<Rightarrow> Return r)"

definition require :: "bool \<Rightarrow> 'e \<Rightarrow> ('c, 'a, 'e, unit) prog" where
  "require b e = (if b then Return () else Throw e)"

lemma bind_assoc: "bind (bind p f) g = bind p (\<lambda>x. bind (f x) g)"
  by (induction p) simp_all

section \<open>Executions\<close>

datatype ('e, 'r) outcome = Returned 'r | Thrown 'e | Waiting

text \<open>The calls with their answers; the last call of a run that died has none.\<close>

type_synonym ('c, 'a) transcript = "('c \<times> 'a option) list"

primrec play :: "'a list \<Rightarrow> ('c, 'a, 'e, 'r) prog \<Rightarrow> ('c, 'a) transcript \<times> ('e, 'r) outcome" where
  "play [] p = (case p of Return r \<Rightarrow> ([], Returned r) | Throw e \<Rightarrow> ([], Thrown e) | Await c k \<Rightarrow> ([(c, None)], Waiting))"
| "play (a # as) p = (case p of Return r \<Rightarrow> ([], Returned r) | Throw e \<Rightarrow> ([], Thrown e)
     | Await c k \<Rightarrow> (let (tr, out) = play as (k a) in ((c, Some a) # tr, out)))"

lemma play_simps [simp]:
  "play as (Return r) = ([], Returned r)" "play as (Throw e) = ([], Thrown e)"
  "play [] (Await c k) = ([(c, None)], Waiting)"
  by (cases as; simp)+

section \<open>Monitors\<close>

locale monitor =
  fixes allowed :: "'s \<Rightarrow> 'c \<Rightarrow> bool" and next_state :: "'s \<Rightarrow> 'c \<Rightarrow> 'a \<Rightarrow> 's"
begin

primrec wp :: "('c, 'a, 'e, 'r) prog \<Rightarrow> ('s \<Rightarrow> 'r \<Rightarrow> bool) \<Rightarrow> ('s \<Rightarrow> 'e \<Rightarrow> bool) \<Rightarrow> 's \<Rightarrow> bool" where
  "wp (Return r) Q E s = Q s r"
| "wp (Throw e) Q E s = E s e"
| "wp (Await c k) Q E s = (allowed s c \<and> (\<forall>a. wp (k a) Q E (next_state s c a)))"

fun watched :: "'s \<Rightarrow> ('c, 'a) transcript \<Rightarrow> bool" where
  "watched s [] = True"
| "watched s ((c, None) # tr) = (allowed s c \<and> tr = [])"
| "watched s ((c, Some a) # tr) = (allowed s c \<and> watched (next_state s c a) tr)"

fun final_state :: "'s \<Rightarrow> ('c, 'a) transcript \<Rightarrow> 's" where
  "final_state s [] = s"
| "final_state s ((c, None) # tr) = s"
| "final_state s ((c, Some a) # tr) = final_state (next_state s c a) tr"

lemma wp_bind: "wp (bind p f) Q E s = wp p (\<lambda>s r. wp (f r) Q E s) E s"
  by (induction p arbitrary: s) simp_all

lemma wp_catching: "wp (catching p h) Q E s = wp p Q (\<lambda>s e. wp (h e) Q E s) s"
  by (induction p arbitrary: s) simp_all

lemma wp_lift: "wp (lift x) Q E s = (case x of Inl e \<Rightarrow> E s e | Inr r \<Rightarrow> Q s r)"
  by (simp add: lift_def split: sum.split)

lemma wp_require: "wp (require b e) Q E s = (if b then Q s () else E s e)"
  by (simp add: require_def)

lemma wp_mono:
  "wp p Q E s \<Longrightarrow> (\<And>s r. Q s r \<Longrightarrow> Q' s r) \<Longrightarrow> (\<And>s e. E s e \<Longrightarrow> E' s e) \<Longrightarrow> wp p Q' E' s"
  by (induction p arbitrary: s) auto

lemma wp_play:
  assumes "wp p Q E s" and "play as p = (tr, out)"
  shows "watched s tr \<and> (\<forall>r. out = Returned r \<longrightarrow> Q (final_state s tr) r) \<and> (\<forall>e. out = Thrown e \<longrightarrow> E (final_state s tr) e)"
  using assms
proof (induction as arbitrary: p s tr out)
  case Nil
  then show ?case by (cases p) auto
next
  case (Cons a as)
  show ?case
  proof (cases p)
    case (Await c k)
    obtain tr' out' where "play as (k a) = (tr', out')" by fastforce
    then show ?thesis using Cons.IH [of "k a" "next_state s c a" tr' out'] Cons.prems Await by auto
  qed (use Cons.prems in auto)
qed

end

section \<open>Which calls, and how many\<close>

primrec only_calls :: "('c \<Rightarrow> bool) \<Rightarrow> ('c, 'a, 'e, 'r) prog \<Rightarrow> bool" where
  "only_calls P (Return r) = True"
| "only_calls P (Throw e) = True"
| "only_calls P (Await c k) = (P c \<and> (\<forall>a. only_calls P (k a)))"

lemma only_calls_bind [intro!]: "only_calls P p \<Longrightarrow> (\<And>r. only_calls P (f r)) \<Longrightarrow> only_calls P (bind p f)"
  by (induction p) auto

lemma only_calls_catching [intro!]: "only_calls P p \<Longrightarrow> (\<And>e. only_calls P (h e)) \<Longrightarrow> only_calls P (catching p h)"
  by (induction p) auto

lemma only_calls_simps [simp]: "only_calls P (lift x)" "only_calls P (require b e)"
  by (simp_all add: lift_def require_def split: sum.split)

lemma only_calls_play:
  "only_calls P p \<Longrightarrow> play as p = (tr, out) \<Longrightarrow> list_all (\<lambda>t. P (fst t)) tr"
proof (induction as arbitrary: p tr out)
  case Nil then show ?case by (cases p) auto
next
  case (Cons a as)
  show ?case
  proof (cases p)
    case (Await c k)
    obtain tr' out' where "play as (k a) = (tr', out')" by fastforce
    then show ?thesis using Cons.IH [of "k a" tr' out'] Cons.prems Await by auto
  qed (use Cons.prems in auto)
qed

primrec calls_at_most :: "('c, 'a, 'e, 'r) prog \<Rightarrow> nat \<Rightarrow> bool" where
  "calls_at_most (Return r) n = True"
| "calls_at_most (Throw e) n = True"
| "calls_at_most (Await c k) n = (0 < n \<and> (\<forall>a. calls_at_most (k a) (n - 1)))"

lemma calls_at_most_mono: "calls_at_most p m \<Longrightarrow> m \<le> n \<Longrightarrow> calls_at_most p n"
proof (induction p arbitrary: m n)
  case (Await c k)
  have "calls_at_most (k a) (n - 1)" for a
    using Await.IH [of "k a" "m - 1" "n - 1"] Await.prems by (simp add: diff_le_mono)
  then show ?case using Await.prems by simp
qed simp_all

lemma calls_at_most_bind:
  "calls_at_most p m \<Longrightarrow> (\<And>r. calls_at_most (f r) n) \<Longrightarrow> calls_at_most (bind p f) (m + n)"
proof (induction p arbitrary: m)
  case (Await c k)
  have "calls_at_most (bind (k a) f) (m - 1 + n)" for a
    using Await.IH [of "k a" "m - 1"] Await.prems by simp
  then show ?case using Await.prems(1) by (cases m) simp_all
next
  case (Return r)
  then show ?case using calls_at_most_mono [of "f r" n "m + n"] by simp
qed simp_all

lemma calls_at_most_catching:
  "calls_at_most p m \<Longrightarrow> (\<And>e. calls_at_most (h e) n) \<Longrightarrow> calls_at_most (catching p h) (m + n)"
proof (induction p arbitrary: m)
  case (Await c k)
  have "calls_at_most (catching (k a) h) (m - 1 + n)" for a
    using Await.IH [of "k a" "m - 1"] Await.prems by simp
  then show ?case using Await.prems(1) by (cases m) simp_all
next
  case (Throw e)
  then show ?case using calls_at_most_mono [of "h e" n "m + n"] by simp
qed simp_all

lemma calls_at_most_simps [simp]: "calls_at_most (lift x) n" "calls_at_most (require b e) n"
  by (simp_all add: lift_def require_def split: sum.split)

lemma calls_at_most_play:
  "calls_at_most p n \<Longrightarrow> play as p = (tr, out) \<Longrightarrow> length tr \<le> n \<and> (n \<le> length as \<longrightarrow> out \<noteq> Waiting)"
proof (induction as arbitrary: p n tr out)
  case Nil then show ?case by (cases p) auto
next
  case (Cons a as)
  show ?case
  proof (cases p)
    case (Await c k)
    obtain tr' out' where "play as (k a) = (tr', out')" by fastforce
    then show ?thesis using Cons.IH [of "k a" "n - 1" tr' out'] Cons.prems Await by auto
  qed (use Cons.prems in auto)
qed

end
