(* ===== verification/Worker_Provisioner.thy ===== *)
theory Worker_Provisioner
  imports Pool_Store Pool_Config Async_Program
begin

text \<open>
  The adapter that provisions a pool member (\<^verbatim>\<open>src/proxy/src/userPool/provisioner.ts\<close>, \<open>realProvisioner\<close>):
  one step of the stage machine, as a program over the calls it awaits. The SSO and Login services, the
  Copilot API, the worker's fenced context and the clock are what answers the calls; their JSON bodies are
  untyped values that the checks below inspect; where the code hands a field of a body on to a column that
  holds text, the field is taken to be text, as the body's declared type says. The production adapter is modelled: the branches for
  injected test dependencies in \<open>mutate\<close> are not. The signal combined in \<open>step\<close> aborts a call by
  letting it throw.
\<close>

section \<open>Failures\<close>

text \<open>What the code throws: its own failures, API errors with a status, the errors of the Copilot client it tells apart, the rest.\<close>

datatype failure = ProvisionFailure string bool | HttpApiError int | CopilotApiError int | CopilotModelPathError | OtherFailure

definition code_char :: "char \<Rightarrow> bool" where
  "code_char c \<longleftrightarrow> is_lower_letter c \<or> is_digit c \<or> c = CHR ''_''"

text \<open>The pattern of a code that may be persisted, and the constructor that falls back without it.\<close>

definition safe_code :: "string \<Rightarrow> bool" where
  "safe_code code \<longleftrightarrow> (case code of [] \<Rightarrow> False | c # cs \<Rightarrow> is_lower_letter c \<and> list_all code_char cs \<and> length cs \<le> 79)"

definition provisionFailure :: "string \<Rightarrow> bool \<Rightarrow> failure" where
  "provisionFailure code terminal = ProvisionFailure (if safe_code code then code else ''service_unavailable'') terminal"

text \<open>The code of a failure that is charged to the member.\<close>

fun failureCode :: "failure \<Rightarrow> string" where
  "failureCode (ProvisionFailure code t) = code"
| "failureCode (HttpApiError st) = (if 100 \<le> st \<and> st \<le> 599 then ''service_http_'' @ show_int st else ''service_unavailable'')"
| "failureCode _ = ''service_unavailable''"

section \<open>Calls and answers\<close>

text \<open>The scoped paths, with the components that the code encodes into them.\<close>

datatype path =
    User string | Users | UsersBatch | CopilotSeat string | LoginCredentials string
  | Tasks | Task string | TaskSearch string nat

datatype service = Sso | Login

datatype copilot_path = Messages | ChatCompletions | Responses

datatype call =
    AssertCurrent
  | ThrowIfAborted
  | Fetch service string path "js option"       \<comment> \<open>the enterprise of the scope; a body makes it a POST\<close>
  | ReadJson
  | GetAccount string
  | Checkpoint "patch_entry list"
  | PinCredentials
  | MutateCredentials WorkerCredentialMutation
  | ClaimLoginDispatch int
  | StoreNow
  | RandomUUID
  | ResolveModel copilot_path
  | ExecuteRequest copilot_path

datatype answer =
    Done
  | Fails failure
  | Status int
  | Json js
  | AccountIs "ProxyAccount option"
  | RowIs "Inventory option"
  | Accepted bool
  | Instant int
  | Uuid string

type_synonym 'r provision = "(call, answer, failure, 'r) prog"

text \<open>Await a call whose answer has to be of the kind that \<open>f\<close> reads.\<close>

definition ask :: "call \<Rightarrow> (answer \<Rightarrow> 'r option) \<Rightarrow> 'r provision" where
  "ask c f = Await c (\<lambda>a. case a of Fails e \<Rightarrow> Throw e
     | _ \<Rightarrow> (case f a of Some r \<Rightarrow> Return r | None \<Rightarrow> Throw OtherFailure))"

fun read_unit :: "answer \<Rightarrow> unit option" where
  "read_unit Done = Some ()" | "read_unit _ = None"

fun read_status :: "answer \<Rightarrow> int option" where
  "read_status (Status n) = Some n" | "read_status _ = None"

fun read_json :: "answer \<Rightarrow> js option" where
  "read_json (Json v) = Some v" | "read_json _ = None"

fun read_account :: "answer \<Rightarrow> ProxyAccount option option" where
  "read_account (AccountIs a) = Some a" | "read_account _ = None"

fun read_row :: "answer \<Rightarrow> Inventory option option" where
  "read_row (RowIs r) = Some r" | "read_row _ = None"

fun read_saved :: "answer \<Rightarrow> Inventory option" where
  "read_saved (RowIs r) = r" | "read_saved _ = None"

fun read_bool :: "answer \<Rightarrow> bool option" where
  "read_bool (Accepted b) = Some b" | "read_bool _ = None"

fun read_instant :: "answer \<Rightarrow> int option" where
  "read_instant (Instant t) = Some t" | "read_instant _ = None"

fun read_uuid :: "answer \<Rightarrow> string option" where
  "read_uuid (Uuid u) = Some u" | "read_uuid _ = None"

definition assertCurrent :: "unit provision" where
  "assertCurrent = ask AssertCurrent read_unit"

definition checkpoint :: "patch_entry list \<Rightarrow> Inventory provision" where
  "checkpoint patch = ask (Checkpoint patch) read_saved"

section \<open>Untyped bodies\<close>

fun js_truthy :: "js \<Rightarrow> bool" where
  "js_truthy JUndefined = False"
| "js_truthy JNull = False"
| "js_truthy JNaN = False"
| "js_truthy (JBool b) = b"
| "js_truthy (JNum r) = (r \<noteq> 0)"
| "js_truthy (JStr s) = (s \<noteq> [])"
| "js_truthy _ = True"

text \<open>Reading a property of \<open>null\<close> or \<open>undefined\<close> is a \<open>TypeError\<close>; \<open>?.\<close> gives \<open>undefined\<close>.\<close>

definition js_prop :: "js \<Rightarrow> string \<Rightarrow> failure + js" where
  "js_prop v k = (if v = JUndefined \<or> v = JNull then Inl OtherFailure else Inr (js_get v k))"

definition js_optional :: "string option \<Rightarrow> js" where
  "js_optional x = (case x of None \<Rightarrow> JUndefined | Some s \<Rightarrow> JStr s)"

definition js_nullable :: "string option \<Rightarrow> js" where
  "js_nullable x = (case x of None \<Rightarrow> JNull | Some s \<Rightarrow> JStr s)"

text \<open>\<open>===\<close> on two such values: objects and arrays of different bodies are never identical.\<close>

fun js_same :: "js \<Rightarrow> js \<Rightarrow> bool" where
  "js_same (JObj a) v = False"
| "js_same (JArr a) v = False"
| "js_same JNaN v = False"
| "js_same u v = (u = v)"

section \<open>The adapter's environment\<close>

record EnterpriseProfile =
  ep_id :: string
  ep_accountDomain :: "string option"
  ep_ssoProvider :: "string option"

text \<open>
  The registry, \<open>Date.parse\<close> (\<open>None\<close> is \<open>NaN\<close>) and the configured number of pending logins
  (\<open>options.loginMaxPending ?? 5\<close>).
\<close>

record ProvisionEnv =
  findEnterprise :: "string \<Rightarrow> EnterpriseProfile option"
  parseDate :: "js \<Rightarrow> rat option"
  loginMaxPending :: int

definition enterpriseOf :: "ProvisionEnv \<Rightarrow> Inventory \<Rightarrow> failure + EnterpriseProfile" where
  "enterpriseOf env row =
     (case findEnterprise env (enterprise_id row) of
        None \<Rightarrow> Inl (provisionFailure ''enterprise_not_found'' True)
      | Some e \<Rightarrow> Inr e)"

definition email :: "ProvisionEnv \<Rightarrow> Inventory \<Rightarrow> failure + string" where
  "email env row =
     (case enterpriseOf env row of
        Inl f \<Rightarrow> Inl f
      | Inr e \<Rightarrow>
          (case ep_accountDomain e of
             None \<Rightarrow> Inl (provisionFailure ''enterprise_not_ready'' False)
           | Some d \<Rightarrow> if d = [] then Inl (provisionFailure ''enterprise_not_ready'' False) else Inr (identity row @ ''@'' @ d)))"

definition expectedSsoType :: "ProvisionEnv \<Rightarrow> Inventory \<Rightarrow> failure + string" where
  "expectedSsoType env row =
     (case enterpriseOf env row of
        Inl f \<Rightarrow> Inl f
      | Inr e \<Rightarrow> Inr (case ep_ssoProvider e of None \<Rightarrow> ''custom'' | Some p \<Rightarrow> p))"

section \<open>Requests\<close>

definition mutate :: "WorkerCredentialMutation \<Rightarrow> bool provision" where
  "mutate m = bind assertCurrent (\<lambda>_. bind (ask (MutateCredentials m) read_bool) (\<lambda>ok.
     if ok then Return True else Throw (provisionFailure ''provision_fenced'' False)))"

definition service_name :: "service \<Rightarrow> string" where
  "service_name s = (case s of Sso \<Rightarrow> ''sso'' | Login \<Rightarrow> ''login'')"

definition request :: "ProvisionEnv \<Rightarrow> Inventory \<Rightarrow> service \<Rightarrow> path \<Rightarrow> js option \<Rightarrow> js provision" where
  "request env row s p content =
     bind assertCurrent (\<lambda>_. bind (lift (enterpriseOf env row)) (\<lambda>e.
     bind (ask (Fetch s (ep_id e) p content) read_status) (\<lambda>status.
     bind assertCurrent (\<lambda>_.
       if \<not> (200 \<le> status \<and> status \<le> 299)
       then Throw (provisionFailure (service_name s @ ''_http_'' @ show_int status) False)
       else bind (ask ReadJson read_json) (\<lambda>v. bind assertCurrent (\<lambda>_. Return v))))))"

definition checkUser :: "ProvisionEnv \<Rightarrow> Inventory \<Rightarrow> js \<Rightarrow> bool \<Rightarrow> failure + js" where
  "checkUser env row user creating =
     (let bad = provisionFailure (if creating then ''sso_creation_ambiguous'' else ''sso_identity_changed'') True in
      if \<not> js_truthy user \<or> js_get user ''ssoUser'' \<noteq> JStr (identity row) then Inl bad
      else case email env row of
        Inl f \<Rightarrow> Inl f
      | Inr m \<Rightarrow>
          if js_get user ''email'' \<noteq> JStr m \<or> js_get user ''role'' \<noteq> JStr ''user'' \<or>
             parseDate env (js_get user ''createdAt'') = None then Inl bad
          else if \<not> creating \<and> (sso_created_at row = None \<or> sso_created_at row = Some [] \<or>
                  js_get user ''createdAt'' \<noteq> js_nullable (sso_created_at row))
          then Inl (provisionFailure ''sso_identity_changed'' True)
          else Inr user)"

definition knownUser :: "ProvisionEnv \<Rightarrow> Inventory \<Rightarrow> js provision" where
  "knownUser env row = bind (request env row Sso (User (identity row)) None) (\<lambda>u. lift (checkUser env row u False))"

definition emu_ready :: "js \<Rightarrow> bool" where
  "emu_ready user \<longleftrightarrow> js_get user ''emuStatus'' = JStr ''active'' \<and> js_truthy (js_get user ''ghLogin'') \<and>
     js_truthy (js_get user ''ghScimId'')"

definition checkEntitlement :: "js \<Rightarrow> unit provision" where
  "checkEntitlement user = require (emu_ready user \<and> js_get user ''copilotSeatStatus'' = JStr ''assigned'')
     (provisionFailure ''entitlement_not_ready'' False)"

definition login_differs :: "ProxyAccount \<Rightarrow> js \<Rightarrow> bool" where
  "login_differs a user \<longleftrightarrow> (case a_gh_login a of None \<Rightarrow> False | Some l \<Rightarrow> l \<noteq> [] \<and> js_get user ''ghLogin'' \<noteq> JStr l)"

definition accountFor :: "Inventory \<Rightarrow> js option \<Rightarrow> ProxyAccount provision" where
  "accountFor row user =
     bind assertCurrent (\<lambda>_. bind (ask (GetAccount (identity row)) read_account) (\<lambda>account. bind assertCurrent (\<lambda>_.
       case account of
         None \<Rightarrow> Throw (provisionFailure ''proxy_identity_changed'' True)
       | Some a \<Rightarrow>
           if a_identity a \<noteq> identity row \<or> a_sso_user a \<noteq> Some (identity row) \<or>
              (case user of None \<Rightarrow> False | Some u \<Rightarrow> js_truthy u \<and> login_differs a u)
           then Throw (provisionFailure ''proxy_identity_changed'' True)
           else Return a)))"

definition checkTask :: "ProvisionEnv \<Rightarrow> Inventory \<Rightarrow> js \<Rightarrow> js \<Rightarrow> failure + js" where
  "checkTask env row task ghLogin =
     (let bad = provisionFailure ''oauth_task_mismatch'' True in
      if \<not> js_truthy task \<or> \<not> js_truthy (js_get task ''id'') \<or>
         (case task_id row of None \<Rightarrow> False | Some t \<Rightarrow> t \<noteq> [] \<and> js_get task ''id'' \<noteq> JStr t) \<or>
         js_get task ''identity'' \<noteq> JStr (identity row) \<or> js_get task ''ssoUser'' \<noteq> JStr (identity row) \<or>
         \<not> js_same (js_get task ''ghLogin'') ghLogin \<or> js_get task ''oauthAttemptId'' \<noteq> js_nullable (oauth_attempt_id row) then Inl bad
      else case expectedSsoType env row of
        Inl f \<Rightarrow> Inl f
      | Inr t \<Rightarrow> if js_get task ''ssoType'' \<noteq> JStr t then Inl bad else Inr task)"

definition loginTask :: "ProvisionEnv \<Rightarrow> Inventory \<Rightarrow> string \<Rightarrow> js provision" where
  "loginTask env row t = request env row Login (Task t) None"

text \<open>The tasks of one page that carry this authorisation; a second one makes the dispatch ambiguous.\<close>

fun match_tasks :: "ProvisionEnv \<Rightarrow> Inventory \<Rightarrow> js \<Rightarrow> js list \<Rightarrow> js option \<Rightarrow> failure + js option" where
  "match_tasks env row ghLogin [] found = Inr found"
| "match_tasks env row ghLogin (t # ts) found =
     (case js_prop t ''identity'' of
        Inl f \<Rightarrow> Inl f
      | Inr i \<Rightarrow>
          if i \<noteq> JStr (identity row) \<or> js_get t ''oauthAttemptId'' \<noteq> js_nullable (oauth_attempt_id row)
          then match_tasks env row ghLogin ts found
          else case checkTask env row t ghLogin of
            Inl f \<Rightarrow> Inl f
          | Inr t' \<Rightarrow>
              if (case found of None \<Rightarrow> False | Some u \<Rightarrow> \<not> js_same (js_get u ''id'') (js_get t ''id''))
              then Inl (provisionFailure ''oauth_dispatch_ambiguous'' True)
              else match_tasks env row ghLogin ts (Some t))"

definition MAX_TASK_PAGES :: nat where "MAX_TASK_PAGES = 10"

text \<open>Whether a page has the declared shape, and its items and total.\<close>

definition task_page :: "js \<Rightarrow> failure + js list \<times> rat" where
  "task_page result =
     (case js_prop result ''items'' of
        Inl f \<Rightarrow> Inl f
      | Inr items \<Rightarrow>
          (case (items, js_get result ''total'') of
             (JArr ts, JNum n) \<Rightarrow>
               if \<not> Number_isSafeInteger (JNum n) \<or> n < 0 then Inl (provisionFailure ''oauth_task_list_invalid'' False)
               else Inr (ts, n)
           | _ \<Rightarrow> Inl (provisionFailure ''oauth_task_list_invalid'' False)))"

fun findTask_from :: "ProvisionEnv \<Rightarrow> Inventory \<Rightarrow> js \<Rightarrow> nat \<Rightarrow> nat \<Rightarrow> js option \<Rightarrow> js option provision" where
  "findTask_from env row ghLogin 0 page found = Throw (provisionFailure ''oauth_task_search_limit'' True)"
| "findTask_from env row ghLogin (Suc pages) page found =
     bind (request env row Login (TaskSearch (identity row) page) None) (\<lambda>result.
     bind (lift (task_page result)) (\<lambda>(items, total).
     bind (lift (match_tasks env row ghLogin items found)) (\<lambda>found.
       if of_nat page * 100 \<ge> total then Return found
       else findTask_from env row ghLogin pages (page + 1) found)))"

definition findTask :: "ProvisionEnv \<Rightarrow> Inventory \<Rightarrow> js \<Rightarrow> js option provision" where
  "findTask env row ghLogin = findTask_from env row ghLogin MAX_TASK_PAGES 1 None"

definition taskOf :: "ProvisionEnv \<Rightarrow> Inventory \<Rightarrow> js \<Rightarrow> js option provision" where
  "taskOf env row ghLogin =
     (case task_id row of
        Some t \<Rightarrow> if t = [] then findTask env row ghLogin
                  else bind (loginTask env row t) (\<lambda>v. bind (lift (checkTask env row v ghLogin)) (\<lambda>v. Return (Some v)))
      | None \<Rightarrow> findTask env row ghLogin)"

section \<open>The stages\<close>

text \<open>\<open>new\<close>: the name must be free; then the account is created, once.\<close>

definition check_name_free :: "ProvisionEnv \<Rightarrow> Inventory \<Rightarrow> unit provision" where
  "check_name_free env row =
     catching (bind (request env row Sso (User (identity row)) None)
                (\<lambda>_. Throw (provisionFailure ''sso_name_conflict'' True)))
       (\<lambda>f. case f of ProvisionFailure code t \<Rightarrow> if code = ''sso_http_404'' then Return () else Throw f
             | _ \<Rightarrow> Throw f)"

definition create_user :: "ProvisionEnv \<Rightarrow> Inventory \<Rightarrow> patch_entry list provision" where
  "create_user env row =
     catching
       (bind (lift (email env row)) (\<lambda>m.
        bind (request env row Sso Users (Some (JObj [(''ssoUser'', JStr (identity row)), (''email'', JStr m),
           (''role'', JStr ''user''), (''poolManaged'', JBool True)]))) (\<lambda>v.
        bind (lift (checkUser env row v True)) (\<lambda>user.
        Return [PStage ''sso-created'', PSsoCreatedAt (case js_get user ''createdAt'' of JStr s \<Rightarrow> Some s | _ \<Rightarrow> None)]))))
       (\<lambda>f. bind (ask ThrowIfAborted read_unit) (\<lambda>_. Throw (provisionFailure ''sso_creation_ambiguous'' True)))"

definition step_new :: "ProvisionEnv \<Rightarrow> Inventory \<Rightarrow> patch_entry list provision" where
  "step_new env row =
     bind (check_name_free env row) (\<lambda>_.
     bind (checkpoint [PStage ''sso-creating'', PSsoCreatedAt None]) (create_user env))"

text \<open>\<open>sso-created\<close> and \<open>scim-syncing\<close>: synchronise the user with GitHub, once.\<close>

definition batch_user :: "ProvisionEnv \<Rightarrow> Inventory \<Rightarrow> js \<Rightarrow> failure + js" where
  "batch_user env row result =
     (case js_prop result ''rows'' of
        Inl f \<Rightarrow> Inl f
      | Inr rows \<Rightarrow>
          (case rows of
             JArr [item] \<Rightarrow>
               if item = JUndefined \<or> item = JNull \<or> js_get item ''ssoUser'' \<noteq> JStr (identity row) \<or> js_get item ''status'' \<noteq> JStr ''success'' \<or>
                  \<not> js_truthy (js_get item ''user'')
               then Inl (provisionFailure ''scim_sync_unconfirmed'' False)
               else checkUser env row (js_get item ''user'') False
           | _ \<Rightarrow> Inl (provisionFailure ''scim_sync_unconfirmed'' False)))"

definition step_scim :: "ProvisionEnv \<Rightarrow> Inventory \<Rightarrow> patch_entry list provision" where
  "step_scim env row =
     bind (knownUser env row) (\<lambda>existing.
     if emu_ready existing then Return [PStage ''scim-synced'']
     else if stage row = ''scim-syncing'' then Throw (provisionFailure ''scim_sync_unconfirmed'' False)
     else bind (checkpoint [PStage ''scim-syncing'']) (\<lambda>row.
       bind (request env row Sso UsersBatch (Some (JObj [(''operation'', JStr ''sync_emu''),
          (''ssoUsers'', JArr [JStr (identity row)]), (''assignCopilotSeat'', JBool False), (''createOnly'', JBool True)]))) (\<lambda>result.
       bind (lift (batch_user env row result)) (\<lambda>user.
       bind (require (emu_ready user) (provisionFailure ''scim_sync_unconfirmed'' False)) (\<lambda>_.
       Return [PStage ''scim-synced''])))))"

text \<open>\<open>scim-synced\<close> and \<open>seat-assigning\<close>: assign the seat, once, and link the Proxy account.\<close>

definition link_account :: "Inventory \<Rightarrow> js \<Rightarrow> patch_entry list provision" where
  "link_account row user =
     bind (checkEntitlement user) (\<lambda>_. bind (accountFor row (Some user)) (\<lambda>_. bind assertCurrent (\<lambda>_.
     bind (mutate (Link (case js_get user ''ghLogin'' of JStr l \<Rightarrow> l | _ \<Rightarrow> []))) (\<lambda>_. bind assertCurrent (\<lambda>_.
     Return [PStage ''synced''])))))"

definition step_seat :: "ProvisionEnv \<Rightarrow> Inventory \<Rightarrow> patch_entry list provision" where
  "step_seat env row =
     bind (knownUser env row) (\<lambda>user.
     bind (require (emu_ready user) (provisionFailure ''scim_not_ready'' False)) (\<lambda>_.
     if js_get user ''copilotSeatStatus'' = JStr ''assigned'' then link_account row user
     else if stage row = ''seat-assigning'' then Throw (provisionFailure ''seat_assignment_unconfirmed'' False)
     else bind (checkpoint [PStage ''seat-assigning'']) (\<lambda>row.
       bind (request env row Sso (CopilotSeat (identity row)) (Some (JObj []))) (\<lambda>v.
       bind (lift (checkUser env row v False)) (\<lambda>user. link_account row user)))))"

text \<open>\<open>synced\<close>: a new nonce for the login callback.\<close>

definition step_synced :: "ProvisionEnv \<Rightarrow> Inventory \<Rightarrow> patch_entry list provision" where
  "step_synced env row =
     bind (knownUser env row) (\<lambda>user. bind (checkEntitlement user) (\<lambda>_. bind (accountFor row (Some user)) (\<lambda>_.
     bind (ask RandomUUID read_uuid) (\<lambda>u.
     Return [PStage ''oauth-starting'', POauthAttemptId (Some u), PTaskId None]))))"

text \<open>\<open>oauth-starting\<close>: the dispatch is claimed before the login task is submitted.\<close>

definition truthy_id :: "string option \<Rightarrow> bool" where
  "truthy_id x \<longleftrightarrow> (case x of None \<Rightarrow> False | Some s \<Rightarrow> s \<noteq> [])"

definition submit_login :: "ProvisionEnv \<Rightarrow> Inventory \<Rightarrow> js \<Rightarrow> js \<Rightarrow> patch_entry list provision" where
  "submit_login env row user password =
     bind (request env row Login Tasks (Some (JObj [(''identity'', JStr (identity row)), (''ssoUser'', JStr (identity row)),
        (''ghLogin'', js_get user ''ghLogin''), (''ssoPassword'', password),
        (''oauthAttemptId'', js_nullable (oauth_attempt_id row))]))) (\<lambda>v.
     bind (lift (checkTask env row v (js_get user ''ghLogin''))) (\<lambda>task.
     Return [PStage ''oauth-wait'', PTaskId (case js_get task ''id'' of JStr t \<Rightarrow> Some t | _ \<Rightarrow> None)]))"

definition step_oauth_starting :: "ProvisionEnv \<Rightarrow> Inventory \<Rightarrow> patch_entry list provision" where
  "step_oauth_starting env row =
     bind (require (truthy_id (oauth_attempt_id row)) (provisionFailure ''oauth_attempt_missing'' True)) (\<lambda>_.
     bind (knownUser env row) (\<lambda>user. bind (checkEntitlement user) (\<lambda>_. bind (accountFor row (Some user)) (\<lambda>account.
     bind (lift (email env row)) (\<lambda>m.
     bind (request env row Sso (LoginCredentials (identity row)) (Some (JObj [(''expectedCreatedAt'', js_nullable (sso_created_at row)),
        (''expectedEmail'', JStr m)]))) (\<lambda>credentials.
     bind (lift (js_prop credentials ''user'')) (\<lambda>cu. bind (lift (checkUser env row cu False)) (\<lambda>_.
     bind (require (js_truthy (js_get credentials ''passwordForLogin'')) (provisionFailure ''sso_password_unavailable'' True)) (\<lambda>_.
     bind (if a_attempt_id account \<noteq> oauth_attempt_id row \<or> a_status account \<noteq> ''refreshing''
           then bind (mutate (Begin (the (oauth_attempt_id row)))) (\<lambda>_. Return ()) else Return ()) (\<lambda>_.
     bind (ask (ClaimLoginDispatch (loginMaxPending env)) read_row) (\<lambda>admitted.
     case admitted of
       None \<Rightarrow> Return []
     | Some row \<Rightarrow> submit_login env row user (js_get credentials ''passwordForLogin''))))))))))))"

definition LOGIN_TASK_TIMEOUT_MS :: int where "LOGIN_TASK_TIMEOUT_MS = 15 * 60 * 1000"

text \<open>What a task that is waited for leads to, once it has been found.\<close>

definition task_result :: "ProvisionEnv \<Rightarrow> Inventory \<Rightarrow> js \<Rightarrow> js \<Rightarrow> rat \<Rightarrow> int \<Rightarrow> patch_entry list provision" where
  "task_result env row user task createdAt now =
     (let status = js_get task ''status'' in
      if stage row = ''oauth-dispatch''
      then Return [PStage ''oauth-wait'', PTaskId (case js_get task ''id'' of JStr t \<Rightarrow> Some t | _ \<Rightarrow> None)]
      else if status = JStr ''cancelled'' then Throw (provisionFailure ''oauth_task_cancelled_unconfirmed'' True)
      else if status = JStr ''failed''
      then bind (checkpoint [PStage ''synced'', PTaskId None, POauthAttemptId None])
             (\<lambda>_. Throw (provisionFailure ''oauth_login_failed'' False))
      else if status = JStr ''success''
      then bind (accountFor row (Some user)) (\<lambda>a.
             if a_status a \<noteq> ''valid'' \<or> \<not> truthy_id (a_token a) \<or> truthy_id (a_attempt_id a)
             then Throw (provisionFailure ''oauth_callback_unconfirmed'' False)
             else Return [PStage ''warmup''])
      else if of_int now - createdAt \<ge> of_int LOGIN_TASK_TIMEOUT_MS then Throw (provisionFailure ''oauth_task_stalled'' True)
      else if status \<noteq> JStr ''pending'' \<and> status \<noteq> JStr ''running'' then Throw (provisionFailure ''oauth_task_invalid'' True)
      else Return [])"

definition step_oauth_wait :: "ProvisionEnv \<Rightarrow> Inventory \<Rightarrow> patch_entry list provision" where
  "step_oauth_wait env row =
     bind (require (truthy_id (oauth_attempt_id row)) (provisionFailure ''oauth_attempt_missing'' True)) (\<lambda>_.
     bind (knownUser env row) (\<lambda>user. bind (checkEntitlement user) (\<lambda>_.
     bind (taskOf env row (js_get user ''ghLogin'')) (\<lambda>found.
     case found of
       None \<Rightarrow> Throw (provisionFailure ''oauth_dispatch_unconfirmed'' False)
     | Some task \<Rightarrow> bind (ask StoreNow read_instant) (\<lambda>now.
         case parseDate env (js_get task ''createdAt'') of
           None \<Rightarrow> Throw (provisionFailure ''oauth_task_invalid'' True)
         | Some createdAt \<Rightarrow>
             if createdAt > of_int (now + 60000) then Throw (provisionFailure ''oauth_task_invalid'' True)
             else task_result env row user task createdAt now)))))"


section \<open>Warming up\<close>

definition nonempty_text :: "js \<Rightarrow> bool" where
  "nonempty_text v \<longleftrightarrow> (case v of JStr s \<Rightarrow> js_trim s \<noteq> [] | _ \<Rightarrow> False)"

definition js_list_some :: "(js \<Rightarrow> bool) \<Rightarrow> js \<Rightarrow> bool" where
  "js_list_some P v \<longleftrightarrow> (case v of JArr xs \<Rightarrow> list_ex P xs | _ \<Rightarrow> False)"

definition validWarmupResponse :: "js \<Rightarrow> copilot_path \<Rightarrow> bool" where
  "validWarmupResponse v p \<longleftrightarrow>
     (case v of
        JObj _ \<Rightarrow> \<not> js_truthy (js_get v ''error'') \<and>
          (case p of
             ChatCompletions \<Rightarrow> js_list_some (\<lambda>c. js_get (js_get c ''message'') ''role'' = JStr ''assistant'' \<and>
               nonempty_text (js_get (js_get c ''message'') ''content'')) (js_get v ''choices'')
           | Responses \<Rightarrow> js_get v ''status'' = JStr ''completed'' \<and>
               js_list_some (\<lambda>i. js_get i ''type'' = JStr ''message'' \<and> js_get i ''role'' = JStr ''assistant'' \<and>
                 js_list_some (\<lambda>q. js_get q ''type'' = JStr ''output_text'' \<and> nonempty_text (js_get q ''text''))
                   (js_get i ''content'')) (js_get v ''output'')
           | Messages \<Rightarrow> js_get v ''type'' = JStr ''message'' \<and> js_get v ''role'' = JStr ''assistant'' \<and>
               js_list_some (\<lambda>i. js_get i ''type'' = JStr ''text'' \<and> nonempty_text (js_get i ''text'')) (js_get v ''content''))
      | _ \<Rightarrow> False)"

text \<open>A credential that was refused is given up, and only then is the token invalidated.\<close>

definition back_to_synced :: "Inventory provision" where
  "back_to_synced = checkpoint [PStage ''synced'', PTaskId None, POauthAttemptId None]"

definition drop_credential :: "string \<Rightarrow> failure \<Rightarrow> 'r provision" where
  "drop_credential token f = bind back_to_synced (\<lambda>_. bind (mutate (Invalidate token)) (\<lambda>_. Throw f))"

text \<open>The first of the three paths that serves the warm-up model.\<close>

fun resolve_warmup :: "string \<Rightarrow> copilot_path list \<Rightarrow> copilot_path provision" where
  "resolve_warmup token [] = Throw (provisionFailure ''warmup_model_unavailable'' False)"
| "resolve_warmup token (p # ps) =
     bind (catching (bind (ask (ResolveModel p) read_unit) (\<lambda>_. Return (Some p)))
       (\<lambda>f. case f of
          CopilotApiError st \<Rightarrow> if st = 401 then drop_credential token (provisionFailure ''warmup_http_401'' False) else Throw f
        | CopilotModelPathError \<Rightarrow> Return None
        | _ \<Rightarrow> Throw f)) (\<lambda>r.
     case r of Some p \<Rightarrow> Return p | None \<Rightarrow> resolve_warmup token ps)"

text \<open>The warm-up request, and the credential that must not have changed meanwhile.\<close>

definition confirm_warmup :: "Inventory \<Rightarrow> js \<Rightarrow> ProxyAccount \<Rightarrow> copilot_path \<Rightarrow> patch_entry list provision" where
  "confirm_warmup row user account p =
     bind (ask ReadJson read_json) (\<lambda>v.
     bind (require (validWarmupResponse v p) (provisionFailure ''warmup_invalid_response'' False)) (\<lambda>_.
     bind (accountFor row (Some user)) (\<lambda>latest.
     bind (require (a_status latest = ''valid'' \<and> a_token latest = a_token account \<and> a_oauth_updated_at latest = a_oauth_updated_at account)
        (provisionFailure ''warmup_credential_changed'' False)) (\<lambda>_.
     bind assertCurrent (\<lambda>_. bind (ask StoreNow read_instant) (\<lambda>now.
     Return [PStage ''ready'', PState Ready, PLastError None, PVerifiedAt (Some now), PAttempts 0, PRetryAt 0]))))))"

definition send_warmup :: "Inventory \<Rightarrow> js \<Rightarrow> ProxyAccount \<Rightarrow> copilot_path \<Rightarrow> patch_entry list provision" where
  "send_warmup row user account p =
     bind assertCurrent (\<lambda>_. bind (ask (ExecuteRequest p) read_status) (\<lambda>status. bind assertCurrent (\<lambda>_.
     let failed = provisionFailure (''warmup_http_'' @ show_int status) False in
     if 200 \<le> status \<and> status \<le> 299 then confirm_warmup row user account p
     else if status = 401 then drop_credential (the (a_token account)) failed
     else Throw failed)))"

definition step_warmup :: "ProvisionEnv \<Rightarrow> Inventory \<Rightarrow> patch_entry list provision" where
  "step_warmup env row =
     bind (knownUser env row) (\<lambda>user. bind (checkEntitlement user) (\<lambda>_. bind (ask PinCredentials read_unit) (\<lambda>_.
     bind (accountFor row (Some user)) (\<lambda>account.
     if \<not> truthy_id (a_token account) \<or> a_status account \<noteq> ''valid''
     then bind back_to_synced (\<lambda>_. Throw (provisionFailure ''credential_not_valid'' False))
     else bind (lift (enterpriseOf env row)) (\<lambda>_.
          bind (resolve_warmup (the (a_token account)) [Messages, ChatCompletions, Responses]) (send_warmup row user account))))))"

section \<open>One step\<close>

definition step_provision :: "ProvisionEnv \<Rightarrow> Inventory \<Rightarrow> patch_entry list provision" where
  "step_provision env row =
     bind assertCurrent (\<lambda>_.
       if stage row = ''new'' then step_new env row
       else if stage row = ''sso-creating'' then Throw (provisionFailure ''sso_creation_ambiguous'' True)
       else if stage row = ''sso-created'' \<or> stage row = ''scim-syncing'' then step_scim env row
       else if stage row = ''scim-synced'' \<or> stage row = ''seat-assigning'' then step_seat env row
       else if stage row = ''synced'' then step_synced env row
       else if stage row = ''oauth-starting'' then step_oauth_starting env row
       else if stage row = ''oauth-dispatch'' \<or> stage row = ''oauth-wait'' then step_oauth_wait env row
       else if stage row = ''warmup'' \<or> stage row = ''ready'' then step_warmup env row
       else Throw (provisionFailure ''unknown_provision_stage'' True))"

section \<open>Observing an exhausted login reservation\<close>

definition isExhaustedLoginReservation :: "Inventory \<Rightarrow> bool" where
  "isExhaustedLoginReservation row \<longleftrightarrow> (stage row = ''oauth-dispatch'' \<or> stage row = ''oauth-wait'') \<and>
     (state row = Disabled \<or> state row = Failed \<and> attempts row \<ge> 3)"

definition task_outcome :: "js option \<Rightarrow> string option" where
  "task_outcome task = (case task of None \<Rightarrow> None
     | Some t \<Rightarrow> if js_get t ''status'' = JStr ''success'' then Some ''success''
                 else if js_get t ''status'' = JStr ''failed'' then Some ''failed'' else None)"

definition reconcileLoginReservation :: "ProvisionEnv \<Rightarrow> Inventory \<Rightarrow> string option provision" where
  "reconcileLoginReservation env row =
     (if \<not> isExhaustedLoginReservation row \<or> \<not> truthy_id (oauth_attempt_id row) then Return None
      else bind (accountFor row None) (\<lambda>account.
        if \<not> truthy_id (a_gh_login account) then Return None
        else bind (taskOf env row (JStr (the (a_gh_login account)))) (\<lambda>task.
          bind assertCurrent (\<lambda>_. Return (task_outcome task)))))"

section \<open>Eligible enterprises\<close>

text \<open>
  Only active enterprises are probed; a probe that fails or exceeds its deadline counts as not ready
  (\<open>ready\<close> holds the answers that arrived in time).
\<close>

definition eligibleEnterprises :: "(string \<times> string) list \<Rightarrow> (string \<Rightarrow> bool option) \<Rightarrow> string list" where
  "eligibleEnterprises policies ready =
     filter (\<lambda>i. ready i = Some True) (map fst (filter (\<lambda>p. snd p = ''active'') policies))"

end
