(* ===== verification/Worker_Effects.thy ===== *)
theory Worker_Effects
  imports Worker_Provisioner
begin

text \<open>
  The side effects of provisioning. A stage is recorded before the request it guards is sent, and the
  recorded stage never returns to one from which an SSO request would be sent again; a monitor checks it on
  every execution of a step, whatever the services answer and wherever the process dies.
\<close>

section \<open>Stages, writes of a stage and guarded requests\<close>

definition stage_rank :: "string \<Rightarrow> nat" where
  "stage_rank st = (if st = ''new'' then 0 else if st = ''sso-creating'' then 1 else if st = ''sso-created'' then 2
     else if st = ''scim-syncing'' then 3 else if st = ''scim-synced'' then 4 else if st = ''seat-assigning'' then 5 else 6)"

lemma stage_ranks [simp]:
  "stage_rank ''new'' = 0" "stage_rank ''sso-creating'' = Suc 0" "stage_rank ''sso-created'' = 2"
  "stage_rank ''scim-syncing'' = 3" "stage_rank ''scim-synced'' = 4" "stage_rank ''seat-assigning'' = 5"
  "stage_rank ''synced'' = 6" "stage_rank ''oauth-starting'' = 6" "stage_rank ''oauth-dispatch'' = 6"
  "stage_rank ''oauth-wait'' = 6" "stage_rank ''warmup'' = 6" "stage_rank ''ready'' = 6"
  by (simp_all add: stage_rank_def)

fun patch_stage :: "patch_entry list \<Rightarrow> string option" where
  "patch_stage [] = None"
| "patch_stage (PStage st # es) = Some st"
| "patch_stage (_ # es) = patch_stage es"

fun call_stage :: "call \<Rightarrow> string option" where
  "call_stage (Checkpoint patch) = patch_stage patch"
| "call_stage (ClaimLoginDispatch n) = Some ''oauth-dispatch''"
| "call_stage _ = None"

fun confirmed :: "answer \<Rightarrow> bool" where
  "confirmed (RowIs (Some r)) = True"
| "confirmed _ = False"

text \<open>The requests that change something outside, by the stage that has to be recorded first.\<close>

fun guard_stage :: "call \<Rightarrow> string option" where
  "guard_stage (Fetch s e Users (Some b)) = Some ''sso-creating''"
| "guard_stage (Fetch s e UsersBatch (Some b)) = Some ''scim-syncing''"
| "guard_stage (Fetch s e (CopilotSeat i) (Some b)) = Some ''seat-assigning''"
| "guard_stage (Fetch s e Tasks (Some b)) = Some ''oauth-dispatch''"
| "guard_stage _ = None"

section \<open>The monitor\<close>

text \<open>
  Its state is the rank of the recorded stage and the stage this step has recorded and not yet used up. The
  stages of the SSO account can only be recorded upwards.
\<close>

definition may_call :: "nat \<times> string option \<Rightarrow> call \<Rightarrow> bool" where
  "may_call s c \<longleftrightarrow> (case guard_stage c of None \<Rightarrow> True | Some g \<Rightarrow> snd s = Some g) \<and>
     (case call_stage c of None \<Rightarrow> True | Some st \<Rightarrow> fst s < stage_rank st \<or> stage_rank st = 6)"

definition after_call :: "nat \<times> string option \<Rightarrow> call \<Rightarrow> answer \<Rightarrow> nat \<times> string option" where
  "after_call s c a =
     (case call_stage c of
        Some st \<Rightarrow> if confirmed a then (stage_rank st, Some st) else (fst s, None)
      | None \<Rightarrow> (case guard_stage c of Some g \<Rightarrow> (fst s, None) | None \<Rightarrow> s))"

interpretation effects: monitor may_call after_call .

definition quiet_call :: "call \<Rightarrow> bool" where
  "quiet_call c \<longleftrightarrow> guard_stage c = None \<and> call_stage c = None"

lemma wp_quiet:
  "only_calls quiet_call p \<Longrightarrow> (\<And>r. Q s r) \<Longrightarrow> (\<And>e. E s e) \<Longrightarrow> effects.wp p Q E s"
  by (induction p) (auto simp: quiet_call_def may_call_def after_call_def)

section \<open>Quiet parts\<close>

lemma only_calls_ask [intro!]: "P c \<Longrightarrow> only_calls P (ask c f)"
  by (auto simp: ask_def split: answer.split option.split)

lemma quiet_calls [simp]:
  "quiet_call AssertCurrent" "quiet_call ThrowIfAborted" "quiet_call ReadJson" "quiet_call (GetAccount i)"
  "quiet_call PinCredentials" "quiet_call (MutateCredentials m)" "quiet_call StoreNow" "quiet_call RandomUUID"
  "quiet_call (ResolveModel q)" "quiet_call (ExecuteRequest q)" "quiet_call (Fetch s e p None)"
  "quiet_call (Fetch s e (LoginCredentials i) b)"
  by (simp_all add: quiet_call_def)

lemma only_assertCurrent [simp]: "P AssertCurrent \<Longrightarrow> only_calls P assertCurrent"
  by (auto simp: assertCurrent_def)

lemma only_mutate: "P AssertCurrent \<Longrightarrow> P (MutateCredentials m) \<Longrightarrow> only_calls P (mutate m)"
  by (auto simp: mutate_def)

lemma only_request:
  "P AssertCurrent \<Longrightarrow> P ReadJson \<Longrightarrow> (\<And>e. P (Fetch s e p b)) \<Longrightarrow> only_calls P (request env row s p b)"
  by (auto simp: request_def)

lemma only_knownUser:
  "P AssertCurrent \<Longrightarrow> P ReadJson \<Longrightarrow> (\<And>e. P (Fetch Sso e (User (identity row)) None)) \<Longrightarrow> only_calls P (knownUser env row)"
  by (auto simp: knownUser_def intro!: only_request)

lemma only_checkEntitlement [simp]: "only_calls P (checkEntitlement u)"
  by (simp add: checkEntitlement_def)

lemma only_accountFor: "P AssertCurrent \<Longrightarrow> P (GetAccount (identity row)) \<Longrightarrow> only_calls P (accountFor row u)"
  by (auto simp: accountFor_def split: option.split)

lemma only_findTask_from:
  "P AssertCurrent \<Longrightarrow> P ReadJson \<Longrightarrow> (\<And>e p. P (Fetch Login e p None)) \<Longrightarrow>
    only_calls P (findTask_from env row g n page found)"
  by (induction n arbitrary: page found) (auto intro!: only_request)

lemma only_taskOf:
  "P AssertCurrent \<Longrightarrow> P ReadJson \<Longrightarrow> (\<And>e p. P (Fetch Login e p None)) \<Longrightarrow> only_calls P (taskOf env row g)"
  by (auto simp: taskOf_def findTask_def loginTask_def intro!: only_request only_findTask_from split: option.split)

lemmas only_parts = only_mutate only_request only_knownUser only_accountFor only_taskOf

section \<open>Rules of the monitor\<close>

lemma confirmed_RowIs [simp]: "confirmed (RowIs x) \<longleftrightarrow> x \<noteq> None"
  by (cases x) simp_all

lemma wp_ask:
  "effects.wp (ask c f) Q E s \<longleftrightarrow> may_call s c \<and>
     (\<forall>a. case a of Fails e \<Rightarrow> E (after_call s c a) e
        | _ \<Rightarrow> (case f a of Some r \<Rightarrow> Q (after_call s c a) r | None \<Rightarrow> E (after_call s c a) OtherFailure))"
  by (auto simp: ask_def split: answer.splits option.splits)

lemma wp_bind_quiet:
  "only_calls quiet_call p \<Longrightarrow> (\<And>r. effects.wp (f r) Q E s) \<Longrightarrow> (\<And>e. E s e) \<Longrightarrow> effects.wp (bind p f) Q E s"
  unfolding effects.wp_bind by (rule wp_quiet)

lemma wp_bind_lift:
  "(\<And>r. x = Inr r \<Longrightarrow> effects.wp (f r) Q E s) \<Longrightarrow> (\<And>e. x = Inl e \<Longrightarrow> E s e) \<Longrightarrow> effects.wp (bind (lift x) f) Q E s"
  by (cases x) (simp_all add: lift_def)

lemma wp_request:
  assumes "\<And>e. guard_stage (Fetch srv e p (Some b)) = Some g"
    and "\<And>v. Q (n, None) v" "\<And>e. E (n, None) e" "\<And>e. E (n, Some g) e"
  shows "effects.wp (request env row srv p (Some b)) Q E (n, Some g)"
proof -
  have c: "call_stage (Fetch srv e p (Some b)) = None" for e by simp
  have "effects.wp (ask (Fetch srv e p (Some b)) read_status) (\<lambda>s status. effects.wp (bind assertCurrent (\<lambda>_.
       if \<not> (200 \<le> status \<and> status \<le> 299)
       then Throw (provisionFailure (service_name srv @ ''_http_'' @ show_int status) False)
       else bind (ask ReadJson read_json) (\<lambda>v. bind assertCurrent (\<lambda>_. Return v)))) Q E s) E (n, Some g)" for e
    unfolding wp_ask
  proof (intro conjI allI)
    show "may_call (n, Some g) (Fetch srv e p (Some b))" using assms(1) by (simp add: may_call_def)
    have a: "after_call (n, Some g) (Fetch srv e p (Some b)) x = (n, None)" for x
      using assms(1) by (simp add: after_call_def)
    have k: "effects.wp (bind assertCurrent (\<lambda>_.
       if \<not> (200 \<le> status \<and> status \<le> 299)
       then Throw (provisionFailure (service_name srv @ ''_http_'' @ show_int status) False)
       else bind (ask ReadJson read_json) (\<lambda>v. bind assertCurrent (\<lambda>_. Return v)))) Q E (n, None)" for status
      by (rule wp_quiet) (use assms(2,3) in \<open>auto intro!: only_calls_bind\<close>)
    fix x
    show "case x of Fails e' \<Rightarrow> E (after_call (n, Some g) (Fetch srv e p (Some b)) x) e'
        | _ \<Rightarrow> (case read_status x of Some r \<Rightarrow> effects.wp (bind assertCurrent (\<lambda>_.
             if \<not> (200 \<le> r \<and> r \<le> 299)
             then Throw (provisionFailure (service_name srv @ ''_http_'' @ show_int r) False)
             else bind (ask ReadJson read_json) (\<lambda>v. bind assertCurrent (\<lambda>_. Return v)))) Q E
               (after_call (n, Some g) (Fetch srv e p (Some b)) x)
           | None \<Rightarrow> E (after_call (n, Some g) (Fetch srv e p (Some b)) x) OtherFailure)"
      unfolding a using k assms(3) by (cases x) simp_all
  qed
  then have "effects.wp (bind (ask (Fetch srv e p (Some b)) read_status) (\<lambda>status. bind assertCurrent (\<lambda>_.
       if \<not> (200 \<le> status \<and> status \<le> 299)
       then Throw (provisionFailure (service_name srv @ ''_http_'' @ show_int status) False)
       else bind (ask ReadJson read_json) (\<lambda>v. bind assertCurrent (\<lambda>_. Return v))))) Q E (n, Some g)" for e
    by (simp only: effects.wp_bind [of "ask (Fetch srv e p (Some b)) read_status"])
  then have "effects.wp (bind (lift (enterpriseOf env row)) (\<lambda>e. bind (ask (Fetch srv (ep_id e) p (Some b)) read_status) (\<lambda>status.
       bind assertCurrent (\<lambda>_. if \<not> (200 \<le> status \<and> status \<le> 299)
       then Throw (provisionFailure (service_name srv @ ''_http_'' @ show_int status) False)
       else bind (ask ReadJson read_json) (\<lambda>v. bind assertCurrent (\<lambda>_. Return v)))))) Q E (n, Some g)"
    by (rule wp_bind_lift) (rule assms(4))
  then show ?thesis unfolding request_def by (rule wp_bind_quiet [rotated]) (simp_all add: assms(4))
qed

lemma wp_checkpoint:
  assumes "patch_stage patch = Some st" "n < stage_rank st \<or> stage_rank st = 6"
    and "\<And>r. Q (stage_rank st, Some st) r" "\<And>e. E (n, None) e"
  shows "effects.wp (checkpoint patch) Q E (n, x)"
  using assms unfolding checkpoint_def wp_ask
  by (auto simp: may_call_def after_call_def split: answer.split option.split)

lemma wp_claim:
  assumes "\<And>r. Q (6, Some ''oauth-dispatch'') (Some r)" "Q (n, None) None" "\<And>e. E (n, None) e"
  shows "effects.wp (ask (ClaimLoginDispatch k) read_row) Q E (n, x)"
  using assms unfolding wp_ask
  by (auto simp: may_call_def after_call_def stage_rank_def split: answer.split option.split)

lemma wp_then_throw: "effects.wp (bind (ask ThrowIfAborted f) (\<lambda>_. Throw e)) Q (\<lambda>s e. True) s = True"
  by (simp add: effects.wp_bind wp_ask may_call_def split: answer.split option.split)

section \<open>Every step keeps to the monitor\<close>

definition keeps_stage :: "nat \<times> string option \<Rightarrow> patch_entry list \<Rightarrow> bool" where
  "keeps_stage s patch \<longleftrightarrow> (case patch_stage patch of None \<Rightarrow> True | Some st \<Rightarrow> fst s < stage_rank st \<or> stage_rank st = 6)"

abbreviation any_failure :: "nat \<times> string option \<Rightarrow> failure \<Rightarrow> bool" where
  "any_failure \<equiv> \<lambda>s e. True"

lemma wp_create_user: "effects.wp (create_user env row) keeps_stage any_failure (Suc 0, Some ''sso-creating'')"
  unfolding create_user_def effects.wp_catching wp_then_throw
  by (rule wp_bind_lift; (rule TrueI)?; simp only: effects.wp_bind; rule wp_request)
     (simp_all add: effects.wp_lift keeps_stage_def split: sum.split)

lemma wp_check_name_free:
  "Q s () \<Longrightarrow> (\<And>e. E s e) \<Longrightarrow> effects.wp (check_name_free env row) Q E s"
  unfolding check_name_free_def effects.wp_catching
  by (rule wp_bind_quiet [OF only_request]) (auto simp: provisionFailure_def split: failure.split)

lemma wp_step_new: "effects.wp (step_new env row) keeps_stage any_failure (0, None)"
  unfolding step_new_def effects.wp_bind
proof (rule wp_check_name_free)
  show "effects.wp (checkpoint [PStage ''sso-creating'', PSsoCreatedAt None])
      (\<lambda>s r. effects.wp (create_user env r) keeps_stage any_failure s) any_failure (0, None)"
    by (rule wp_checkpoint [where st = "''sso-creating''"]) (simp_all add: wp_create_user)
qed simp

lemma wp_step_scim:
  assumes "stage row = ''sso-created'' \<or> stage row = ''scim-syncing''"
  shows "effects.wp (step_scim env row) keeps_stage any_failure (stage_rank (stage row), None)"
  unfolding step_scim_def
proof (rule wp_bind_quiet [OF only_knownUser])
  fix existing
  have "effects.wp (bind (checkpoint [PStage ''scim-syncing'']) (\<lambda>row.
       bind (request env row Sso UsersBatch (Some (JObj [(''operation'', JStr ''sync_emu''),
          (''ssoUsers'', JArr [JStr (identity row)]), (''assignCopilotSeat'', JBool False), (''createOnly'', JBool True)]))) (\<lambda>result.
       bind (lift (batch_user env row result)) (\<lambda>user.
       bind (require (emu_ready user) (provisionFailure ''scim_sync_unconfirmed'' False)) (\<lambda>_.
       Return [PStage ''scim-synced'']))))) keeps_stage any_failure (2, None)"
    unfolding effects.wp_bind
  proof (rule wp_checkpoint [where st = "''scim-syncing''"], goal_cases)
    case (3 r)
    show ?case unfolding stage_ranks
      by (rule wp_request) (simp_all add: effects.wp_lift effects.wp_require keeps_stage_def split: sum.split)
  qed simp_all
  then show "effects.wp (if emu_ready existing then Return [PStage ''scim-synced'']
     else if stage row = ''scim-syncing'' then Throw (provisionFailure ''scim_sync_unconfirmed'' False)
     else bind (checkpoint [PStage ''scim-syncing'']) (\<lambda>row.
       bind (request env row Sso UsersBatch (Some (JObj [(''operation'', JStr ''sync_emu''),
          (''ssoUsers'', JArr [JStr (identity row)]), (''assignCopilotSeat'', JBool False), (''createOnly'', JBool True)]))) (\<lambda>result.
       bind (lift (batch_user env row result)) (\<lambda>user.
       bind (require (emu_ready user) (provisionFailure ''scim_sync_unconfirmed'' False)) (\<lambda>_.
       Return [PStage ''scim-synced'']))))) keeps_stage any_failure (stage_rank (stage row), None)"
    using assms by (auto simp: keeps_stage_def)
qed simp_all

lemma wp_link_account: "effects.wp (link_account row user) keeps_stage E s" if "\<And>e. E s e"
  unfolding link_account_def
  by (intro wp_bind_quiet only_checkEntitlement only_accountFor only_assertCurrent only_mutate that)
     (simp_all add: keeps_stage_def)

lemma wp_step_seat:
  assumes "stage row = ''scim-synced'' \<or> stage row = ''seat-assigning''"
  shows "effects.wp (step_seat env row) keeps_stage any_failure (stage_rank (stage row), None)"
proof -
  have assign: "effects.wp (bind (checkpoint [PStage ''seat-assigning'']) (\<lambda>row.
       bind (request env row Sso (CopilotSeat (identity row)) (Some (JObj []))) (\<lambda>v.
       bind (lift (checkUser env row v False)) (\<lambda>user. link_account row user)))) keeps_stage any_failure (4, None)"
    unfolding effects.wp_bind
  proof (rule wp_checkpoint [where st = "''seat-assigning''"], goal_cases)
    case (3 r)
    show ?case unfolding stage_ranks
      by (rule wp_request) (simp_all add: effects.wp_lift wp_link_account split: sum.split)
  qed simp_all
  show ?thesis unfolding step_seat_def
    by (intro wp_bind_quiet only_knownUser only_calls_simps) (use assign assms in \<open>auto intro: wp_link_account\<close>)
qed

lemma wp_step_synced: "effects.wp (step_synced env row) keeps_stage any_failure s"
  unfolding step_synced_def
  by (intro wp_bind_quiet only_knownUser only_checkEntitlement only_accountFor only_calls_ask) (simp_all add: keeps_stage_def)

lemma wp_submit_login: "effects.wp (submit_login env row user password) keeps_stage any_failure (n, Some ''oauth-dispatch'')"
  unfolding submit_login_def effects.wp_bind
  by (rule wp_request) (simp_all add: effects.wp_lift keeps_stage_def split: sum.split)

lemma wp_step_oauth_starting: "effects.wp (step_oauth_starting env row) keeps_stage any_failure (n, None)"
proof -
  have claim: "effects.wp (bind (ask (ClaimLoginDispatch k) read_row) (\<lambda>admitted.
     case admitted of None \<Rightarrow> Return [] | Some row \<Rightarrow> submit_login env row user v)) keeps_stage any_failure (n, None)" for k user v
    unfolding effects.wp_bind by (rule wp_claim) (simp_all add: wp_submit_login keeps_stage_def)
  show ?thesis unfolding step_oauth_starting_def
    by (rule claim wp_bind_quiet only_knownUser only_checkEntitlement only_accountFor only_calls_simps only_request quiet_calls
          TrueI | simp add: only_mutate only_calls_bind)+
qed


lemma wp_task_result: "effects.wp (task_result env row user task createdAt now) keeps_stage any_failure (n, x)"
proof -
  have "effects.wp (bind (checkpoint [PStage ''synced'', PTaskId None, POauthAttemptId None])
      (\<lambda>_. Throw (provisionFailure ''oauth_login_failed'' False))) keeps_stage any_failure (n, x)"
    unfolding effects.wp_bind by (rule wp_checkpoint [where st = "''synced''"]) simp_all
  moreover have "effects.wp (bind (accountFor row (Some user)) (\<lambda>a.
             if a_status a \<noteq> ''valid'' \<or> \<not> truthy_id (a_token a) \<or> truthy_id (a_attempt_id a)
             then Throw (provisionFailure ''oauth_callback_unconfirmed'' False)
             else Return [PStage ''warmup''])) keeps_stage any_failure (n, x)"
    by (rule wp_bind_quiet [OF only_accountFor]) (simp_all add: keeps_stage_def)
  ultimately show ?thesis by (simp add: task_result_def Let_def keeps_stage_def)
qed

lemma wp_step_oauth_wait: "effects.wp (step_oauth_wait env row) keeps_stage any_failure (n, x)"
  unfolding step_oauth_wait_def
  by (rule wp_bind_quiet only_knownUser only_checkEntitlement only_taskOf only_calls_simps only_calls_ask quiet_calls wp_task_result
        TrueI | simp split: option.split | intro conjI allI impI)+

lemma wp_drop_credential: "effects.wp (drop_credential token f) Q any_failure (n, x)"
  unfolding drop_credential_def back_to_synced_def effects.wp_bind
proof (rule wp_checkpoint [where st = "''synced''"])
  fix r
  show "effects.wp (mutate (Invalidate token)) (\<lambda>s r. effects.wp (Throw f) Q any_failure s) any_failure (stage_rank ''synced'', Some ''synced'')"
    by (rule wp_quiet [OF only_mutate]) simp_all
qed simp_all

lemma wp_resolve_warmup:
  "(\<And>p. Q (n, x) p) \<Longrightarrow> effects.wp (resolve_warmup token ps) Q any_failure (n, x)"
proof (induction ps)
  case (Cons p ps)
  show ?case unfolding resolve_warmup.simps effects.wp_bind effects.wp_catching
    by (rule wp_quiet) (use Cons in \<open>auto simp: wp_drop_credential split: failure.split\<close>)
qed simp

lemma wp_step_warmup: "effects.wp (step_warmup env row) keeps_stage any_failure (n, x)"
proof -
  have undone: "effects.wp (bind back_to_synced (\<lambda>_. Throw f)) keeps_stage any_failure (n, x)" for f
    unfolding back_to_synced_def effects.wp_bind by (rule wp_checkpoint [where st = "''synced''"]) simp_all
  have resolved: "effects.wp (bind (resolve_warmup t ps) f) keeps_stage any_failure (n, x)"
    if "\<And>p. effects.wp (f p) keeps_stage any_failure (n, x)" for t ps f
    unfolding effects.wp_bind by (rule wp_resolve_warmup) (rule that)
  have confirm: "effects.wp (confirm_warmup row user account p) keeps_stage any_failure (n, x)" for user account p
    unfolding confirm_warmup_def
    by (intro wp_bind_quiet only_calls_simps only_calls_ask only_accountFor only_assertCurrent quiet_calls TrueI)
       (simp_all add: keeps_stage_def)
  have send: "effects.wp (send_warmup row user account p) keeps_stage any_failure (n, x)" for user account p
    unfolding send_warmup_def Let_def
    by (intro wp_bind_quiet only_calls_ask only_assertCurrent quiet_calls TrueI) (simp add: confirm wp_drop_credential)
  have rest: "effects.wp (bind (lift (enterpriseOf env row)) (\<lambda>_. bind (resolve_warmup t ps) (send_warmup row user account)))
      keeps_stage any_failure (n, x)" for t ps user account
    by (intro wp_bind_quiet [OF only_calls_simps(1)] resolved send TrueI)
  show ?thesis unfolding step_warmup_def
    by (rule wp_bind_quiet [OF only_knownUser] wp_bind_quiet [OF only_checkEntitlement] wp_bind_quiet [OF only_calls_ask]
          wp_bind_quiet [OF only_accountFor] quiet_calls TrueI | simp add: undone rest del: resolve_warmup.simps)+
qed

theorem step_provision_monitored:
  "effects.wp (step_provision env row) keeps_stage any_failure (stage_rank (stage row), None)"
  unfolding step_provision_def
proof (rule wp_bind_quiet [OF only_assertCurrent])
  show "effects.wp (if stage row = ''new'' then step_new env row
       else if stage row = ''sso-creating'' then Throw (provisionFailure ''sso_creation_ambiguous'' True)
       else if stage row = ''sso-created'' \<or> stage row = ''scim-syncing'' then step_scim env row
       else if stage row = ''scim-synced'' \<or> stage row = ''seat-assigning'' then step_seat env row
       else if stage row = ''synced'' then step_synced env row
       else if stage row = ''oauth-starting'' then step_oauth_starting env row
       else if stage row = ''oauth-dispatch'' \<or> stage row = ''oauth-wait'' then step_oauth_wait env row
       else if stage row = ''warmup'' \<or> stage row = ''ready'' then step_warmup env row
       else Throw (provisionFailure ''unknown_provision_stage'' True)) keeps_stage any_failure (stage_rank (stage row), None)"
    using wp_step_new wp_step_scim [of row] wp_step_seat [of row]
    by (simp add: wp_step_synced wp_step_oauth_starting wp_step_oauth_wait wp_step_warmup)
qed simp_all


section \<open>What an execution records and sends\<close>

type_synonym calls = "(call \<times> answer option) list"

text \<open>A guarded request directly uses up the record of its stage by the same step.\<close>

fun posts_guarded :: "string option \<Rightarrow> calls \<Rightarrow> bool" where
  "posts_guarded r [] = True"
| "posts_guarded r ((c, a) # tr) \<longleftrightarrow>
     (case guard_stage c of None \<Rightarrow> True | Some g \<Rightarrow> r = Some g) \<and>
     posts_guarded
       (case call_stage c of
          Some st \<Rightarrow> if (case a of None \<Rightarrow> False | Some x \<Rightarrow> confirmed x) then Some st else None
        | None \<Rightarrow> if guard_stage c = None then r else None) tr"

definition sent :: "string \<Rightarrow> calls \<Rightarrow> nat" where
  "sent g tr = length (filter (\<lambda>t. guard_stage (fst t) = Some g) tr)"

text \<open>
  The stages that may be recorded after an execution: a write that was confirmed is, one that was not may be.
\<close>

fun recorded :: "string set \<Rightarrow> calls \<Rightarrow> string set" where
  "recorded S [] = S"
| "recorded S ((c, a) # tr) = recorded
     (case call_stage c of
        None \<Rightarrow> S
      | Some st \<Rightarrow> if (case a of None \<Rightarrow> False | Some x \<Rightarrow> confirmed x) then {st} else insert st S) tr"

definition stages_after :: "string \<Rightarrow> calls \<Rightarrow> (failure, patch_entry list) outcome \<Rightarrow> string set" where
  "stages_after st tr out = recorded {st} tr \<union>
     (case out of Returned patch \<Rightarrow> set_option (patch_stage patch) | _ \<Rightarrow> {})"

text \<open>
  The life of a member: its step is executed again and again, each time until it ends or its process dies;
  the other operations of the pool only move it among the stages after the SSO account is complete.
\<close>

inductive lifetime :: "ProvisionEnv \<Rightarrow> string \<Rightarrow> calls \<Rightarrow> string \<Rightarrow> bool" for env :: ProvisionEnv where
  begins: "lifetime env st [] st"
| executes: "lifetime env st0 cs (stage row) \<Longrightarrow> play as (step_provision env row) = (tr, out) \<Longrightarrow>
    st' \<in> stages_after (stage row) tr out \<Longrightarrow> lifetime env st0 (cs @ tr) st'"
| elsewhere: "lifetime env st0 cs st \<Longrightarrow> stage_rank st' = 6 \<Longrightarrow> lifetime env st0 cs st'"

lemma stage_rank_le [simp]: "stage_rank st \<le> 6"
  by (simp add: stage_rank_def)

lemma guard_excludes_stage: "guard_stage c = Some g \<Longrightarrow> call_stage c = None"
  by (cases c) (auto split: option.splits elim: guard_stage.elims)

lemma watched_guarded: "effects.watched (n, r) tr \<Longrightarrow> posts_guarded r tr"
proof (induction tr arbitrary: n r)
  case (Cons t tr)
  obtain c a where t: "t = (c, a)" by (cases t)
  show ?case
  proof (cases a)
    case None
    then have "tr = []" "may_call (n, r) c" using Cons.prems t by simp_all
    then show ?thesis using t None by (auto simp: may_call_def split: option.splits)
  next
    case (Some x)
    let ?s = "after_call (n, r) c x"
    have w: "effects.watched ?s tr" and c: "may_call (n, r) c" using Cons.prems t Some by simp_all
    have IH: "posts_guarded (snd ?s) tr" using Cons.IH [of "fst ?s" "snd ?s"] w by simp
    have "snd ?s = (case call_stage c of Some st \<Rightarrow> if confirmed x then Some st else None | None \<Rightarrow> if guard_stage c = None then r else None)"
      by (simp add: after_call_def split: option.split)
    then show ?thesis using IH c t Some by (auto simp: may_call_def split: option.splits if_splits)
  qed
qed simp

definition mark_ok :: "nat \<Rightarrow> string option \<Rightarrow> bool" where
  "mark_ok n r \<longleftrightarrow> n \<le> 6 \<and> (case r of None \<Rightarrow> True | Some g \<Rightarrow> n = stage_rank g)"

text \<open>How often a request guarded by \<open>g\<close> can still be sent from a state of the monitor.\<close>

definition budget :: "string \<Rightarrow> nat \<Rightarrow> string option \<Rightarrow> nat" where
  "budget g n r = (if n < stage_rank g \<or> r = Some g then 1 else 0)"

lemma watched_counts:
  assumes "effects.watched (n, r) tr" "mark_ok n r" "stage_rank g < 6" "\<forall>st\<in>S. n \<le> stage_rank st"
  shows "sent g tr \<le> budget g n r \<and> n \<le> fst (effects.final_state (n, r) tr) \<and> (\<forall>st\<in>recorded S tr. n \<le> stage_rank st) \<and>
    (0 < sent g tr \<longrightarrow> stage_rank g \<le> fst (effects.final_state (n, r) tr) \<and> (\<forall>st\<in>recorded S tr. stage_rank g \<le> stage_rank st))"
  using assms(1,2,4)
proof (induction tr arbitrary: n r S)
  case Nil
  then show ?case by (simp add: sent_def)
next
  case (Cons t tr)
  obtain c a where t: "t = (c, a)" by (cases t)
  have c: "may_call (n, r) c" using Cons.prems(1) t by (cases a) simp_all
  show ?case
  proof (cases a)
    case None
    then have "tr = []" using Cons.prems(1) t by simp
    then show ?thesis using Cons.prems c t None guard_excludes_stage [of c g]
      by (auto simp: sent_def budget_def may_call_def mark_ok_def split: option.splits)
  next
    case (Some x)
    let ?s = "after_call (n, r) c x" let ?S = "case call_stage c of None \<Rightarrow> S | Some st \<Rightarrow> if confirmed x then {st} else insert st S"
    have w: "effects.watched ?s tr" and f: "effects.final_state (n, r) (t # tr) = effects.final_state ?s tr"
      and rec: "recorded S (t # tr) = recorded ?S tr"
      and sent: "sent g (t # tr) = (if guard_stage c = Some g then 1 else 0) + sent g tr"
      using Cons.prems(1) t Some by (simp_all add: sent_def split: option.split)
    have s: "mark_ok (fst ?s) (snd ?s)" "n \<le> fst ?s" "\<forall>st\<in>?S. fst ?s \<le> stage_rank st"
      using c Cons.prems(2,3)
      by (auto simp: after_call_def may_call_def mark_ok_def split: option.splits if_splits intro: le_trans)
    have b: "(if guard_stage c = Some g then 1 else 0) + budget g (fst ?s) (snd ?s) \<le> budget g n r"
      using c Cons.prems(2) assms(3) guard_excludes_stage [of c g]
      by (auto simp: budget_def after_call_def may_call_def mark_ok_def split: option.splits if_splits)
    have g: "guard_stage c = Some g \<Longrightarrow> stage_rank g \<le> fst ?s"
      using c Cons.prems(2) guard_excludes_stage [of c g] by (auto simp: after_call_def may_call_def mark_ok_def)
    have IH: "sent g tr \<le> budget g (fst ?s) (snd ?s)" "fst ?s \<le> fst (effects.final_state ?s tr)"
      "\<forall>st\<in>recorded ?S tr. fst ?s \<le> stage_rank st"
      "0 < sent g tr \<longrightarrow> stage_rank g \<le> fst (effects.final_state ?s tr) \<and> (\<forall>st\<in>recorded ?S tr. stage_rank g \<le> stage_rank st)"
      using Cons.IH [of "fst ?s" "snd ?s" ?S] w s by simp_all
    have "sent g (t # tr) \<le> budget g n r" using sent IH(1) b by simp
    moreover have "n \<le> fst (effects.final_state (n, r) (t # tr))" using f IH(2) s(2) by simp
    moreover have "\<forall>st\<in>recorded S (t # tr). n \<le> stage_rank st" using rec IH(3) s(2) by force
    moreover have "stage_rank g \<le> fst (effects.final_state (n, r) (t # tr)) \<and> (\<forall>st\<in>recorded S (t # tr). stage_rank g \<le> stage_rank st)"
      if "0 < sent g (t # tr)"
    proof (cases "guard_stage c = Some g")
      case True
      then show ?thesis using g IH(2,3) f rec by force
    next
      case False
      then show ?thesis using that sent IH(4) f rec by simp
    qed
    ultimately show ?thesis by blast
  qed
qed


section \<open>Requests are recorded first and sent once\<close>

text \<open>
  In every execution of a provisioning step, whatever the services answer and wherever the process dies, a
  request that creates the SSO user, synchronises it, assigns its seat or submits a login task is sent only
  right after the same step has recorded the stage that guards it (by a confirmed checkpoint, or for the
  login task a confirmed claim of a dispatch slot), and one record allows one request.
\<close>

theorem provision_posts_guarded:
  assumes "play answers (step_provision env row) = (tr, out)"
  shows "posts_guarded None tr"
  using effects.wp_play [OF step_provision_monitored assms] watched_guarded by blast

lemma step_counts:
  assumes "play answers (step_provision env row) = (tr, out)" "stage_rank g < 6"
  shows "sent g tr \<le> (if stage_rank (stage row) < stage_rank g then 1 else 0)"
    and "\<forall>st\<in>stages_after (stage row) tr out. stage_rank (stage row) \<le> stage_rank st"
    and "0 < sent g tr \<Longrightarrow> \<forall>st\<in>stages_after (stage row) tr out. stage_rank g \<le> stage_rank st"
proof -
  let ?n = "stage_rank (stage row)" let ?f = "fst (effects.final_state (?n, None) tr)"
  have w: "effects.watched (?n, None) tr"
    and p: "out = Returned patch \<Longrightarrow> keeps_stage (effects.final_state (?n, None) tr) patch" for patch
    using effects.wp_play [OF step_provision_monitored assms(1)] by blast+
  have c: "sent g tr \<le> budget g ?n None \<and> ?n \<le> ?f \<and> (\<forall>st\<in>recorded {stage row} tr. ?n \<le> stage_rank st) \<and>
      (0 < sent g tr \<longrightarrow> stage_rank g \<le> ?f \<and> (\<forall>st\<in>recorded {stage row} tr. stage_rank g \<le> stage_rank st))"
    by (rule watched_counts [OF w _ assms(2)]) (simp_all add: mark_ok_def)
  then show "sent g tr \<le> (if ?n < stage_rank g then 1 else 0)" by (simp add: budget_def)
  have patch: "m \<le> stage_rank st" if "st \<in> stages_after (stage row) tr out" "st \<notin> recorded {stage row} tr" "m \<le> ?f" "m \<le> 6" for st m
    using that p by (auto simp: stages_after_def keeps_stage_def split: outcome.splits)
  show "\<forall>st\<in>stages_after (stage row) tr out. ?n \<le> stage_rank st"
  proof
    fix st assume "st \<in> stages_after (stage row) tr out"
    then show "?n \<le> stage_rank st" using c patch [of st ?n] by (cases "st \<in> recorded {stage row} tr") simp_all
  qed
  show "\<forall>st\<in>stages_after (stage row) tr out. stage_rank g \<le> stage_rank st" if "0 < sent g tr"
  proof
    fix st assume "st \<in> stages_after (stage row) tr out"
    then show "stage_rank g \<le> stage_rank st" using that c patch [of st "stage_rank g"]
      by (cases "st \<in> recorded {stage row} tr") simp_all
  qed
qed

lemma lifetime_counts:
  assumes "lifetime env st0 cs st" "stage_rank g < 6"
  shows "sent g cs \<le> (if stage_rank g \<le> stage_rank st then 1 else 0)"
  using assms(1)
proof (induction rule: lifetime.induct)
  case (begins st)
  then show ?case by (simp add: sent_def)
next
  case (executes st0 cs row as tr out st')
  note s = step_counts [OF executes(2) assms(2)]
  have sum: "sent g (cs @ tr) = sent g cs + sent g tr" by (simp add: sent_def)
  have "stage_rank (stage row) \<le> stage_rank st'" using s(2) executes(3) by blast
  moreover have "0 < sent g tr \<Longrightarrow> stage_rank g \<le> stage_rank st'" using s(3) executes(3) by blast
  ultimately show ?case using sum s(1) executes.IH by (auto split: if_splits)
next
  case (elsewhere st0 cs st st')
  have "stage_rank g \<le> stage_rank st'" using assms(2) elsewhere.hyps by simp
  then show ?case using elsewhere.IH by (auto split: if_splits)
qed

text \<open>
  C4. Over the whole life of a pool member (its step executed any number of times, against any answers, with the
  process dying at any call) the request that creates the SSO user is sent at most once, and so are the
  request that synchronises the user with GitHub and the request that assigns its seat. A request whose
  answer was lost is never replayed.
\<close>

theorem sso_requests_sent_once:
  assumes "lifetime env st0 cs st"
  shows "sent ''sso-creating'' cs \<le> 1 \<and> sent ''scim-syncing'' cs \<le> 1 \<and> sent ''seat-assigning'' cs \<le> 1"
proof -
  have "sent g cs \<le> 1" if "stage_rank g < 6" for g
    using lifetime_counts [OF assms that] by (auto split: if_splits)
  then show ?thesis by simp
qed

text \<open>A process that dies after sending the creation, and the step that finds the stage.\<close>

definition example_env :: ProvisionEnv where
  "example_env = \<lparr>findEnterprise = (\<lambda>i. Some \<lparr>ep_id = i, ep_accountDomain = Some ''example.com'', ep_ssoProvider = None\<rparr>),
     parseDate = (\<lambda>v. case v of JStr s \<Rightarrow> Some 0 | _ \<Rightarrow> None), loginMaxPending = 5\<rparr>"

definition example_row :: "string \<Rightarrow> Inventory" where
  "example_row st = \<lparr>identity = ''ada00'', enterprise_id = ''default'', ordinal = 0, state = Provisioning, stage = st,
     attempt_id = ''a'', oauth_attempt_id = Some ''o'', sso_created_at = None, task_id = None, attempts = 0, retry_at = 0,
     last_error = None, updated_at = 0, cooldown_until = 0, verified_at = None, generation = 0, reauth_count = 0,
     reauth_window_at = 0\<rparr>"

definition example_death :: "answer list" where
  "example_death = [Done, Done, Status 404, Done, RowIs (Some (example_row ''sso-creating'')), Done]"

definition example_calls :: calls where
  "example_calls = fst (play example_death (step_provision example_env (example_row ''new''))) @
     fst (play [Done] (step_provision example_env (example_row ''sso-creating'')))"

lemma example_lifetime: "lifetime example_env ''new'' example_calls ''sso-creating''"
proof -
  have a: "''sso-creating'' \<in> stages_after (stage (example_row ''new''))
      (fst (play example_death (step_provision example_env (example_row ''new''))))
      (snd (play example_death (step_provision example_env (example_row ''new''))))"
    "''sso-creating'' \<in> stages_after (stage (example_row ''sso-creating''))
      (fst (play [Done] (step_provision example_env (example_row ''sso-creating''))))
      (snd (play [Done] (step_provision example_env (example_row ''sso-creating''))))" by code_simp+
  have s: "stage (example_row st) = st" for st by (simp add: example_row_def)
  have 1: "lifetime example_env ''new'' ([] @ fst (play example_death (step_provision example_env (example_row ''new'')))) ''sso-creating''"
    by (rule executes [OF _ prod.collapse [symmetric] a(1)]) (simp add: s begins)
  have "lifetime example_env ''new'' (([] @ fst (play example_death (step_provision example_env (example_row ''new'')))) @
      fst (play [Done] (step_provision example_env (example_row ''sso-creating'')))) ''sso-creating''"
    by (rule executes [OF _ prod.collapse [symmetric] a(2)]) (use 1 in \<open>simp add: s\<close>)
  then show ?thesis by (simp add: example_calls_def)
qed

theorem sso_requests_sent_once_witness:
  "lifetime example_env ''new'' example_calls ''sso-creating'' \<and> sent ''sso-creating'' example_calls = 1 \<and>
   sent ''scim-syncing'' example_calls \<le> 1"
proof -
  have "sent ''sso-creating'' example_calls = 1" by code_simp
  then show ?thesis using sso_requests_sent_once [OF example_lifetime] example_lifetime by simp
qed

theorem provision_posts_guarded_witness:
  "posts_guarded None (fst (play example_death (step_provision example_env (example_row ''new'')))) \<and>
   sent ''sso-creating'' (fst (play example_death (step_provision example_env (example_row ''new'')))) = 1"
proof -
  have "sent ''sso-creating'' (fst (play example_death (step_provision example_env (example_row ''new'')))) = 1" by code_simp
  then show ?thesis using provision_posts_guarded [OF prod.collapse [symmetric]] by simp
qed


section \<open>A step ends\<close>

lemma calls_bind:
  "calls_at_most p m \<Longrightarrow> (\<And>r. calls_at_most (f r) k) \<Longrightarrow> n = m + k \<Longrightarrow> calls_at_most (bind p f) n"
  by (simp add: calls_at_most_bind)

lemma calls_bind_free: "(\<And>r. calls_at_most (f r) n) \<Longrightarrow> calls_at_most (bind (lift x) f) n"
  "(\<And>r. calls_at_most (g r) n) \<Longrightarrow> calls_at_most (bind (require b e) g) n"
  using calls_bind [of "lift x" 0 f n n] calls_bind [of "require b e" 0 g n n] by simp_all

lemma calls_ask [simp]: "0 < n \<Longrightarrow> calls_at_most (ask c f) n"
  by (auto simp: ask_def split: answer.split option.split)

lemma calls_assertCurrent [simp]: "0 < n \<Longrightarrow> calls_at_most assertCurrent n"
  by (simp add: assertCurrent_def)

lemma calls_checkpoint [simp]: "0 < n \<Longrightarrow> calls_at_most (checkpoint p) n"
  by (simp add: checkpoint_def)

text \<open>One call, then the rest.\<close>

lemma calls_next:
  "calls_at_most p 1 \<Longrightarrow> (\<And>r. calls_at_most (f r) k) \<Longrightarrow> n = Suc k \<Longrightarrow> calls_at_most (bind p f) n"
  using calls_bind [of p 1 f k n] by simp

lemma calls_request: "calls_at_most (request env row s p b) 5"
proof -
  have "calls_at_most (bind (ask ReadJson read_json) (\<lambda>v. bind assertCurrent (\<lambda>_. Return v))) 2"
    by (intro calls_next [where k = 1] calls_next [where k = 0]) simp_all
  then have "calls_at_most (if \<not> (200 \<le> status \<and> status \<le> 299)
       then Throw (provisionFailure (service_name s @ ''_http_'' @ show_int status) False)
       else bind (ask ReadJson read_json) (\<lambda>v. bind assertCurrent (\<lambda>_. Return v))) 2" for status by simp
  then show ?thesis unfolding request_def
    by (intro calls_next [where k = 4] calls_bind_free calls_next [where k = 3] calls_next [where k = 2]) simp_all
qed

lemma calls_knownUser: "calls_at_most (knownUser env row) 5"
  unfolding knownUser_def by (rule calls_bind [OF calls_request, where k = 0]) simp_all

lemma calls_accountFor: "calls_at_most (accountFor row u) 3"
  unfolding accountFor_def
  by (intro calls_next [where k = 2] calls_next [where k = 1] calls_next [where k = 0]) (simp_all split: option.split)

lemma calls_mutate: "calls_at_most (mutate m) 2"
  unfolding mutate_def by (intro calls_next [where k = 1] calls_next [where k = 0]) simp_all

lemma calls_checkEntitlement [simp]: "calls_at_most (checkEntitlement u) n"
  by (simp add: checkEntitlement_def)

lemma calls_bind_entitlement: "(\<And>r. calls_at_most (g r) n) \<Longrightarrow> calls_at_most (bind (checkEntitlement u) g) n"
  using calls_bind [of "checkEntitlement u" 0 g n n] by simp

lemma calls_findTask_from: "calls_at_most (findTask_from env row g k page found) (5 * k)"
proof (induction k arbitrary: page found)
  case (Suc k page found)
  have rest: "calls_at_most (case x of (ts, amount) \<Rightarrow> bind (lift (match_tasks env row g ts found)) (\<lambda>found.
       if of_nat page * 100 \<ge> amount then Return found else findTask_from env row g k (page + 1) found)) (5 * k)" for x
  proof (cases x)
    case (Pair ts amount)
    show ?thesis unfolding Pair prod.case by (rule calls_bind_free(1)) (simp add: Suc.IH)
  qed
  show ?case unfolding findTask_from.simps
  proof (rule calls_bind [OF calls_request, where k = "5 * k"])
    show "calls_at_most (bind (lift (task_page result)) (\<lambda>(items, total). bind (lift (match_tasks env row g items found)) (\<lambda>found.
       if of_nat page * 100 \<ge> total then Return found else findTask_from env row g k (page + 1) found))) (5 * k)" for result
      by (rule calls_bind_free(1)) (rule rest)
  qed simp
qed simp

lemma calls_taskOf: "calls_at_most (taskOf env row g) 50"
proof -
  have "calls_at_most (findTask env row g) 50"
    using calls_findTask_from [of env row g MAX_TASK_PAGES 1 None] by (simp add: findTask_def MAX_TASK_PAGES_def)
  moreover have "calls_at_most (bind (loginTask env row t) (\<lambda>v. bind (lift (checkTask env row v g)) (\<lambda>v. Return (Some v)))) 50" for t
    unfolding loginTask_def by (rule calls_bind [OF calls_request, where k = 45]) (intro calls_bind_free, simp_all)
  ultimately show ?thesis by (simp add: taskOf_def split: option.split)
qed

text \<open>A weaker bound, when the rest of a step is known.\<close>

lemma calls_up: "calls_at_most p m \<Longrightarrow> m \<le> 60 \<Longrightarrow> calls_at_most p 60"
  by (rule calls_at_most_mono)

lemma calls_step_new: "calls_at_most (step_new env row) 13"
proof -
  have free: "calls_at_most (check_name_free env row) 5"
    unfolding check_name_free_def
    by (rule calls_at_most_mono [OF calls_at_most_catching [where m = 5 and n = 0]])
       (auto intro: calls_bind [OF calls_request, where k = 0] split: failure.split)
  have create: "calls_at_most (create_user env r) 6" for r
    unfolding create_user_def
    by (rule calls_at_most_mono [OF calls_at_most_catching [where m = 5 and n = 1]])
       (intro calls_bind_free calls_bind [OF calls_request, where k = 0] calls_next [where k = 0] | simp)+
  show ?thesis unfolding step_new_def
    by (rule calls_bind [OF free, where k = 8]) (intro calls_bind [where m = 1 and k = 7], auto intro: calls_at_most_mono [OF create])
qed


lemma calls_step_scim: "calls_at_most (step_scim env row) 11"
  unfolding step_scim_def
  by (rule calls_bind [OF calls_knownUser, where k = 6])
     (auto intro!: calls_next [where k = 5] calls_bind [OF calls_request, where k = 0] calls_bind_free)

lemma calls_link_account: "calls_at_most (link_account row user) 7"
  unfolding link_account_def
  by (rule calls_bind_entitlement, rule calls_bind [OF calls_accountFor, where k = 4], rule calls_next [where k = 3], simp,
      rule calls_bind [OF calls_mutate, where k = 1], rule calls_next [where k = 0], simp_all)

lemma calls_step_seat: "calls_at_most (step_seat env row) 18"
proof -
  have "calls_at_most (bind (checkpoint [PStage ''seat-assigning'']) (\<lambda>row.
       bind (request env row Sso (CopilotSeat (identity row)) (Some (JObj []))) (\<lambda>v.
       bind (lift (checkUser env row v False)) (\<lambda>user. link_account row user)))) 13"
    by (auto intro!: calls_next [where k = 12] calls_bind [OF calls_request, where k = 7] calls_bind_free calls_link_account)
  then show ?thesis unfolding step_seat_def
    by (intro calls_bind [OF calls_knownUser, where k = 13] calls_bind_free)
       (auto intro: calls_at_most_mono [OF calls_link_account])
qed

lemma calls_step_synced: "calls_at_most (step_synced env row) 9"
  unfolding step_synced_def
  by (rule calls_bind [OF calls_knownUser, where k = 4])
     (auto intro!: calls_bind_entitlement calls_bind [OF calls_accountFor, where k = 1] calls_next [where k = 0])

lemma calls_submit_login: "calls_at_most (submit_login env row user v) 5"
  unfolding submit_login_def by (rule calls_bind [OF calls_request, where k = 0]) (auto intro!: calls_bind_free)

lemma calls_step_oauth_starting: "calls_at_most (step_oauth_starting env row) 21"
proof -
  have beginning: "calls_at_most (if b then bind (mutate m) (\<lambda>_. Return ()) else Return ()) 2" for b m
    using calls_bind [OF calls_mutate [of m], where k = 0 and n = 2 and f = "\<lambda>_. Return ()"] by simp
  have claim: "calls_at_most (bind (ask (ClaimLoginDispatch k) read_row) (\<lambda>admitted.
     case admitted of None \<Rightarrow> Return [] | Some row \<Rightarrow> submit_login env row user v)) 6" for k user v
    by (rule calls_next [where k = 5]) (simp_all add: calls_submit_login split: option.split)
  show ?thesis unfolding step_oauth_starting_def
    by (intro calls_bind_free(2)) (rule calls_bind [OF calls_knownUser, where k = 16],
        rule calls_bind_entitlement, rule calls_bind [OF calls_accountFor, where k = 13], rule calls_bind_free(1),
        rule calls_bind [OF calls_request, where k = 8], intro calls_bind_free, rule calls_bind [OF beginning claim], simp_all)
qed

lemma calls_step_oauth_wait: "calls_at_most (step_oauth_wait env row) 59"
proof -
  have "calls_at_most (bind (accountFor row (Some user)) (\<lambda>a.
             if a_status a \<noteq> ''valid'' \<or> \<not> truthy_id (a_token a) \<or> truthy_id (a_attempt_id a)
             then Throw (provisionFailure ''oauth_callback_unconfirmed'' False)
             else Return [PStage ''warmup''])) 3" for user
    by (rule calls_bind [OF calls_accountFor, where k = 0]) simp_all
  moreover have "calls_at_most (bind (checkpoint [PStage ''synced'', PTaskId None, POauthAttemptId None])
      (\<lambda>_. Throw (provisionFailure ''oauth_login_failed'' False) :: patch_entry list provision)) 3"
    by (rule calls_next [where k = 2]) simp_all
  ultimately have result: "calls_at_most (task_result env row user task createdAt now) 3" for user task createdAt now
    by (simp add: task_result_def Let_def)
  have store_now: "calls_at_most (bind (ask StoreNow read_instant) (\<lambda>now.
         case parseDate env (js_get task ''createdAt'') of
           None \<Rightarrow> Throw (provisionFailure ''oauth_task_invalid'' True)
         | Some createdAt \<Rightarrow>
             if createdAt > of_int (now + 60000) then Throw (provisionFailure ''oauth_task_invalid'' True)
             else task_result env row user task createdAt now)) 4" for user task
    by (rule calls_next [where k = 3]) (simp_all add: result split: option.split)
  show ?thesis unfolding step_oauth_wait_def
    by (intro calls_bind_free(2)) (rule calls_bind [OF calls_knownUser, where k = 54],
        rule calls_bind_entitlement, rule calls_bind [OF calls_taskOf, where k = 4],
        auto split: option.split intro: store_now)
qed

lemma calls_drop_credential: "calls_at_most (drop_credential token f) 3"
  unfolding drop_credential_def back_to_synced_def
  by (rule calls_next [where k = 2]) (auto intro: calls_bind [OF calls_mutate, where k = 0])

lemma calls_resolve_warmup: "calls_at_most (resolve_warmup token ps) (4 * length ps)"
proof (induction ps)
  case (Cons p ps)
  have ask: "calls_at_most (bind (ask (ResolveModel p) read_unit) (\<lambda>_. Return (Some p))) 1"
    by (rule calls_next [where k = 0]) simp_all
  have one: "calls_at_most (catching (bind (ask (ResolveModel p) read_unit) (\<lambda>_. Return (Some p)))
       (\<lambda>f. case f of
          CopilotApiError st \<Rightarrow> if st = 401 then drop_credential token (provisionFailure ''warmup_http_401'' False) else Throw f
        | CopilotModelPathError \<Rightarrow> Return None
        | _ \<Rightarrow> Throw f)) 4"
    by (rule calls_at_most_mono [OF calls_at_most_catching [OF ask, where n = 3]])
       (auto intro: calls_drop_credential split: failure.split)
  show ?case unfolding resolve_warmup.simps
    by (rule calls_bind [OF one, where k = "4 * length ps"]) (simp_all add: Cons.IH split: option.split)
qed simp

lemma calls_step_warmup: "calls_at_most (step_warmup env row) 30"
proof -
  have confirm: "calls_at_most (confirm_warmup row user account p) 6" for user account p
    unfolding confirm_warmup_def
    by (rule calls_next [where k = 5], simp, rule calls_bind_free(2), rule calls_bind [OF calls_accountFor, where k = 2],
        rule calls_bind_free(2), rule calls_next [where k = 1], simp, rule calls_next [where k = 0], simp_all)
  have send: "calls_at_most (send_warmup row user account p) 9" for user account p
    unfolding send_warmup_def Let_def
    by (intro calls_next [where k = 8] calls_next [where k = 7] calls_next [where k = 6])
       (auto intro: confirm calls_at_most_mono [OF calls_drop_credential])
  have rest: "calls_at_most (bind (lift (enterpriseOf env row)) (\<lambda>_.
      bind (resolve_warmup t [Messages, ChatCompletions, Responses]) (send_warmup row user account))) 21" for t user account
    by (intro calls_bind_free)
       (rule calls_bind [OF calls_resolve_warmup, where k = 9], simp_all add: send del: resolve_warmup.simps)
  have undone: "calls_at_most (bind back_to_synced (\<lambda>_. Throw f)) 21" for f
    unfolding back_to_synced_def by (rule calls_next [where k = 20]) simp_all
  show ?thesis unfolding step_warmup_def
    by (rule calls_bind [OF calls_knownUser, where k = 25], rule calls_bind_entitlement, rule calls_next [where k = 24],
        simp, rule calls_bind [OF calls_accountFor, where k = 21])
       (simp_all add: rest undone del: resolve_warmup.simps)
qed


lemma calls_step_provision: "calls_at_most (step_provision env row) 60"
  unfolding step_provision_def
  by (rule calls_next [where k = 59])
     (auto intro: calls_at_most_mono [OF calls_step_new] calls_at_most_mono [OF calls_step_scim] calls_at_most_mono [OF calls_step_seat]
       calls_at_most_mono [OF calls_step_synced] calls_at_most_mono [OF calls_step_oauth_starting] calls_step_oauth_wait
       calls_at_most_mono [OF calls_step_warmup])

text \<open>
  A provisioning step ends: it makes at most 60 calls, the search for a login task included, so once 60
  calls have been answered, whatever the answers, it has returned a patch or thrown a failure.
\<close>

theorem provision_step_ends:
  assumes "play answers (step_provision env row) = (tr, out)"
  shows "length tr \<le> 60 \<and> (60 \<le> length answers \<longrightarrow> (\<exists>patch. out = Returned patch) \<or> (\<exists>f. out = Thrown f))"
  using calls_at_most_play [OF calls_step_provision assms] by (cases out) simp_all

text \<open>A search that finds nothing on ten full pages makes the most calls.\<close>

definition example_page :: "answer list" where
  "example_page = [Done, Status 200, Done, Json (JObj [(''items'', JArr []), (''total'', JNum 5000)]), Done]"

definition example_user :: js where
  "example_user = JObj [(''ssoUser'', JStr ''ada00''), (''email'', JStr ''ada00@example.com''), (''role'', JStr ''user''),
     (''createdAt'', JStr ''t''), (''emuStatus'', JStr ''active''), (''ghLogin'', JStr ''ada''), (''ghScimId'', JStr ''1''),
     (''copilotSeatStatus'', JStr ''assigned'')]"

definition example_search :: "answer list" where
  "example_search = [Done, Done, Status 200, Done, Json example_user, Done] @ concat (replicate 10 example_page)"

definition example_dispatched :: Inventory where
  "example_dispatched = (example_row ''oauth-dispatch'')\<lparr>sso_created_at := Some ''t''\<rparr>"

theorem provision_step_ends_witness:
  "length (fst (play example_search (step_provision example_env example_dispatched))) = 56 \<and>
   snd (play example_search (step_provision example_env example_dispatched)) =
     Thrown (ProvisionFailure ''oauth_task_search_limit'' True) \<and>
   length (fst (play (example_search @ replicate 4 Done) (step_provision example_env example_dispatched))) \<le> 60"
proof -
  have "length (fst (play example_search (step_provision example_env example_dispatched))) = 56"
    "snd (play example_search (step_provision example_env example_dispatched)) =
       Thrown (ProvisionFailure ''oauth_task_search_limit'' True)" by code_simp+
  then show ?thesis using provision_step_ends [OF prod.collapse [symmetric]] by simp
qed

section \<open>Reconciling only observes\<close>

fun observes :: "call \<Rightarrow> bool" where
  "observes AssertCurrent = True"
| "observes ReadJson = True"
| "observes (GetAccount i) = True"
| "observes (Fetch s e p None) = (s = Login)"
| "observes _ = False"

text \<open>
  The reconciliation of an exhausted login reservation only observes: it makes no call but fence
  checks, the read of the Proxy account and GET requests to Login, for rows that hold no exhausted reservation
  no call at all, and it answers only that the task of the reservation succeeded or failed.
\<close>

theorem reconcile_only_observes:
  assumes "play answers (reconcileLoginReservation env row) = (tr, out)"
  shows "list_all (\<lambda>t. observes (fst t)) tr \<and> (\<not> isExhaustedLoginReservation row \<longrightarrow> tr = [] \<and> out = Returned None) \<and>
    (\<forall>r. out = Returned r \<longrightarrow> r \<in> {None, Some ''success'', Some ''failed''})"
proof -
  have "only_calls observes (reconcileLoginReservation env row)"
    unfolding reconcileLoginReservation_def
    by (auto intro!: only_accountFor only_taskOf)
  then have "list_all (\<lambda>t. observes (fst t)) tr" by (rule only_calls_play [OF _ assms])
  moreover have "effects.wp (reconcileLoginReservation env row) (\<lambda>s r. r \<in> {None, Some ''success'', Some ''failed''}) any_failure (0, None)"
  proof -
    have "effects.wp (bind (taskOf env row g) (\<lambda>task. bind assertCurrent (\<lambda>_. Return (task_outcome task))))
        (\<lambda>s r. r \<in> {None, Some ''success'', Some ''failed''}) any_failure (0, None)" for g
      by (intro wp_bind_quiet only_taskOf only_assertCurrent quiet_calls TrueI)
         (simp add: task_outcome_def split: option.split)
    then show ?thesis unfolding reconcileLoginReservation_def
      by (auto intro!: wp_bind_quiet [OF only_accountFor])
  qed
  then have "\<forall>r. out = Returned r \<longrightarrow> r \<in> {None, Some ''success'', Some ''failed''}"
    using effects.wp_play [OF _ assms] by blast
  moreover have "tr = [] \<and> out = Returned None" if "\<not> isExhaustedLoginReservation row"
    using assms that by (simp add: reconcileLoginReservation_def)
  ultimately show ?thesis by blast
qed

theorem reconcile_only_observes_witness:
  "list_all (\<lambda>t. observes (fst t)) (fst (play [Done] (reconcileLoginReservation example_env (example_dispatched\<lparr>state := Disabled\<rparr>)))) \<and>
   play [] (reconcileLoginReservation example_env example_dispatched) = ([], Returned None)"
proof -
  have "\<not> isExhaustedLoginReservation example_dispatched" by code_simp
  then show ?thesis
    using reconcile_only_observes [OF prod.collapse [symmetric], of "[Done]" example_env "example_dispatched\<lparr>state := Disabled\<rparr>"]
      reconcile_only_observes [OF prod.collapse [symmetric], of "[]" example_env example_dispatched]
    by (simp add: prod_eq_iff)
qed

end
