(* ===== verification/Worker_Advance.thy ===== *)
theory Worker_Advance
  imports Worker_Effects Worker_Tenure
begin

text \<open>
  One step of the worker for one member (\<open>advance\<close> in \<^verbatim>\<open>src/proxy/src/userPool/worker.ts\<close>): the adapter's
  step runs inside the fenced context that the worker gives it. The step is a program over the calls to the
  store, to the services and to the worker itself; a call of the adapter to its context is replaced by the
  worker's code for it (\<open>handle\<close>). The two mutable locals of \<open>advance\<close>, the row it last saw and the generation
  that a warm-up pinned, are the record \<open>Pins\<close>, which survives a throw.

  A signal that is aborted ends the adapter's promise at once (\<open>untilAborted\<close>): the signal is looked at
  after every call the adapter awaits. The callbacks an aborted adapter still has only read.
\<close>

section \<open>Calls and answers\<close>

text \<open>
  \<open>CheckTenure\<close> and \<open>RenewTenure\<close> are the worker's \<open>isCurrentTenure\<close> and \<open>renewTenure\<close> on the tenure that the step
  captured, \<open>LoseTenure\<close> its \<open>loseOwnership\<close> after a failed call of the store. \<open>CheckTimeout\<close> looks at the signal
  that the adapter combines with its own timeout. A write names the member, the fence row and the owner.
\<close>

datatype step_call =
    CheckTenure
  | RenewTenure
  | LoseTenure storage_error
  | CheckSignal
  | CheckTimeout
  | ReadSettings
  | ReadInventory string
  | ReadHolds string
  | ReadNow
  | WriteUpdate string "patch_entry list" Inventory string
  | WriteCredential string Inventory string WorkerCredentialMutation
  | WriteDispatch string Inventory string int
  | WriteFail string string Inventory string bool
  | WriteEvent string string
  | WriteRelease string Inventory string string
  | Service call

datatype step_answer =
    Finished
  | Yes bool
  | Row "Inventory option"
  | At int
  | Broken storage_error
  | AbortedWith failure
  | Answers answer

text \<open>A rejection of an awaited call, or the end of the adapter's promise by the signal.\<close>

datatype thrown = Rejected failure | Aborted failure

fun reason_of :: "thrown \<Rightarrow> failure" where
  "reason_of (Rejected f) = f"
| "reason_of (Aborted f) = f"

record Pins =
  current :: Inventory
  credentialGeneration :: "int option"

record StepContext =
  sc_identity :: string
  sc_attempt :: string
  sc_tenure :: string

section \<open>Programs with mutable locals\<close>

type_synonym 'r step = "Pins \<Rightarrow> (step_call, step_answer, thrown \<times> Pins, 'r \<times> Pins) prog"

definition giving :: "'r \<Rightarrow> 'r step" where
  "giving r = (\<lambda>p. Return (r, p))"

definition throwing :: "failure \<Rightarrow> 'r step" where
  "throwing f = (\<lambda>p. Throw (Rejected f, p))"

definition andthen :: "'r step \<Rightarrow> ('r \<Rightarrow> 's step) \<Rightarrow> 's step" where
  "andthen m f = (\<lambda>p. bind (m p) (\<lambda>(r, p'). f r p'))"

definition rescue :: "'r step \<Rightarrow> (thrown \<Rightarrow> 'r step) \<Rightarrow> 'r step" where
  "rescue m h = (\<lambda>p. catching (m p) (\<lambda>(t, p'). h t p'))"

definition fenced_failure :: failure where
  "fenced_failure = provisionFailure ''provision_fenced'' False"

definition guarding :: "bool \<Rightarrow> unit step" where
  "guarding b = (if b then giving () else throwing fenced_failure)"

definition isCurrent :: "bool step" where
  "isCurrent = (\<lambda>p. Await CheckTenure (\<lambda>a. Return (a = Yes True, p)))"

definition renewing :: "bool step" where
  "renewing = (\<lambda>p. Await RenewTenure (\<lambda>a. Return (a = Yes True, p)))"

definition throwIfAborted :: "unit step" where
  "throwIfAborted = (\<lambda>p. Await CheckSignal (\<lambda>a. case a of AbortedWith f \<Rightarrow> Throw (Aborted f, p) | _ \<Rightarrow> Return ((), p)))"

definition throwIfTimedOut :: "unit step" where
  "throwIfTimedOut = (\<lambda>p. Await CheckTimeout (\<lambda>a. case a of AbortedWith f \<Rightarrow> Throw (Rejected f, p) | _ \<Rightarrow> Return ((), p)))"

text \<open>\<open>storageOperation\<close>: a call of the store that fails loses the tenure and fences the step.\<close>

definition storage :: "step_call \<Rightarrow> (step_answer \<Rightarrow> 'r option) \<Rightarrow> 'r step" where
  "storage c f = (\<lambda>p. Await c (\<lambda>a. case f a of
     Some r \<Rightarrow> Return (r, p)
   | None \<Rightarrow> Await (LoseTenure (case a of Broken e \<Rightarrow> e | _ \<Rightarrow> OtherError)) (\<lambda>_. Throw (Rejected fenced_failure, p))))"

fun yes_in :: "step_answer \<Rightarrow> bool option" where
  "yes_in (Yes b) = Some b" | "yes_in _ = None"

fun row_in :: "step_answer \<Rightarrow> Inventory option option" where
  "row_in (Row r) = Some r" | "row_in _ = None"

fun at_in :: "step_answer \<Rightarrow> int option" where
  "at_in (At t) = Some t" | "at_in _ = None"

fun finished_in :: "step_answer \<Rightarrow> unit option" where
  "finished_in Finished = Some ()" | "finished_in _ = None"

section \<open>The fenced context\<close>

text \<open>
  \<open>readCurrent\<close>: the tenure is renewed, the row read again, and everything the step relies on is compared.
\<close>

definition still_current :: "StepContext \<Rightarrow> Pins \<Rightarrow> Inventory \<Rightarrow> bool" where
  "still_current x p r \<longleftrightarrow> state r = Provisioning \<and> attempt_id r = sc_attempt x \<and> stage r = stage (current p) \<and>
     (case credentialGeneration p of None \<Rightarrow> True | Some g \<Rightarrow> generation r = g)"

definition readCurrent :: "StepContext \<Rightarrow> bool \<Rightarrow> Inventory step" where
  "readCurrent x checkSignal =
     andthen (if checkSignal then throwIfAborted else giving ()) (\<lambda>_.
     andthen renewing (\<lambda>renewed. andthen (guarding renewed) (\<lambda>_.
     andthen (storage (ReadInventory (sc_identity x)) row_in) (\<lambda>latest.
     andthen (storage (ReadHolds (sc_identity x)) yes_in) (\<lambda>held.
     andthen (if checkSignal then throwIfAborted else giving ()) (\<lambda>_.
     andthen isCurrent (\<lambda>owned p.
       case latest of
         None \<Rightarrow> throwing fenced_failure p
       | Some r \<Rightarrow> if \<not> owned \<or> \<not> still_current x p r \<or> held then throwing fenced_failure p else giving r p)))))))"

definition pin_generation :: "int \<Rightarrow> unit step" where
  "pin_generation g = (\<lambda>p. giving () (p\<lparr>credentialGeneration := Some g\<rparr>))"

definition pinCredentials :: "StepContext \<Rightarrow> unit step" where
  "pinCredentials x = andthen (readCurrent x True) (\<lambda>r. pin_generation (generation r))"

fun is_invalidate :: "WorkerCredentialMutation \<Rightarrow> bool" where
  "is_invalidate (Invalidate t) = True" | "is_invalidate _ = False"

definition mutateCredentials :: "StepContext \<Rightarrow> WorkerCredentialMutation \<Rightarrow> bool step" where
  "mutateCredentials x m =
     andthen (readCurrent x True) (\<lambda>fence.
     andthen (\<lambda>p. guarding (\<not> (is_invalidate m \<and> credentialGeneration p = None)) p) (\<lambda>_.
     andthen (storage (WriteCredential (sc_identity x) fence (sc_tenure x) m) yes_in) (\<lambda>ok.
     andthen (guarding ok) (\<lambda>_.
     andthen (\<lambda>p. giving () (if is_invalidate m then p\<lparr>credentialGeneration := map_option (\<lambda>g. g + 1) (credentialGeneration p)\<rparr> else p)) (\<lambda>_.
     andthen (readCurrent x True) (\<lambda>_. giving True))))))"

text \<open>The row that a write left behind becomes the current one.\<close>

definition adopt :: "(Pins \<Rightarrow> Inventory \<Rightarrow> bool) \<Rightarrow> Inventory option \<Rightarrow> Inventory step" where
  "adopt P saved = andthen throwIfAborted (\<lambda>_. andthen isCurrent (\<lambda>owned p.
     case saved of
       None \<Rightarrow> throwing fenced_failure p
     | Some r \<Rightarrow> if \<not> owned \<or> \<not> P p r then throwing fenced_failure p else giving r (p\<lparr>current := r\<rparr>)))"

definition claimingDispatch :: "StepContext \<Rightarrow> int \<Rightarrow> Inventory option step" where
  "claimingDispatch x limit =
     andthen (readCurrent x True) (\<lambda>fence.
     andthen (storage (WriteDispatch (sc_identity x) fence (sc_tenure x) limit) yes_in) (\<lambda>claimed.
     if \<not> claimed then andthen (readCurrent x True) (\<lambda>_. giving None)
     else andthen (storage (ReadInventory (sc_identity x)) row_in) (\<lambda>saved.
          andthen (adopt (\<lambda>p r. attempt_id r = sc_attempt x \<and> stage r = ''oauth-dispatch'' \<and> generation r = generation fence) saved)
            (\<lambda>r. giving (Some r)))))"

text \<open>Whether an entry of a patch differs from the row; a key the table does not have always does.\<close>

definition entry_differs :: "patch_entry \<Rightarrow> Inventory \<Rightarrow> bool" where
  "entry_differs e r \<longleftrightarrow> is_ignored e \<or> apply_entry e r \<noteq> r"

definition checkpointing :: "StepContext \<Rightarrow> patch_entry list \<Rightarrow> Inventory step" where
  "checkpointing x patch =
     andthen (readCurrent x True) (\<lambda>fence.
     andthen (storage (WriteUpdate (sc_identity x) patch fence (sc_tenure x)) yes_in) (\<lambda>ok.
     andthen (guarding ok) (\<lambda>_.
     andthen (storage (ReadInventory (sc_identity x)) row_in) (\<lambda>saved.
     andthen (adopt (\<lambda>p r. attempt_id r = sc_attempt x \<and>
         (case credentialGeneration p of None \<Rightarrow> True | Some g \<Rightarrow> generation r = g)) saved) (\<lambda>r.
     if list_ex (\<lambda>e. entry_differs e r) patch then throwing (provisionFailure ''provision_storage_incompatible'' True)
     else giving r)))))"

section \<open>The adapter inside the context\<close>

text \<open>The adapter's \<open>step\<close> wraps its context: its own timeout is checked before and after.\<close>

definition wrapped :: "'r step \<Rightarrow> 'r step" where
  "wrapped m = andthen throwIfTimedOut (\<lambda>_. andthen m (\<lambda>r. andthen throwIfTimedOut (\<lambda>_. giving r)))"

definition context_call :: "StepContext \<Rightarrow> call \<Rightarrow> answer step" where
  "context_call x c =
     (case c of
        AssertCurrent \<Rightarrow> wrapped (andthen (readCurrent x True) (\<lambda>_. giving Done))
      | PinCredentials \<Rightarrow> wrapped (andthen (pinCredentials x) (\<lambda>_. giving Done))
      | MutateCredentials m \<Rightarrow> wrapped (andthen (mutateCredentials x m) (\<lambda>b. giving (Accepted b)))
      | Checkpoint patch \<Rightarrow> wrapped (andthen (checkpointing x patch) (\<lambda>r. giving (RowIs (Some r))))
      | ClaimLoginDispatch n \<Rightarrow> andthen (claimingDispatch x n) (\<lambda>r. giving (RowIs r))
      | ThrowIfAborted \<Rightarrow> andthen throwIfTimedOut (\<lambda>_. giving Done)
      | _ \<Rightarrow> (\<lambda>p. Await (Service c) (\<lambda>a. Return (case a of Answers v \<Rightarrow> v | _ \<Rightarrow> Fails OtherFailure, p))))"

text \<open>What a call of the context throws is what the adapter's \<open>await\<close> throws.\<close>

definition answer_call :: "StepContext \<Rightarrow> call \<Rightarrow> answer step" where
  "answer_call x c = rescue (context_call x c)
     (\<lambda>t. case t of Rejected f \<Rightarrow> giving (Fails f) | Aborted f \<Rightarrow> (\<lambda>p. Throw (Aborted f, p)))"

primrec handle :: "(call \<Rightarrow> answer step) \<Rightarrow> 'r provision \<Rightarrow> 'r step" where
  "handle ans (Return r) = giving r"
| "handle ans (Throw f) = throwing f"
| "handle ans (Await c k) = andthen (ans c) (\<lambda>a. andthen throwIfAborted (\<lambda>_. handle ans (k a)))"

section \<open>A step of the worker\<close>

definition adopt_provisioning :: "StepContext \<Rightarrow> Inventory \<Rightarrow> bool step" where
  "adopt_provisioning x r =
     (if state r \<noteq> Provisioning \<or> attempt_id r \<noteq> sc_attempt x then giving False
      else (\<lambda>p. giving True (p\<lparr>current := r\<rparr>)))"

text \<open>A failed member is taken up again, which starts a new generation.\<close>

definition restart :: "StepContext \<Rightarrow> Inventory \<Rightarrow> bool step" where
  "restart x previous =
     andthen (storage (WriteUpdate (sc_identity x) [PState Provisioning] previous (sc_tenure x)) yes_in) (\<lambda>ok.
     if \<not> ok then giving False
     else andthen (storage (ReadInventory (sc_identity x)) row_in) (\<lambda>latest.
       case latest of
         None \<Rightarrow> giving False
       | Some r \<Rightarrow> if stage r \<noteq> stage previous \<or> generation r \<noteq> generation previous + 1 then giving False
                   else adopt_provisioning x r))"

text \<open>Whether the row that the scheduler selected may still be advanced.\<close>

definition admit_row :: "StepContext \<Rightarrow> Inventory \<Rightarrow> bool step" where
  "admit_row x r =
     andthen (storage (ReadHolds (sc_identity x)) yes_in) (\<lambda>held. if held then giving False else
     andthen isCurrent (\<lambda>owned. if \<not> owned then giving False
       else if state r = Pool_Tables.Failed then restart x r else adopt_provisioning x r))"

definition admit_latest :: "StepContext \<Rightarrow> Inventory \<Rightarrow> Inventory option \<Rightarrow> bool step" where
  "admit_latest x row latest =
     (case latest of
        None \<Rightarrow> giving False
      | Some r \<Rightarrow> if attempt_id r \<noteq> attempt_id row \<or> stage r \<noteq> stage row \<or> generation r \<noteq> generation row then giving False
                  else admit_row x r)"

definition admit :: "StepContext \<Rightarrow> Inventory \<Rightarrow> bool step" where
  "admit x row =
     andthen isCurrent (\<lambda>owned. if \<not> owned then giving False else
     andthen (storage ReadSettings yes_in) (\<lambda>is_paused. if is_paused then giving False else
     andthen (storage (ReadInventory (sc_identity x)) row_in) (admit_latest x row)))"

definition has_retry :: "patch_entry list \<Rightarrow> bool" where
  "has_retry patch \<longleftrightarrow> list_ex (\<lambda>e. case e of PRetryAt t \<Rightarrow> True | _ \<Rightarrow> False) patch"

definition with_retry :: "int \<Rightarrow> patch_entry list \<Rightarrow> patch_entry list" where
  "with_retry t patch = (if has_retry patch then patch else patch @ [PRetryAt t])"

definition progressed :: "patch_entry list \<Rightarrow> bool step" where
  "progressed patch = (\<lambda>p. giving (list_ex (\<lambda>e. entry_differs e (current p)) patch) p)"

definition run_adapter :: "StepContext \<Rightarrow> ProvisionEnv \<Rightarrow> patch_entry list step" where
  "run_adapter x env = (\<lambda>p. handle (answer_call x) (step_provision env (current p)) p)"

definition step_body :: "StepContext \<Rightarrow> ProvisionEnv \<Rightarrow> int \<Rightarrow> unit step" where
  "step_body x env poll =
     andthen (readCurrent x True) (\<lambda>_.
     andthen (run_adapter x env) (\<lambda>patch.
     andthen (progressed patch) (\<lambda>moved.
     andthen (storage ReadNow at_in) (\<lambda>now.
     andthen (checkpointing x (with_retry (now + (if moved then 0 else poll)) patch)) (\<lambda>_.
     if patch_state patch = Some Ready then storage (WriteEvent ''account_ready'' (sc_identity x)) finished_in else giving ())))))"

fun is_terminal :: "failure \<Rightarrow> bool" where
  "is_terminal (ProvisionFailure code t) = t" | "is_terminal _ = False"

fun is_fenced :: "failure \<Rightarrow> bool" where
  "is_fenced (ProvisionFailure code t) = (code = ''provision_fenced'')" | "is_fenced _ = False"

text \<open>A failure is charged to the member, unless the step was fenced or is no longer current.\<close>

definition charge :: "StepContext \<Rightarrow> thrown \<Rightarrow> unit step" where
  "charge x t =
     andthen isCurrent (\<lambda>owned.
     if \<not> owned \<or> is_fenced (reason_of t) then giving ()
     else andthen (rescue (andthen (readCurrent x False) (\<lambda>r. giving (Some r))) (\<lambda>_. giving None)) (\<lambda>latest.
       case latest of
         None \<Rightarrow> giving ()
       | Some r \<Rightarrow> storage (WriteFail (sc_identity x) (failureCode (reason_of t)) r (sc_tenure x) (is_terminal (reason_of t))) finished_in))"

definition advance :: "StepContext \<Rightarrow> ProvisionEnv \<Rightarrow> int \<Rightarrow> Inventory \<Rightarrow> unit step" where
  "advance x env poll row =
     andthen (admit x row) (\<lambda>admitted. if admitted then rescue (step_body x env poll) (charge x) else giving ())"

text \<open>The step that the scheduler launches for a row under a tenure.\<close>

definition launched_step :: "string \<Rightarrow> ProvisionEnv \<Rightarrow> int \<Rightarrow> Inventory \<Rightarrow> (step_call, step_answer, thrown \<times> Pins, unit \<times> Pins) prog" where
  "launched_step tn env poll row =
     advance \<lparr>sc_identity = identity row, sc_attempt = attempt_id row, sc_tenure = tn\<rparr> env poll row
       \<lparr>current = row, credentialGeneration = None\<rparr>"

section \<open>The observation of an exhausted login reservation\<close>

text \<open>
  \<open>reconcileLoginReservations\<close> for one row of its batch. Every call of the store is made under a signal that is
  not aborted and a tenure that is held, before and after.
\<close>

definition observed_storage :: "step_call \<Rightarrow> (step_answer \<Rightarrow> 'r option) \<Rightarrow> 'r step" where
  "observed_storage c f =
     andthen throwIfAborted (\<lambda>_. andthen isCurrent (\<lambda>owned. andthen (guarding owned) (\<lambda>_.
     andthen (storage c f) (\<lambda>r. andthen throwIfAborted (\<lambda>_. giving r)))))"

definition same_reservation :: "Inventory \<Rightarrow> Inventory \<Rightarrow> bool" where
  "same_reservation row r \<longleftrightarrow> isExhaustedLoginReservation r \<and> state r = state row \<and> attempts r = attempts row \<and>
     generation r = generation row \<and> attempt_id r = attempt_id row \<and> stage r = stage row \<and> task_id r = task_id row \<and>
     oauth_attempt_id r = oauth_attempt_id row \<and> sso_created_at r = sso_created_at row"

definition observation_current :: "Inventory \<Rightarrow> unit step" where
  "observation_current row =
     andthen throwIfAborted (\<lambda>_. andthen renewing (\<lambda>renewed. andthen (guarding renewed) (\<lambda>_.
     andthen (observed_storage (ReadInventory (identity row)) row_in) (\<lambda>latest.
     andthen (observed_storage ReadSettings yes_in) (\<lambda>is_paused.
     andthen (observed_storage (ReadHolds (identity row)) yes_in) (\<lambda>held.
     andthen throwIfAborted (\<lambda>_. andthen isCurrent (\<lambda>owned.
       guarding (owned \<and> \<not> is_paused \<and> \<not> held \<and>
         (case latest of None \<Rightarrow> False | Some r \<Rightarrow> same_reservation row r))))))))))"

definition observation_call :: "Inventory \<Rightarrow> call \<Rightarrow> answer step" where
  "observation_call row c = rescue
     (case c of
        AssertCurrent \<Rightarrow> wrapped (andthen (observation_current row) (\<lambda>_. giving Done))
      | _ \<Rightarrow> (\<lambda>p. Await (Service c) (\<lambda>a. Return (case a of Answers v \<Rightarrow> v | _ \<Rightarrow> Fails OtherFailure, p))))
     (\<lambda>t. case t of Rejected f \<Rightarrow> giving (Fails f) | Aborted f \<Rightarrow> (\<lambda>p. Throw (Aborted f, p)))"

text \<open>An outcome releases the reservation; whatever fails leaves it as it is.\<close>

definition observe_reservation :: "ProvisionEnv \<Rightarrow> string \<Rightarrow> bool \<Rightarrow> Inventory \<Rightarrow> unit step" where
  "observe_reservation env tn busy row =
     (if \<not> isExhaustedLoginReservation row \<or> busy then giving ()
      else andthen isCurrent (\<lambda>owned. if \<not> owned then giving () else rescue
        (andthen (observation_current row) (\<lambda>_.
         andthen (handle (observation_call row) (reconcileLoginReservation env row)) (\<lambda>outcome.
         case outcome of
           None \<Rightarrow> giving ()
         | Some result \<Rightarrow> andthen (observation_current row) (\<lambda>_.
             andthen (observed_storage (WriteRelease (identity row) row tn result) yes_in) (\<lambda>_. giving ())))))
        (\<lambda>_. giving ())))"

end
