(* ===== verification/Worker_Fencing.thy ===== *)
theory Worker_Fencing
  imports Worker_Advance
begin

text \<open>
  What every execution of a worker's step (\<open>launched_step\<close>) keeps to, whatever is answered: writes carry a
  fence that was read just before, requests leave only after such a check, a request with a side effect
  only after the store accepted the record of its stage, and a step ends.
\<close>

section \<open>Monitors of steps\<close>

locale step_monitor = monitor allowed next_state
  for allowed :: "'s \<Rightarrow> step_call \<Rightarrow> bool" and next_state :: "'s \<Rightarrow> step_call \<Rightarrow> step_answer \<Rightarrow> 's"
begin

lemma wp_andthen: "wp (andthen m f p) Q E s = wp (m p) (\<lambda>s y. wp (f (fst y) (snd y)) Q E s) E s"
  by (simp add: andthen_def wp_bind case_prod_beta)

lemma wp_rescue: "wp (rescue m h p) Q E s = wp (m p) Q (\<lambda>s y. wp (h (fst y) (snd y)) Q E s) s"
  by (simp add: rescue_def wp_catching case_prod_beta)

lemma wp_giving [simp]: "wp (giving r p) Q E s = Q s (r, p)"
  by (simp add: giving_def)

lemma wp_throwing [simp]: "wp (throwing f p) Q E s = E s (Rejected f, p)"
  by (simp add: throwing_def)

lemma wp_guarding [simp]: "wp (guarding b p) Q E s = (if b then Q s ((), p) else E s (Rejected fenced_failure, p))"
  by (simp add: guarding_def)

lemma wp_isCurrent: "wp (isCurrent p) Q E s \<longleftrightarrow> allowed s CheckTenure \<and> (\<forall>a. Q (next_state s CheckTenure a) (a = Yes True, p))"
  by (simp add: isCurrent_def)

lemma wp_renewing: "wp (renewing p) Q E s \<longleftrightarrow> allowed s RenewTenure \<and> (\<forall>a. Q (next_state s RenewTenure a) (a = Yes True, p))"
  by (simp add: renewing_def)

lemma wp_throwIfAborted:
  "allowed s CheckSignal \<Longrightarrow> (\<And>a. Q (next_state s CheckSignal a) ((), p)) \<Longrightarrow> (\<And>a f. E (next_state s CheckSignal a) (Aborted f, p)) \<Longrightarrow>
    wp (throwIfAborted p) Q E s"
  by (simp add: throwIfAborted_def split: step_answer.split)

lemma wp_throwIfTimedOut:
  "allowed s CheckTimeout \<Longrightarrow> (\<And>a. Q (next_state s CheckTimeout a) ((), p)) \<Longrightarrow> (\<And>a f. E (next_state s CheckTimeout a) (Rejected f, p)) \<Longrightarrow>
    wp (throwIfTimedOut p) Q E s"
  by (simp add: throwIfTimedOut_def split: step_answer.split)

lemma wp_storage:
  "allowed s c \<Longrightarrow> (\<And>a r. f a = Some r \<Longrightarrow> Q (next_state s c a) (r, p)) \<Longrightarrow>
    (\<And>a e. f a = None \<Longrightarrow> allowed (next_state s c a) (LoseTenure e)) \<Longrightarrow>
    (\<And>a e b. f a = None \<Longrightarrow> E (next_state (next_state s c a) (LoseTenure e) b) (Rejected fenced_failure, p)) \<Longrightarrow>
    wp (storage c f p) Q E s"
  by (simp add: storage_def split: option.split)

end

section \<open>Evidence for a write\<close>

text \<open>
  The evidence gathered since the last write or request: the tenure was renewed, then the row read (with
  or without a renewal before), then found without holds, then the tenure checked again. \<open>Looked\<close> is a check
  since which only models were looked up. \<open>Promoted\<close>: the store accepted the update that makes the member
  ready, and whether the tenure was found held since. After a failure has been charged the step is over.
\<close>

datatype evidence =
    NoEvidence
  | Renewed
  | Seen bool Inventory
  | Unheld bool Inventory
  | Checked bool Inventory
  | Looked Inventory
  | Promoted bool
  | Charged

definition is_lookup :: "call \<Rightarrow> bool" where
  "is_lookup c \<longleftrightarrow> (case c of ResolveModel p \<Rightarrow> True | _ \<Rightarrow> False)"

definition gather :: "evidence \<Rightarrow> step_call \<Rightarrow> step_answer \<Rightarrow> evidence" where
  "gather ev c a = (if ev = Charged then Charged else case c of
     CheckSignal \<Rightarrow> ev
   | CheckTimeout \<Rightarrow> ev
   | RenewTenure \<Rightarrow> if a = Yes True then Renewed else NoEvidence
   | ReadInventory i \<Rightarrow> (case ev of Promoted b \<Rightarrow> Promoted b
       | _ \<Rightarrow> (case a of Row (Some r) \<Rightarrow> Seen (ev = Renewed) r | _ \<Rightarrow> NoEvidence))
   | ReadHolds i \<Rightarrow> (case ev of Seen b r \<Rightarrow> if a = Yes False then Unheld b r else NoEvidence | _ \<Rightarrow> NoEvidence)
   | CheckTenure \<Rightarrow> (case ev of Unheld b r \<Rightarrow> if a = Yes True then Checked b r else NoEvidence
       | Promoted b \<Rightarrow> if a = Yes True then Promoted True else NoEvidence
       | _ \<Rightarrow> NoEvidence)
   | WriteUpdate i patch r ow \<Rightarrow> if a = Yes True \<and> patch_state patch = Some Ready then Promoted False else NoEvidence
   | WriteFail i code r ow t \<Rightarrow> Charged
   | Service d \<Rightarrow> (case ev of Checked True r \<Rightarrow> if is_lookup d then Looked r else NoEvidence
       | Looked r \<Rightarrow> if is_lookup d then Looked r else NoEvidence
       | _ \<Rightarrow> NoEvidence)
   | _ \<Rightarrow> NoEvidence)"

definition vouches :: "StepContext \<Rightarrow> evidence \<Rightarrow> Inventory \<Rightarrow> bool" where
  "vouches x ev r \<longleftrightarrow> ev = Checked True r \<and> state r = Provisioning \<and> attempt_id r = sc_attempt x"

definition looks_up :: "StepContext \<Rightarrow> evidence \<Rightarrow> bool" where
  "looks_up x ev \<longleftrightarrow> (\<exists>r. (ev = Checked True r \<or> ev = Looked r) \<and> state r = Provisioning \<and> attempt_id r = sc_attempt x)"

definition needs_check :: "call \<Rightarrow> bool" where
  "needs_check c \<longleftrightarrow> (case c of Fetch s e p b \<Rightarrow> True | ExecuteRequest q \<Rightarrow> True | _ \<Rightarrow> False)"

definition may_step :: "StepContext \<Rightarrow> evidence \<Rightarrow> step_call \<Rightarrow> bool" where
  "may_step x ev c \<longleftrightarrow> (ev = Charged \<longrightarrow> (\<exists>e. c = LoseTenure e)) \<and>
     (case c of
        ReadInventory i \<Rightarrow> i = sc_identity x
      | ReadHolds i \<Rightarrow> i = sc_identity x
      | WriteUpdate i patch r ow \<Rightarrow> i = sc_identity x \<and> ow = sc_tenure x \<and>
          (vouches x ev r \<or> ev = Checked False r \<and> state r = Pool_Tables.Failed \<and> attempt_id r = sc_attempt x \<and>
             patch = [PState Provisioning])
      | WriteCredential i r ow m \<Rightarrow> i = sc_identity x \<and> ow = sc_tenure x \<and> vouches x ev r
      | WriteDispatch i r ow n \<Rightarrow> i = sc_identity x \<and> ow = sc_tenure x \<and> vouches x ev r
      | WriteFail i code r ow t \<Rightarrow> i = sc_identity x \<and> ow = sc_tenure x \<and> vouches x ev r
      | WriteEvent act i \<Rightarrow> i = sc_identity x \<and> act = ''account_ready'' \<and> ev = Promoted True
      | WriteRelease i r ow result \<Rightarrow> False
      | Service d \<Rightarrow> (needs_check d \<longrightarrow> (\<exists>r. vouches x ev r)) \<and> (is_lookup d \<longrightarrow> looks_up x ev)
      | _ \<Rightarrow> True)"

interpretation fences: step_monitor "may_step x" gather for x :: StepContext .

lemma gather_simps [simp]:
  "gather Charged c a = Charged" "gather ev CheckSignal a = ev" "gather ev CheckTimeout a = ev"
  "ev \<noteq> Charged \<Longrightarrow> gather ev (LoseTenure e) a = NoEvidence"
  "ev \<noteq> Charged \<Longrightarrow> gather ev ReadSettings a = NoEvidence"
  "ev \<noteq> Charged \<Longrightarrow> gather ev ReadNow a = NoEvidence"
  "ev \<noteq> Charged \<Longrightarrow> gather ev (WriteUpdate i patch r ow) a =
     (if a = Yes True \<and> patch_state patch = Some Ready then Promoted False else NoEvidence)"
  "gather (Promoted b) (ReadInventory i) a = Promoted b"
  "gather (Promoted b) CheckTenure a = (if a = Yes True then Promoted True else NoEvidence)"
  "ev \<noteq> Charged \<Longrightarrow> gather ev (WriteCredential i r ow m) a = NoEvidence"
  "ev \<noteq> Charged \<Longrightarrow> gather ev (WriteDispatch i r ow n) a = NoEvidence"
  "ev \<noteq> Charged \<Longrightarrow> gather ev (WriteEvent act i) a = NoEvidence"
  "ev \<noteq> Charged \<Longrightarrow> \<not> is_lookup d \<Longrightarrow> gather ev (Service d) a = NoEvidence"
  "ev \<noteq> Charged \<Longrightarrow> gather ev RenewTenure a = (if a = Yes True then Renewed else NoEvidence)"
  "gather Renewed (ReadInventory i) (Row (Some r)) = Seen True r"
  "gather NoEvidence (ReadInventory i) (Row (Some r)) = Seen False r"
  "gather Renewed (ReadInventory i) (Row None) = NoEvidence"
  "gather NoEvidence (ReadInventory i) (Row None) = NoEvidence"
  "gather (Seen b r) (ReadHolds i) a = (if a = Yes False then Unheld b r else NoEvidence)"
  "gather (Unheld b r) CheckTenure a = (if a = Yes True then Checked b r else NoEvidence)"
  "gather NoEvidence CheckTenure a = NoEvidence"
  "gather NoEvidence (ReadHolds i) a = NoEvidence"
  by (simp_all add: gather_def split: evidence.split bool.split)

lemma looks_up_after: "looks_up x ev \<Longrightarrow> is_lookup d \<Longrightarrow> looks_up x (gather ev (Service d) a)"
  by (auto simp: looks_up_def gather_def)

lemma looks_up_checked [simp]: "vouches x ev r \<Longrightarrow> looks_up x ev"
  by (auto simp: looks_up_def vouches_def)

fun charges :: "step_call \<Rightarrow> bool" where
  "charges (WriteFail i code r ow t) = True"
| "charges _ = False"

lemma gather_open [simp]: "ev \<noteq> Charged \<Longrightarrow> \<not> charges c \<Longrightarrow> gather ev c a \<noteq> Charged"
  by (cases c; simp add: gather_def split: evidence.split step_answer.split option.split bool.split)

lemma may_step_simps [simp]:
  "ev \<noteq> Charged \<Longrightarrow> may_step x ev CheckTenure" "ev \<noteq> Charged \<Longrightarrow> may_step x ev RenewTenure"
  "ev \<noteq> Charged \<Longrightarrow> may_step x ev CheckSignal" "ev \<noteq> Charged \<Longrightarrow> may_step x ev CheckTimeout"
  "ev \<noteq> Charged \<Longrightarrow> may_step x ev ReadSettings" "ev \<noteq> Charged \<Longrightarrow> may_step x ev ReadNow"
  "may_step x ev (LoseTenure e)"
  "ev \<noteq> Charged \<Longrightarrow> may_step x ev (ReadInventory i) \<longleftrightarrow> i = sc_identity x"
  "ev \<noteq> Charged \<Longrightarrow> may_step x ev (ReadHolds i) \<longleftrightarrow> i = sc_identity x"
  "may_step x (Promoted True) (WriteEvent ''account_ready'' (sc_identity x))"
  "ev \<noteq> Charged \<Longrightarrow> may_step x ev (Service d) \<longleftrightarrow>
     (needs_check d \<longrightarrow> (\<exists>r. vouches x ev r)) \<and> (is_lookup d \<longrightarrow> looks_up x ev)"
  by (simp_all add: may_step_def)

lemma row_in_Some [elim!]: "row_in a = Some r \<Longrightarrow> (a = Row r \<Longrightarrow> P) \<Longrightarrow> P"
  by (cases a) simp_all

lemma yes_in_Some [elim!]: "yes_in a = Some b \<Longrightarrow> (a = Yes b \<Longrightarrow> P) \<Longrightarrow> P"
  by (cases a) simp_all

text \<open>The check that every write and every request rests on.\<close>

lemma wp_readCurrent:
  assumes "s \<noteq> Charged" and ok: "\<And>r. vouches x (Checked True r) r \<Longrightarrow> Q (Checked True r) (r, p)"
    and failed: "\<And>s' t. s' \<noteq> Charged \<Longrightarrow> E s' (t, p)"
  shows "fences.wp x (readCurrent x b p) Q E s"
proof -
  have checked: "fences.wp x (isCurrent p) (\<lambda>s y. fences.wp x
        (case latest of None \<Rightarrow> throwing fenced_failure (snd y)
         | Some r \<Rightarrow> if \<not> fst y \<or> \<not> still_current x (snd y) r \<or> held then throwing fenced_failure (snd y) else giving r (snd y)) Q E s) E s'"
    if "s' \<noteq> Charged" "\<And>r. latest = Some r \<Longrightarrow> \<not> held \<Longrightarrow> s' = Unheld True r" for latest held s'
    using that by (auto simp: fences.wp_isCurrent failed still_current_def vouches_def split: option.split intro!: ok)
  have signal: "fences.wp x ((if b then throwIfAborted else giving ()) p) Q' E s'"
    if "s' \<noteq> Charged" "Q' s' ((), p)" for Q' s'
    using that by (auto intro!: fences.wp_throwIfAborted failed)
  have rest: "fences.wp x (storage (ReadHolds (sc_identity x)) yes_in p) (\<lambda>s y. fences.wp x
        ((if b then throwIfAborted else giving ()) (snd y)) (\<lambda>s z. fences.wp x (isCurrent (snd z)) (\<lambda>s y'. fences.wp x
        (case latest of None \<Rightarrow> throwing fenced_failure (snd y')
         | Some r \<Rightarrow> if \<not> fst y' \<or> \<not> still_current x (snd y') r \<or> fst y then throwing fenced_failure (snd y') else giving r (snd y')) Q E s) E s) E s) E s'"
    if "s' \<noteq> Charged" "\<And>r. latest = Some r \<Longrightarrow> s' = Seen True r" for latest s'
  proof (rule fences.wp_storage, goal_cases)
    case (2 a r)
    then have a: "a = Yes r" by blast
    show ?case unfolding a fst_conv snd_conv
    proof (rule signal)
      show "gather s' (ReadHolds (sc_identity x)) (Yes r) \<noteq> Charged" using that by simp
      then show "fences.wp x (isCurrent (snd ((), p))) (\<lambda>s y'. fences.wp x
        (case latest of None \<Rightarrow> throwing fenced_failure (snd y')
         | Some ra \<Rightarrow> if \<not> fst y' \<or> \<not> still_current x (snd y') ra \<or> r then throwing fenced_failure (snd y') else giving ra (snd y')) Q E s)
        E (gather s' (ReadHolds (sc_identity x)) (Yes r))"
        unfolding snd_conv by (rule checked) (use that in auto)
    qed
  qed (use that in \<open>auto intro: failed\<close>)
  have inventory: "fences.wp x (storage (ReadInventory (sc_identity x)) row_in p) (\<lambda>s y. fences.wp x (storage (ReadHolds (sc_identity x)) yes_in (snd y)) (\<lambda>s y1. fences.wp x
        ((if b then throwIfAborted else giving ()) (snd y1)) (\<lambda>s z. fences.wp x (isCurrent (snd z)) (\<lambda>s y'. fences.wp x
        (case fst y of None \<Rightarrow> throwing fenced_failure (snd y')
         | Some r \<Rightarrow> if \<not> fst y' \<or> \<not> still_current x (snd y') r \<or> fst y1 then throwing fenced_failure (snd y') else giving r (snd y')) Q E s) E s) E s) E s) E Renewed"
  proof (rule fences.wp_storage, goal_cases)
    case (2 a r)
    then have a: "a = Row r" by blast
    show ?case unfolding fst_conv snd_conv a by (rule rest; cases r; simp)
  qed (auto intro: failed)
  show ?thesis unfolding readCurrent_def fences.wp_andthen
  proof (rule signal, goal_cases)
    case 2
    show ?case unfolding fences.wp_renewing fst_conv snd_conv fences.wp_guarding
    proof (intro conjI allI, goal_cases)
      case (2 a)
      then show ?case using inventory assms(1) failed by (cases "a = Yes True") (simp_all cong: if_cong split del: if_split)
    qed (use assms(1) in simp)
  qed (use assms(1) in simp)
qed

section \<open>The fenced operations\<close>

text \<open>An operation that neither charges a failure nor leaves the monitor, from whatever evidence.\<close>

abbreviation still_open :: "evidence \<Rightarrow> 'r \<Rightarrow> bool" where
  "still_open \<equiv> \<lambda>s y. s \<noteq> Charged"

definition tame :: "StepContext \<Rightarrow> 'r step \<Rightarrow> bool" where
  "tame x m \<longleftrightarrow> (\<forall>p s. s \<noteq> Charged \<longrightarrow> fences.wp x (m p) still_open still_open s)"

lemma tame_wp: "tame x m \<Longrightarrow> s \<noteq> Charged \<Longrightarrow> fences.wp x (m p) still_open still_open s"
  by (simp add: tame_def)

lemma tame_andthen [intro!]: "tame x m \<Longrightarrow> (\<And>r. tame x (f r)) \<Longrightarrow> tame x (andthen m f)"
  unfolding tame_def fences.wp_andthen by (blast intro: fences.wp_mono)

lemma tame_rescue [intro!]: "tame x m \<Longrightarrow> (\<And>t. tame x (h t)) \<Longrightarrow> tame x (rescue m h)"
  unfolding tame_def fences.wp_rescue by (blast intro: fences.wp_mono)

lemma tame_basic [intro!, simp]:
  "tame x (giving r)" "tame x (throwing f)" "tame x (guarding b)" "tame x throwIfAborted" "tame x throwIfTimedOut"
  "tame x isCurrent" "tame x renewing"
  by (auto simp: tame_def fences.wp_isCurrent fences.wp_renewing intro!: fences.wp_throwIfAborted fences.wp_throwIfTimedOut
        split: if_splits)

lemma tame_state: "(\<And>p. tame x (m p)) \<Longrightarrow> tame x (\<lambda>p. m p (g p))"
  by (simp add: tame_def)

lemma tame_storage [intro!]:
  "(\<And>s. s \<noteq> Charged \<Longrightarrow> may_step x s c) \<Longrightarrow> \<not> charges c \<Longrightarrow> tame x (storage c f)"
  by (auto simp: tame_def intro!: fences.wp_storage)

lemma tame_readCurrent [intro!]: "tame x (readCurrent x b)"
  by (auto simp: tame_def intro!: wp_readCurrent)

text \<open>A write that follows the check.\<close>

lemma tame_checked:
  "(\<And>r p. vouches x (Checked True r) r \<Longrightarrow> fences.wp x (f r p) still_open still_open (Checked True r)) \<Longrightarrow>
    tame x (andthen (readCurrent x b) f)"
  by (auto simp: tame_def fences.wp_andthen intro!: wp_readCurrent)

lemma wp_write:
  assumes "vouches x (Checked True r) r" "may_step x (Checked True r) c" "\<not> charges c" "\<And>v. tame x (f v)"
  shows "fences.wp x (andthen (storage c yes_in) f p) still_open still_open (Checked True r)"
  unfolding fences.wp_andthen
  by (rule fences.wp_storage) (use assms in \<open>auto intro: tame_wp\<close>)

lemma may_write:
  "vouches x (Checked True r) r \<Longrightarrow> may_step x (Checked True r) (WriteUpdate (sc_identity x) patch r (sc_tenure x))"
  "vouches x (Checked True r) r \<Longrightarrow> may_step x (Checked True r) (WriteCredential (sc_identity x) r (sc_tenure x) m)"
  "vouches x (Checked True r) r \<Longrightarrow> may_step x (Checked True r) (WriteDispatch (sc_identity x) r (sc_tenure x) n)"
  "vouches x (Checked True r) r \<Longrightarrow> may_step x (Checked True r) (WriteFail (sc_identity x) code r (sc_tenure x) t)"
  by (simp_all add: may_step_def)

lemma tame_adopt [intro!]: "tame x (adopt P saved)"
proof -
  have "tame x (\<lambda>p. case saved of None \<Rightarrow> throwing fenced_failure p
     | Some r \<Rightarrow> if \<not> owned \<or> \<not> P p r then throwing fenced_failure p else giving r (p\<lparr>current := r\<rparr>))" for owned
    by (auto simp: tame_def split: option.split)
  then show ?thesis unfolding adopt_def by (intro tame_andthen tame_basic)
qed

lemma tame_checkpointing [intro!]: "tame x (checkpointing x patch)"
  unfolding checkpointing_def
  by (rule tame_checked, rule wp_write) (auto intro!: may_write)

lemma tame_claimingDispatch [intro!]: "tame x (claimingDispatch x n)"
  unfolding claimingDispatch_def
  by (rule tame_checked, rule wp_write) (auto intro!: may_write)

lemma tame_mutateCredentials [intro!]: "tame x (mutateCredentials x m)"
proof -
  have rest: "tame x (andthen (guarding ok) (\<lambda>_. andthen (\<lambda>p. giving () (if is_invalidate m
      then p\<lparr>credentialGeneration := map_option (\<lambda>g. g + 1) (credentialGeneration p)\<rparr> else p))
      (\<lambda>_. andthen (readCurrent x True) (\<lambda>_. giving True))))" for ok
    by (intro tame_andthen tame_basic tame_readCurrent) (simp add: tame_def)
  show ?thesis unfolding mutateCredentials_def
    by (rule tame_checked)
       (subst fences.wp_andthen, auto intro!: wp_write may_write rest)
qed

lemma tame_pinCredentials [intro!]: "tame x (pinCredentials x)"
proof -
  have "tame x (pin_generation g)" for g by (simp add: tame_def pin_generation_def)
  then show ?thesis unfolding pinCredentials_def by auto
qed

lemma tame_wrapped [intro!]: "tame x m \<Longrightarrow> tame x (wrapped m)"
  unfolding wrapped_def by auto

section \<open>The adapter checks before it sends\<close>

text \<open>
  At the level of the adapter: a request to a service directly follows an \<open>assertCurrent\<close> that returned
  (\<open>Linked\<close>), and a lookup of a model follows such a check, or other lookups that follow it (\<open>Looking\<close>).
\<close>

datatype link = Unlinked | Looking | Linked

definition may_send :: "link \<Rightarrow> call \<Rightarrow> bool" where
  "may_send b c \<longleftrightarrow> (needs_check c \<longrightarrow> b = Linked) \<and> (is_lookup c \<longrightarrow> b \<noteq> Unlinked)"

definition after_send :: "link \<Rightarrow> call \<Rightarrow> answer \<Rightarrow> link" where
  "after_send b c a = (if c = AssertCurrent \<and> a = Done then Linked
     else if is_lookup c \<and> b \<noteq> Unlinked then Looking else Unlinked)"

interpretation sends: monitor may_send after_send .

definition checked_prog :: "'r provision \<Rightarrow> bool" where
  "checked_prog q \<longleftrightarrow> (\<forall>b. sends.wp q (\<lambda>s r. True) (\<lambda>s e. True) b)"

named_theorems checked_intros

lemma checked_return [checked_intros]: "checked_prog (Return r)" "checked_prog (Throw f)"
  by (simp_all add: checked_prog_def)

lemma checked_lift [checked_intros]: "checked_prog (lift v)" "checked_prog (require b f)"
  by (simp_all add: checked_prog_def sends.wp_lift sends.wp_require split: sum.split)

lemma checked_bind [checked_intros]: "checked_prog q \<Longrightarrow> (\<And>r. checked_prog (f r)) \<Longrightarrow> checked_prog (bind q f)"
  unfolding checked_prog_def sends.wp_bind by (blast intro: sends.wp_mono)

lemma checked_catching [checked_intros]: "checked_prog q \<Longrightarrow> (\<And>f. checked_prog (h f)) \<Longrightarrow> checked_prog (catching q h)"
  unfolding checked_prog_def sends.wp_catching by (blast intro: sends.wp_mono)

lemma checked_ask [checked_intros]: "\<not> needs_check c \<Longrightarrow> \<not> is_lookup c \<Longrightarrow> checked_prog (ask c f)"
  by (simp add: checked_prog_def ask_def may_send_def split: answer.split option.split)

lemma checked_assert [checked_intros]: "checked_prog assertCurrent"
  by (simp add: assertCurrent_def checked_intros needs_check_def is_lookup_def)

lemma checked_option [checked_intros]:
  "checked_prog q \<Longrightarrow> (\<And>r. checked_prog (f r)) \<Longrightarrow> checked_prog (case v of None \<Rightarrow> q | Some r \<Rightarrow> f r)"
  by (cases v) simp_all

lemma checked_if [checked_intros]: "checked_prog q \<Longrightarrow> checked_prog q' \<Longrightarrow> checked_prog (if b then q else q')"
  by simp

text \<open>The two places where a request is sent.\<close>

abbreviation sends_ok :: "link \<Rightarrow> 'r provision \<Rightarrow> bool" where
  "sends_ok b q \<equiv> sends.wp q (\<lambda>s r. True) (\<lambda>s e. True) b"

lemma sends_assert: "sends.wp assertCurrent (\<lambda>s r. s = Linked) (\<lambda>s e. True) b"
  unfolding assertCurrent_def ask_def
  by (auto simp: may_send_def after_send_def needs_check_def is_lookup_def split: answer.split option.split)

lemma checked_after_assert: "sends_ok Linked (f ()) \<Longrightarrow> checked_prog (bind assertCurrent f)"
  unfolding checked_prog_def sends.wp_bind
  by (auto intro!: sends.wp_mono [OF sends_assert])

lemma sends_ask: "(\<And>r. checked_prog (g r)) \<Longrightarrow> sends_ok Linked (bind (ask c f) g)"
  unfolding ask_def checked_prog_def by (auto simp: may_send_def split: answer.split option.split)

lemma checked_send: "(\<And>r. checked_prog (g r)) \<Longrightarrow> checked_prog (bind assertCurrent (\<lambda>_. bind (ask c f) g))"
  by (intro checked_after_assert sends_ask)

lemma checked_request [checked_intros]: "checked_prog (request env row s p b)"
proof -
  have sending: "sends_ok Linked (bind (lift (enterpriseOf env row)) (\<lambda>e. bind (ask (Fetch s (ep_id e) p b) read_status) g))"
    if "\<And>v. checked_prog (g v)" for g :: "int \<Rightarrow> js provision"
    unfolding sends.wp_bind [of "lift _"] sends.wp_lift by (simp add: sends_ask that split: sum.split)
  show ?thesis unfolding request_def
    by (intro checked_after_assert sending checked_intros) (simp_all add: needs_check_def is_lookup_def)
qed

lemma unchecked_calls [simp]:
  "\<not> needs_check AssertCurrent" "\<not> needs_check ThrowIfAborted" "\<not> needs_check ReadJson" "\<not> needs_check (GetAccount i)"
  "\<not> needs_check (Checkpoint e)" "\<not> needs_check PinCredentials" "\<not> needs_check (MutateCredentials m)"
  "\<not> needs_check (ClaimLoginDispatch n)" "\<not> needs_check StoreNow" "\<not> needs_check RandomUUID" "\<not> needs_check (ResolveModel q)"
  "\<not> is_lookup AssertCurrent" "\<not> is_lookup ThrowIfAborted" "\<not> is_lookup ReadJson" "\<not> is_lookup (GetAccount i)"
  "\<not> is_lookup (Checkpoint e)" "\<not> is_lookup PinCredentials" "\<not> is_lookup (MutateCredentials m)"
  "\<not> is_lookup (ClaimLoginDispatch n)" "\<not> is_lookup StoreNow" "\<not> is_lookup RandomUUID" "is_lookup (ResolveModel q)"
  "\<not> is_lookup (Fetch s j u v)" "\<not> is_lookup (ExecuteRequest q)"
  by (simp_all add: needs_check_def is_lookup_def)

lemma checked_parts [checked_intros]:
  "checked_prog (knownUser env row)" "checked_prog (checkEntitlement user)" "checked_prog (mutate m)" "checked_prog (checkpoint e)"
  "checked_prog (loginTask env row t)"
  unfolding knownUser_def checkEntitlement_def mutate_def checkpoint_def loginTask_def
  by (intro checked_intros unchecked_calls)+

lemma checked_accountFor [checked_intros]: "checked_prog (accountFor row u)"
  unfolding accountFor_def by (intro checked_intros unchecked_calls)

lemma checked_findTask_from [checked_intros]: "checked_prog (findTask_from env row g n page found)"
  by (induction n arbitrary: page found) (auto intro!: checked_intros split: prod.split)

lemma checked_taskOf [checked_intros]: "checked_prog (taskOf env row g)"
  unfolding taskOf_def findTask_def by (intro checked_intros)

lemma checked_stages [checked_intros]:
  "checked_prog (step_new env row)" "checked_prog (step_scim env row)" "checked_prog (step_seat env row)"
  "checked_prog (step_synced env row)" "checked_prog (step_oauth_starting env row)"
  unfolding step_new_def check_name_free_def create_user_def step_scim_def step_seat_def link_account_def step_synced_def
    step_oauth_starting_def submit_login_def
  by (intro checked_intros unchecked_calls; simp add: checked_return split: failure.split)+

lemma checked_oauth_wait [checked_intros]: "checked_prog (step_oauth_wait env row)"
  unfolding step_oauth_wait_def task_result_def Let_def by (intro checked_intros unchecked_calls)

lemma checked_drop [checked_intros]: "checked_prog (drop_credential token f)"
  unfolding drop_credential_def back_to_synced_def by (intro checked_intros)

text \<open>The lookups of the warm-up start from the check that ends \<open>accountFor\<close>.\<close>

lemma sends_drop: "sends.wp (drop_credential token f) (\<lambda>s r. False) (\<lambda>s e. True) b"
proof -
  have "checked_prog back_to_synced" "checked_prog (mutate m)" for m
    unfolding back_to_synced_def by (intro checked_intros)+
  then have ok: "sends_ok b back_to_synced" "sends_ok b (mutate m)" for m b by (simp_all add: checked_prog_def)
  show ?thesis unfolding drop_credential_def sends.wp_bind
    by (rule sends.wp_mono [OF ok(1)]) (auto intro: sends.wp_mono [OF ok(2)])
qed

lemma lookup_link:
  "may_send b (ResolveModel p) \<longleftrightarrow> b \<noteq> Unlinked" "after_send b (ResolveModel p) a = (if b \<noteq> Unlinked then Looking else Unlinked)"
  by (simp_all add: may_send_def after_send_def)

lemma sends_if: "sends_ok b q \<Longrightarrow> sends_ok b q' \<Longrightarrow> sends_ok b (if c then q else q')"
  by simp

lemma sends_resolve: "b \<noteq> Unlinked \<Longrightarrow> sends_ok b (resolve_warmup token ps)"
proof (induction ps arbitrary: b)
  case (Cons c ps)
  have never: "sends.wp (drop_credential token f) Q (\<lambda>s e. True) s" for f Q s
    by (rule sends.wp_mono [OF sends_drop]) simp_all
  show ?case using Cons.prems never Cons.IH [of Looking] unfolding resolve_warmup.simps sends.wp_bind sends.wp_catching ask_def
    by (auto simp: lookup_link split: answer.split option.split failure.split)
qed simp

lemma sends_accountFor: "sends.wp (accountFor row u) (\<lambda>s r. s = Linked) (\<lambda>s e. True) b"
proof -
  have get: "sends_ok Linked (ask (GetAccount i) read_account)" for i
    using checked_ask [of "GetAccount i" read_account] by (simp add: checked_prog_def)
  have last: "sends.wp assertCurrent (\<lambda>s r. s = Linked \<and> True) (\<lambda>s e. True) b" for b
    using sends_assert by simp
  show ?thesis unfolding accountFor_def sends.wp_bind
    by (rule sends.wp_mono [OF sends_assert], clarify, rule sends.wp_mono [OF get], rule sends.wp_mono [OF sends_assert])
       (auto split: option.split)
qed

lemma checked_lookups:
  "(\<And>q. checked_prog (send q)) \<Longrightarrow> sends_ok Linked (bind (lift v) (\<lambda>_. bind (resolve_warmup token ps) send))"
  unfolding sends.wp_bind sends.wp_lift checked_prog_def
  by (auto split: sum.split intro!: sends.wp_mono [OF sends_resolve])

lemma checked_warmup [checked_intros]: "checked_prog (step_warmup env row)"
proof -
  have send: "checked_prog (send_warmup row user account q)" for user account q
    unfolding send_warmup_def confirm_warmup_def Let_def
    by (intro checked_send checked_intros unchecked_calls)
  have failed: "checked_prog (bind back_to_synced (\<lambda>_. Throw (provisionFailure ''credential_not_valid'' False)) :: patch_entry list provision)"
    unfolding back_to_synced_def by (intro checked_intros)
  have account: "checked_prog (bind (accountFor row (Some user)) (\<lambda>account.
      if \<not> truthy_id (a_token account) \<or> a_status account \<noteq> ''valid''
      then bind back_to_synced (\<lambda>_. Throw (provisionFailure ''credential_not_valid'' False))
      else bind (lift (enterpriseOf env row)) (\<lambda>_.
        bind (resolve_warmup (the (a_token account)) [Messages, ChatCompletions, Responses]) (send_warmup row user account))))" for user
    unfolding checked_prog_def sends.wp_bind [of "accountFor _ _"]
  proof (intro allI, rule sends.wp_mono [OF sends_accountFor], goal_cases)
    case (1 b s account)
    then have s: "s = Linked" by simp
    show ?case unfolding s
      by (rule sends_if [OF _ checked_lookups [OF send]]) (use failed in \<open>simp add: checked_prog_def\<close>)
  qed simp
  show ?thesis unfolding step_warmup_def by (intro checked_intros unchecked_calls account)
qed

lemma checked_step_provision: "checked_prog (step_provision env row)"
  unfolding step_provision_def by (intro checked_intros)

section \<open>The adapter inside the context is tame\<close>

lemma tame_service: "\<not> needs_check c \<Longrightarrow> \<not> is_lookup c \<Longrightarrow> tame x (\<lambda>p. Await (Service c) (\<lambda>a. Return (f a, p)))"
  by (simp add: tame_def)

lemma tame_context_call: "\<not> needs_check c \<Longrightarrow> \<not> is_lookup c \<Longrightarrow> tame x (context_call x c)"
  by (cases c) (auto simp: context_call_def intro!: tame_service)

lemma wp_wrapped_assert:
  assumes "s \<noteq> Charged" "\<And>r. vouches x (Checked True r) r \<Longrightarrow> Q (Checked True r) (Done, p)"
    and "\<And>s' t. s' \<noteq> Charged \<Longrightarrow> E s' (t, p)"
  shows "fences.wp x (wrapped (andthen (readCurrent x True) (\<lambda>_. giving Done)) p) Q E s"
  unfolding wrapped_def fences.wp_andthen
  by (rule fences.wp_throwIfTimedOut) (use assms in \<open>auto intro!: wp_readCurrent fences.wp_throwIfTimedOut\<close>)

text \<open>
  The answer to a call. What the adapter's monitor knows, the evidence of the step backs: after an
  \<open>assertCurrent\<close> that returned there is evidence for a request.
\<close>

definition backs :: "StepContext \<Rightarrow> evidence \<Rightarrow> link \<Rightarrow> bool" where
  "backs x ev b \<longleftrightarrow> (b = Linked \<longrightarrow> (\<exists>r. vouches x ev r)) \<and> (b \<noteq> Unlinked \<longrightarrow> looks_up x ev)"

lemma wp_answer_call:
  assumes "s \<noteq> Charged" "may_send b c" "backs x s b"
    and ok: "\<And>s' a p'. s' \<noteq> Charged \<Longrightarrow> backs x s' (after_send b c a) \<Longrightarrow> Q s' (a, p')"
    and failed: "\<And>s' t p'. s' \<noteq> Charged \<Longrightarrow> E s' (t, p')"
  shows "fences.wp x (answer_call x c p) Q E s"
proof (cases "needs_check c \<or> is_lookup c")
  case True
  then have "context_call x c = (\<lambda>p. Await (Service c) (\<lambda>a. Return (case a of Answers v \<Rightarrow> v | _ \<Rightarrow> Fails OtherFailure, p)))"
    by (cases c) (simp_all add: context_call_def needs_check_def is_lookup_def)
  moreover have "may_step x s (Service c)" using assms(1-3) by (auto simp: may_send_def backs_def)
  moreover have "backs x (gather s (Service c) a) (after_send b c v)" for a v
    using True assms(3) looks_up_after [of x s c a] by (auto simp: backs_def after_send_def)
  ultimately show ?thesis using assms(1)
    by (auto simp: answer_call_def fences.wp_rescue intro!: ok)
next
  case other: False
  let ?E = "\<lambda>s (y :: thrown \<times> Pins). fences.wp x ((case fst y of Rejected f \<Rightarrow> giving (Fails f) | Aborted f \<Rightarrow> (\<lambda>p. Throw (Aborted f, p))) (snd y)) Q E s"
  have unlinked: "backs x s' Unlinked" for s' by (simp add: backs_def)
  have E: "?E s' (t, p')" if "s' \<noteq> Charged" for s' t p'
    using that other by (auto intro!: ok failed simp: after_send_def unlinked split: thrown.split)
  show ?thesis
  proof (cases "c = AssertCurrent")
    case True
    show ?thesis unfolding answer_call_def fences.wp_rescue True context_call_def call.case
      by (rule wp_wrapped_assert) (use assms(1) True E in \<open>auto intro!: ok simp: after_send_def backs_def vouches_def looks_up_def\<close>)
  next
    case False
    have "fences.wp x (context_call x c p) still_open still_open s"
      using other tame_wp [OF tame_context_call assms(1)] by blast
    then show ?thesis unfolding answer_call_def fences.wp_rescue
      by (rule fences.wp_mono) (use other False E in \<open>auto intro!: ok simp: after_send_def unlinked\<close>)
  qed
qed

lemma wp_handle:
  "sends_ok b q \<Longrightarrow> s \<noteq> Charged \<Longrightarrow> backs x s b \<Longrightarrow> fences.wp x (handle (answer_call x) q p) still_open still_open s"
proof (induction q arbitrary: b s p)
  case (Await c k)
  have c: "may_send b c" "\<And>a. sends_ok (after_send b c a) (k a)" using Await.prems(1) by simp_all
  have k: "fences.wp x (throwIfAborted p') (\<lambda>s y. fences.wp x (handle (answer_call x) (k a) (snd y)) still_open still_open s) still_open s'"
    if "s' \<noteq> Charged" "backs x s' (after_send b c a)" for s' a p'
    by (rule fences.wp_throwIfAborted) (use that Await.IH [of "k a" "after_send b c a"] c(2) in auto)
  show ?case unfolding handle.simps fences.wp_andthen
    by (rule wp_answer_call [where b = b]) (use Await.prems(2,3) c(1) k in auto)
qed simp_all

lemma tame_run_adapter [intro!]: "tame x (run_adapter x env)"
  using checked_step_provision [of env] unfolding tame_def run_adapter_def checked_prog_def
  by (auto intro: wp_handle [where b = Unlinked] simp: backs_def)

section \<open>The whole step\<close>

text \<open>The last checkpoint, and the event that follows it when it made the member ready.\<close>

lemma wp_checkpointing:
  assumes "s \<noteq> Charged"
  shows "fences.wp x (checkpointing x patch p) (\<lambda>s y. s \<noteq> Charged \<and> (patch_state patch = Some Ready \<longrightarrow> s = Promoted True))
    still_open s"
proof -
  let ?Q = "\<lambda>s (y :: Inventory \<times> Pins). s \<noteq> Charged \<and> (patch_state patch = Some Ready \<longrightarrow> s = Promoted True)"
  have adopted: "fences.wp x (andthen (adopt P saved) (\<lambda>r. if list_ex (\<lambda>e. entry_differs e r) patch
       then throwing (provisionFailure ''provision_storage_incompatible'' True) else giving r) p') ?Q still_open s'"
    if "s' \<noteq> Charged" "patch_state patch = Some Ready \<longrightarrow> (\<exists>b. s' = Promoted b)" for P saved p' s'
    unfolding adopt_def fences.wp_andthen
    by (rule fences.wp_throwIfAborted)
       (use that in \<open>auto simp: fences.wp_isCurrent fences.wp_andthen split: option.split\<close>)
  have saved: "fences.wp x (andthen (storage (ReadInventory (sc_identity x)) row_in) (\<lambda>saved. andthen (adopt P saved)
       (\<lambda>r. if list_ex (\<lambda>e. entry_differs e r) patch
          then throwing (provisionFailure ''provision_storage_incompatible'' True) else giving r)) p') ?Q still_open s'"
    if "s' \<noteq> Charged" "patch_state patch = Some Ready \<longrightarrow> s' = Promoted False" for P p' s'
    unfolding fences.wp_andthen [of x "storage (ReadInventory _) _"]
    by (rule fences.wp_storage) (use that in \<open>auto intro!: adopted\<close>)
  have written: "fences.wp x (andthen (storage (WriteUpdate (sc_identity x) patch r (sc_tenure x)) yes_in) (\<lambda>ok.
       andthen (guarding ok) (\<lambda>_. andthen (storage (ReadInventory (sc_identity x)) row_in) (\<lambda>saved. andthen (adopt P saved)
       (\<lambda>r. if list_ex (\<lambda>e. entry_differs e r) patch
          then throwing (provisionFailure ''provision_storage_incompatible'' True) else giving r)))) p') ?Q still_open (Checked True r)"
    if "vouches x (Checked True r) r" for P r p'
    unfolding fences.wp_andthen [of x "storage (WriteUpdate _ _ _ _) _"]
  proof (rule fences.wp_storage, goal_cases)
    case (2 a ok)
    then have a: "a = Yes ok" by blast
    show ?case
    proof (cases ok)
      case True
      have "fences.wp x (andthen (storage (ReadInventory (sc_identity x)) row_in) (\<lambda>saved. andthen (adopt P saved)
         (\<lambda>r. if list_ex (\<lambda>e. entry_differs e r) patch
            then throwing (provisionFailure ''provision_storage_incompatible'' True) else giving r)) p') ?Q still_open
         (gather (Checked True r) (WriteUpdate (sc_identity x) patch r (sc_tenure x)) (Yes True))" by (rule saved) simp_all
      then show ?thesis using True
        by (simp only: a fences.wp_andthen [of x "guarding _"] fences.wp_guarding fst_conv snd_conv if_True)
    qed (simp add: a fences.wp_andthen [of x "guarding _"])
  qed (use that in \<open>auto intro: may_write\<close>)
  show ?thesis unfolding checkpointing_def fences.wp_andthen [of x "readCurrent _ _"]
    by (rule wp_readCurrent) (use assms written in auto)
qed

lemma patch_state_with_retry [simp]: "patch_state (with_retry t patch) = patch_state patch"
proof -
  have "patch_state (patch @ [PRetryAt t]) = patch_state patch" by (induction patch rule: patch_state.induct) simp_all
  then show ?thesis by (simp add: with_retry_def)
qed

lemma tame_announced:
  "tame x (andthen (checkpointing x (with_retry t patch)) (\<lambda>_.
     if patch_state patch = Some Ready then storage (WriteEvent ''account_ready'' (sc_identity x)) finished_in else giving ()))"
proof -
  have event: "fences.wp x (storage (WriteEvent ''account_ready'' (sc_identity x)) finished_in p) still_open still_open (Promoted True)" for p
    by (rule fences.wp_storage) auto
  show ?thesis unfolding tame_def fences.wp_andthen
    by (intro allI impI, rule fences.wp_mono [OF wp_checkpointing]) (use event in auto)
qed

lemma tame_step_body: "tame x (step_body x env poll)"
proof -
  have "tame x (progressed patch)" for patch by (simp add: tame_def progressed_def)
  then show ?thesis unfolding step_body_def by (auto intro!: tame_announced split del: if_split)
qed

lemma wp_charge: "s \<noteq> Charged \<Longrightarrow> fences.wp x (charge x t p) (\<lambda>s y. True) (\<lambda>s y. True) s"
proof -
  assume "s \<noteq> Charged"
  have fail: "fences.wp x (storage (WriteFail (sc_identity x) code r (sc_tenure x) terminal) finished_in p') (\<lambda>s y. True) (\<lambda>s y. True) (Checked True r)"
    if "vouches x (Checked True r) r" for r code terminal p'
    by (rule fences.wp_storage) (use that in \<open>auto intro: may_write\<close>)
  have "fences.wp x (rescue (andthen (readCurrent x False) (\<lambda>r. giving (Some r))) (\<lambda>_. giving None) p')
     (\<lambda>s y. fences.wp x ((case fst y of None \<Rightarrow> giving ()
       | Some r \<Rightarrow> storage (WriteFail (sc_identity x) code r (sc_tenure x) terminal) finished_in) (snd y)) (\<lambda>s y. True) (\<lambda>s y. True) s)
     (\<lambda>s y. True) s'" if "s' \<noteq> Charged" for s' p' code terminal
    unfolding fences.wp_rescue fences.wp_andthen
    by (rule wp_readCurrent) (use that fail in auto)
  then show ?thesis unfolding charge_def fences.wp_andthen
    using \<open>s \<noteq> Charged\<close> by (auto simp: fences.wp_isCurrent fences.wp_andthen)
qed

text \<open>Before the adapter runs: the row may be restarted, on evidence without a renewal.\<close>

lemma tame_adopt_provisioning [intro!]: "tame x (adopt_provisioning x r)"
  by (simp add: tame_def adopt_provisioning_def)

lemma tame_option [intro!]: "tame x m \<Longrightarrow> (\<And>r. tame x (f r)) \<Longrightarrow> tame x (case v of None \<Rightarrow> m | Some r \<Rightarrow> f r)"
  by (cases v) simp_all

lemma wp_restart:
  assumes "state r = Pool_Tables.Failed" "attempt_id r = sc_attempt x"
  shows "fences.wp x (restart x r p) still_open still_open (Checked False r)"
proof -
  have rest: "tame x (if \<not> ok then giving False else andthen (storage (ReadInventory (sc_identity x)) row_in) (\<lambda>latest.
       case latest of None \<Rightarrow> giving False
       | Some q \<Rightarrow> if stage q \<noteq> stage r \<or> generation q \<noteq> generation r + 1 then giving False else adopt_provisioning x q))" for ok
    by (cases ok) auto
  show ?thesis unfolding restart_def fences.wp_andthen [of x "storage (WriteUpdate _ _ _ _) _"]
  proof (rule fences.wp_storage, goal_cases)
    case (2 a ok)
    show ?case unfolding fst_conv snd_conv by (rule tame_wp [OF rest]) simp
  qed (use assms in \<open>auto simp: may_step_def [of x _ "WriteUpdate _ _ _ _"]\<close>)
qed


lemma wp_admit_row:
  assumes "attempt_id r = sc_attempt x"
  shows "fences.wp x (admit_row x r p) still_open still_open (Seen False r)"
proof -
  have owned: "fences.wp x (andthen isCurrent (\<lambda>owned. if \<not> owned then giving False
        else if state r = Pool_Tables.Failed then restart x r else adopt_provisioning x r) p) still_open still_open (Unheld False r)"
    using assms wp_restart [of r x]
    by (auto simp: fences.wp_andthen fences.wp_isCurrent intro!: tame_wp [OF tame_adopt_provisioning])
  show ?thesis unfolding admit_row_def fences.wp_andthen [of x "storage _ _"]
  proof (rule fences.wp_storage, goal_cases)
    case (2 a held)
    then have "a = Yes held" by blast
    then show ?case using owned by (cases held) simp_all
  qed simp_all
qed

lemma wp_admit:
  assumes "attempt_id row = sc_attempt x"
  shows "fences.wp x (admit x row p) still_open still_open NoEvidence"
proof -
  have row: "fences.wp x (andthen (storage (ReadInventory (sc_identity x)) row_in) (admit_latest x row) p) still_open still_open NoEvidence" for p
    unfolding fences.wp_andthen [of x "storage (ReadInventory _) _"]
  proof (rule fences.wp_storage, goal_cases)
    case (2 a latest)
    then have "a = Row latest" by blast
    then show ?case using wp_admit_row assms by (cases latest) (auto simp: admit_latest_def)
  qed simp_all
  have settings: "fences.wp x (andthen (storage ReadSettings yes_in) (\<lambda>is_paused. if is_paused then giving False else
     andthen (storage (ReadInventory (sc_identity x)) row_in) (admit_latest x row)) p) still_open still_open NoEvidence" for p
    unfolding fences.wp_andthen [of x "storage ReadSettings _"]
    by (rule fences.wp_storage) (use row in auto)
  show ?thesis unfolding admit_def fences.wp_andthen [of x isCurrent] fences.wp_isCurrent
  proof (intro conjI allI, goal_cases)
    case (2 a)
    show ?case using settings by (cases "a = Yes True") simp_all
  qed simp
qed

lemma wp_advance:
  assumes "attempt_id row = sc_attempt x"
  shows "fences.wp x (advance x env poll row p) (\<lambda>s y. True) (\<lambda>s y. True) NoEvidence"
proof -
  have body: "fences.wp x (rescue (step_body x env poll) (charge x) p') (\<lambda>s y. True) (\<lambda>s y. True) s" if "s \<noteq> Charged" for p' s
    unfolding fences.wp_rescue
    by (rule fences.wp_mono [OF tame_wp [OF tame_step_body that]]) (simp_all add: wp_charge)
  show ?thesis unfolding advance_def fences.wp_andthen
    by (rule fences.wp_mono [OF wp_admit [OF assms]]) (simp_all add: body)
qed

text \<open>
  C8. In every execution of a worker's step, whatever the store, the services and the worker's own tenure answer
  and wherever the process dies, every write to the member's row, its credential or its login slot is for the
  member the step was launched for and under the tenure it was launched under, and is fenced with the very
  row that the step read just before, after a renewal of the tenure that succeeded and before a check that
  the tenure is still held: a row that is being provisioned, of the same attempt, without holds. There are
  two exceptions. The write that takes up a failed member again comes without the renewal: its row was
  read, found without holds and the tenure checked by the worker's own clock; it changes nothing but the
  state. The audit event carries no fence: it is only ever \<open>account_ready\<close> for that member, once for each
  fenced update to \<open>Ready\<close> that the store accepted, and after the tenure was found held since.
  Every request to the SSO or Login service and the warm-up request directly follows such a check. The
  lookup of a model, up to one for each of the three API paths, directly follows a check or another lookup
  that does. A failure is charged at most once, and nothing is written or sent after it.
\<close>

theorem step_writes_fenced:
  assumes "play answers (launched_step tn env poll row) = (tr, out)"
  shows "fences.watched \<lparr>sc_identity = identity row, sc_attempt = attempt_id row, sc_tenure = tn\<rparr> NoEvidence tr"
  using fences.wp_play [OF wp_advance assms [unfolded launched_step_def]] by simp


text \<open>A step that finds an unconfirmed creation and charges the failure.\<close>

definition example_check :: "Inventory \<Rightarrow> step_answer list" where
  "example_check r = [Finished, Yes True, Row (Some r), Yes False, Finished, Yes True]"

definition example_charging :: "step_answer list" where
  "example_charging = [Yes True, Yes False, Row (Some (example_row ''sso-creating'')), Yes False, Yes True] @
     example_check (example_row ''sso-creating'') @ [Finished] @ example_check (example_row ''sso-creating'') @ [Finished, Finished] @
     [Yes True, Yes True, Row (Some (example_row ''sso-creating'')), Yes False, Yes True, Finished]"

theorem step_writes_fenced_witness:
  "fences.watched \<lparr>sc_identity = ''ada00'', sc_attempt = ''a'', sc_tenure = ''t''\<rparr> NoEvidence
     (fst (play example_charging (launched_step ''t'' example_env 1000 (example_row ''sso-creating'')))) \<and>
   last (fst (play example_charging (launched_step ''t'' example_env 1000 (example_row ''sso-creating'')))) =
     (WriteFail ''ada00'' ''sso_creation_ambiguous'' (example_row ''sso-creating'') ''t'' True, Some Finished)"
proof -
  have "last (fst (play example_charging (launched_step ''t'' example_env 1000 (example_row ''sso-creating'')))) =
     (WriteFail ''ada00'' ''sso_creation_ambiguous'' (example_row ''sso-creating'') ''t'' True, Some Finished)" by code_simp
  moreover have "identity (example_row ''sso-creating'') = ''ada00''" "attempt_id (example_row ''sso-creating'') = ''a''"
    by (simp_all add: example_row_def)
  ultimately show ?thesis
    using step_writes_fenced [OF prod.collapse [symmetric], where answers = example_charging and tn = "''t''" and env = example_env
        and poll = 1000 and row = "example_row ''sso-creating''"] by simp
qed

section \<open>A step ends\<close>

lemma calls_andthen:
  "(\<And>p. calls_at_most (m p) k) \<Longrightarrow> (\<And>r p. calls_at_most (f r p) n) \<Longrightarrow> calls_at_most (andthen m f p) (k + n)"
  unfolding andthen_def by (rule calls_at_most_bind) (auto split: prod.split)

lemma calls_andthen_up:
  "(\<And>p. calls_at_most (m p) k) \<Longrightarrow> (\<And>r p. calls_at_most (f r p) n) \<Longrightarrow> k + n \<le> l \<Longrightarrow> calls_at_most (andthen m f p) l"
  using calls_andthen calls_at_most_mono by blast

lemma calls_rescue:
  "(\<And>p. calls_at_most (m p) k) \<Longrightarrow> (\<And>t p. calls_at_most (h t p) n) \<Longrightarrow> k + n \<le> l \<Longrightarrow> calls_at_most (rescue m h p) l"
  unfolding rescue_def by (rule calls_at_most_mono [OF calls_at_most_catching]) (auto split: prod.split)

lemma calls_basic [simp]:
  "calls_at_most (giving r p) n" "calls_at_most (throwing f p) n" "calls_at_most (guarding b p) n"
  "0 < n \<Longrightarrow> calls_at_most (isCurrent p) n" "0 < n \<Longrightarrow> calls_at_most (renewing p) n"
  "0 < n \<Longrightarrow> calls_at_most (throwIfAborted p) n" "0 < n \<Longrightarrow> calls_at_most (throwIfTimedOut p) n"
  by (simp_all add: giving_def throwing_def guarding_def isCurrent_def renewing_def throwIfAborted_def throwIfTimedOut_def
        split: step_answer.split)

text \<open>A call of the store that fails costs one call more, but then the step goes no further.\<close>

lemma calls_storage:
  "(\<And>r p. calls_at_most (f r p) n) \<Longrightarrow> 0 < n \<Longrightarrow> Suc n \<le> l \<Longrightarrow> calls_at_most (andthen (storage c g) f p) l"
  unfolding andthen_def storage_def
  by (rule calls_at_most_mono [where m = "Suc n"]) (auto split: option.split)

lemma calls_last_storage [simp]: "2 \<le> n \<Longrightarrow> calls_at_most (storage c g p) n"
  by (auto simp: storage_def split: option.split)

lemma calls_readCurrent: "calls_at_most (readCurrent x b p) 6"
  unfolding readCurrent_def
  by (rule calls_andthen_up [where k = 1 and n = 5], simp,
      rule calls_andthen_up [where k = 1 and n = 4], simp,
      rule calls_andthen_up [where k = 0 and n = 4], simp,
      rule calls_storage [where n = 3], rule calls_storage [where n = 2],
      rule calls_andthen_up [where k = 1 and n = 1], simp,
      rule calls_andthen_up [where k = 1 and n = 0])
     (simp_all split: option.split)

lemma calls_adopt: "calls_at_most (adopt P saved p) 2"
  unfolding adopt_def
  by (rule calls_andthen_up [where k = 1 and n = 1], simp, rule calls_andthen_up [where k = 1 and n = 0])
     (simp_all split: option.split)

lemma calls_checkpointing: "calls_at_most (checkpointing x patch p) 10"
  unfolding checkpointing_def
  by (rule calls_andthen_up [OF calls_readCurrent, where n = 4], rule calls_storage [where n = 3],
      rule calls_andthen_up [where k = 0 and n = 3], simp, rule calls_storage [where n = 2],
      rule calls_andthen_up [OF calls_adopt, where n = 0])
     simp_all

lemma calls_claimingDispatch: "calls_at_most (claimingDispatch x n p) 13"
proof -
  have rest: "calls_at_most ((if \<not> claimed then andthen (readCurrent x True) (\<lambda>_. giving None)
     else andthen (storage (ReadInventory (sc_identity x)) row_in) (\<lambda>saved. andthen (adopt P saved) (\<lambda>r. giving (Some r)))) p) 6"
    for claimed P p
    by (cases claimed; simp; (rule calls_andthen_up [OF calls_readCurrent, where n = 0]
        | rule calls_storage [where n = 2], rule calls_andthen_up [OF calls_adopt, where n = 0]); simp)
  show ?thesis unfolding claimingDispatch_def
    by (rule calls_andthen_up [OF calls_readCurrent, where n = 7], rule calls_storage [OF rest]) simp_all
qed

lemma calls_mutateCredentials: "calls_at_most (mutateCredentials x m p) 13"
  unfolding mutateCredentials_def
  by (rule calls_andthen_up [OF calls_readCurrent, where n = 7], rule calls_andthen_up [where k = 0 and n = 7], simp,
      rule calls_storage [where n = 6], rule calls_andthen_up [where k = 0 and n = 6], simp,
      rule calls_andthen_up [where k = 0 and n = 6], simp, rule calls_andthen_up [OF calls_readCurrent, where n = 0])
     simp_all

lemma calls_wrapped: "(\<And>p. calls_at_most (m p) k) \<Longrightarrow> calls_at_most (wrapped m p) (k + 2)"
  unfolding wrapped_def
  by (rule calls_andthen_up [where k = 1 and n = "k + 1"], simp, rule calls_andthen_up [where k = k and n = 1], assumption,
      rule calls_andthen_up [where k = 1 and n = 0]) simp_all

lemma calls_then_give: "(\<And>p. calls_at_most (m p) k) \<Longrightarrow> calls_at_most (andthen m (\<lambda>r. giving (f r)) p) k"
  by (rule calls_andthen_up [where k = k and n = 0]) simp_all

lemma calls_wrapped_give: "(\<And>p. calls_at_most (m p) k) \<Longrightarrow> k \<le> 13 \<Longrightarrow> calls_at_most (wrapped (andthen m (\<lambda>r. giving (f r))) p) 15"
  by (rule calls_at_most_mono [OF calls_wrapped [where k = k]]) (simp_all add: calls_then_give)

lemma calls_context_call: "calls_at_most (context_call x c p) 15"
proof (cases c)
  case PinCredentials
  have "calls_at_most (pinCredentials x p) 6" for p
    unfolding pinCredentials_def
    by (rule calls_andthen_up [OF calls_readCurrent, where n = 0]) (simp_all add: pin_generation_def)
  then show ?thesis using PinCredentials calls_wrapped_give [where m = "pinCredentials x" and k = 6] by (simp add: context_call_def)
next
  case (ClaimLoginDispatch n)
  then show ?thesis
    using calls_at_most_mono [OF calls_then_give [where m = "claimingDispatch x n" and k = 13 and f = RowIs]]
    by (simp add: context_call_def calls_claimingDispatch)
next
  case ThrowIfAborted
  then show ?thesis using calls_then_give [where m = throwIfTimedOut and k = 15] by (simp add: context_call_def)
qed (simp_all add: context_call_def calls_wrapped_give [OF calls_readCurrent] calls_wrapped_give [OF calls_mutateCredentials]
       calls_wrapped_give [OF calls_checkpointing])

lemma calls_answer_call: "calls_at_most (answer_call x c p) 15"
  unfolding answer_call_def
  by (rule calls_rescue [OF calls_context_call, where n = 0]) (simp_all split: thrown.split)

lemma calls_handle: "calls_at_most q n \<Longrightarrow> calls_at_most (handle (answer_call x) q p) (16 * n)"
proof (induction q arbitrary: n p)
  case (Await c k)
  then obtain m where n: "n = Suc m" by (cases n) simp_all
  have "calls_at_most (andthen throwIfAborted (\<lambda>_. handle (answer_call x) (k a)) p) (1 + 16 * m)" for a p
    by (rule calls_andthen) (use Await n in simp_all)
  then show ?case unfolding handle.simps n
    by (intro calls_andthen_up [OF calls_answer_call, where n = "1 + 16 * m"]) simp_all
qed simp_all

lemma calls_step_body: "calls_at_most (step_body x env poll p) 979"
  unfolding step_body_def
proof (rule calls_andthen_up [OF calls_readCurrent, where n = 973])
  have run: "calls_at_most (run_adapter x env p) 960" for p
    using calls_handle [OF calls_step_provision, of x] by (simp add: run_adapter_def)
  have final: "calls_at_most (andthen (checkpointing x e) (\<lambda>_. if b then storage (WriteEvent act i) finished_in else giving ()) p) 12" for e b act i p
    by (rule calls_andthen_up [OF calls_checkpointing, where n = 2]) simp_all
  show "calls_at_most (andthen (run_adapter x env) (\<lambda>patch. andthen (progressed patch) (\<lambda>moved. andthen (storage ReadNow at_in) (\<lambda>now.
      andthen (checkpointing x (with_retry (now + (if moved then 0 else poll)) patch)) (\<lambda>_.
      if patch_state patch = Some Ready then storage (WriteEvent ''account_ready'' (sc_identity x)) finished_in else giving ())))) p) 973" for p
    by (rule calls_andthen_up [OF run, where n = 13], rule calls_andthen_up [where k = 0 and n = 13],
        simp add: progressed_def, rule calls_storage [OF final]) simp_all
qed simp

lemma calls_charge: "calls_at_most (charge x t p) 9"
proof -
  have "calls_at_most (rescue (andthen (readCurrent x False) (\<lambda>r. giving (Some r))) (\<lambda>_. giving None) p) 6" for p
    by (rule calls_rescue [OF calls_then_give [OF calls_readCurrent], where n = 0]) simp_all
  then show ?thesis unfolding charge_def
    by (intro calls_andthen_up [where k = 1 and n = 8])
       (auto intro!: calls_andthen_up [where k = 6 and n = 2] split: option.split)
qed

lemma calls_restart: "calls_at_most (restart x r p) 3"
  unfolding restart_def
  by (rule calls_storage [where n = 2]) (auto simp: adopt_provisioning_def intro!: calls_storage [where n = 1] split: option.split)

lemma calls_admit: "calls_at_most (admit x row p) 8"
proof -
  have owned: "calls_at_most (andthen isCurrent (\<lambda>owned. if \<not> owned then giving False
       else if state r = Pool_Tables.Failed then restart x r else adopt_provisioning x r) p) 4" for r p
    by (rule calls_andthen_up [where k = 1 and n = 3]) (simp_all add: calls_restart adopt_provisioning_def)
  have row: "calls_at_most (admit_row x r p) 5" for r p
    unfolding admit_row_def by (rule calls_storage [where n = 4]) (use owned in auto)
  have latest: "calls_at_most (admit_latest x row l p) 5" for l p
    by (auto simp: admit_latest_def row split: option.split)
  have inventory: "calls_at_most (andthen (storage (ReadInventory (sc_identity x)) row_in) (admit_latest x row) p) 6" for p
    by (rule calls_storage [where n = 5]) (simp_all add: latest)
  have settings: "calls_at_most (andthen (storage ReadSettings yes_in) (\<lambda>is_paused. if is_paused then giving False else
     andthen (storage (ReadInventory (sc_identity x)) row_in) (admit_latest x row)) p) 7" for p
    by (rule calls_storage [where n = 6]) (simp_all add: inventory)
  show ?thesis unfolding admit_def
    by (rule calls_andthen_up [where k = 1 and n = 7]) (simp_all add: settings)
qed

lemma calls_advance: "calls_at_most (advance x env poll row p) 1000"
  unfolding advance_def
  by (rule calls_andthen_up [OF calls_admit, where n = 988])
     (auto intro!: calls_rescue [OF calls_step_body, where n = 9] calls_charge)

text \<open>
  C24. A step of the worker ends: once a thousand calls have been answered, whatever the answers and however the
  adapter's task search goes, it has returned or thrown. The bound composes the sixty calls of an adapter
  step with the calls that the fenced context makes for each of them.
\<close>

theorem worker_step_ends:
  assumes "play answers (launched_step tn env poll row) = (tr, out)"
  shows "length tr \<le> 1000 \<and> (1000 \<le> length answers \<longrightarrow> out \<noteq> Waiting)"
  using calls_at_most_play [OF calls_advance assms [unfolded launched_step_def]] .

theorem worker_step_ends_witness:
  "length (fst (play example_charging (launched_step ''t'' example_env 1000 (example_row ''sso-creating'')))) = 26 \<and>
   length (fst (play (replicate 1000 Finished) (launched_step ''t'' example_env 1000 (example_row ''sso-creating'')))) \<le> 1000"
proof -
  have "length (fst (play example_charging (launched_step ''t'' example_env 1000 (example_row ''sso-creating'')))) = 26" by code_simp
  then show ?thesis
    using worker_step_ends [OF prod.collapse [symmetric], where answers = "replicate 1000 Finished" and tn = "''t''" and env = example_env
        and poll = 1000 and row = "example_row ''sso-creating''"] by simp
qed

end
