(* ===== verification/Worker_Recording.thy ===== *)
theory Worker_Recording
  imports Worker_Fencing
begin

text \<open>
  The composition of the adapter, the fenced context and the store's answers: what the adapter's monitor
  (\<open>effects\<close>) takes for recorded has been accepted by the store, so a request with a side effect leaves the
  process only after the store has accepted the stage that guards it.
\<close>

section \<open>What the store has recorded before a request\<close>

text \<open>
  The stage that the store accepted last from this step and that no request has used up. A refused or
  failed write of a stage leaves nothing to rely on.
\<close>

definition may_post :: "string option \<Rightarrow> step_call \<Rightarrow> bool" where
  "may_post pending c \<longleftrightarrow> (case c of
     Service d \<Rightarrow> (case guard_stage d of None \<Rightarrow> True | Some g \<Rightarrow> pending = Some g)
   | _ \<Rightarrow> True)"

definition after_post :: "string option \<Rightarrow> step_call \<Rightarrow> step_answer \<Rightarrow> string option" where
  "after_post pending c a = (case c of
     WriteUpdate i patch r ow \<Rightarrow> (case patch_stage patch of None \<Rightarrow> pending | Some st \<Rightarrow> if a = Yes True then Some st else None)
   | WriteDispatch i r ow n \<Rightarrow> if a = Yes True then Some ''oauth-dispatch'' else None
   | Service d \<Rightarrow> if guard_stage d = None then pending else None
   | _ \<Rightarrow> pending)"

interpretation posts: step_monitor may_post after_post .

lemma may_post_simps [simp]: "(\<And>d. c \<noteq> Service d) \<Longrightarrow> may_post pending c"
  by (cases c; simp add: may_post_def; blast)

lemma after_post_simps [simp]:
  "after_post pending CheckTenure a = pending" "after_post pending RenewTenure a = pending"
  "after_post pending (LoseTenure e) a = pending" "after_post pending CheckSignal a = pending"
  "after_post pending CheckTimeout a = pending" "after_post pending (ReadInventory i) a = pending"
  "after_post pending (ReadHolds i) a = pending" "after_post pending (WriteCredential i r ow m) a = pending"
  "after_post pending (WriteDispatch i r ow n) a = (if a = Yes True then Some ''oauth-dispatch'' else None)"
  by (simp_all add: after_post_def)

text \<open>The operations that record no stage.\<close>

definition silent :: "'r step \<Rightarrow> bool" where
  "silent m \<longleftrightarrow> (\<forall>p s. posts.wp (m p) (\<lambda>s' y. s' = s) (\<lambda>s' y. s' = s) s)"

lemma silent_wp: "silent m \<Longrightarrow> (\<And>y. Q s y) \<Longrightarrow> (\<And>y. E s y) \<Longrightarrow> posts.wp (m p) Q E s"
  unfolding silent_def by (blast intro: posts.wp_mono)

lemma silent_andthen [intro!]: "silent m \<Longrightarrow> (\<And>r. silent (f r)) \<Longrightarrow> silent (andthen m f)"
  unfolding silent_def posts.wp_andthen by (blast intro: posts.wp_mono)

lemma silent_basic [intro!, simp]:
  "silent (giving r)" "silent (throwing f)" "silent (guarding b)" "silent throwIfAborted" "silent throwIfTimedOut"
  "silent isCurrent" "silent renewing"
  by (auto simp: silent_def posts.wp_isCurrent posts.wp_renewing intro!: posts.wp_throwIfAborted posts.wp_throwIfTimedOut)

lemma silent_storage [intro!]:
  "(\<And>d. c \<noteq> Service d) \<Longrightarrow> (\<And>s a. after_post s c a = s) \<Longrightarrow> silent (storage c f)"
  by (auto simp: silent_def intro!: posts.wp_storage)

lemma silent_readCurrent [intro!]: "silent (readCurrent x b)"
proof -
  have "silent (\<lambda>p. case latest of None \<Rightarrow> throwing fenced_failure p
     | Some r \<Rightarrow> if \<not> owned \<or> \<not> still_current x p r \<or> held then throwing fenced_failure p else giving r p)" for latest owned held
    by (auto simp: silent_def split: option.split)
  then show ?thesis unfolding readCurrent_def by auto
qed

lemma silent_adopt [intro!]: "silent (adopt P saved)"
proof -
  have "silent (\<lambda>p. case saved of None \<Rightarrow> throwing fenced_failure p
     | Some r \<Rightarrow> if \<not> owned \<or> \<not> P p r then throwing fenced_failure p else giving r (p\<lparr>current := r\<rparr>))" for owned
    by (auto simp: silent_def split: option.split)
  then show ?thesis unfolding adopt_def by (intro silent_andthen silent_basic)
qed

lemma silent_mutateCredentials [intro!]: "silent (mutateCredentials x m)"
proof -
  have "silent (\<lambda>p. guarding (b p) p)" "silent (\<lambda>p. giving () (g p))" for b g
    by (simp_all add: silent_def)
  then show ?thesis unfolding mutateCredentials_def by (auto split del: if_split)
qed

lemma silent_pinCredentials [intro!]: "silent (pinCredentials x)"
proof -
  have "silent (pin_generation g)" for g by (simp add: silent_def pin_generation_def)
  then show ?thesis unfolding pinCredentials_def by auto
qed

lemma silent_wrapped [intro!]: "silent m \<Longrightarrow> silent (wrapped m)"
  unfolding wrapped_def by auto

text \<open>What the monitor of the adapter (\<open>effects\<close>) has recorded, the store has accepted.\<close>

definition backed :: "string option \<Rightarrow> string option \<Rightarrow> bool" where
  "backed r pending \<longleftrightarrow> r = None \<or> r = pending"

lemma posts_checkpointing:
  assumes saved: "\<And>r p'. Q (case patch_stage patch of None \<Rightarrow> s | Some st \<Rightarrow> Some st) (r, p')"
    and same: "\<And>t p'. E s (t, p')" and failed: "\<And>s' t p'. patch_stage patch \<noteq> None \<Longrightarrow> E s' (t, p')"
  shows "posts.wp (checkpointing x patch p) Q E s"
  unfolding checkpointing_def posts.wp_andthen [of "readCurrent _ _"]
proof (rule silent_wp [OF silent_readCurrent], goal_cases)
  case (1 y)
  let ?s = "case patch_stage patch of None \<Rightarrow> s | Some st \<Rightarrow> Some st"
  have E: "E ?s z" for z using same failed by (cases z; cases "patch_stage patch"; simp)
  have rest: "silent (andthen (guarding ok) (\<lambda>_. andthen (storage (ReadInventory (sc_identity x)) row_in) (\<lambda>saved.
     andthen (adopt P saved) (\<lambda>r. if list_ex (\<lambda>e. entry_differs e r) patch
       then throwing (provisionFailure ''provision_storage_incompatible'' True) else giving r))))" for ok P
    by auto
  have other: "E (after_post s (WriteUpdate i patch r ow) a) z" for i r ow a z
    using same failed by (cases z) (auto simp: after_post_def split: option.split)
  show ?case unfolding posts.wp_andthen [of "storage _ _"] fst_conv snd_conv
  proof (rule posts.wp_storage, goal_cases)
    case (2 a ok)
    then have a: "a = Yes ok" by blast
    show ?case
    proof (cases ok)
      case True
      then have "after_post s (WriteUpdate (sc_identity x) patch (fst y) (sc_tenure x)) a = ?s" by (simp add: a after_post_def split: option.split)
      then show ?thesis unfolding fst_conv snd_conv
        by (simp only:) (rule silent_wp [OF rest]; use saved E in auto)
    next
      case False
      then show ?thesis unfolding fst_conv snd_conv posts.wp_andthen by (simp add: other)
    qed
  qed (simp_all add: other)
qed (use same in \<open>auto simp: split_paired_all\<close>)


lemma posts_claimingDispatch:
  "posts.wp (claimingDispatch x n p) (\<lambda>s' y. fst y \<noteq> None \<longrightarrow> s' = Some ''oauth-dispatch'') (\<lambda>s' y. True) s"
proof -
  have refused: "silent (andthen (readCurrent x True) (\<lambda>_. giving (None :: Inventory option)))" by auto
  have admitted: "silent (andthen (storage (ReadInventory (sc_identity x)) row_in) (\<lambda>saved. andthen (adopt P saved) (\<lambda>r. giving (Some r))))" for P
    by auto
  show ?thesis unfolding claimingDispatch_def posts.wp_andthen [of "readCurrent _ _"]
  proof (rule silent_wp [OF silent_readCurrent], goal_cases)
    case (1 y)
    show ?case unfolding posts.wp_andthen [of "storage (WriteDispatch _ _ _ _) _"] fst_conv snd_conv
    proof (rule posts.wp_storage, goal_cases)
      case (2 a claimed)
      then have a: "a = Yes claimed" by blast
      have none: "posts.wp (andthen (readCurrent x True) (\<lambda>_. giving (None :: Inventory option)) p') (\<lambda>s' y. fst y \<noteq> None \<longrightarrow> s' = Some ''oauth-dispatch'')
          (\<lambda>s' y. True) s'" for p' s'
        unfolding posts.wp_andthen by (rule silent_wp [OF silent_readCurrent]) simp_all
      show ?case
      proof (cases claimed)
        case True
        then show ?thesis unfolding a by (auto intro!: silent_wp [OF admitted])
      next
        case False
        then show ?thesis unfolding fst_conv snd_conv by (simp only: not_False_eq_True if_True) (rule none)
      qed
    qed simp_all
  qed simp
qed

lemma silent_context_call:
  "guard_stage c = None \<Longrightarrow> call_stage c = None \<Longrightarrow> (\<And>e. c \<noteq> Checkpoint e) \<Longrightarrow> silent (context_call x c)"
proof -
  assume c: "guard_stage c = None" "call_stage c = None" "\<And>e. c \<noteq> Checkpoint e"
  have "silent (\<lambda>p. Await (Service c) (\<lambda>a. Return (f a, p)))" for f :: "step_answer \<Rightarrow> answer"
    using c(1) by (simp add: silent_def may_post_def after_post_def)
  then show ?thesis using c by (cases c) (auto simp: context_call_def)
qed

lemma after_call_silent: "guard_stage c = None \<Longrightarrow> call_stage c = None \<Longrightarrow> after_call st c a = st"
  by (simp add: after_call_def)

text \<open>A call that throws into the adapter, and one that the adapter's timeout ends after it returned.\<close>

lemma posts_wrapped:
  assumes "posts.wp (m p) (\<lambda>s y. Q s y \<and> (\<forall>f. E s (Rejected f, snd y))) E s" "\<And>t. E s (t, p)"
  shows "posts.wp (wrapped m p) Q E s"
proof -
  have last: "posts.wp (andthen throwIfTimedOut (\<lambda>_. giving (fst y)) (snd y)) Q E s'"
    if "Q s' y \<and> (\<forall>f. E s' (Rejected f, snd y))" for y s'
    unfolding posts.wp_andthen by (rule posts.wp_throwIfTimedOut) (use that in simp_all)
  have "posts.wp (m p) (\<lambda>s y. posts.wp (andthen throwIfTimedOut (\<lambda>_. giving (fst y)) (snd y)) Q E s) E s"
    by (rule posts.wp_mono [OF assms(1) last]) auto
  then show ?thesis unfolding wrapped_def posts.wp_andthen [of throwIfTimedOut] posts.wp_andthen [of m]
    by (intro posts.wp_throwIfTimedOut) (use assms(2) in simp_all)
qed

lemma posts_answer_call:
  assumes backed: "backed (snd st) s" and may: "may_call st c"
    and ok: "\<And>s' a p'. backed (snd (after_call st c a)) s' \<Longrightarrow> Q s' (a, p')" and failed: "\<And>s' y. E s' y"
  shows "posts.wp (answer_call x c p) Q E s"
proof -
  define good where "good s' a \<longleftrightarrow> backed (snd (after_call st c a)) s'" for s' a
  have rescued: "posts.wp (answer_call x c p) Q E s"
    if "posts.wp (context_call x c p) (\<lambda>s' y. good s' (fst y)) (\<lambda>s' y. \<forall>f. good s' (Fails f)) s"
    unfolding answer_call_def posts.wp_rescue
    by (rule posts.wp_mono [OF that]) (auto intro!: ok failed simp: good_def split: thrown.split)
  have quiet: "good s a" if "guard_stage c = None" "call_stage c = None" for a
    using backed that by (simp add: good_def after_call_silent)
  consider (checkpoint) e where "c = Checkpoint e" | (claim) n where "c = ClaimLoginDispatch n"
    | (request) s1 e1 p1 b1 g where "c = Fetch s1 e1 p1 b1" "guard_stage c = Some g"
    | (silent) "guard_stage c = None" "call_stage c = None" "\<And>e. c \<noteq> Checkpoint e"
    by (cases c; cases "guard_stage c") auto
  then show ?thesis
  proof cases
    case (checkpoint e)
    have saved: "good (case patch_stage e of None \<Rightarrow> s | Some st \<Rightarrow> Some st) (RowIs (Some r))" for r
      using backed checkpoint by (auto simp: good_def after_call_def backed_def split: option.split)
    have same: "good s (Fails f)" for f
      using backed checkpoint by (auto simp: good_def after_call_def backed_def split: option.split)
    have lost: "good s' (Fails f)" if "patch_stage e \<noteq> None" for s' f
      using that checkpoint by (auto simp: good_def after_call_def backed_def)
    have after: "good (case patch_stage e of None \<Rightarrow> s | Some st \<Rightarrow> Some st) (Fails f)" for f
      using same lost by (cases "patch_stage e") simp_all
    show ?thesis
      by (rule rescued, unfold checkpoint context_call_def call.case, rule posts_wrapped, unfold posts.wp_andthen, rule posts_checkpointing)
         (use saved same lost after in auto)
  next
    case (claim n)
    have c: "good (Some ''oauth-dispatch'') a" "good s' (RowIs None)" "good s' (Fails f)" for a s' f
      using claim by (auto simp: good_def after_call_def backed_def)
    have "good s' (RowIs (fst y))" if "fst y \<noteq> None \<longrightarrow> s' = Some ''oauth-dispatch''" for s' and y :: "Inventory option \<times> Pins"
      using that c by (cases "fst y") auto
    then show ?thesis
      by (intro rescued, unfold claim context_call_def call.case posts.wp_andthen)
         (rule posts.wp_mono [OF posts_claimingDispatch]; use c in auto)
  next
    case (request s1 e1 p1 b1 g)
    have "s = Some g" using may backed request by (auto simp: may_call_def backed_def)
    moreover have "good None a" for a
      using request guard_excludes_stage [of c g] by (simp add: good_def after_call_def backed_def)
    ultimately show ?thesis
      using request(2) by (intro rescued) (simp add: context_call_def request(1) may_post_def after_post_def)
  next
    case silent
    show ?thesis by (rule rescued, rule silent_wp [OF silent_context_call [OF silent]]) (use quiet silent in auto)
  qed
qed

lemma posts_handle:
  "effects.wp q Q' E' st \<Longrightarrow> backed (snd st) s \<Longrightarrow> posts.wp (handle (answer_call x) q p) (\<lambda>s y. True) (\<lambda>s y. True) s"
proof (induction q arbitrary: st s p)
  case (Await c k)
  have c: "may_call st c" "\<And>a. effects.wp (k a) Q' E' (after_call st c a)" using Await.prems(1) by simp_all
  have k: "posts.wp (throwIfAborted p') (\<lambda>s y. posts.wp (handle (answer_call x) (k a) (snd y)) (\<lambda>s y. True) (\<lambda>s y. True) s) (\<lambda>s y. True) s'"
    if "backed (snd (after_call st c a)) s'" for s' a p'
    by (rule posts.wp_throwIfAborted) (use Await.IH [OF rangeI c(2) that] in simp_all)
  show ?case unfolding handle.simps posts.wp_andthen
    by (rule posts_answer_call [OF Await.prems(2) c(1)]) (simp_all add: k)
qed simp_all

section \<open>The whole step\<close>

abbreviation post_free :: "'r step \<Rightarrow> bool" where
  "post_free m \<equiv> \<forall>p s. posts.wp (m p) (\<lambda>s y. True) (\<lambda>s y. True) s"

lemma post_free_andthen: "post_free m \<Longrightarrow> (\<And>r. post_free (f r)) \<Longrightarrow> post_free (andthen m f)"
  unfolding posts.wp_andthen by (blast intro: posts.wp_mono)

lemma post_free_silent: "silent m \<Longrightarrow> post_free m"
  by (blast intro: silent_wp)

lemma post_free_storage: "(\<And>d. c \<noteq> Service d) \<Longrightarrow> post_free (storage c f)"
  by (auto intro!: posts.wp_storage)

lemma post_free_rescue: "post_free m \<Longrightarrow> (\<And>t. post_free (h t)) \<Longrightarrow> post_free (rescue m h)"
  unfolding posts.wp_rescue by (blast intro: posts.wp_mono)

lemma post_free_if: "post_free m \<Longrightarrow> post_free m' \<Longrightarrow> post_free (if b then m else m')"
  by simp

lemma post_free_giving: "post_free (giving r)"
  by simp

lemmas post_free_intros = post_free_andthen post_free_storage post_free_rescue

lemma post_free_run_adapter: "post_free (run_adapter x env)"
  unfolding run_adapter_def using posts_handle [OF step_provision_monitored] by (simp add: backed_def)

lemma post_free_checkpointing: "post_free (checkpointing x patch)"
  by (auto intro: posts_checkpointing)

lemma post_free_step_body: "post_free (step_body x env poll)"
proof -
  have "post_free (progressed patch)" for patch by (simp add: progressed_def)
  then show ?thesis unfolding step_body_def
    by (intro post_free_intros post_free_run_adapter post_free_checkpointing post_free_silent [OF silent_readCurrent])
       (auto intro!: post_free_intros posts.wp_storage)
qed

lemma post_free_charge: "post_free (charge x t)"
proof -
  have latest: "post_free (rescue (andthen (readCurrent x False) (\<lambda>r. giving (Some r))) (\<lambda>_. giving None))"
    by (intro post_free_intros post_free_silent [OF silent_readCurrent]) simp_all
  have fail: "post_free (case latest of None \<Rightarrow> giving () | Some r \<Rightarrow>
      storage (WriteFail (sc_identity x) code r (sc_tenure x) terminal) finished_in)" for latest code terminal
    by (cases latest) (auto intro!: posts.wp_storage)
  have "post_free (if \<not> owned \<or> b then giving () else andthen (rescue (andthen (readCurrent x False) (\<lambda>r. giving (Some r))) (\<lambda>_. giving None)) (\<lambda>latest.
       case latest of None \<Rightarrow> giving () | Some r \<Rightarrow> storage (WriteFail (sc_identity x) code r (sc_tenure x) terminal) finished_in))"
    for owned b code terminal
    using post_free_andthen [OF latest fail] by simp
  then show ?thesis unfolding charge_def by (intro post_free_andthen post_free_silent [of isCurrent]) simp_all
qed

lemma silent_writes_state: "silent (storage (WriteUpdate i [PState st] r ow) f)"
  by (rule silent_storage) (simp_all add: after_post_def)

lemma post_free_admit: "post_free (admit x row)"
proof -
  have adopting: "post_free (adopt_provisioning x r)" for r by (simp add: adopt_provisioning_def)
  have latest: "post_free (case v of None \<Rightarrow> giving False
      | Some q \<Rightarrow> if stage q \<noteq> stage r \<or> generation q \<noteq> generation r + 1 then giving False else adopt_provisioning x q)" for v r
    using adopting by (cases v) simp_all
  have retry: "post_free (if \<not> ok then giving False else andthen (storage (ReadInventory (sc_identity x)) row_in) (\<lambda>latest.
      case latest of None \<Rightarrow> giving False
      | Some q \<Rightarrow> if stage q \<noteq> stage r \<or> generation q \<noteq> generation r + 1 then giving False else adopt_provisioning x q))" for ok r
    by (intro post_free_if post_free_giving post_free_andthen [OF post_free_storage latest]) simp
  have restarting: "post_free (restart x r)" for r
    unfolding restart_def by (rule post_free_andthen [OF post_free_silent [OF silent_writes_state] retry])
  have owned: "post_free (if \<not> b then giving False else if c then restart x r else adopt_provisioning x r)" for b c r
    by (intro post_free_if post_free_giving restarting adopting)
  have holds: "post_free (if held then giving False else andthen isCurrent (\<lambda>b. if \<not> b then giving False
      else if state r = Pool_Tables.Failed then restart x r else adopt_provisioning x r))" for held r
    by (intro post_free_if post_free_giving post_free_andthen [OF post_free_silent owned] silent_basic)
  have row: "post_free (admit_row x r)" for r
    unfolding admit_row_def by (rule post_free_andthen [OF post_free_storage holds]) simp
  have checked: "post_free (admit_latest x row v)" for v
    using row by (cases v) (simp_all add: admit_latest_def)
  have settings: "post_free (if b then giving False else andthen (storage (ReadInventory (sc_identity x)) row_in) (admit_latest x row))" for b
    by (intro post_free_if post_free_giving post_free_andthen [OF post_free_storage checked]) simp
  have "post_free (if \<not> b then giving False else andthen (storage ReadSettings yes_in) (\<lambda>is_paused. if is_paused then giving False else
     andthen (storage (ReadInventory (sc_identity x)) row_in) (admit_latest x row)))" for b
    by (intro post_free_if post_free_giving post_free_andthen [OF post_free_storage settings]) simp
  then show ?thesis unfolding admit_def by (intro post_free_andthen post_free_silent [of isCurrent]) simp_all
qed

lemma post_free_advance: "post_free (advance x env poll row)"
proof -
  have "post_free (if b then rescue (step_body x env poll) (charge x) else giving ())" for b
    by (intro post_free_if post_free_giving post_free_rescue [OF post_free_step_body post_free_charge])
  then show ?thesis unfolding advance_def by (rule post_free_andthen [OF post_free_admit])
qed

text \<open>
  C7. In every execution of a worker's step, whatever is answered and wherever the process dies, a request that
  creates the SSO user, synchronises it, assigns its seat or submits a login task is sent only after the
  store has accepted, in the same step, the write of the stage that guards the request (for the login task
  the claim of a dispatch slot), with no write of a stage and no other such request in between: a refused or
  failed write, a lost answer or a check that fails after the write lets no request through.
\<close>

theorem posts_recorded_in_store:
  assumes "play answers (launched_step tn env poll row) = (tr, out)"
  shows "posts.watched None tr"
  using posts.wp_play [OF post_free_advance [rule_format] assms [unfolded launched_step_def]] by simp

text \<open>A step that creates the SSO user: the stage is accepted, read back, and the request sent.\<close>

definition example_creating :: "step_answer list" where
  "example_creating = [Yes True, Yes False, Row (Some (example_row ''new'')), Yes False, Yes True] @ example_check (example_row ''new'') @
     ([Finished] @ example_check (example_row ''new'') @ [Finished, Finished]) @
     ([Finished] @ example_check (example_row ''new'') @ [Finished, Finished]) @
     [Answers (Status 404), Finished] @
     ([Finished] @ example_check (example_row ''new'') @ [Finished, Finished]) @
     ([Finished] @ example_check (example_row ''new'') @ [Yes True, Row (Some (example_row ''sso-creating'')), Finished, Yes True, Finished, Finished]) @
     ([Finished] @ example_check (example_row ''sso-creating'') @ [Finished, Finished])"

definition example_created :: "(step_call \<times> step_answer option) list" where
  "example_created = fst (play example_creating (launched_step ''t'' example_env 1000 (example_row ''new'')))"

theorem posts_recorded_in_store_witness:
  "posts.watched None example_created \<and>
   list_ex (\<lambda>t. fst t = WriteUpdate ''ada00'' [PStage ''sso-creating'', PSsoCreatedAt None] (example_row ''new'') ''t'' \<and> snd t = Some (Yes True))
     example_created \<and>
   (case last example_created of (Service d, a) \<Rightarrow> guard_stage d = Some ''sso-creating'' | _ \<Rightarrow> False)"
proof -
  have "list_ex (\<lambda>t. fst t = WriteUpdate ''ada00'' [PStage ''sso-creating'', PSsoCreatedAt None] (example_row ''new'') ''t'' \<and> snd t = Some (Yes True))
      example_created \<and>
    (case last example_created of (Service d, a) \<Rightarrow> guard_stage d = Some ''sso-creating'' | _ \<Rightarrow> False)" by code_simp
  then show ?thesis
    using posts_recorded_in_store [OF prod.collapse [symmetric], where answers = example_creating and tn = "''t''" and env = example_env
        and poll = 1000 and row = "example_row ''new''"] by (simp add: example_created_def)
qed

end
