(* ===== verification/Worker_Observation.thy ===== *)
theory Worker_Observation
  imports Worker_Fencing
begin

text \<open>
  The observation of an exhausted login reservation, from the adapter's reads to the release: it reads, and
  writes nothing but the release of the row it observed.
\<close>

section \<open>The adapter only looks\<close>

text \<open>A monitor with nothing to remember.\<close>

fun unmoved :: "bool \<Rightarrow> 'c \<Rightarrow> 'a \<Rightarrow> bool" where
  "unmoved True c a = True"
| "unmoved False c a = False"

interpretation looks: monitor "\<lambda>s. observes" unmoved .

lemma wp_looks: "only_calls observes q \<Longrightarrow> (\<And>r. Q True r) \<Longrightarrow> looks.wp q Q (\<lambda>s e. True) True"
  by (induction q) auto

definition outcomes :: "string option set" where
  "outcomes = {None, Some ''success'', Some ''failed''}"

lemma task_outcome_in: "task_outcome t \<in> outcomes"
  by (simp add: task_outcome_def outcomes_def split: option.split)

lemma looks_reconcile: "looks.wp (reconcileLoginReservation env row) (\<lambda>s r. r \<in> outcomes) (\<lambda>s e. True) True"
proof -
  have task: "looks.wp (bind (taskOf env row g) (\<lambda>task. bind assertCurrent (\<lambda>_. Return (task_outcome task))))
      (\<lambda>s r. r \<in> outcomes) (\<lambda>s e. True) True" for g
    unfolding looks.wp_bind
  proof (rule wp_looks [OF only_taskOf], goal_cases)
    case (4 r)
    show ?case by (rule wp_looks [OF only_assertCurrent]) (simp_all add: task_outcome_in)
  qed simp_all
  have none: "None \<in> outcomes" by (simp add: outcomes_def)
  have "looks.wp (bind (accountFor row None) (\<lambda>account. if \<not> truthy_id (a_gh_login account) then Return None
      else bind (taskOf env row (JStr (the (a_gh_login account)))) (\<lambda>task. bind assertCurrent (\<lambda>_. Return (task_outcome task)))))
      (\<lambda>s r. r \<in> outcomes) (\<lambda>s e. True) True"
    unfolding looks.wp_bind [of "accountFor _ _"]
    by (rule wp_looks [OF only_accountFor]) (use task none in simp_all)
  then show ?thesis using none by (simp add: reconcileLoginReservation_def)
qed

section \<open>The observation only releases\<close>

definition may_observe :: "string \<Rightarrow> Inventory \<Rightarrow> bool \<Rightarrow> step_call \<Rightarrow> bool" where
  "may_observe tn row s c \<longleftrightarrow> (case c of
     WriteRelease i r ow result \<Rightarrow> i = identity row \<and> r = row \<and> ow = tn \<and> Some result \<in> outcomes
   | WriteUpdate i patch r ow \<Rightarrow> False
   | WriteCredential i r ow m \<Rightarrow> False
   | WriteDispatch i r ow n \<Rightarrow> False
   | WriteFail i code r ow t \<Rightarrow> False
   | WriteEvent act i \<Rightarrow> False
   | Service d \<Rightarrow> observes d
   | _ \<Rightarrow> True)"

lemma may_observe_simps [simp]:
  "may_observe tn row s CheckTenure" "may_observe tn row s RenewTenure" "may_observe tn row s (LoseTenure e)"
  "may_observe tn row s CheckSignal" "may_observe tn row s CheckTimeout" "may_observe tn row s ReadSettings"
  "may_observe tn row s (ReadInventory i)" "may_observe tn row s (ReadHolds i)"
  "may_observe tn row s (Service d) \<longleftrightarrow> observes d"
  "may_observe tn row s (WriteRelease i r ow result) \<longleftrightarrow> i = identity row \<and> r = row \<and> ow = tn \<and> Some result \<in> outcomes"
  by (simp_all add: may_observe_def)

interpretation observed: step_monitor "may_observe tn row" unmoved for tn row .

definition harmless :: "string \<Rightarrow> Inventory \<Rightarrow> 'r step \<Rightarrow> bool" where
  "harmless tn row m \<longleftrightarrow> (\<forall>p. observed.wp tn row (m p) (\<lambda>s y. True) (\<lambda>s y. True) True)"

lemma harmless_wp: "harmless tn row m \<Longrightarrow> (\<And>y. Q True y) \<Longrightarrow> (\<And>y. E True y) \<Longrightarrow> observed.wp tn row (m p) Q E True"
proof -
  assume m: "harmless tn row m" and Q: "\<And>y. Q True y" and E: "\<And>y. E True y"
  have "observed.wp tn row q (\<lambda>s y. True) (\<lambda>s y. True) s \<Longrightarrow> s \<Longrightarrow> observed.wp tn row q Q E s" for q s
    by (induction q arbitrary: s) (auto simp: Q E)
  then show ?thesis using m by (simp add: harmless_def)
qed

lemma harmless_andthen [intro!]: "harmless tn row m \<Longrightarrow> (\<And>r. harmless tn row (f r)) \<Longrightarrow> harmless tn row (andthen m f)"
  unfolding harmless_def [of tn row "andthen m f"] observed.wp_andthen by (intro allI harmless_wp) (simp_all add: harmless_def)

lemma harmless_rescue [intro!]: "harmless tn row m \<Longrightarrow> (\<And>t. harmless tn row (h t)) \<Longrightarrow> harmless tn row (rescue m h)"
  unfolding harmless_def [of tn row "rescue m h"] observed.wp_rescue by (intro allI harmless_wp) (simp_all add: harmless_def)

lemma harmless_basic [intro!, simp]:
  "harmless tn row (giving r)" "harmless tn row (throwing f)" "harmless tn row (guarding b)"
  "harmless tn row throwIfAborted" "harmless tn row throwIfTimedOut" "harmless tn row isCurrent" "harmless tn row renewing"
  by (auto simp: harmless_def observed.wp_isCurrent observed.wp_renewing
        intro!: observed.wp_throwIfAborted observed.wp_throwIfTimedOut)

lemma harmless_observed [intro!]: "may_observe tn row True c \<Longrightarrow> harmless tn row (observed_storage c f)"
proof -
  assume "may_observe tn row True c"
  then have "harmless tn row (storage c f)"
    unfolding harmless_def by (intro allI observed.wp_storage) simp_all
  then show ?thesis unfolding observed_storage_def by blast
qed

lemma harmless_observation_current [intro!]: "harmless tn row (observation_current row)"
  unfolding observation_current_def by (intro harmless_andthen harmless_basic harmless_observed) simp_all

lemma harmless_observation_call: "observes c \<Longrightarrow> harmless tn row (observation_call row c)"
proof -
  assume c: "observes c"
  have aborting: "harmless tn row (case t of Rejected f \<Rightarrow> giving (Fails f) | Aborted f \<Rightarrow> (\<lambda>p. Throw (Aborted f, p)))" for t
    by (cases t) (simp_all add: harmless_def)
  have reading: "harmless tn row (\<lambda>p. Await (Service c) (\<lambda>a. Return (f a, p)))" for f :: "step_answer \<Rightarrow> answer"
    using c by (simp add: harmless_def)
  show ?thesis
    using c reading unfolding observation_call_def
    by (intro harmless_rescue aborting) (cases c; auto simp: wrapped_def)
qed

lemma observed_handle:
  "looks.wp q (\<lambda>s r. R r) (\<lambda>s e. True) True \<Longrightarrow>
    observed.wp tn row (handle (observation_call row) q p) (\<lambda>s y. s \<and> R (fst y)) (\<lambda>s y. True) True"
proof (induction q arbitrary: p)
  case (Await c k)
  then have c: "observes c" "\<And>a. looks.wp (k a) (\<lambda>s r. R r) (\<lambda>s e. True) True" by simp_all
  have "observed.wp tn row (andthen throwIfAborted (\<lambda>_. handle (observation_call row) (k a)) p') (\<lambda>s y. s \<and> R (fst y)) (\<lambda>s y. True) True" for a p'
    unfolding observed.wp_andthen
    by (rule observed.wp_throwIfAborted) (use Await.IH [OF rangeI c(2)] in simp_all)
  then show ?case unfolding handle.simps observed.wp_andthen [of tn row "observation_call _ _"]
    by (intro harmless_wp [OF harmless_observation_call [OF c(1)]]) simp_all
qed simp_all

lemma harmless_observe: "harmless tn row (observe_reservation env tn busy row)"
proof -
  have release: "harmless tn row (case outcome of None \<Rightarrow> giving ()
      | Some result \<Rightarrow> andthen (observation_current row) (\<lambda>_.
          andthen (observed_storage (WriteRelease (identity row) row tn result) yes_in) (\<lambda>_. giving ())))" if "outcome \<in> outcomes" for outcome
    using that by (auto split: option.split)
  have "observed.wp tn row (andthen (handle (observation_call row) (reconcileLoginReservation env row)) (\<lambda>outcome.
      case outcome of None \<Rightarrow> giving ()
      | Some result \<Rightarrow> andthen (observation_current row) (\<lambda>_.
          andthen (observed_storage (WriteRelease (identity row) row tn result) yes_in) (\<lambda>_. giving ()))) p)
      (\<lambda>s y. True) (\<lambda>s y. True) True" for p
    unfolding observed.wp_andthen [of tn row "handle _ _"]
    by (rule observed.wp_mono [OF observed_handle [OF looks_reconcile]]) (auto intro!: harmless_wp [OF release])
  then have "harmless tn row (andthen (handle (observation_call row) (reconcileLoginReservation env row)) (\<lambda>outcome.
      case outcome of None \<Rightarrow> giving ()
      | Some result \<Rightarrow> andthen (observation_current row) (\<lambda>_.
          andthen (observed_storage (WriteRelease (identity row) row tn result) yes_in) (\<lambda>_. giving ()))))"
    by (simp add: harmless_def)
  then show ?thesis unfolding observe_reservation_def
    by (cases "\<not> isExhaustedLoginReservation row \<or> busy") (auto split del: if_split intro!: harmless_andthen split: if_splits)
qed

text \<open>
  C33. The observation of an exhausted login reservation only observes: in every execution, whatever is answered,
  it sends nothing but GET requests to Login, reads the Proxy account and the store, and writes nothing but
  the release of the very row it observed, under the tenure it was started under and with the outcome
  success or failed. A row that holds no exhausted reservation, or whose step is under way, causes no call
  at all.
\<close>

theorem observation_only_releases:
  assumes "play answers (observe_reservation env tn busy row p) = (tr, out)"
  shows "list_all (\<lambda>t. may_observe tn row True (fst t)) tr \<and>
    (\<not> isExhaustedLoginReservation row \<or> busy \<longrightarrow> tr = [])"
proof -
  have "observed.watched tn row True tr"
    using observed.wp_play [OF harmless_wp [OF harmless_observe] assms, of "\<lambda>s y. True" "\<lambda>s y. True"] by simp
  then have "list_all (\<lambda>t. may_observe tn row True (fst t)) tr"
  proof (induction tr)
    case (Cons t tr)
    then show ?case by (cases t; cases "snd t") auto
  qed simp
  moreover have "tr = []" if "\<not> isExhaustedLoginReservation row \<or> busy"
    using assms that by (simp add: observe_reservation_def giving_def)
  ultimately show ?thesis by blast
qed

text \<open>A disabled member whose login task has succeeded: the reservation is released.\<close>

definition example_reserved :: Inventory where
  "example_reserved = (example_row ''oauth-wait'')\<lparr>state := Disabled, task_id := Some ''7''\<rparr>"

definition example_account :: ProxyAccount where
  "example_account = \<lparr>a_identity = ''ada00'', a_enterprise = ''default'', a_sso_user = Some ''ada00'', a_gh_login = Some ''ada'',
     a_token = None, a_status = ''none'', a_attempt_id = None, a_oauth_updated_at = None, a_created_at = 0, a_updated_at = 0\<rparr>"

definition example_task :: js where
  "example_task = JObj [(''id'', JStr ''7''), (''identity'', JStr ''ada00''), (''ssoUser'', JStr ''ada00''), (''ghLogin'', JStr ''ada''),
     (''oauthAttemptId'', JStr ''o''), (''ssoType'', JStr ''custom''), (''status'', JStr ''success'')]"

definition example_reading :: "step_answer \<Rightarrow> step_answer list" where
  "example_reading a = [Finished, Yes True, a, Finished]"

definition example_assertion :: "step_answer list" where
  "example_assertion = [Finished, Yes True] @ example_reading (Row (Some example_reserved)) @ example_reading (Yes False) @
     example_reading (Yes False) @ [Finished, Yes True]"

definition example_wrapped :: "step_answer list" where
  "example_wrapped = [Finished] @ example_assertion @ [Finished, Finished]"

definition example_observing :: "step_answer list" where
  "example_observing = [Yes True] @ example_assertion @
     example_wrapped @ [Answers (AccountIs (Some example_account)), Finished] @ example_wrapped @
     example_wrapped @ [Answers (Status 200), Finished] @ example_wrapped @ [Answers (Json example_task), Finished] @ example_wrapped @
     example_wrapped @ example_assertion @ example_reading (Yes True)"

definition example_observed :: "(step_call \<times> step_answer option) list" where
  "example_observed = fst (play example_observing (observe_reservation example_env ''t'' False example_reserved
     \<lparr>current = example_reserved, credentialGeneration = None\<rparr>))"

theorem observation_only_releases_witness:
  "list_all (\<lambda>t. may_observe ''t'' example_reserved True (fst t)) example_observed \<and>
   fst (example_observed ! (length example_observed - 2)) = WriteRelease ''ada00'' example_reserved ''t'' ''success'' \<and>
   fst (play [] (observe_reservation example_env ''t'' True example_reserved \<lparr>current = example_reserved, credentialGeneration = None\<rparr>)) = []"
proof -
  have "fst (example_observed ! (length example_observed - 2)) = WriteRelease ''ada00'' example_reserved ''t'' ''success''"
    by code_simp
  then show ?thesis
    using observation_only_releases [OF prod.collapse [symmetric], where answers = example_observing and env = example_env and tn = "''t''"
        and busy = False and row = example_reserved and p = "\<lparr>current = example_reserved, credentialGeneration = None\<rparr>"]
      observation_only_releases [OF prod.collapse [symmetric], where answers = "[]" and env = example_env and tn = "''t''"
        and busy = True and row = example_reserved and p = "\<lparr>current = example_reserved, credentialGeneration = None\<rparr>"]
    by (simp add: example_observed_def)
qed

end
