(* ===== verification/Management_Operations.thy ===== *)
theory Management_Operations
  imports Pool_Prelude
begin

text \<open>
  Batch operations of the management API: \<open>OperationManager\<close> (\<^verbatim>\<open>src/packages/shared/src/operations.ts\<close>) and
  the guards the routes put around it (\<^verbatim>\<open>src/packages/shared/src/operationRoutes.ts\<close>). An operation lives in
  memory: a preview freezes its items, one confirmation runs them with some workers on the event loop, then
  their progress is polled. Each stretch of code between two \<open>await\<close>s is a function; the position of
  \<open>run\<close> is part of the state. Instants are milliseconds. The actions themselves (\<open>perform\<close>, \<open>refresh\<close>,
  \<open>eligibility\<close>, \<open>snapshot\<close>) belong to the service and are answered by it.
\<close>

section \<open>Items and operations\<close>

definition MANAGEMENT_BATCH_LIMIT :: nat where "MANAGEMENT_BATCH_LIMIT = 1000"
definition MAX_REFRESH_FAILURES :: nat where "MAX_REFRESH_FAILURES = 10"
definition PREVIEW_TTL_MS :: int where "PREVIEW_TTL_MS = 600000"
definition RESULT_TTL_MS :: int where "RESULT_TTL_MS = 60 * 60 * 1000"

definition REFRESH_INTERVALS_MS :: "int list" where
  "REFRESH_INTERVALS_MS = [1000, 1000, 1000, 1000, 1000, 2000, 2000, 5000, 5000, 10000, 15000]"

definition refresh_interval :: "nat \<Rightarrow> int" where
  "refresh_interval rnd = REFRESH_INTERVALS_MS ! min rnd (length REFRESH_INTERVALS_MS - 1)"

text \<open>What the calls throw: an API error with status, code and message, or any other error.\<close>

datatype op_error = ApiError int string string | PlainError string

fun errorMessage :: "op_error \<Rightarrow> string" where
  "errorMessage (ApiError st code m) = m"
| "errorMessage (PlainError m) = m"

datatype item_status = ItPending | ItRunning | ItSuccess | ItFailed | ItSkipped | ItCancelled | ItInterrupted

record OperationItem =
  it_id :: string
  it_status :: item_status
  it_detail :: "string option"
  it_attemptId :: "string option"
  it_relatedTaskId :: "string option"
  it_revision :: "string option"
  it_label :: "string option"
  it_requiresPasswordOverride :: "bool option"

datatype operation_status = OpPreview | OpRunning | OpCompleted | OpInterrupted

record ManagementOperation =
  op_id :: string
  op_scope :: string
  op_action :: string
  op_status :: operation_status
  op_items :: "OperationItem list"
  op_createdAt :: int
  op_updatedAt :: int
  op_expiresAt :: int

text \<open>
  A worker of \<open>run\<close> is about to enter its loop, performs an item, or has left; \<open>run\<close> itself waits for its workers,
  for the next round of polls, for one refresh, or it is over. Two fields are not in the code: \<open>performed\<close>
  records every call of \<open>perform\<close>, \<open>previewed\<close> the items as the preview froze them.
\<close>

datatype Slot = Starting | Performing nat OperationItem | Left | Threw op_error

datatype RunPhase = NotStarted | Working | Delaying nat | Refreshing nat nat | Over

record OperationRun =
  operation :: ManagementOperation
  nextIndex :: nat
  haltRun :: bool                                \<comment> \<open>the local \<open>stopped\<close>\<close>
  slots :: "Slot list"
  phase :: RunPhase
  hasRefresh :: bool
  failures :: "nat \<Rightarrow> nat"
  performed :: "nat list"
  previewed :: "OperationItem list"

record manager =
  scope :: string
  operations :: "OperationRun list"

definition touch :: "int \<Rightarrow> OperationRun \<Rightarrow> OperationRun" where
  "touch now r = r\<lparr>operation := (operation r)\<lparr>op_updatedAt := now\<rparr>\<rparr>"

definition items :: "OperationRun \<Rightarrow> OperationItem list" where
  "items r = op_items (operation r)"

definition put_item :: "int \<Rightarrow> nat \<Rightarrow> OperationItem \<Rightarrow> OperationRun \<Rightarrow> OperationRun" where
  "put_item now i x r = touch now (r\<lparr>operation := (operation r)\<lparr>op_items := (items r)[i := x]\<rparr>\<rparr>)"

definition set_status :: "operation_status \<Rightarrow> OperationRun \<Rightarrow> OperationRun" where
  "set_status st r = r\<lparr>operation := (operation r)\<lparr>op_status := st\<rparr>\<rparr>"

section \<open>Preview\<close>

text \<open>
  One item per selected id; the routes additionally skip an id whose key was already seen. A failing
  check fails the whole preview.
\<close>

fun preview_items :: "(string \<Rightarrow> op_error + string option) \<Rightarrow> (string \<Rightarrow> op_error + string option) \<Rightarrow>
    (string \<Rightarrow> op_error + string option \<times> string option \<times> bool option) \<Rightarrow> string set \<Rightarrow> string list \<Rightarrow> op_error + OperationItem list" where
  "preview_items eligibility dedupeKey snapshot seen [] = Inr []"
| "preview_items eligibility dedupeKey snapshot seen (i # is) =
     (case eligibility i of
        Inl e \<Rightarrow> Inl e
      | Inr reason \<Rightarrow>
          (case (if reason = None \<or> reason = Some [] then dedupeKey i else Inr None) of
             Inl e \<Rightarrow> Inl e
           | Inr key \<Rightarrow>
               let duplicate = (case key of None \<Rightarrow> False | Some k \<Rightarrow> k \<noteq> [] \<and> k \<in> seen);
                   why = (if reason \<noteq> None \<and> reason \<noteq> Some [] then reason
                          else if duplicate then Some ''Another selected task targets the same account. Only one attempt per account will be submitted.''
                          else None);
                   seen' = (case key of None \<Rightarrow> seen | Some k \<Rightarrow> if k = [] then seen else insert k seen)
               in (case snapshot i of
                     Inl e \<Rightarrow> Inl e
                   | Inr (revision, label, override) \<Rightarrow>
                       (case preview_items eligibility dedupeKey snapshot seen' is of
                          Inl e \<Rightarrow> Inl e
                        | Inr xs \<Rightarrow> Inr (\<lparr>it_id = i, it_status = (if why = None then ItPending else ItSkipped), it_detail = why,
                            it_attemptId = None, it_relatedTaskId = None, it_revision = revision, it_label = label,
                            it_requiresPasswordOverride = override\<rparr> # xs)))))"

definition new_run :: "ManagementOperation \<Rightarrow> OperationRun" where
  "new_run op = \<lparr>operation = op, nextIndex = 0, haltRun = False, slots = [], phase = NotStarted, hasRefresh = False,
     failures = (\<lambda>_. 0), performed = [], previewed = op_items op\<rparr>"

text \<open>Expired previews and stale results are dropped; running operations never are.\<close>

definition expired :: "int \<Rightarrow> ManagementOperation \<Rightarrow> bool" where
  "expired now op \<longleftrightarrow>
     (if op_status op = OpPreview then op_expiresAt op \<le> now
      else op_status op \<noteq> OpRunning \<and> op_updatedAt op + RESULT_TTL_MS \<le> now)"

definition sweep :: "int \<Rightarrow> manager \<Rightarrow> manager" where
  "sweep now m = m\<lparr>operations := filter (\<lambda>r. \<not> expired now (operation r)) (operations m)\<rparr>"

definition find_run :: "string \<Rightarrow> manager \<Rightarrow> OperationRun option" where
  "find_run i m = find (\<lambda>r. op_id (operation r) = i) (operations m)"

definition get_operation :: "int \<Rightarrow> string \<Rightarrow> manager \<Rightarrow> OperationRun option \<times> manager" where
  "get_operation now i m =
     (let m' = sweep now m in
      (case find_run i m' of
         None \<Rightarrow> None
       | Some r \<Rightarrow> if op_scope (operation r) = scope m' then Some r else None, m'))"

definition preview :: "int \<Rightarrow> string \<Rightarrow> string \<Rightarrow> string list \<Rightarrow> (op_error + OperationItem list) \<Rightarrow> manager \<Rightarrow>
    (op_error + ManagementOperation) \<times> manager" where
  "preview now uuid action ids checked m =
     (if ids = [] \<or> length ids > MANAGEMENT_BATCH_LIMIT
      then (Inl (ApiError 400 ''invalid_selection'' ''Select 1 to 1000 records.''), m)
      else case checked of
        Inl e \<Rightarrow> (Inl e, m)
      | Inr xs \<Rightarrow>
          let op = \<lparr>op_id = uuid, op_scope = scope m, op_action = action, op_status = OpPreview, op_items = xs,
                    op_createdAt = now, op_updatedAt = now, op_expiresAt = now + PREVIEW_TTL_MS\<rparr>;
              m' = sweep now m
          in (Inr op, m'\<lparr>operations := operations m' @ [new_run op]\<rparr>))"

section \<open>Running the items\<close>

text \<open>A worker's loop up to its next \<open>await\<close>: it takes the next pending item, or leaves.\<close>

definition next_pending :: "OperationRun \<Rightarrow> nat option" where
  "next_pending r = find (\<lambda>i. it_status (items r ! i) = ItPending) [nextIndex r..<length (items r)]"

definition take_item :: "int \<Rightarrow> nat \<Rightarrow> OperationRun \<Rightarrow> OperationRun" where
  "take_item now k r =
     (if haltRun r then r\<lparr>slots := (slots r)[k := Left]\<rparr>
      else case next_pending r of
        None \<Rightarrow> r\<lparr>nextIndex := max (nextIndex r) (length (items r)), slots := (slots r)[k := Left]\<rparr>
      | Some i \<Rightarrow>
          let x = items r ! i
          in (put_item now i (x\<lparr>it_status := ItRunning\<rparr>) r)\<lparr>nextIndex := i + 1, slots := (slots r)[k := Performing i x],
               performed := performed r @ [i]\<rparr>)"

definition worker_count :: "int \<Rightarrow> OperationRun \<Rightarrow> nat" where
  "worker_count concurrency r = min (length (items r)) (nat (max 1 (min 20 concurrency)))"

text \<open>How \<open>perform\<close>'s failure is reported.\<close>

definition conflict_codes :: "string list" where
  "conflict_codes = [''task_already_active'', ''task_changed'', ''account_mapping_changed'', ''authorization_conflict'', ''authorization_not_needed'']"

definition ends_with :: "string \<Rightarrow> string \<Rightarrow> bool" where
  "ends_with s suffix \<longleftrightarrow> length suffix \<le> length s \<and> drop (length s - length suffix) s = suffix"

fun failed_item :: "op_error \<Rightarrow> OperationItem \<Rightarrow> OperationItem" where
  "failed_item (ApiError st code m) x = x\<lparr>it_status := (if ends_with code ''_unconfirmed'' then ItInterrupted
     else if code \<in> set conflict_codes then ItSkipped else ItFailed), it_detail := Some m\<rparr>"
| "failed_item (PlainError m) x = x\<lparr>it_status := ItFailed, it_detail := Some m\<rparr>"

definition interrupt_item :: "OperationItem \<Rightarrow> OperationItem" where
  "interrupt_item x = (if it_status x = ItPending \<or> it_status x = ItRunning
     then x\<lparr>it_status := ItInterrupted,
            it_detail := Some ''The worker stopped before this item finished. Check the resource before retrying.''\<rparr>
     else x)"

definition complete :: "int \<Rightarrow> OperationRun \<Rightarrow> OperationRun" where
  "complete now r = touch now (set_status OpCompleted (r\<lparr>phase := Over\<rparr>))"

definition interrupt :: "int \<Rightarrow> OperationRun \<Rightarrow> OperationRun" where
  "interrupt now r = touch now (set_status OpInterrupted
     (r\<lparr>phase := Over, operation := (operation r)\<lparr>op_items := map interrupt_item (items r)\<rparr>\<rparr>))"

definition some_running :: "OperationRun \<Rightarrow> bool" where
  "some_running r \<longleftrightarrow> list_ex (\<lambda>x. it_status x = ItRunning) (items r)"

text \<open>The head of the polling loop.\<close>

definition poll_head :: "int \<Rightarrow> nat \<Rightarrow> OperationRun \<Rightarrow> OperationRun" where
  "poll_head now rnd r = (if some_running r then r\<lparr>phase := Delaying rnd\<rparr> else complete now r)"

fun slot_open :: "Slot \<Rightarrow> bool" where
  "slot_open (Performing i x) = True"
| "slot_open Starting = True"
| "slot_open _ = False"

fun slot_threw :: "Slot \<Rightarrow> bool" where
  "slot_threw (Threw e) = True"
| "slot_threw _ = False"

text \<open>\<open>Promise.allSettled\<close> of the workers.\<close>

definition settle_workers :: "int \<Rightarrow> OperationRun \<Rightarrow> OperationRun" where
  "settle_workers now r =
     (if list_ex slot_open (slots r) then r
      else if list_ex slot_threw (slots r) then interrupt now r
      else if hasRefresh r then poll_head now 0 (r\<lparr>failures := (\<lambda>_. 0)\<rparr>)
      else complete now r)"

definition start_workers :: "int \<Rightarrow> int \<Rightarrow> OperationRun \<Rightarrow> OperationRun" where
  "start_workers now concurrency r =
     (let n = worker_count concurrency r
      in settle_workers now (fold (take_item now) [0..<n] (r\<lparr>phase := Working, slots := replicate n Starting\<rparr>)))"

text \<open>An accepted confirmation starts the run; a repeated one returns the operation as it is.\<close>

definition put_run :: "OperationRun \<Rightarrow> manager \<Rightarrow> manager" where
  "put_run r m = m\<lparr>operations := map (\<lambda>q. if op_id (operation q) = op_id (operation r) then r else q) (operations m)\<rparr>"

definition execute :: "int \<Rightarrow> string \<Rightarrow> bool \<Rightarrow> int \<Rightarrow> manager \<Rightarrow> (op_error + ManagementOperation) \<times> manager" where
  "execute now i refresh concurrency m =
     (case get_operation now i m of
        (None, m') \<Rightarrow> (Inl (ApiError 404 ''operation_not_found'' ''Operation preview was not found.''), m')
      | (Some r, m') \<Rightarrow>
          if op_status (operation r) \<noteq> OpPreview then (Inr (operation r), m')
          else let r' = start_workers now concurrency (touch now (set_status OpRunning (r\<lparr>hasRefresh := refresh\<rparr>)))
               in (Inr (operation r'), put_run r' m'))"

text \<open>The answer of \<open>perform\<close> to worker \<open>k\<close>, which then goes on with its loop.\<close>

definition perform_answered :: "int \<Rightarrow> nat \<Rightarrow> op_error + OperationItem \<Rightarrow> OperationRun \<Rightarrow> OperationRun" where
  "perform_answered now k result r =
     (if k < length (slots r) then
        (case slots r ! k of
           Performing i x \<Rightarrow>
             settle_workers now (take_item now k (put_item now i (case result of Inr y \<Rightarrow> y | Inl e \<Rightarrow> failed_item e x) r))
         | _ \<Rightarrow> r)
      else r)"

text \<open>Anything else that a worker throws stops all of them after their current item.\<close>

definition worker_throws :: "int \<Rightarrow> nat \<Rightarrow> op_error \<Rightarrow> OperationRun \<Rightarrow> OperationRun" where
  "worker_throws now k e r =
     (if k < length (slots r) \<and> slot_open (slots r ! k)
      then settle_workers now (r\<lparr>haltRun := True, slots := (slots r)[k := Threw e]\<rparr>) else r)"

section \<open>Polling\<close>

definition refresh_from :: "int \<Rightarrow> nat \<Rightarrow> nat \<Rightarrow> OperationRun \<Rightarrow> OperationRun" where
  "refresh_from now rnd i r =
     (case find (\<lambda>j. it_status (items r ! j) = ItRunning) [i..<length (items r)] of
        Some j \<Rightarrow> r\<lparr>phase := Refreshing rnd j\<rparr>
      | None \<Rightarrow> poll_head now (rnd + 1) r)"

definition round_due :: "int \<Rightarrow> OperationRun \<Rightarrow> OperationRun" where
  "round_due now r = (case phase r of Delaying rnd \<Rightarrow> refresh_from now rnd 0 r | _ \<Rightarrow> r)"

definition api_missing :: "op_error \<Rightarrow> bool" where
  "api_missing e \<longleftrightarrow> (case e of ApiError st code m \<Rightarrow> st = 404 | _ \<Rightarrow> False)"

definition unavailable_item :: "nat \<Rightarrow> op_error \<Rightarrow> OperationItem \<Rightarrow> OperationItem" where
  "unavailable_item attempt e x =
     (let exhausted = (api_missing e \<or> attempt \<ge> MAX_REFRESH_FAILURES)
      in x\<lparr>it_status := (if exhausted then ItInterrupted else ItRunning),
           it_detail := Some (if exhausted
             then ''Progress could not be confirmed after '' @ show_nat attempt @
                  '' attempt(s). Check the resource before retrying: '' @ errorMessage e
             else ''Progress is currently unavailable: '' @ errorMessage e)\<rparr>)"

definition refreshed :: "int \<Rightarrow> op_error + OperationItem \<Rightarrow> OperationRun \<Rightarrow> OperationRun" where
  "refreshed now result r =
     (case phase r of
        Refreshing rnd i \<Rightarrow>
          let x = items r ! i in
          refresh_from now rnd (i + 1)
            (case result of
               Inr y \<Rightarrow> (let r' = r\<lparr>failures := (failures r)(i := 0)\<rparr>
                        in if it_status y \<noteq> it_status x \<or> it_detail y \<noteq> it_detail x then put_item now i y r' else r')
             | Inl e \<Rightarrow> (let attempt = failures r i + 1
                        in put_item now i (unavailable_item attempt e x) (r\<lparr>failures := (failures r)(i := attempt)\<rparr>)))
      | _ \<Rightarrow> r)"

section \<open>Guards of the routes\<close>

text \<open>
  What the routes do before they perform an item: check it again, and compare its revision with the one
  that was previewed.
\<close>

definition guarded_perform :: "op_error + string option \<Rightarrow> op_error + string option \<Rightarrow> op_error + OperationItem \<Rightarrow>
    OperationItem \<Rightarrow> op_error + OperationItem" where
  "guarded_perform reason revision result x =
     (case reason of
        Inl e \<Rightarrow> Inl e
      | Inr why \<Rightarrow>
          if why \<noteq> None \<and> why \<noteq> Some [] then Inr (x\<lparr>it_status := ItSkipped, it_detail := why\<rparr>)
          else case revision of
            Inl e \<Rightarrow> Inl e
          | Inr v \<Rightarrow>
              if v \<noteq> it_revision x
              then Inr (x\<lparr>it_status := ItSkipped,
                     it_detail := Some ''The record changed after preview. Review it before submitting another operation.''\<rparr>)
              else result)"

section \<open>Selections\<close>

text \<open>\<open>[...new Set(ids)]\<close>: the first occurrences, in order.\<close>

definition insert_new :: "string \<Rightarrow> string list \<Rightarrow> string list" where
  "insert_new i is = (if i \<in> set is then is else is @ [i])"

definition unique_ids :: "string list \<Rightarrow> string list" where
  "unique_ids is = fold insert_new is []"

definition valid_id :: "js \<Rightarrow> bool" where
  "valid_id v \<longleftrightarrow> (case v of JStr s \<Rightarrow> s \<noteq> [] \<and> length s \<le> 500 | _ \<Rightarrow> False)"

fun js_ids :: "js \<Rightarrow> string list option" where
  "js_ids (JArr vs) = (if list_all valid_id vs then Some (map (\<lambda>v. case v of JStr s \<Rightarrow> s | _ \<Rightarrow> []) vs) else None)"
| "js_ids _ = None"

record result_page =
  pg_page :: nat
  pg_size :: nat
  pg_total :: nat
  pg_items :: "string list"

definition batch_error :: op_error where
  "batch_error = ApiError 400 ''batch_limit'' ''More than 1000 records match. Narrow the filter; no records were submitted.''"

text \<open>The ids of one page, up to the first that is too many.\<close>

fun add_ids :: "string list \<Rightarrow> string list \<Rightarrow> string list \<Rightarrow> op_error + string list" where
  "add_ids excluded ids [] = Inr ids"
| "add_ids excluded ids (i # is) =
     (let ids' = (if i \<in> set excluded then ids else insert_new i ids)
      in if length ids' > MANAGEMENT_BATCH_LIMIT then Inl batch_error else add_ids excluded ids' is)"

partial_function (option) collect_pages :: "(nat \<Rightarrow> result_page) \<Rightarrow> string list \<Rightarrow> nat \<Rightarrow> string list \<Rightarrow>
    (op_error + string list) option" where
  "collect_pages list_page excluded page ids =
     (let result = list_page page in
      if pg_page result \<noteq> page then Some (Inr ids)
      else case add_ids excluded ids (pg_items result) of
        Inl e \<Rightarrow> Some (Inl e)
      | Inr ids' \<Rightarrow>
          if page * pg_size result \<ge> pg_total result then Some (Inr ids')
          else collect_pages list_page excluded (page + 1) ids')"

text \<open>
  A selection names ids, or a filter with exceptions; the filter's query is read by \<open>readManagementQuery\<close> and
  answered page by page (\<open>list_page\<close>, whose argument \<open>None\<close> is a query that was refused).
\<close>

definition resolveOperationSelection :: "js \<Rightarrow> op_error + (nat \<Rightarrow> result_page) \<Rightarrow> (op_error + string list) option" where
  "resolveOperationSelection selection pages =
     (case selection of
        JObj _ \<Rightarrow>
          if js_get selection ''ids'' \<noteq> JUndefined
          then (case js_ids (js_get selection ''ids'') of
                  Some ids \<Rightarrow>
                    if length ids > MANAGEMENT_BATCH_LIMIT
                    then Some (Inl (ApiError 400 ''batch_limit'' ''Select at most 1000 records.''))
                    else Some (Inr (unique_ids ids))
                | None \<Rightarrow> Some (Inl (ApiError 400 ''batch_limit'' ''Select at most 1000 records.'')))
          else (case js_get selection ''query'' of
              JObj _ \<Rightarrow>
                (case (if js_get selection ''excludedIds'' = JUndefined then Some [] else js_ids (js_get selection ''excludedIds'')) of
                   None \<Rightarrow> Some (Inl (ApiError 400 ''invalid_selection'' ''Excluded IDs are invalid.''))
                 | Some excluded \<Rightarrow>
                     if length excluded > MANAGEMENT_BATCH_LIMIT
                     then Some (Inl (ApiError 400 ''invalid_selection'' ''Excluded IDs are invalid.''))
                     else (case pages of Inl e \<Rightarrow> Some (Inl e) | Inr list_page \<Rightarrow> collect_pages list_page excluded 1 []))
            | _ \<Rightarrow> Some (Inl (ApiError 400 ''invalid_selection'' ''Provide record IDs or a filter query.'')))
      | JArr _ \<Rightarrow> Some (Inl (ApiError 400 ''invalid_selection'' ''Provide record IDs or a filter query.''))
      | _ \<Rightarrow> Some (Inl (ApiError 400 ''invalid_selection'' ''A selection is required.'')))"

end
