(* ===== verification/Management_Guarantees.thy ===== *)
theory Management_Guarantees
  imports Management_Operations
begin

text \<open>
  What batch operations guarantee: each confirmed item is performed once and by a bounded number of workers,
  polling gives up on what cannot be read, and a selection is resolved exactly or refused.
\<close>

section \<open>The operations as a state machine\<close>

definition update_run :: "string \<Rightarrow> (OperationRun \<Rightarrow> OperationRun) \<Rightarrow> manager \<Rightarrow> manager" where
  "update_run i f m = m\<lparr>operations := map (\<lambda>r. if op_id (operation r) = i then f r else r) (operations m)\<rparr>"

inductive manager_step :: "manager \<Rightarrow> manager \<Rightarrow> bool" where
  previews: "uuid \<notin> (\<lambda>r. op_id (operation r)) ` set (operations m) \<Longrightarrow>
    manager_step m (snd (preview now uuid action ids checked m))"
| reads: "manager_step m (snd (get_operation now i m))"
| executes: "manager_step m (snd (execute now i refresh concurrency m))"
| performs: "manager_step m (update_run i (perform_answered now k result) m)"
| throws: "manager_step m (update_run i (worker_throws now k e) m)"
| polls: "manager_step m (update_run i (round_due now) m)"
| refreshes: "manager_step m (update_run i (refreshed now result) m)"

inductive manager_reachable :: "manager \<Rightarrow> bool" where
  fresh_manager: "manager_reachable \<lparr>scope = s, operations = []\<rparr>"
| manager_goes_on: "manager_reachable m \<Longrightarrow> manager_step m m' \<Longrightarrow> manager_reachable m'"

section \<open>The invariant of one operation\<close>

definition pending_in :: "OperationItem list \<Rightarrow> nat \<Rightarrow> bool" where
  "pending_in xs i \<longleftrightarrow> it_status (xs ! i) = ItPending"

definition performing :: "Slot list \<Rightarrow> nat list" where
  "performing ss = concat (map (\<lambda>s. case s of Performing i x \<Rightarrow> [i] | _ \<Rightarrow> []) ss)"

definition work_inv :: "OperationRun \<Rightarrow> bool" where
  "work_inv r \<longleftrightarrow> length (items r) = length (previewed r) \<and>
     (phase r \<noteq> Over \<longrightarrow> (\<forall>i. nextIndex r \<le> i \<and> i < length (items r) \<longrightarrow> items r ! i = previewed r ! i)) \<and>
     performed r = filter (pending_in (previewed r)) [0..<min (nextIndex r) (length (items r))] \<and>
     (\<forall>i x. Performing i x \<in> set (slots r) \<longrightarrow> i < nextIndex r) \<and>
     distinct (performing (slots r)) \<and> length (slots r) \<le> 20 \<and>
     (\<not> haltRun r \<and> Left \<in> set (slots r) \<longrightarrow> length (items r) \<le> nextIndex r) \<and>
     (haltRun r \<longrightarrow> list_ex slot_threw (slots r)) \<and> (list_ex slot_threw (slots r) \<longrightarrow> haltRun r)"

definition polling :: "OperationRun \<Rightarrow> bool" where
  "polling r \<longleftrightarrow> hasRefresh r \<and> length (items r) \<le> nextIndex r \<and> \<not> list_ex slot_open (slots r) \<and>
     (\<forall>i < length (items r). it_status (items r ! i) = ItRunning \<longrightarrow> failures r i < MAX_REFRESH_FAILURES)"

definition phase_inv :: "OperationRun \<Rightarrow> bool" where
  "phase_inv r \<longleftrightarrow>
     (case phase r of
        NotStarted \<Rightarrow> op_status (operation r) = OpPreview \<and> slots r = [] \<and> nextIndex r = 0
      | Working \<Rightarrow> op_status (operation r) = OpRunning \<and> list_ex slot_open (slots r)
      | Delaying n \<Rightarrow> op_status (operation r) = OpRunning \<and> polling r \<and> some_running r
      | Refreshing n i \<Rightarrow> op_status (operation r) = OpRunning \<and> polling r \<and> i < length (items r) \<and> it_status (items r ! i) = ItRunning
      | Over \<Rightarrow> \<not> list_ex slot_open (slots r) \<and>
          (op_status (operation r) = OpCompleted \<and> length (items r) \<le> nextIndex r \<and> (hasRefresh r \<longrightarrow> \<not> some_running r) \<or>
           op_status (operation r) = OpInterrupted \<and> list_all (\<lambda>x. it_status x \<noteq> ItPending \<and> it_status x \<noteq> ItRunning) (items r)))"

definition run_inv :: "OperationRun \<Rightarrow> bool" where
  "run_inv r \<longleftrightarrow> work_inv r \<and> phase_inv r"

lemma put_item_simps [simp]:
  "items (put_item now i x r) = (items r)[i := x]" "nextIndex (put_item now i x r) = nextIndex r"
  "haltRun (put_item now i x r) = haltRun r" "slots (put_item now i x r) = slots r" "phase (put_item now i x r) = phase r"
  "hasRefresh (put_item now i x r) = hasRefresh r" "failures (put_item now i x r) = failures r"
  "performed (put_item now i x r) = performed r" "previewed (put_item now i x r) = previewed r"
  "op_status (operation (put_item now i x r)) = op_status (operation r)" "op_id (operation (put_item now i x r)) = op_id (operation r)"
  by (simp_all add: put_item_def touch_def items_def)

lemma touch_simps [simp]:
  "items (touch now r) = items r" "nextIndex (touch now r) = nextIndex r" "haltRun (touch now r) = haltRun r"
  "slots (touch now r) = slots r" "phase (touch now r) = phase r" "hasRefresh (touch now r) = hasRefresh r"
  "failures (touch now r) = failures r" "performed (touch now r) = performed r" "previewed (touch now r) = previewed r"
  "op_status (operation (touch now r)) = op_status (operation r)" "op_id (operation (touch now r)) = op_id (operation r)"
  by (simp_all add: touch_def items_def)

lemma set_status_simps [simp]:
  "items (set_status st r) = items r" "nextIndex (set_status st r) = nextIndex r" "haltRun (set_status st r) = haltRun r"
  "slots (set_status st r) = slots r" "phase (set_status st r) = phase r" "hasRefresh (set_status st r) = hasRefresh r"
  "failures (set_status st r) = failures r" "performed (set_status st r) = performed r" "previewed (set_status st r) = previewed r"
  "op_status (operation (set_status st r)) = st" "op_id (operation (set_status st r)) = op_id (operation r)"
  by (simp_all add: set_status_def items_def)

lemma items_update [simp]:
  "items (r\<lparr>nextIndex := n\<rparr>) = items r" "items (r\<lparr>slots := ss\<rparr>) = items r" "items (r\<lparr>phase := p\<rparr>) = items r"
  "items (r\<lparr>failures := fs\<rparr>) = items r" "items (r\<lparr>haltRun := b\<rparr>) = items r" "items (r\<lparr>performed := ps\<rparr>) = items r"
  "items (r\<lparr>hasRefresh := b\<rparr>) = items r"
  by (simp_all add: items_def)

section \<open>Taking items\<close>

lemma next_pending_Some:
  assumes "next_pending r = Some i"
  shows "nextIndex r \<le> i \<and> i < length (items r) \<and> it_status (items r ! i) = ItPending \<and>
    (\<forall>j. nextIndex r \<le> j \<and> j < i \<longrightarrow> it_status (items r ! j) \<noteq> ItPending)"
proof -
  obtain n where n: "n < length (items r) - nextIndex r" "it_status (items r ! (nextIndex r + n)) = ItPending" "i = nextIndex r + n"
    "\<forall>m<n. it_status (items r ! (nextIndex r + m)) \<noteq> ItPending"
    using assms by (auto simp: next_pending_def find_Some_iff)
  have "it_status (items r ! j) \<noteq> ItPending" if "nextIndex r \<le> j" "j < i" for j
    using n(3,4) that spec [of _ "j - nextIndex r"] by (auto dest: spec [of _ "j - nextIndex r"])
  then show ?thesis using n by simp
qed

lemma next_pending_None:
  "next_pending r = None \<Longrightarrow> \<forall>j. nextIndex r \<le> j \<and> j < length (items r) \<longrightarrow> it_status (items r ! j) \<noteq> ItPending"
  by (auto simp: next_pending_def find_None_iff)

lemma filter_upt_extend:
  assumes "n \<le> i" "\<forall>j. n \<le> j \<and> j < i \<longrightarrow> \<not> P j"
  shows "filter P [0..<i] = filter P [0..<n]"
proof -
  have "[0..<i] = [0..<n] @ [n..<i]" using assms(1) upt_add_eq_append [of 0 n "i - n"] by simp
  moreover have "filter P [n..<i] = []" using assms(2) by (simp add: filter_empty_conv)
  ultimately show ?thesis by simp
qed

lemma performing_update:
  "k < length ss \<Longrightarrow> performing (ss[k := s]) = performing (take k ss) @ performing [s] @ performing (drop (Suc k) ss)"
  by (simp add: performing_def upd_conv_take_nth_drop)

lemma performing_split: "k < length ss \<Longrightarrow> performing ss = performing (take k ss) @ performing [ss ! k] @ performing (drop (Suc k) ss)"
  using performing_update [of k ss "ss ! k"] by simp

lemma performing_set: "i \<in> set (performing ss) \<longleftrightarrow> (\<exists>x. Performing i x \<in> set ss)"
  by (force simp: performing_def split: Slot.splits)

lemma work_inv_put: "work_inv r \<Longrightarrow> i < nextIndex r \<Longrightarrow> work_inv (put_item now i y r)"
  by (auto simp: work_inv_def)

lemma performing_rest:
  assumes "distinct (performing ss)" "k < length ss"
  shows "distinct (performing (take k ss) @ performing (drop (Suc k) ss))"
proof -
  have "distinct (performing (take k ss) @ performing [ss ! k] @ performing (drop (Suc k) ss))"
    using assms(1) performing_split [OF assms(2)] by metis
  then show ?thesis by auto
qed

lemma distinct_performing_drop:
  "distinct (performing ss) \<Longrightarrow> k < length ss \<Longrightarrow> performing [s] = [] \<Longrightarrow> distinct (performing (ss[k := s]))"
  using performing_rest [of ss k] by (simp add: performing_update)

lemma threw_at: "k < length ss \<Longrightarrow> list_ex slot_threw (ss[k := s]) \<longleftrightarrow>
    list_ex slot_threw (take k ss) \<or> slot_threw s \<or> list_ex slot_threw (drop (Suc k) ss)"
  by (simp add: upd_conv_take_nth_drop)

lemma threw_update:
  "\<not> slot_threw (ss ! k) \<Longrightarrow> \<not> slot_threw s \<Longrightarrow> k < length ss \<Longrightarrow> list_ex slot_threw (ss[k := s]) = list_ex slot_threw ss"
  using threw_at [of k ss s] threw_at [of k ss "ss ! k"] by simp

lemma slots_update_mem: "x \<in> set (ss[k := s]) \<Longrightarrow> x = s \<or> x \<in> set ss"
  using set_update_subset_insert by fast

lemma work_inv_left:
  assumes r: "work_inv r" "phase r \<noteq> Over" and k: "k < length (slots r)" "\<not> slot_threw (slots r ! k)"
    and n: "haltRun r \<and> n = nextIndex r \<or> next_pending r = None \<and> n = max (nextIndex r) (length (items r))"
  shows "work_inv (r\<lparr>nextIndex := n, slots := (slots r)[k := Left]\<rparr>)"
proof -
  note inv = r(1) [unfolded work_inv_def]
  have le: "nextIndex r \<le> n" using n by auto
  have "filter (pending_in (previewed r)) [0..<min n (length (items r))] =
      filter (pending_in (previewed r)) [0..<min (nextIndex r) (length (items r))]"
  proof (rule filter_upt_extend)
    show "\<forall>j. min (nextIndex r) (length (items r)) \<le> j \<and> j < min n (length (items r)) \<longrightarrow> \<not> pending_in (previewed r) j"
      using n inv r(2) next_pending_None [of r] by (auto simp: pending_in_def)
  qed (use le in simp)
  moreover have "distinct (performing ((slots r)[k := Left]))"
    using inv k by (intro distinct_performing_drop) (simp_all add: performing_def)
  moreover have "\<forall>i x. Performing i x \<in> set ((slots r)[k := Left]) \<longrightarrow> i < n"
    using inv le slots_update_mem by fastforce
  ultimately show ?thesis using inv k n le unfolding work_inv_def
    by (auto simp: threw_update items_def dest!: slots_update_mem)
qed

lemma work_inv_next:
  assumes r: "work_inv r" and k: "k < length (slots r)" "\<not> slot_threw (slots r ! k)" and i: "next_pending r = Some i" and "\<not> haltRun r"
    and over: "phase r \<noteq> Over"
  shows "work_inv ((put_item now i x r)\<lparr>nextIndex := i + 1, slots := (slots r)[k := Performing i y], performed := performed r @ [i]\<rparr>)"
proof -
  note inv = r [unfolded work_inv_def]
  note p = next_pending_Some [OF i]
  have pv: "pending_in (previewed r) i" "\<And>j. nextIndex r \<le> j \<Longrightarrow> j < i \<Longrightarrow> \<not> pending_in (previewed r) j"
    using p inv over by (auto simp: pending_in_def)
  have "filter (pending_in (previewed r)) [0..<i] = filter (pending_in (previewed r)) [0..<min (nextIndex r) (length (items r))]"
    by (rule filter_upt_extend) (use p pv in auto)
  then have perf: "performed r @ [i] = filter (pending_in (previewed r)) [0..<min (i + 1) (length (items r))]"
    using inv p pv(1) by simp
  have new: "i \<notin> set (performing (slots r))"
  proof
    assume "i \<in> set (performing (slots r))"
    then obtain z where "Performing i z \<in> set (slots r)" by (auto simp: performing_set)
    then show False using inv p by fastforce
  qed
  then have "i \<notin> set (performing (take k (slots r)) @ performing [slots r ! k] @ performing (drop (Suc k) (slots r)))"
    using performing_split [OF k(1)] by metis
  moreover have "distinct (performing (take k (slots r)) @ performing (drop (Suc k) (slots r)))"
    using inv k(1) by (intro performing_rest) simp_all
  moreover have "performing [Performing i y] = [i]" by (simp add: performing_def)
  ultimately have "distinct (performing ((slots r)[k := Performing i y]))"
    unfolding performing_update [OF k(1)] by auto
  moreover have "\<forall>j z. Performing j z \<in> set ((slots r)[k := Performing i y]) \<longrightarrow> j < i + 1"
  proof (intro allI impI)
    fix j z assume "Performing j z \<in> set ((slots r)[k := Performing i y])"
    then have "Performing j z = Performing i y \<or> Performing j z \<in> set (slots r)" by (rule slots_update_mem)
    then show "j < i + 1" using inv p by fastforce
  qed
  moreover have "Left \<notin> set ((slots r)[k := Performing i y])"
    using inv p assms(5) slots_update_mem by fastforce
  moreover have "\<not> list_ex slot_threw ((slots r)[k := Performing i y])" using inv assms(5) threw_update [OF k(2) _ k(1)] by simp
  moreover have "\<forall>j. i + 1 \<le> j \<and> j < length (items r) \<longrightarrow> ((items r)[i := x]) ! j = previewed r ! j"
    using inv p over by auto
  ultimately show ?thesis using inv perf assms(5) unfolding work_inv_def by simp
qed

lemma work_inv_take:
  assumes "work_inv r" "phase r \<noteq> Over" "k < length (slots r)" "\<not> slot_threw (slots r ! k)"
  shows "work_inv (take_item now k r)"
proof (cases "haltRun r")
  case True
  have "r\<lparr>nextIndex := nextIndex r, slots := (slots r)[k := Left]\<rparr> = r\<lparr>slots := (slots r)[k := Left]\<rparr>" by simp
  then show ?thesis using True work_inv_left [OF assms, of "nextIndex r"] by (simp add: take_item_def)
next
  case False
  then show ?thesis
    using work_inv_left [OF assms, of "max (nextIndex r) (length (items r))"] work_inv_next [OF assms(1,3,4) _ _ assms(2)]
    by (simp add: take_item_def Let_def split: option.split)
qed

lemma take_item_simps [simp]:
  "length (slots (take_item now k r)) = length (slots r)" "hasRefresh (take_item now k r) = hasRefresh r"
  "phase (take_item now k r) = phase r" "op_status (operation (take_item now k r)) = op_status (operation r)"
  "op_id (operation (take_item now k r)) = op_id (operation r)" "previewed (take_item now k r) = previewed r"
  by (simp_all add: take_item_def Let_def split: option.split)


section \<open>Every event keeps the invariant\<close>

lemma run_inv_over:
  assumes "work_inv r" "\<not> list_ex slot_open (slots r)"
  shows "length (items r) \<le> nextIndex r \<Longrightarrow> (hasRefresh r \<longrightarrow> \<not> some_running r) \<Longrightarrow> run_inv (complete now r)"
    and "run_inv (interrupt now r)"
proof -
  assume "length (items r) \<le> nextIndex r" "hasRefresh r \<longrightarrow> \<not> some_running r"
  then show "run_inv (complete now r)"
    using assms by (simp add: run_inv_def phase_inv_def complete_def work_inv_def some_running_def)
next
  have i: "items (interrupt now r) = map interrupt_item (items r)" "phase (interrupt now r) = Over"
    "previewed (interrupt now r) = previewed r" "performed (interrupt now r) = performed r" "slots (interrupt now r) = slots r"
    "nextIndex (interrupt now r) = nextIndex r" "haltRun (interrupt now r) = haltRun r"
    "op_status (operation (interrupt now r)) = OpInterrupted"
    by (simp_all add: interrupt_def items_def touch_def set_status_def)
  have "it_status (interrupt_item x) \<noteq> ItPending \<and> it_status (interrupt_item x) \<noteq> ItRunning" for x
    by (simp add: interrupt_item_def)
  then have "list_all (\<lambda>x. it_status x \<noteq> ItPending \<and> it_status x \<noteq> ItRunning) (items (interrupt now r))"
    unfolding i by (simp add: list_all_iff)
  moreover have "work_inv (interrupt now r)" using assms(1) unfolding work_inv_def i by auto
  ultimately show "run_inv (interrupt now r)" using assms(2) i by (simp add: run_inv_def phase_inv_def)
qed

lemma run_inv_poll_head:
  assumes "work_inv r" "polling r" "op_status (operation r) = OpRunning"
  shows "run_inv (poll_head now n r)"
proof (cases "some_running r")
  case True
  have "polling (r\<lparr>phase := Delaying n\<rparr>)" "work_inv (r\<lparr>phase := Delaying n\<rparr>)"
    using assms(1,2) by (auto simp: polling_def work_inv_def)
  then show ?thesis using True assms(3) by (simp add: poll_head_def run_inv_def phase_inv_def some_running_def)
next
  case False
  then show ?thesis using assms run_inv_over(1) [of r] by (simp add: poll_head_def polling_def)
qed

lemma run_inv_settle:
  assumes r: "work_inv r" "phase r = Working" "op_status (operation r) = OpRunning" and e: "slots r = [] \<Longrightarrow> items r = []"
  shows "run_inv (settle_workers now r)"
proof (cases "list_ex slot_open (slots r)")
  case True
  then show ?thesis using r by (simp add: settle_workers_def run_inv_def phase_inv_def)
next
  case no: False
  show ?thesis
  proof (cases "list_ex slot_threw (slots r)")
    case True
    then show ?thesis using no r run_inv_over(2) by (simp add: settle_workers_def)
  next
    case False
    have "Left \<in> set (slots r)" if "slots r \<noteq> []"
    proof -
      have "hd (slots r) \<in> set (slots r)" using that by simp
      moreover have "\<not> slot_open (hd (slots r))" "\<not> slot_threw (hd (slots r))"
        using no False calculation by (auto simp: list_ex_iff)
      moreover have "s = Left" if "\<not> slot_open s" "\<not> slot_threw s" for s using that by (cases s) simp_all
      ultimately show ?thesis by metis
    qed
    then have n: "length (items r) \<le> nextIndex r" using r(1) e False unfolding work_inv_def by (cases "slots r = []") auto
    have w: "work_inv (r\<lparr>failures := (\<lambda>_. 0)\<rparr>)" using r(1) by (auto simp: work_inv_def)
    have p: "polling (r\<lparr>failures := (\<lambda>_. 0)\<rparr>)" if "hasRefresh r"
      using n no that by (simp add: polling_def MAX_REFRESH_FAILURES_def)
    show ?thesis using no False run_inv_over(1) [OF r(1) no n] run_inv_poll_head [OF w] p r(3)
      by (simp add: settle_workers_def)
  qed
qed

lemma fold_take_inv:
  assumes "work_inv r" "phase r = Working" "n \<le> length (slots r)" "\<forall>k < length (slots r). slots r ! k = Starting \<or> k < m" "m \<le> n"
    "\<forall>k < m. \<not> slot_threw (slots r ! k)"
  shows "work_inv (fold (take_item now) [m..<n] r) \<and> phase (fold (take_item now) [m..<n] r) = Working \<and>
    op_status (operation (fold (take_item now) [m..<n] r)) = op_status (operation r) \<and>
    length (slots (fold (take_item now) [m..<n] r)) = length (slots r) \<and>
    op_id (operation (fold (take_item now) [m..<n] r)) = op_id (operation r)"
  using assms
proof (induction "n - m" arbitrary: m r)
  case (Suc d)
  then have lt: "m < n" by simp
  have s: "slots r ! m = Starting" using Suc.prems(4) [rule_format, of m] Suc.prems(3) lt by simp
  have w: "work_inv (take_item now m r)" using Suc.prems lt s by (intro work_inv_take) simp_all
  have other: "slots (take_item now m r) ! k = slots r ! k" if "k \<noteq> m" for k
    using that by (simp add: take_item_def Let_def split: option.split)
  have own: "\<not> slot_threw (slots (take_item now m r) ! m)"
    using lt Suc.prems(3) by (simp add: take_item_def Let_def split: option.split)
  have "\<forall>k < length (slots (take_item now m r)). slots (take_item now m r) ! k = Starting \<or> k < Suc m"
    using Suc.prems(4) other by (metis less_Suc_eq take_item_simps(1))
  moreover have "\<forall>k < Suc m. \<not> slot_threw (slots (take_item now m r) ! k)"
    using Suc.prems(6) other own by (metis less_Suc_eq)
  ultimately show ?case using Suc.hyps(1) [of "Suc m" "take_item now m r"] Suc.hyps(2) Suc.prems(2,3) lt w
    by (simp add: upt_conv_Cons)
qed simp


lemma run_inv_new: "run_inv (new_run op)" if "op_status op = OpPreview"
  using that by (simp add: run_inv_def work_inv_def phase_inv_def new_run_def items_def performing_def)

lemma run_inv_start:
  assumes r: "run_inv r" "op_status (operation r) = OpPreview"
  shows "run_inv (start_workers now c (touch now (set_status OpRunning (r\<lparr>hasRefresh := b\<rparr>))))"
proof -
  let ?r = "touch now (set_status OpRunning (r\<lparr>hasRefresh := b\<rparr>))" let ?n = "worker_count c ?r"
  let ?w = "?r\<lparr>phase := Working, slots := replicate ?n Starting\<rparr>"
  have p: "phase r = NotStarted" using r by (auto simp: run_inv_def phase_inv_def split: RunPhase.splits)
  then have w: "work_inv r" "slots r = []" using r by (simp_all add: run_inv_def phase_inv_def)
  have n: "?n \<le> 20" by (auto simp: worker_count_def)
  have none: "performing (replicate ?n Starting) = []" by (simp add: performing_def)
  have "work_inv ?w" using w p n none
    by (auto simp: work_inv_def list_ex_iff)
  then have f: "work_inv (fold (take_item now) [0..<?n] ?w)" "phase (fold (take_item now) [0..<?n] ?w) = Working"
    "op_status (operation (fold (take_item now) [0..<?n] ?w)) = OpRunning"
    "length (slots (fold (take_item now) [0..<?n] ?w)) = ?n"
    using fold_take_inv [of ?w ?n 0 now] by simp_all
  have "items (fold (take_item now) [0..<?n] ?w) = []" if "slots (fold (take_item now) [0..<?n] ?w) = []"
  proof -
    have "?n = 0" using f(4) that by simp
    then have "items ?w = []" by (cases "items r") (auto simp: worker_count_def min_def split: if_splits)
    then show ?thesis using \<open>?n = 0\<close> by simp
  qed
  then show ?thesis unfolding start_workers_def Let_def by (intro run_inv_settle f(1-3))
qed

lemma run_inv_performed:
  assumes r: "run_inv r" shows "run_inv (perform_answered now k result r)"
proof (cases "k < length (slots r) \<and> slot_open (slots r ! k) \<and> slots r ! k \<noteq> Starting")
  case True
  then obtain i x where s: "slots r ! k = Performing i x" by (cases "slots r ! k") auto
  then have m: "Performing i x \<in> set (slots r)" using True nth_mem by metis
  have "list_ex slot_open (slots r)" unfolding list_ex_iff by (rule bexI [OF _ m]) simp
  then have p: "phase r = Working" "op_status (operation r) = OpRunning"
    using r by (auto simp: run_inv_def phase_inv_def polling_def split: RunPhase.splits)
  have w: "work_inv r" "i < nextIndex r" using r m by (auto simp: run_inv_def work_inv_def)
  let ?y = "case result of Inr y \<Rightarrow> y | Inl e \<Rightarrow> failed_item e x" let ?p = "put_item now i ?y r"
  have "work_inv (take_item now k ?p)"
    using True p s by (intro work_inv_take work_inv_put w) simp_all
  then have "run_inv (settle_workers now (take_item now k ?p))"
    using p True by (intro run_inv_settle) (auto simp flip: length_0_conv)
  then show ?thesis using True s by (simp add: perform_answered_def)
next
  case False
  then show ?thesis using r by (auto simp: perform_answered_def split: Slot.split)
qed

lemma run_inv_throws:
  assumes r: "run_inv r" shows "run_inv (worker_throws now k e r)"
proof (cases "k < length (slots r) \<and> slot_open (slots r ! k)")
  case True
  then have "list_ex slot_open (slots r)" using nth_mem [of k "slots r"] by (auto simp: list_ex_iff)
  then have p: "phase r = Working" "op_status (operation r) = OpRunning"
    using r by (auto simp: run_inv_def phase_inv_def polling_def split: RunPhase.splits)
  have w: "work_inv r" using r by (simp add: run_inv_def)
  let ?r = "r\<lparr>haltRun := True, slots := (slots r)[k := Threw e]\<rparr>"
  have "distinct (performing ((slots r)[k := Threw e]))"
    using w True by (intro distinct_performing_drop) (simp_all add: work_inv_def performing_def)
  moreover have "list_ex slot_threw ((slots r)[k := Threw e])" using True by (simp add: threw_at)
  moreover have "i < nextIndex r" if "Performing i x \<in> set ((slots r)[k := Threw e])" for i x
    using that w slots_update_mem [of "Performing i x" "slots r" k "Threw e"] by (auto simp: work_inv_def)
  ultimately have "work_inv ?r" using w by (auto simp: work_inv_def items_def)
  then have "run_inv (settle_workers now ?r)"
    using p True by (intro run_inv_settle) auto
  then show ?thesis using True by (simp add: worker_throws_def)
qed (use r in \<open>auto simp: worker_throws_def\<close>)

lemma run_inv_refresh_from:
  assumes "work_inv r" "polling r" "op_status (operation r) = OpRunning"
  shows "run_inv (refresh_from now n i r)"
proof (cases "find (\<lambda>j. it_status (items r ! j) = ItRunning) [i..<length (items r)]")
  case None
  then show ?thesis using run_inv_poll_head [OF assms] by (simp add: refresh_from_def)
next
  case (Some j)
  then have j: "j < length (items r)" "it_status (items r ! j) = ItRunning" by (auto simp: find_Some_iff)
  have "work_inv (r\<lparr>phase := Refreshing n j\<rparr>)" "polling (r\<lparr>phase := Refreshing n j\<rparr>)"
    using assms(1,2) by (auto simp: work_inv_def polling_def)
  then show ?thesis using Some j assms(3) by (simp add: refresh_from_def run_inv_def phase_inv_def)
qed

lemma phase_polling:
  "run_inv r \<Longrightarrow> phase r = Delaying n \<or> phase r = Refreshing n i \<Longrightarrow> work_inv r \<and> polling r \<and> op_status (operation r) = OpRunning"
  by (auto simp: run_inv_def phase_inv_def)

lemma run_inv_round_due: "run_inv r \<Longrightarrow> run_inv (round_due now r)"
  using phase_polling run_inv_refresh_from by (simp add: round_due_def split: RunPhase.split)

lemma run_inv_refreshed:
  assumes r: "run_inv r" shows "run_inv (refreshed now result r)"
proof (cases "phase r")
  case (Refreshing n i)
  have p: "work_inv r" "polling r" "op_status (operation r) = OpRunning" using phase_polling [OF r] Refreshing by blast+
  have i: "i < length (items r)" using r Refreshing by (simp add: run_inv_def phase_inv_def)
  have lt: "i < nextIndex r" using p(2) i by (simp add: polling_def)
  have pol: "polling (put_item now i y (r\<lparr>failures := (failures r)(i := m)\<rparr>))" if "it_status y = ItRunning \<Longrightarrow> m < MAX_REFRESH_FAILURES" for y m
    using p(2) that by (auto simp: polling_def nth_list_update)
  have pol0: "polling (r\<lparr>failures := (failures r)(i := 0)\<rparr>)"
    using p(2) by (auto simp: polling_def MAX_REFRESH_FAILURES_def)
  have w: "work_inv (r\<lparr>failures := fs\<rparr>)" for fs using p(1) by (auto simp: work_inv_def)
  have wp: "work_inv (put_item now i y (r\<lparr>failures := fs\<rparr>))" for y fs by (rule work_inv_put [OF w]) (simp add: lt)
  have ok: "run_inv (refresh_from now n (i + 1) (put_item now i y (r\<lparr>failures := (failures r)(i := m)\<rparr>)))"
    if "it_status y = ItRunning \<Longrightarrow> m < MAX_REFRESH_FAILURES" for y m
    by (rule run_inv_refresh_from [OF wp pol]) (use that p(3) in simp_all)
  have ok0: "run_inv (refresh_from now n (i + 1) (r\<lparr>failures := (failures r)(i := 0)\<rparr>))"
    by (rule run_inv_refresh_from [OF w pol0]) (use p(3) in simp)
  have un: "it_status (unavailable_item m e x) = ItRunning \<Longrightarrow> m < MAX_REFRESH_FAILURES" for m e x
    by (auto simp: unavailable_item_def Let_def split: if_splits)
  show ?thesis
  proof (cases result)
    case (Inl e)
    then show ?thesis using Refreshing ok [OF un] by (simp add: refreshed_def Let_def)
  next
    case (Inr y)
    have "run_inv (refresh_from now n (i + 1) (put_item now i y (r\<lparr>failures := (failures r)(i := 0)\<rparr>)))"
      by (rule ok) (simp add: MAX_REFRESH_FAILURES_def)
    then show ?thesis using Refreshing Inr ok0 by (simp add: refreshed_def Let_def)
  qed
qed (use r in \<open>simp_all add: refreshed_def\<close>)


section \<open>Reachable managers\<close>

definition manager_inv :: "manager \<Rightarrow> bool" where
  "manager_inv m \<longleftrightarrow> (\<forall>r\<in>set (operations m). run_inv r)"

lemma manager_inv_sweep: "manager_inv m \<Longrightarrow> manager_inv (sweep now m)"
  by (simp add: manager_inv_def sweep_def)

lemma manager_inv_update: "manager_inv m \<Longrightarrow> (\<And>r. run_inv r \<Longrightarrow> run_inv (f r)) \<Longrightarrow> manager_inv (update_run i f m)"
  by (auto simp: manager_inv_def update_run_def)

lemma get_operation_result:
  "get_operation now i m = (res, m') \<Longrightarrow> m' = sweep now m \<and> (\<forall>r. res = Some r \<longrightarrow> r \<in> set (operations m'))"
  by (auto simp: get_operation_def Let_def find_run_def find_Some_iff split: option.splits if_splits)

lemma manager_inv_execute:
  assumes m: "manager_inv m" shows "manager_inv (snd (execute now i b c m))"
proof (cases "get_operation now i m")
  case (Pair res m')
  note g = get_operation_result [OF Pair]
  have m': "manager_inv m'" using g m manager_inv_sweep by blast
  show ?thesis
  proof (cases res)
    case None
    then show ?thesis using Pair m' by (simp add: execute_def)
  next
    case (Some r)
    have r: "run_inv r" using g m' Some by (auto simp: manager_inv_def)
    show ?thesis
    proof (cases "op_status (operation r) = OpPreview")
      case True
      have "run_inv (start_workers now c (touch now (set_status OpRunning (r\<lparr>hasRefresh := b\<rparr>))))" by (rule run_inv_start [OF r True])
      then show ?thesis using Pair Some True m' by (auto simp: execute_def Let_def put_run_def manager_inv_def)
    qed (use Pair Some m' in \<open>simp add: execute_def\<close>)
  qed
qed

lemma manager_inv_preview: "manager_inv m \<Longrightarrow> manager_inv (snd (preview now uuid action ids checked m))"
  using manager_inv_sweep [of m now] by (auto simp: preview_def Let_def manager_inv_def intro: run_inv_new split: sum.split)

lemma manager_inv_reachable: "manager_reachable m \<Longrightarrow> manager_inv m"
proof (induction rule: manager_reachable.induct)
  case (fresh_manager s) then show ?case by (simp add: manager_inv_def)
next
  case (manager_goes_on m m')
  from manager_goes_on(2,3) show ?case
  proof (cases rule: manager_step.cases)
    case (reads now i)
    then show ?thesis using get_operation_result [of now i m] manager_inv_sweep [OF manager_goes_on(3)]
      by (metis prod.collapse)
  qed (auto intro: manager_inv_preview manager_inv_execute manager_inv_update run_inv_performed run_inv_throws
        run_inv_round_due run_inv_refreshed)
qed

text \<open>Two tasks are previewed and retried by one worker; their attempts are still running when polling starts.\<close>

definition example_previewed :: manager where
  "example_previewed = snd (preview 0 ''op'' ''retry'' [''t1'', ''t2'']
     (preview_items (\<lambda>_. Inr None) (\<lambda>_. Inr None) (\<lambda>_. Inr (Some ''r'', None, None)) {} [''t1'', ''t2''])
     \<lparr>scope = ''tasks'', operations = []\<rparr>)"

definition example_executed :: manager where
  "example_executed = snd (execute 1 ''op'' True 1 example_previewed)"

definition example_item :: "string \<Rightarrow> OperationItem" where
  "example_item i = \<lparr>it_id = i, it_status = ItRunning, it_detail = None, it_attemptId = Some ''a'', it_relatedTaskId = None,
     it_revision = None, it_label = None, it_requiresPasswordOverride = None\<rparr>"

definition example_polling :: manager where
  "example_polling = update_run ''op'' (perform_answered 3 0 (Inr (example_item ''t2'')))
     (update_run ''op'' (perform_answered 2 0 (Inr (example_item ''t1''))) example_executed)"

lemma example_polling_reachable: "manager_reachable example_polling"
proof -
  have 1: "manager_reachable example_previewed" unfolding example_previewed_def
    by (rule manager_goes_on [OF fresh_manager previews]) simp
  have 2: "manager_reachable example_executed" unfolding example_executed_def
    by (rule manager_goes_on [OF 1 executes])
  show ?thesis unfolding example_polling_def
    by (rule manager_goes_on [OF manager_goes_on [OF 2 performs] performs])
qed

text \<open>
  C6. In every reachable state of a manager, \<open>perform\<close> has been called for no item twice and only for items
  that the preview left pending, at most 20 items are being performed at a time and different ones; once an
  operation is completed, every pending item of its preview has been performed and, where progress can be
  read, no item is left running; once it is interrupted, no item is left pending or running.
\<close>

theorem items_performed_once:
  assumes "manager_reachable m" and "r \<in> set (operations m)"
  shows "distinct (performed r) \<and> set (performed r) \<subseteq> {i. i < length (items r) \<and> pending_in (previewed r) i} \<and>
    distinct (performing (slots r)) \<and> length (slots r) \<le> 20 \<and>
    (op_status (operation r) = OpCompleted \<longrightarrow>
       set (performed r) = {i. i < length (items r) \<and> pending_in (previewed r) i} \<and> (hasRefresh r \<longrightarrow> \<not> some_running r)) \<and>
    (op_status (operation r) = OpInterrupted \<longrightarrow>
       list_all (\<lambda>x. it_status x \<noteq> ItPending \<and> it_status x \<noteq> ItRunning) (items r))"
proof -
  have inv: "run_inv r" using manager_inv_reachable [OF assms(1)] assms(2) by (simp add: manager_inv_def)
  then have p: "performed r = filter (pending_in (previewed r)) [0..<min (nextIndex r) (length (items r))]"
    "distinct (performing (slots r))" "length (slots r) \<le> 20" by (simp_all add: run_inv_def work_inv_def)
  have c: "length (items r) \<le> nextIndex r \<and> (hasRefresh r \<longrightarrow> \<not> some_running r)" if "op_status (operation r) = OpCompleted"
    using inv that by (auto simp: run_inv_def phase_inv_def split: RunPhase.splits)
  have i: "list_all (\<lambda>x. it_status x \<noteq> ItPending \<and> it_status x \<noteq> ItRunning) (items r)" if "op_status (operation r) = OpInterrupted"
    using inv that by (auto simp: run_inv_def phase_inv_def split: RunPhase.splits)
  show ?thesis using p c i by auto
qed


theorem items_performed_once_witness:
  "performed (hd (operations example_polling)) = [0, 1] \<and> distinct (performed (hd (operations example_polling))) \<and>
   length (slots (hd (operations example_polling))) = 1"
proof -
  have "operations example_polling \<noteq> []" "performed (hd (operations example_polling)) = [0, 1]"
    "length (slots (hd (operations example_polling))) = 1" by code_simp+
  then show ?thesis using items_performed_once [OF example_polling_reachable, of "hd (operations example_polling)"] by simp
qed

section \<open>Polling ends\<close>

text \<open>One more poll that fails: the delay of a round passes first, if it is due.\<close>

definition poll_fails :: "int \<Rightarrow> op_error \<Rightarrow> OperationRun \<Rightarrow> OperationRun" where
  "poll_fails now e r = refreshed now (Inl e) (round_due now r)"

definition polls_left :: "OperationRun \<Rightarrow> nat" where
  "polls_left r = (\<Sum>i<length (items r). if it_status (items r ! i) = ItRunning then MAX_REFRESH_FAILURES - failures r i else 0)"

definition polls :: "OperationRun \<Rightarrow> bool" where
  "polls r \<longleftrightarrow> (\<exists>n. phase r = Delaying n) \<or> (\<exists>n i. phase r = Refreshing n i)"

lemma polls_left_cong: "items r' = items r \<Longrightarrow> failures r' = failures r \<Longrightarrow> polls_left r' = polls_left r"
  by (simp add: polls_left_def cong: if_cong)

lemma refresh_from_kept [simp]:
  "polls_left (refresh_from now n i r) = polls_left r"
  by (rule polls_left_cong) (auto simp: refresh_from_def poll_head_def complete_def split: option.split)

lemma refresh_from_phase:
  "polls (refresh_from now n i r) \<or> phase (refresh_from now n i r) = Over \<and> op_status (operation (refresh_from now n i r)) = OpCompleted"
  by (auto simp: refresh_from_def poll_head_def complete_def polls_def split: option.split)

lemma round_due_refreshing:
  assumes "run_inv r" "polls r"
  obtains n i where "phase (round_due now r) = Refreshing n i" "polls_left (round_due now r) = polls_left r"
proof (cases "phase r")
  case (Delaying n)
  then have "some_running r" using assms(1) by (simp add: run_inv_def phase_inv_def)
  then obtain i where "i < length (items r)" "it_status (items r ! i) = ItRunning"
    by (auto simp: some_running_def list_ex_length)
  then have "find (\<lambda>j. it_status (items r ! j) = ItRunning) [0..<length (items r)] \<noteq> None"
    by (auto simp: find_None_iff)
  then obtain j where "find (\<lambda>j. it_status (items r ! j) = ItRunning) [0..<length (items r)] = Some j" by blast
  then have "phase (round_due now r) = Refreshing n j" using Delaying by (simp add: round_due_def refresh_from_def)
  then show thesis using that Delaying by (simp add: round_due_def)
next
  case (Refreshing n i)
  then show thesis using that [of n i] by (simp add: round_due_def)
qed (use assms(2) in \<open>simp_all add: polls_def\<close>)

lemma poll_fails_decreases:
  assumes "run_inv r" "polls r"
  shows "polls_left (poll_fails now e r) < polls_left r"
proof -
  let ?q = "round_due now r"
  obtain n i where q: "phase ?q = Refreshing n i" "polls_left ?q = polls_left r"
    by (rule round_due_refreshing [OF assms])
  have "run_inv ?q" by (rule run_inv_round_due [OF assms(1)])
  then have i: "i < length (items ?q)" "it_status (items ?q ! i) = ItRunning" "failures ?q i < MAX_REFRESH_FAILURES"
    using q(1) by (auto simp: run_inv_def phase_inv_def polling_def)
  let ?f = "\<lambda>j. if it_status (items ?q ! j) = ItRunning then MAX_REFRESH_FAILURES - failures ?q j else 0"
  let ?x = "unavailable_item (failures ?q i + 1) e (items ?q ! i)"
  let ?p = "put_item now i ?x (?q\<lparr>failures := (failures ?q)(i := failures ?q i + 1)\<rparr>)"
  let ?g = "\<lambda>j. if it_status (items ?p ! j) = ItRunning then MAX_REFRESH_FAILURES - failures ?p j else 0"
  have 1: "polls_left (poll_fails now e r) = polls_left ?p"
    using q(1) by (simp add: poll_fails_def refreshed_def Let_def)
  have 2: "polls_left ?p = sum ?g {..<length (items ?p)}" by (simp only: polls_left_def)
  have len: "length (items ?p) = length (items ?q)" by simp
  have 3: "sum ?g {..<length (items ?q)} < sum ?f {..<length (items ?q)}"
  proof (rule sum_strict_mono_ex1)
    show "\<forall>j\<in>{..<length (items ?q)}. ?g j \<le> ?f j" using i by (auto simp: nth_list_update)
    show "\<exists>j\<in>{..<length (items ?q)}. ?g j < ?f j" using i by (intro bexI [of _ i]) auto
  qed simp
  have 4: "sum ?f {..<length (items ?q)} = polls_left ?q" by (simp only: polls_left_def)
  show ?thesis unfolding 1 2 len using 3 unfolding 4 q(2) .
qed

lemma poll_fails_phase:
  assumes "run_inv r" "polls r"
  shows "polls (poll_fails now e r) \<or> phase (poll_fails now e r) = Over \<and> op_status (operation (poll_fails now e r)) = OpCompleted"
proof -
  obtain n i where "phase (round_due now r) = Refreshing n i" by (rule round_due_refreshing [OF assms])
  then show ?thesis by (simp add: poll_fails_def refreshed_def Let_def refresh_from_phase)
qed

lemma polls_left_positive: "run_inv r \<Longrightarrow> polls r \<Longrightarrow> 0 < polls_left r"
  using poll_fails_decreases [of r 0 "PlainError []"] by simp

lemma poll_fails_over: "phase r = Over \<Longrightarrow> poll_fails now e r = r"
  by (simp add: poll_fails_def round_due_def refreshed_def)

lemma polling_ends:
  "run_inv r \<Longrightarrow> polls r \<or> phase r = Over \<and> op_status (operation r) = OpCompleted \<Longrightarrow> polls r \<longrightarrow> polls_left r \<le> length es \<Longrightarrow>
    op_status (operation (fold (poll_fails now) es r)) = OpCompleted"
proof (induction es arbitrary: r)
  case Nil
  then show ?case using polls_left_positive by fastforce
next
  case (Cons e es)
  show ?case
  proof (cases "polls r")
    case True
    have "run_inv (poll_fails now e r)"
      unfolding poll_fails_def by (intro run_inv_refreshed run_inv_round_due Cons.prems(1))
    moreover have "polls_left (poll_fails now e r) \<le> length es"
      using poll_fails_decreases [OF Cons.prems(1) True, of now e] Cons.prems(3) True by simp
    ultimately show ?thesis using Cons.IH [of "poll_fails now e r"] poll_fails_phase [OF Cons.prems(1) True, of now e] by simp
  next
    case False
    then show ?thesis using Cons.IH [of r] Cons.prems by (simp add: poll_fails_over)
  qed
qed

lemma polls_left_bound: "polls_left r \<le> MAX_REFRESH_FAILURES * length (items r)"
proof -
  have "polls_left r \<le> (\<Sum>i<length (items r). MAX_REFRESH_FAILURES)"
    unfolding polls_left_def by (rule sum_mono) simp
  then show ?thesis by (simp add: mult.commute)
qed

text \<open>
  C25. Polling never runs forever against a service that cannot be read: from any reachable state in which an
  operation polls, ten failed polls for each of its items, whatever the errors, complete it.
\<close>

theorem unreadable_polling_ends:
  assumes "manager_reachable m" and "r \<in> set (operations m)" and "polls r"
    and "10 * length (items r) \<le> length errors"
  shows "op_status (operation (fold (poll_fails now) errors r)) = OpCompleted"
proof -
  have "run_inv r" using manager_inv_reachable [OF assms(1)] assms(2) by (simp add: manager_inv_def)
  moreover have "polls_left r \<le> length errors"
    using polls_left_bound [of r] assms(4) by (simp add: MAX_REFRESH_FAILURES_def)
  ultimately show ?thesis using assms(3) by (intro polling_ends) simp_all
qed

theorem unreadable_polling_ends_witness:
  "op_status (operation (hd (operations example_polling))) = OpRunning \<and>
   op_status (operation (fold (poll_fails 9) (replicate 20 (PlainError ''x'')) (hd (operations example_polling)))) = OpCompleted"
proof -
  have "operations example_polling \<noteq> []" "length (items (hd (operations example_polling))) = 2"
    "phase (hd (operations example_polling)) = Delaying 0" "op_status (operation (hd (operations example_polling))) = OpRunning"
    by code_simp+
  then show ?thesis
    using unreadable_polling_ends [OF example_polling_reachable, of "hd (operations example_polling)" "replicate 20 (PlainError ''x'')" 9]
    by (simp add: polls_def)
qed

section \<open>Selections are resolved exactly\<close>

text \<open>A filter whose matches are \<open>xs\<close>, served in pages of a hundred.\<close>

definition paginated :: "string list \<Rightarrow> nat \<Rightarrow> result_page" where
  "paginated xs page = \<lparr>pg_page = page, pg_size = 100, pg_total = length xs, pg_items = take 100 (drop (100 * (page - 1)) xs)\<rparr>"

definition pick :: "string list \<Rightarrow> string list \<Rightarrow> string list \<Rightarrow> string list" where
  "pick excluded is ids = fold insert_new (filter (\<lambda>i. i \<notin> set excluded) is) ids"

lemma pick_append: "pick excluded (xs @ ys) ids = pick excluded ys (pick excluded xs ids)"
  by (simp add: pick_def)

lemma fold_insert_grows: "length ids \<le> length (fold insert_new is ids)"
proof (induction "is" arbitrary: ids)
  case (Cons i "is")
  have "length ids \<le> length (insert_new i ids)" by (simp add: insert_new_def)
  also have "\<dots> \<le> length (fold insert_new is (insert_new i ids))" by (rule Cons.IH)
  finally show ?case by simp
qed simp

lemma add_ids_pick:
  "length ids \<le> MANAGEMENT_BATCH_LIMIT \<Longrightarrow>
    add_ids excluded ids is = (if length (pick excluded is ids) > MANAGEMENT_BATCH_LIMIT then Inl batch_error else Inr (pick excluded is ids))"
proof (induction "is" arbitrary: ids)
  case Nil
  then show ?case by (simp add: pick_def)
next
  case (Cons i "is")
  let ?ids = "if i \<in> set excluded then ids else insert_new i ids"
  have p: "pick excluded (i # is) ids = pick excluded is ?ids" by (simp add: pick_def)
  show ?case
  proof (cases "length ?ids > MANAGEMENT_BATCH_LIMIT")
    case True
    then have "length (pick excluded is ?ids) > MANAGEMENT_BATCH_LIMIT"
      unfolding pick_def by (rule less_le_trans) (rule fold_insert_grows)
    then show ?thesis using True p by (simp add: Let_def)
  next
    case False
    then show ?thesis using Cons.IH [of ?ids] p by (simp add: Let_def)
  qed
qed

lemma collect_paginated:
  assumes "0 < page" "ids = pick excluded (take (100 * (page - 1)) xs) []" "length ids \<le> MANAGEMENT_BATCH_LIMIT"
  shows "collect_pages (paginated xs) excluded page ids =
    Some (if length (pick excluded xs []) > MANAGEMENT_BATCH_LIMIT then Inl batch_error else Inr (pick excluded xs []))"
  using assms
proof (induction "length xs - 100 * (page - 1)" arbitrary: page ids rule: less_induct)
  case less
  let ?page = "take 100 (drop (100 * (page - 1)) xs)" let ?ids = "pick excluded ?page ids"
  have split: "take (100 * page) xs = take (100 * (page - 1)) xs @ ?page"
    using less.prems(1) take_add [of "100 * (page - 1)" 100 xs] by (cases page) (simp_all add: add.commute)
  have ids: "?ids = pick excluded (take (100 * page) xs) []" unfolding split pick_append less.prems(2) ..
  have whole: "pick excluded xs [] = pick excluded (drop (100 * page) xs) ?ids"
    unfolding ids pick_append [symmetric] by simp
  have more: "length ?ids \<le> length (pick excluded xs [])"
    unfolding whole by (simp add: pick_def fold_insert_grows)
  have page: "pg_page (paginated xs page) = page" "pg_items (paginated xs page) = ?page" "pg_size (paginated xs page) = 100"
    "pg_total (paginated xs page) = length xs" by (simp_all add: paginated_def)
  note add = add_ids_pick [OF less.prems(3), of excluded]
  show ?case
  proof (cases "length ?ids > MANAGEMENT_BATCH_LIMIT")
    case True
    then show ?thesis using more by (simp add: collect_pages.simps [of _ _ page] Let_def page add)
  next
    case no: False
    show ?thesis
    proof (cases "length xs \<le> page * 100")
      case True
      then have "pick excluded xs [] = ?ids" unfolding whole by (simp add: pick_def)
      then show ?thesis using no True by (simp add: collect_pages.simps [of _ _ page] Let_def page add)
    next
      case False
      have "collect_pages (paginated xs) excluded (page + 1) ?ids =
          Some (if length (pick excluded xs []) > MANAGEMENT_BATCH_LIMIT then Inl batch_error else Inr (pick excluded xs []))"
        by (rule less.hyps) (use False no ids less.prems(1) in \<open>auto simp: diff_less_mono2\<close>)
      then show ?thesis using no False by (simp add: collect_pages.simps [of _ _ page] Let_def page add)
    qed
  qed
qed

text \<open>
  C32. A selection by filter is resolved exactly or refused: when the filter's matches are served in pages of a
  hundred, the walk over the pages ends, and its result is every matching id that is not excluded, once
  and in order, unless these are more than 1000, which is an error and submits nothing.
\<close>

theorem selection_resolved_exactly:
  assumes "js_get selection ''ids'' = JUndefined" and "js_get selection ''query'' = JObj q"
    and "js_get selection ''excludedIds'' = JArr vs" and "js_ids (JArr vs) = Some excluded" and "length vs \<le> 1000"
  shows "resolveOperationSelection selection (Inr (paginated xs)) =
    (let ids = unique_ids (filter (\<lambda>i. i \<notin> set excluded) xs)
     in Some (if length ids > 1000 then Inl batch_error else Inr ids))"
proof -
  obtain ps where s: "selection = JObj ps" using assms(2) by (cases selection) auto
  have l: "length excluded \<le> MANAGEMENT_BATCH_LIMIT"
    using assms(4,5) by (auto simp: MANAGEMENT_BATCH_LIMIT_def split: if_splits)
  have "collect_pages (paginated xs) excluded 1 [] =
      Some (if length (pick excluded xs []) > MANAGEMENT_BATCH_LIMIT then Inl batch_error else Inr (pick excluded xs []))"
    by (rule collect_paginated) (simp_all add: pick_def)
  then show ?thesis using assms s l
    by (simp add: resolveOperationSelection_def pick_def unique_ids_def MANAGEMENT_BATCH_LIMIT_def Let_def)
qed


definition example_selection :: js where
  "example_selection = JObj [(''query'', JObj []), (''excludedIds'', JArr [JStr ''b''])]"

theorem selection_resolved_exactly_witness:
  "resolveOperationSelection example_selection (Inr (paginated [''a'', ''b'', ''a'', ''c''])) = Some (Inr [''a'', ''c''])"
proof -
  have "js_get example_selection ''ids'' = JUndefined" "js_get example_selection ''query'' = JObj []"
    "js_get example_selection ''excludedIds'' = JArr [JStr ''b'']" "js_ids (JArr [JStr ''b'']) = Some [''b'']"
    "unique_ids (filter (\<lambda>i. i \<notin> set [''b'']) [''a'', ''b'', ''a'', ''c'']) = [''a'', ''c'']" by code_simp+
  then show ?thesis
    using selection_resolved_exactly [of example_selection "[]" "[JStr ''b'']" "[''b'']" "[''a'', ''b'', ''a'', ''c'']"]
    by (simp add: Let_def)
qed

end
