(* ===== verification/Sso_Settings.thy ===== *)
theory Sso_Settings
  imports Pool_Config Login_Settings
begin

text \<open>
  The single sign-on service: names of users as text (\<^verbatim>\<open>src/sso/src/users/ssoUserNames.ts\<close>), and the runtime
  settings of an enterprise with their validation, versions and handler (\<^verbatim>\<open>src/sso/src/db/runtimeSettingsRepo.ts\<close>,
  \<^verbatim>\<open>src/sso/src/routes/settingsApi.ts\<close>).
\<close>

section \<open>Names\<close>

definition is_name_char :: "char \<Rightarrow> bool" where
  "is_name_char c \<longleftrightarrow> is_alnum c \<or> c = CHR ''.'' \<or> c = CHR ''_'' \<or> c = CHR ''-''"

text \<open>\<open>.replace(/[^a-z0-9._-]+/g, '-')\<close>: a run of other characters becomes one hyphen; the flag tells of a run.\<close>

primrec collapse :: "bool \<Rightarrow> string \<Rightarrow> string" where
  "collapse b [] = []"
| "collapse b (c # cs) =
     (if is_name_char c then c # collapse False cs else if b then collapse True cs else CHR ''-'' # collapse True cs)"

text \<open>\<open>.replace(/^-+|-+$/g, '')\<close>\<close>

definition trim_hyphens :: "string \<Rightarrow> string" where
  "trim_hyphens s = rev (dropWhile (\<lambda>c. c = CHR ''-'') (rev (dropWhile (\<lambda>c. c = CHR ''-'') s)))"

text \<open>\<open>.replace(/@.*$/, '')\<close>: from the first at sign that no line break follows.\<close>

primrec strip_domain :: "string \<Rightarrow> string" where
  "strip_domain [] = []"
| "strip_domain (c # cs) =
     (if c = CHR ''@'' \<and> list_all (\<lambda>x. x \<noteq> CHR 0x0A \<and> x \<noteq> CHR 0x0D) cs then [] else c # strip_domain cs)"

definition normalizeName :: "string \<Rightarrow> string" where
  "normalizeName raw = trim_hyphens (collapse False (strip_domain (lower (js_trim raw))))"

definition sanitizeSsoUser :: "string \<Rightarrow> string" where
  "sanitizeSsoUser raw = take 32 (normalizeName raw)"

section \<open>Settings\<close>

record SsoSettings =
  sx_maxSsoUsers :: "int option"
  sx_userPrefix :: string
  sx_emailDomain :: string
  sx_bulkSyncConcurrency :: int
  sx_scimRequestDelayMs :: int
  sx_scimMaxRetries :: int
  sx_scimRetryBaseDelayMs :: int
  sx_version :: int
  sx_updatedAt :: int

definition SSO_SETTINGS_KEYS :: "string list" where
  "SSO_SETTINGS_KEYS = [''maxSsoUsers'', ''userPrefix'', ''emailDomain'', ''bulkSyncConcurrency'', ''scimRequestDelayMs'',
     ''scimMaxRetries'', ''scimRetryBaseDelayMs'']"

datatype sso_settings_error =
    InvalidSsoRuntimeSettings "(string \<times> string) list"
  | SsoSettingsVersionConflict js int
  | SettingsRowMissing string

definition isValidMaxSsoUsers :: "js \<Rightarrow> bool" where
  "isValidMaxSsoUsers v \<longleftrightarrow> v = JNull \<or> in_range v 1 1000000"

fun js_text :: "js \<Rightarrow> string" where
  "js_text (JStr t) = t"
| "js_text _ = []"

definition normalizeUserPrefix :: "js \<Rightarrow> string" where
  "normalizeUserPrefix v = (case v of JStr t \<Rightarrow> take 32 (trim_hyphens (collapse False (lower (js_trim t)))) | _ \<Rightarrow> [])"

definition isValidHostname :: "string \<Rightarrow> bool" where
  "isValidHostname v \<longleftrightarrow> length v \<le> 253 \<and> CHR ''.'' \<in> set v \<and> list_all domain_label (split_dot v)"

definition max_users_of :: "js \<Rightarrow> int option" where
  "max_users_of v = (if v = JNull then None else Some (js_int v))"

definition sso_setting_errors :: "(string \<Rightarrow> js) \<Rightarrow> js \<Rightarrow> (string \<times> string) list" where
  "sso_setting_errors v changes =
     (let prefix = normalizeUserPrefix (v ''userPrefix''); domain = lower (js_trim (js_text (v ''emailDomain'')));
          integer = (\<lambda>k lo hi. if in_range (v k) lo hi then []
            else [(k, ''Must be an integer from '' @ show_int lo @ '' to '' @ show_int hi @ ''.'')]) in
      map (\<lambda>k. (k, ''Unknown setting.'')) (filter (\<lambda>k. k \<notin> set SSO_SETTINGS_KEYS) (js_keys changes)) @
      (if isValidMaxSsoUsers (v ''maxSsoUsers'') then [] else [(''maxSsoUsers'', ''Must be null or an integer from 1 to 1000000.'')]) @
      (if list_ex is_alnum prefix then [] else [(''userPrefix'', ''Must contain at least one letter or digit.'')]) @
      (if isValidHostname domain then [] else [(''emailDomain'', ''Must be a valid domain name.'')]) @
      integer ''bulkSyncConcurrency'' 1 20 @ integer ''scimRequestDelayMs'' 0 60000 @
      integer ''scimMaxRetries'' 0 10 @ integer ''scimRetryBaseDelayMs'' 0 60000)"

text \<open>The values of a row as JavaScript sees them, and the spread \<open>{ ...settingsValues(current), ...changes }\<close>.\<close>

definition settingsValues :: "SsoSettings \<Rightarrow> string \<Rightarrow> js" where
  "settingsValues s k =
     (if k = ''maxSsoUsers'' then (case sx_maxSsoUsers s of None \<Rightarrow> JNull | Some n \<Rightarrow> JNum (of_int n))
      else if k = ''userPrefix'' then JStr (sx_userPrefix s) else if k = ''emailDomain'' then JStr (sx_emailDomain s)
      else if k = ''bulkSyncConcurrency'' then JNum (of_int (sx_bulkSyncConcurrency s))
      else if k = ''scimRequestDelayMs'' then JNum (of_int (sx_scimRequestDelayMs s))
      else if k = ''scimMaxRetries'' then JNum (of_int (sx_scimMaxRetries s))
      else if k = ''scimRetryBaseDelayMs'' then JNum (of_int (sx_scimRetryBaseDelayMs s)) else JUndefined)"

definition spread :: "SsoSettings \<Rightarrow> js \<Rightarrow> string \<Rightarrow> js" where
  "spread current changes k = (if k \<in> set (js_keys changes) then js_get changes k else settingsValues current k)"

text \<open>
  The transaction of an edit on the row of the enterprise, with the time at which it runs. The row that was
  read is the one that is written, so the guard on its version in the \<open>UPDATE\<close> holds.
\<close>

definition updated_settings :: "int \<Rightarrow> string \<Rightarrow> js \<Rightarrow> SsoSettings option \<Rightarrow> sso_settings_error + SsoSettings" where
  "updated_settings now e request row =
     (case row of
        None \<Rightarrow> Inl (SettingsRowMissing e)
      | Some current \<Rightarrow>
          let expected = js_get request ''expectedVersion''; changes = js_get request ''changes''; v = spread current changes in
          if \<not> Number_isInteger expected \<or> js_int expected \<noteq> sx_version current
          then Inl (SsoSettingsVersionConflict expected (sx_version current))
          else if sso_setting_errors v changes \<noteq> [] then Inl (InvalidSsoRuntimeSettings (sso_setting_errors v changes))
          else Inr \<lparr>sx_maxSsoUsers = max_users_of (v ''maxSsoUsers''), sx_userPrefix = normalizeUserPrefix (v ''userPrefix''),
            sx_emailDomain = lower (js_trim (js_text (v ''emailDomain''))), sx_bulkSyncConcurrency = js_int (v ''bulkSyncConcurrency''),
            sx_scimRequestDelayMs = js_int (v ''scimRequestDelayMs''), sx_scimMaxRetries = js_int (v ''scimMaxRetries''),
            sx_scimRetryBaseDelayMs = js_int (v ''scimRetryBaseDelayMs''), sx_version = sx_version current + 1, sx_updatedAt = now\<rparr>)"

text \<open>The handler's own check of the body, and the status it answers.\<close>

definition invalidSettingsBody :: "js \<Rightarrow> string option" where
  "invalidSettingsBody body =
     (if \<not> Number_isInteger (js_get body ''expectedVersion'') \<or> \<not> isRecord (js_get body ''changes'')
      then Some ''expectedVersion and changes are required.''
      else let unknown = filter (\<lambda>k. k \<notin> {''expectedVersion'', ''changes''}) (js_keys body) in
        if unknown \<noteq> [] then Some (''Unknown request field(s): '' @ join_with '', '' unknown @ ''.'') else None)"

definition settings_status :: "int \<Rightarrow> string \<Rightarrow> js \<Rightarrow> SsoSettings option \<Rightarrow> int \<times> SsoSettings option" where
  "settings_status now e body row =
     (if invalidSettingsBody body \<noteq> None then (400, None)
      else case updated_settings now e body row of
        Inr s \<Rightarrow> (200, Some s)
      | Inl (InvalidSsoRuntimeSettings issues) \<Rightarrow> (400, None)
      | Inl (SsoSettingsVersionConflict expected current) \<Rightarrow> (409, None)
      | Inl (SettingsRowMissing x) \<Rightarrow> (500, None))"

section \<open>What normalisation gives\<close>

lemma lower_char_cases: "lower_char c = c \<or> is_lower_letter (lower_char c)"
proof (cases "CHR ''A'' \<le> c \<and> c \<le> CHR ''Z''")
  case True
  then have "65 \<le> (of_char c :: nat)" "(of_char c :: nat) \<le> 90" by (simp_all add: less_eq_char_def)
  then have "97 \<le> (of_char (lower_char c) :: nat)" "(of_char (lower_char c) :: nat) \<le> 122"
    using True by (simp_all add: lower_char_def)
  then show ?thesis by (simp add: is_lower_letter_def less_eq_char_def)
qed (auto simp: lower_char_def)

text \<open>Text of name characters: lower-case letters, digits, dots, underscores and hyphens.\<close>

definition plain_name :: "string \<Rightarrow> bool" where
  "plain_name s \<longleftrightarrow> list_all is_name_char s"

lemma plain_name_append [simp]: "plain_name (s @ t) \<longleftrightarrow> plain_name s \<and> plain_name t"
  by (simp add: plain_name_def)

lemma plain_name_sub: "plain_name s \<Longrightarrow> set t \<subseteq> set s \<Longrightarrow> plain_name t"
  by (auto simp: plain_name_def list_all_iff)

lemma plain_collapse [simp]: "plain_name (collapse b s)"
  by (induction s arbitrary: b) (auto simp: plain_name_def is_name_char_def)

lemma set_trim_hyphens: "set (trim_hyphens s) \<subseteq> set s"
  by (auto simp: trim_hyphens_def dest!: set_dropWhileD)

lemma plain_trim [simp]: "plain_name s \<Longrightarrow> plain_name (trim_hyphens s)"
  using plain_name_sub set_trim_hyphens by blast

lemma plain_take [simp]: "plain_name s \<Longrightarrow> plain_name (take n s)"
  by (rule plain_name_sub) (auto dest: in_set_takeD)

lemma plain_sanitize [simp]: "plain_name (sanitizeSsoUser raw)"
  by (simp add: sanitizeSsoUser_def normalizeName_def)

lemma lower_name_char: "is_name_char c \<Longrightarrow> lower_char c = c"
proof -
  assume "is_name_char c"
  then have "\<not> (CHR ''A'' \<le> c \<and> c \<le> CHR ''Z'')"
    by (auto simp: is_name_char_def is_alnum_def is_digit_def is_lower_letter_def less_eq_char_def)
  then show ?thesis unfolding lower_char_def by auto
qed

lemma lower_plain [simp]: "plain_name s \<Longrightarrow> lower s = s"
  by (auto simp: plain_name_def lower_def list_all_iff lower_name_char intro: map_idI)

lemma lower_app [simp]: "lower (s @ t) = lower s @ lower t"
  by (simp add: lower_def)

lemma collapse_plain [simp]: "plain_name s \<Longrightarrow> collapse b s = s"
  by (induction s arbitrary: b) (auto simp: plain_name_def)

lemma space_not_name: "is_space c \<Longrightarrow> \<not> is_name_char c"
  by (auto simp: is_space_def is_name_char_def is_alnum_def is_digit_def is_lower_letter_def less_eq_char_def)

lemma dropWhile_none: "list_all (\<lambda>c. \<not> P c) s \<Longrightarrow> dropWhile P s = s"
  by (cases s) auto

lemma trim_plain [simp]: "plain_name s \<Longrightarrow> js_trim s = s"
proof -
  assume "plain_name s"
  then have "list_all (\<lambda>c. \<not> is_space c) s" "list_all (\<lambda>c. \<not> is_space c) (rev s)"
    using space_not_name by (auto simp: plain_name_def list_all_iff)
  then show ?thesis by (simp add: js_trim_def dropWhile_none)
qed

lemma strip_plain [simp]: "plain_name s \<Longrightarrow> strip_domain s = s"
proof (induction s)
  case (Cons c s)
  then have "c \<noteq> CHR ''@''" by (auto simp: plain_name_def is_name_char_def is_alnum_def is_digit_def is_lower_letter_def less_eq_char_def)
  then show ?case using Cons by (simp add: plain_name_def)
qed simp

text \<open>A name is clean when sanitising leaves it as it is.\<close>

definition clean_name :: "string \<Rightarrow> bool" where
  "clean_name s \<longleftrightarrow> plain_name s \<and> length s \<le> 32 \<and> (s \<noteq> [] \<longrightarrow> hd s \<noteq> CHR ''-'' \<and> last s \<noteq> CHR ''-'')"

lemma sanitize_clean: "clean_name s \<Longrightarrow> sanitizeSsoUser s = s"
proof (cases "s = []")
  case False
  assume *: "clean_name s"
  then have "dropWhile (\<lambda>c. c = CHR ''-'') s = s" using False by (cases s) (auto simp: clean_name_def)
  moreover have "dropWhile (\<lambda>c. c = CHR ''-'') (rev s) = rev s"
    using * False by (cases s rule: rev_cases) (auto simp: clean_name_def)
  ultimately show ?thesis using * by (simp add: sanitizeSsoUser_def normalizeName_def trim_hyphens_def clean_name_def)
qed (simp add: sanitizeSsoUser_def normalizeName_def trim_hyphens_def js_trim_def lower_def)

end
