(* ===== verification/Sso_Users.thy ===== *)
theory Sso_Users
  imports Sso_Settings
begin

text \<open>
  The user directory of the single sign-on service, \<^verbatim>\<open>src/sso/src/db/usersRepo.ts\<close>, with the tables of
  \<^verbatim>\<open>src/sso/src/db/migrations.ts\<close>: users by enterprise and name, the marks of users that belong to the user
  pool, and the settings. Names are looked up without regard to case, while the key of the table compares
  them exactly. The rest of the record \<open>sso_state\<close> is what the process knows besides: snapshots of settings,
  the event log, the secrets as they read now, and the pacing of SCIM requests.
\<close>

section \<open>Records\<close>

datatype emu_status = EmuActive | EmuSuspended | EmuDeleted | EmuNotSynced

datatype seat_status = SeatUnknown | SeatAssigned | SeatPendingCancellation | SeatUnassigned | SeatAssignFailed | SeatRemoveFailed

datatype seat_operation = SeatAssign | SeatRemove

datatype CopilotSeatSnapshot = AssignedSeat | UnassignedSeat | PendingSeat string

fun snapshot_status :: "CopilotSeatSnapshot \<Rightarrow> seat_status" where
  "snapshot_status AssignedSeat = SeatAssigned"
| "snapshot_status UnassignedSeat = SeatUnassigned"
| "snapshot_status (PendingSeat d) = SeatPendingCancellation"

fun snapshot_date :: "CopilotSeatSnapshot \<Rightarrow> string option" where
  "snapshot_date (PendingSeat d) = Some d"
| "snapshot_date _ = None"

record SsoUserDto =
  su_name :: string
  su_email :: string
  su_role :: string
  su_ghLogin :: "string option"
  su_ghScimId :: "string option"
  su_emu :: emu_status
  su_seat :: seat_status
  su_seat_date :: "string option"
  su_seat_operation :: "seat_operation option"
  su_seat_error :: "string option"
  su_seat_at :: "int option"
  su_created :: int
  su_updated :: int

record SsoUserRecord = SsoUserDto +
  su_hash :: string
  su_salt :: string

record NewSsoUser =
  nu_name :: string
  nu_hash :: string
  nu_salt :: string
  nu_email :: string
  nu_role :: string
  nu_pool :: bool

record UserPatch =
  up_email :: "string option"
  up_role :: "string option"
  up_password :: "(string \<times> string) option"

datatype sso_error =
    SsoError string
  | SsoUserLimitReachedError int int
  | PoolMemberManagedError
  | PoolMembershipUnavailableError
  | PoolPasswordPolicyError
  | CopilotSeatNotAssignedError string int
  | SecretError string
  | ConstraintError string

record sso_state =
  sso_users :: "(string \<times> SsoUserRecord) list"
  pool_marks :: "(string \<times> string) list"
  settings_rows :: "(string \<times> SsoSettings) list"
  snapshots :: "string \<Rightarrow> SsoSettings option"
  user_events :: "(string \<times> string \<times> string) list"
  secrets :: "string \<Rightarrow> string \<Rightarrow> sso_error + string option"
  scim_slots :: "string \<Rightarrow> int"
  sso_now :: int

type_synonym 'r sso_op = "sso_state \<Rightarrow> (sso_error + 'r) \<times> sso_state"

text \<open>\<open>WHERE enterprise_id = ? AND lower(sso_user) = lower(?)\<close>\<close>

definition names_user :: "string \<Rightarrow> string \<Rightarrow> string \<times> SsoUserRecord \<Rightarrow> bool" where
  "names_user e n r \<longleftrightarrow> fst r = e \<and> lower (su_name (snd r)) = lower n"

definition toDto :: "SsoUserRecord \<Rightarrow> SsoUserDto" where
  "toDto u = SsoUserDto.truncate u"

section \<open>Reads\<close>

definition getUser :: "string \<Rightarrow> string \<Rightarrow> sso_state \<Rightarrow> SsoUserRecord option" where
  "getUser e n s = map_option snd (List.find (names_user e n) (sso_users s))"

definition isPoolManagedSsoUser :: "string \<Rightarrow> string \<Rightarrow> sso_state \<Rightarrow> bool" where
  "isPoolManagedSsoUser e n s = exists_row (\<lambda>r. fst r = e \<and> lower (snd r) = lower n) (pool_marks s)"

definition getUserByGhLogin :: "string \<Rightarrow> string \<Rightarrow> sso_state \<Rightarrow> SsoUserRecord option" where
  "getUserByGhLogin e login s =
     (if js_trim login = [] then None
      else map_option snd (List.find (\<lambda>r. fst r = e \<and> map_option lower (su_ghLogin (snd r)) = Some (lower (js_trim login))) (sso_users s)))"

definition countUsers :: "string \<Rightarrow> sso_state \<Rightarrow> nat" where
  "countUsers e s = count_rows (\<lambda>r. fst r = e) (sso_users s)"

definition listAllUsers :: "string \<Rightarrow> sso_state \<Rightarrow> SsoUserRecord list" where
  "listAllUsers e s = sort_key su_name (map snd (filter (\<lambda>r. fst r = e) (sso_users s)))"

definition readMaxSsoUsers :: "string \<Rightarrow> sso_state \<Rightarrow> sso_error + int option" where
  "readMaxSsoUsers e s =
     (case map_of (settings_rows s) e of
        None \<Rightarrow> Inl (SsoError (''SSO runtime settings row of enterprise \"'' @ e @ ''\" is missing.''))
      | Some x \<Rightarrow> Inr (sx_maxSsoUsers x))"

text \<open>The snapshot of the settings, read from the row when the process has none.\<close>

definition getSsoRuntimeSettings :: "string \<Rightarrow> SsoSettings sso_op" where
  "getSsoRuntimeSettings e s =
     (case snapshots s e of
        Some x \<Rightarrow> (Inr x, s)
      | None \<Rightarrow>
          (case map_of (settings_rows s) e of
             None \<Rightarrow> (Inl (SsoError (''SSO runtime settings row of enterprise \"'' @ e @ ''\" is missing.'')), s)
           | Some x \<Rightarrow> (Inr x, s\<lparr>snapshots := (snapshots s)(e \<mapsto> x)\<rparr>)))"

section \<open>Changes\<close>

definition updateSsoRuntimeSettings :: "string \<Rightarrow> js \<Rightarrow> sso_state \<Rightarrow> (sso_settings_error + SsoSettings) \<times> sso_state" where
  "updateSsoRuntimeSettings e request s =
     (case updated_settings (sso_now s) e request (map_of (settings_rows s) e) of
        Inl x \<Rightarrow> (Inl x, s)
      | Inr x \<Rightarrow> (Inr x, s\<lparr>settings_rows := update_where (\<lambda>r. fst r = e) (\<lambda>r. (e, x)) (settings_rows s),
                     snapshots := (snapshots s)(e \<mapsto> x)\<rparr>))"

definition assertNotLocallyPoolManaged :: "string \<Rightarrow> string \<Rightarrow> unit sso_op" where
  "assertNotLocallyPoolManaged e n s = (if isPoolManagedSsoUser e n s then Inl PoolMemberManagedError else Inr (), s)"

definition assertBelowUserLimit :: "string \<Rightarrow> sso_state \<Rightarrow> sso_error + unit" where
  "assertBelowUserLimit e s =
     (case readMaxSsoUsers e s of
        Inl x \<Rightarrow> Inl x
      | Inr limit \<Rightarrow>
          (case limit of
             None \<Rightarrow> Inr ()
           | Some l \<Rightarrow> if l \<le> int (countUsers e s) then Inl (SsoUserLimitReachedError (int (countUsers e s)) l) else Inr ()))"

definition new_user :: "int \<Rightarrow> NewSsoUser \<Rightarrow> SsoUserRecord" where
  "new_user now inp =
     \<lparr>su_name = nu_name inp, su_email = nu_email inp, su_role = nu_role inp, su_ghLogin = None, su_ghScimId = None,
      su_emu = EmuNotSynced, su_seat = SeatUnknown, su_seat_date = None, su_seat_operation = None, su_seat_error = None,
      su_seat_at = None, su_created = now, su_updated = now, su_hash = nu_hash inp, su_salt = nu_salt inp\<rparr>"

definition insertUser :: "string \<Rightarrow> NewSsoUser \<Rightarrow> sso_state \<Rightarrow> sso_error + sso_state" where
  "insertUser e inp s =
     (if exists_row (\<lambda>r. fst r = e \<and> su_name (snd r) = nu_name inp) (sso_users s)
      then Inl (ConstraintError ''UNIQUE constraint failed: sso_users.enterprise_id, sso_users.sso_user'')
      else Inr (s\<lparr>sso_users := sso_users s @ [(e, new_user (sso_now s) inp)]\<rparr>))"

definition insertPoolMarker :: "string \<Rightarrow> string \<Rightarrow> sso_state \<Rightarrow> sso_error + sso_state" where
  "insertPoolMarker e n s =
     (if (e, n) \<in> set (pool_marks s)
      then Inl (ConstraintError ''UNIQUE constraint failed: sso_pool_managed_users.enterprise_id, sso_pool_managed_users.sso_user'')
      else if \<not> exists_row (\<lambda>r. fst r = e \<and> su_name (snd r) = n) (sso_users s)
      then Inl (ConstraintError ''FOREIGN KEY constraint failed'')
      else Inr (s\<lparr>pool_marks := pool_marks s @ [(e, n)]\<rparr>))"

text \<open>The transaction: an error leaves the tables as they were.\<close>

definition createUser :: "string \<Rightarrow> NewSsoUser \<Rightarrow> SsoUserRecord sso_op" where
  "createUser e inp s =
     (case assertBelowUserLimit e s of Inl x \<Rightarrow> (Inl x, s) | Inr _ \<Rightarrow>
      case insertUser e inp s of Inl x \<Rightarrow> (Inl x, s) | Inr s1 \<Rightarrow>
      case (if nu_pool inp then insertPoolMarker e (nu_name inp) s1 else Inr s1) of Inl x \<Rightarrow> (Inl x, s) | Inr s2 \<Rightarrow>
      case getUser e (nu_name inp) s2 of
        None \<Rightarrow> (Inl (SsoError (''Failed to read newly created SSO user \"'' @ nu_name inp @ ''\".'')), s)
      | Some u \<Rightarrow> (Inr u, s2))"

definition write_users :: "string \<Rightarrow> string \<Rightarrow> (SsoUserRecord \<Rightarrow> SsoUserRecord) \<Rightarrow> sso_state \<Rightarrow> sso_state" where
  "write_users e n f s = s\<lparr>sso_users := update_where (names_user e n) (\<lambda>r. (fst r, f (snd r))) (sso_users s)\<rparr>"

definition or_else :: "'a option \<Rightarrow> 'a \<Rightarrow> 'a" where
  "or_else x d = (case x of None \<Rightarrow> d | Some y \<Rightarrow> y)"

definition updateUser :: "string \<Rightarrow> string \<Rightarrow> UserPatch \<Rightarrow> SsoUserRecord option sso_op" where
  "updateUser e n patch s =
     (case getUser e n s of
        None \<Rightarrow> (Inr None, s)
      | Some current \<Rightarrow>
          if isPoolManagedSsoUser e (su_name current) s then (Inl PoolMemberManagedError, s)
          else let password = or_else (up_password patch) (su_hash current, su_salt current);
                   s' = write_users e n (\<lambda>u. u\<lparr>su_email := or_else (up_email patch) (su_email current),
                     su_role := or_else (up_role patch) (su_role current), su_hash := fst password, su_salt := snd password,
                     su_updated := sso_now s\<rparr>) s
               in (Inr (getUser e n s'), s'))"

definition required :: "string \<Rightarrow> string \<Rightarrow> sso_state \<Rightarrow> sso_error + SsoUserRecord" where
  "required e n s = (case getUser e n s of None \<Rightarrow> Inl (SsoError (''Unknown SSO user \"'' @ n @ ''\".'')) | Some u \<Rightarrow> Inr u)"

definition updateEmu :: "string \<Rightarrow> string \<Rightarrow> string option \<Rightarrow> string option \<Rightarrow> emu_status \<Rightarrow> SsoUserRecord sso_op" where
  "updateEmu e n login scim status s =
     (let s' = write_users e n (\<lambda>u. u\<lparr>su_ghLogin := login, su_ghScimId := scim, su_emu := status, su_updated := sso_now s\<rparr>) s
      in (required e n s', s'))"

definition updateCopilotSeat :: "string \<Rightarrow> string \<Rightarrow> seat_status \<Rightarrow> string option \<Rightarrow> seat_operation \<Rightarrow> string option \<Rightarrow> SsoUserRecord sso_op" where
  "updateCopilotSeat e n status date op err s =
     (let pendingDate = (if status = SeatPendingCancellation then date else None);
          s' = write_users e n (\<lambda>u. u\<lparr>su_seat := status, su_seat_operation := Some op, su_seat_error := err,
            su_seat_date := pendingDate, su_seat_at := Some (sso_now s), su_updated := sso_now s\<rparr>) s
      in (required e n s', s'))"

definition updateCopilotSeatFromGitHub :: "string \<Rightarrow> string \<Rightarrow> CopilotSeatSnapshot \<Rightarrow> SsoUserRecord sso_op" where
  "updateCopilotSeatFromGitHub e n seat s =
     (let s' = write_users e n (\<lambda>u. u\<lparr>su_seat := snapshot_status seat, su_seat_operation := None, su_seat_error := None,
            su_seat_date := snapshot_date seat, su_seat_at := Some (sso_now s), su_updated := sso_now s\<rparr>) s
      in (required e n s', s'))"

definition recordCopilotSeatError :: "string \<Rightarrow> string \<Rightarrow> seat_operation \<Rightarrow> string \<Rightarrow> unit sso_op" where
  "recordCopilotSeatError e n op message s =
     (if exists_row (names_user e n) (sso_users s)
      then (Inr (), write_users e n (\<lambda>u. u\<lparr>su_seat_operation := Some op, su_seat_error := Some message, su_updated := sso_now s\<rparr>) s)
      else (Inl (SsoError (''Unknown SSO user \"'' @ n @ ''\".'')), s))"

definition deleteUser :: "string \<Rightarrow> string \<Rightarrow> bool sso_op" where
  "deleteUser e n s =
     (if isPoolManagedSsoUser e n s then (Inl PoolMemberManagedError, s)
      else if exists_row (\<lambda>r. names_user e n r \<and> (fst r, su_name (snd r)) \<in> set (pool_marks s)) (sso_users s)
      then (Inl (ConstraintError ''FOREIGN KEY constraint failed''), s)
      else (Inr (exists_row (names_user e n) (sso_users s)), s\<lparr>sso_users := filter (\<lambda>r. \<not> names_user e n r) (sso_users s)\<rparr>))"

definition appendUserEvent :: "string \<Rightarrow> string \<Rightarrow> SsoUserRecord \<Rightarrow> sso_state \<Rightarrow> (sso_error + unit) \<times> sso_state" where
  "appendUserEvent e action u s = (Inr (), s\<lparr>user_events := user_events s @ [(e, action, su_name u)]\<rparr>)"

end
