(* ===== verification/Sso_Names.thy ===== *)
theory Sso_Names
  imports Sso_Users
begin

text \<open>
  Which name a new user gets and which user an identity denotes, \<^verbatim>\<open>src/sso/src/users/ssoUserNames.ts\<close>, and
  the passwords of new users, \<^verbatim>\<open>src/sso/src/users/passwordPolicy.ts\<close>. Of an enterprise of the registry the
  code uses the identifier, the shortcode of its GitHub and the address of its SCIM service.
\<close>

record SsoEnterprise =
  ent_id :: string
  ent_shortcode :: string
  ent_scimBaseUrl :: string

section \<open>Candidates\<close>

definition ends_with :: "string \<Rightarrow> string \<Rightarrow> bool" where
  "ends_with s ending \<longleftrightarrow> length ending \<le> length s \<and> drop (length s - length ending) s = ending"

definition stripEnterpriseShortcode :: "SsoEnterprise \<Rightarrow> string \<Rightarrow> string" where
  "stripEnterpriseShortcode ent value =
     (let shortcode = lower (js_trim (ent_shortcode ent)); ending = CHR ''_'' # shortcode in
      if shortcode = [] then value
      else if \<not> ends_with value ending then value
      else let stripped = take (length value - length ending) value in if stripped = [] then value else stripped)"

definition ssoUserFromEnsureInput :: "SsoEnterprise \<Rightarrow> string \<Rightarrow> string" where
  "ssoUserFromEnsureInput ent raw = take 32 (stripEnterpriseShortcode ent (normalizeName raw))"

text \<open>The loop of \<open>uniqueCandidates\<close> over the values that are text, with the keys seen.\<close>

primrec unique_candidates :: "(string \<Rightarrow> string) \<Rightarrow> string list \<Rightarrow> string list \<Rightarrow> string list" where
  "unique_candidates clean seen [] = []"
| "unique_candidates clean seen (raw # raws) =
     (let c = clean raw; key = lower c in
      if c = [] \<or> key \<in> set seen then unique_candidates clean seen raws else c # unique_candidates clean (seen @ [key]) raws)"

definition option_list :: "'a option \<Rightarrow> 'a list" where
  "option_list x = (case x of None \<Rightarrow> [] | Some y \<Rightarrow> [y])"

definition ensureSsoUserCandidates :: "SsoEnterprise \<Rightarrow> string \<Rightarrow> string option \<Rightarrow> string list" where
  "ensureSsoUserCandidates ent identity preferred =
     unique_candidates (ssoUserFromEnsureInput ent) [] (option_list preferred @ [identity])"

primrec first_some :: "('a \<Rightarrow> 'b option) \<Rightarrow> 'a list \<Rightarrow> 'b option" where
  "first_some f [] = None"
| "first_some f (x # xs) = (case f x of None \<Rightarrow> first_some f xs | Some y \<Rightarrow> Some y)"

definition findExistingEnsureUser :: "string \<Rightarrow> string \<Rightarrow> string option \<Rightarrow> string list \<Rightarrow> sso_state \<Rightarrow> SsoUserRecord option" where
  "findExistingEnsureUser e identity preferred candidates s =
     (case first_some (\<lambda>n. getUser e n s) candidates of
        Some u \<Rightarrow> Some u
      | None \<Rightarrow> first_some (\<lambda>l. getUserByGhLogin e l s) (unique_candidates js_trim [] (identity # option_list preferred)))"

definition MAX_NAME_SUFFIX :: int where "MAX_NAME_SUFFIX = 100000"

text \<open>The loop over the numbered names, from the ending \<open>i\<close> on.\<close>

function numbered_name :: "string \<Rightarrow> string \<Rightarrow> nat \<Rightarrow> sso_state \<Rightarrow> string option" where
  "numbered_name e base i s =
     (if MAX_NAME_SUFFIX \<le> int i then None
      else if getUser e (base @ ''-'' @ show_nat i) s = None then Some (base @ ''-'' @ show_nat i)
      else numbered_name e base (Suc i) s)"
  by auto
termination by (relation "measure (\<lambda>(e, base, i, s). nat (MAX_NAME_SUFFIX - int i))") auto

declare numbered_name.simps [simp del]

definition nextAvailableSsoUser :: "string \<Rightarrow> string \<Rightarrow> string \<Rightarrow> sso_state \<Rightarrow> string" where
  "nextAvailableSsoUser e raw userPrefix s =
     (let base = (if sanitizeSsoUser raw = [] then userPrefix else sanitizeSsoUser raw) in
      if getUser e base s = None then base
      else case numbered_name e base 2 s of
        Some n \<Rightarrow> n
      | None \<Rightarrow> userPrefix @ show_nat (length (listAllUsers e s) + 1))"

section \<open>Passwords\<close>

definition defaultUserPassword :: "SsoEnterprise \<Rightarrow> sso_state \<Rightarrow> sso_error + string option" where
  "defaultUserPassword ent s = secrets s (ent_id ent) ''defaultUserPassword''"

definition resolveInitialPassword :: "SsoEnterprise \<Rightarrow> string \<Rightarrow> string option \<Rightarrow> sso_state \<Rightarrow> sso_error + string" where
  "resolveInitialPassword ent n explicit s =
     (case explicit of
        Some p \<Rightarrow> if p = [] then Inl (SsoError ''Password must not be empty.'') else Inr p
      | None \<Rightarrow> (case defaultUserPassword ent s of Inl x \<Rightarrow> Inl x | Inr d \<Rightarrow> Inr (or_else d n)))"

definition isStrongPoolPassword :: "string \<Rightarrow> string \<Rightarrow> bool" where
  "isStrongPoolPassword password n \<longleftrightarrow> 16 \<le> length (js_trim password) \<and> lower (js_trim password) \<noteq> lower n"

definition resolvePoolManagedPassword :: "SsoEnterprise \<Rightarrow> string \<Rightarrow> string option \<Rightarrow> sso_state \<Rightarrow> sso_error + string" where
  "resolvePoolManagedPassword ent n explicit s =
     (case defaultUserPassword ent s of
        Inl x \<Rightarrow> Inl x
      | Inr None \<Rightarrow> Inl PoolPasswordPolicyError
      | Inr (Some password) \<Rightarrow>
          if password = [] \<or> \<not> isStrongPoolPassword password n then Inl PoolPasswordPolicyError
          else if explicit \<noteq> None \<and> explicit \<noteq> Some password then Inl PoolPasswordPolicyError
          else Inr password)"

definition defaultCandidates :: "SsoEnterprise \<Rightarrow> SsoUserRecord \<Rightarrow> sso_state \<Rightarrow> sso_error + string list" where
  "defaultCandidates ent u s =
     (case defaultUserPassword ent s of Inl x \<Rightarrow> Inl x
      | Inr d \<Rightarrow> Inr (remdups (filter (\<lambda>p. p \<noteq> []) (option_list d @ [su_name u]))))"

section \<open>Free names\<close>

lemma digit_char_eq: "a < 10 \<Longrightarrow> b < 10 \<Longrightarrow> digit_char a = digit_char b \<longleftrightarrow> a = b"
proof -
  have "of_char (digit_char n) = 48 + n mod 10" for n :: nat by (simp add: digit_char_def)
  then show "a < 10 \<Longrightarrow> b < 10 \<Longrightarrow> digit_char a = digit_char b \<longleftrightarrow> a = b" by (metis add_left_cancel mod_less)
qed

lemma show_nat_not_Nil [simp]: "show_nat n \<noteq> []"
  by (subst show_nat.simps) simp

lemma show_nat_eq: "show_nat a = show_nat b \<longleftrightarrow> a = b"
proof (induction a arbitrary: b rule: show_nat.induct)
  case (1 a)
  show ?case
  proof (cases "a < 10 \<or> b < 10")
    case True
    then show ?thesis using digit_char_eq show_nat_not_Nil [of "a div 10"] show_nat_not_Nil [of "b div 10"]
      by (subst (1 2) show_nat.simps) (auto simp del: show_nat_not_Nil)
  next
    case False
    have "a = b" if "show_nat (a div 10) = show_nat (b div 10)" and "a mod 10 = b mod 10"
    proof -
      have "a div 10 = b div 10" using 1 [of "b div 10"] False that(1) by blast
      then show ?thesis by (metis that(2) div_mult_mod_eq)
    qed
    then show ?thesis using False digit_char_eq [of "a mod 10" "b mod 10"] by (subst (1 2) show_nat.simps) auto
  qed
qed

lemma plain_show_nat [simp]: "plain_name (show_nat n)"
proof (induction n rule: show_nat.induct)
  case (1 n)
  have digit: "is_name_char (digit_char m)" for m
  proof -
    have "of_char (digit_char m) = 48 + m mod 10" by (simp add: digit_char_def)
    moreover have "m mod 10 \<le> 9" by (simp add: less_Suc_eq_le [symmetric])
    ultimately show ?thesis by (simp add: is_name_char_def is_alnum_def is_digit_def less_eq_char_def)
  qed
  show ?case using 1 digit by (subst show_nat.simps) (simp add: plain_name_def)
qed

lemma getUser_None: "getUser e n s = None \<longleftrightarrow> (\<forall>r \<in> set (sso_users s). \<not> names_user e n r)"
  by (simp add: getUser_def find_None_mem)

lemma numbered_name_Some:
  "numbered_name e base i s = Some n \<Longrightarrow> getUser e n s = None \<and> (\<exists>j \<ge> i. n = base @ ''-'' @ show_nat j)"
proof (induction e base i s rule: numbered_name.induct)
  case (1 e base i s)
  show ?case using 1 by (subst (asm) (2) numbered_name.simps) (auto simp: Let_def split: if_splits dest: Suc_leD)
qed

lemma numbered_name_None:
  "numbered_name e base i s = None \<Longrightarrow> i \<le> j \<Longrightarrow> int j < MAX_NAME_SUFFIX \<Longrightarrow> getUser e (base @ ''-'' @ show_nat j) s \<noteq> None"
proof (induction e base i s rule: numbered_name.induct)
  case (1 e base i s)
  have taken: "getUser e (base @ ''-'' @ show_nat i) s \<noteq> None" "numbered_name e base (Suc i) s = None"
    using 1(2-4) by (subst (asm) numbered_name.simps; auto simp: Let_def split: if_splits)+
  then show ?case using 1 by (cases "j = i") (auto simp: Let_def)
qed

text \<open>Of the numbered names one is free unless all of them are users of the enterprise.\<close>

lemma taken_names_count:
  assumes taken: "\<And>i. i \<in> {2..<m} \<Longrightarrow> getUser e (base @ ''-'' @ show_nat i) s \<noteq> None"
  shows "m \<le> countUsers e s + 2"
proof -
  let ?rows = "filter (\<lambda>r. fst r = e) (sso_users s)"
  have "\<exists>r \<in> set ?rows. lower (su_name (snd r)) = lower base @ ''-'' @ show_nat i" if "i \<in> {2..<m}" for i
  proof -
    have "lower (CHR ''-'' # show_nat i) = CHR ''-'' # show_nat i"
      by (rule lower_plain) (use plain_show_nat [of i] in \<open>simp add: plain_name_def is_name_char_def\<close>)
    then show ?thesis using taken [OF that] by (auto simp: getUser_None names_user_def)
  qed
  then have "(\<lambda>i. lower base @ ''-'' @ show_nat i) ` {2..<m} \<subseteq> (\<lambda>r. lower (su_name (snd r))) ` set ?rows" by (auto simp: image_iff) metis
  moreover have "inj_on (\<lambda>i. lower base @ ''-'' @ show_nat i) {2..<m}" by (simp add: inj_on_def show_nat_eq)
  ultimately have "card {2..<m} \<le> card ((\<lambda>r. lower (su_name (snd r))) ` set ?rows)"
    by (metis card_image card_mono finite_imageI List.finite_set)
  also have "\<dots> \<le> card (set ?rows)" by (simp add: card_image_le)
  also have "\<dots> \<le> length ?rows" by (rule card_length)
  finally show ?thesis by (simp add: countUsers_def count_rows_def)
qed

lemma nextAvailable_free:
  assumes "countUsers e s < 99998"
  shows "getUser e (nextAvailableSsoUser e raw userPrefix s) s = None"
proof -
  let ?base = "if sanitizeSsoUser raw = [] then userPrefix else sanitizeSsoUser raw"
  have "numbered_name e ?base 2 s \<noteq> None"
  proof
    assume "numbered_name e ?base 2 s = None"
    then have "nat MAX_NAME_SUFFIX \<le> countUsers e s + 2" using numbered_name_None by (intro taken_names_count) (auto simp: nat_less_iff zless_nat_eq_int_zless)
    then show False using assms by (simp add: MAX_NAME_SUFFIX_def)
  qed
  then show ?thesis using numbered_name_Some [of e ?base 2 s] by (auto simp: nextAvailableSsoUser_def Let_def)
qed

end
