(* ===== verification/Event_Loop.thy ===== *)
theory Event_Loop
  imports Pool_Prelude
begin

text \<open>
  The event loop of a JavaScript process whose storage is synchronous. An asynchronous function is a
  \<open>proc\<close>: it accesses the shared state at once (\<open>Access\<close>), pauses for the answer to a call of the outside
  (\<open>Pause\<close>), returns or throws. Between two pauses it runs alone (\<open>settle\<close>); while it is paused, the other
  functions of the process run. \<open>session\<close> is one function in a process that changes the state in any way
  while it waits; \<open>loop_step\<close> is the process with all of its functions. The locale \<open>interference\<close> proves
  both safe from one kind of weakest precondition.
\<close>

section \<open>Asynchronous functions\<close>

datatype ('s, 'c, 'a, 'e, 'r) proc =
    Give 'r
  | Raise 'e
  | Pause 'c "'a \<Rightarrow> ('s, 'c, 'a, 'e, 'r) proc"
  | Access "'s \<Rightarrow> 's \<times> ('s, 'c, 'a, 'e, 'r) proc"

primrec follow :: "('s, 'c, 'a, 'e, 'r) proc \<Rightarrow> ('r \<Rightarrow> ('s, 'c, 'a, 'e, 't) proc) \<Rightarrow> ('s, 'c, 'a, 'e, 't) proc" where
  "follow (Give r) f = f r"
| "follow (Raise e) f = Raise e"
| "follow (Pause c k) f = Pause c (\<lambda>a. follow (k a) f)"
| "follow (Access g) f = Access (\<lambda>s. map_prod id (\<lambda>p. follow p f) (g s))"

text \<open>\<open>try { p } catch (e) { h(e) }\<close>\<close>

primrec attempt :: "('s, 'c, 'a, 'e, 'r) proc \<Rightarrow> ('e \<Rightarrow> ('s, 'c, 'a, 'e, 'r) proc) \<Rightarrow> ('s, 'c, 'a, 'e, 'r) proc" where
  "attempt (Give r) h = Give r"
| "attempt (Raise e) h = h e"
| "attempt (Pause c k) h = Pause c (\<lambda>a. attempt (k a) h)"
| "attempt (Access g) h = Access (\<lambda>s. map_prod id (\<lambda>p. attempt p h) (g s))"

definition giving :: "'e + 'r \<Rightarrow> ('s, 'c, 'a, 'e, 'r) proc" where
  "giving x = (case x of Inl e \<Rightarrow> Raise e | Inr r \<Rightarrow> Give r)"

definition demand :: "bool \<Rightarrow> 'e \<Rightarrow> ('s, 'c, 'a, 'e, unit) proc" where
  "demand b e = (if b then Give () else Raise e)"

text \<open>A read of the state, and an operation of the storage, which may fail.\<close>

definition look :: "('s \<Rightarrow> 'r) \<Rightarrow> ('s, 'c, 'a, 'e, 'r) proc" where
  "look f = Access (\<lambda>s. (s, Give (f s)))"

definition perform :: "('s \<Rightarrow> ('e + 'r) \<times> 's) \<Rightarrow> ('s, 'c, 'a, 'e, 'r) proc" where
  "perform g = Access (\<lambda>s. (snd (g s), giving (fst (g s))))"

definition call_out :: "'c \<Rightarrow> ('s, 'c, 'a, 'e, 'a) proc" where
  "call_out c = Pause c Give"

section \<open>Executions\<close>

text \<open>The synchronous part: up to the next pause, or to the end.\<close>

primrec settle :: "('s, 'c, 'a, 'e, 'r) proc \<Rightarrow> 's \<Rightarrow> 's \<times> ('s, 'c, 'a, 'e, 'r) proc" where
  "settle (Give r) s = (s, Give r)"
| "settle (Raise e) s = (s, Raise e)"
| "settle (Pause c k) s = (s, Pause c k)"
| "settle (Access g) s = (case map_prod id settle (g s) of (t, run) \<Rightarrow> run t)"

text \<open>
  A function in a process: for each call the answer and the state found when it came. The transcript has
  the calls with the state in which they were made; a process that dies leaves the last call unanswered.
\<close>

primrec session :: "('a \<times> 's) list \<Rightarrow> ('s, 'c, 'a, 'e, 'r) proc \<Rightarrow> 's \<Rightarrow> ('s \<times> 'c \<times> 'a option) list \<times> 's \<times> ('s, 'c, 'a, 'e, 'r) proc" where
  "session [] p s = (case settle p s of (t, q) \<Rightarrow>
     (case q of Pause c k \<Rightarrow> ([(t, c, None)], t, q) | _ \<Rightarrow> ([], t, q)))"
| "session (x # xs) p s = (case settle p s of (t, q) \<Rightarrow>
     (case q of Pause c k \<Rightarrow> (case session xs (k (fst x)) (snd x) of (tr, u, q') \<Rightarrow> ((t, c, Some (fst x)) # tr, u, q'))
      | _ \<Rightarrow> ([], t, q)))"

text \<open>
  The process: the state and the functions that wait. A request starts, the call of a waiting function is
  answered, or something outside changes the state.
\<close>

type_synonym ('s, 'c, 'a, 'e, 'r) process = "'s \<times> ('s, 'c, 'a, 'e, 'r) proc list"

inductive loop_step :: "('s, 'c, 'a, 'e, 'r) proc set \<Rightarrow> ('s \<Rightarrow> 's \<Rightarrow> bool) \<Rightarrow> ('s, 'c, 'a, 'e, 'r) process \<Rightarrow> ('s, 'c, 'a, 'e, 'r) process \<Rightarrow> bool"
  for requests outside where
  arrives: "p \<in> requests \<Longrightarrow> settle p s = (t, q) \<Longrightarrow> loop_step requests outside (s, ps) (t, ps @ [q])"
| answered: "i < length ps \<Longrightarrow> ps ! i = Pause c k \<Longrightarrow> settle (k a) s = (t, q) \<Longrightarrow> loop_step requests outside (s, ps) (t, ps[i := q])"
| elsewhere: "outside s t \<Longrightarrow> loop_step requests outside (s, ps) (t, ps)"

inductive loop_run :: "('s, 'c, 'a, 'e, 'r) proc set \<Rightarrow> ('s \<Rightarrow> 's \<Rightarrow> bool) \<Rightarrow> 's \<Rightarrow> ('s, 'c, 'a, 'e, 'r) process \<Rightarrow> bool"
  for requests outside s where
  at_start: "loop_run requests outside s (s, [])"
| further: "loop_run requests outside s w \<Longrightarrow> loop_step requests outside w w' \<Longrightarrow> loop_run requests outside s w'"

lemma settle_follow:
  "settle (follow p f) s = (case settle p s of (t, q) \<Rightarrow> (case q of Give r \<Rightarrow> settle (f r) t | Raise e \<Rightarrow> (t, Raise e) | _ \<Rightarrow> (t, follow q f)))"
proof (induction p arbitrary: s)
  case (Access g)
  obtain t q where g: "g s = (t, q)" by (cases "g s")
  show ?case using Access [of "(t, q)" q t] by (simp add: g rangeI [of g s, unfolded g])
qed simp_all

text \<open>Runs made of given events: a request arrives, or the function with a given number is answered if it waits.\<close>

datatype ('s, 'c, 'a, 'e, 'r) event = Arrives "('s, 'c, 'a, 'e, 'r) proc" | Answered nat 'a

fun happens :: "('s, 'c, 'a, 'e, 'r) event \<Rightarrow> ('s, 'c, 'a, 'e, 'r) process \<Rightarrow> ('s, 'c, 'a, 'e, 'r) process" where
  "happens (Arrives p) (s, ps) = (case settle p s of (t, q) \<Rightarrow> (t, ps @ [q]))"
| "happens (Answered i a) (s, ps) =
     (if i < length ps
      then (case ps ! i of Pause c k \<Rightarrow> (case settle (k a) s of (t, q) \<Rightarrow> (t, ps[i := q])) | _ \<Rightarrow> (s, ps))
      else (s, ps))"

lemma loop_run_happens:
  assumes "loop_run requests outside s w" and "\<And>p. ev = Arrives p \<Longrightarrow> p \<in> requests"
  shows "loop_run requests outside s (happens ev w)"
proof -
  obtain t ps where w: "w = (t, ps)" by (cases w)
  show ?thesis
  proof (cases ev)
    case (Arrives p)
    obtain u q where u: "settle p t = (u, q)" by fastforce
    have "loop_step requests outside w (u, ps @ [q])" using assms(2) Arrives u unfolding w by (auto intro: loop_step.arrives)
    then show ?thesis using assms(1) u by (simp add: Arrives w loop_run.further)
  next
    case (Answered i a)
    show ?thesis
    proof (cases "i < length ps \<and> (\<exists>c k. ps ! i = Pause c k)")
      case True
      then obtain c k where c: "i < length ps" "ps ! i = Pause c k" by blast
      obtain u q where u: "settle (k a) t = (u, q)" by fastforce
      have "loop_step requests outside w (u, ps[i := q])" using loop_step.answered [OF c u] by (simp add: w)
      then show ?thesis using assms(1) c u by (simp add: Answered w loop_run.further)
    next
      case False
      then have "happens ev w = w" by (cases "ps ! i") (auto simp: Answered w)
      then show ?thesis using assms(1) by simp
    qed
  qed
qed

text \<open>A function that still waits at the end has made one more call than it got answers.\<close>

lemma settle_no_access: "settle p s = (t, q) \<Longrightarrow> q \<noteq> Access g"
proof (induction p arbitrary: s)
  case (Access h)
  obtain u r where h: "h s = (u, r)" by (cases "h s")
  show ?case using Access.IH [of "(u, r)" r u] Access.prems by (simp add: h rangeI [of h s, unfolded h])
qed auto

lemma session_ends:
  assumes "session xs p s = (tr, u, q)"
  shows "(\<forall>g. q \<noteq> Access g) \<and> (\<forall>c k. q = Pause c k \<longrightarrow> length tr = Suc (length xs))"
  using assms
proof (induction xs arbitrary: p s tr u q)
  case Nil
  obtain t r where t: "settle p s = (t, r)" by fastforce
  show ?case using Nil settle_no_access [OF t] by (cases r) (auto simp: t)
next
  case (Cons x xs)
  obtain t r where t: "settle p s = (t, r)" by fastforce
  show ?case
  proof (cases r)
    case (Pause c k)
    obtain tr' v q' where rest: "session xs (k (fst x)) (snd x) = (tr', v, q')" by (cases "session xs (k (fst x)) (snd x)") auto
    show ?thesis using Cons.IH [OF rest] Cons.prems by (auto simp: t Pause rest)
  qed (use Cons.prems settle_no_access [OF t] in \<open>auto simp: t\<close>)
qed

section \<open>What a program may do at all\<close>

text \<open>Its calls satisfy \<open>P\<close> and its accesses \<open>M\<close>, in whatever state.\<close>

primrec admits :: "('c \<Rightarrow> bool) \<Rightarrow> ('s \<Rightarrow> 's \<Rightarrow> bool) \<Rightarrow> ('s, 'c, 'a, 'e, 'r) proc \<Rightarrow> bool" where
  "admits P M (Give r) = True"
| "admits P M (Raise e) = True"
| "admits P M (Pause c k) = (P c \<and> (\<forall>a. admits P M (k a)))"
| "admits P M (Access g) = (\<forall>s. case map_prod id (admits P M) (g s) of (t, ok) \<Rightarrow> M s t \<and> ok)"

named_theorems admits_rules \<open>programs and what they may do\<close>

lemma admits_follow [admits_rules]: "admits P M p \<Longrightarrow> (\<And>r. admits P M (f r)) \<Longrightarrow> admits P M (follow p f)"
proof (induction p)
  case (Access g)
  have "(case map_prod id (admits P M) (map_prod id (\<lambda>p. follow p f) (g s)) of (t, ok) \<Rightarrow> M s t \<and> ok)" for s
  proof (cases "g s")
    case (Pair t q)
    then show ?thesis using Access.IH [of "(t, q)" q] Access.prems(1) [simplified, rule_format, of s] Access.prems(2)
      by (simp add: rangeI [of g s, unfolded Pair])
  qed
  then show ?case by simp
qed simp_all

lemma admits_attempt [admits_rules]: "admits P M p \<Longrightarrow> (\<And>e. admits P M (h e)) \<Longrightarrow> admits P M (attempt p h)"
proof (induction p)
  case (Access g)
  have "(case map_prod id (admits P M) (map_prod id (\<lambda>p. attempt p h) (g s)) of (t, ok) \<Rightarrow> M s t \<and> ok)" for s
  proof (cases "g s")
    case (Pair t q)
    then show ?thesis using Access.IH [of "(t, q)" q] Access.prems(1) [simplified, rule_format, of s] Access.prems(2)
      by (simp add: rangeI [of g s, unfolded Pair])
  qed
  then show ?case by simp
qed simp_all

lemma admits_basic [admits_rules]:
  "admits P M (Give r)" "admits P M (Raise x)" "admits P M (giving y)" "admits P M (demand c x)"
  by (simp_all add: giving_def demand_def split: sum.split)

lemma admits_look [admits_rules]: "(\<And>s. M s s) \<Longrightarrow> admits P M (look f)"
  by (simp add: look_def)

lemma admits_perform: "(\<And>s. M s (snd (g s))) \<Longrightarrow> admits P M (perform g)"
  by (simp add: perform_def admits_basic)

lemma admits_call_out [admits_rules]: "P c \<Longrightarrow> admits P M (call_out c)"
  by (simp add: call_out_def)

lemma admits_if [admits_rules]: "(c \<Longrightarrow> admits P M p) \<Longrightarrow> (\<not> c \<Longrightarrow> admits P M q) \<Longrightarrow> admits P M (if c then p else q)"
  by simp

lemma admits_let [admits_rules]: "(\<And>x. x = t \<Longrightarrow> admits P M (f x)) \<Longrightarrow> admits P M (let x = t in f x)"
  by simp

lemma admits_option [admits_rules]:
  "(x = None \<Longrightarrow> admits P M p) \<Longrightarrow> (\<And>y. x = Some y \<Longrightarrow> admits P M (q y)) \<Longrightarrow> admits P M (case x of None \<Rightarrow> p | Some y \<Rightarrow> q y)"
  by (cases x) auto

lemma admits_pair [admits_rules]: "(\<And>x y. p = (x, y) \<Longrightarrow> admits P M (f x y)) \<Longrightarrow> admits P M (case p of (x, y) \<Rightarrow> f x y)"
  by (cases p) auto

section \<open>Safety under interference\<close>

text \<open>
  \<open>inv\<close> is what the state keeps, \<open>moves\<close> what an access may do to it, \<open>allowed\<close> which calls a function may
  make in which state, and \<open>noted\<close> what the monitor remembers of a call. While a function waits, the state
  may become any other that satisfies \<open>inv\<close>.
\<close>

locale interference =
  fixes inv :: "'s \<Rightarrow> bool" and moves :: "'s \<Rightarrow> 's \<Rightarrow> bool"
    and allowed :: "'m \<Rightarrow> 's \<Rightarrow> 'c \<Rightarrow> bool" and noted :: "'m \<Rightarrow> 's \<Rightarrow> 'c \<Rightarrow> 'a \<Rightarrow> 'm"
  assumes moves_refl: "moves s s"
    and moves_trans: "moves s t \<Longrightarrow> moves t u \<Longrightarrow> moves s u"
    and moves_inv: "moves s t \<Longrightarrow> inv s \<Longrightarrow> inv t"
begin

primrec guarded :: "('s, 'c, 'a, 'e, 'r) proc \<Rightarrow> ('m \<Rightarrow> 's \<Rightarrow> 'r \<Rightarrow> bool) \<Rightarrow> ('m \<Rightarrow> 's \<Rightarrow> 'e \<Rightarrow> bool) \<Rightarrow> 'm \<Rightarrow> 's \<Rightarrow> bool" where
  "guarded (Give r) Q E m s = Q m s r"
| "guarded (Raise e) Q E m s = E m s e"
| "guarded (Pause c k) Q E m s = (allowed m s c \<and> (\<forall>a t. inv t \<longrightarrow> guarded (k a) Q E (noted m s c a) t))"
| "guarded (Access g) Q E m s = (case map_prod id (\<lambda>p. guarded p Q E m) (g s) of (t, ok) \<Rightarrow> moves s t \<and> ok t)"

text \<open>A transcript that the monitor accepts.\<close>

primrec accepted :: "'m \<Rightarrow> ('s \<times> 'c \<times> 'a option) list \<Rightarrow> bool" where
  "accepted m [] = True"
| "accepted m (x # xs) = (case x of (s, c, a) \<Rightarrow> allowed m s c \<and> (case a of None \<Rightarrow> xs = [] | Some b \<Rightarrow> accepted (noted m s c b) xs))"

lemma accepted_allowed: "accepted m tr \<Longrightarrow> i < length tr \<Longrightarrow> \<exists>m'. allowed m' (fst (tr ! i)) (fst (snd (tr ! i)))"
proof (induction tr arbitrary: m i)
  case (Cons x tr)
  show ?case
  proof (cases i)
    case 0
    then show ?thesis using Cons.prems by (auto split: prod.splits)
  next
    case (Suc k)
    then show ?thesis using Cons.prems Cons.IH [of _ k] by (cases x) (auto split: option.splits)
  qed
qed simp

lemma guarded_mono:
  assumes "guarded p Q E m s" and "\<And>m s r. Q m s r \<Longrightarrow> Q' m s r" and "\<And>m s e. E m s e \<Longrightarrow> E' m s e"
  shows "guarded p Q' E' m s"
  using assms(1)
proof (induction p arbitrary: m s)
  case (Access g)
  obtain t q where g: "g s = (t, q)" by (cases "g s")
  show ?case using Access.IH [of "(t, q)" q m t] Access.prems by (simp add: g rangeI [of g s, unfolded g])
qed (auto intro: assms)

lemma guarded_follow: "guarded (follow p f) Q E m s = guarded p (\<lambda>m s r. guarded (f r) Q E m s) E m s"
proof (induction p arbitrary: m s)
  case (Access g)
  obtain t q where g: "g s = (t, q)" by (cases "g s")
  show ?case using Access.IH [of "(t, q)" q m t] by (simp add: g rangeI [of g s, unfolded g])
qed simp_all

lemma guarded_attempt: "guarded (attempt p h) Q E m s = guarded p Q (\<lambda>m s e. guarded (h e) Q E m s) m s"
proof (induction p arbitrary: m s)
  case (Access g)
  obtain t q where g: "g s = (t, q)" by (cases "g s")
  show ?case using Access.IH [of "(t, q)" q m t] by (simp add: g rangeI [of g s, unfolded g])
qed simp_all

lemma guarded_giving: "guarded (giving x) Q E m s = (case x of Inl e \<Rightarrow> E m s e | Inr r \<Rightarrow> Q m s r)"
  by (simp add: giving_def split: sum.split)

lemma guarded_demand: "guarded (demand b e) Q E m s = (if b then Q m s () else E m s e)"
  by (simp add: demand_def)

lemma guarded_look: "guarded (look f) Q E m s = Q m s (f s)"
  by (simp add: look_def moves_refl)

lemma guarded_perform:
  "guarded (perform g) Q E m s = (moves s (snd (g s)) \<and> (case fst (g s) of Inl e \<Rightarrow> E m (snd (g s)) e | Inr r \<Rightarrow> Q m (snd (g s)) r))"
  by (simp add: perform_def guarded_giving)

lemma guarded_call_out:
  "guarded (call_out c) Q E m s = (allowed m s c \<and> (\<forall>a t. inv t \<longrightarrow> Q (noted m s c a) t a))"
  by (simp add: call_out_def)

lemmas guarded_simps = guarded_follow guarded_attempt guarded_giving guarded_demand guarded_look guarded_perform guarded_call_out

lemma admits_guarded:
  assumes "admits P M p" and "\<And>m s c. P c \<Longrightarrow> allowed m s c" and "\<And>s t. M s t \<Longrightarrow> moves s t"
    and "\<And>m s r. Q m s r" and "\<And>m s e. E m s e"
  shows "guarded p Q E m s"
  using assms(1)
proof (induction p arbitrary: m s)
  case (Access g m s)
  obtain t q where g: "g s = (t, q)" by (cases "g s")
  show ?case using Access.IH [of "(t, q)" q m t] Access.prems [simplified, rule_format, of s] assms(3)
    by (simp add: g rangeI [of g s, unfolded g])
qed (simp_all add: assms)

lemma guarded_settle:
  assumes "guarded p Q E m s" and "settle p s = (t, q)"
  shows "moves s t \<and> guarded q Q E m t \<and> (\<forall>g. q \<noteq> Access g)"
  using assms
proof (induction p arbitrary: s)
  case (Access g)
  obtain u r where g: "g s = (u, r)" by (cases "g s")
  show ?case using Access.IH [of "(u, r)" r u] Access.prems moves_trans by (auto simp: g rangeI [of g s, unfolded g])
qed (auto simp: moves_refl)

lemma guarded_session:
  assumes "guarded p Q E m s" and "session xs p s = (tr, u, q)" and "list_all (\<lambda>x. inv (snd x)) xs"
  shows "accepted m tr \<and> (\<exists>m'. guarded q Q E m' u)"
  using assms
proof (induction xs arbitrary: p m s tr u q)
  case Nil
  obtain t r where t: "settle p s = (t, r)" by fastforce
  show ?case using guarded_settle [OF Nil.prems(1) t] Nil.prems(2) by (cases r) (auto simp: t)
next
  case (Cons x xs)
  obtain t r where t: "settle p s = (t, r)" by fastforce
  have g: "guarded r Q E m t" and "\<forall>g. r \<noteq> Access g" using guarded_settle [OF Cons.prems(1) t] by auto
  show ?case
  proof (cases r)
    case (Pause c k)
    obtain tr' v q' where rest: "session xs (k (fst x)) (snd x) = (tr', v, q')" by (cases "session xs (k (fst x)) (snd x)") auto
    have "guarded (k (fst x)) Q E (noted m t c (fst x)) (snd x)" using g Cons.prems(3) by (simp add: Pause)
    then have "accepted (noted m t c (fst x)) tr' \<and> (\<exists>m'. guarded q' Q E m' v)" using Cons.IH rest Cons.prems(3) by auto
    then show ?thesis using g Cons.prems(2) by (simp add: t Pause rest split: prod.splits) auto
  qed (use Cons.prems(2) g in \<open>auto simp: t\<close>)
qed

text \<open>A function that waits in a process goes on safely, whatever the state is then.\<close>

definition goes_on :: "('s, 'c, 'a, 'e, 'r) proc \<Rightarrow> bool" where
  "goes_on p = (\<forall>c k. p = Pause c k \<longrightarrow> (\<exists>f. \<forall>a t. inv t \<longrightarrow> guarded (k a) (\<lambda>_ _ _. True) (\<lambda>_ _ _. True) (f a) t))"

lemma settled_goes_on:
  assumes "guarded p (\<lambda>_ _ _. True) (\<lambda>_ _ _. True) m s" and "settle p s = (t, q)"
  shows "moves s t \<and> goes_on q"
proof -
  have t: "moves s t" and q: "guarded q (\<lambda>_ _ _. True) (\<lambda>_ _ _. True) m t" using guarded_settle [OF assms] by auto
  have "goes_on q" unfolding goes_on_def
  proof (intro allI impI)
    fix c k
    assume "q = Pause c k"
    then show "\<exists>f. \<forall>a t. inv t \<longrightarrow> guarded (k a) (\<lambda>_ _ _. True) (\<lambda>_ _ _. True) (f a) t" using q by (intro exI [of _ "noted m t c"]) simp
  qed
  then show ?thesis using t by simp
qed

lemma loop_run_safe:
  assumes run: "loop_run requests outside s w" and start: "inv s"
    and requests: "\<And>p s. p \<in> requests \<Longrightarrow> inv s \<Longrightarrow> \<exists>m. guarded p (\<lambda>_ _ _. True) (\<lambda>_ _ _. True) m s"
    and outside: "\<And>s t. outside s t \<Longrightarrow> inv s \<Longrightarrow> moves s t"
  shows "moves s (fst w) \<and> inv (fst w) \<and> list_all goes_on (snd w)"
  using run
proof (induction rule: loop_run.induct)
  case at_start
  show ?case using start by (simp add: moves_refl)
next
  case (further w w')
  obtain u ps where w: "w = (u, ps)" by (cases w)
  have u: "inv u" "moves s u" and ps: "list_all goes_on ps" using further.IH by (auto simp: w)
  have step: "loop_step requests outside (u, ps) w'" using further.hyps(2) by (simp add: w)
  have "moves u (fst w') \<and> list_all goes_on (snd w')"
    using step
  proof (cases rule: loop_step.cases)
    case (arrives p t q)
    then show ?thesis using requests u(1) arrives settled_goes_on ps by fastforce
  next
    case (answered i c k a t q)
    have "goes_on (Pause c k)" using answered ps by (metis Pair_inject list_all_length)
    then obtain m where "guarded (k a) (\<lambda>_ _ _. True) (\<lambda>_ _ _. True) m u" using u(1) answered by (auto simp: goes_on_def)
    then have "moves u t \<and> goes_on q" using settled_goes_on answered by blast
    then show ?thesis using ps answered by (auto simp: list_all_length nth_list_update)
  next
    case (elsewhere t)
    then show ?thesis using outside u(1) ps by simp
  qed
  then show ?case using u moves_trans moves_inv by blast
qed

end

end
