(* ===== verification/Sso_Scim.thy ===== *)
theory Sso_Scim
  imports Sso_Names Event_Loop
begin

text \<open>
  The calls that the single sign-on service awaits, and its SCIM client, \<^verbatim>\<open>src/sso/src/scim/scimClient.ts\<close>
  with \<^verbatim>\<open>handle.ts\<close>, as asynchronous functions over the state of \<^verbatim>\<open>Sso_Users\<close>. Users are created, replaced,
  suspended and deleted by requests that are paced by enterprise and repeated when they fail for a reason
  that may pass. The functions of \<^verbatim>\<open>src/sso/src/copilot/seats.ts\<close> are calls of their own. Messages of errors
  leave out the text of the response that failed.
\<close>

section \<open>Calls and answers\<close>

datatype scim_role = RoleUser | RoleEnterpriseOwner

record ScimUserResource =
  sr_id :: "string option"
  sr_userName :: string
  sr_githubLogin :: "string option"

text \<open>A request to the SCIM service; the body of a user is made of its record and role.\<close>

datatype scim_request =
    ScimCreate SsoUserRecord scim_role
  | ScimReplace string SsoUserRecord scim_role
  | ScimSuspend string
  | ScimDelete string
  | ScimFind string

datatype sso_call =
    HashPassword string
  | VerifyPassword string string string
  | PoolMembership string string
  | DeleteProxyAccounts string string
  | ScimHttp string scim_request
  | AssignSeat string string
  | RemoveSeat string string
  | ReadSeat string string
  | SleepMs rat

text \<open>What a \<open>Retry-After\<close> header says: seconds, the instant of a date, or neither.\<close>

datatype retry_after = NoHeader | RetrySeconds rat | RetryAt int | Unreadable

datatype scim_body = NoBody | UserBody ScimUserResource | PageBody "ScimUserResource list"

datatype sso_answer =
    Hashed string string
  | Verified bool
  | ProxyReply js
  | ScimReply int retry_after scim_body
  | SeatChanged
  | SeatMissing int
  | SeatIs CopilotSeatSnapshot
  | Slept
  | Rejected string

type_synonym 'r sso_proc = "(sso_state, sso_call, sso_answer, sso_error, 'r) proc"

text \<open>The error of a call that failed; an answer of another kind does not occur.\<close>

fun failure_of :: "sso_answer \<Rightarrow> sso_error" where
  "failure_of (Rejected m) = SsoError m"
| "failure_of _ = SsoError ''unexpected answer''"

definition reading :: "(sso_state \<Rightarrow> sso_error + 'r) \<Rightarrow> 'r sso_proc" where
  "reading f = follow (look f) giving"

definition runtime_settings :: "SsoEnterprise \<Rightarrow> SsoSettings sso_proc" where
  "runtime_settings ent = perform (getSsoRuntimeSettings (ent_id ent))"

section \<open>Handles\<close>

definition is_handle_char :: "char \<Rightarrow> bool" where
  "is_handle_char c \<longleftrightarrow> is_alnum c"

primrec hyphenate :: "bool \<Rightarrow> string \<Rightarrow> string" where
  "hyphenate b [] = []"
| "hyphenate b (c # cs) =
     (if is_handle_char c then c # hyphenate False cs else if b then hyphenate True cs else CHR ''-'' # hyphenate True cs)"

definition drop_last_hyphens :: "string \<Rightarrow> string" where
  "drop_last_hyphens s = rev (dropWhile (\<lambda>c. c = CHR ''-'') (rev s))"

definition normalizeHandle :: "string \<Rightarrow> string \<Rightarrow> string" where
  "normalizeHandle userName shortcode =
     (let handle = trim_hyphens (hyphenate False (lower (takeWhile (\<lambda>c. c \<noteq> CHR ''@'') userName)));
          ending = (if shortcode = [] then [] else CHR ''_'' # shortcode);
          maxLocal = (if ending = [] then 30 else max 1 (39 - length ending))
      in (if maxLocal < length handle then drop_last_hyphens (take maxLocal handle) else handle) @ ending)"

section \<open>One request with its repetitions\<close>

definition isRetryable :: "int \<Rightarrow> retry_after \<Rightarrow> bool" where
  "isRetryable status header \<longleftrightarrow> status = 429 \<or> 500 \<le> status \<or> (status = 403 \<and> header \<noteq> NoHeader)"

definition backoffMs :: "int \<Rightarrow> nat \<Rightarrow> int \<Rightarrow> retry_after \<Rightarrow> rat" where
  "backoffMs now tried base header =
     (case header of
        RetrySeconds s \<Rightarrow> max 0 (s * 1000)
      | RetryAt t \<Rightarrow> of_int (max 0 (t - now))
      | _ \<Rightarrow> of_int (min 30000 (base * 2 ^ tried)))"

text \<open>The pacing: the request takes the next free instant of the enterprise and sleeps until then.\<close>

definition take_slot :: "string \<Rightarrow> int \<Rightarrow> sso_state \<Rightarrow> (sso_error + int) \<times> sso_state" where
  "take_slot e delay s =
     (Inr (max 0 (scim_slots s e - sso_now s)), s\<lparr>scim_slots := (scim_slots s)(e := max (sso_now s) (scim_slots s e) + delay)\<rparr>)"

definition waitForScimSlot :: "string \<Rightarrow> int \<Rightarrow> unit sso_proc" where
  "waitForScimSlot e delay =
     follow (perform (take_slot e delay)) (\<lambda>wait.
       if 0 < wait then follow (call_out (SleepMs (of_int wait))) (\<lambda>_. Give ()) else Give ())"

definition back_off :: "nat \<Rightarrow> int \<Rightarrow> retry_after \<Rightarrow> unit sso_proc" where
  "back_off tried base header =
     follow (look (\<lambda>s. backoffMs (sso_now s) tried base header)) (\<lambda>ms. follow (call_out (SleepMs ms)) (\<lambda>_. Give ()))"

text \<open>The attempts from number \<open>tried\<close> on, of which \<open>left\<close> may follow a failed one.\<close>

primrec scim_attempts :: "nat \<Rightarrow> nat \<Rightarrow> string \<Rightarrow> scim_request \<Rightarrow> string \<Rightarrow> SsoSettings \<Rightarrow> (int \<times> scim_body) sso_proc" where
  "scim_attempts 0 tried e request operation x =
     follow (waitForScimSlot e (sx_scimRequestDelayMs x)) (\<lambda>_. follow (call_out (ScimHttp e request)) (\<lambda>a.
       case a of
         ScimReply status header body \<Rightarrow>
           if \<not> isRetryable status header then Give (status, body)
           else Raise (SsoError (operation @ '' failed after retries: '' @ show_int status))
       | _ \<Rightarrow> Raise (failure_of a)))"
| "scim_attempts (Suc left) tried e request operation x =
     follow (waitForScimSlot e (sx_scimRequestDelayMs x)) (\<lambda>_. follow (call_out (ScimHttp e request)) (\<lambda>a.
       case a of
         ScimReply status header body \<Rightarrow>
           if \<not> isRetryable status header then Give (status, body)
           else follow (back_off tried (sx_scimRetryBaseDelayMs x) header)
             (\<lambda>_. scim_attempts left (Suc tried) e request operation x)
       | _ \<Rightarrow> follow (back_off tried (sx_scimRetryBaseDelayMs x) NoHeader)
             (\<lambda>_. scim_attempts left (Suc tried) e request operation x)))"

definition required_secret :: "SsoEnterprise \<Rightarrow> string \<Rightarrow> sso_state \<Rightarrow> sso_error + string" where
  "required_secret ent field s =
     (case secrets s (ent_id ent) field of
        Inl x \<Rightarrow> Inl x
      | Inr None \<Rightarrow> Inl (SecretError ''enterprise_secret_unconfigured'')
      | Inr (Some v) \<Rightarrow> Inr v)"

definition scimFetch :: "SsoEnterprise \<Rightarrow> scim_request \<Rightarrow> string \<Rightarrow> (int \<times> scim_body) sso_proc" where
  "scimFetch ent request operation =
     follow (reading (required_secret ent ''scimToken'')) (\<lambda>_.
     follow (runtime_settings ent) (\<lambda>x.
     follow (demand (ent_scimBaseUrl ent \<noteq> []) (SsoError (ent_id ent @ ''.sso.scimBaseUrl is not configured.''))) (\<lambda>_.
     scim_attempts (nat (sx_scimMaxRetries x)) 0 (ent_id ent) request operation x)))"

section \<open>Users at GitHub\<close>

definition scim_ok :: "int \<Rightarrow> bool" where
  "scim_ok status \<longleftrightarrow> 200 \<le> status \<and> status \<le> 299"

definition scim_failed :: "string \<Rightarrow> int \<Rightarrow> sso_error" where
  "scim_failed operation status = SsoError (operation @ '' failed: '' @ show_int status)"

text \<open>The user that a successful answer carries; a body that is none does not parse.\<close>

definition user_of :: "scim_body \<Rightarrow> ScimUserResource sso_proc" where
  "user_of body = (case body of UserBody r \<Rightarrow> Give r | _ \<Rightarrow> Raise (SsoError ''Unexpected end of JSON input''))"

definition scim_createUser :: "SsoEnterprise \<Rightarrow> SsoUserRecord \<Rightarrow> scim_role \<Rightarrow> ScimUserResource option sso_proc" where
  "scim_createUser ent u role =
     follow (scimFetch ent (ScimCreate u role) ''SCIM create'') (\<lambda>(status, body).
       if status = 409 then Give None
       else if \<not> scim_ok status then Raise (scim_failed ''SCIM create'' status)
       else follow (user_of body) (\<lambda>r. Give (Some r)))"

definition replaceUser :: "SsoEnterprise \<Rightarrow> string \<Rightarrow> SsoUserRecord \<Rightarrow> scim_role \<Rightarrow> ScimUserResource option sso_proc" where
  "replaceUser ent scimId u role =
     follow (scimFetch ent (ScimReplace scimId u role) ''SCIM update'') (\<lambda>(status, body).
       if status = 404 then Give None
       else if \<not> scim_ok status then Raise (scim_failed ''SCIM update'' status)
       else follow (user_of body) (\<lambda>r. Give (Some r)))"

definition findScimUserByUsername :: "SsoEnterprise \<Rightarrow> string \<Rightarrow> ScimUserResource option sso_proc" where
  "findScimUserByUsername ent username =
     follow (scimFetch ent (ScimFind username) ''SCIM lookup'') (\<lambda>(status, body).
       if \<not> scim_ok status then Raise (scim_failed ''SCIM lookup'' status)
       else case body of
         PageBody rs \<Rightarrow> Give (case rs of [] \<Rightarrow> None | r # _ \<Rightarrow> Some r)
       | _ \<Rightarrow> Raise (SsoError ''Unexpected end of JSON input''))"

definition deleteByScimId :: "SsoEnterprise \<Rightarrow> string \<Rightarrow> bool sso_proc" where
  "deleteByScimId ent scimId =
     follow (scimFetch ent (ScimDelete scimId) ''SCIM delete'') (\<lambda>(status, body).
       if status = 404 then Give False
       else if \<not> scim_ok status then Raise (scim_failed ''SCIM delete'' status) else Give True)"

definition given :: "string option \<Rightarrow> bool" where
  "given x \<longleftrightarrow> x \<noteq> None \<and> x \<noteq> Some []"

record ProvisionResult =
  pr_scimId :: string
  pr_ghLogin :: string

definition resultFromScimUser :: "SsoEnterprise \<Rightarrow> ScimUserResource \<Rightarrow> ProvisionResult sso_proc" where
  "resultFromScimUser ent r =
     (if \<not> given (sr_id r) then Raise (SsoError (''SCIM response for '' @ sr_userName r @ '' did not include an id''))
      else Give \<lparr>pr_scimId = the (sr_id r), pr_ghLogin = or_else (sr_githubLogin r) (normalizeHandle (sr_userName r) (ent_shortcode ent))\<rparr>)"

definition adoptExistingUser :: "SsoEnterprise \<Rightarrow> SsoUserRecord \<Rightarrow> scim_role \<Rightarrow> ProvisionResult sso_proc" where
  "adoptExistingUser ent u role =
     follow (findScimUserByUsername ent (su_name u)) (\<lambda>existing.
       case Option.bind existing sr_id of
         None \<Rightarrow> Raise (SsoError (''SCIM user '' @ su_name u @ '' already exists but could not be found''))
       | Some scimId \<Rightarrow>
           if scimId = [] then Raise (SsoError (''SCIM user '' @ su_name u @ '' already exists but could not be found''))
           else follow (replaceUser ent scimId u role) (\<lambda>updated.
             case updated of
               None \<Rightarrow> Raise (SsoError (''SCIM user '' @ su_name u @ '' disappeared before update''))
             | Some r \<Rightarrow> resultFromScimUser ent r))"

text \<open>\<open>syncUser\<close> after the attempt to replace the user that is already known.\<close>

definition sync_create :: "SsoEnterprise \<Rightarrow> SsoUserRecord \<Rightarrow> scim_role \<Rightarrow> bool \<Rightarrow> ProvisionResult sso_proc" where
  "sync_create ent u role createOnly =
     follow (scim_createUser ent u role) (\<lambda>created.
       case created of
         Some r \<Rightarrow> resultFromScimUser ent r
       | None \<Rightarrow>
           if createOnly then Raise (SsoError (''SCIM create-only conflict: user '' @ su_name u @ '' already exists; no lookup or update was attempted.''))
           else adoptExistingUser ent u role)"

definition syncUser :: "SsoEnterprise \<Rightarrow> SsoUserRecord \<Rightarrow> scim_role \<Rightarrow> bool \<Rightarrow> ProvisionResult sso_proc" where
  "syncUser ent u role createOnly =
     (if createOnly \<and> (given (su_ghScimId u) \<or> given (su_ghLogin u) \<or> su_emu u \<noteq> EmuNotSynced)
      then Raise (SsoError (''SCIM create-only refused: SSO user '' @ su_name u @ '' already has provisioning data.''))
      else if given (su_ghScimId u)
      then follow (replaceUser ent (the (su_ghScimId u)) u role) (\<lambda>updated.
        case updated of Some r \<Rightarrow> resultFromScimUser ent r | None \<Rightarrow> sync_create ent u role createOnly)
      else sync_create ent u role createOnly)"

definition suspendUser :: "SsoEnterprise \<Rightarrow> string \<Rightarrow> unit sso_proc" where
  "suspendUser ent scimId =
     follow (scimFetch ent (ScimSuspend scimId) ''SCIM suspend'') (\<lambda>(status, body).
       if \<not> scim_ok status then Raise (scim_failed ''SCIM suspend'' status) else Give ())"

definition deleteProvisionedUser :: "SsoEnterprise \<Rightarrow> SsoUserRecord \<Rightarrow> bool sso_proc" where
  "deleteProvisionedUser ent u =
     follow (if given (su_ghScimId u) then deleteByScimId ent (the (su_ghScimId u)) else Give False) (\<lambda>deleted.
     follow (findScimUserByUsername ent (su_name u)) (\<lambda>existing.
       case Option.bind existing sr_id of
         None \<Rightarrow> Give deleted
       | Some scimId \<Rightarrow>
           if scimId = [] then Give deleted
           else follow (deleteByScimId ent scimId) (\<lambda>again. Give (again \<or> deleted))))"

end
