(* ===== verification/Sso_Service.thy ===== *)
theory Sso_Service
  imports Sso_Scim
begin

text \<open>
  The operations of the single sign-on service on users, \<^verbatim>\<open>src/sso/src/users/service.ts\<close>, with the client of
  the Proxy (\<^verbatim>\<open>src/sso/src/clients/proxyClient.ts\<close>) and the handlers of \<^verbatim>\<open>src/sso/src/routes/usersApi.ts\<close> that
  decide something themselves. Each asynchronous function is a \<open>proc\<close>; the bodies of requests have the
  types that the code declares for them.
\<close>

section \<open>Calls\<close>

definition hashPassword :: "string \<Rightarrow> (string \<times> string) sso_proc" where
  "hashPassword p = follow (call_out (HashPassword p)) (\<lambda>a. case a of Hashed h salt \<Rightarrow> Give (h, salt) | _ \<Rightarrow> Raise (failure_of a))"

definition verifyPassword :: "string \<Rightarrow> SsoUserRecord \<Rightarrow> bool sso_proc" where
  "verifyPassword p u =
     follow (call_out (VerifyPassword p (su_hash u) (su_salt u))) (\<lambda>a. case a of Verified b \<Rightarrow> Give b | _ \<Rightarrow> Raise (failure_of a))"

primrec first_verified :: "SsoUserRecord \<Rightarrow> string list \<Rightarrow> string option sso_proc" where
  "first_verified u [] = Give None"
| "first_verified u (p # ps) = follow (verifyPassword p u) (\<lambda>b. if b then Give (Some p) else first_verified u ps)"

definition knownDefaultPasswordForUserAsync :: "SsoEnterprise \<Rightarrow> SsoUserRecord \<Rightarrow> string option sso_proc" where
  "knownDefaultPasswordForUserAsync ent u = follow (reading (defaultCandidates ent u)) (first_verified u)"

text \<open>Anything but a boolean in the answer, and any failure, leaves the membership unknown.\<close>

definition isProxyPoolManagedSsoUser :: "string \<Rightarrow> string \<Rightarrow> bool sso_proc" where
  "isProxyPoolManagedSsoUser e n =
     follow (call_out (PoolMembership e n)) (\<lambda>a.
       case a of
         ProxyReply r \<Rightarrow> (case js_get r ''managed'' of JBool b \<Rightarrow> Give b | _ \<Rightarrow> Raise PoolMembershipUnavailableError)
       | _ \<Rightarrow> Raise PoolMembershipUnavailableError)"

definition deleteProxyAccountsBySsoUser :: "string \<Rightarrow> string \<Rightarrow> unit sso_proc" where
  "deleteProxyAccountsBySsoUser e n =
     follow (call_out (DeleteProxyAccounts e n)) (\<lambda>a. case a of ProxyReply r \<Rightarrow> Give () | _ \<Rightarrow> Raise (failure_of a))"

definition assignCopilotSeat :: "SsoEnterprise \<Rightarrow> string \<Rightarrow> unit sso_proc" where
  "assignCopilotSeat ent login =
     follow (call_out (AssignSeat (ent_id ent) login)) (\<lambda>a. case a of SeatChanged \<Rightarrow> Give () | _ \<Rightarrow> Raise (failure_of a))"

definition removeCopilotSeat :: "SsoEnterprise \<Rightarrow> string \<Rightarrow> unit sso_proc" where
  "removeCopilotSeat ent login =
     follow (call_out (RemoveSeat (ent_id ent) login)) (\<lambda>a.
       case a of
         SeatChanged \<Rightarrow> Give ()
       | SeatMissing status \<Rightarrow> Raise (CopilotSeatNotAssignedError login status)
       | _ \<Rightarrow> Raise (failure_of a))"

definition getCopilotSeatAssignment :: "SsoEnterprise \<Rightarrow> string \<Rightarrow> CopilotSeatSnapshot sso_proc" where
  "getCopilotSeatAssignment ent login =
     follow (call_out (ReadSeat (ent_id ent) login)) (\<lambda>a. case a of SeatIs x \<Rightarrow> Give x | _ \<Rightarrow> Raise (failure_of a))"

fun errorMessage :: "sso_error \<Rightarrow> string" where
  "errorMessage (SsoError m) = m"
| "errorMessage (SsoUserLimitReachedError current limit) =
     ''SSO user limit of '' @ show_int limit @ '' has been reached ('' @ show_int current @ '' users currently exist).''"
| "errorMessage PoolMemberManagedError = ''pool_member_managed: Manage this user through the user pool.''"
| "errorMessage PoolMembershipUnavailableError =
     ''pool_membership_unavailable: Cannot verify user pool ownership; no destructive action was performed.''"
| "errorMessage PoolPasswordPolicyError =
     ''pool_password_policy: Pool users require SSO_DEFAULT_USER_PASSWORD with at least 16 non-padding characters, different from the username; custom passwords are not supported.''"
| "errorMessage (CopilotSeatNotAssignedError login status) = ''GitHub user \"'' @ login @ ''\" does not have a Copilot seat.''"
| "errorMessage (SecretError m) = m"
| "errorMessage (ConstraintError m) = m"

section \<open>Users\<close>

definition requireUser :: "SsoEnterprise \<Rightarrow> string \<Rightarrow> SsoUserRecord sso_proc" where
  "requireUser ent n =
     reading (\<lambda>s. case getUser (ent_id ent) n s of
       None \<Rightarrow> Inl (SsoError (''SSO user \"'' @ n @ ''\" was not found.'')) | Some u \<Rightarrow> Inr u)"

definition assertSsoUserAvailable :: "SsoEnterprise \<Rightarrow> string \<Rightarrow> unit sso_proc" where
  "assertSsoUserAvailable ent n =
     reading (\<lambda>s. case getUser (ent_id ent) n s of
       Some u \<Rightarrow> Inl (SsoError (''SSO user \"'' @ n @ ''\" already exists.'')) | None \<Rightarrow> Inr ())"

text \<open>\<open>assertDestructiveOperationAllowed\<close>: first the local mark, then the membership in the Proxy.\<close>

definition assertDestructiveOperationAllowed :: "SsoEnterprise \<Rightarrow> SsoUserRecord \<Rightarrow> unit sso_proc" where
  "assertDestructiveOperationAllowed ent u =
     follow (perform (assertNotLocallyPoolManaged (ent_id ent) (su_name u))) (\<lambda>_.
     follow (isProxyPoolManagedSsoUser (ent_id ent) (su_name u)) (\<lambda>managed. demand (\<not> managed) PoolMemberManagedError))"

record EnsureSsoUserResponse =
  en_user :: SsoUserDto
  en_password :: "string option"
  en_created :: bool

definition existingEnsureUserResult :: "SsoEnterprise \<Rightarrow> SsoUserRecord \<Rightarrow> EnsureSsoUserResponse sso_proc" where
  "existingEnsureUserResult ent u =
     follow (knownDefaultPasswordForUserAsync ent u) (\<lambda>p. Give \<lparr>en_user = toDto u, en_password = p, en_created = False\<rparr>)"

definition ensure_base :: "SsoEnterprise \<Rightarrow> string \<Rightarrow> string option \<Rightarrow> string" where
  "ensure_base ent identity preferred =
     (let candidates = ensureSsoUserCandidates ent identity preferred;
          base = (case candidates of [] \<Rightarrow> ssoUserFromEnsureInput ent identity | c # _ \<Rightarrow> c)
      in if base = [] then identity else base)"

definition find_existing :: "SsoEnterprise \<Rightarrow> string \<Rightarrow> string option \<Rightarrow> sso_state \<Rightarrow> SsoUserRecord option" where
  "find_existing ent identity preferred =
     findExistingEnsureUser (ent_id ent) identity preferred (ensureSsoUserCandidates ent identity preferred)"

text \<open>The insertion at the end of an attempt.\<close>

definition ensure_insert :: "SsoEnterprise \<Rightarrow> string \<Rightarrow> string \<Rightarrow> string \<times> string \<Rightarrow> SsoSettings \<Rightarrow> EnsureSsoUserResponse sso_proc" where
  "ensure_insert ent n password h x =
     follow (perform (createUser (ent_id ent) \<lparr>nu_name = n, nu_hash = fst h, nu_salt = snd h,
       nu_email = n @ ''@'' @ sx_emailDomain x, nu_role = ''user'', nu_pool = False\<rparr>)) (\<lambda>u.
     follow (perform (appendUserEvent (ent_id ent) ''create'' u)) (\<lambda>_.
     Give \<lparr>en_user = toDto u, en_password = Some password, en_created = True\<rparr>))"

text \<open>
  An attempt from the hashing on, with the name and the password chosen; \<open>again\<close> is the next attempt. After
  the pause the identity and the name are looked up again, at once before the insertion.
\<close>

definition ensure_reserve :: "EnsureSsoUserResponse sso_proc \<Rightarrow> SsoEnterprise \<Rightarrow> string \<Rightarrow> string option \<Rightarrow> SsoSettings \<Rightarrow> string \<Rightarrow> string \<Rightarrow>
    EnsureSsoUserResponse sso_proc" where
  "ensure_reserve again ent identity preferred x n password =
     follow (hashPassword password) (\<lambda>h.
     follow (look (find_existing ent identity preferred)) (\<lambda>raced. case raced of Some u \<Rightarrow> existingEnsureUserResult ent u | None \<Rightarrow>
     follow (look (getUser (ent_id ent) n)) (\<lambda>taken. if taken \<noteq> None then again else ensure_insert ent n password h x)))"

primrec ensure_attempts :: "nat \<Rightarrow> SsoEnterprise \<Rightarrow> string \<Rightarrow> string option \<Rightarrow> EnsureSsoUserResponse sso_proc" where
  "ensure_attempts 0 ent identity preferred =
     Raise (SsoError (''Could not reserve an SSO user name for \"'' @ identity @ ''\" because it was taken concurrently. Retry the request.''))"
| "ensure_attempts (Suc left) ent identity preferred =
     follow (look (find_existing ent identity preferred)) (\<lambda>existing. case existing of Some u \<Rightarrow> existingEnsureUserResult ent u | None \<Rightarrow>
     follow (runtime_settings ent) (\<lambda>x.
     follow (look (nextAvailableSsoUser (ent_id ent) (ensure_base ent identity preferred) (sx_userPrefix x))) (\<lambda>n.
     follow (reading (resolveInitialPassword ent n None)) (\<lambda>password.
     ensure_reserve (ensure_attempts left ent identity preferred) ent identity preferred x n password))))"

definition ENSURE_USER_ATTEMPTS :: nat where "ENSURE_USER_ATTEMPTS = 3"

definition ensureUser :: "SsoEnterprise \<Rightarrow> string \<Rightarrow> string option \<Rightarrow> EnsureSsoUserResponse sso_proc" where
  "ensureUser ent identity preferred = ensure_attempts ENSURE_USER_ATTEMPTS ent identity preferred"

record CreateSsoUserInput =
  ci_name :: string
  ci_password :: "string option"
  ci_email :: "string option"
  ci_role :: "string option"
  ci_pool :: bool

definition createSsoUser :: "SsoEnterprise \<Rightarrow> CreateSsoUserInput \<Rightarrow> SsoUserDto sso_proc" where
  "createSsoUser ent inp =
     (let n = sanitizeSsoUser (ci_name inp) in
      follow (demand (n \<noteq> []) (SsoError ''ssoUser is required'')) (\<lambda>_.
      follow (assertSsoUserAvailable ent n) (\<lambda>_.
      follow (demand (\<not> (ci_pool inp \<and> ci_role inp \<noteq> None \<and> ci_role inp \<noteq> Some ''user'')) (SsoError ''Pool users must have the user role.'')) (\<lambda>_.
      follow (reading (if ci_pool inp then resolvePoolManagedPassword ent n (ci_password inp) else resolveInitialPassword ent n (ci_password inp))) (\<lambda>password.
      follow (hashPassword password) (\<lambda>h.
      follow (assertSsoUserAvailable ent n) (\<lambda>_.
      follow (runtime_settings ent) (\<lambda>x.
      follow (perform (createUser (ent_id ent) \<lparr>nu_name = n, nu_hash = fst h, nu_salt = snd h,
        nu_email = (if given (ci_email inp) then the (ci_email inp) else n @ ''@'' @ sx_emailDomain x),
        nu_role = or_else (ci_role inp) ''user'', nu_pool = ci_pool inp\<rparr>)) (\<lambda>u.
      follow (perform (appendUserEvent (ent_id ent) ''create'' u)) (\<lambda>_.
      Give (toDto u)))))))))))"

record PatchSsoUserInput =
  pi_password :: "string option"
  pi_email :: "string option"
  pi_role :: "string option"

definition patchSsoUser :: "SsoEnterprise \<Rightarrow> string \<Rightarrow> PatchSsoUserInput \<Rightarrow> SsoUserDto option sso_proc" where
  "patchSsoUser ent n inp =
     follow (perform (assertNotLocallyPoolManaged (ent_id ent) n)) (\<lambda>_.
     follow (if given (pi_password inp) then follow (hashPassword (the (pi_password inp))) (\<lambda>h. Give (Some h)) else Give None) (\<lambda>h.
     follow (perform (updateUser (ent_id ent) n \<lparr>up_email = pi_email inp, up_role = pi_role inp, up_password = h\<rparr>)) (\<lambda>u.
     Give (map_option toDto u))))"

definition getSsoUserCapacity :: "string \<Rightarrow> SsoSettings \<Rightarrow> sso_state \<Rightarrow> int \<times> int option \<times> int option \<times> bool" where
  "getSsoUserCapacity e x s =
     (let current = int (countUsers e s); limit = sx_maxSsoUsers x in
      (current, limit, map_option (\<lambda>l. max 0 (l - current)) limit, (case limit of None \<Rightarrow> False | Some l \<Rightarrow> l \<le> current)))"

section \<open>Copilot seats\<close>

text \<open>\<open>recordSeatMutationFailure\<close>: a confirmed state is kept beside the error, any other becomes the failure.\<close>

definition recordSeatMutationFailure :: "SsoEnterprise \<Rightarrow> SsoUserRecord \<Rightarrow> seat_operation \<Rightarrow> sso_error \<Rightarrow> unit sso_proc" where
  "recordSeatMutationFailure ent u op err =
     (if su_seat u \<in> {SeatAssigned, SeatPendingCancellation, SeatUnassigned}
      then perform (recordCopilotSeatError (ent_id ent) (su_name u) op (errorMessage err))
      else follow (perform (updateCopilotSeat (ent_id ent) (su_name u) (if op = SeatAssign then SeatAssignFailed else SeatRemoveFailed)
        None op (Some (errorMessage err)))) (\<lambda>_. Give ()))"

definition isSeatChangeConfirmed :: "seat_operation \<Rightarrow> CopilotSeatSnapshot \<Rightarrow> bool" where
  "isSeatChangeConfirmed op seat = (if op = SeatAssign then snapshot_status seat = SeatAssigned else snapshot_status seat \<noteq> SeatAssigned)"

fun operation_text :: "seat_operation \<Rightarrow> string" where
  "operation_text SeatAssign = ''assign''"
| "operation_text SeatRemove = ''remove''"

fun seat_text :: "CopilotSeatSnapshot \<Rightarrow> string" where
  "seat_text AssignedSeat = ''assigned''"
| "seat_text UnassignedSeat = ''unassigned''"
| "seat_text (PendingSeat d) = ''pending_cancellation''"

definition confirmSeatMutation :: "SsoEnterprise \<Rightarrow> SsoUserRecord \<Rightarrow> string \<Rightarrow> seat_operation \<Rightarrow> SsoUserRecord sso_proc" where
  "confirmSeatMutation ent u login op =
     follow (attempt (getCopilotSeatAssignment ent login) (\<lambda>err.
       let message = ''GitHub accepted the Copilot seat '' @ operation_text op @ '' request, but seat status/date synchronization failed: '' @
         errorMessage err @ '' Previous confirmed state was kept. Import from GH to confirm.''
       in follow (perform (recordCopilotSeatError (ent_id ent) (su_name u) op message)) (\<lambda>_. Raise (SsoError message)))) (\<lambda>seat.
     follow (perform (updateCopilotSeat (ent_id ent) (su_name u) (snapshot_status seat) (snapshot_date seat) op None)) (\<lambda>updated.
     if isSeatChangeConfirmed op seat then Give updated
     else let message = ''GitHub accepted the Copilot seat '' @ operation_text op @ '' request, but the direct seat is still '' @ seat_text seat @
         ''. The requested change is not yet confirmed; Import from GH or retry to check its state.''
       in follow (perform (recordCopilotSeatError (ent_id ent) (su_name u) op message)) (\<lambda>_. Raise (SsoError message))))"

definition assignCopilotSeatForUser :: "SsoEnterprise \<Rightarrow> SsoUserRecord \<Rightarrow> string option \<Rightarrow> SsoUserRecord sso_proc" where
  "assignCopilotSeatForUser ent u ghLogin =
     (case ghLogin of
        Some login \<Rightarrow>
          if js_trim login \<noteq> []
          then follow (attempt (assignCopilotSeat ent login) (\<lambda>err. follow (recordSeatMutationFailure ent u SeatAssign err) (\<lambda>_. Raise err)))
            (\<lambda>_. confirmSeatMutation ent u login SeatAssign)
          else follow (perform (updateCopilotSeat (ent_id ent) (su_name u) SeatAssignFailed None SeatAssign
              (Some (''SSO user \"'' @ su_name u @ ''\" is not synced to a GH login.''))))
            (\<lambda>_. Raise (SsoError (''SSO user \"'' @ su_name u @ ''\" is not synced to a GH login.'')))
      | None \<Rightarrow> follow (perform (updateCopilotSeat (ent_id ent) (su_name u) SeatAssignFailed None SeatAssign
              (Some (''SSO user \"'' @ su_name u @ ''\" is not synced to a GH login.''))))
            (\<lambda>_. Raise (SsoError (''SSO user \"'' @ su_name u @ ''\" is not synced to a GH login.''))))"

record CopilotSeatRemovalOutcome =
  ro_user :: SsoUserRecord
  ro_warning :: "string option"

definition unassign :: "SsoEnterprise \<Rightarrow> SsoUserRecord \<Rightarrow> string option \<Rightarrow> CopilotSeatRemovalOutcome sso_proc" where
  "unassign ent u warning =
     follow (perform (updateCopilotSeat (ent_id ent) (su_name u) SeatUnassigned None SeatRemove None)) (\<lambda>updated.
     Give \<lparr>ro_user = updated, ro_warning = warning\<rparr>)"

text \<open>The code after the request: a seat that did not exist is a warning, another failure is recorded.\<close>

definition removeCopilotSeatForUser :: "SsoEnterprise \<Rightarrow> SsoUserRecord \<Rightarrow> CopilotSeatRemovalOutcome sso_proc" where
  "removeCopilotSeatForUser ent u =
     (if \<not> given (su_ghLogin u) then unassign ent u None
      else let login = the (su_ghLogin u) in
        follow (attempt (follow (removeCopilotSeat ent login) (\<lambda>_. Give None)) (\<lambda>err.
          case err of
            CopilotSeatNotAssignedError l status \<Rightarrow>
              Give (Some (''GitHub user \"'' @ login @ ''\" has no Copilot seat; seat removal was skipped.''))
          | _ \<Rightarrow> follow (recordSeatMutationFailure ent u SeatRemove err) (\<lambda>_. Raise err))) (\<lambda>missing.
        case missing of
          Some warning \<Rightarrow> unassign ent u (Some warning)
        | None \<Rightarrow> follow (confirmSeatMutation ent u login SeatRemove) (\<lambda>updated. Give \<lparr>ro_user = updated, ro_warning = None\<rparr>)))"

section \<open>Destructive operations\<close>

definition deleteSsoUser :: "SsoEnterprise \<Rightarrow> string \<Rightarrow> (bool \<times> string option) sso_proc" where
  "deleteSsoUser ent n =
     follow (look (getUser (ent_id ent) n)) (\<lambda>found.
       case found of
         None \<Rightarrow> Give (False, None)
       | Some u \<Rightarrow>
           follow (assertDestructiveOperationAllowed ent u) (\<lambda>_.
           follow (removeCopilotSeatForUser ent u) (\<lambda>seatRemoval.
           follow (deleteProvisionedUser ent u) (\<lambda>_.
           follow (deleteProxyAccountsBySsoUser (ent_id ent) (su_name u)) (\<lambda>_.
           follow (perform (deleteUser (ent_id ent) n)) (\<lambda>deleted.
           follow (if deleted then perform (appendUserEvent (ent_id ent) ''delete'' u) else Give ()) (\<lambda>_.
           Give (deleted, ro_warning seatRemoval))))))))"

definition suspendSsoUser :: "SsoEnterprise \<Rightarrow> string \<Rightarrow> SsoUserDto sso_proc" where
  "suspendSsoUser ent n =
     follow (requireUser ent n) (\<lambda>u.
     follow (assertDestructiveOperationAllowed ent u) (\<lambda>_.
     follow (demand (given (su_ghScimId u)) (SsoError (''SSO user \"'' @ n @ ''\" is not synced to a GH login.''))) (\<lambda>_.
     follow (suspendUser ent (the (su_ghScimId u))) (\<lambda>_.
     follow (perform (updateEmu (ent_id ent) n (su_ghLogin u) (su_ghScimId u) EmuSuspended)) (\<lambda>updated. Give (toDto updated))))))"

record SsoUserOperationOutcome =
  oc_user :: "SsoUserDto option"
  oc_warning :: "string option"

definition deleteEmuUser :: "SsoEnterprise \<Rightarrow> string \<Rightarrow> SsoUserOperationOutcome sso_proc" where
  "deleteEmuUser ent n =
     follow (requireUser ent n) (\<lambda>u.
     follow (assertDestructiveOperationAllowed ent u) (\<lambda>_.
     follow (removeCopilotSeatForUser ent u) (\<lambda>seatRemoval.
     follow (deleteProvisionedUser ent u) (\<lambda>_.
     follow (perform (updateEmu (ent_id ent) n None None EmuNotSynced)) (\<lambda>_.
     follow (perform (updateCopilotSeat (ent_id ent) n SeatUnassigned None SeatRemove None)) (\<lambda>updated.
     Give \<lparr>oc_user = Some (toDto updated), oc_warning = ro_warning seatRemoval\<rparr>))))))"

definition removeCopilotSeatForSsoUser :: "SsoEnterprise \<Rightarrow> string \<Rightarrow> SsoUserOperationOutcome sso_proc" where
  "removeCopilotSeatForSsoUser ent n =
     follow (requireUser ent n) (\<lambda>u.
     follow (assertDestructiveOperationAllowed ent u) (\<lambda>_.
     follow (removeCopilotSeatForUser ent u) (\<lambda>r. Give \<lparr>oc_user = Some (toDto (ro_user r)), oc_warning = ro_warning r\<rparr>)))"

section \<open>Synchronisation\<close>

definition enterpriseRoleForSsoUser :: "SsoUserRecord \<Rightarrow> scim_role" where
  "enterpriseRoleForSsoUser u = (if su_role u = ''admin'' then RoleEnterpriseOwner else RoleUser)"

definition syncSsoUser :: "SsoEnterprise \<Rightarrow> string \<Rightarrow> scim_role option \<Rightarrow> bool \<Rightarrow> bool \<Rightarrow> SsoUserDto sso_proc" where
  "syncSsoUser ent n role assignSeat createOnly =
     follow (requireUser ent n) (\<lambda>u.
       let resolved = or_else role (enterpriseRoleForSsoUser u) in
       follow (look (isPoolManagedSsoUser (ent_id ent) (su_name u))) (\<lambda>managed.
       follow (demand (\<not> (managed \<and> (\<not> createOnly \<or> resolved \<noteq> RoleUser))) PoolMemberManagedError) (\<lambda>_.
       follow (syncUser ent u resolved createOnly) (\<lambda>p.
       follow (perform (updateEmu (ent_id ent) n (Some (pr_ghLogin p)) (Some (pr_scimId p)) EmuActive)) (\<lambda>updated.
       follow (if assignSeat then assignCopilotSeatForUser ent updated (Some (pr_ghLogin p)) else Give updated) (\<lambda>synced.
       Give (toDto synced)))))))"

definition assignCopilotSeatForSsoUser :: "SsoEnterprise \<Rightarrow> string \<Rightarrow> SsoUserDto sso_proc" where
  "assignCopilotSeatForSsoUser ent n =
     follow (requireUser ent n) (\<lambda>u. follow (assignCopilotSeatForUser ent u (su_ghLogin u)) (\<lambda>updated. Give (toDto updated)))"

end
