(* ===== verification/Sso_Requests.thy ===== *)
theory Sso_Requests
  imports Sso_Service
begin

text \<open>
  The requests that the single sign-on service answers: batches of operations on users
  (\<^verbatim>\<open>src/sso/src/users/service.ts\<close>), the import of users from text (\<^verbatim>\<open>src/sso/src/users/bulkImport.ts\<close>), the
  hand-out of login credentials and the status of errors (\<^verbatim>\<open>src/sso/src/routes/usersApi.ts\<close>). \<open>program_of\<close> maps a
  request to its asynchronous function; the runs of \<open>service_run\<close> are those of a process that answers any of
  them in any order. The bodies of requests have the types that the code declares for them. Import text is
  read without the byte order mark that may precede it, and lines are appended to the event log without
  failure.
\<close>

section \<open>Batches\<close>

datatype SsoUserBatchOperation = SyncEmu | SuspendEmu | DeleteEmu | DeleteSso | AssignCopilot | RemoveCopilot

record SsoUserBatchRequest =
  bq_operation :: SsoUserBatchOperation
  bq_names :: "string list"
  bq_role :: "scim_role option"
  bq_assign :: "bool option"
  bq_createOnly :: "bool option"

record SsoUserBatchRow =
  br_name :: string
  br_success :: bool
  br_detail :: string
  br_warning :: "string option"
  br_user :: "SsoUserDto option"

definition runSsoUserBatchRow :: "SsoEnterprise \<Rightarrow> string \<Rightarrow> SsoUserBatchRequest \<Rightarrow> SsoUserOperationOutcome sso_proc" where
  "runSsoUserBatchRow ent n q =
     (let user = (\<lambda>p. follow p (\<lambda>u. Give \<lparr>oc_user = Some u, oc_warning = None\<rparr>)) in
      case bq_operation q of
        SyncEmu \<Rightarrow> user (syncSsoUser ent n (bq_role q) (bq_assign q = Some True) (bq_createOnly q = Some True))
      | AssignCopilot \<Rightarrow> user (assignCopilotSeatForSsoUser ent n)
      | RemoveCopilot \<Rightarrow> removeCopilotSeatForSsoUser ent n
      | SuspendEmu \<Rightarrow> user (suspendSsoUser ent n)
      | DeleteEmu \<Rightarrow> deleteEmuUser ent n
      | DeleteSso \<Rightarrow> follow (deleteSsoUser ent n) (\<lambda>(deleted, warning).
          if \<not> deleted then Raise (SsoError (''SSO user \"'' @ n @ ''\" was not found.''))
          else Give \<lparr>oc_user = None, oc_warning = warning\<rparr>))"

definition batchSuccessDetail :: "SsoUserBatchRequest \<Rightarrow> SsoUserDto option \<Rightarrow> string" where
  "batchSuccessDetail q user =
     (case bq_operation q of
        SyncEmu \<Rightarrow> (if bq_assign q = Some True then ''Synced to EMU and assigned Copilot seat.'' else ''Synced to EMU.'')
      | AssignCopilot \<Rightarrow> ''Assigned Copilot seat.''
      | RemoveCopilot \<Rightarrow>
          (case user of
             Some u \<Rightarrow> if su_seat u = SeatPendingCancellation
               then ''Direct Copilot seat: cancell at '' @ or_else (su_seat_date u) ''undefined'' @ ''.''
               else ''No enterprise direct Copilot seat is assigned.''
           | None \<Rightarrow> ''No enterprise direct Copilot seat is assigned.'')
      | SuspendEmu \<Rightarrow> ''Suspended in EMU.''
      | DeleteEmu \<Rightarrow> ''Deleted EMU provisioning data.''
      | DeleteSso \<Rightarrow> ''Deleted local SSO user.'')"

definition runBatchResultRow :: "SsoEnterprise \<Rightarrow> SsoUserBatchRequest \<Rightarrow> string \<Rightarrow> SsoUserBatchRow sso_proc" where
  "runBatchResultRow ent q n =
     attempt (follow (runSsoUserBatchRow ent n q) (\<lambda>outcome.
       Give \<lparr>br_name = n, br_success = True, br_detail = batchSuccessDetail q (oc_user outcome), br_warning = oc_warning outcome, br_user = oc_user outcome\<rparr>))
     (\<lambda>err. Give \<lparr>br_name = n, br_success = False, br_detail = errorMessage err, br_warning = None, br_user = None\<rparr>)"

primrec unique_names :: "string list \<Rightarrow> string list \<Rightarrow> string list" where
  "unique_names seen [] = []"
| "unique_names seen (raw # raws) =
     (let n = js_trim raw; key = lower n in
      if n = [] \<or> key \<in> set seen then unique_names seen raws else n # unique_names (seen @ [key]) raws)"

definition uniqueSsoUsers :: "string list \<Rightarrow> string list" where
  "uniqueSsoUsers names = unique_names [] names"

text \<open>
  \<open>mapWithConcurrency\<close> with one worker, as for every operation but a synchronisation: a row after the other.
\<close>

primrec each_in_turn :: "('a \<Rightarrow> 'b sso_proc) \<Rightarrow> 'a list \<Rightarrow> 'b list sso_proc" where
  "each_in_turn f [] = Give []"
| "each_in_turn f (x # xs) = follow (f x) (\<lambda>r. follow (each_in_turn f xs) (\<lambda>rs. Give (r # rs)))"

record BatchSummary =
  bs_total :: nat
  bs_success :: nat
  bs_warnings :: nat
  bs_failed :: nat

definition batch_summary :: "SsoUserBatchRow list \<Rightarrow> BatchSummary" where
  "batch_summary rows =
     (let failed = length (filter (\<lambda>r. \<not> br_success r) rows)
      in \<lparr>bs_total = length rows, bs_success = length rows - failed, bs_warnings = length (filter (\<lambda>r. given (br_warning r)) rows),
          bs_failed = failed\<rparr>)"

text \<open>
  A batch of synchronisations reads its concurrency from the settings. Here its rows run in turn, which is
  its concurrency one; the rows that run at once with a higher one are requests of their own below.
\<close>

definition batch_settings :: "SsoEnterprise \<Rightarrow> SsoUserBatchRequest \<Rightarrow> unit sso_proc" where
  "batch_settings ent q = (if bq_operation q = SyncEmu then follow (runtime_settings ent) (\<lambda>x. Give ()) else Give ())"

definition runSsoUserBatch :: "SsoEnterprise \<Rightarrow> SsoUserBatchRequest \<Rightarrow> (BatchSummary \<times> SsoUserBatchRow list) sso_proc" where
  "runSsoUserBatch ent q =
     follow (batch_settings ent q) (\<lambda>_.
     follow (each_in_turn (runBatchResultRow ent q) (uniqueSsoUsers (bq_names q))) (\<lambda>rows. Give (batch_summary rows, rows)))"

section \<open>Import of users\<close>

record BulkImportRow =
  bi_line :: nat
  bi_name :: string
  bi_password :: "string option"

record BulkImportError =
  be_line :: nat
  be_name :: "string option"
  be_error :: string

text \<open>The loop of \<open>parseCsvLine\<close> with the value read so far; \<open>None\<close> is the error of a quote left open.\<close>

fun csv_values :: "string \<Rightarrow> string \<Rightarrow> bool \<Rightarrow> string list option" where
  "csv_values [] current quoted = (if quoted then None else Some [current])"
| "csv_values (c # cs) current quoted =
     (if c = QUOTE \<and> quoted \<and> cs \<noteq> [] \<and> hd cs = QUOTE then csv_values (tl cs) (current @ [QUOTE]) quoted
      else if c = QUOTE then csv_values cs current (\<not> quoted)
      else if c = CHR '','' \<and> \<not> quoted then map_option (\<lambda>vs. current # vs) (csv_values cs [] quoted)
      else csv_values cs (current @ [c]) quoted)"

definition parseCsvLine :: "string \<Rightarrow> string list option" where
  "parseCsvLine line = csv_values line [] False"

text \<open>\<open>split(/\r?\n/)\<close>\<close>

fun split_lines :: "string \<Rightarrow> string list" where
  "split_lines [] = [[]]"
| "split_lines (c # cs) =
     (if c = CHR 0x0A then [] # split_lines cs
      else if c = CHR 0x0D \<and> cs \<noteq> [] \<and> hd cs = CHR 0x0A then [] # split_lines (tl cs)
      else (case split_lines cs of [] \<Rightarrow> [[c]] | l # ls \<Rightarrow> (c # l) # ls))"

definition isHeader :: "string list \<Rightarrow> bool" where
  "isHeader vs =
     (let cell = (\<lambda>i. lower (js_trim (vs ! i))); user = (\<lambda>t. t = ''ssouser'' \<or> t = ''sso_user'') in
      if length vs = 1 then user (cell 0) else user (cell 0) \<and> 1 < length vs \<and> cell 1 = ''password'')"

text \<open>
  The loop over the lines. A line of two or more values is compared with the header only if its first value
  is the name of a column, and then has a second one.
\<close>

primrec parse_lines :: "nat \<Rightarrow> bool \<Rightarrow> string list \<Rightarrow> string list \<Rightarrow> BulkImportRow list \<times> BulkImportError list" where
  "parse_lines line headerChecked seen [] = ([], [])"
| "parse_lines line headerChecked seen (raw # raws) =
     (if js_trim raw = [] then parse_lines (Suc line) headerChecked seen raws
      else case parseCsvLine raw of
        None \<Rightarrow> map_prod id (\<lambda>es. \<lparr>be_line = line, be_name = None, be_error = ''Unclosed quoted value''\<rparr> # es)
                  (parse_lines (Suc line) headerChecked seen raws)
      | Some vs \<Rightarrow>
          if \<not> headerChecked \<and> isHeader vs then parse_lines (Suc line) True seen raws
          else if length vs \<noteq> 1 \<and> length vs \<noteq> 2
          then map_prod id (\<lambda>es. \<lparr>be_line = line, be_name = None,
                 be_error = ''Expected one column ssoUser or two columns: ssoUser,password''\<rparr> # es) (parse_lines (Suc line) True seen raws)
          else let n = js_trim (vs ! 0); password = (if length vs = 2 then Some (js_trim (vs ! 1)) else None) in
            if n = [] \<or> password = Some []
            then map_prod id (\<lambda>es. \<lparr>be_line = line, be_name = (if n = [] then None else Some n),
                   be_error = ''SSO user is required and an explicit password must not be empty''\<rparr> # es) (parse_lines (Suc line) True seen raws)
            else if lower n \<in> set seen
            then map_prod id (\<lambda>es. \<lparr>be_line = line, be_name = Some n, be_error = ''Duplicate SSO user \"'' @ n @ ''\" in import text''\<rparr> # es)
                   (parse_lines (Suc line) True seen raws)
            else map_prod (\<lambda>rs. \<lparr>bi_line = line, bi_name = n, bi_password = password\<rparr> # rs) id
                   (parse_lines (Suc line) True (seen @ [lower n]) raws))"

definition parseBulkImportText :: "string \<Rightarrow> BulkImportRow list \<times> BulkImportError list" where
  "parseBulkImportText text = parse_lines 1 False [] (split_lines text)"

record ImportUsersRow =
  iu_line :: nat
  iu_name :: string
  iu_status :: string
  iu_detail :: string

definition importUserRow :: "SsoEnterprise \<Rightarrow> BulkImportRow \<Rightarrow> ImportUsersRow sso_proc" where
  "importUserRow ent row =
     (let result = (\<lambda>status detail. \<lparr>iu_line = bi_line row, iu_name = bi_name row, iu_status = status, iu_detail = detail\<rparr>) in
      attempt
        (follow (look (getUser (ent_id ent) (bi_name row))) (\<lambda>existing.
           if existing \<noteq> None \<and> bi_password row \<noteq> None
           then follow (hashPassword (the (bi_password row))) (\<lambda>h.
             follow (perform (updateUser (ent_id ent) (bi_name row) \<lparr>up_email = None, up_role = None, up_password = Some h\<rparr>)) (\<lambda>updated.
             follow (demand (updated \<noteq> None) (SsoError (''SSO user \"'' @ bi_name row @ ''\" was removed during import.''))) (\<lambda>_.
             Give (result ''updated'' ''Updated password''))))
           else if existing \<noteq> None then Give (result ''unchanged'' ''Existing SSO user password was left unchanged'')
           else follow (createSsoUser ent \<lparr>ci_name = bi_name row, ci_password = bi_password row, ci_email = None, ci_role = None, ci_pool = False\<rparr>)
             (\<lambda>_. Give (result ''created'' ''Created SSO user''))))
        (\<lambda>err. Give (result ''failed'' (errorMessage err))))"

definition importUsers :: "SsoEnterprise \<Rightarrow> string \<Rightarrow> ImportUsersRow list sso_proc" where
  "importUsers ent csvText =
     (let (parsed, errs) = parseBulkImportText csvText in
      follow (each_in_turn (importUserRow ent) parsed) (\<lambda>rows.
      Give (js_sort (\<lambda>a b. int (iu_line a) - int (iu_line b))
        (rows @ map (\<lambda>e. \<lparr>iu_line = be_line e, iu_name = or_else (be_name e) [], iu_status = ''failed'', iu_detail = be_error e\<rparr>) errs))))"

section \<open>Handlers\<close>

text \<open>
  \<open>readOwnership\<close>: the expected creation time and address. The time is compared as text: it is the instant
  whose text the service would have stored, or \<open>None\<close> for a timestamp of another form, which equals none.
\<close>

record Ownership =
  ow_createdAt :: "int option"
  ow_email :: string

definition isEligibleOwner :: "SsoUserRecord \<Rightarrow> string \<Rightarrow> Ownership \<Rightarrow> bool" where
  "isEligibleOwner u n ow \<longleftrightarrow>
     su_name u = n \<and> su_role u = ''user'' \<and> Some (su_created u) = ow_createdAt ow \<and> su_email u = ow_email ow \<and>
     su_emu u \<noteq> EmuSuspended \<and> su_emu u \<noteq> EmuDeleted"

definition loginCredentialsHandler :: "SsoEnterprise \<Rightarrow> string \<Rightarrow> Ownership option \<Rightarrow> (int \<times> (SsoUserDto \<times> string) option) sso_proc" where
  "loginCredentialsHandler ent n ownership =
     (case ownership of
        None \<Rightarrow> Give (400, None)
      | Some ow \<Rightarrow>
          follow (look (getUser (ent_id ent) n)) (\<lambda>found.
            case found of
              None \<Rightarrow> Give (404, None)
            | Some u \<Rightarrow>
                if \<not> isEligibleOwner u n ow then Give (409, None)
                else follow (knownDefaultPasswordForUserAsync ent u) (\<lambda>password.
                  Give (case password of None \<Rightarrow> (409, None) | Some p \<Rightarrow> (200, Some (toDto u, p))))))"

fun operation_error_status :: "sso_error \<Rightarrow> int" where
  "operation_error_status PoolMemberManagedError = 409"
| "operation_error_status PoolMembershipUnavailableError = 503"
| "operation_error_status (SecretError m) = 503"
| "operation_error_status _ = 400"

fun create_error_status :: "sso_error \<Rightarrow> int" where
  "create_error_status (SsoUserLimitReachedError current limit) = 409"
| "create_error_status _ = 400"

section \<open>The service\<close>

datatype sso_request =
    EnsureRequest SsoEnterprise string "string option"
  | CreateRequest SsoEnterprise CreateSsoUserInput
  | PatchRequest SsoEnterprise string PatchSsoUserInput
  | BatchRequest SsoEnterprise SsoUserBatchRequest
  | BatchRowRequest SsoEnterprise SsoUserBatchRequest string
  | ImportRequest SsoEnterprise string
  | AssignSeatRequest SsoEnterprise string
  | RemoveSeatRequest SsoEnterprise string
  | CredentialsRequest SsoEnterprise string "Ownership option"

definition answered_with :: "'r sso_proc \<Rightarrow> unit sso_proc" where
  "answered_with p = follow p (\<lambda>_. Give ())"

text \<open>
  A row of a batch that runs beside others is a request of its own; so is every row of a batch of
  synchronisations when its concurrency is above one.
\<close>

fun program_of :: "sso_request \<Rightarrow> unit sso_proc" where
  "program_of (EnsureRequest ent identity preferred) = answered_with (ensureUser ent identity preferred)"
| "program_of (CreateRequest ent inp) = answered_with (createSsoUser ent inp)"
| "program_of (PatchRequest ent n inp) = answered_with (patchSsoUser ent n inp)"
| "program_of (BatchRequest ent q) = answered_with (runSsoUserBatch ent q)"
| "program_of (BatchRowRequest ent q n) = answered_with (runBatchResultRow ent q n)"
| "program_of (ImportRequest ent text) = answered_with (importUsers ent text)"
| "program_of (AssignSeatRequest ent n) = answered_with (assignCopilotSeatForSsoUser ent n)"
| "program_of (RemoveSeatRequest ent n) = answered_with (removeCopilotSeatForSsoUser ent n)"
| "program_of (CredentialsRequest ent n ow) = answered_with (loginCredentialsHandler ent n ow)"

text \<open>\<open>insertRuntimeSettingsIfMissing\<close>: the settings of an enterprise that has none yet.\<close>

definition seeded_settings :: "int \<Rightarrow> string \<Rightarrow> string \<Rightarrow> SsoSettings" where
  "seeded_settings now userPrefix emailDomain =
     \<lparr>sx_maxSsoUsers = None, sx_userPrefix = userPrefix, sx_emailDomain = emailDomain, sx_bulkSyncConcurrency = 3,
      sx_scimRequestDelayMs = 250, sx_scimMaxRetries = 3, sx_scimRetryBaseDelayMs = 1000, sx_version = 1, sx_updatedAt = now\<rparr>"

definition insertRuntimeSettingsIfMissing :: "string \<Rightarrow> string \<Rightarrow> string \<Rightarrow> sso_state \<Rightarrow> sso_state" where
  "insertRuntimeSettingsIfMissing e userPrefix emailDomain s =
     (if map_of (settings_rows s) e \<noteq> None then s
      else s\<lparr>settings_rows := settings_rows s @ [(e, seeded_settings (sso_now s) userPrefix emailDomain)]\<rparr>)"

text \<open>
  What happens beside the requests: an edit of the settings of an enterprise, time that passes, a secret that
  is rotated, a restart, which forgets what the process had in memory and gives new enterprises their
  settings (the functions that waited are answered no more), and the writes of an import from GitHub
  (\<^verbatim>\<open>src/sso/src/users/emuImportApply.ts\<close>), which runs in one transaction, here a write at a time with any data.
  The rows of its plan have different names, and a row that creates a user is applied only when there is no
  user of the name.
\<close>

inductive beside :: "sso_state \<Rightarrow> sso_state \<Rightarrow> bool" where
  edit: "beside s (snd (updateSsoRuntimeSettings e request s))"
| tick: "sso_now s \<le> now \<Longrightarrow> beside s (s\<lparr>sso_now := now\<rparr>)"
| rotate: "beside s (s\<lparr>secrets := sec\<rparr>)"
| restart: "beside s (s\<lparr>snapshots := (\<lambda>_. None), scim_slots := (\<lambda>_. 0)\<rparr>)"
| registered: "beside s (insertRuntimeSettingsIfMissing e userPrefix emailDomain s)"
| import_create: "getUser e (nu_name inp) s = None \<Longrightarrow> \<not> nu_pool inp \<Longrightarrow> beside s (snd (createUser e inp s))"
| import_update: "beside s (snd (updateUser e n patch s))"
| import_emu: "beside s (snd (updateEmu e n login scim status s))"
| import_seat: "beside s (snd (updateCopilotSeatFromGitHub e n seat s))"
| import_event: "beside s (snd (appendUserEvent e action u s))"

definition service_run :: "sso_state \<Rightarrow> (sso_state, sso_call, sso_answer, sso_error, unit) process \<Rightarrow> bool" where
  "service_run s w \<longleftrightarrow> loop_run (range program_of) beside s w"

end
