(* ===== verification/Sso_Invariant.thy ===== *)
theory Sso_Invariant
  imports Sso_Requests
begin

text \<open>
  What the user directory of the single sign-on service keeps, whatever operation is applied to it: names
  are unique up to case, marks belong to users, the snapshots of settings are those of the rows, a date of
  cancellation belongs to a pending one (\<open>users_inv\<close>); and users of the pool keep what identifies them and
  lets them sign in (\<open>kept\<close>). The programs of the service are then safe by the rules of the locale
  \<open>interference\<close>.
\<close>

section \<open>Definitions\<close>

definition user_key :: "string \<times> SsoUserRecord \<Rightarrow> string \<times> string" where
  "user_key r = (fst r, lower (su_name (snd r)))"

definition exact_key :: "string \<times> SsoUserRecord \<Rightarrow> string \<times> string" where
  "exact_key r = (fst r, su_name (snd r))"

definition dated :: "SsoUserRecord \<Rightarrow> bool" where
  "dated u \<longleftrightarrow> (su_seat_date u \<noteq> None \<longleftrightarrow> su_seat u = SeatPendingCancellation)"

definition settings_known :: "sso_state \<Rightarrow> bool" where
  "settings_known s \<longleftrightarrow> distinct (map fst (settings_rows s)) \<and>
     (\<forall>e x. snapshots s e = Some x \<longrightarrow> map_of (settings_rows s) e = Some x)"

definition users_inv :: "sso_state \<Rightarrow> bool" where
  "users_inv s \<longleftrightarrow> distinct (map user_key (sso_users s)) \<and> distinct (pool_marks s) \<and>
     set (pool_marks s) \<subseteq> exact_key ` set (sso_users s) \<and> settings_known s \<and> (\<forall>r \<in> set (sso_users s). dated (snd r))"

text \<open>What identifies a user and lets it sign in.\<close>

definition identity_of :: "SsoUserRecord \<Rightarrow> string \<times> string \<times> string \<times> int \<times> string \<times> string" where
  "identity_of u = (su_name u, su_email u, su_role u, su_created u, su_hash u, su_salt u)"

definition kept :: "sso_state \<Rightarrow> sso_state \<Rightarrow> bool" where
  "kept s t \<longleftrightarrow> set (pool_marks s) \<subseteq> set (pool_marks t) \<and>
     (\<forall>r \<in> set (sso_users s). exact_key r \<in> set (pool_marks s) \<longrightarrow>
        (\<exists>r' \<in> set (sso_users t). fst r' = fst r \<and> identity_of (snd r') = identity_of (snd r)))"

text \<open>A bound on the users of one enterprise, which its settings impose.\<close>

definition in_bound :: "(string \<times> int) option \<Rightarrow> sso_state \<Rightarrow> bool" where
  "in_bound b s \<longleftrightarrow> (\<forall>e l. b = Some (e, l) \<longrightarrow> int (countUsers e s) \<le> l \<and>
     (\<exists>x k. map_of (settings_rows s) e = Some x \<and> sx_maxSsoUsers x = Some k \<and> k \<le> l))"

definition svc_inv :: "(string \<times> int) option \<Rightarrow> sso_state \<Rightarrow> bool" where
  "svc_inv b s \<longleftrightarrow> users_inv s \<and> in_bound b s"

definition moves :: "(string \<times> int) option \<Rightarrow> sso_state \<Rightarrow> sso_state \<Rightarrow> bool" where
  "moves b s t \<longleftrightarrow> (svc_inv b s \<longrightarrow> svc_inv b t \<and> kept s t)"

section \<open>Relations between states\<close>

lemma users_kept_refl [simp]: "kept s s"
  by (auto simp: kept_def)

lemma users_kept_trans: "kept s t \<Longrightarrow> kept t u \<Longrightarrow> kept s u"
proof -
  assume st: "kept s t" and tu: "kept t u"
  have "\<exists>r'' \<in> set (sso_users u). fst r'' = fst r \<and> identity_of (snd r'') = identity_of (snd r)"
    if r: "r \<in> set (sso_users s)" "exact_key r \<in> set (pool_marks s)" for r
  proof -
    obtain r' where r': "r' \<in> set (sso_users t)" "fst r' = fst r" "identity_of (snd r') = identity_of (snd r)"
      using st r by (auto simp: kept_def)
    then have "exact_key r' = exact_key r" by (simp add: exact_key_def identity_of_def)
    then have "exact_key r' \<in> set (pool_marks t)" using st r(2) by (auto simp: kept_def)
    then show ?thesis using tu r' unfolding kept_def by metis
  qed
  then show ?thesis using st tu by (auto simp: kept_def)
qed

lemma moves_refl: "moves b s s"
  by (simp add: moves_def)

lemma moves_trans: "moves b s t \<Longrightarrow> moves b t u \<Longrightarrow> moves b s u"
  using users_kept_trans by (auto simp: moves_def)

lemma moves_inv: "moves b s t \<Longrightarrow> svc_inv b s \<Longrightarrow> svc_inv b t"
  by (simp add: moves_def)

lemma in_bound_le:
  assumes "settings_rows t = settings_rows s" and "\<And>e. countUsers e t \<le> countUsers e s" and "in_bound b s"
  shows "in_bound b t"
  using assms(1,3) order_trans [OF of_nat_mono [OF assms(2)]] by (auto simp: in_bound_def)

text \<open>Operations that leave the tables alone.\<close>

lemma moves_same:
  assumes "sso_users t = sso_users s" and "pool_marks t = pool_marks s" and "settings_rows t = settings_rows s"
    and "settings_known s \<Longrightarrow> settings_known t"
  shows "moves b s t"
  using assms by (auto simp: moves_def svc_inv_def users_inv_def in_bound_def countUsers_def kept_def)

lemma user_key_names: "names_user e n r \<longleftrightarrow> user_key r = (e, lower n)"
  by (cases r) (auto simp: names_user_def user_key_def)

lemma exact_user_key: "exact_key r = exact_key r' \<Longrightarrow> user_key r = user_key r'"
  by (simp add: exact_key_def user_key_def)

text \<open>Writing fields of the rows that a name denotes.\<close>

lemma moves_write:
  assumes name: "\<And>u. su_name (f u) = su_name u" and date: "\<And>u. dated u \<Longrightarrow> dated (f u)"
    and unmarked: "svc_inv b s \<Longrightarrow> (\<And>r. r \<in> set (sso_users s) \<Longrightarrow> names_user e n r \<Longrightarrow> exact_key r \<in> set (pool_marks s) \<Longrightarrow>
      identity_of (f (snd r)) = identity_of (snd r))"
  shows "moves b s (write_users e n f s)"
  unfolding moves_def
proof
  let ?t = "write_users e n f s"
  assume inv: "svc_inv b s"
  have users: "sso_users ?t = update_where (names_user e n) (\<lambda>r. (fst r, f (snd r))) (sso_users s)"
    and same: "pool_marks ?t = pool_marks s" "settings_rows ?t = settings_rows s" "snapshots ?t = snapshots s"
    by (simp_all add: write_users_def)
  have keys: "map user_key (sso_users ?t) = map user_key (sso_users s)" "map exact_key (sso_users ?t) = map exact_key (sso_users s)"
    unfolding users by (simp_all add: map_update_where user_key_def exact_key_def name)
  have "exact_key ` set (sso_users ?t) = exact_key ` set (sso_users s)" using keys(2) by (metis set_map)
  moreover have "\<forall>r \<in> set (sso_users ?t). dated (snd r)"
    using inv date unfolding users by (auto simp: rows svc_inv_def users_inv_def)
  ultimately have "users_inv ?t" using inv keys(1) same by (simp add: svc_inv_def users_inv_def settings_known_def)
  moreover have "countUsers x ?t = countUsers x s" for x
    unfolding countUsers_def count_rows_def users by (rule filter_update_where) simp
  ultimately have "svc_inv b ?t" using inv same by (simp add: svc_inv_def in_bound_def)
  moreover have "kept s ?t"
    unfolding kept_def users same
  proof (intro conjI ballI impI)
    fix r
    assume r: "r \<in> set (sso_users s)" "exact_key r \<in> set (pool_marks s)"
    show "\<exists>r' \<in> set (update_where (names_user e n) (\<lambda>r. (fst r, f (snd r))) (sso_users s)).
        fst r' = fst r \<and> identity_of (snd r') = identity_of (snd r)"
      by (rule bexI [of _ "if names_user e n r then (fst r, f (snd r)) else r"]) (use r unmarked [OF inv r(1)] in \<open>auto simp: rows\<close>)
  qed simp
  ultimately show "svc_inv b ?t \<and> kept s ?t" ..
qed

lemma moves_write_fields:
  assumes "\<And>u. identity_of (f u) = identity_of u" and "\<And>u. dated u \<Longrightarrow> dated (f u)"
  shows "moves b s (write_users e n f s)"
  using assms by (intro moves_write) (simp_all add: identity_of_def)

lemma moves_updateEmu: "moves b s (snd (updateEmu e n login scim status s))"
  by (auto simp: updateEmu_def Let_def identity_of_def dated_def intro!: moves_write_fields)

lemma moves_updateCopilotSeat:
  "status = SeatPendingCancellation \<longrightarrow> date \<noteq> None \<Longrightarrow> moves b s (snd (updateCopilotSeat e n status date op err s))"
  by (auto simp: updateCopilotSeat_def Let_def identity_of_def dated_def intro!: moves_write_fields)

lemma snapshot_dated: "snapshot_date seat \<noteq> None \<longleftrightarrow> snapshot_status seat = SeatPendingCancellation"
  by (cases seat) auto

lemma moves_updateCopilotSeatFromGitHub: "moves b s (snd (updateCopilotSeatFromGitHub e n seat s))"
  unfolding updateCopilotSeatFromGitHub_def Let_def snd_conv
  using snapshot_dated [of seat] by (intro moves_write_fields) (simp_all add: identity_of_def dated_def)

lemma moves_recordCopilotSeatError: "moves b s (snd (recordCopilotSeatError e n op message s))"
  by (auto simp: recordCopilotSeatError_def moves_refl identity_of_def dated_def intro!: moves_write_fields)

lemma getUser_Some: "getUser e n s = Some u \<Longrightarrow> (e, u) \<in> set (sso_users s) \<and> lower (su_name u) = lower n"
  by (auto simp: getUser_def names_user_def dest!: find_Some_mem)

lemma moves_updateUser: "moves b s (snd (updateUser e n patch s))"
proof (cases "getUser e n s")
  case (Some u)
  show ?thesis
  proof (cases "isPoolManagedSsoUser e (su_name u) s")
    case False
    have "exact_key r \<notin> set (pool_marks s)" if "names_user e n r" for r
      using False that getUser_Some [OF Some] by (auto simp: isPoolManagedSsoUser_def rows names_user_def exact_key_def)
    then show ?thesis using False unfolding updateUser_def by (auto simp: Some Let_def dated_def intro!: moves_write)
  qed (simp add: updateUser_def Some moves_refl)
qed (simp add: updateUser_def moves_refl)

lemma moves_deleteUser: "moves b s (snd (deleteUser e n s))"
proof (cases "isPoolManagedSsoUser e n s")
  case False
  have unmarked: "exact_key r \<notin> set (pool_marks s)" if "names_user e n r" for r
    using False that by (auto simp: isPoolManagedSsoUser_def rows names_user_def exact_key_def)
  let ?t = "s\<lparr>sso_users := filter (\<lambda>r. \<not> names_user e n r) (sso_users s)\<rparr>"
  have "svc_inv b ?t \<and> kept s ?t" if inv: "svc_inv b s"
  proof -
    have "exact_key ` set (sso_users s) - exact_key ` {r \<in> set (sso_users s). names_user e n r} \<subseteq> exact_key ` set (sso_users ?t)" by auto
    then have "set (pool_marks s) \<subseteq> exact_key ` set (sso_users ?t)" using inv unmarked by (fastforce simp: svc_inv_def users_inv_def)
    moreover have count: "countUsers x ?t \<le> countUsers x s" for x
    proof -
      have "filter (\<lambda>r. fst r = x) (sso_users ?t) = filter (\<lambda>r. \<not> names_user e n r) (filter (\<lambda>r. fst r = x) (sso_users s))"
        by (simp add: conj_commute)
      then show ?thesis by (metis countUsers_def count_rows_def length_filter_le)
    qed
    ultimately have "users_inv ?t" using inv by (auto simp: svc_inv_def users_inv_def settings_known_def distinct_map_filterI)
    moreover have "in_bound b ?t"
      by (rule in_bound_le [of _ s]) (use inv count in \<open>simp_all add: svc_inv_def\<close>)
    moreover have "kept s ?t" using unmarked by (auto simp: kept_def)
    ultimately show ?thesis by (simp add: svc_inv_def)
  qed
  then show ?thesis using False by (auto simp: deleteUser_def moves_def moves_refl)
qed (simp add: deleteUser_def moves_refl)

section \<open>Creation\<close>

lemma assertBelowUserLimit_ok:
  "assertBelowUserLimit e s = Inr () \<longleftrightarrow>
     (\<exists>x. map_of (settings_rows s) e = Some x \<and> (\<forall>l. sx_maxSsoUsers x = Some l \<longrightarrow> int (countUsers e s) < l))"
  by (auto simp: assertBelowUserLimit_def readMaxSsoUsers_def split: option.splits)

lemma getUser_append: "getUser e n s = None \<Longrightarrow> getUser e n (s\<lparr>sso_users := sso_users s @ [(e, u)]\<rparr>) = (if lower (su_name u) = lower n then Some u else None)"
  by (auto simp: getUser_def find_append names_user_def split: option.splits)

lemma getUser_marks [simp]: "getUser e n (s\<lparr>pool_marks := ms\<rparr>) = getUser e n s"
  by (simp add: getUser_def)

text \<open>What a creation under a free name does: it is refused and changes nothing, or adds the user, with its mark.\<close>

lemma createUser_cases:
  assumes free: "getUser e (nu_name inp) s = None"
  obtains (refused) x where "createUser e inp s = (Inl x, s)"
  | (created) u where "createUser e inp s = (Inr u, s\<lparr>sso_users := sso_users s @ [(e, u)],
      pool_marks := (if nu_pool inp then pool_marks s @ [(e, nu_name inp)] else pool_marks s)\<rparr>)"
    "u = new_user (sso_now s) inp" "nu_pool inp \<Longrightarrow> (e, nu_name inp) \<notin> set (pool_marks s)"
    "assertBelowUserLimit e s = Inr ()"
proof (cases "assertBelowUserLimit e s")
  case (Inl x)
  then show ?thesis using refused by (simp add: createUser_def)
next
  case (Inr x)
  let ?u = "new_user (sso_now s) inp"
  let ?s1 = "s\<lparr>sso_users := sso_users s @ [(e, ?u)]\<rparr>"
  have new: "getUser e (nu_name inp) ?s1 = Some ?u" using getUser_append [OF free, of ?u] by (simp add: new_user_def)
  have "\<not> exists_row (\<lambda>r. fst r = e \<and> su_name (snd r) = nu_name inp) (sso_users s)"
    using free by (auto simp: getUser_None rows names_user_def)
  then have ins: "insertUser e inp s = Inr ?s1" by (simp add: insertUser_def)
  have row: "exists_row (\<lambda>r. fst r = e \<and> su_name (snd r) = nu_name inp) (sso_users ?s1)" by (simp add: rows new_user_def)
  show ?thesis
  proof (cases "nu_pool inp \<and> (e, nu_name inp) \<in> set (pool_marks s)")
    case True
    then show ?thesis using refused by (simp add: createUser_def Inr ins insertPoolMarker_def)
  next
    case False
    have "createUser e inp s = (Inr ?u, s\<lparr>sso_users := sso_users s @ [(e, ?u)],
      pool_marks := (if nu_pool inp then pool_marks s @ [(e, nu_name inp)] else pool_marks s)\<rparr>)"
      using False new row by (simp add: createUser_def Inr ins insertPoolMarker_def)
    then show ?thesis using False Inr by (intro created) auto
  qed
qed

lemma moves_createUser:
  assumes free: "getUser e (nu_name inp) s = None"
  shows "moves b s (snd (createUser e inp s))"
  using free
proof (cases rule: createUser_cases)
  case (created u)
  let ?t = "s\<lparr>sso_users := sso_users s @ [(e, u)], pool_marks := (if nu_pool inp then pool_marks s @ [(e, nu_name inp)] else pool_marks s)\<rparr>"
  have u: "su_name u = nu_name inp" "dated u" by (simp_all add: created(2) new_user_def dated_def)
  have "svc_inv b ?t \<and> kept s ?t" if inv: "svc_inv b s"
  proof -
    have "user_key (e, u) \<notin> user_key ` set (sso_users s)"
      using free u by (auto simp: getUser_None user_key_names user_key_def)
    then have "users_inv ?t"
      using inv u created(3) by (auto simp: svc_inv_def users_inv_def settings_known_def exact_key_def)
    moreover have "countUsers x ?t = countUsers x s + (if x = e then 1 else 0)" for x
      by (simp add: countUsers_def count_rows_def)
    then have "in_bound b ?t"
      using inv created(4) by (fastforce simp: svc_inv_def in_bound_def assertBelowUserLimit_ok)
    moreover have "kept s ?t" by (auto simp: kept_def)
    ultimately show ?thesis by (simp add: svc_inv_def)
  qed
  then show ?thesis by (simp add: created(1) moves_def)
qed (simp add: moves_refl)

section \<open>The rest of the state\<close>

lemma moves_getSsoRuntimeSettings: "moves b s (snd (getSsoRuntimeSettings e s))"
  by (rule moves_same) (auto simp: getSsoRuntimeSettings_def settings_known_def split: option.splits)

lemma moves_other:
  "moves b s (snd (assertNotLocallyPoolManaged e n s))" "moves b s (snd (appendUserEvent e action u s))"
  "moves b s (snd (take_slot e delay s))"
  by (rule moves_same; simp add: assertNotLocallyPoolManaged_def appendUserEvent_def take_slot_def settings_known_def)+

definition limit_at_most :: "string \<Rightarrow> int \<Rightarrow> sso_state \<Rightarrow> bool" where
  "limit_at_most e l s \<longleftrightarrow>
     (case map_of (settings_rows s) e of None \<Rightarrow> False | Some x \<Rightarrow> (case sx_maxSsoUsers x of None \<Rightarrow> False | Some k \<Rightarrow> k \<le> l))"

lemma in_bound_iff: "in_bound (Some (e, l)) s \<longleftrightarrow> int (countUsers e s) \<le> l \<and> limit_at_most e l s"
  by (auto simp: in_bound_def limit_at_most_def split: option.splits)

lemma in_bound_None [simp]: "in_bound None s"
  by (simp add: in_bound_def)

lemma map_of_update_key:
  "map_of (update_where (\<lambda>r. fst r = e) (\<lambda>r. (e, x)) rs) k = (if k = e then map_option (\<lambda>_. x) (map_of rs e) else map_of rs k)"
  by (induction rs) auto

lemma settings_known_edit:
  assumes "settings_known s"
  shows "settings_known (snd (updateSsoRuntimeSettings e request s))"
proof (cases "updated_settings (sso_now s) e request (map_of (settings_rows s) e)")
  case (Inr x)
  then have "map_of (settings_rows s) e \<noteq> None" by (auto simp: updated_settings_def split: option.splits)
  moreover have "map fst (update_where (\<lambda>r. fst r = e) (\<lambda>r. (e, x)) (settings_rows s)) = map fst (settings_rows s)"
    by (rule map_update_where) simp
  ultimately show ?thesis using assms by (auto simp: updateSsoRuntimeSettings_def Inr settings_known_def map_of_update_key)
qed (use assms in \<open>simp add: updateSsoRuntimeSettings_def\<close>)

text \<open>A new enterprise gets a row of settings, without a limit of users.\<close>

lemma moves_registered:
  assumes "\<And>e' l. b = Some (e', l) \<Longrightarrow> limit_at_most e' l (insertRuntimeSettingsIfMissing e p d s)"
  shows "moves b s (insertRuntimeSettingsIfMissing e p d s)"
proof -
  let ?t = "insertRuntimeSettingsIfMissing e p d s"
  have same: "sso_users ?t = sso_users s" "pool_marks ?t = pool_marks s" "snapshots ?t = snapshots s"
    by (simp_all add: insertRuntimeSettingsIfMissing_def)
  have "settings_known s \<Longrightarrow> settings_known ?t"
    by (auto simp: settings_known_def insertRuntimeSettingsIfMissing_def map_of_eq_None_iff map_add_def split: option.splits)
  then have "users_inv s \<Longrightarrow> users_inv ?t" using same by (simp add: users_inv_def)
  moreover have "in_bound b s \<Longrightarrow> in_bound b ?t"
    using assms same(1) by (cases b) (auto simp: in_bound_iff countUsers_def)
  moreover have "kept s ?t" using same by (auto simp: kept_def)
  ultimately show ?thesis by (simp add: moves_def svc_inv_def)
qed

text \<open>An edit may change the limit of users; the rest leaves the settings alone.\<close>

lemma moves_edit:
  assumes "t = snd (updateSsoRuntimeSettings e request s)" and "\<And>e l. b = Some (e, l) \<Longrightarrow> limit_at_most e l t"
  shows "moves b s t"
proof -
  have same: "sso_users t = sso_users s" "pool_marks t = pool_marks s"
    unfolding assms(1) by (simp_all add: updateSsoRuntimeSettings_def split: sum.split)
  then have "users_inv s \<Longrightarrow> users_inv t" using settings_known_edit assms(1) by (simp add: users_inv_def)
  moreover have "in_bound b s \<Longrightarrow> in_bound b t"
    using assms(2) same(1) by (cases b) (auto simp: in_bound_iff countUsers_def)
  moreover have "kept s t" using same by (auto simp: kept_def)
  ultimately show ?thesis by (simp add: moves_def svc_inv_def)
qed

lemma moves_beside:
  assumes "beside s t" and "\<And>e l. b = Some (e, l) \<Longrightarrow> limit_at_most e l t"
  shows "moves b s t"
  using assms(1)
proof cases
  case (edit e request)
  then show ?thesis using assms(2) by (intro moves_edit)
next
  case (tick now)
  show ?thesis unfolding tick by (rule moves_same) (simp_all add: settings_known_def)
next
  case (rotate sec)
  show ?thesis unfolding rotate by (rule moves_same) (simp_all add: settings_known_def)
next
  case restart
  show ?thesis unfolding restart by (rule moves_same) (simp_all add: settings_known_def)
next
  case (registered e p d)
  then show ?thesis using assms(2) by (auto intro: moves_registered)
qed (simp_all add: moves_createUser moves_updateUser moves_updateEmu moves_updateCopilotSeatFromGitHub moves_other)

end
