(* ===== verification/Sso_Programs.thy ===== *)
theory Sso_Programs
  imports Sso_Invariant
begin

text \<open>
  What the programs of the single sign-on service may do: \<open>admits\<close> for the calls and accesses of each
  function, and \<open>steady\<close> for the functions that create users, which must have found the name free before.
  Every run of the process then keeps the directory (\<open>service_safe\<close>).
\<close>

section \<open>The directory under interference\<close>

interpretation keep: interference "svc_inv b" "moves b" "\<lambda>(m::bool) (s::sso_state) (c::sso_call). True" "\<lambda>m s c (a::sso_answer). m" for b
  by unfold_locales (fact moves_refl, fact moves_trans, fact moves_inv)

definition steady :: "(string \<times> int) option \<Rightarrow> 'r sso_proc \<Rightarrow> bool" where
  "steady b p \<longleftrightarrow> (\<forall>m s. keep.guarded b p (\<lambda>_ _ _. True) (\<lambda>_ _ _. True) m s)"

named_theorems steady_rules \<open>programs whose accesses keep the directory\<close>

lemma steady_admits: "admits (\<lambda>_. True) (moves b) p \<Longrightarrow> steady b p"
  unfolding steady_def by (blast intro: keep.admits_guarded)

lemma steady_follow [steady_rules]: "steady b p \<Longrightarrow> (\<And>r. steady b (f r)) \<Longrightarrow> steady b (follow p f)"
  unfolding steady_def keep.guarded_follow by (blast intro: keep.guarded_mono)

lemma steady_attempt [steady_rules]: "steady b p \<Longrightarrow> (\<And>e. steady b (h e)) \<Longrightarrow> steady b (attempt p h)"
  unfolding steady_def keep.guarded_attempt by (blast intro: keep.guarded_mono)

lemma steady_if [steady_rules]: "(c \<Longrightarrow> steady b p) \<Longrightarrow> (\<not> c \<Longrightarrow> steady b q) \<Longrightarrow> steady b (if c then p else q)"
  by simp

lemma steady_let [steady_rules]: "(\<And>x. x = t \<Longrightarrow> steady b (f x)) \<Longrightarrow> steady b (let x = t in f x)"
  by simp

lemma steady_option [steady_rules]:
  "(x = None \<Longrightarrow> steady b p) \<Longrightarrow> (\<And>y. x = Some y \<Longrightarrow> steady b (q y)) \<Longrightarrow> steady b (case x of None \<Rightarrow> p | Some y \<Rightarrow> q y)"
  by (cases x) auto

lemma steady_pair [steady_rules]: "(\<And>x y. p = (x, y) \<Longrightarrow> steady b (f x y)) \<Longrightarrow> steady b (case p of (x, y) \<Rightarrow> f x y)"
  by (cases p) auto

lemma steady_basic [steady_rules]:
  "steady b (Give r)" "steady b (Raise x)" "steady b (giving y)" "steady b (demand c x)" "steady b (look f)"
  by (rule steady_admits, intro admits_rules TrueI moves_refl)+

section \<open>What the programs may do\<close>

lemma admits_answer [admits_rules]:
  assumes "\<And>h t. admits P M (f1 h t)" "\<And>x. admits P M (f2 x)" "\<And>x. admits P M (f3 x)" "\<And>x y z. admits P M (f4 x y z)" "admits P M f5"
    "\<And>x. admits P M (f6 x)" "\<And>x. admits P M (f7 x)" "admits P M f8" "\<And>x. admits P M (f9 x)"
  shows "admits P M (case a of Hashed h t \<Rightarrow> f1 h t | Verified x \<Rightarrow> f2 x | ProxyReply x \<Rightarrow> f3 x | ScimReply x y z \<Rightarrow> f4 x y z
    | SeatChanged \<Rightarrow> f5 | SeatMissing x \<Rightarrow> f6 x | SeatIs x \<Rightarrow> f7 x | Slept \<Rightarrow> f8 | Rejected x \<Rightarrow> f9 x)"
  using assms by (cases a) auto

lemma admits_reading [admits_rules]: "admits P (moves b) (reading g)"
  unfolding reading_def by (intro admits_rules moves_refl)

lemma admits_operations [admits_rules]:
  "admits P (moves b) (perform (assertNotLocallyPoolManaged e n))" "admits P (moves b) (perform (appendUserEvent e act u))"
  "admits P (moves b) (perform (take_slot e delay))" "admits P (moves b) (perform (updateEmu e n login scim status))"
  "admits P (moves b) (perform (recordCopilotSeatError e n op message))" "admits P (moves b) (perform (updateUser e n patch))"
  "admits P (moves b) (perform (deleteUser e n))" "admits P (moves b) (runtime_settings ent)"
  by (simp_all add: runtime_settings_def admits_perform moves_other moves_updateEmu moves_recordCopilotSeatError moves_updateUser
      moves_deleteUser moves_getSsoRuntimeSettings)

lemma admits_seat [admits_rules]:
  "status = SeatPendingCancellation \<longrightarrow> date \<noteq> None \<Longrightarrow> admits P (moves b) (perform (updateCopilotSeat e n status date op err))"
  by (simp add: admits_perform moves_updateCopilotSeat)

lemma admits_calls [admits_rules]:
  "P (HashPassword p) \<Longrightarrow> admits P (moves b) (hashPassword p)"
  "P (VerifyPassword p (su_hash u) (su_salt u)) \<Longrightarrow> admits P (moves b) (verifyPassword p u)"
  "P (DeleteProxyAccounts e n) \<Longrightarrow> admits P (moves b) (deleteProxyAccountsBySsoUser e n)"
  "P (AssignSeat (ent_id ent) login) \<Longrightarrow> admits P (moves b) (assignCopilotSeat ent login)"
  "P (RemoveSeat (ent_id ent) login) \<Longrightarrow> admits P (moves b) (removeCopilotSeat ent login)"
  "P (ReadSeat (ent_id ent) login) \<Longrightarrow> admits P (moves b) (getCopilotSeatAssignment ent login)"
  unfolding hashPassword_def verifyPassword_def deleteProxyAccountsBySsoUser_def assignCopilotSeat_def removeCopilotSeat_def
    getCopilotSeatAssignment_def by (intro admits_rules; assumption)+

lemma admits_membership [admits_rules]: "P (PoolMembership e n) \<Longrightarrow> admits P (moves b) (isProxyPoolManagedSsoUser e n)"
proof -
  assume *: "P (PoolMembership e n)"
  have "admits P (moves b) (case js_get r ''managed'' of JBool x \<Rightarrow> Give x | _ \<Rightarrow> Raise PoolMembershipUnavailableError)" for r
    by (cases "js_get r ''managed''") simp_all
  then show ?thesis unfolding isProxyPoolManagedSsoUser_def by (intro admits_rules *)
qed

lemma admits_checks [admits_rules]:
  "admits P (moves b) (requireUser ent n)" "admits P (moves b) (assertSsoUserAvailable ent n)"
  "P (PoolMembership (ent_id ent) (su_name u)) \<Longrightarrow> admits P (moves b) (assertDestructiveOperationAllowed ent u)"
  unfolding requireUser_def assertSsoUserAvailable_def assertDestructiveOperationAllowed_def by (intro admits_rules; assumption)+

lemma admits_known [admits_rules]:
  assumes "\<And>p. P (VerifyPassword p (su_hash u) (su_salt u))"
  shows "admits P (moves b) (existingEnsureUserResult ent u)" "admits P (moves b) (knownDefaultPasswordForUserAsync ent u)"
proof -
  have verified: "admits P (moves b) (first_verified u ps)" for ps
    using assms by (induction ps) (auto intro!: admits_rules)
  show "admits P (moves b) (existingEnsureUserResult ent u)" "admits P (moves b) (knownDefaultPasswordForUserAsync ent u)"
    unfolding existingEnsureUserResult_def knownDefaultPasswordForUserAsync_def by (intro admits_rules verified)+
qed

subsection \<open>The SCIM client\<close>

lemma admits_scimFetch [admits_rules]:
  assumes "\<And>ms. P (SleepMs ms)" and "P (ScimHttp (ent_id ent) request)"
  shows "admits P (moves b) (scimFetch ent request operation)"
proof -
  have "admits P (moves b) (scim_attempts left tried (ent_id ent) request operation x)" for left tried x
  proof (induction left arbitrary: tried)
    case 0
    then show ?case unfolding scim_attempts.simps waitForScimSlot_def by (intro admits_rules assms)
  next
    case (Suc left)
    then show ?case unfolding scim_attempts.simps waitForScimSlot_def back_off_def by (intro admits_rules assms moves_refl)
  qed
  then show ?thesis unfolding scimFetch_def by (intro admits_rules)
qed

lemma admits_user_of [admits_rules]: "admits P M (user_of body)"
  by (cases body) (simp_all add: user_of_def)

lemma admits_result [admits_rules]: "admits P M (resultFromScimUser ent r)"
  by (simp add: resultFromScimUser_def)

lemma admits_scim [admits_rules]:
  assumes "\<And>ms. P (SleepMs ms)"
  shows "P (ScimHttp (ent_id ent) (ScimDelete i)) \<Longrightarrow> admits P (moves b) (deleteByScimId ent i)"
    and "P (ScimHttp (ent_id ent) (ScimSuspend i)) \<Longrightarrow> admits P (moves b) (suspendUser ent i)"
    and "P (ScimHttp (ent_id ent) (ScimCreate u role)) \<Longrightarrow> admits P (moves b) (scim_createUser ent u role)"
    and "P (ScimHttp (ent_id ent) (ScimReplace i u role)) \<Longrightarrow> admits P (moves b) (replaceUser ent i u role)"
    and "P (ScimHttp (ent_id ent) (ScimFind n)) \<Longrightarrow> admits P (moves b) (findScimUserByUsername ent n)"
proof -
  have page: "admits P (moves b) (case body of PageBody rs \<Rightarrow> Give (case rs of [] \<Rightarrow> None | r # _ \<Rightarrow> Some r) | _ \<Rightarrow> Raise x)" for body x
    by (cases body) simp_all
  show "P (ScimHttp (ent_id ent) (ScimFind n)) \<Longrightarrow> admits P (moves b) (findScimUserByUsername ent n)"
    unfolding findScimUserByUsername_def by (intro admits_rules assms page)
  show "P (ScimHttp (ent_id ent) (ScimDelete i)) \<Longrightarrow> admits P (moves b) (deleteByScimId ent i)"
    unfolding deleteByScimId_def by (intro admits_rules assms)
  show "P (ScimHttp (ent_id ent) (ScimSuspend i)) \<Longrightarrow> admits P (moves b) (suspendUser ent i)"
    unfolding suspendUser_def by (intro admits_rules assms)
  show "P (ScimHttp (ent_id ent) (ScimCreate u role)) \<Longrightarrow> admits P (moves b) (scim_createUser ent u role)"
    unfolding scim_createUser_def by (intro admits_rules assms)
  show "P (ScimHttp (ent_id ent) (ScimReplace i u role)) \<Longrightarrow> admits P (moves b) (replaceUser ent i u role)"
    unfolding replaceUser_def by (intro admits_rules assms)
qed

subsection \<open>Programs that destroy nothing\<close>

fun destructive :: "sso_call \<Rightarrow> bool" where
  "destructive (RemoveSeat e login) = True"
| "destructive (DeleteProxyAccounts e n) = True"
| "destructive (ScimHttp e (ScimSuspend i)) = True"
| "destructive (ScimHttp e (ScimDelete i)) = True"
| "destructive _ = False"

definition mild :: "(sso_call \<Rightarrow> bool) \<Rightarrow> bool" where
  "mild P \<longleftrightarrow> (\<forall>c. \<not> destructive c \<longrightarrow> P c)"

lemma mild_calls:
  assumes "mild P"
  shows "P (HashPassword p)" "P (VerifyPassword p h salt)" "P (PoolMembership e n)" "P (AssignSeat e login)" "P (ReadSeat e login)" "P (SleepMs ms)"
    "P (ScimHttp e (ScimCreate u role))" "P (ScimHttp e (ScimReplace i u role))" "P (ScimHttp e (ScimFind n))"
  using assms by (simp_all add: mild_def)

lemma admits_sync [admits_rules]: "mild P \<Longrightarrow> admits P (moves b) (syncUser ent u role createOnly)"
  unfolding syncUser_def sync_create_def adoptExistingUser_def by (intro admits_rules; erule mild_calls)

lemma admits_seat_failure [admits_rules]: "admits P (moves b) (recordSeatMutationFailure ent u op err)"
  unfolding recordSeatMutationFailure_def by (intro admits_rules) simp

lemma admits_confirm [admits_rules]:
  "P (ReadSeat (ent_id ent) login) \<Longrightarrow> admits P (moves b) (confirmSeatMutation ent u login op)"
  unfolding confirmSeatMutation_def by (intro admits_rules; (assumption | metis snapshot_dated))

lemma admits_assign:
  assumes "\<And>e l. P (AssignSeat e l)" and "\<And>e l. P (ReadSeat e l)"
  shows "admits P (moves b) (assignCopilotSeatForUser ent u login)"
  unfolding assignCopilotSeatForUser_def by (intro admits_rules assms) simp_all

lemma admits_sync_user:
  assumes "mild P"
  shows "admits P (moves b) (syncSsoUser ent n role assignSeat createOnly)" "admits P (moves b) (assignCopilotSeatForSsoUser ent n)"
  unfolding syncSsoUser_def assignCopilotSeatForSsoUser_def
  by (intro admits_rules admits_assign moves_refl assms mild_calls [OF assms])+

subsection \<open>All programs but creations\<close>

lemma admits_unassign [admits_rules]: "admits P (moves b) (unassign ent u warning)"
  unfolding unassign_def by (intro admits_rules) simp

lemma admits_remove [admits_rules]:
  assumes "\<And>c. P c"
  shows "admits P (moves b) (removeCopilotSeatForUser ent u)"
proof -
  have "admits P (moves b) (case err of CopilotSeatNotAssignedError l status \<Rightarrow> Give x
      | _ \<Rightarrow> follow (recordSeatMutationFailure ent u SeatRemove err) (\<lambda>_. Raise err))" for err x
    by (cases err) (auto intro!: admits_rules)
  then show ?thesis unfolding removeCopilotSeatForUser_def by (intro admits_rules assms)
qed

lemma admits_any:
  assumes "\<And>c. P c"
  shows "admits P (moves b) (deleteSsoUser ent n)" "admits P (moves b) (suspendSsoUser ent n)" "admits P (moves b) (deleteEmuUser ent n)"
    "admits P (moves b) (removeCopilotSeatForSsoUser ent n)" "admits P (moves b) (patchSsoUser ent n inp)"
    "admits P (moves b) (loginCredentialsHandler ent n ow)"
  unfolding deleteSsoUser_def suspendSsoUser_def deleteEmuUser_def removeCopilotSeatForSsoUser_def patchSsoUser_def
    deleteProvisionedUser_def loginCredentialsHandler_def
  by (intro admits_rules assms moves_refl; simp)+

lemma mild_True: "mild (\<lambda>_. True)"
  by (simp add: mild_def)

lemma steady_programs [steady_rules]:
  "steady b (deleteSsoUser ent n)" "steady b (suspendSsoUser ent n)" "steady b (deleteEmuUser ent n)"
  "steady b (removeCopilotSeatForSsoUser ent n)" "steady b (patchSsoUser ent n inp)" "steady b (loginCredentialsHandler ent n ow)"
  "steady b (syncSsoUser ent n role assignSeat createOnly)" "steady b (assignCopilotSeatForSsoUser ent n)"
  "steady b (existingEnsureUserResult ent u)" "steady b (hashPassword p)" "steady b (assertSsoUserAvailable ent n)"
  "steady b (runtime_settings ent)" "steady b (reading g)" "steady b (perform (appendUserEvent e act u))"
  "steady b (perform (updateUser e n patch))"
  by (rule steady_admits; intro admits_any admits_sync_user mild_True admits_rules TrueI)+

section \<open>Creations\<close>

text \<open>A creation is safe right after the name was found free.\<close>

lemma guarded_create:
  assumes "getUser e (nu_name inp) s = None" and "\<And>u. steady b (f u)"
  shows "keep.guarded b (follow (perform (createUser e inp)) f) (\<lambda>_ _ _. True) (\<lambda>_ _ _. True) m s"
  using assms moves_createUser [OF assms(1)]
  by (simp add: keep.guarded_follow keep.guarded_perform steady_def split: sum.split)

lemma steady_guarded: "steady b p \<Longrightarrow> (\<And>m s r. Q m s r) \<Longrightarrow> keep.guarded b p Q (\<lambda>_ _ _. True) m s"
  unfolding steady_def by (blast intro: keep.guarded_mono)

lemma getUser_runtime [simp]: "getUser e n (snd (getSsoRuntimeSettings x s)) = getUser e n s"
  by (simp add: getSsoRuntimeSettings_def getUser_def split: option.split)

lemma steady_create_available:
  assumes "\<And>u. steady b (f u)" and "\<And>x. nu_name (inp x) = n"
  shows "steady b (follow (assertSsoUserAvailable ent n) (\<lambda>_. follow (runtime_settings ent) (\<lambda>x.
    follow (perform (createUser (ent_id ent) (inp x))) f)))"
  unfolding steady_def
proof (intro allI)
  fix m s
  have "keep.guarded b (follow (runtime_settings ent) (\<lambda>x. follow (perform (createUser (ent_id ent) (inp x))) f))
      (\<lambda>_ _ _. True) (\<lambda>_ _ _. True) m s" if "getUser (ent_id ent) n s = None"
    unfolding runtime_settings_def keep.guarded_follow [of b "perform (getSsoRuntimeSettings (ent_id ent))"] keep.guarded_perform
    using that assms by (auto simp: moves_getSsoRuntimeSettings intro!: guarded_create split: sum.split)
  then show "keep.guarded b (follow (assertSsoUserAvailable ent n) (\<lambda>_. follow (runtime_settings ent) (\<lambda>x.
      follow (perform (createUser (ent_id ent) (inp x))) f))) (\<lambda>_ _ _. True) (\<lambda>_ _ _. True) m s"
    by (simp add: assertSsoUserAvailable_def reading_def keep.guarded_follow [of b "follow _ _"] keep.guarded_follow [of b "look _"]
        keep.guarded_look keep.guarded_giving split: option.split)
qed

lemma steady_create [steady_rules]: "steady b (createSsoUser ent inp)"
  unfolding createSsoUser_def Let_def
  by (rule steady_follow, rule steady_basic, rule steady_follow, rule steady_programs, rule steady_follow, rule steady_basic,
      rule steady_follow, rule steady_programs, rule steady_follow, rule steady_programs, rule steady_create_available)
    (intro steady_rules, simp)

lemma steady_insert:
  assumes "steady b p"
  shows "steady b (follow (look (getUser (ent_id ent) n)) (\<lambda>taken. if taken \<noteq> None then p else ensure_insert ent n password h x))"
  using assms guarded_create [of "ent_id ent" _ _ b]
  by (auto simp: steady_def keep.guarded_follow [of b "look _"] keep.guarded_look ensure_insert_def intro!: guarded_create steady_rules)

lemma steady_attempts: "steady b (ensure_attempts left ent identity preferred)"
proof (induction left)
  case (Suc left)
  show ?case unfolding ensure_attempts.simps ensure_reserve_def
    by (intro steady_rules steady_insert Suc.IH)
qed (simp add: steady_basic)

lemma steady_ensure [steady_rules]: "steady b (ensureUser ent identity preferred)"
  unfolding ensureUser_def by (rule steady_attempts)

lemma steady_batch_row [steady_rules]: "steady b (runBatchResultRow ent q n)"
  unfolding runBatchResultRow_def runSsoUserBatchRow_def
  by (cases "bq_operation q") (auto intro!: steady_rules)

lemma steady_each [steady_rules]: "(\<And>x. steady b (f x)) \<Longrightarrow> steady b (each_in_turn f xs)"
  by (induction xs) (auto intro!: steady_rules)

lemma steady_import_row [steady_rules]: "steady b (importUserRow ent row)"
  unfolding importUserRow_def by (intro steady_rules)

lemma steady_batch_settings [steady_rules]: "steady b (batch_settings ent q)"
  unfolding batch_settings_def by (rule steady_admits) (intro admits_rules)

lemma steady_program: "steady b (program_of q)"
  by (cases q) (auto simp: answered_with_def runSsoUserBatch_def importUsers_def intro!: steady_rules)

section \<open>What every run keeps\<close>

lemma service_safe:
  assumes "loop_run (range program_of) outside s w" and "svc_inv b s"
    and "\<And>s t. outside s t \<Longrightarrow> moves b s t"
  shows "svc_inv b (fst w) \<and> kept s (fst w)"
proof -
  have "moves b s (fst w)"
  proof (rule keep.loop_run_safe [OF assms(1,2), THEN conjunct1])
    fix p u
    assume "p \<in> range program_of"
    then show "\<exists>m. keep.guarded b p (\<lambda>_ _ _. True) (\<lambda>_ _ _. True) m u" using steady_program unfolding steady_def by blast
  qed (use assms(3) in blast)
  then show ?thesis using assms(2) by (simp add: moves_def)
qed

end
