(* ===== verification/Sso_Guarantees.thy ===== *)
theory Sso_Guarantees
  imports Sso_Programs
begin

text \<open>
  Properties of the single sign-on service: what every run of the process keeps, and what a single request
  does, whatever other requests and changes come between its steps.
\<close>

section \<open>An example\<close>

definition example_enterprise :: SsoEnterprise where
  "example_enterprise = \<lparr>ent_id = ''e1'', ent_shortcode = ''octo'', ent_scimBaseUrl = ''u''\<rparr>"

definition example_sso_settings :: SsoSettings where
  "example_sso_settings = \<lparr>sx_maxSsoUsers = Some 2, sx_userPrefix = ''user'', sx_emailDomain = ''a.b'', sx_bulkSyncConcurrency = 3,
     sx_scimRequestDelayMs = 250, sx_scimMaxRetries = 1, sx_scimRetryBaseDelayMs = 1000, sx_version = 1, sx_updatedAt = 0\<rparr>"

definition example_directory :: sso_state where
  "example_directory = \<lparr>sso_users = [], pool_marks = [], settings_rows = [(''e1'', example_sso_settings)], snapshots = (\<lambda>_. None),
     user_events = [], secrets = (\<lambda>e f. Inr (if f = ''scimToken'' then Some ''t'' else Some ''a long default password'')),
     scim_slots = (\<lambda>_. 0), sso_now = 0\<rparr>"

text \<open>A user of the pool is created, then an operator tries to change its password and to delete it.\<close>

definition creation :: "bool \<Rightarrow> string \<Rightarrow> sso_request" where
  "creation pool n = CreateRequest example_enterprise \<lparr>ci_name = n, ci_password = None, ci_email = None, ci_role = None, ci_pool = pool\<rparr>"

definition deletion :: "string \<Rightarrow> sso_request" where
  "deletion n = BatchRowRequest example_enterprise
     \<lparr>bq_operation = DeleteSso, bq_names = [n], bq_role = None, bq_assign = None, bq_createOnly = None\<rparr> n"

definition example_events :: "(sso_state, sso_call, sso_answer, sso_error, unit) event list" where
  "example_events =
     [Arrives (program_of (creation True ''Pool1'')), Arrives (program_of (creation False ''bob'')),
      Answered 0 (Hashed ''h'' ''s''), Answered 1 (Hashed ''h'' ''s''),
      Arrives (program_of (PatchRequest example_enterprise ''POOL1'' \<lparr>pi_password = Some ''x'', pi_email = None, pi_role = None\<rparr>)),
      Arrives (program_of (deletion ''pool1'')), Arrives (program_of (creation False ''carl'')), Answered 4 (Hashed ''h'' ''s'')]"

definition example_process :: "(sso_state, sso_call, sso_answer, sso_error, unit) process" where
  "example_process = fold happens example_events (example_directory, [])"

lemma example_directory_inv: "users_inv example_directory"
  by (simp add: users_inv_def example_directory_def settings_known_def)

lemma loop_run_fold:
  "loop_run requests outside s w \<Longrightarrow> (\<And>p. Arrives p \<in> set evs \<Longrightarrow> p \<in> requests) \<Longrightarrow> loop_run requests outside s (fold happens evs w)"
proof (induction evs arbitrary: w)
  case (Cons ev evs)
  have "loop_run requests outside s (happens ev w)" using Cons.prems by (intro loop_run_happens) auto
  then show ?case using Cons.IH Cons.prems(2) by simp
qed simp

lemma example_sso_run: "loop_run (range program_of) outside example_directory example_process"
  unfolding example_process_def
  by (rule loop_run_fold) (auto simp: example_events_def loop_run.at_start simp del: program_of.simps)

section \<open>Every run\<close>

text \<open>
  C20. In every run of the service, whatever modelled requests (\<open>program_of\<close>) are made, however their steps
  interleave, whatever the GitHub services, the Proxy and the hash function answer, and whatever settings
  are edited, users imported from GitHub and restarts made between them (\<open>beside\<close>): the names of the users of
  an enterprise stay unique without regard to case, every mark of the pool belongs to a user, every snapshot
  of settings is the row, and a user has a date of cancellation exactly while the cancellation of its seat
  is pending.
\<close>

theorem sso_directory_well_formed:
  assumes "service_run s w" and "users_inv s"
  shows "users_inv (fst w)"
proof -
  have "svc_inv None (fst w) \<and> kept s (fst w)"
    by (rule service_safe [OF assms(1) [unfolded service_run_def]]) (use assms(2) in \<open>auto simp: svc_inv_def intro: moves_beside\<close>)
  then show ?thesis by (simp add: svc_inv_def)
qed

theorem sso_directory_well_formed_witness:
  "users_inv (fst example_process) \<and> map user_key (sso_users (fst example_process)) = [(''e1'', ''pool1''), (''e1'', ''bob'')]"
proof
  show "users_inv (fst example_process)"
    by (rule sso_directory_well_formed [of example_directory]) (simp_all add: service_run_def example_sso_run example_directory_inv)
  show "map user_key (sso_users (fst example_process)) = [(''e1'', ''pool1''), (''e1'', ''bob'')]" by code_simp
qed

text \<open>
  C12. In every run of the service a user that is marked as a member of the pool stays in the directory and
  keeps its mark, its name, address, role and time of creation, and the hash and salt of its password: no
  modelled request to edit, import or delete users (\<open>program_of\<close>), however it is interleaved with others, and
  no import from GitHub (\<open>beside\<close>) takes them away or changes them.
\<close>

theorem pool_users_protected:
  assumes "service_run s w" and "users_inv s"
    and "(e, u) \<in> set (sso_users s)" and "(e, su_name u) \<in> set (pool_marks s)"
  shows "\<exists>u'. (e, u') \<in> set (sso_users (fst w)) \<and> identity_of u' = identity_of u \<and> (e, su_name u') \<in> set (pool_marks (fst w))"
proof -
  have "kept s (fst w)"
    using service_safe [OF assms(1) [unfolded service_run_def], of None] assms(2) moves_beside by (auto simp: svc_inv_def)
  moreover have "exact_key (e, u) \<in> set (pool_marks s)" using assms(4) by (simp add: exact_key_def)
  ultimately obtain r where "r \<in> set (sso_users (fst w))" "fst r = e" "identity_of (snd r) = identity_of u"
    and "set (pool_marks s) \<subseteq> set (pool_marks (fst w))"
    using assms(3) by (auto simp: kept_def)
  then show ?thesis using assms(4) by (intro exI [of _ "snd r"]) (auto simp: identity_of_def)
qed

text \<open>A directory with a user of the pool, against which the other requests of the example are made.\<close>

definition example_pool_user :: SsoUserRecord where
  "example_pool_user = new_user 0 \<lparr>nu_name = ''pool1'', nu_hash = ''h'', nu_salt = ''s'', nu_email = ''pool1@a.b'', nu_role = ''user'', nu_pool = True\<rparr>"

definition example_user :: SsoUserRecord where
  "example_user = new_user 0 \<lparr>nu_name = ''bob'', nu_hash = ''h'', nu_salt = ''s'', nu_email = ''bob@a.b'', nu_role = ''user'', nu_pool = False\<rparr>"

definition example_pool_directory :: sso_state where
  "example_pool_directory = example_directory\<lparr>sso_users := [(''e1'', example_pool_user), (''e1'', example_user)],
     pool_marks := [(''e1'', ''pool1'')]\<rparr>"

lemma example_pool_inv: "users_inv example_pool_directory"
  by (simp add: users_inv_def example_pool_directory_def example_directory_def settings_known_def user_key_def exact_key_def dated_def
      example_pool_user_def example_user_def new_user_def lower_def)

definition example_attacks :: "(sso_state, sso_call, sso_answer, sso_error, unit) event list" where
  "example_attacks = map (\<lambda>ev. case ev of Answered i a \<Rightarrow> Answered 2 a | _ \<Rightarrow> ev) (drop 4 example_events)"

theorem pool_users_protected_witness:
  "\<exists>u'. (''e1'', u') \<in> set (sso_users (fst (fold happens example_attacks (example_pool_directory, [])))) \<and>
     identity_of u' = identity_of example_pool_user \<and>
     (''e1'', su_name u') \<in> set (pool_marks (fst (fold happens example_attacks (example_pool_directory, []))))"
proof (rule pool_users_protected [of example_pool_directory])
  show "service_run example_pool_directory (fold happens example_attacks (example_pool_directory, []))"
    unfolding service_run_def
    by (rule loop_run_fold) (auto simp: example_attacks_def example_events_def loop_run.at_start simp del: program_of.simps)
  show "users_inv example_pool_directory" by (rule example_pool_inv)
  show "(''e1'', example_pool_user) \<in> set (sso_users example_pool_directory)" by code_simp
  show "(''e1'', su_name example_pool_user) \<in> set (pool_marks example_pool_directory)" by code_simp
qed

text \<open>
  C19. The number of users of an enterprise never exceeds its limit: in every run during which the limit in
  the settings stays at or below a number, and that starts with at most that many users, there are never
  more, however many creations are under way at once and whatever is imported beside them.
\<close>

theorem user_limit_respected:
  assumes "loop_run (range program_of) (\<lambda>t t'. beside t t' \<and> limit_at_most e l t') s w"
    and "users_inv s" and "limit_at_most e l s" and "int (countUsers e s) \<le> l"
  shows "int (countUsers e (fst w)) \<le> l"
proof -
  have "svc_inv (Some (e, l)) (fst w) \<and> kept s (fst w)"
    using assms(2-4) by (intro service_safe [OF assms(1)]) (auto simp: svc_inv_def in_bound_iff intro: moves_beside)
  then show ?thesis by (simp add: svc_inv_def in_bound_iff)
qed

theorem user_limit_respected_witness:
  "int (countUsers ''e1'' (fst example_process)) \<le> 2 \<and>
   (case snd example_process ! 4 of Raise x \<Rightarrow> x = SsoUserLimitReachedError 2 2 | _ \<Rightarrow> False)"
proof
  show "int (countUsers ''e1'' (fst example_process)) \<le> 2"
    by (rule user_limit_respected [of _ _ example_directory, OF example_sso_run example_directory_inv]) code_simp+
  show "case snd example_process ! 4 of Raise x \<Rightarrow> x = SsoUserLimitReachedError 2 2 | _ \<Rightarrow> False" by code_simp
qed

section \<open>Destructive requests\<close>

text \<open>
  The answer that clears a user for destruction: the Proxy says that the user is no member of its pool, and
  when it was asked, the directory had no mark for the name.
\<close>

fun clears :: "string \<Rightarrow> string \<Rightarrow> sso_state \<Rightarrow> sso_call \<Rightarrow> sso_answer \<Rightarrow> bool" where
  "clears e n s (PoolMembership e' n') (ProxyReply r) =
     (e' = e \<and> lower n' = lower n \<and> js_get r ''managed'' = JBool False \<and> \<not> isPoolManagedSsoUser e n' s)"
| "clears e n s _ _ = False"

interpretation check: interference "\<lambda>s::sso_state. True" "\<lambda>s t. True" "\<lambda>m s c. m \<or> \<not> destructive c" "\<lambda>m s c a. m \<or> clears e n s c a" for e n
  by unfold_locales simp_all

text \<open>Once cleared, a program may do anything; a program that destroys nothing needs no clearance.\<close>

lemma cleared_anything: "check.guarded e n p (\<lambda>_ _ _. True) (\<lambda>_ _ _. True) True s"
proof -
  have "check.guarded e n p (\<lambda>_ _ _. True) (\<lambda>_ _ _. True) m s" if m for m
    using that
  proof (induction p arbitrary: m s)
    case (Access g m s)
    obtain t q where g: "g s = (t, q)" by (cases "g s")
    show ?case using Access.IH [of "(t, q)" q m t] Access.prems by (simp add: g rangeI [of g s, unfolded g])
  qed simp_all
  then show ?thesis by simp
qed

lemma check_mild: "admits (\<lambda>c. \<not> destructive c) (moves b) p \<Longrightarrow> check.guarded e n p (\<lambda>_ _ _. True) (\<lambda>_ _ _. True) m s"
  by (rule check.admits_guarded [where P = "\<lambda>c. \<not> destructive c" and M = "moves b"]) auto

lemma check_allowed:
  assumes "ent_id ent = e" and "lower (su_name u) = lower n"
  shows "check.guarded e n (follow (assertDestructiveOperationAllowed ent u) f) (\<lambda>_ _ _. True) (\<lambda>_ _ _. True) m s"
proof -
  have "check.guarded e n (follow (case js_get r ''managed'' of JBool b \<Rightarrow> Give b | _ \<Rightarrow> Raise PoolMembershipUnavailableError)
      (\<lambda>managed. follow (demand (\<not> managed) PoolMemberManagedError) f)) (\<lambda>_ _ _. True) (\<lambda>_ _ _. True) (m' \<or> js_get r ''managed'' = JBool False) t" for m' r t
    using cleared_anything [of e n] by (cases "js_get r ''managed''") (auto simp: demand_def)
  then have "check.guarded e n (follow (isProxyPoolManagedSsoUser (ent_id ent) (su_name u)) (\<lambda>managed. follow (demand (\<not> managed) PoolMemberManagedError) f))
      (\<lambda>_ _ _. True) (\<lambda>_ _ _. True) m s" if "\<not> isPoolManagedSsoUser e (su_name u) s"
    using that assms cleared_anything [of e n]
    by (auto simp: isProxyPoolManagedSsoUser_def call_out_def split: sso_answer.split)
  then show ?thesis using assms
    by (simp add: assertDestructiveOperationAllowed_def check.guarded_follow check.guarded_perform check.guarded_demand
        assertNotLocallyPoolManaged_def cong: if_cong)
qed

lemma check_found:
  assumes "\<And>u. lower (su_name u) = lower n \<Longrightarrow> check.guarded e n (f u) (\<lambda>_ _ _. True) (\<lambda>_ _ _. True) m s" and "ent_id ent = e"
  shows "check.guarded e n (follow (requireUser ent n) f) (\<lambda>_ _ _. True) (\<lambda>_ _ _. True) m s"
  using assms getUser_Some [of e n s]
  by (simp add: requireUser_def reading_def check.guarded_follow [of _ _ "follow _ _"] check.guarded_follow [of _ _ "look _"]
      check.guarded_look check.guarded_giving split: option.split)

lemma check_destructive:
  assumes "ent_id ent = e"
  shows "check.guarded e n (deleteSsoUser ent n) (\<lambda>_ _ _. True) (\<lambda>_ _ _. True) m s"
    "check.guarded e n (suspendSsoUser ent n) (\<lambda>_ _ _. True) (\<lambda>_ _ _. True) m s"
    "check.guarded e n (deleteEmuUser ent n) (\<lambda>_ _ _. True) (\<lambda>_ _ _. True) m s"
    "check.guarded e n (removeCopilotSeatForSsoUser ent n) (\<lambda>_ _ _. True) (\<lambda>_ _ _. True) m s"
proof -
  show "check.guarded e n (deleteSsoUser ent n) (\<lambda>_ _ _. True) (\<lambda>_ _ _. True) m s"
  proof (cases "getUser (ent_id ent) n s")
    case (Some u)
    then show ?thesis using assms getUser_Some [OF Some]
      by (simp add: deleteSsoUser_def check.guarded_follow [of _ _ "look _"] check.guarded_look check_allowed del: follow.simps)
  qed (simp add: deleteSsoUser_def check.guarded_follow [of _ _ "look _"] check.guarded_look)
  show "check.guarded e n (suspendSsoUser ent n) (\<lambda>_ _ _. True) (\<lambda>_ _ _. True) m s"
    "check.guarded e n (deleteEmuUser ent n) (\<lambda>_ _ _. True) (\<lambda>_ _ _. True) m s"
    "check.guarded e n (removeCopilotSeatForSsoUser ent n) (\<lambda>_ _ _. True) (\<lambda>_ _ _. True) m s"
    unfolding suspendSsoUser_def deleteEmuUser_def removeCopilotSeatForSsoUser_def
    using assms by (intro check_found check_allowed; simp)+
qed

lemma check_row:
  assumes "ent_id ent = e"
  shows "check.guarded e n (runBatchResultRow ent q n) (\<lambda>_ _ _. True) (\<lambda>_ _ _. True) m s"
proof -
  have mild: "mild (\<lambda>c. \<not> destructive c)" by (simp add: mild_def)
  have any: "check.guarded e n (follow p f) (\<lambda>_ _ _. True) (\<lambda>_ _ _. True) m s"
    if "check.guarded e n p (\<lambda>_ _ _. True) (\<lambda>_ _ _. True) m s" and "\<And>m s r. check.guarded e n (f r) (\<lambda>_ _ _. True) (\<lambda>_ _ _. True) m s" for p f
    using that(1) unfolding check.guarded_follow by (rule check.guarded_mono) (use that(2) in auto)
  have "check.guarded e n (runSsoUserBatchRow ent n q) (\<lambda>_ _ _. True) (\<lambda>_ _ _. True) m s"
    unfolding runSsoUserBatchRow_def Let_def
    using check_destructive [OF assms] check_mild [OF admits_sync_user(1) [OF mild]] check_mild [OF admits_sync_user(2) [OF mild]]
    by (cases "bq_operation q") (auto intro!: any split: prod.split)
  then show ?thesis
    unfolding runBatchResultRow_def check.guarded_attempt by (simp, intro any) auto
qed

lemma accepted_cleared:
  assumes "check.accepted e n m tr" and "i < length tr" and "tr ! i = (t, c, a)" and "destructive c"
  shows "m \<or> (\<exists>j < i. \<exists>t' c' a'. tr ! j = (t', c', Some a') \<and> clears e n t' c' a')"
  using assms
proof (induction tr arbitrary: m i)
  case (Cons x tr)
  show ?case
  proof (cases i)
    case 0
    then show ?thesis using Cons.prems by auto
  next
    case (Suc k)
    obtain t' c' b where x: "x = (t', c', b)" by (cases x)
    have rest: "k < length tr" "tr ! k = (t, c, a)" using Cons.prems Suc by simp_all
    then obtain y where y: "b = Some y" using Cons.prems(1) x by (cases b) auto
    have "check.accepted e n (m \<or> clears e n t' c' y) tr" using Cons.prems(1) x y by simp
    then have "(m \<or> clears e n t' c' y) \<or> (\<exists>j < k. \<exists>t' c' a'. tr ! j = (t', c', Some a') \<and> clears e n t' c' a')"
      using Cons.IH rest Cons.prems(4) by blast
    then show ?thesis
    proof (elim disjE exE conjE)
      assume "clears e n t' c' y"
      then show ?thesis using Suc x y by (intro disjI2 exI [of _ 0]) auto
    next
      fix j t' c' a'
      assume "j < k" "tr ! j = (t', c', Some a')" "clears e n t' c' a'"
      then show ?thesis using Suc by (intro disjI2 exI [of _ "Suc j"]) auto
    qed simp
  qed
qed simp

lemma check_program:
  assumes "q = BatchRowRequest ent b n \<or> q = RemoveSeatRequest ent n"
  shows "check.guarded (ent_id ent) n (program_of q) (\<lambda>_ _ _. True) (\<lambda>_ _ _. True) m s"
proof -
  have answered: "check.guarded (ent_id ent) n (answered_with p) (\<lambda>_ _ _. True) (\<lambda>_ _ _. True) m s"
    if "check.guarded (ent_id ent) n p (\<lambda>_ _ _. True) (\<lambda>_ _ _. True) m s" for p :: "'r sso_proc"
    using that unfolding answered_with_def check.guarded_follow by (rule check.guarded_mono) auto
  show ?thesis using assms by (auto intro!: answered check_row check_destructive)
qed

text \<open>
  C13. Nothing is taken from a user that may belong to the pool: within the processing of a row of a batch or
  of a removal of a seat, whatever happens in the directory between its steps, every request that removes a
  Copilot seat, suspends or deletes a user at GitHub or deletes accounts of the Proxy was preceded by a
  question to the Proxy about a user of this name, asked while the directory had no mark for it, and answered
  with \<open>managed: false\<close>.
\<close>

theorem destruction_cleared:
  assumes "q = BatchRowRequest ent b n \<or> q = RemoveSeatRequest ent n"
    and "session xs (program_of q) s = (tr, t, p)"
    and "i < length tr" and "tr ! i = (u, c, a)" and "destructive c"
  shows "\<exists>j < i. \<exists>u' c' a'. tr ! j = (u', c', Some a') \<and> clears (ent_id ent) n u' c' a'"
proof -
  have "check.accepted (ent_id ent) n False tr"
    using check.guarded_session [OF check_program [OF assms(1)] assms(2)] by (simp add: list_all_iff)
  from accepted_cleared [OF this assms(3-5)] show ?thesis by blast
qed

definition example_scim_user :: ScimUserResource where
  "example_scim_user = \<lparr>sr_id = Some ''42'', sr_userName = ''bob'', sr_githubLogin = None\<rparr>"

definition bob_row :: SsoUserBatchRequest where
  "bob_row = \<lparr>bq_operation = DeleteSso, bq_names = [''bob''], bq_role = None, bq_assign = None, bq_createOnly = None\<rparr>"

definition bob_deletion where
  "bob_deletion = session
     (map (\<lambda>a. (a, example_pool_directory))
       [ProxyReply (JObj [(''managed'', JBool False)]), ScimReply 200 NoHeader (PageBody [example_scim_user]),
        ScimReply 204 NoHeader NoBody, ProxyReply JNull])
     (program_of (BatchRowRequest example_enterprise bob_row ''bob'')) example_pool_directory"

theorem destruction_cleared_witness:
  "destructive (fst (snd (fst bob_deletion ! 2))) \<and> destructive (fst (snd (fst bob_deletion ! 3))) \<and>
   (\<exists>j < 3. \<exists>u c a. fst bob_deletion ! j = (u, c, Some a) \<and> clears (ent_id example_enterprise) ''bob'' u c a)"
proof (intro conjI)
  have split: "fst bob_deletion ! 3 = (fst (fst bob_deletion ! 3), fst (snd (fst bob_deletion ! 3)), snd (snd (fst bob_deletion ! 3)))"
    by simp
  show "destructive (fst (snd (fst bob_deletion ! 2)))" by code_simp
  show d: "destructive (fst (snd (fst bob_deletion ! 3)))" by code_simp
  have l: "3 < length (fst bob_deletion)" by code_simp
  have run: "session (map (\<lambda>a. (a, example_pool_directory))
       [ProxyReply (JObj [(''managed'', JBool False)]), ScimReply 200 NoHeader (PageBody [example_scim_user]),
        ScimReply 204 NoHeader NoBody, ProxyReply JNull])
     (program_of (BatchRowRequest example_enterprise bob_row ''bob'')) example_pool_directory = (fst bob_deletion, fst (snd bob_deletion), snd (snd bob_deletion))"
    by (simp only: bob_deletion_def prod.collapse)
  show "\<exists>j < 3. \<exists>u c a. fst bob_deletion ! j = (u, c, Some a) \<and> clears (ent_id example_enterprise) ''bob'' u c a"
    by (rule destruction_cleared [OF disjI1 [OF refl] run l split d])
qed

section \<open>Users of the pool at GitHub\<close>

text \<open>A synchronisation may send nothing to the SCIM service but the creation of one user without a role.\<close>

fun creates_only :: "string \<Rightarrow> SsoUserRecord \<Rightarrow> sso_call \<Rightarrow> bool" where
  "creates_only e u (ScimHttp e' r) = (e' = e \<and> r = ScimCreate u RoleUser)"
| "creates_only e u _ = True"

interpretation only: interference "\<lambda>s::sso_state. True" "\<lambda>s t. True" "\<lambda>(m::bool) s c. creates_only e u c" "\<lambda>m s c (a::sso_answer). m" for e u
  by unfold_locales simp_all

lemma only_sync:
  assumes "getUser (ent_id ent) n s = Some u" and "isPoolManagedSsoUser (ent_id ent) (su_name u) s"
  shows "only.guarded (ent_id ent) u (syncSsoUser ent n role assign createOnly) (\<lambda>_ _ _. True) (\<lambda>_ _ _. True) m s"
proof (cases "createOnly \<and> or_else role (enterpriseRoleForSsoUser u) = RoleUser")
  case False
  then show ?thesis using assms
    by (auto simp: syncSsoUser_def requireUser_def reading_def only.guarded_simps)
next
  case True
  have sync: "admits (creates_only (ent_id ent) u) (moves None) (syncUser ent u RoleUser True)"
    unfolding syncUser_def sync_create_def by (intro admits_rules) simp_all
  have rest: "admits (creates_only (ent_id ent) u) (moves None)
      (follow (perform (updateEmu (ent_id ent) n (Some (pr_ghLogin p)) (Some (pr_scimId p)) EmuActive)) (\<lambda>updated.
       follow (if assign then assignCopilotSeatForUser ent updated (Some (pr_ghLogin p)) else Give updated) (\<lambda>synced. Give (toDto synced))))" for p
    by (intro admits_rules admits_assign) simp_all
  have "admits (creates_only (ent_id ent) u) (moves None)
      (follow (syncUser ent u RoleUser True) (\<lambda>p. follow (perform (updateEmu (ent_id ent) n (Some (pr_ghLogin p)) (Some (pr_scimId p)) EmuActive)) (\<lambda>updated.
       follow (if assign then assignCopilotSeatForUser ent updated (Some (pr_ghLogin p)) else Give updated) (\<lambda>synced. Give (toDto synced)))))"
    by (intro admits_follow sync rest)
  from only.admits_guarded [OF this, of "ent_id ent" u] True show ?thesis using assms
    by (simp add: syncSsoUser_def requireUser_def reading_def only.guarded_follow [of _ _ "look _"] only.guarded_look
        only.guarded_follow [of _ _ "follow _ _"] only.guarded_giving only.guarded_demand only.guarded_follow [of _ _ "demand _ _"])
qed

text \<open>
  A user of the pool reaches GitHub only as a new user: a synchronisation of a user that carries a mark
  sends nothing to the SCIM service but the creation of this user with the role of an ordinary user, and
  only when it was asked to create; no lookup, replacement or role change is sent, whatever is answered.
\<close>

theorem pool_user_only_created:
  assumes "session xs (syncSsoUser ent n role assign createOnly) s = (tr, t, p)"
    and "getUser (ent_id ent) n s = Some u" and "isPoolManagedSsoUser (ent_id ent) (su_name u) s"
    and "i < length tr" and "tr ! i = (v, ScimHttp e r, a)"
  shows "r = ScimCreate u RoleUser \<and> e = ent_id ent"
proof -
  have "only.accepted (ent_id ent) u True tr"
    using only.guarded_session [OF only_sync [OF assms(2,3)] assms(1)] by (simp add: list_all_iff)
  from only.accepted_allowed [OF this assms(4)] show ?thesis by (simp add: assms(5))
qed

definition pool_sync where
  "pool_sync = session
     (map (\<lambda>a. (a, example_pool_directory)) [ScimReply 503 (RetrySeconds 2) NoBody, Slept, ScimReply 201 NoHeader (UserBody example_scim_user)])
     (syncSsoUser example_enterprise ''pool1'' (Some RoleUser) False True) example_pool_directory"

theorem pool_user_only_created_witness:
  "(case fst (snd (fst pool_sync ! 2)) of ScimHttp e r \<Rightarrow> r = ScimCreate example_pool_user RoleUser \<and> e = ''e1'' | _ \<Rightarrow> False)"
proof -
  have run: "session (map (\<lambda>a. (a, example_pool_directory)) [ScimReply 503 (RetrySeconds 2) NoBody, Slept, ScimReply 201 NoHeader (UserBody example_scim_user)])
     (syncSsoUser example_enterprise ''pool1'' (Some RoleUser) False True) example_pool_directory = (fst pool_sync, fst (snd pool_sync), snd (snd pool_sync))"
    by (simp add: pool_sync_def)
  have found: "getUser (ent_id example_enterprise) ''pool1'' example_pool_directory = Some example_pool_user" by code_simp
  have marked: "isPoolManagedSsoUser (ent_id example_enterprise) (su_name example_pool_user) example_pool_directory" by code_simp
  have l: "2 < length (fst pool_sync)" by code_simp
  have scim: "case fst (snd (fst pool_sync ! 2)) of ScimHttp e r \<Rightarrow> True | _ \<Rightarrow> False" by code_simp
  then obtain e r where c: "fst (snd (fst pool_sync ! 2)) = ScimHttp e r" by (auto split: sso_call.splits)
  have "fst pool_sync ! 2 = (fst (fst pool_sync ! 2), ScimHttp e r, snd (snd (fst pool_sync ! 2)))" by (simp add: c [symmetric])
  from pool_user_only_created [OF run found marked l this] show ?thesis by (simp add: c example_enterprise_def)
qed

section \<open>Ensured users\<close>

interpretation free: interference "\<lambda>s::sso_state. True" "\<lambda>s t. True" "\<lambda>(m::bool) s (c::sso_call). True" "\<lambda>m s c (a::sso_answer). m"
  by unfold_locales simp_all

lemma free_existing:
  "free.guarded (existingEnsureUserResult ent u) (\<lambda>_ _ r. \<not> en_created r \<and> en_user r = toDto u) (\<lambda>_ _ _. True) m s"
proof -
  have "free.guarded (first_verified u ps) (\<lambda>_ _ _. True) (\<lambda>_ _ _. True) m s" for ps m s
    by (rule free.admits_guarded [where P = "\<lambda>_. True" and M = "moves None"], induction ps) (auto intro!: admits_rules)
  then show ?thesis
    by (simp add: existingEnsureUserResult_def knownDefaultPasswordForUserAsync_def reading_def free.guarded_simps split: sum.split)
qed

text \<open>A clean first candidate is the name that a new user gets.\<close>

lemma ensured_name:
  assumes "ensureSsoUserCandidates ent identity preferred = c # cs" and "clean_name c" and "c \<noteq> []"
    and "getUser (ent_id ent) c s = None"
  shows "nextAvailableSsoUser (ent_id ent) (ensure_base ent identity preferred) pre s = c"
  using assms by (simp add: nextAvailableSsoUser_def ensure_base_def sanitize_clean)

lemma candidates_not_empty: "c \<in> set (unique_candidates f seen raws) \<Longrightarrow> c \<noteq> []"
  by (induction raws arbitrary: seen) (auto simp: Let_def split: if_splits)

lemma find_existing_first:
  assumes "ensureSsoUserCandidates ent identity preferred = c # cs"
  shows "getUser (ent_id ent) c s = Some u \<Longrightarrow> find_existing ent identity preferred s = Some u"
    and "find_existing ent identity preferred s = None \<Longrightarrow> getUser (ent_id ent) c s = None"
  using assms by (auto simp: find_existing_def findExistingEnsureUser_def split: option.splits)

lemma free_insert:
  assumes "ensureSsoUserCandidates ent identity preferred = c # cs" and "getUser (ent_id ent) c s = None"
  shows "free.guarded (ensure_insert ent c password h x)
    (\<lambda>_ t r. en_created r \<longrightarrow> (\<exists>u. find_existing ent identity preferred t = Some u \<and> en_user r = toDto u)) (\<lambda>_ _ _. True) m s"
proof -
  let ?inp = "\<lparr>nu_name = c, nu_hash = fst h, nu_salt = snd h, nu_email = c @ ''@'' @ sx_emailDomain x, nu_role = ''user'', nu_pool = False\<rparr>"
  have "getUser (ent_id ent) (nu_name ?inp) s = None" using assms(2) by simp
  then show ?thesis
  proof (cases rule: createUser_cases)
    case (created u)
    have "getUser (ent_id ent) c (s\<lparr>sso_users := sso_users s @ [(ent_id ent, u)]\<rparr>) = Some u"
      using getUser_append [OF assms(2), of u] created(2) by (simp add: new_user_def)
    then have "find_existing ent identity preferred (s\<lparr>sso_users := sso_users s @ [(ent_id ent, u)], user_events := ev\<rparr>) = Some u" for ev
      by (intro find_existing_first(1) [OF assms(1)]) (simp add: getUser_def)
    then show ?thesis using created by (simp add: ensure_insert_def free.guarded_simps appendUserEvent_def)
  qed (simp add: ensure_insert_def free.guarded_simps)
qed

lemma free_attempts:
  assumes first: "ensureSsoUserCandidates ent identity preferred = c # cs" and clean: "clean_name c"
  shows "free.guarded (ensure_attempts left ent identity preferred)
    (\<lambda>_ t r. en_created r \<longrightarrow> (\<exists>u. find_existing ent identity preferred t = Some u \<and> en_user r = toDto u)) (\<lambda>_ _ _. True) m s"
    (is "free.guarded _ ?Q ?E m s")
proof (induction left arbitrary: m s)
  case (Suc left)
  have "c \<noteq> []" using candidates_not_empty [of c "ssoUserFromEnsureInput ent" "[]"] first by (metis ensureSsoUserCandidates_def list.set_intros(1))
  note name = ensured_name [OF first clean this]
  have found: "free.guarded (existingEnsureUserResult ent u) ?Q ?E m s" for u m s
    by (rule free.guarded_mono [OF free_existing]) simp_all
  have last: "free.guarded (follow (look (getUser (ent_id ent) c)) (\<lambda>taken.
      if taken \<noteq> None then ensure_attempts left ent identity preferred else ensure_insert ent c password h x)) ?Q ?E m t" for password h x m t
    using Suc.IH free_insert [OF first] by (simp add: free.guarded_follow free.guarded_look)
  have hashed: "free.guarded (ensure_reserve (ensure_attempts left ent identity preferred) ent identity preferred x c password) ?Q ?E m t"
    for password x m t
    using found last
    by (auto simp: ensure_reserve_def hashPassword_def call_out_def free.guarded_follow [of "look _"] free.guarded_look
        split: sso_answer.split option.split)
  have named: "nextAvailableSsoUser (ent_id ent) (ensure_base ent identity preferred) pre (snd (getSsoRuntimeSettings (ent_id ent) s)) = c"
    if "find_existing ent identity preferred s = None" for pre s
    using that find_existing_first(2) [OF first] by (intro name) simp
  show ?case unfolding ensure_attempts.simps
    using found hashed named
    by (auto simp: runtime_settings_def reading_def free.guarded_follow [of "look _"] free.guarded_look free.guarded_follow [of "perform _"]
        free.guarded_perform free.guarded_follow [of "follow _ _"] free.guarded_giving split: option.split sum.split)
qed simp

text \<open>
  Ensuring a user is idempotent when the name that an identity asks for is clean: if a request created
  the user, then one for the same identity that finds the directory as the first left it answers the same
  user and creates none. (It is not for other identities: \<open>ensure_creates_again\<close>.)
\<close>

theorem ensure_idempotent:
  assumes "ensureSsoUserCandidates ent identity preferred = c # cs" and "clean_name c"
    and "session xs (ensureUser ent identity preferred) s = (tr, t, Give r)" and "en_created r"
    and "session ys (ensureUser ent identity preferred) t = (tr', t', Give r')"
  shows "\<not> en_created r' \<and> en_user r' = en_user r"
proof -
  obtain u where u: "find_existing ent identity preferred t = Some u" "en_user r = toDto u"
    using free.guarded_session [OF free_attempts [OF assms(1,2)] assms(3) [unfolded ensureUser_def]] assms(4) by (auto simp: list_all_iff)
  have "free.guarded (ensureUser ent identity preferred) (\<lambda>_ _ r. \<not> en_created r \<and> en_user r = toDto u) (\<lambda>_ _ _. True) m t" for m
    using u free_existing
    by (simp add: ensureUser_def ENSURE_USER_ATTEMPTS_def eval_nat_numeral free.guarded_follow [of "look _"] free.guarded_look)
  from free.guarded_session [OF this assms(5)] show ?thesis using u by (auto simp: list_all_iff)
qed

definition ensured where
  "ensured identity s = session [(Hashed ''h'' ''s'', s)] (ensureUser example_enterprise identity None) s"

definition ensured_again where
  "ensured_again identity s =
     (let t = fst (snd (ensured identity s)) in session [(Verified False, t), (Verified True, t)] (ensureUser example_enterprise identity None) t)"

theorem ensure_idempotent_witness:
  "(case snd (snd (ensured ''Alice_octo'' example_directory)) of
      Give r \<Rightarrow> (case snd (snd (ensured_again ''Alice_octo'' example_directory)) of
        Give r' \<Rightarrow> su_name (en_user r) = ''alice'' \<and> \<not> en_created r' \<and> en_user r' = en_user r | _ \<Rightarrow> False)
    | _ \<Rightarrow> False)"
proof -
  have first: "ensureSsoUserCandidates example_enterprise ''Alice_octo'' None = ''alice'' # []" by code_simp
  have clean: "clean_name ''alice''" by code_simp
  have "case snd (snd (ensured ''Alice_octo'' example_directory)) of Give r \<Rightarrow> en_created r \<and> su_name (en_user r) = ''alice'' | _ \<Rightarrow> False" by code_simp
  then obtain r where r: "snd (snd (ensured ''Alice_octo'' example_directory)) = Give r" "en_created r" "su_name (en_user r) = ''alice''"
    by (auto split: proc.splits)
  have "case snd (snd (ensured_again ''Alice_octo'' example_directory)) of Give r \<Rightarrow> True | _ \<Rightarrow> False" by code_simp
  then obtain r' where r': "snd (snd (ensured_again ''Alice_octo'' example_directory)) = Give r'" by (auto split: proc.splits)
  have one: "session [(Hashed ''h'' ''s'', example_directory)] (ensureUser example_enterprise ''Alice_octo'' None) example_directory =
      (fst (ensured ''Alice_octo'' example_directory), fst (snd (ensured ''Alice_octo'' example_directory)), Give r)"
    by (simp add: r(1) [symmetric]) (simp add: ensured_def)
  have two: "session [(Verified False, fst (snd (ensured ''Alice_octo'' example_directory))), (Verified True, fst (snd (ensured ''Alice_octo'' example_directory)))]
      (ensureUser example_enterprise ''Alice_octo'' None) (fst (snd (ensured ''Alice_octo'' example_directory))) =
      (fst (ensured_again ''Alice_octo'' example_directory), fst (snd (ensured_again ''Alice_octo'' example_directory)), Give r')"
    by (simp add: r' [symmetric]) (simp add: ensured_again_def Let_def)
  show ?thesis using ensure_idempotent [OF first clean one r(2) two] by (simp add: r r')
qed

text \<open>
  An identity whose first candidate ends with a hyphen, because it is cut off there or because the shortcode
  was removed behind it, gets a user without the hyphen: the next request does not find that user and
  creates another one.
\<close>

lemma ensure_creates_again:
  "(case snd (snd (ensured ''al-_octo'' example_directory)) of
      Give r \<Rightarrow> en_created r \<and> su_name (en_user r) = ''al'' | _ \<Rightarrow> False) \<and>
   (case snd (snd (ensured ''al-_octo'' (fst (snd (ensured ''al-_octo'' example_directory))))) of
      Give r \<Rightarrow> en_created r \<and> su_name (en_user r) = ''al-2'' | _ \<Rightarrow> False)"
proof
  show "case snd (snd (ensured ''al-_octo'' example_directory)) of
      Give r \<Rightarrow> en_created r \<and> su_name (en_user r) = ''al'' | _ \<Rightarrow> False"
    by code_simp
  show "case snd (snd (ensured ''al-_octo'' (fst (snd (ensured ''al-_octo'' example_directory))))) of
      Give r \<Rightarrow> en_created r \<and> su_name (en_user r) = ''al-2'' | _ \<Rightarrow> False"
    by code_simp
qed

end
