(* ===== verification/Spec2Isabelle.thy ===== *)
theory Spec2Isabelle
  imports Pool_Guarantees Enterprise_Scope Login_Guarantees Worker_Guarantees Worker_Recording Worker_Observation
    Management_Guarantees Sso_Guarantees
begin

text \<open>
  A verification library for the GitHub Copilot API console: a proxy that serves inference requests of
  many callers with a pool of managed accounts, a login service that authorises those accounts, a single
  sign-on service with the users behind them, and the code they share. Paths below are relative to the directory \<^verbatim>\<open>src/\<close> of the repository.

  \<^bold>\<open>The parts and how they interact.\<close> The proxy (\<^verbatim>\<open>proxy/src\<close>) admits a caller to a member of the user
  pool for a bounded time (\<open>acquire\<close>), keeps the hold alive (\<open>heartbeat\<close>) and ends it (\<open>finish\<close>). Members
  belong to enterprises with caps and a life cycle; of the workers of all proxy processes the one that owns
  the pool reserves new members and takes them, stage by stage, through single sign-on, GitHub and the
  login service until they are ready. The login service
  (\<^verbatim>\<open>login/src\<close>) queues authorisation tasks, runs a browser login for each and hands the token to the
  proxy, whose account table decides whether the token is still wanted. The single sign-on service
  (\<^verbatim>\<open>sso/src\<close>) keeps the users of every enterprise, brings them to GitHub by SCIM, assigns their Copilot seats,
  and hands the credentials of a user to the login service; it asks the proxy before it takes anything away
  from a user, since members of the pool are not its to change. All services identify an
  enterprise by an identifier in the path of a request, and offer batch operations over their records
  through one operation manager.

  \<^bold>\<open>Theories.\<close>
  \<^item> \<open>Pool_Prelude\<close>: the JavaScript library used throughout (stable sorts, remainders, comparisons),
    results of fallible code, and the rows of a table as lists with \<open>update_where\<close>, \<open>exists_row\<close>, \<open>first_by\<close>.
  \<^item> \<open>Pool_Ranking\<close>: \<^verbatim>\<open>packages/shared/src/enterprise/poolRanking.ts\<close>. Shares as exact rationals, ranking
    for creation and admission, creation plans.
  \<^item> \<open>Pool_Config\<close>: \<^verbatim>\<open>proxy/src/userPool/config.ts\<close>, \<^verbatim>\<open>names.ts\<close>, \<^verbatim>\<open>inferenceTimeout.ts\<close>. The environment
    is a map from names to strings; JSON values are the datatype \<open>js\<close>.
  \<^item> \<open>Enterprise_Scope\<close>: \<^verbatim>\<open>packages/shared/src/enterprise/scope.ts\<close>.
  \<^item> \<open>Pool_Scheduling\<close>: \<^verbatim>\<open>proxy/src/userPool/scheduling.ts\<close>. Supply, eligibility, admission order, edits of
    settings and policies.
  \<^item> \<open>Pool_Tables\<close>, \<open>Enterprise_Repo\<close>, \<open>Pool_Store\<close>, \<open>Pool_Lease\<close>, \<open>Pool_Members\<close>: the tables of
    \<^verbatim>\<open>proxy/src/userPool/store.ts\<close> as the record \<open>store\<close>, one definition per operation. A transaction that
    throws leaves the tables as they were (\<open>transaction\<close>); errors are values of \<open>pool_error\<close>.
  \<^item> \<open>Pool_Frame\<close>, \<open>Pool_Narrowing\<close>, \<open>Pool_Admission\<close>, \<open>Pool_Reservation\<close>, \<open>Pool_Policy\<close>: the invariant
    \<open>store_inv\<close> and the contracts of the operations, as locales interpreted on the model: operations that
    frame the tables, that only take holds away, that grant a hold, that add members, that edit a policy.
  \<^item> \<open>Proxy_Accounts\<close>: \<^verbatim>\<open>proxy/src/db/sqliteStorage.ts\<close>, accounts, credentials, statistics.
  \<^item> \<open>Pool_Machine\<close>, \<open>Pool_Guarantees\<close>: the step relation over all operations of the pool, its runs, and
    the properties of runs and operations.
  \<^item> \<open>Worker_Tenure\<close>: \<^verbatim>\<open>proxy/src/userPool/worker.ts\<close>, the class \<open>PrewarmWorker\<close> as the record of that name. Every
    stretch between two awaits is a reaction (\<open>react\<close>); promises under way are part of the state.
  \<^item> \<open>Worker_Cluster\<close>, \<open>Worker_Guarantees\<close>: several workers with clocks of their own over one store, requests
    that are lost, answered late or served late, and the invariant \<open>cluster_inv\<close> of their runs.
  \<^item> \<open>Async_Program\<close>: programs over awaited calls, their executions and the locale \<open>monitor\<close> with its weakest
    preconditions.
  \<^item> \<open>Worker_Provisioner\<close>, \<open>Worker_Effects\<close>: \<^verbatim>\<open>proxy/src/userPool/provisioner.ts\<close>, a definition per stage, and what
    its programs send, with the monitor interpreted on the calls of the adapter.
  \<^item> \<open>Worker_Advance\<close>: the step of the worker for one member (\<open>advance\<close> in \<^verbatim>\<open>worker.ts\<close>) with the fenced context
    it gives the adapter, and the observation of exhausted login reservations. The adapter's program runs
    inside the context (\<open>handle\<close>): each of its calls is replaced by the worker's code for it.
  \<^item> \<open>Worker_Fencing\<close>, \<open>Worker_Recording\<close>, \<open>Worker_Observation\<close>: three monitors of these programs: the evidence
    behind each write and request, the stage the store accepted before each request with a side effect,
    and the observation that only reads and releases.
  \<^item> \<open>Management_Operations\<close>, \<open>Management_Guarantees\<close>: \<^verbatim>\<open>packages/shared/src/operations.ts\<close> and the guards of
    \<^verbatim>\<open>operationRoutes.ts\<close>: selections, previews, the workers that perform the items, polling, expiry.
  \<^item> \<open>Login_Tasks\<close>, \<open>Login_Invariant\<close>: \<^verbatim>\<open>login/src/db/tasksRepo.ts\<close> as the record \<open>login_db\<close>, the invariant
    \<open>login_inv\<close>, and the locale \<open>progress_op\<close> of the operations that only move tasks forward.
  \<^item> \<open>Login_Enterprises\<close>, \<open>Login_Settings\<close>: the enterprise table with its identity checks, the runtime
    settings with their versions and the HTTP handler that edits them.
  \<^item> \<open>Login_Queue\<close>: \<^verbatim>\<open>login/src/tasks/\<close>. Every piece of an asynchronous function between two awaits is one
    definition; what the function still knows after the await is a row of the record \<open>login_world\<close>.
  \<^item> \<open>Login_Machine\<close>, \<open>Login_Recovery\<close>, \<open>Login_Guarantees\<close>: the steps of the login service in any order,
    including a restart at any moment, the invariant \<open>service_inv\<close> of its runs, and its properties.
  \<^item> \<open>Event_Loop\<close>: asynchronous functions of a process with synchronous storage (\<open>proc\<close>), the process that
    interleaves them, and the locale \<open>interference\<close>: one weakest precondition for a function alone with a
    changing state and for all functions of a process.
  \<^item> \<open>Sso_Settings\<close>, \<open>Sso_Users\<close>, \<open>Sso_Names\<close>: the settings, the user tables and their operations, the names and
    passwords of new users: \<^verbatim>\<open>sso/src/db/runtimeSettingsRepo.ts\<close>, \<^verbatim>\<open>usersRepo.ts\<close>, \<^verbatim>\<open>sso/src/users/ssoUserNames.ts\<close>,
    \<^verbatim>\<open>passwordPolicy.ts\<close>. The record \<open>sso_state\<close> holds the tables and what the process keeps in memory.
  \<^item> \<open>Sso_Scim\<close>, \<open>Sso_Service\<close>, \<open>Sso_Requests\<close>: \<^verbatim>\<open>sso/src/scim/scimClient.ts\<close>, \<^verbatim>\<open>sso/src/users/service.ts\<close>,
    \<^verbatim>\<open>bulkImport.ts\<close> and the handlers of \<^verbatim>\<open>sso/src/routes/usersApi.ts\<close> that decide something: a \<open>proc\<close> per asynchronous
    function; \<open>program_of\<close> gives the function of a request, \<open>beside\<close> what happens between the steps.
  \<^item> \<open>Sso_Invariant\<close>, \<open>Sso_Programs\<close>, \<open>Sso_Guarantees\<close>: the invariant \<open>users_inv\<close> and what users of the pool keep
    (\<open>kept\<close>) under every operation, the accesses of every program, and the properties of runs and requests.
  \<^item> \<open>Shared_Text\<close>: search patterns, CSV export (\<^verbatim>\<open>packages/shared/src/management.ts\<close>) and redaction
    (\<^verbatim>\<open>redact.ts\<close>), with a reader of CSV and the meaning of SQL's \<open>LIKE\<close> as reference definitions.

  \<^bold>\<open>What is a parameter.\<close> The hash \<open>sha256\<close>, the catalog of base names, new UUIDs, the time of a
  transaction, the replies of other services, of the browser login and of the file system, the JSON bodies
  they carry, \<open>Date.parse\<close>. Hypotheses on them are stated where they are used: new identifiers differ from
  all issued ones and contain no colon, the name catalog is valid. The cluster assumes that a monotonic
  clock runs at the rate of the store's clock (each with its own offset), and that no other operation of
  the store writes the two columns of the owner.

  \<^bold>\<open>Conventions.\<close> Times are milliseconds as integers, timestamps in text form are the instants they
  denote. All reads of the clock in one transaction give the same instant. The order in which SQL returns
  rows without a key that distinguishes them is the order of insertion. Numbers of JavaScript in the
  modelled code stay in the range of exact integers, and divisions are rationals. Log lines are not
  modelled. Loops that run over data recurse on it; the creation plan has the deficit as its fuel, which
  is enough because every iteration adds one planned member or ends the plan; the search for a login task
  recurses on the ten pages the code allows; a SCIM request recurses on the repetitions that the settings
  allow, the ensuring of a user on its three attempts, the search for a free numbered name on the distance
  to its last number; the walk over the pages of a selection is a partial function,
  and \<open>selection_resolved_exactly\<close> shows that it ends.

  \<^bold>\<open>What the lemmas show.\<close> For the pool: in every reachable state no two callers share a member, no caller
  has two, references and keys hold, counters are exact and caps fit; revoked holds stay revoked; a plan
  fills up to the caps and not beyond; a 401 is answered within a budget; only the owner writes. For the
  login service: in every reachable state an account has at most one active task, running tasks have
  their slots, queued tasks are not lost, finished attempts are final, and a restart closes everything.
  For the workers: at most one replica is active, its tenure is the one the store accepts, ownership passes
  through a free lock, a replica of a multi-replica deployment can take over on its own within the
  lifetime of a lease (30 seconds), and steps that are not aborted belong to the tenure held. For the provisioner: no request with a side effect is
  sent without the record that guards it, which the store has accepted before; the creation, the
  synchronisation and the seat assignment of a member are each sent at most once over its life (a login task
  may be submitted again, for a new attempt); the adapter's step ends within 60 calls. For the worker's
  step around it: writes are fenced with a row read just before under a renewed tenure, requests follow such
  a check, the step ends within 1000 calls, and an observation of a login reservation only releases it.
  For batch operations: no item is performed twice, unreadable progress ends polling
  after ten attempts, a selection is resolved exactly or refused above 1000.
  For the single sign-on service: in every run of the modelled requests names are unique up to case, the
  limit of users holds, and users of the pool are neither changed nor deleted; nothing is taken from a user
  before the proxy said that it is no member of the pool; a user of the pool reaches GitHub only as a new
  user; an identity is not given a second user if its first candidate for a name is clean, and may be given
  one otherwise (\<open>ensure_creates_again\<close>).
  For the rest: exact effects of edits, refusal of identity changes, round trips of CSV and of deletion
  claims, and that a late token cannot undo a cancellation.

  \<^bold>\<open>Not modelled.\<close> The MySQL drivers (the same contract as the modelled SQLite drivers, with row locks),
  the branches of the adapter for injected test dependencies, request translation and the Copilot client,
  of the single sign-on service SAML, sessions, budgets, the HTTP calls of the seat client, the plans of an
  import from GitHub (only their writes, as steps beside the requests) and the checks of request bodies, the
  browser automation, and the console's user interface.
\<close>

end
